(* ===== verification/Rx_Prelude.thy ===== *)
theory Rx_Prelude
  imports Main "HOL-Library.Word"
begin

text \<open>
  Shared vocabulary of the rx-os development: the machine types of the Rust sources, the
  outcome type in which a panic is a value, the arithmetic of the development build (the
  Makefile runs the kernel with a plain \<^verbatim>\<open>cargo run\<close>, so \<open>+\<close>, \<open>-\<close> and \<open>*\<close> panic on overflow
  and \<^verbatim>\<open>debug_assert!\<close> is active), little-endian encoding, and physical memory as an array
  of bytes.
\<close>

unbundle bit_operations_syntax

named_theorems outcome_simps \<open>evaluation of the outcome combinators\<close>
named_theorems mem_simps \<open>loads after stores\<close>

section \<open>Machine types\<close>

type_synonym u8 = "8 word"
type_synonym u16 = "16 word"
type_synonym u32 = "32 word"
type_synonym usize = "64 word"

section \<open>Panics as values\<close>

text \<open>
  One constructor per way the modelled code can panic: first the panics the language
  itself raises, then the explicit \<^verbatim>\<open>panic!\<close>, \<^verbatim>\<open>assert!\<close>, \<^verbatim>\<open>unwrap\<close> and \<^verbatim>\<open>expect\<close> sites.
\<close>

datatype panic =
    Overflow | OutOfBounds | LengthMismatch | UnwrapNone | AssertFailed | Unimplemented
  | AllocError
  | Remap | KernelMapFailed | UinitTooLarge
  | UunmapNotAligned | UunmapNotMapped | UunmapNotLeaf | UunmapNoPte
  | UcopyNotPresent | UcopyNoPte | UclearNoPte | PgtFreeLeaf
  | NoUsableBuffer | BufUnpinMismatch
  | LogNotCommitting | LogNoSpace | LogOutOfTransaction | LogEndWhileCommitting
  | BadMagic | InumTooLarge | BitmapDoubleFree | BitmapFull | NoFreeInode
  | InodeCacheFull | InodeEmptyType | NotADirectory | DirReadFailed
  | MutexReacquire | MutexNotHeld | PopOffEnabled | PopOffMismatch
  | SchedManyLocks | SchedRunning | SchedInterruptible
  | FileNotReadable | FileNotWriteable | InvalidFile
  | DescIndex | DiskStatus | NoDisk | NoDiskQueue | OutOfFuel
  | TooManyArgs | InvalidUserAddr | SbrkFailed | LoadSegUnaligned | LoadSegUnmapped
  | NotFromUser | NotFromSupervisor | TrapInterruptsOn | UnresolvedTrap | UnresolvedInterrupt
  | KernelFault

type_synonym 'a outcome = "panic + 'a"

definition bindR :: "'a outcome \<Rightarrow> ('a \<Rightarrow> 'b outcome) \<Rightarrow> 'b outcome" where
  "bindR r f = (case r of Inl e \<Rightarrow> Inl e | Inr x \<Rightarrow> f x)"

lemma bindR_simps [simp, outcome_simps]:
  "bindR (Inl e) f = Inl e"
  "bindR (Inr x) f = f x"
  by (simp_all add: bindR_def)

lemma bindR_eq_Inr_iff [outcome_simps]:
  "bindR r f = Inr y \<longleftrightarrow> (\<exists>x. r = Inr x \<and> f x = Inr y)"
  by (cases r) simp_all

lemma bindR_eq_Inl_iff [outcome_simps]:
  "bindR r f = Inl e \<longleftrightarrow> r = Inl e \<or> (\<exists>x. r = Inr x \<and> f x = Inl e)"
  by (cases r) simp_all

lemma bindR_assoc: "bindR (bindR r f) g = bindR r (\<lambda>x. bindR (f x) g)"
  by (cases r) simp_all

lemma bindR_cong [fundef_cong]:
  "r = r' \<Longrightarrow> (\<And>x. r' = Inr x \<Longrightarrow> f x = g x) \<Longrightarrow> bindR r f = bindR r' g"
  by (cases r') simp_all

text \<open>\<^verbatim>\<open>Option::unwrap\<close> and \<^verbatim>\<open>assert!\<close>.\<close>

definition unwrap :: "'a option \<Rightarrow> 'a outcome" where
  "unwrap x = (case x of None \<Rightarrow> Inl UnwrapNone | Some y \<Rightarrow> Inr y)"

lemma unwrap_simps [simp]:
  "unwrap None = Inl UnwrapNone"
  "unwrap (Some y) = Inr y"
  by (simp_all add: unwrap_def)

lemma unwrap_eq_Inr_iff [outcome_simps]: "unwrap x = Inr y \<longleftrightarrow> x = Some y"
  by (cases x) simp_all

definition guardR :: "bool \<Rightarrow> panic \<Rightarrow> unit outcome" where
  "guardR b e = (if b then Inr () else Inl e)"

lemma guardR_simps [simp]:
  "guardR True e = Inr ()"
  "guardR False e = Inl e"
  by (simp_all add: guardR_def)

lemma guardR_eq_Inr_iff [outcome_simps]: "guardR b e = Inr u \<longleftrightarrow> b"
  by (cases b) simp_all

text \<open>A loop over a list whose body may panic.\<close>

primrec foldR :: "('a \<Rightarrow> 's \<Rightarrow> 's outcome) \<Rightarrow> 'a list \<Rightarrow> 's \<Rightarrow> 's outcome" where
  "foldR f [] s = Inr s"
| "foldR f (x # xs) s = bindR (f x s) (foldR f xs)"

lemma foldR_map: "foldR f (map g xs) = foldR (\<lambda>x. f (g x)) xs"
  by (induction xs; rule ext; simp)

lemma foldR_append: "foldR f (xs @ ys) s = bindR (foldR f xs s) (foldR f ys)"
  by (induction xs arbitrary: s) (auto simp: bindR_def split: sum.splits)

text \<open>An invariant of the body is an invariant of the loop, and a body that cannot panic under
  it gives a loop that cannot panic.\<close>

lemma foldR_invariant:
  assumes "I s" "\<And>x s. x \<in> set xs \<Longrightarrow> I s \<Longrightarrow> \<exists>s'. f x s = Inr s' \<and> I s'"
  shows "\<exists>s'. foldR f xs s = Inr s' \<and> I s'"
  using assms
proof (induction xs arbitrary: s)
  case (Cons x xs)
  from Cons.prems(2) [of x s] Cons.prems(1) obtain s1 where "f x s = Inr s1" "I s1" by auto
  with Cons.IH [of s1] Cons.prems(2) show ?case by auto
qed simp

section \<open>Whatever an operation returns\<close>

text \<open>\<open>okR P r\<close>: if \<open>r\<close> is not a panic, its value satisfies \<open>P\<close>. The rules follow the structure of an
  operation and leave the value of each of its steps as an equation.\<close>

definition okR :: "('a \<Rightarrow> bool) \<Rightarrow> 'a outcome \<Rightarrow> bool" where
  "okR P r \<longleftrightarrow> (\<forall>x. r = Inr x \<longrightarrow> P x)"

lemma okRD: "okR P r \<Longrightarrow> r = Inr x \<Longrightarrow> P x"
  by (simp add: okR_def)

lemma okR_weaken: "okR P r \<Longrightarrow> (\<And>x. P x \<Longrightarrow> Q x) \<Longrightarrow> okR Q r"
  by (simp add: okR_def)

lemma okR_intros:
  "P x \<Longrightarrow> okR P (Inr x)"
  "okR P (Inl e)"
  "(\<And>x. m = Inr x \<Longrightarrow> okR P (f x)) \<Longrightarrow> okR P (bindR m f)"
  "(b \<Longrightarrow> okR P r) \<Longrightarrow> (\<not> b \<Longrightarrow> okR P r') \<Longrightarrow> okR P (if b then r else r')"
  "(z = None \<Longrightarrow> okR P r) \<Longrightarrow> (\<And>y. z = Some y \<Longrightarrow> okR P (g y)) \<Longrightarrow> okR P (case z of None \<Rightarrow> r | Some y \<Rightarrow> g y)"
  "(\<And>y. w = Inl y \<Longrightarrow> okR P (i y)) \<Longrightarrow> (\<And>y. w = Inr y \<Longrightarrow> okR P (j y)) \<Longrightarrow> okR P (case w of Inl y \<Rightarrow> i y | Inr y \<Rightarrow> j y)"
  "(\<And>a b. q = (a, b) \<Longrightarrow> okR P (h a b)) \<Longrightarrow> okR P (case q of (a, b) \<Rightarrow> h a b)"
  "(\<And>a b. q = (a, b) \<Longrightarrow> okR P (n a b c)) \<Longrightarrow> okR P ((case q of (a, b) \<Rightarrow> n a b) c)"
  "okR P (l v) \<Longrightarrow> okR P (Let v l)"
  by (auto simp: okR_def bindR_def split: option.splits sum.splits prod.splits)

named_theorems frames \<open>what an operation that returns has kept\<close>

lemma foldR_ok:
  assumes "\<And>x s s'. f x s = Inr s' \<Longrightarrow> R s s'" "\<And>s. R s s" "\<And>s s1 s2. R s s1 \<Longrightarrow> R s1 s2 \<Longrightarrow> R s s2"
  shows "okR (R s) (foldR f xs s)"
proof (induction xs arbitrary: s)
  case (Cons x xs)
  have "R s s2" if "f x s = Inr s1" "foldR f xs s1 = Inr s2" for s1 s2
    using assms(3) [OF assms(1) [OF that(1)]] okRD [OF Cons that(2)] by blast
  then show ?case by (auto simp: okR_def outcome_simps)
qed (simp add: okR_def assms(2))

text \<open>Lists with one element replaced, and paired with positions.\<close>

lemma map_update_same: "i < length xs \<Longrightarrow> f y = f (xs ! i) \<Longrightarrow> map f (xs[i := y]) = map f xs"
  by (metis list_update_id map_update)

lemma map_zip_index: "map (\<lambda>x. f (snd x)) (zip [0..<length xs] xs) = map f xs"
  by (rule nth_equalityI) simp_all

section \<open>Checked arithmetic\<close>

definition checked_add :: "'a::len word \<Rightarrow> 'a word \<Rightarrow> 'a word option" where
  "checked_add a b = (if unat a + unat b < 2 ^ LENGTH('a) then Some (a + b) else None)"

definition add_ck :: "'a::len word \<Rightarrow> 'a word \<Rightarrow> 'a word outcome" where
  "add_ck a b = (if unat a + unat b < 2 ^ LENGTH('a) then Inr (a + b) else Inl Overflow)"

definition sub_ck :: "'a::len word \<Rightarrow> 'a word \<Rightarrow> 'a word outcome" where
  "sub_ck a b = (if b \<le> a then Inr (a - b) else Inl Overflow)"

lemma add_ck_eq_Inr_iff:
  "add_ck a b = Inr c \<longleftrightarrow> unat a + unat b < 2 ^ LENGTH('a) \<and> c = (a::'a::len word) + b"
  by (auto simp: add_ck_def)

lemma add_ck_unat: "add_ck a b = Inr c \<Longrightarrow> unat c = unat a + unat b"
  by (auto simp: add_ck_eq_Inr_iff unat_word_ariths)

lemma sub_ck_eq_Inr_iff: "sub_ck a b = Inr c \<longleftrightarrow> b \<le> a \<and> c = a - b"
  by (auto simp: sub_ck_def)

lemma sub_ck_unat: "sub_ck a b = Inr c \<Longrightarrow> unat c = unat a - unat b"
  by (auto simp: sub_ck_eq_Inr_iff unat_sub_if_size word_le_nat_alt)

text \<open>Increment and decrement of a \<^verbatim>\<open>usize\<close> counter kept as a natural number.\<close>

definition usize_inc :: "nat \<Rightarrow> nat outcome" where
  "usize_inc n = (if n + 1 < 2 ^ 64 then Inr (n + 1) else Inl Overflow)"

definition usize_dec :: "nat \<Rightarrow> nat outcome" where
  "usize_dec n = (if n = 0 then Inl Overflow else Inr (n - 1))"

section \<open>Array access\<close>

text \<open>Rust indexing: a read or a write out of range panics.\<close>

definition idx_get :: "'a list \<Rightarrow> nat \<Rightarrow> 'a outcome" where
  "idx_get xs i = (if i < length xs then Inr (xs ! i) else Inl OutOfBounds)"

definition idx_set :: "'a list \<Rightarrow> nat \<Rightarrow> 'a \<Rightarrow> 'a list outcome" where
  "idx_set xs i v = (if i < length xs then Inr (xs[i := v]) else Inl OutOfBounds)"

lemma idx_get_eq_Inr_iff [outcome_simps]:
  "idx_get xs i = Inr v \<longleftrightarrow> i < length xs \<and> v = xs ! i"
  by (auto simp: idx_get_def)

lemma idx_set_eq_Inr_iff [outcome_simps]:
  "idx_set xs i v = Inr ys \<longleftrightarrow> i < length xs \<and> ys = xs[i := v]"
  by (auto simp: idx_set_def)

lemma idx_get_in [simp]: "i < length xs \<Longrightarrow> idx_get xs i = Inr (xs ! i)"
  by (simp add: idx_get_def)

lemma idx_set_in [simp]: "i < length xs \<Longrightarrow> idx_set xs i v = Inr (xs[i := v])"
  by (simp add: idx_set_def)

section \<open>Little-endian encoding\<close>

definition to_le :: "nat \<Rightarrow> 'a::len word \<Rightarrow> u8 list" where
  "to_le k w = map (\<lambda>i. ucast (drop_bit (8 * i) w)) [0..<k]"

primrec of_le :: "u8 list \<Rightarrow> 'a::len word" where
  "of_le [] = 0"
| "of_le (b # bs) = ucast b OR push_bit 8 (of_le bs)"

lemma length_to_le [simp]: "length (to_le k w) = k"
  by (simp add: to_le_def)

lemma nth_to_le: "i < k \<Longrightarrow> to_le k w ! i = ucast (drop_bit (8 * i) w)"
  by (simp add: to_le_def)

lemma bit_of_le:
  "bit (of_le bs :: 'a::len word) n \<longleftrightarrow>
     n < LENGTH('a) \<and> n div 8 < length bs \<and> bit (bs ! (n div 8)) (n mod 8)"
proof (induction bs arbitrary: n)
  case Nil
  then show ?case by simp
next
  case (Cons b bs)
  show ?case
  proof (cases "n < 8")
    case True
    then show ?thesis
      by (auto simp: bit_or_iff bit_push_bit_iff bit_ucast_iff)
  next
    case False
    then have "n div 8 = Suc ((n - 8) div 8)" "n mod 8 = (n - 8) mod 8"
      by (simp_all add: le_div_geq le_mod_geq not_less)
    with False Cons.IH [of "n - 8"] show ?thesis
      by (auto simp: bit_or_iff bit_push_bit_iff bit_ucast_iff dest: bit_imp_le_length)
  qed
qed

lemma of_le_to_le [simp]:
  assumes "LENGTH('a) \<le> 8 * k"
  shows "of_le (to_le k (w::'a::len word)) = w"
proof (rule bit_word_eqI)
  fix n assume n: "n < LENGTH('a)"
  with assms have "n div 8 < k" by (simp add: less_mult_imp_div_less mult.commute)
  with n show "bit (of_le (to_le k w) :: 'a word) n = bit w n"
    by (simp add: bit_of_le nth_to_le bit_ucast_iff bit_drop_bit_eq)
qed

section \<open>Physical memory\<close>

text \<open>
  Physical memory is addressed by the numeric value of a pointer. The kernel is identity
  mapped, so the pointers it dereferences are physical addresses.
\<close>

type_synonym pmem = "nat \<Rightarrow> u8"

definition load_bytes :: "pmem \<Rightarrow> nat \<Rightarrow> nat \<Rightarrow> u8 list" where
  "load_bytes m a n = map (\<lambda>i. m (a + i)) [0..<n]"

definition store_bytes :: "pmem \<Rightarrow> nat \<Rightarrow> u8 list \<Rightarrow> pmem" where
  "store_bytes m a bs = (\<lambda>x. if a \<le> x \<and> x < a + length bs then bs ! (x - a) else m x)"

definition fill_zero :: "pmem \<Rightarrow> nat \<Rightarrow> nat \<Rightarrow> pmem" where
  "fill_zero m a n = (\<lambda>x. if a \<le> x \<and> x < a + n then 0 else m x)"

definition load64 :: "pmem \<Rightarrow> nat \<Rightarrow> usize" where
  "load64 m a = of_le (load_bytes m a 8)"

definition store64 :: "pmem \<Rightarrow> nat \<Rightarrow> usize \<Rightarrow> pmem" where
  "store64 m a v = store_bytes m a (to_le 8 v)"

lemma length_load_bytes [simp]: "length (load_bytes m a n) = n"
  by (simp add: load_bytes_def)

lemma nth_load_bytes [simp]: "i < n \<Longrightarrow> load_bytes m a n ! i = m (a + i)"
  by (simp add: load_bytes_def)

lemma store_bytes_outside [mem_simps]:
  "x < a \<or> a + length bs \<le> x \<Longrightarrow> store_bytes m a bs x = m x"
  by (auto simp: store_bytes_def)

lemma store_bytes_inside [mem_simps]:
  "i < length bs \<Longrightarrow> store_bytes m a bs (a + i) = bs ! i"
  by (simp add: store_bytes_def)

lemma load_store_bytes_same [simp]:
  "n = length bs \<Longrightarrow> load_bytes (store_bytes m a bs) a n = bs"
  by (rule nth_equalityI) (simp_all add: store_bytes_def)

lemma load_store_bytes_disjoint [mem_simps]:
  "a + n \<le> b \<or> b + length bs \<le> a \<Longrightarrow>
   load_bytes (store_bytes m b bs) a n = load_bytes m a n"
  by (rule nth_equalityI) (auto simp: store_bytes_def)

lemma store_bytes_Nil [simp]: "store_bytes m a [] = m"
  by (auto simp: store_bytes_def fun_eq_iff)

lemma store_bytes_append:
  "store_bytes m a (xs @ ys) = store_bytes (store_bytes m a xs) (a + length xs) ys"
  by (auto simp: store_bytes_def nth_append fun_eq_iff)

lemma load_bytes_append:
  "load_bytes m a (n + k) = load_bytes m a n @ load_bytes m (a + n) k"
  by (rule nth_equalityI) (auto simp: nth_append)

lemma load64_store64_same [simp]: "load64 (store64 m a v) a = v"
  by (simp add: load64_def store64_def)

lemma load64_store64_disjoint [mem_simps]:
  "a + 8 \<le> b \<or> b + 8 \<le> a \<Longrightarrow> load64 (store64 m b v) a = load64 m a"
  by (simp add: load64_def store64_def load_store_bytes_disjoint)

lemma load64_store_bytes_disjoint [mem_simps]:
  "a + 8 \<le> b \<or> b + length bs \<le> a \<Longrightarrow> load64 (store_bytes m b bs) a = load64 m a"
  by (simp add: load64_def load_store_bytes_disjoint)

lemma load_bytes_store64_disjoint [mem_simps]:
  "a + n \<le> b \<or> b + 8 \<le> a \<Longrightarrow> load_bytes (store64 m b v) a n = load_bytes m a n"
  by (simp add: store64_def load_store_bytes_disjoint)

lemma store64_outside [mem_simps]: "x < a \<or> a + 8 \<le> x \<Longrightarrow> store64 m a v x = m x"
  by (simp add: store64_def store_bytes_outside)

lemma of_le_zeros: "set bs \<subseteq> {0} \<Longrightarrow> of_le bs = 0"
  by (induction bs) auto

lemma load64_fill_zero_inside [mem_simps]:
  assumes "a \<le> x" "x + 8 \<le> a + n"
  shows "load64 (fill_zero m a n) x = 0"
proof -
  have "set (load_bytes (fill_zero m a n) x 8) \<subseteq> {0}"
    using assms by (auto simp: load_bytes_def fill_zero_def)
  then show ?thesis
    by (simp add: load64_def of_le_zeros)
qed

lemma load_bytes_fill_zero_disjoint [mem_simps]:
  "x + k \<le> a \<or> a + n \<le> x \<Longrightarrow> load_bytes (fill_zero m a n) x k = load_bytes m x k"
  by (rule nth_equalityI) (auto simp: fill_zero_def)

lemma load64_fill_zero_disjoint [mem_simps]:
  "x + 8 \<le> a \<or> a + n \<le> x \<Longrightarrow> load64 (fill_zero m a n) x = load64 m x"
  by (simp add: load64_def load_bytes_fill_zero_disjoint)

end
