(* ===== verification/Rx_Address.thy ===== *)
theory Rx_Address
  imports Rx_Prelude
begin

text \<open>
  The memory layout constants of \<^verbatim>\<open>arch/riscv/qemu/layout.rs\<close> and the address arithmetic of
  \<^verbatim>\<open>memory/address.rs\<close> and \<^verbatim>\<open>memory/mapping/mod.rs\<close>. \<^verbatim>\<open>PhysicalAddress\<close> and
  \<^verbatim>\<open>VirtualAddress\<close> are one-field wrappers of \<open>usize\<close>; the model uses the \<open>usize\<close> itself. A method
  that updates its receiver returns the new value.
\<close>

section \<open>Layout\<close>

definition UART0 :: usize where "UART0 = 0x10000000"
definition VIRTIO0 :: usize where "VIRTIO0 = 0x10001000"
definition CLINT :: usize where "CLINT = 0x2000000"
definition PLIC_BASE :: usize where "PLIC_BASE = 0x0c000000"
definition E1000_REGS :: usize where "E1000_REGS = 0x40000000"
definition ECAM :: usize where "ECAM = 0x30000000"
definition VIRT_TEST :: usize where "VIRT_TEST = 0x100000"

definition MEM_SIZE :: usize where "MEM_SIZE = 4 * 1024 * 1024 * 1024"
definition KERNEL_BASE :: usize where "KERNEL_BASE = 0x80000000"
definition PHYSTOP :: usize where "PHYSTOP = KERNEL_BASE + MEM_SIZE"

definition PGSIZE :: usize where "PGSIZE = 4096"
definition PGSHIFT :: nat where "PGSHIFT = 12"
definition PGMASKLEN :: nat where "PGMASKLEN = 9"
definition PGMASK :: usize where "PGMASK = 0x1FF"
definition STACK_SIZE :: usize where "STACK_SIZE = PGSIZE * 16"
definition MAXVA :: usize where "MAXVA = push_bit (9 + 9 + 9 + 12 - 1) 1"
definition TRAMPOLINE :: usize where "TRAMPOLINE = MAXVA - PGSIZE"
definition TRAPFRAME :: usize where "TRAPFRAME = TRAMPOLINE - PGSIZE"
definition USTACK_SIZE :: usize where "USTACK_SIZE = PGSIZE"
definition USTACK_BASE :: usize where "USTACK_BASE = TRAPFRAME - PGSIZE"
definition HUGE_PGSIZE :: usize where "HUGE_PGSIZE = 0x200000"

lemmas layout_defs = MEM_SIZE_def KERNEL_BASE_def PHYSTOP_def PGSIZE_def PGSHIFT_def
  PGMASKLEN_def PGMASK_def STACK_SIZE_def MAXVA_def TRAMPOLINE_def TRAPFRAME_def
  USTACK_SIZE_def USTACK_BASE_def HUGE_PGSIZE_def

lemma layout_values:
  "KERNEL_BASE = 0x80000000" "PHYSTOP = 0x180000000" "MAXVA = 0x4000000000"
  "TRAMPOLINE = 0x3FFFFFF000" "TRAPFRAME = 0x3FFFFFE000" "USTACK_BASE = 0x3FFFFFD000"
  by (simp_all add: layout_defs)

lemma unat_layout [simp]:
  "unat KERNEL_BASE = 0x80000000" "unat PHYSTOP = 0x180000000" "unat PGSIZE = 4096"
  "unat MAXVA = 0x4000000000" "unat HUGE_PGSIZE = 0x200000"
  by (simp_all add: layout_values PGSIZE_def HUGE_PGSIZE_def)

section \<open>Address operations\<close>

definition is_page_aligned :: "usize \<Rightarrow> bool" where
  "is_page_aligned a \<longleftrightarrow> a mod PGSIZE = 0"

definition is_hpage_aligned :: "usize \<Rightarrow> bool" where
  "is_hpage_aligned a \<longleftrightarrow> a mod HUGE_PGSIZE = 0"

definition pg_round_up :: "usize \<Rightarrow> usize outcome" where
  "pg_round_up a = bindR (add_ck a PGSIZE) (\<lambda>b. bindR (sub_ck b 1) (\<lambda>c. Inr (c AND NOT (PGSIZE - 1))))"

definition pg_round_down :: "usize \<Rightarrow> usize" where
  "pg_round_down a = a AND NOT (PGSIZE - 1)"

definition hpg_round_down :: "usize \<Rightarrow> usize" where
  "hpg_round_down a = a AND NOT (HUGE_PGSIZE - 1)"

definition hpg_round_up :: "usize \<Rightarrow> usize outcome" where
  "hpg_round_up a =
     bindR (add_ck a HUGE_PGSIZE) (\<lambda>b. bindR (sub_ck b 1) (\<lambda>c. Inr (c AND NOT (HUGE_PGSIZE - 1))))"

definition add_page :: "usize \<Rightarrow> usize outcome" where
  "add_page a = add_ck a PGSIZE"

definition add_huge_page :: "usize \<Rightarrow> usize outcome" where
  "add_huge_page a = add_ck a HUGE_PGSIZE"

definition va_compare :: "usize \<Rightarrow> usize \<Rightarrow> bool" where
  "va_compare a b \<longleftrightarrow> a > b"

definition va_equal :: "usize \<Rightarrow> usize \<Rightarrow> bool" where
  "va_equal a b \<longleftrightarrow> a = b"

definition add_addr :: "usize \<Rightarrow> usize \<Rightarrow> usize outcome" where
  "add_addr a n = add_ck a n"

definition va_sub :: "usize \<Rightarrow> usize \<Rightarrow> usize outcome" where
  "va_sub a b = sub_ck a b"

definition page_num :: "usize \<Rightarrow> nat \<Rightarrow> usize" where
  "page_num va level = drop_bit (PGSHIFT + level * PGMASKLEN) va AND PGMASK"

text \<open>The free functions of \<^verbatim>\<open>memory/mapping/mod.rs\<close>.\<close>

definition page_round_up :: "usize \<Rightarrow> usize outcome" where
  "page_round_up a = bindR (add_ck a PGSIZE) (\<lambda>b. bindR (sub_ck b 1) (\<lambda>c. Inr (c AND NOT (PGSIZE - 1))))"

definition page_round_down :: "usize \<Rightarrow> usize" where
  "page_round_down a = a AND NOT (PGSIZE - 1)"

section \<open>What the address operations compute\<close>

lemma and_not_mask_eq: "(a::usize) AND NOT (mask k) = push_bit k (drop_bit k a)"
  by (rule bit_word_eqI) (auto simp: bit_simps)

lemma unat_and_not_mask:
  assumes "k < 64"
  shows "unat ((a::usize) AND NOT (mask k)) = unat a div 2 ^ k * 2 ^ k"
proof -
  have "unat a div 2 ^ k * 2 ^ k \<le> unat a" by simp
  also have "\<dots> < 2 ^ 64" using unsigned_less [of a, where ?'a = nat] by simp
  finally have "unat a div 2 ^ k * 2 ^ k < 2 ^ 64" .
  moreover have "unat (push_bit k (drop_bit k a)) = (unat a div 2 ^ k * 2 ^ k) mod 2 ^ 64"
    by (simp only: unsigned_push_bit_eq unat_drop_bit_eq)
      (simp add: drop_bit_eq_div push_bit_eq_mult take_bit_eq_mod)
  ultimately show ?thesis by (simp add: and_not_mask_eq)
qed

lemma pgsize_mask: "PGSIZE - 1 = mask 12" "HUGE_PGSIZE - 1 = mask 21"
  by (simp_all add: layout_defs mask_eq_exp_minus_1)

lemma unat_pg_round_down [simp]: "unat (pg_round_down a) = unat a div 4096 * 4096"
  using unat_and_not_mask [of 12 a] by (simp add: pg_round_down_def pgsize_mask)

lemma is_page_aligned_unat: "is_page_aligned a \<longleftrightarrow> unat a mod 4096 = 0"
proof -
  have "is_page_aligned a \<longleftrightarrow> unat (a mod PGSIZE) = 0"
    by (simp add: is_page_aligned_def unat_eq_zero)
  then show ?thesis by (simp add: unat_mod)
qed

lemma pg_round_up_eq:
  "pg_round_up a =
     (if unat a + 4096 < 2 ^ 64 then Inr (pg_round_down (a + 4095)) else Inl Overflow)"
proof (cases "unat a + 4096 < 2 ^ 64")
  case True
  then have "unat (a + PGSIZE) = unat a + 4096"
    by (simp add: unat_word_ariths)
  then have "1 \<le> a + PGSIZE"
    by (simp add: word_le_nat_alt)
  then have "pg_round_up a = Inr ((a + PGSIZE - 1) AND NOT (PGSIZE - 1))"
    using True by (simp add: pg_round_up_def add_ck_def sub_ck_def)
  with True show ?thesis by (simp add: pg_round_down_def PGSIZE_def add.commute)
next
  case False
  then show ?thesis by (simp add: pg_round_up_def add_ck_def)
qed

lemma pg_round_up_eq_Inr:
  "pg_round_up a = Inr b \<longleftrightarrow> unat a + 4096 < 2 ^ 64 \<and> b = pg_round_down (a + 4095)"
  by (auto simp: pg_round_up_eq)

lemma page_round_up_eq [simp]: "page_round_up = pg_round_up"
  by (simp add: fun_eq_iff page_round_up_def pg_round_up_def)

lemma page_round_down_eq [simp]: "page_round_down = pg_round_down"
  by (simp add: fun_eq_iff page_round_down_def pg_round_down_def)

lemma unat_pg_round_up:
  "pg_round_up a = Inr b \<Longrightarrow> unat b = (unat a + 4095) div 4096 * 4096"
  by (auto simp: pg_round_up_eq_Inr unat_word_ariths)

lemma page_num_unat: "unat (page_num va level) = unat va div 2 ^ (12 + 9 * level) mod 512"
proof -
  have "PGMASK = mask 9" by (simp add: PGMASK_def mask_eq_exp_minus_1)
  then have "page_num va level = take_bit 9 (drop_bit (12 + 9 * level) va)"
    by (simp only: page_num_def PGSHIFT_def PGMASKLEN_def take_bit_eq_mask mult.commute)
  then have "unat (page_num va level) = take_bit 9 (drop_bit (12 + 9 * level) (unat va))"
    by (simp only: unsigned_take_bit_eq unat_drop_bit_eq)
  then show ?thesis by (simp add: take_bit_eq_mod drop_bit_eq_div)
qed

lemma page_num_lt [simp]: "unat (page_num va level) < 512"
  by (simp add: page_num_unat)

end
