(* ===== verification/Rx_Pte.thy ===== *)
theory Rx_Pte
  imports Rx_Address
begin

text \<open>
  Page-table entries, from \<^verbatim>\<open>memory/mapping/pagetable_entry.rs\<close>: bits 10 and up hold the physical
  page number, bits 0 to 9 the flags V R W X U G A D RS1 RS2. An entry is the \<open>usize\<close> it wraps, a
  \<^verbatim>\<open>PteFlags\<close> value the \<open>usize\<close> of its bits.
\<close>

section \<open>Flags\<close>

definition PTE_V :: usize where "PTE_V = push_bit 0 1"
definition PTE_R :: usize where "PTE_R = push_bit 1 1"
definition PTE_W :: usize where "PTE_W = push_bit 2 1"
definition PTE_X :: usize where "PTE_X = push_bit 3 1"
definition PTE_U :: usize where "PTE_U = push_bit 4 1"
definition PTE_G :: usize where "PTE_G = push_bit 5 1"
definition PTE_A :: usize where "PTE_A = push_bit 6 1"
definition PTE_D :: usize where "PTE_D = push_bit 7 1"
definition PTE_RS1 :: usize where "PTE_RS1 = push_bit 8 1"
definition PTE_RS2 :: usize where "PTE_RS2 = push_bit 9 1"

lemmas pte_flag_defs = PTE_V_def PTE_R_def PTE_W_def PTE_X_def PTE_U_def PTE_G_def
  PTE_A_def PTE_D_def PTE_RS1_def PTE_RS2_def

text \<open>\<^verbatim>\<open>PteFlags::all().bits()\<close>, the union of the declared flags, and \<^verbatim>\<open>PteFlags::new\<close>, whose
  \<^verbatim>\<open>from_bits(..).unwrap()\<close> panics on a bit outside that union.\<close>

definition pte_flags_all :: usize where
  "pte_flags_all = PTE_V OR PTE_R OR PTE_W OR PTE_X OR PTE_U OR PTE_G OR PTE_A OR PTE_D
     OR PTE_RS1 OR PTE_RS2"

definition pte_from_bits :: "usize \<Rightarrow> usize option" where
  "pte_from_bits x = (if x AND NOT pte_flags_all = 0 then Some x else None)"

definition pte_flags_new :: "usize \<Rightarrow> usize outcome" where
  "pte_flags_new x = unwrap (pte_from_bits (pte_flags_all AND x))"

definition pte_from_bits_truncate :: "usize \<Rightarrow> usize" where
  "pte_from_bits_truncate x = x AND pte_flags_all"

section \<open>Entry operations\<close>

definition is_valid :: "usize \<Rightarrow> bool" where "is_valid e \<longleftrightarrow> e AND PTE_V > 0"
definition is_user :: "usize \<Rightarrow> bool" where "is_user e \<longleftrightarrow> e AND PTE_U > 0"
definition is_read :: "usize \<Rightarrow> bool" where "is_read e \<longleftrightarrow> e AND PTE_R > 0"
definition is_write :: "usize \<Rightarrow> bool" where "is_write e \<longleftrightarrow> e AND PTE_W > 0"
definition is_execute :: "usize \<Rightarrow> bool" where "is_execute e \<longleftrightarrow> e AND PTE_X > 0"

definition is_leaf :: "usize \<Rightarrow> bool" where
  "is_leaf e \<longleftrightarrow> e AND (PTE_R OR PTE_W OR PTE_X) \<noteq> 0"

definition add_valid_bit :: "usize \<Rightarrow> usize" where "add_valid_bit e = e OR PTE_V"
definition add_user_bit :: "usize \<Rightarrow> usize" where "add_user_bit e = e OR PTE_U"
definition rm_user_bit :: "usize \<Rightarrow> usize" where "rm_user_bit e = e AND NOT PTE_U"

definition to_cow_page :: "usize \<Rightarrow> usize" where
  "to_cow_page e = (e AND NOT PTE_W) OR PTE_RS1"

definition add_write_bit :: "usize \<Rightarrow> usize" where "add_write_bit e = e OR PTE_W"

definition as_pagetable :: "usize \<Rightarrow> usize" where
  "as_pagetable e = push_bit 12 (drop_bit 10 e)"

definition as_huge_page :: "usize \<Rightarrow> usize" where
  "as_huge_page e = push_bit (12 + 9) (drop_bit 10 e)"

definition as_pte :: "usize \<Rightarrow> usize" where
  "as_pte addr = push_bit 10 (drop_bit 12 addr)"

definition as_flags :: "usize \<Rightarrow> usize" where
  "as_flags e = e AND 0x3FF"

definition write_perm :: "usize \<Rightarrow> usize \<Rightarrow> usize" where
  "write_perm pa perm = push_bit 10 (drop_bit 12 pa) OR (perm OR PTE_V)"

section \<open>Bits of an entry\<close>

lemma word_and_flag: "(e::usize) AND push_bit n 1 = 0 \<longleftrightarrow> n < 64 \<longrightarrow> \<not> bit e n"
proof
  assume "e AND push_bit n 1 = 0"
  then have "\<not> bit (e AND push_bit n 1) n" by simp
  then show "n < 64 \<longrightarrow> \<not> bit e n" by (simp only: bit_and_iff bit_push_bit_iff) auto
next
  assume h: "n < 64 \<longrightarrow> \<not> bit e n"
  show "e AND push_bit n 1 = 0"
  proof (rule bit_word_eqI)
    fix k assume "k < LENGTH(64)"
    with h show "bit (e AND push_bit n 1) k = bit 0 k"
      unfolding bit_and_iff bit_push_bit_iff bit_1_iff by (cases "k = n") auto
  qed
qed

lemma pte_bits:
  "is_valid e \<longleftrightarrow> bit e 0" "is_read e \<longleftrightarrow> bit e 1" "is_write e \<longleftrightarrow> bit e 2"
  "is_execute e \<longleftrightarrow> bit e 3" "is_user e \<longleftrightarrow> bit e 4"
  unfolding is_valid_def is_read_def is_write_def is_execute_def is_user_def pte_flag_defs
    word_neq_0_conv [symmetric] word_and_flag by simp_all

lemma is_leaf_bits: "is_leaf e \<longleftrightarrow> bit e 1 \<or> bit e 2 \<or> bit e 3"
  unfolding is_leaf_def pte_flag_defs bit.conj_disj_distrib or_eq_0_iff word_and_flag by simp

lemma is_leaf_rwx: "is_read e \<or> is_write e \<or> is_execute e \<longleftrightarrow> is_leaf e"
  by (simp add: pte_bits is_leaf_bits)

lemma pte_flags_all_mask: "pte_flags_all = mask 10"
  by (simp add: pte_flags_all_def pte_flag_defs mask_eq_exp_minus_1)

lemma as_flags_mask: "as_flags e = take_bit 10 e"
  by (simp add: as_flags_def take_bit_eq_mask mask_eq_exp_minus_1)

lemma bit_as_flags: "bit (as_flags e) n \<longleftrightarrow> n < 10 \<and> bit e n"
  by (simp add: as_flags_mask bit_take_bit_iff)

lemma pte_flags_new_eq: "pte_flags_new x = Inr (as_flags x)"
proof -
  have "take_bit 10 x AND NOT (mask 10) = 0"
    by (rule bit_word_eqI) (auto simp: bit_simps)
  then show ?thesis
    by (simp add: pte_flags_new_def pte_from_bits_def pte_flags_all_mask as_flags_mask
        and.commute [of "mask 10"] flip: take_bit_eq_mask)
qed

lemma page_aligned_bits: "is_page_aligned a \<longleftrightarrow> (\<forall>n<12. \<not> bit a n)"
proof -
  have "a mod PGSIZE = take_bit 12 a"
    by (simp add: PGSIZE_def take_bit_eq_mod)
  then have "is_page_aligned a \<longleftrightarrow> take_bit 12 a = 0"
    by (simp add: is_page_aligned_def)
  also have "\<dots> \<longleftrightarrow> (\<forall>n<12. \<not> bit a n)"
    by (auto simp: bit_eq_iff bit_simps)
  finally show ?thesis .
qed

lemma bit_write_perm:
  "bit (write_perm pa perm) n \<longleftrightarrow>
     n < 64 \<and> (bit perm n \<or> n = 0 \<or> 10 \<le> n \<and> bit pa (n + 2))"
  using bit_imp_le_length [of perm n]
  by (auto simp: write_perm_def PTE_V_def bit_or_iff bit_push_bit_iff bit_drop_bit_eq bit_1_iff)

lemma bit_as_pagetable: "bit (as_pagetable e) n \<longleftrightarrow> 12 \<le> n \<and> n < 64 \<and> bit e (n - 2)"
  by (auto simp: as_pagetable_def bit_push_bit_iff bit_drop_bit_eq)

lemma as_pagetable_aligned [simp]: "is_page_aligned (as_pagetable e)"
  by (auto simp: page_aligned_bits bit_as_pagetable)

lemma unat_as_pagetable_mod [simp]: "unat (as_pagetable e) mod 4096 = 0"
  using as_pagetable_aligned by (simp only: is_page_aligned_unat)

lemma as_pagetable_write_perm:
  assumes "is_page_aligned pa" "as_flags perm = perm"
  shows "as_pagetable (write_perm pa perm) = pa"
proof (rule bit_word_eqI)
  fix n assume n: "n < LENGTH(64)"
  have perm: "\<not> bit perm k" if "10 \<le> k" for k
    using that bit_as_flags [of perm k] by (simp add: assms(2))
  show "bit (as_pagetable (write_perm pa perm)) n = bit pa n"
  proof (cases "n < 12")
    case True
    with assms(1) show ?thesis by (simp add: bit_as_pagetable page_aligned_bits)
  next
    case False
    then have "Suc (Suc (n - 2)) = n" by simp
    with False n show ?thesis by (simp add: bit_as_pagetable bit_write_perm perm)
  qed
qed

lemma as_flags_write_perm:
  assumes "as_flags perm = perm"
  shows "as_flags (write_perm pa perm) = perm OR PTE_V"
proof (rule bit_word_eqI)
  fix n assume n: "n < LENGTH(64)"
  have "bit perm n \<Longrightarrow> n < 10"
    using bit_as_flags [of perm n] by (simp add: assms)
  with n show "bit (as_flags (write_perm pa perm)) n = bit (perm OR PTE_V) n"
    by (auto simp: bit_as_flags bit_write_perm bit_or_iff PTE_V_def bit_1_iff)
qed

lemma as_pagetable_as_pte: "as_pagetable (as_pte a) = pg_round_down a"
proof (rule bit_word_eqI)
  fix n assume n: "n < LENGTH(64)"
  show "bit (as_pagetable (as_pte a)) n = bit (pg_round_down a) n"
  proof (cases "n < 12")
    case True
    with n show ?thesis
      by (simp add: bit_as_pagetable pg_round_down_def pgsize_mask and_not_mask_eq bit_push_bit_iff)
  next
    case False
    then have "Suc (Suc (n - 2)) = n" by simp
    with False n show ?thesis
      by (simp add: bit_as_pagetable as_pte_def pg_round_down_def pgsize_mask and_not_mask_eq
          bit_push_bit_iff bit_drop_bit_eq)
  qed
qed

lemma is_valid_write_perm [simp]: "is_valid (write_perm pa perm)"
  by (simp add: pte_bits bit_write_perm)

lemma is_leaf_write_perm [simp]: "is_leaf (write_perm pa perm) = is_leaf perm"
  by (auto simp: is_leaf_bits bit_write_perm)

lemma is_user_write_perm [simp]: "is_user (write_perm pa perm) = is_user perm"
  by (auto simp: pte_bits bit_write_perm)

lemma zero_not_valid [simp]: "\<not> is_valid 0"
  by (simp add: pte_bits)

lemma zero_not_leaf [simp]: "\<not> is_leaf 0"
  by (simp add: is_leaf_bits)

end
