(* ===== verification/Rx_Kalloc.thy ===== *)
theory Rx_Kalloc
  imports Rx_Pte
begin

text \<open>
  The reference-counting page allocator of \<^verbatim>\<open>memory/kalloc_rc/mod.rs\<close>, which is the kernel's
  global allocator. Free pages form a singly linked list threaded through the pages
  themselves: the first eight bytes of a free page hold the \<^verbatim>\<open>Option<&mut Run>\<close> to the next one,
  with the null pointer as \<^verbatim>\<open>None\<close>. The array \<^verbatim>\<open>count\<close> of \<^verbatim>\<open>i32\<close> has one entry per page of
  RAM. The linker symbol \<^verbatim>\<open>end\<close> is a parameter. The spin lock around the allocator makes each
  operation atomic; it is the subject of the lock theory and does not appear here.
\<close>

section \<open>State and operations\<close>

record kmem =
  pmem :: pmem
  ka_head :: "usize option"
  ka_count :: "nat \<Rightarrow> int"

definition NCOUNT :: nat where
  "NCOUNT = unat ((PHYSTOP - KERNEL_BASE) div PGSIZE)"

definition run_next :: "pmem \<Rightarrow> usize \<Rightarrow> usize option" where
  "run_next m p = (let v = load64 m (unat p) in if v = 0 then None else Some v)"

definition set_run_next :: "pmem \<Rightarrow> usize \<Rightarrow> usize option \<Rightarrow> pmem" where
  "set_run_next m p nx = store64 m (unat p) (case nx of None \<Rightarrow> 0 | Some q \<Rightarrow> q)"

definition ka_new :: "pmem \<Rightarrow> kmem" where
  "ka_new m = \<lparr>pmem = m, ka_head = None, ka_count = (\<lambda>_. 0)\<rparr>"

function ka_init_loop :: "usize \<Rightarrow> kmem \<Rightarrow> kmem" where
  "ka_init_loop start s =
     (if start < PHYSTOP
      then ka_init_loop (start + PGSIZE)
             (s\<lparr>pmem := set_run_next (pmem s) start (ka_head s), ka_head := Some start\<rparr>)
      else s)"
  by pat_completeness auto
termination
proof (relation "measure (\<lambda>(a, _). unat PHYSTOP - unat a)")
  show "wf (measure (\<lambda>(a, _::kmem). unat PHYSTOP - unat a))" by simp
next
  fix start :: usize and s :: kmem
  assume "start < PHYSTOP"
  then have "unat start < unat PHYSTOP" by (simp add: word_less_nat_alt)
  moreover from this have "unat (start + PGSIZE) = unat start + 4096"
    by (simp add: unat_word_ariths)
  ultimately show "((start + PGSIZE,
      s\<lparr>pmem := set_run_next (pmem s) start (ka_head s), ka_head := Some start\<rparr>), start, s)
    \<in> measure (\<lambda>(a, _). unat PHYSTOP - unat a)"
    by simp
qed

declare ka_init_loop.simps [simp del]

definition ka_init :: "usize \<Rightarrow> kmem \<Rightarrow> kmem outcome" where
  "ka_init kend s =
     bindR (page_round_up kend) (\<lambda>heap_start.
       Inr (ka_init_loop heap_start (s\<lparr>ka_head := None\<rparr>)))"

definition page_idx :: "usize \<Rightarrow> nat outcome" where
  "page_idx p =
     bindR (sub_ck p KERNEL_BASE) (\<lambda>d.
       let idx = unat (d div PGSIZE) in
       if idx < NCOUNT then Inr idx else Inl OutOfBounds)"

definition ka_alloc :: "nat \<Rightarrow> kmem \<Rightarrow> (usize option \<times> kmem) outcome" where
  "ka_alloc sz s =
     (if \<not> sz \<le> 0x1000 then Inl AssertFailed
      else case ka_head s of
        None \<Rightarrow> Inr (None, s)
      | Some node \<Rightarrow>
          bindR (page_idx node) (\<lambda>idx.
            Inr (Some node,
                 s\<lparr>ka_count := (ka_count s)(idx := 1),
                   ka_head := run_next (pmem s) node,
                   pmem := set_run_next (pmem s) node None\<rparr>)))"

definition ka_dealloc :: "usize \<Rightarrow> nat \<Rightarrow> kmem \<Rightarrow> kmem outcome" where
  "ka_dealloc p sz s =
     (if \<not> sz \<le> 0x1000 then Inl AssertFailed
      else bindR (page_idx p) (\<lambda>idx.
        if ka_count s idx = - (2 ^ 31) then Inl Overflow
        else let c = ka_count s idx - 1; s' = s\<lparr>ka_count := (ka_count s)(idx := c)\<rparr> in
          if c = 0
          then Inr (s'\<lparr>pmem := set_run_next (pmem s) p (ka_head s), ka_head := Some p\<rparr>)
          else Inr s'))"

definition add_count :: "usize \<Rightarrow> kmem \<Rightarrow> kmem outcome" where
  "add_count pa s =
     bindR (page_idx pa) (\<lambda>idx.
       if ka_count s idx = 2 ^ 31 - 1 then Inl Overflow
       else Inr (s\<lparr>ka_count := (ka_count s)(idx := ka_count s idx + 1)\<rparr>))"

definition get_count :: "usize \<Rightarrow> kmem \<Rightarrow> int outcome" where
  "get_count pa s = bindR (page_idx pa) (\<lambda>idx. Inr (ka_count s idx))"

text \<open>
  \<^verbatim>\<open>Box::new_zeroed\<close> and \<^verbatim>\<open>PageAllocator::new_zeroed\<close> of a page-sized type: the global allocator's
  \<^verbatim>\<open>alloc_zeroed\<close> is \<^verbatim>\<open>alloc\<close> followed by a fill of the whole page, and a null result ends in the
  allocation error handler, which panics. Dropping a \<^verbatim>\<open>Box<RawPage>\<close> is \<^verbatim>\<open>dealloc\<close>.
\<close>

definition new_zeroed :: "kmem \<Rightarrow> (usize \<times> kmem) outcome" where
  "new_zeroed s =
     bindR (ka_alloc 4096 s) (\<lambda>(r, s').
       case r of
         None \<Rightarrow> Inl AllocError
       | Some p \<Rightarrow> Inr (p, s'\<lparr>pmem := fill_zero (pmem s') (unat p) 4096\<rparr>))"

definition drop_page :: "usize \<Rightarrow> kmem \<Rightarrow> kmem outcome" where
  "drop_page p s = ka_dealloc p 4096 s"

section \<open>Pages and the free list\<close>

definition ram_page :: "usize \<Rightarrow> bool" where
  "ram_page p \<longleftrightarrow> unat p mod 4096 = 0 \<and> 0x80000000 \<le> unat p \<and> unat p < 0x180000000"

definition pidx :: "usize \<Rightarrow> nat" where
  "pidx p = (unat p - 0x80000000) div 4096"

lemma NCOUNT_val: "NCOUNT = 1048576"
  by (simp add: NCOUNT_def layout_defs)

lemma ram_page_unat: "ram_page p \<Longrightarrow> unat p = 0x80000000 + 4096 * pidx p"
proof -
  assume "ram_page p"
  then obtain k where k: "unat p = 4096 * k" and ge: "0x80000000 \<le> unat p"
    by (auto simp: ram_page_def)
  have "unat p - 0x80000000 = 4096 * (k - 524288)"
    using k by (simp add: diff_mult_distrib2)
  with ge show ?thesis by (simp add: pidx_def)
qed

lemma pidx_less: "ram_page p \<Longrightarrow> pidx p < 1048576"
  by (auto simp: ram_page_def pidx_def less_mult_imp_div_less)

lemma page_idx_ram [simp]: "ram_page p \<Longrightarrow> page_idx p = Inr (pidx p)"
proof -
  assume p: "ram_page p"
  then have "KERNEL_BASE \<le> p" by (simp add: ram_page_def word_le_nat_alt)
  moreover from this have "unat ((p - KERNEL_BASE) div PGSIZE) = pidx p"
    by (simp add: unat_div unat_sub pidx_def)
  ultimately show ?thesis
    using pidx_less [OF p] by (simp add: page_idx_def sub_ck_def NCOUNT_val)
qed

lemma pidx_inj: "ram_page p \<Longrightarrow> ram_page q \<Longrightarrow> pidx p = pidx q \<longleftrightarrow> p = q"
  by (auto simp: word_unat_eq_iff dest!: ram_page_unat)

lemma ram_page_disjoint:
  assumes "ram_page p" "ram_page q" "p \<noteq> q"
  shows "unat p + 4096 \<le> unat q \<or> unat q + 4096 \<le> unat p"
proof -
  have "pidx p \<noteq> pidx q" using assms pidx_inj by simp
  then have "pidx p < pidx q \<or> pidx q < pidx p" by linarith
  then show ?thesis
    unfolding ram_page_unat [OF assms(1)] ram_page_unat [OF assms(2)] by linarith
qed

primrec free_list :: "pmem \<Rightarrow> usize option \<Rightarrow> usize list \<Rightarrow> bool" where
  "free_list m h [] \<longleftrightarrow> h = None"
| "free_list m h (p # ps) \<longleftrightarrow> h = Some p \<and> free_list m (run_next m p) ps"

lemma free_list_frame:
  "(\<And>p. p \<in> set ps \<Longrightarrow> load64 m' (unat p) = load64 m (unat p)) \<Longrightarrow>
   free_list m' h ps = free_list m h ps"
  by (induction ps arbitrary: h) (simp_all add: run_next_def)

lemma free_list_unique: "free_list m h ps \<Longrightarrow> free_list m h qs \<Longrightarrow> ps = qs"
proof (induction ps arbitrary: h qs)
  case Nil
  then show ?case by (cases qs) auto
next
  case (Cons p ps)
  then show ?case by (cases qs) auto
qed

text \<open>
  The allocator's invariant, for a heap that starts at \<open>hs\<close>: the list reached from \<^verbatim>\<open>head\<close>
  is \<open>ps\<close>, without repetition, and it holds exactly the heap pages whose count is 0.
\<close>

definition heap_page :: "usize \<Rightarrow> usize \<Rightarrow> bool" where
  "heap_page hs p \<longleftrightarrow> ram_page p \<and> hs \<le> p"

definition ka_inv :: "usize \<Rightarrow> usize list \<Rightarrow> kmem \<Rightarrow> bool" where
  "ka_inv hs ps s \<longleftrightarrow>
     free_list (pmem s) (ka_head s) ps \<and> distinct ps \<and>
     (\<forall>p. p \<in> set ps \<longleftrightarrow> heap_page hs p \<and> ka_count s (pidx p) = 0) \<and>
     (\<forall>p. heap_page hs p \<longrightarrow> 0 \<le> ka_count s (pidx p))"

definition rc :: "kmem \<Rightarrow> usize \<Rightarrow> int" where
  "rc s p = ka_count s (pidx p)"

lemma ka_inv_in: "ka_inv hs ps s \<Longrightarrow> p \<in> set ps \<Longrightarrow> heap_page hs p \<and> rc s p = 0"
  by (simp add: ka_inv_def rc_def)

lemma heap_ram [simp]: "heap_page hs p \<Longrightarrow> ram_page p"
  by (simp add: heap_page_def)

lemma ka_inv_ram: "ka_inv hs ps s \<Longrightarrow> p \<in> set ps \<Longrightarrow> ram_page p"
  by (auto dest: ka_inv_in)

text \<open>Memory writes that leave the first eight bytes of every free page alone keep it.\<close>

lemma ka_inv_mem:
  assumes "ka_inv hs ps s"
    and "\<And>p. p \<in> set ps \<Longrightarrow> load64 m' (unat p) = load64 (pmem s) (unat p)"
  shows "ka_inv hs ps (s\<lparr>pmem := m'\<rparr>)"
  using assms free_list_frame [of ps m' "pmem s" "ka_head s"] by (simp add: ka_inv_def)

section \<open>Functional behaviour\<close>

lemma ka_alloc_empty: "ka_inv hs [] s \<Longrightarrow> sz \<le> 4096 \<Longrightarrow> ka_alloc sz s = Inr (None, s)"
  by (simp add: ka_inv_def ka_alloc_def)

lemma ka_alloc_cons:
  assumes inv: "ka_inv hs (p # ps) s" and sz: "sz \<le> 4096"
  shows "\<exists>s'. ka_alloc sz s = Inr (Some p, s') \<and> ka_inv hs ps s' \<and>
           ka_count s' = (ka_count s)(pidx p := 1) \<and> pmem s' = store64 (pmem s) (unat p) 0"
proof -
  let ?s' = "s\<lparr>ka_count := (ka_count s)(pidx p := 1),
    ka_head := run_next (pmem s) p, pmem := store64 (pmem s) (unat p) 0\<rparr>"
  have p: "ram_page p" "heap_page hs p" using inv by (auto dest: ka_inv_in)
  have fl: "free_list (pmem s) (run_next (pmem s) p) ps" and hd: "ka_head s = Some p"
    and d: "p \<notin> set ps" "distinct ps"
    and mem: "\<And>q. q = p \<or> q \<in> set ps \<longleftrightarrow> heap_page hs q \<and> ka_count s (pidx q) = 0"
    and pos: "\<And>q. heap_page hs q \<Longrightarrow> 0 \<le> ka_count s (pidx q)"
    using inv by (simp_all add: ka_inv_def)
  have "free_list (store64 (pmem s) (unat p) 0) (run_next (pmem s) p) ps"
  proof (subst free_list_frame [where m = "pmem s"])
    fix q assume "q \<in> set ps"
    with d have "q \<noteq> p" "ram_page q" using ka_inv_ram [OF inv, of q] by auto
    then show "load64 (store64 (pmem s) (unat p) 0) (unat q) = load64 (pmem s) (unat q)"
      using ram_page_disjoint [OF p(1), of q] by (intro load64_store64_disjoint) auto
  qed (rule fl)
  moreover have "q \<in> set ps \<longleftrightarrow> heap_page hs q \<and> ((ka_count s)(pidx p := 1)) (pidx q) = 0" for q
    using mem [of q] d(1) p pidx_inj [of q p] by auto
  moreover have "heap_page hs q \<Longrightarrow> 0 \<le> ((ka_count s)(pidx p := 1)) (pidx q)" for q
    using pos [of q] by simp
  ultimately have "ka_inv hs ps ?s'"
    using d by (simp add: ka_inv_def)
  moreover have "ka_alloc sz s = Inr (Some p, ?s')"
    using sz p hd by (simp add: ka_alloc_def set_run_next_def)
  ultimately show ?thesis by simp
qed

lemma ka_dealloc_last:
  assumes inv: "ka_inv hs ps s" and p: "heap_page hs p" and one: "rc s p = 1" and sz: "sz \<le> 4096"
  shows "\<exists>s'. ka_dealloc p sz s = Inr s' \<and> ka_inv hs (p # ps) s' \<and>
           ka_count s' = (ka_count s)(pidx p := 0) \<and>
           pmem s' = set_run_next (pmem s) p (ka_head s)"
proof -
  let ?m = "set_run_next (pmem s) p (ka_head s)"
  let ?s' = "s\<lparr>ka_count := (ka_count s)(pidx p := 0), pmem := ?m, ka_head := Some p\<rparr>"
  have fl: "free_list (pmem s) (ka_head s) ps" and d: "distinct ps"
    and mem: "\<And>q. q \<in> set ps \<longleftrightarrow> heap_page hs q \<and> ka_count s (pidx q) = 0"
    and pos: "\<And>q. heap_page hs q \<Longrightarrow> 0 \<le> ka_count s (pidx q)"
    using inv by (simp_all add: ka_inv_def)
  have notin: "p \<notin> set ps" using mem [of p] one by (simp add: rc_def)
  have ram: "\<And>q. q \<in> set ps \<Longrightarrow> ram_page q" using inv by (rule ka_inv_ram)
  have "run_next ?m p = ka_head s"
  proof (cases "ka_head s")
    case None
    then show ?thesis by (simp add: run_next_def set_run_next_def)
  next
    case (Some q)
    with fl have "q \<in> set ps" by (cases ps) auto
    then have "q \<noteq> 0" using ram [of q] by (auto simp: ram_page_def)
    with Some show ?thesis by (simp add: run_next_def set_run_next_def)
  qed
  moreover have "free_list ?m (ka_head s) ps"
  proof (subst free_list_frame [where m = "pmem s"])
    fix q assume "q \<in> set ps"
    then have "q \<noteq> p" "ram_page q" using notin ram by auto
    then show "load64 ?m (unat q) = load64 (pmem s) (unat q)"
      using ram_page_disjoint [of p q] p
      by (auto simp: set_run_next_def intro!: load64_store64_disjoint)
  qed (rule fl)
  moreover have "q \<in> set (p # ps) \<longleftrightarrow>
      heap_page hs q \<and> ((ka_count s)(pidx p := 0)) (pidx q) = 0" for q
    using mem [of q] p pidx_inj [of q p] by auto
  moreover have "heap_page hs q \<Longrightarrow> 0 \<le> ((ka_count s)(pidx p := 0)) (pidx q)" for q
    using pos [of q] by simp
  ultimately have "ka_inv hs (p # ps) ?s'"
    using d notin by (simp add: ka_inv_def)
  moreover have "ka_dealloc p sz s = Inr ?s'"
    using p one sz by (simp add: ka_dealloc_def rc_def Let_def)
  ultimately show ?thesis by simp
qed

lemma ka_dealloc_shared:
  assumes inv: "ka_inv hs ps s" and p: "heap_page hs p" and two: "2 \<le> rc s p" and sz: "sz \<le> 4096"
  shows "ka_dealloc p sz s = Inr (s\<lparr>ka_count := (ka_count s)(pidx p := rc s p - 1)\<rparr>)"
    and "ka_inv hs ps (s\<lparr>ka_count := (ka_count s)(pidx p := rc s p - 1)\<rparr>)"
proof -
  show "ka_dealloc p sz s = Inr (s\<lparr>ka_count := (ka_count s)(pidx p := rc s p - 1)\<rparr>)"
    using p two sz by (simp add: ka_dealloc_def rc_def Let_def)
  have "q \<in> set ps \<longleftrightarrow> heap_page hs q \<and> ((ka_count s)(pidx p := rc s p - 1)) (pidx q) = 0" for q
    using inv p two pidx_inj [of q p] by (auto simp: ka_inv_def rc_def)
  then show "ka_inv hs ps (s\<lparr>ka_count := (ka_count s)(pidx p := rc s p - 1)\<rparr>)"
    using inv two by (simp add: ka_inv_def)
qed

lemma add_count_live:
  assumes inv: "ka_inv hs ps s" and p: "heap_page hs p" and live: "1 \<le> rc s p" "rc s p < 2 ^ 31 - 1"
  shows "add_count p s = Inr (s\<lparr>ka_count := (ka_count s)(pidx p := rc s p + 1)\<rparr>)"
    and "ka_inv hs ps (s\<lparr>ka_count := (ka_count s)(pidx p := rc s p + 1)\<rparr>)"
proof -
  show "add_count p s = Inr (s\<lparr>ka_count := (ka_count s)(pidx p := rc s p + 1)\<rparr>)"
    using p live by (simp add: add_count_def rc_def)
  have "q \<in> set ps \<longleftrightarrow> heap_page hs q \<and> ((ka_count s)(pidx p := rc s p + 1)) (pidx q) = 0" for q
    using inv p live pidx_inj [of q p] by (auto simp: ka_inv_def rc_def)
  then show "ka_inv hs ps (s\<lparr>ka_count := (ka_count s)(pidx p := rc s p + 1)\<rparr>)"
    using inv live by (simp add: ka_inv_def)
qed

lemma get_count_rc: "ram_page p \<Longrightarrow> get_count p s = Inr (rc s p)"
  by (simp add: get_count_def rc_def)

section \<open>Initialisation\<close>

lemma ka_init_loop_frame:
  "ka_count (ka_init_loop start s) = ka_count s"
proof (induction start s rule: ka_init_loop.induct)
  case (1 start s)
  then show ?case by (cases "start < PHYSTOP") (simp_all add: ka_init_loop.simps [of start s])
qed

lemma ka_init_loop_free_list:
  assumes "unat start mod 4096 = 0" "0x80000000 \<le> unat start" "hs \<le> start"
    and "free_list (pmem s) (ka_head s) ps" "distinct ps"
    and "set ps = {p. heap_page hs p \<and> p < start}"
  shows "\<exists>qs. free_list (pmem (ka_init_loop start s)) (ka_head (ka_init_loop start s)) qs \<and>
           distinct qs \<and> set qs = {p. heap_page hs p}"
  using assms
proof (induction start s arbitrary: ps rule: ka_init_loop.induct)
  case (1 start s)
  show ?case
  proof (cases "start < PHYSTOP")
    case False
    then have ge: "0x180000000 \<le> unat start" by (simp add: word_less_nat_alt)
    have "p < start" if "heap_page hs p" for p
    proof -
      from that have "unat p < 0x180000000" by (simp add: heap_page_def ram_page_def)
      with ge have "unat p < unat start" by (rule less_le_trans [rotated])
      then show ?thesis by (simp only: word_less_nat_alt)
    qed
    then have "set ps = {p. heap_page hs p}" unfolding "1.prems"(6) by blast
    with "1.prems"(4,5) show ?thesis
      unfolding ka_init_loop.simps [of start s] if_not_P [OF False] by blast
  next
    case True
    let ?m = "set_run_next (pmem s) start (ka_head s)"
    have lt: "unat start < 0x180000000" using True by (simp add: word_less_nat_alt)
    have page: "heap_page hs start"
      using "1.prems"(1-3) lt by (simp add: heap_page_def ram_page_def)
    have next_start: "unat (start + PGSIZE) = unat start + 4096"
      using lt by (simp add: unat_word_ariths)
    have new: "p < start + PGSIZE \<longleftrightarrow> p < start \<or> p = start" if "heap_page hs p" for p
      using ram_page_disjoint [of p start] that page next_start
      by (auto simp: word_less_nat_alt)
    have notin: "start \<notin> set ps" using "1.prems"(6) by simp
    have "run_next ?m start = ka_head s"
    proof (cases "ka_head s")
      case None
      then show ?thesis by (simp add: run_next_def set_run_next_def)
    next
      case (Some q)
      with "1.prems"(4,6) have "heap_page hs q" by (cases ps) auto
      then have "q \<noteq> 0" by (auto simp: heap_page_def ram_page_def)
      with Some show ?thesis by (simp add: run_next_def set_run_next_def)
    qed
    moreover have "free_list ?m (ka_head s) ps"
    proof (subst free_list_frame [where m = "pmem s"])
      fix q assume q: "q \<in> set ps"
      then have "heap_page hs q" unfolding "1.prems"(6) by blast
      then have "ram_page q" by simp
      moreover have "q \<noteq> start" using q notin by blast
      ultimately have "unat start + 4096 \<le> unat q \<or> unat q + 4096 \<le> unat start"
        using ram_page_disjoint [of start q] page by simp
      then have "unat q + 8 \<le> unat start \<or> unat start + 8 \<le> unat q" by linarith
      then show "load64 ?m (unat q) = load64 (pmem s) (unat q)"
        unfolding set_run_next_def by (rule load64_store64_disjoint)
    qed (rule "1.prems"(4))
    moreover have "set (start # ps) = {p. heap_page hs p \<and> p < start + PGSIZE}"
      using page new unfolding "1.prems"(6) list.set by blast
    moreover have "hs \<le> start + PGSIZE"
    proof -
      have "unat hs \<le> unat start" using "1.prems"(3) by (simp only: word_le_nat_alt)
      then show ?thesis unfolding word_le_nat_alt next_start by linarith
    qed
    moreover have "unat (start + PGSIZE) mod 4096 = 0" "0x80000000 \<le> unat (start + PGSIZE)"
      using "1.prems"(1,2) unfolding next_start by auto
    ultimately show ?thesis
      using "1.IH" [OF True, of "start # ps"] "1.prems"(5) notin
      unfolding ka_init_loop.simps [of start s] if_P [OF True] by simp
  qed
qed

lemma ka_init_inv:
  assumes "0x80000000 \<le> unat kend" "unat kend < 0x180000000"
  shows "\<exists>hs s ps. page_round_up kend = Inr hs \<and> ka_init kend (ka_new m) = Inr s \<and>
           ka_inv hs ps s \<and> (\<forall>p. rc s p = 0)"
proof -
  obtain hs where hs: "page_round_up kend = Inr hs"
    using assms by (simp add: pg_round_up_eq)
  then have u: "unat hs = (unat kend + 4095) div 4096 * 4096"
    by (simp add: unat_pg_round_up)
  have ge: "0x80000000 \<le> unat hs"
  proof -
    have "(0x80000000::nat) div 4096 \<le> (unat kend + 4095) div 4096"
      using assms(1) by (intro div_le_mono) simp
    then show ?thesis unfolding u by simp
  qed
  let ?s = "ka_init_loop hs (ka_new m)"
  have new: "(ka_new m)\<lparr>ka_head := None\<rparr> = ka_new m" by (simp add: ka_new_def)
  have "\<exists>qs. free_list (pmem ?s) (ka_head ?s) qs \<and> distinct qs \<and> set qs = {p. heap_page hs p}"
    by (rule ka_init_loop_free_list [where ps = "[]"])
      (use u ge in \<open>auto simp: ka_new_def heap_page_def\<close>)
  then obtain qs where "free_list (pmem ?s) (ka_head ?s) qs" "distinct qs"
    "set qs = {p. heap_page hs p}" by blast
  moreover have cnt: "ka_count ?s = (\<lambda>_. 0)" by (simp add: ka_init_loop_frame ka_new_def)
  ultimately have "ka_inv hs qs ?s" by (simp add: ka_inv_def)
  moreover have "ka_init kend (ka_new m) = Inr ?s" using hs by (simp add: ka_init_def new)
  ultimately show ?thesis using hs cnt by (auto simp: rc_def)
qed

section \<open>The allocator's contract\<close>

text \<open>
  What the rest of the kernel relies on: \<open>refs\<close> is the reference count of a page, the free
  pages are the heap pages with count 0, an allocation hands out one of them with count 1,
  and giving back the last reference makes the page free again.
\<close>

locale page_allocator =
  fixes inv :: "usize list \<Rightarrow> 's \<Rightarrow> bool"
    and heap :: "usize \<Rightarrow> bool"
    and refs :: "'s \<Rightarrow> usize \<Rightarrow> int"
    and alloc :: "'s \<Rightarrow> (usize option \<times> 's) outcome"
    and dealloc share :: "usize \<Rightarrow> 's \<Rightarrow> 's outcome"
  assumes free_iff: "inv ps s \<Longrightarrow> p \<in> set ps \<longleftrightarrow> heap p \<and> refs s p = 0"
    and free_distinct: "inv ps s \<Longrightarrow> distinct ps"
    and refs_nonneg: "inv ps s \<Longrightarrow> heap p \<Longrightarrow> 0 \<le> refs s p"
    and alloc_none: "inv [] s \<Longrightarrow> alloc s = Inr (None, s)"
    and alloc_some: "inv (p # ps) s \<Longrightarrow>
          \<exists>s'. alloc s = Inr (Some p, s') \<and> inv ps s' \<and> refs s' p = 1 \<and>
               (\<forall>q. heap q \<longrightarrow> q \<noteq> p \<longrightarrow> refs s' q = refs s q)"
    and dealloc_last: "inv ps s \<Longrightarrow> heap p \<Longrightarrow> refs s p = 1 \<Longrightarrow>
          \<exists>s'. dealloc p s = Inr s' \<and> inv (p # ps) s' \<and> refs s' p = 0 \<and>
               (\<forall>q. heap q \<longrightarrow> q \<noteq> p \<longrightarrow> refs s' q = refs s q)"
    and dealloc_shared: "inv ps s \<Longrightarrow> heap p \<Longrightarrow> 2 \<le> refs s p \<Longrightarrow>
          \<exists>s'. dealloc p s = Inr s' \<and> inv ps s' \<and> refs s' p = refs s p - 1 \<and>
               (\<forall>q. heap q \<longrightarrow> q \<noteq> p \<longrightarrow> refs s' q = refs s q)"
    and share_live: "inv ps s \<Longrightarrow> heap p \<Longrightarrow> 1 \<le> refs s p \<Longrightarrow> refs s p < 2 ^ 31 - 1 \<Longrightarrow>
          \<exists>s'. share p s = Inr s' \<and> inv ps s' \<and> refs s' p = refs s p + 1 \<and>
               (\<forall>q. heap q \<longrightarrow> q \<noteq> p \<longrightarrow> refs s' q = refs s q)"
begin

lemma alloc_fresh:
  assumes "inv ps s" "alloc s = Inr (Some p, s')"
  shows "heap p \<and> refs s p = 0 \<and> refs s' p = 1 \<and> inv (tl ps) s' \<and> ps \<noteq> [] \<and> p = hd ps \<and>
         (\<forall>q. heap q \<longrightarrow> q \<noteq> p \<longrightarrow> refs s' q = refs s q)"
proof (cases ps)
  case Nil
  with assms show ?thesis using alloc_none by simp
next
  case (Cons a as)
  with assms alloc_some [of a as s] show ?thesis using free_iff [of ps s a] by auto
qed

lemma alloc_dealloc:
  assumes "inv ps s" "alloc s = Inr (Some p, s1)"
  shows "\<exists>s2. dealloc p s1 = Inr s2 \<and> inv ps s2 \<and> (\<forall>q. heap q \<longrightarrow> refs s2 q = refs s q)"
proof -
  from alloc_fresh [OF assms] have *: "heap p" "refs s p = 0" "refs s1 p = 1" "inv (tl ps) s1"
    "p # tl ps = ps" "\<forall>q. heap q \<longrightarrow> q \<noteq> p \<longrightarrow> refs s1 q = refs s q" by auto
  from dealloc_last [OF *(4,1,3)] * show ?thesis by fastforce
qed

lemma share_dealloc:
  assumes "inv ps s" "heap p" "1 \<le> refs s p" "refs s p < 2 ^ 31 - 1" "share p s = Inr s1"
  shows "\<exists>s2. dealloc p s1 = Inr s2 \<and> inv ps s2 \<and> (\<forall>q. heap q \<longrightarrow> refs s2 q = refs s q)"
proof -
  from share_live [OF assms(1-4)] assms(5) have *: "inv ps s1" "refs s1 p = refs s p + 1"
    "\<forall>q. heap q \<longrightarrow> q \<noteq> p \<longrightarrow> refs s1 q = refs s q" by auto
  have "2 \<le> refs s1 p" using assms(3) * by simp
  from dealloc_shared [OF *(1) assms(2) this] * show ?thesis by fastforce
qed

lemma live_not_free: "inv ps s \<Longrightarrow> 1 \<le> refs s p \<Longrightarrow> p \<notin> set ps"
  using free_iff [of ps s p] by auto

end

interpretation ka: page_allocator
  "ka_inv hs" "heap_page hs" rc "ka_alloc 4096" "\<lambda>p. ka_dealloc p 4096" add_count
proof
  fix ps s p
  show "ka_inv hs ps s \<Longrightarrow> p \<in> set ps \<longleftrightarrow> heap_page hs p \<and> rc s p = 0"
    by (simp add: ka_inv_def rc_def)
  show "ka_inv hs ps s \<Longrightarrow> distinct ps" by (simp add: ka_inv_def)
  show "ka_inv hs ps s \<Longrightarrow> heap_page hs p \<Longrightarrow> 0 \<le> rc s p" by (simp add: ka_inv_def rc_def)
  show "ka_inv hs [] s \<Longrightarrow> ka_alloc 4096 s = Inr (None, s)" by (simp add: ka_alloc_empty)
  show "\<exists>s'. ka_alloc 4096 s = Inr (Some p, s') \<and> ka_inv hs ps s' \<and> rc s' p = 1 \<and>
      (\<forall>q. heap_page hs q \<longrightarrow> q \<noteq> p \<longrightarrow> rc s' q = rc s q)" if "ka_inv hs (p # ps) s"
    using ka_alloc_cons [OF that, of 4096] ka_inv_ram [OF that, of p] pidx_inj [of _ p]
    by (fastforce simp: rc_def)
  show "\<exists>s'. ka_dealloc p 4096 s = Inr s' \<and> ka_inv hs (p # ps) s' \<and> rc s' p = 0 \<and>
      (\<forall>q. heap_page hs q \<longrightarrow> q \<noteq> p \<longrightarrow> rc s' q = rc s q)"
    if "ka_inv hs ps s" "heap_page hs p" "rc s p = 1"
    using ka_dealloc_last [OF that, of 4096] pidx_inj [of _ p] that(2)
    by (fastforce simp: rc_def)
  show "\<exists>s'. ka_dealloc p 4096 s = Inr s' \<and> ka_inv hs ps s' \<and> rc s' p = rc s p - 1 \<and>
      (\<forall>q. heap_page hs q \<longrightarrow> q \<noteq> p \<longrightarrow> rc s' q = rc s q)"
    if "ka_inv hs ps s" "heap_page hs p" "2 \<le> rc s p"
    using ka_dealloc_shared [OF that, of 4096] pidx_inj [of _ p] that(2)
    by (auto simp: rc_def)
  show "\<exists>s'. add_count p s = Inr s' \<and> ka_inv hs ps s' \<and> rc s' p = rc s p + 1 \<and>
      (\<forall>q. heap_page hs q \<longrightarrow> q \<noteq> p \<longrightarrow> rc s' q = rc s q)"
    if "ka_inv hs ps s" "heap_page hs p" "1 \<le> rc s p" "rc s p < 2 ^ 31 - 1"
    using add_count_live [OF that] pidx_inj [of _ p] that(2)
    by (auto simp: rc_def)
qed

section \<open>Reachable allocator states\<close>

text \<open>
  The life of the allocator: it is initialised, then pages are allocated, shared and given
  back by owners that hold a reference, and owners write to any memory that is not part of
  a free page.
\<close>

inductive ka_reach :: "usize \<Rightarrow> kmem \<Rightarrow> bool" for kend where
  init: "0x80000000 \<le> unat kend \<Longrightarrow> unat kend < 0x180000000 \<Longrightarrow>
     ka_init kend (ka_new m) = Inr s \<Longrightarrow> ka_reach kend s"
| alloc: "ka_reach kend s \<Longrightarrow> ka_alloc 4096 s = Inr (r, s') \<Longrightarrow> ka_reach kend s'"
| dealloc: "ka_reach kend s \<Longrightarrow> page_round_up kend = Inr hs \<Longrightarrow> heap_page hs p \<Longrightarrow>
     1 \<le> rc s p \<Longrightarrow> ka_dealloc p 4096 s = Inr s' \<Longrightarrow> ka_reach kend s'"
| share: "ka_reach kend s \<Longrightarrow> page_round_up kend = Inr hs \<Longrightarrow> heap_page hs p \<Longrightarrow>
     1 \<le> rc s p \<Longrightarrow> add_count p s = Inr s' \<Longrightarrow> ka_reach kend s'"
| client: "ka_reach kend s \<Longrightarrow> page_round_up kend = Inr hs \<Longrightarrow>
     (\<And>p. heap_page hs p \<Longrightarrow> rc s p = 0 \<Longrightarrow>
        load_bytes m' (unat p) 4096 = load_bytes (pmem s) (unat p) 4096) \<Longrightarrow>
     ka_reach kend (s\<lparr>pmem := m'\<rparr>)"

lemma load64_from_page:
  "load_bytes m' a 4096 = load_bytes m a 4096 \<Longrightarrow> load64 m' a = load64 m a"
proof -
  assume "load_bytes m' a 4096 = load_bytes m a 4096"
  then have "take 8 (load_bytes m' a 4096) = take 8 (load_bytes m a 4096)" by simp
  then have "load_bytes m' a 8 = load_bytes m a 8"
    by (simp add: load_bytes_def take_map)
  then show ?thesis by (simp add: load64_def)
qed

lemma ka_reach_inv:
  "ka_reach kend s \<Longrightarrow> page_round_up kend = Inr hs \<Longrightarrow> \<exists>ps. ka_inv hs ps s"
proof (induction rule: ka_reach.induct)
  case (init m s)
  then show ?case using ka_init_inv [of kend m] by auto
next
  case (alloc s r s')
  then obtain ps where inv: "ka_inv hs ps s" by blast
  show ?case
  proof (cases r)
    case None
    with alloc(2) have "s' = s"
      by (auto simp: ka_alloc_def outcome_simps split: option.splits if_splits)
    with inv show ?thesis by blast
  next
    case (Some p)
    with alloc(2) inv show ?thesis using ka.alloc_fresh [of hs ps s p s'] by blast
  qed
next
  case (dealloc s hs' p s')
  then obtain ps where inv: "ka_inv hs ps s" and "hs' = hs" by auto
  with dealloc show ?case
    using ka.dealloc_last [of hs ps s p] ka.dealloc_shared [of hs ps s p]
    by (cases "rc s p = 1") auto
next
  case (share s hs' p s')
  then obtain ps where inv: "ka_inv hs ps s" and eq: "hs' = hs" by auto
  from share have "rc s p \<noteq> 2 ^ 31 - 1" by (auto simp: add_count_def rc_def)
  show ?case
  proof (cases "rc s p < 2 ^ 31 - 1")
    case True
    with share inv eq show ?thesis using ka.share_live [of hs ps s p] by auto
  next
    case False
    then have "\<And>q. heap_page hs q \<Longrightarrow> ka_count s (pidx q) \<noteq> 0 \<Longrightarrow> True" by simp
    have "s' = s\<lparr>ka_count := (ka_count s)(pidx p := rc s p + 1)\<rparr>"
      using share eq \<open>rc s p \<noteq> 2 ^ 31 - 1\<close> by (simp add: add_count_def rc_def)
    moreover have "ka_inv hs ps (s\<lparr>ka_count := (ka_count s)(pidx p := rc s p + 1)\<rparr>)"
      using inv share(3,4) eq pidx_inj [of _ p] by (fastforce simp: ka_inv_def rc_def)
    ultimately show ?thesis by blast
  qed
next
  case (client s hs' m')
  then obtain ps where inv: "ka_inv hs ps s" and eq: "hs' = hs" by auto
  have "ka_inv hs ps (s\<lparr>pmem := m'\<rparr>)"
  proof (rule ka_inv_mem [OF inv])
    fix p assume "p \<in> set ps"
    then show "load64 m' (unat p) = load64 (pmem s) (unat p)"
      using ka_inv_in [OF inv] client(3) eq by (intro load64_from_page) auto
  qed
  then show ?case by blast
qed

section \<open>Fresh zeroed pages\<close>

lemma new_zeroed_cons:
  assumes inv: "ka_inv hs (p # ps) s"
  obtains s' where "new_zeroed s = Inr (p, s')" "ka_inv hs ps s'" "heap_page hs p"
    "ka_count s' = (ka_count s)(pidx p := 1)"
    "pmem s' = fill_zero (pmem s) (unat p) 4096"
proof -
  from ka_alloc_cons [OF inv, of 4096] obtain s1 where s1:
    "ka_alloc 4096 s = Inr (Some p, s1)" "ka_inv hs ps s1"
    "ka_count s1 = (ka_count s)(pidx p := 1)" "pmem s1 = store64 (pmem s) (unat p) 0" by auto
  let ?m = "fill_zero (pmem s1) (unat p) 4096"
  have p: "heap_page hs p" using ka_inv_in [OF inv, of p] by simp
  have notin: "p \<notin> set ps" using inv by (simp add: ka_inv_def)
  have "ka_inv hs ps (s1\<lparr>pmem := ?m\<rparr>)"
  proof (rule ka_inv_mem [OF s1(2)])
    fix q assume q: "q \<in> set ps"
    with notin have "q \<noteq> p" by blast
    moreover have "ram_page q" using ka_inv_ram [OF inv, of q] q by simp
    ultimately have "unat q + 8 \<le> unat p \<or> unat p + 4096 \<le> unat q"
      using ram_page_disjoint [of p q] p by fastforce
    then show "load64 ?m (unat q) = load64 (pmem s1) (unat q)" by (simp add: mem_simps)
  qed
  moreover have "?m = fill_zero (pmem s) (unat p) 4096"
    unfolding s1(4) fill_zero_def by (auto simp: fun_eq_iff store64_outside)
  ultimately show thesis
    using s1 p by (intro that [of "s1\<lparr>pmem := ?m\<rparr>"]) (simp_all add: new_zeroed_def)
qed

lemma new_zeroed_none: "ka_inv hs [] s \<Longrightarrow> new_zeroed s = Inl AllocError"
  by (simp add: new_zeroed_def ka_alloc_empty)

section \<open>Properties\<close>

text \<open>C12. In every state the allocator reaches, whatever its clients allocate, share, give back
  or write to the pages they own, the list threaded through the free pages is well formed,
  repeats no page, and holds exactly the pages of the heap whose reference count is 0.\<close>

theorem ka_free_list_exact:
  assumes "ka_reach kend s" "page_round_up kend = Inr hs"
  shows "\<exists>ps. free_list (pmem s) (ka_head s) ps \<and> distinct ps \<and>
           set ps = {p. heap_page hs p \<and> rc s p = 0}"
  using ka_reach_inv [OF assms] by (auto simp: ka_inv_def rc_def)

definition ka_boot :: "kmem outcome" where
  "ka_boot = ka_init 0x17FFFE001 (ka_new (\<lambda>_. 0))"

lemma singleton_list: "set xs = {a} \<Longrightarrow> distinct xs \<Longrightarrow> xs = [a]"
proof (cases xs)
  case (Cons y ys)
  moreover assume "set xs = {a}" "distinct xs"
  ultimately show ?thesis by (cases ys) auto
qed simp

lemma ka_boot_inv:
  obtains s where "ka_boot = Inr s" "ka_inv 0x17FFFF000 [0x17FFFF000] s"
proof -
  have hs: "page_round_up 0x17FFFE001 = Inr 0x17FFFF000"
    by (simp add: pg_round_up_eq pg_round_down_def PGSIZE_def)
  obtain s ps where s: "ka_boot = Inr s" "ka_inv 0x17FFFF000 ps s" "\<forall>p. rc s p = 0"
    using ka_init_inv [of "0x17FFFE001" "\<lambda>_. 0"] hs by (auto simp: ka_boot_def)
  have "heap_page 0x17FFFF000 p \<longleftrightarrow> p = 0x17FFFF000" for p
  proof
    assume p: "heap_page 0x17FFFF000 p"
    have q: "ram_page 0x17FFFF000" by (simp add: ram_page_def)
    from p have "unat p < 0x180000000" "0x17FFFF000 \<le> unat p"
      by (auto simp: heap_page_def ram_page_def word_le_nat_alt)
    then show "p = 0x17FFFF000"
      using ram_page_disjoint [OF _ q, of p] p by fastforce
  qed (simp add: heap_page_def ram_page_def)
  then have "p \<in> set ps \<longleftrightarrow> p = 0x17FFFF000" for p
    using ka.free_iff [OF s(2), of p] s(3) by simp
  then have "set ps = {0x17FFFF000}" by blast
  then have "ps = [0x17FFFF000]"
    using ka.free_distinct [OF s(2)] by (rule singleton_list)
  with s that show thesis by blast
qed

lemma ka_boot_reach: "ka_boot = Inr s \<Longrightarrow> ka_reach 0x17FFFE001 s"
  by (rule ka_reach.init [where m = "\<lambda>_. 0"]) (simp_all add: ka_boot_def)

theorem ka_free_list_exact_witness:
  "\<exists>s ps. ka_boot = Inr s \<and> free_list (pmem s) (ka_head s) ps \<and> 0x17FFFF000 \<in> set ps"
proof -
  obtain s where s: "ka_boot = Inr s" "ka_inv 0x17FFFF000 [0x17FFFF000] s"
    by (rule ka_boot_inv)
  have "page_round_up 0x17FFFE001 = Inr 0x17FFFF000"
    by (simp add: pg_round_up_eq pg_round_down_def PGSIZE_def)
  from ka_free_list_exact [OF ka_boot_reach [OF s(1)] this] s
  show ?thesis using ka.free_iff [OF s(2), of "0x17FFFF000"] by auto
qed

text \<open>C13. An allocation from a reachable state never hands out a page that is in use: the page
  it returns is a heap page that had no reference and now has one, no other page's count
  changes, and the only bytes written are the page's first eight.\<close>

theorem ka_alloc_hands_out_unused:
  assumes "ka_reach kend s" "page_round_up kend = Inr hs" "ka_alloc 4096 s = Inr (Some p, s')"
  shows "heap_page hs p \<and> rc s p = 0 \<and> rc s' p = 1 \<and>
         (\<forall>q. heap_page hs q \<longrightarrow> q \<noteq> p \<longrightarrow> rc s' q = rc s q) \<and>
         (\<forall>a. a < unat p \<or> unat p + 8 \<le> a \<longrightarrow> pmem s' a = pmem s a)"
proof -
  from ka_reach_inv [OF assms(1,2)] obtain ps where inv: "ka_inv hs ps s" by blast
  from ka.alloc_fresh [OF inv assms(3)] have eq: "p # tl ps = ps" by auto
  then have "ka_inv hs (p # tl ps) s" using inv by simp
  from ka_alloc_cons [OF this, of 4096] assms(3)
  have "pmem s' = store64 (pmem s) (unat p) 0" by auto
  then have "\<forall>a. a < unat p \<or> unat p + 8 \<le> a \<longrightarrow> pmem s' a = pmem s a"
    by (simp add: mem_simps)
  with ka.alloc_fresh [OF inv assms(3)] show ?thesis by blast
qed

theorem ka_alloc_hands_out_unused_witness:
  "\<exists>s s'. ka_boot = Inr s \<and> ka_alloc 4096 s = Inr (Some 0x17FFFF000, s') \<and>
     rc s 0x17FFFF000 = 0 \<and> rc s' 0x17FFFF000 = 1"
proof -
  obtain s where s: "ka_boot = Inr s" "ka_inv 0x17FFFF000 [0x17FFFF000] s"
    by (rule ka_boot_inv)
  obtain s' where s': "ka_alloc 4096 s = Inr (Some 0x17FFFF000, s')"
    using ka_alloc_cons [OF s(2), of 4096] by auto
  have "page_round_up 0x17FFFE001 = Inr 0x17FFFF000"
    by (simp add: pg_round_up_eq pg_round_down_def PGSIZE_def)
  from ka_alloc_hands_out_unused [OF ka_boot_reach [OF s(1)] this s'] s s' show ?thesis by auto
qed

text \<open>Giving back a freshly allocated page restores the allocator: the same free list in the
  same order, and every reference count of the heap as before the allocation.\<close>

lemma ka_alloc_dealloc_roundtrip:
  assumes "ka_inv hs ps s" "ka_alloc 4096 s = Inr (Some p, s1)"
  shows "\<exists>s2. ka_dealloc p 4096 s1 = Inr s2 \<and> free_list (pmem s2) (ka_head s2) ps \<and>
           (\<forall>q. heap_page hs q \<longrightarrow> rc s2 q = rc s q)"
  using ka.alloc_dealloc [OF assms] by (auto simp: ka_inv_def)

end
