(* ===== verification/Rx_Pagetable.thy ===== *)
theory Rx_Pagetable
  imports Rx_Kalloc
begin

text \<open>
  Sv39 page tables, from \<^verbatim>\<open>memory/mapping/pagetable.rs\<close>. A page table is the address of its root
  page; its entries live in physical memory, eight bytes each, and the table pages and the
  user pages come from the allocator, so every operation passes the allocator state \<open>kmem\<close>.
  A \<^verbatim>\<open>&mut PageTableEntry\<close> is the address of the entry. A \<^verbatim>\<open>Result<(), &str>\<close> is a value of
  \<open>string + unit\<close>. This theory holds the operations; their correctness is in the theories
  that follow.
\<close>

type_synonym 'a res = "string + 'a"

section \<open>Entries in memory\<close>

definition pte_at :: "usize \<Rightarrow> usize \<Rightarrow> nat" where
  "pte_at pgt i = unat pgt + 8 * unat i"

definition get_pte :: "nat \<Rightarrow> kmem \<Rightarrow> usize" where
  "get_pte a s = load64 (pmem s) a"

definition set_pte :: "nat \<Rightarrow> usize \<Rightarrow> kmem \<Rightarrow> kmem" where
  "set_pte a e s = s\<lparr>pmem := store64 (pmem s) a e\<rparr>"

definition SATP_SV39 :: usize where "SATP_SV39 = push_bit 60 8"

definition as_satp :: "usize \<Rightarrow> usize" where
  "as_satp pgt = SATP_SV39 OR drop_bit PGSHIFT pgt"

definition pt_clear :: "usize \<Rightarrow> kmem \<Rightarrow> kmem" where
  "pt_clear pgt s = fold (\<lambda>i. set_pte (unat pgt + 8 * i) 0) [0..<512] s"

definition pt_write :: "usize \<Rightarrow> usize \<Rightarrow> kmem \<Rightarrow> kmem" where
  "pt_write pgt other s =
     fold (\<lambda>i s. set_pte (unat pgt + 8 * i) (get_pte (unat other + 8 * i) s) s) [0..<512] s"

section \<open>Translation\<close>

text \<open>The loop over the levels 2 and 1, with the levels still to visit as an argument.\<close>

fun translate_walk ::
  "nat list \<Rightarrow> usize \<Rightarrow> usize \<Rightarrow> bool \<Rightarrow> kmem \<Rightarrow> (nat option \<times> kmem) outcome" where
  "translate_walk [] pgt va alloc s = Inr (Some (pte_at pgt (page_num va 0)), s)"
| "translate_walk (level # levels) pgt va alloc s =
     (let a = pte_at pgt (page_num va level); pte = get_pte a s in
      if is_valid pte then
        if is_read pte \<or> is_write pte \<or> is_execute pte then Inr (Some a, s)
        else translate_walk levels (as_pagetable pte) va alloc s
      else if \<not> alloc then Inr (None, s)
      else bindR (new_zeroed s) (\<lambda>(zeroed, s).
        translate_walk levels zeroed va alloc (set_pte a (write_perm zeroed 0) s)))"

definition translate :: "usize \<Rightarrow> usize \<Rightarrow> bool \<Rightarrow> kmem \<Rightarrow> (nat option \<times> kmem) outcome" where
  "translate pgt va alloc s =
     (if va > MAXVA then Inr (None, s) else translate_walk [2, 1] pgt va alloc s)"

definition translate_huge ::
  "usize \<Rightarrow> usize \<Rightarrow> bool \<Rightarrow> kmem \<Rightarrow> (nat option \<times> kmem) outcome" where
  "translate_huge pgt va alloc s =
     (if va > MAXVA then Inr (None, s)
      else let a = pte_at pgt (page_num va 2); pte = get_pte a s in
        if is_valid pte then Inr (Some (pte_at (as_pagetable pte) (page_num va 1)), s)
        else if \<not> alloc then Inr (None, s)
        else bindR (new_zeroed s) (\<lambda>(zeroed, s).
          Inr (Some (pte_at zeroed (page_num va 1)), set_pte a (write_perm zeroed 0) s)))"

definition pgt_translate :: "usize \<Rightarrow> usize \<Rightarrow> kmem \<Rightarrow> (usize option \<times> kmem) outcome" where
  "pgt_translate pgt va s =
     (if va > MAXVA then Inr (None, s)
      else bindR (translate pgt va False s) (\<lambda>(r, s).
        case r of
          Some a \<Rightarrow>
            let pte = get_pte a s in
            if \<not> is_valid pte \<or> \<not> is_user pte then Inr (None, s)
            else Inr (Some (as_pagetable pte), s)
        | None \<Rightarrow> Inr (None, s)))"

section \<open>Mapping\<close>

lemma add_page_less: "add_page va = Inr va' \<Longrightarrow> 2 ^ 64 - unat va' < 2 ^ 64 - unat va"
proof -
  assume "add_page va = Inr va'"
  then have "unat va' = unat va + 4096" by (auto simp: add_page_def dest: add_ck_unat)
  moreover have "unat va' < 2 ^ 64" using unsigned_less [of va', where ?'a = nat] by simp
  ultimately show ?thesis by linarith
qed

lemma add_huge_page_less:
  "add_huge_page va = Inr va' \<Longrightarrow> 2 ^ 64 - unat va' < 2 ^ 64 - unat va"
proof -
  assume "add_huge_page va = Inr va'"
  then have "unat va' = unat va + 0x200000" by (auto simp: add_huge_page_def dest: add_ck_unat)
  moreover have "unat va' < 2 ^ 64" using unsigned_less [of va', where ?'a = nat] by simp
  ultimately show ?thesis by linarith
qed

function map_loop ::
  "usize \<Rightarrow> usize \<Rightarrow> usize \<Rightarrow> usize \<Rightarrow> usize \<Rightarrow> kmem \<Rightarrow> (bool \<times> kmem) outcome" where
  "map_loop pgt va lst pa perm s =
     (if va = lst then Inr (True, s)
      else bindR (translate pgt va True s) (\<lambda>(r, s).
        case r of
          Some a \<Rightarrow>
            if is_valid (get_pte a s) then Inl Remap
            else bindR (add_page va) (\<lambda>va'.
              bindR (add_page pa) (\<lambda>pa'.
                map_loop pgt va' lst pa' perm (set_pte a (write_perm pa perm) s)))
        | None \<Rightarrow> Inr (False, s)))"
  by pat_completeness auto
termination
  by (relation "measure (\<lambda>(_, va, _). 2 ^ 64 - unat va)") (simp_all only: in_measure wf_measure prod.case add_page_less)

declare map_loop.simps [simp del]

definition map_pages ::
  "usize \<Rightarrow> usize \<Rightarrow> usize \<Rightarrow> usize \<Rightarrow> usize \<Rightarrow> kmem \<Rightarrow> (bool \<times> kmem) outcome" where
  "map_pages pgt va pa sz perm s =
     bindR (add_ck va sz) (\<lambda>e.
       bindR (pg_round_up e) (\<lambda>lst.
         map_loop pgt (pg_round_down va) lst pa perm s))"

function map_with_huge_loop ::
  "usize \<Rightarrow> usize \<Rightarrow> usize \<Rightarrow> usize \<Rightarrow> usize \<Rightarrow> kmem \<Rightarrow> (bool \<times> kmem) outcome" where
  "map_with_huge_loop pgt va lst pa perm s =
     (if va = lst then Inr (True, s)
      else bindR (if is_hpage_aligned va
                  then bindR (sub_ck lst va) (\<lambda>d. Inr (d \<ge> HUGE_PGSIZE))
                  else Inr False) (\<lambda>huge.
        if huge then
          bindR (translate_huge pgt va True s) (\<lambda>(r, s).
            case r of
              Some a \<Rightarrow>
                if is_valid (get_pte a s) then Inl Remap
                else bindR (add_huge_page va) (\<lambda>va'.
                  bindR (add_huge_page pa) (\<lambda>pa'.
                    map_with_huge_loop pgt va' lst pa' perm (set_pte a (write_perm pa perm) s)))
            | None \<Rightarrow> Inr (False, s))
        else
          bindR (translate pgt va True s) (\<lambda>(r, s).
            case r of
              Some a \<Rightarrow>
                if is_valid (get_pte a s) then Inl Remap
                else bindR (add_page va) (\<lambda>va'.
                  bindR (add_page pa) (\<lambda>pa'.
                    map_with_huge_loop pgt va' lst pa' perm (set_pte a (write_perm pa perm) s)))
            | None \<Rightarrow> Inr (False, s))))"
  by pat_completeness auto
termination
  by (relation "measure (\<lambda>(_, va, _). 2 ^ 64 - unat va)")
    (simp_all only: in_measure wf_measure prod.case add_page_less add_huge_page_less)

declare map_with_huge_loop.simps [simp del]

definition map_with_huge ::
  "usize \<Rightarrow> usize \<Rightarrow> usize \<Rightarrow> usize \<Rightarrow> usize \<Rightarrow> kmem \<Rightarrow> (bool \<times> kmem) outcome" where
  "map_with_huge pgt va pa sz perm s =
     bindR (add_ck va sz) (\<lambda>e.
       bindR (pg_round_up e) (\<lambda>lst.
         map_with_huge_loop pgt (pg_round_down va) lst pa perm s))"

definition pt_kernel_map ::
  "usize \<Rightarrow> usize \<Rightarrow> usize \<Rightarrow> usize \<Rightarrow> usize \<Rightarrow> kmem \<Rightarrow> kmem outcome" where
  "pt_kernel_map pgt va pa sz perm s =
     bindR (map_with_huge pgt va pa sz perm s) (\<lambda>(ok, s).
       if \<not> ok then Inl KernelMapFailed else Inr s)"

section \<open>Unmapping\<close>

primrec uunmap_loop :: "nat \<Rightarrow> usize \<Rightarrow> usize \<Rightarrow> bool \<Rightarrow> kmem \<Rightarrow> kmem outcome" where
  "uunmap_loop 0 pgt va free s = Inr s"
| "uunmap_loop (Suc n) pgt va free s =
     bindR (translate pgt va False s) (\<lambda>(r, s).
       case r of
         Some a \<Rightarrow>
           let pte = get_pte a s in
           if \<not> is_valid pte then Inl UunmapNotMapped
           else if NOT (as_flags pte) = PTE_V then Inl UunmapNotLeaf
           else bindR
             (if free
              then bindR (drop_page (as_pagetable pte) s) (\<lambda>s. Inr (set_pte a 0 s))
              else Inr s)
             (\<lambda>s. bindR (add_page va) (\<lambda>va'. uunmap_loop n pgt va' free s))
       | None \<Rightarrow> Inl UunmapNoPte)"

definition uunmap :: "usize \<Rightarrow> usize \<Rightarrow> usize \<Rightarrow> bool \<Rightarrow> kmem \<Rightarrow> kmem outcome" where
  "uunmap pgt va npages free s =
     (if \<not> is_page_aligned va then Inl UunmapNotAligned
      else uunmap_loop (unat npages) pgt va free s)"

definition udealloc :: "usize \<Rightarrow> usize \<Rightarrow> usize \<Rightarrow> kmem \<Rightarrow> (usize \<times> kmem) outcome" where
  "udealloc pgt old_size new_size s =
     (if new_size \<ge> old_size then Inr (old_size, s)
      else bindR (page_round_up new_size) (\<lambda>n.
        bindR (page_round_up old_size) (\<lambda>old.
          if n < old
          then bindR (sub_ck old n) (\<lambda>d.
            bindR (uunmap pgt n (d div PGSIZE) True s) (\<lambda>s. Inr (new_size, s)))
          else Inr (new_size, s))))"

definition ufree :: "usize \<Rightarrow> usize \<Rightarrow> kmem \<Rightarrow> kmem outcome" where
  "ufree pgt sz s =
     (if sz > 0
      then bindR (page_round_up sz) (\<lambda>r. uunmap pgt 0 (r div PGSIZE) True s)
      else Inr s)"

definition ufree_stack :: "usize \<Rightarrow> kmem \<Rightarrow> kmem outcome" where
  "ufree_stack pgt s = uunmap pgt (USTACK_BASE - PGSIZE) (USTACK_SIZE div PGSIZE + 1) True s"

definition proc_free_pagetable :: "usize \<Rightarrow> usize \<Rightarrow> kmem \<Rightarrow> kmem outcome" where
  "proc_free_pagetable pgt sz s =
     bindR (ufree_stack pgt s) (\<lambda>s.
       bindR (uunmap pgt TRAMPOLINE 1 False s) (\<lambda>s.
         bindR (uunmap pgt TRAPFRAME 1 False s) (\<lambda>s. ufree pgt sz s)))"

section \<open>User memory\<close>

definition unew :: "kmem \<Rightarrow> (usize \<times> kmem) outcome" where
  "unew s = new_zeroed s"

definition zero_page :: "usize \<Rightarrow> kmem \<Rightarrow> kmem" where
  "zero_page p s = s\<lparr>pmem := fill_zero (pmem s) (unat p) 4096\<rparr>"

function ualloc_loop ::
  "usize \<Rightarrow> usize \<Rightarrow> usize \<Rightarrow> usize \<Rightarrow> kmem \<Rightarrow> (usize option \<times> kmem) outcome" where
  "ualloc_loop pgt old_size cur_size new_size s =
     (if cur_size < new_size
      then bindR (new_zeroed s) (\<lambda>(addr, s).
        bindR (map_pages pgt cur_size addr PGSIZE (PTE_W OR PTE_R OR PTE_X OR PTE_U)
                 (zero_page addr s)) (\<lambda>(ok, s).
          if \<not> ok
          then bindR (drop_page addr s) (\<lambda>s.
            bindR (udealloc pgt cur_size old_size s) (\<lambda>(_, s). Inr (None, s)))
          else case checked_add cur_size PGSIZE of
              Some cur_size' \<Rightarrow> ualloc_loop pgt old_size cur_size' new_size s
            | None \<Rightarrow> Inr (Some new_size, s)))
      else Inr (Some new_size, s))"
  by pat_completeness auto
termination
proof (relation "measure (\<lambda>(_, _, c, _). 2 ^ 64 - unat c)", goal_cases)
  case (2 pgt old cur new s x addr s1 y ok s2 cur')
  then have "add_page cur = Inr cur'"
    by (auto simp: checked_add_def add_page_def add_ck_def split: if_splits)
  then show ?case by (simp only: in_measure prod.case add_page_less)
qed simp

declare ualloc_loop.simps [simp del]

definition ualloc :: "usize \<Rightarrow> usize \<Rightarrow> usize \<Rightarrow> kmem \<Rightarrow> (usize option \<times> kmem) outcome" where
  "ualloc pgt old_size new_size s =
     (if new_size < old_size then Inr (Some old_size, s)
      else bindR (page_round_up old_size) (\<lambda>old. ualloc_loop pgt old old new_size s))"

definition ualloc_stack :: "usize \<Rightarrow> kmem \<Rightarrow> (bool \<times> kmem) outcome" where
  "ualloc_stack pgt s =
     bindR (new_zeroed s) (\<lambda>(addr, s).
       bindR (map_pages pgt USTACK_BASE addr USTACK_SIZE (PTE_W OR PTE_R OR PTE_U)
                (zero_page addr s)) (\<lambda>(ok, s).
         if \<not> ok then bindR (drop_page addr s) (\<lambda>s. Inr (False, s))
         else bindR (new_zeroed s) (\<lambda>(guard, s).
           bindR (map_pages pgt (USTACK_BASE - PGSIZE) guard PGSIZE PTE_R s) (\<lambda>(ok, s).
             if \<not> ok
             then bindR (uunmap pgt USTACK_BASE (USTACK_SIZE div PGSIZE) True s) (\<lambda>s.
               bindR (drop_page guard s) (\<lambda>s. Inr (False, s)))
             else Inr (True, s)))))"

definition uinit :: "usize \<Rightarrow> u8 list \<Rightarrow> kmem \<Rightarrow> kmem outcome" where
  "uinit pgt src s =
     (if length src \<ge> 4096 then Inl UinitTooLarge
      else bindR (new_zeroed s) (\<lambda>(mem, s).
        bindR (map_pages pgt 0 mem PGSIZE (PTE_R OR PTE_W OR PTE_X OR PTE_U)
                 (zero_page mem s)) (\<lambda>(_, s).
          bindR (ualloc_stack pgt s) (\<lambda>(_, s).
            Inr (s\<lparr>pmem := store_bytes (pmem s) (unat mem) src\<rparr>)))))"

definition uclear :: "usize \<Rightarrow> usize \<Rightarrow> kmem \<Rightarrow> kmem outcome" where
  "uclear pgt va s =
     bindR (translate pgt va False s) (\<lambda>(r, s).
       case r of
         Some a \<Rightarrow> Inr (set_pte a (rm_user_bit (get_pte a s)) s)
       | None \<Rightarrow> Inl UclearNoPte)"

section \<open>Dropping a table\<close>

text \<open>
  \<^verbatim>\<open>Drop for PageTable\<close> follows every valid entry that is not a leaf and drops the box of the
  table below it. On arbitrary memory the descent need not end, so it takes fuel; on a page
  table of three levels a fuel of 3 is enough.
\<close>

primrec pt_drop :: "nat \<Rightarrow> usize \<Rightarrow> kmem \<Rightarrow> kmem outcome" where
  "pt_drop 0 pgt s = Inl OutOfFuel"
| "pt_drop (Suc fuel) pgt s =
     foldR (\<lambda>i s.
       let e = get_pte (unat pgt + 8 * i) s in
       if is_valid e \<and> \<not> is_leaf e
       then bindR (pt_drop fuel (as_pagetable e) s) (drop_page (as_pagetable e))
       else Inr s) [0..<512] s"

definition box_pt_drop :: "usize \<Rightarrow> kmem \<Rightarrow> kmem outcome" where
  "box_pt_drop pgt s = bindR (pt_drop 3 pgt s) (drop_page pgt)"

section \<open>Copying address spaces\<close>

definition copy_page :: "usize \<Rightarrow> usize \<Rightarrow> kmem \<Rightarrow> kmem" where
  "copy_page dst src s =
     s\<lparr>pmem := store_bytes (pmem s) (unat dst) (load_bytes (pmem s) (unat src) 4096)\<rparr>"

function ucopy_loop ::
  "usize \<Rightarrow> usize \<Rightarrow> usize \<Rightarrow> usize \<Rightarrow> usize \<Rightarrow> kmem \<Rightarrow> (unit res \<times> kmem) outcome" where
  "ucopy_loop pgt other start va sz s =
     bindR (add_ck sz start) (\<lambda>e.
       if va = e then Inr (Inr (), s)
       else bindR (translate pgt va False s) (\<lambda>(r, s).
         case r of
           Some a \<Rightarrow>
             let pte = get_pte a s in
             if \<not> is_valid pte then Inl UcopyNotPresent
             else bindR (pte_flags_new (as_flags pte)) (\<lambda>flags.
               bindR (new_zeroed s) (\<lambda>(page, s).
                 bindR (map_pages other va page PGSIZE flags
                          (copy_page page (as_pagetable pte) s)) (\<lambda>(ok, s).
                   if \<not> ok
                   then bindR (uunmap other 0 (va div PGSIZE) True s) (\<lambda>s.
                     bindR (box_pt_drop page s) (\<lambda>s. Inr (Inl ''ucopy: Failed.'', s)))
                   else bindR (add_page va) (\<lambda>va'. ucopy_loop pgt other start va' sz s))))
         | None \<Rightarrow> Inl UcopyNoPte))"
  by pat_completeness auto
termination
  by (relation "measure (\<lambda>(_, _, _, va, _). 2 ^ 64 - unat va)")
    (simp_all only: in_measure wf_measure prod.case add_page_less)

declare ucopy_loop.simps [simp del]

definition ucopy :: "usize \<Rightarrow> usize \<Rightarrow> usize \<Rightarrow> usize \<Rightarrow> kmem \<Rightarrow> (unit res \<times> kmem) outcome" where
  "ucopy pgt other va sz s = ucopy_loop pgt other va va sz s"

definition ucopy_stack :: "usize \<Rightarrow> usize \<Rightarrow> kmem \<Rightarrow> kmem outcome" where
  "ucopy_stack pgt other s =
     bindR (ucopy pgt other (USTACK_BASE - PGSIZE) (USTACK_SIZE + PGSIZE) s) (\<lambda>(r, s).
       case r of Inl _ \<Rightarrow> Inl UnwrapNone | Inr _ \<Rightarrow> Inr s)"

function ucopy_nocopy_loop ::
  "usize \<Rightarrow> usize \<Rightarrow> usize \<Rightarrow> usize \<Rightarrow> usize \<Rightarrow> kmem \<Rightarrow> (unit res \<times> kmem) outcome" where
  "ucopy_nocopy_loop pgt other start va sz s =
     bindR (add_ck sz start) (\<lambda>e.
       if va = e then Inr (Inr (), s)
       else bindR (translate pgt va False s) (\<lambda>(r, s).
         case r of
           Some a \<Rightarrow>
             if \<not> is_valid (get_pte a s) then Inl UcopyNotPresent
             else
               let pte = to_cow_page (get_pte a s); pa = as_pagetable pte in
               bindR (add_count pa (set_pte a pte s)) (\<lambda>s.
                 bindR (pte_flags_new (as_flags pte)) (\<lambda>flags.
                   bindR (map_pages other va pa PGSIZE flags s) (\<lambda>(ok, s).
                     if \<not> ok
                     then bindR (uunmap other 0 (va div PGSIZE) True s) (\<lambda>s.
                       Inr (Inl ''ucopy: Failed.'', s))
                     else bindR (add_page va) (\<lambda>va'.
                       ucopy_nocopy_loop pgt other start va' sz s))))
         | None \<Rightarrow> Inl UcopyNoPte))"
  by pat_completeness auto
termination
  by (relation "measure (\<lambda>(_, _, _, va, _). 2 ^ 64 - unat va)")
    (simp_all only: in_measure wf_measure prod.case add_page_less)

declare ucopy_nocopy_loop.simps [simp del]

definition ucopy_nocopy ::
  "usize \<Rightarrow> usize \<Rightarrow> usize \<Rightarrow> usize \<Rightarrow> kmem \<Rightarrow> (unit res \<times> kmem) outcome" where
  "ucopy_nocopy pgt other va sz s = ucopy_nocopy_loop pgt other va va sz s"

text \<open>The copy-on-write fault handler. The box of the previous page is dropped at the end of
  the function, after the entry has been rewritten.\<close>

definition uload_page :: "usize \<Rightarrow> usize \<Rightarrow> kmem \<Rightarrow> (unit res \<times> kmem) outcome" where
  "uload_page pgt va s =
     bindR (translate pgt va False s) (\<lambda>(r, s).
       case r of
         Some a \<Rightarrow>
           let pa = as_pagetable (get_pte a s) in
           bindR (get_count pa s) (\<lambda>c.
             if c = 1 then Inr (Inr (), set_pte a (add_write_bit (get_pte a s)) s)
             else bindR (new_zeroed s) (\<lambda>(new_page, s).
               let s = copy_page new_page pa s;
                   perm = pte_from_bits_truncate (get_pte a s OR PTE_W);
                   s = set_pte a (write_perm new_page perm) s in
               bindR (drop_page pa s) (\<lambda>s. Inr (Inr (), s))))
       | None \<Rightarrow> Inr (Inl ''Read illegal address.'', s))"

section \<open>Copying between the kernel and user space\<close>

definition pgt_translate_unwrap :: "usize \<Rightarrow> usize \<Rightarrow> kmem \<Rightarrow> (usize \<times> kmem) outcome" where
  "pgt_translate_unwrap pgt va s =
     bindR (pgt_translate pgt va s) (\<lambda>(r, s). bindR (unwrap r) (\<lambda>pa. Inr (pa, s)))"

text \<open>The destination slice of \<^verbatim>\<open>copy_out\<close> starts at the address \<open>dst\<close> and has \<open>count\<close> bytes when
  the loop is entered.\<close>

function copy_out_loop ::
  "usize \<Rightarrow> usize \<Rightarrow> nat \<Rightarrow> nat \<Rightarrow> u8 list \<Rightarrow> kmem \<Rightarrow> kmem outcome" where
  "copy_out_loop pgt va dst count src s =
     (let count = (if count > length src then length src else count);
          s = s\<lparr>pmem := store_bytes (pmem s) dst (take count src)\<rparr>;
          src = drop count src in
      if src = [] then Inr s
      else bindR (add_page va) (\<lambda>va'.
        bindR (pgt_translate_unwrap pgt va' s) (\<lambda>(pa, s).
          copy_out_loop pgt va' (unat pa) 4096 src s)))"
  by pat_completeness auto
termination
  by (relation "measure (\<lambda>(_, va, _). 2 ^ 64 - unat va)")
    (simp_all only: in_measure wf_measure prod.case add_page_less)

declare copy_out_loop.simps [simp del]

definition copy_out :: "usize \<Rightarrow> usize \<Rightarrow> u8 list \<Rightarrow> kmem \<Rightarrow> kmem outcome" where
  "copy_out pgt dst src s =
     (let va = pg_round_down dst; off = unat dst - unat va in
      bindR (pgt_translate_unwrap pgt va s) (\<lambda>(pa, s).
        copy_out_loop pgt va (unat pa + off) (4096 - off) src s))"

text \<open>\<^verbatim>\<open>copy_in\<close> fills a kernel slice of \<open>n\<close> bytes, which the model returns.\<close>

function copy_in_loop ::
  "usize \<Rightarrow> usize \<Rightarrow> nat \<Rightarrow> nat \<Rightarrow> nat \<Rightarrow> kmem \<Rightarrow> u8 list outcome" where
  "copy_in_loop pgt va src count n s =
     (let count = (if count > n then n else count);
          bs = load_bytes (pmem s) src count;
          n = n - count in
      if n = 0 then Inr bs
      else bindR (add_page va) (\<lambda>va'.
        bindR (pgt_translate_unwrap pgt va' s) (\<lambda>(pa, s).
          bindR (copy_in_loop pgt va' (unat pa) 4096 n s) (\<lambda>rest. Inr (bs @ rest)))))"
  by pat_completeness auto
termination
  by (relation "measure (\<lambda>(_, va, _). 2 ^ 64 - unat va)")
    (simp_all only: in_measure wf_measure prod.case add_page_less)

declare copy_in_loop.simps [simp del]

definition copy_in :: "usize \<Rightarrow> nat \<Rightarrow> usize \<Rightarrow> kmem \<Rightarrow> u8 list outcome" where
  "copy_in pgt n src s =
     (let va = pg_round_down src; off = unat src - unat va in
      bindR (pgt_translate_unwrap pgt va s) (\<lambda>(pa, s).
        copy_in_loop pgt va (unat pa + off) (4096 - off) n s))"

fun find_zero :: "u8 list \<Rightarrow> nat option" where
  "find_zero [] = None"
| "find_zero (x # xs) = (if x = 0 then Some 0 else map_option Suc (find_zero xs))"

text \<open>\<^verbatim>\<open>copy_in_str\<close> returns the buffer as it leaves it. The source slice is all the bytes to the
  end of the page; \<^verbatim>\<open>copy_from_slice\<close> panics when its length differs from the destination's.\<close>

function copy_in_str_loop ::
  "usize \<Rightarrow> usize \<Rightarrow> u8 list \<Rightarrow> nat \<Rightarrow> u8 list \<Rightarrow> kmem \<Rightarrow> u8 list outcome" where
  "copy_in_str_loop pgt va src count dst s =
     (let count = (if count > length dst then length dst else count) in
      case find_zero src of
        Some end_idx \<Rightarrow>
          if end_idx + 1 > length dst then Inl OutOfBounds
          else Inr (take (end_idx + 1) src @ drop (end_idx + 1) dst)
      | None \<Rightarrow>
          if length src \<noteq> count then Inl LengthMismatch
          else if drop count dst = [] then Inr src
          else bindR (add_page va) (\<lambda>va'.
            bindR (pgt_translate_unwrap pgt va' s) (\<lambda>(pa, s).
              bindR (copy_in_str_loop pgt va' (load_bytes (pmem s) (unat pa) 4096) 4096
                       (drop count dst) s) (\<lambda>rest. Inr (src @ rest)))))"
  by pat_completeness auto
termination
  by (relation "measure (\<lambda>(_, va, _). 2 ^ 64 - unat va)")
    (simp_all only: in_measure wf_measure prod.case add_page_less)

declare copy_in_str_loop.simps [simp del]

definition copy_in_str :: "usize \<Rightarrow> u8 list \<Rightarrow> usize \<Rightarrow> kmem \<Rightarrow> u8 list outcome" where
  "copy_in_str pgt dst src s =
     (let va = pg_round_down src; off = unat src - unat va in
      bindR (pgt_translate_unwrap pgt va s) (\<lambda>(pa, s).
        copy_in_str_loop pgt va (load_bytes (pmem s) (unat pa + off) (4096 - off))
          (4096 - off) dst s))"

text \<open>\<^verbatim>\<open>copy_to_kernel\<close> and \<^verbatim>\<open>copy_from_kernel\<close> of \<^verbatim>\<open>memory/mod.rs\<close>; \<open>cur\<close> is the page table of the
  running process.\<close>

definition copy_to_kernel :: "usize option \<Rightarrow> nat \<Rightarrow> usize \<Rightarrow> bool \<Rightarrow> kmem \<Rightarrow> u8 list outcome" where
  "copy_to_kernel cur n src user s =
     (if user then bindR (unwrap cur) (\<lambda>pgt. copy_in pgt n src s)
      else Inr (load_bytes (pmem s) (unat src) n))"

definition copy_from_kernel ::
  "usize option \<Rightarrow> usize \<Rightarrow> u8 list \<Rightarrow> bool \<Rightarrow> kmem \<Rightarrow> kmem outcome" where
  "copy_from_kernel cur dst src user s =
     (if user then bindR (unwrap cur) (\<lambda>pgt. copy_out pgt dst src s)
      else Inr (s\<lparr>pmem := store_bytes (pmem s) (unat dst) src\<rparr>))"

end
