(* ===== verification/Rx_Vspace.thy ===== *)
theory Rx_Vspace
  imports Rx_Pagetable
begin

text \<open>
  What the page tables of \<^verbatim>\<open>memory/mapping/pagetable.rs\<close> mean. A table is a tree of pages in
  physical memory; \<open>node\<close> follows a path of indices from the root, \<open>wf_pt\<close> says that the pages
  reached are distinct pages of RAM and that no huge page is mapped (the case of every user
  page table), and \<open>vmap\<close> is the address space the tree stands for: a map from virtual page
  numbers to valid entries. The operations are shown to implement updates of \<open>vmap\<close>.
\<close>

section \<open>The tree of table pages\<close>

definition is_table :: "usize \<Rightarrow> bool" where
  "is_table e \<longleftrightarrow> is_valid e \<and> \<not> is_leaf e"

primrec node :: "pmem \<Rightarrow> usize \<Rightarrow> nat list \<Rightarrow> usize option" where
  "node m pg [] = Some pg"
| "node m pg (i # is) =
     (let e = load64 m (unat pg + 8 * i) in
      if is_table e then node m (as_pagetable e) is else None)"

definition path_ok :: "nat list \<Rightarrow> bool" where
  "path_ok p \<longleftrightarrow> length p \<le> 2 \<and> (\<forall>i\<in>set p. i < 512)"

definition pt_pages :: "pmem \<Rightarrow> usize \<Rightarrow> usize set" where
  "pt_pages m root = {x. \<exists>p. path_ok p \<and> node m root p = Some x}"

definition wf_pt :: "pmem \<Rightarrow> usize \<Rightarrow> bool" where
  "wf_pt m root \<longleftrightarrow>
     (\<forall>x\<in>pt_pages m root. ram_page x) \<and>
     (\<forall>p q x. path_ok p \<longrightarrow> path_ok q \<longrightarrow> node m root p = Some x \<longrightarrow>
        node m root q = Some x \<longrightarrow> p = q) \<and>
     (\<forall>p x i. path_ok p \<longrightarrow> length p < 2 \<longrightarrow> node m root p = Some x \<longrightarrow> i < 512 \<longrightarrow>
        \<not> (is_valid (load64 m (unat x + 8 * i)) \<and> is_leaf (load64 m (unat x + 8 * i))))"

text \<open>The part of it that also holds for tables with large pages.\<close>

definition wf_tree :: "pmem \<Rightarrow> usize \<Rightarrow> bool" where
  "wf_tree m root \<longleftrightarrow>
     (\<forall>x\<in>pt_pages m root. ram_page x) \<and>
     (\<forall>p q x. path_ok p \<longrightarrow> path_ok q \<longrightarrow> node m root p = Some x \<longrightarrow>
        node m root q = Some x \<longrightarrow> p = q)"

definition vpath :: "nat \<Rightarrow> nat list" where
  "vpath v = [v div 2 ^ 18 mod 512, v div 2 ^ 9 mod 512]"

definition pte_slot :: "pmem \<Rightarrow> usize \<Rightarrow> nat \<Rightarrow> nat option" where
  "pte_slot m root v = map_option (\<lambda>pg. unat pg + 8 * (v mod 512)) (node m root (vpath v))"

definition vmap :: "pmem \<Rightarrow> usize \<Rightarrow> nat \<Rightarrow> usize option" where
  "vmap m root v =
     (if v < 2 ^ 27 then
        (case pte_slot m root v of
           None \<Rightarrow> None
         | Some a \<Rightarrow> if is_valid (load64 m a) then Some (load64 m a) else None)
      else None)"

lemma path_ok_simps [simp]:
  "path_ok []" "path_ok (vpath v)" "length (vpath v) = 2"
  by (simp_all add: path_ok_def vpath_def)

lemma path_ok_snoc: "path_ok p \<Longrightarrow> length p < 2 \<Longrightarrow> i < 512 \<Longrightarrow> path_ok (p @ [i])"
  by (auto simp: path_ok_def)

lemma path_ok_prefix: "path_ok (p @ q) \<Longrightarrow> path_ok p"
  by (auto simp: path_ok_def)

lemma node_append:
  "node m pg (p @ q) = (case node m pg p of None \<Rightarrow> None | Some x \<Rightarrow> node m x q)"
  by (induction p arbitrary: pg) (simp_all add: Let_def)

lemma node_eqI:
  assumes "\<And>q j y r. p = q @ j # r \<Longrightarrow> node m root q = Some y \<Longrightarrow>
             load64 m' (unat y + 8 * j) = load64 m (unat y + 8 * j)"
  shows "node m' root p = node m root p"
  using assms
proof (induction p arbitrary: root)
  case (Cons i p)
  let ?e = "load64 m (unat root + 8 * i)"
  have e: "load64 m' (unat root + 8 * i) = ?e" using Cons.prems [of "[]" i p root] by simp
  show ?case
  proof (cases "is_table ?e")
    case True
    have "node m' (as_pagetable ?e) p = node m (as_pagetable ?e) p"
    proof (rule Cons.IH)
      fix q j y r assume "p = q @ j # r" "node m (as_pagetable ?e) q = Some y"
      then show "load64 m' (unat y + 8 * j) = load64 m (unat y + 8 * j)"
        using Cons.prems [of "i # q" j r y] True by (simp add: Let_def)
    qed
    with e True show ?thesis by (simp add: Let_def)
  qed (simp add: e Let_def)
qed simp

lemma pt_pagesI: "path_ok p \<Longrightarrow> node m root p = Some x \<Longrightarrow> x \<in> pt_pages m root"
  by (auto simp: pt_pages_def)

lemma root_in_pt_pages [simp]: "root \<in> pt_pages m root"
  by (rule pt_pagesI [of "[]"]) simp_all

lemma wf_pt_ram: "wf_pt m root \<Longrightarrow> x \<in> pt_pages m root \<Longrightarrow> ram_page x"
  by (simp add: wf_pt_def)

lemma wf_pt_inj:
  "wf_pt m root \<Longrightarrow> path_ok p \<Longrightarrow> path_ok q \<Longrightarrow> node m root p = Some x \<Longrightarrow>
   node m root q = Some x \<Longrightarrow> p = q"
  by (simp add: wf_pt_def)

lemma wf_pt_tree: "wf_pt m root \<Longrightarrow> wf_tree m root"
  by (auto simp: wf_pt_def wf_tree_def)

lemma wf_tree_ram: "wf_tree m root \<Longrightarrow> x \<in> pt_pages m root \<Longrightarrow> ram_page x"
  by (simp add: wf_tree_def)

lemma wf_tree_inj:
  "wf_tree m root \<Longrightarrow> path_ok p \<Longrightarrow> path_ok q \<Longrightarrow> node m root p = Some x \<Longrightarrow>
   node m root q = Some x \<Longrightarrow> p = q"
  by (simp add: wf_tree_def)

lemma wf_pt_no_huge:
  "wf_pt m root \<Longrightarrow> path_ok p \<Longrightarrow> length p < 2 \<Longrightarrow> node m root p = Some x \<Longrightarrow> i < 512 \<Longrightarrow>
   is_valid (load64 m (unat x + 8 * i)) \<Longrightarrow> \<not> is_leaf (load64 m (unat x + 8 * i))"
  by (auto simp: wf_pt_def)

section \<open>Writes outside the tree\<close>

definition pt_same :: "pmem \<Rightarrow> pmem \<Rightarrow> usize \<Rightarrow> bool" where
  "pt_same m m' root \<longleftrightarrow>
     (\<forall>y\<in>pt_pages m root. \<forall>j<512. load64 m' (unat y + 8 * j) = load64 m (unat y + 8 * j))"

lemma pt_sameD:
  "pt_same m m' root \<Longrightarrow> path_ok p \<Longrightarrow> node m root p = Some x \<Longrightarrow> j < 512 \<Longrightarrow>
   load64 m' (unat x + 8 * j) = load64 m (unat x + 8 * j)"
  using pt_pagesI by (auto simp: pt_same_def)

lemma pt_same_node: "pt_same m m' root \<Longrightarrow> path_ok p \<Longrightarrow> node m' root p = node m root p"
proof (rule node_eqI)
  fix q j y r
  assume same: "pt_same m m' root" and ok: "path_ok p" and p: "p = q @ j # r"
    and y: "node m root q = Some y"
  have "path_ok q" "j < 512" using ok p by (auto simp: path_ok_def)
  with same y show "load64 m' (unat y + 8 * j) = load64 m (unat y + 8 * j)"
    by (auto simp: pt_same_def intro: pt_pagesI)
qed

lemma pt_same_pages: "pt_same m m' root \<Longrightarrow> pt_pages m' root = pt_pages m root"
  by (auto simp: pt_pages_def pt_same_node)

lemma pt_same_wf: "pt_same m m' root \<Longrightarrow> wf_pt m root \<Longrightarrow> wf_pt m' root"
proof -
  assume same: "pt_same m m' root" and wf: "wf_pt m root"
  have "load64 m' (unat x + 8 * i) = load64 m (unat x + 8 * i)"
    if "path_ok p" "node m root p = Some x" "i < 512" for p x i
    using pt_sameD [OF same that] .
  with wf show ?thesis
    by (simp add: wf_pt_def pt_same_pages [OF same] pt_same_node [OF same] cong: conj_cong imp_cong)
qed

lemma pt_same_tree: "pt_same m m' root \<Longrightarrow> wf_tree m root \<Longrightarrow> wf_tree m' root"
  by (simp add: wf_tree_def pt_same_pages pt_same_node cong: conj_cong imp_cong)

lemma pt_same_vmap: "pt_same m m' root \<Longrightarrow> vmap m' root = vmap m root"
proof
  fix v assume same: "pt_same m m' root"
  show "vmap m' root v = vmap m root v"
  proof (cases "node m root (vpath v)")
    case None
    then show ?thesis by (simp add: vmap_def pte_slot_def pt_same_node [OF same])
  next
    case (Some x)
    then have "load64 m' (unat x + 8 * (v mod 512)) = load64 m (unat x + 8 * (v mod 512))"
      using pt_sameD [OF same, of "vpath v" x "v mod 512"] by simp
    with Some show ?thesis by (simp add: vmap_def pte_slot_def pt_same_node [OF same])
  qed
qed

lemma pt_same_slot: "pt_same m m' root \<Longrightarrow> pte_slot m' root v = pte_slot m root v"
  by (simp add: pte_slot_def pt_same_node)

text \<open>A page of memory that is unchanged gives unchanged entries.\<close>

lemma load64_page_eq:
  assumes "load_bytes m' (unat y) 4096 = load_bytes m (unat y) 4096" "j < 512"
  shows "load64 m' (unat y + 8 * j) = load64 m (unat y + 8 * j)"
proof -
  have "load_bytes m' (unat y + 8 * j) 8 = load_bytes m (unat y + 8 * j) 8"
  proof (rule nth_equalityI)
    fix i assume "i < length (load_bytes m' (unat y + 8 * j) 8)"
    then have i: "i < 8" "8 * j + i < 4096" using assms(2) by auto
    then have "load_bytes m' (unat y) 4096 ! (8 * j + i) = load_bytes m (unat y) 4096 ! (8 * j + i)"
      using assms(1) by simp
    with i show "load_bytes m' (unat y + 8 * j) 8 ! i = load_bytes m (unat y + 8 * j) 8 ! i"
      by (simp add: add.assoc)
  qed simp
  then show ?thesis by (simp add: load64_def)
qed

lemma pt_sameI:
  "(\<And>y. y \<in> pt_pages m root \<Longrightarrow> load_bytes m' (unat y) 4096 = load_bytes m (unat y) 4096) \<Longrightarrow>
   pt_same m m' root"
  by (auto simp: pt_same_def intro: load64_page_eq)

section \<open>Writing an entry of the tree\<close>

lemma ram_slot_disjoint:
  assumes "ram_page x" "ram_page y" "i < 512" "j < 512" "x \<noteq> y \<or> i \<noteq> j"
  shows "load64 (store64 m (unat x + 8 * i) e) (unat y + 8 * j) = load64 m (unat y + 8 * j)"
proof (rule load64_store64_disjoint)
  show "unat y + 8 * j + 8 \<le> unat x + 8 * i \<or> unat x + 8 * i + 8 \<le> unat y + 8 * j"
  proof (cases "x = y")
    case True
    with assms(5) show ?thesis by auto
  next
    case False
    from ram_page_disjoint [OF assms(1,2) False] assms(3,4) show ?thesis by linarith
  qed
qed

lemma node_store:
  assumes wf: "wf_tree m root" and p: "path_ok p" "node m root p = Some x" and i: "i < 512"
    and q: "path_ok q" "\<And>r. q \<noteq> p @ i # r"
  shows "node (store64 m (unat x + 8 * i) e) root q = node m root q"
proof (rule node_eqI)
  fix q' j y r assume split: "q = q' @ j # r" and y: "node m root q' = Some y"
  have q': "path_ok q'" "j < 512" using q(1) split by (auto simp: path_ok_def)
  have "x \<noteq> y \<or> i \<noteq> j"
    using wf_tree_inj [OF wf p(1) q'(1) p(2)] y q(2) [of r] split by auto
  then show "load64 (store64 m (unat x + 8 * i) e) (unat y + 8 * j) = load64 m (unat y + 8 * j)"
    using wf p y q' i by (intro ram_slot_disjoint) (auto intro: wf_tree_ram pt_pagesI)
qed

text \<open>Virtual page numbers below \<open>2 ^ 27\<close> and paths with a last index are in bijection.\<close>

lemma vpath_inj:
  assumes "v < 2 ^ 27" "w < 2 ^ 27" "vpath v = vpath w" "v mod 512 = w mod 512"
  shows "v = w"
proof -
  have top: "u div 2 ^ 18 mod 512 = u div 512 div 512" if "u < 2 ^ 27" for u :: nat
  proof -
    have "u div 2 ^ 18 < 512" using that by (simp add: less_mult_imp_div_less)
    then show ?thesis by (simp add: div_mult2_eq [symmetric])
  qed
  have "v div 512 div 512 = w div 512 div 512" "v div 512 mod 512 = w div 512 mod 512"
    using assms(3) unfolding vpath_def list.inject top [OF assms(1)] top [OF assms(2)] by simp_all
  then have "v div 512 = w div 512" by (metis div_mult_mod_eq)
  with assms(4) show ?thesis by (metis div_mult_mod_eq)
qed

text \<open>Writing a level-0 entry changes the address space at one page and nothing else.\<close>

lemma tree_set_leaf:
  assumes wf: "wf_tree m root" and slot: "pte_slot m root v = Some a" and v: "v < 2 ^ 27"
    and m'_def: "m' = store64 m a e"
  shows "wf_tree m' root" "pt_pages m' root = pt_pages m root"
    "vmap m' root = (vmap m root)(v := if is_valid e then Some e else None)"
    "\<And>w. pte_slot m' root w = pte_slot m root w"
    "\<And>q. path_ok q \<Longrightarrow> node m' root q = node m root q"
    "\<And>q y j. path_ok q \<Longrightarrow> node m root q = Some y \<Longrightarrow> j < 512 \<Longrightarrow> q \<noteq> vpath v \<or> j \<noteq> v mod 512 \<Longrightarrow>
       load64 m' (unat y + 8 * j) = load64 m (unat y + 8 * j)"
proof -
  obtain x where x: "node m root (vpath v) = Some x" and a: "a = unat x + 8 * (v mod 512)"
    using slot by (auto simp: pte_slot_def)
  show node: "node m' root q = node m root q" if "path_ok q" for q
    unfolding m'_def a
  proof (rule node_store [OF wf _ x _ that])
    fix r
    have "length q \<le> 2" using that by (simp add: path_ok_def)
    then show "q \<noteq> vpath v @ (v mod 512) # r" by auto
  qed simp_all
  show pages: "pt_pages m' root = pt_pages m root" by (auto simp: pt_pages_def node)
  show other: "load64 m' (unat y + 8 * j) = load64 m (unat y + 8 * j)"
    if "path_ok q" "node m root q = Some y" "j < 512" "q \<noteq> vpath v \<or> j \<noteq> v mod 512" for q y j
    unfolding m'_def a
  proof (rule ram_slot_disjoint)
    show "ram_page x" by (rule wf_tree_ram [OF wf pt_pagesI [OF _ x]]) simp
    show "ram_page y" by (rule wf_tree_ram [OF wf pt_pagesI [OF that(1,2)]])
    show "x \<noteq> y \<or> v mod 512 \<noteq> j"
      using that(2,4) wf_tree_inj [OF wf that(1) _ _ x] by auto
  qed (use that(3) in simp_all)
  show "wf_tree m' root"
    using wf by (simp add: wf_tree_def pages node cong: conj_cong imp_cong)
  show slots: "pte_slot m' root w = pte_slot m root w" for w by (simp add: pte_slot_def node)
  show "vmap m' root = (vmap m root)(v := if is_valid e then Some e else None)"
  proof
    fix w
    show "vmap m' root w = ((vmap m root)(v := if is_valid e then Some e else None)) w"
    proof (cases "w = v")
      case True
      have "load64 m' a = e" by (simp add: m'_def)
      with True v show ?thesis by (simp add: vmap_def slots slot)
    next
      case False
      then have ne: "w < 2 ^ 27 \<Longrightarrow> vpath w \<noteq> vpath v \<or> w mod 512 \<noteq> v mod 512"
        using vpath_inj [OF _ v] by blast
      show ?thesis
      proof (cases "node m root (vpath w)")
        case None
        with False show ?thesis by (simp add: vmap_def slots) (simp add: pte_slot_def)
      next
        case (Some y)
        with other [of "vpath w" y "w mod 512"] ne False show ?thesis
          by (simp add: vmap_def slots) (simp add: pte_slot_def)
      qed
    qed
  qed
qed

lemma pt_set_leaf:
  assumes wf: "wf_pt m root" and slot: "pte_slot m root v = Some a" and v: "v < 2 ^ 27"
    and m'_def: "m' = store64 m a e"
  shows "wf_pt m' root" "pt_pages m' root = pt_pages m root"
    "vmap m' root = (vmap m root)(v := if is_valid e then Some e else None)"
    "\<And>w. pte_slot m' root w = pte_slot m root w"
proof -
  note leaf = tree_set_leaf [OF wf_pt_tree [OF wf] slot v m'_def]
  show "pt_pages m' root = pt_pages m root"
    "vmap m' root = (vmap m root)(v := if is_valid e then Some e else None)"
    "\<And>w. pte_slot m' root w = pte_slot m root w" by (rule leaf)+
  have "\<not> (is_valid (load64 m' (unat x + 8 * i)) \<and> is_leaf (load64 m' (unat x + 8 * i)))"
    if h: "path_ok p" "length p < 2" "node m' root p = Some x" "i < 512" for p x i
  proof -
    have x: "node m root p = Some x" using h(1,3) leaf(5) by simp
    then have "load64 m' (unat x + 8 * i) = load64 m (unat x + 8 * i)"
      using h by (intro leaf(6) [of p]) auto
    then show ?thesis using wf_pt_no_huge [OF wf h(1,2) x h(4)] by auto
  qed
  with leaf(1) show "wf_pt m' root" by (auto simp: wf_pt_def wf_tree_def)
qed

section \<open>Translation without allocation\<close>

lemma page_num_vpath:
  "[unat (page_num va 2), unat (page_num va 1)] = vpath (unat va div 4096)"
  "unat (page_num va 0) = unat va div 4096 mod 512"
  by (simp_all add: page_num_unat vpath_def div_mult2_eq [symmetric])

lemma translate_slot:
  assumes wf: "wf_pt (pmem s) root" and va: "va \<le> MAXVA"
  shows "translate root va False s = Inr (pte_slot (pmem s) root (unat va div 4096), s)"
proof -
  let ?i2 = "unat (page_num va 2)" and ?i1 = "unat (page_num va 1)"
  let ?e2 = "load64 (pmem s) (unat root + 8 * ?i2)"
  let ?e1 = "load64 (pmem s) (unat (as_pagetable ?e2) + 8 * ?i1)"
  have leaf2: "is_valid ?e2 \<Longrightarrow> \<not> is_leaf ?e2"
    using wf_pt_no_huge [OF wf, of "[]" root ?i2] by simp
  have leaf1: "is_valid ?e2 \<Longrightarrow> is_valid ?e1 \<Longrightarrow> \<not> is_leaf ?e1"
    using wf_pt_no_huge [OF wf, of "[?i2]" "as_pagetable ?e2" ?i1] leaf2
    by (simp add: is_table_def path_ok_def)
  have slot: "pte_slot (pmem s) root (unat va div 4096) =
    map_option (\<lambda>pg. unat pg + 8 * unat (page_num va 0)) (node (pmem s) root [?i2, ?i1])"
    by (simp only: pte_slot_def page_num_vpath)
  have rwx: "is_read e \<or> is_write e \<or> is_execute e \<longleftrightarrow> is_leaf e" for e
    by (rule is_leaf_rwx)
  show ?thesis
    using va leaf2 leaf1
    by (simp add: translate_def slot pte_at_def get_pte_def rwx is_table_def Let_def not_less)
qed

lemma translate_beyond: "MAXVA < va \<Longrightarrow> translate root va alloc s = Inr (None, s)"
  by (simp add: translate_def)

section \<open>Growing the tree\<close>

lemma write_perm_table:
  assumes "ram_page z"
  shows "is_table (write_perm z 0)" "as_pagetable (write_perm z 0) = z"
proof -
  have "is_page_aligned z" using assms by (simp add: is_page_aligned_unat ram_page_def)
  then show "as_pagetable (write_perm z 0) = z"
    by (rule as_pagetable_write_perm) (simp add: as_flags_def)
  show "is_table (write_perm z 0)" by (simp add: is_table_def)
qed

lemma pt_add_table:
  assumes wf: "wf_tree m root" and p: "path_ok p" "length p < 2" "node m root p = Some x"
    and i: "i < 512" and inv: "\<not> is_valid (load64 m (unat x + 8 * i))"
    and z: "ram_page z" "z \<notin> pt_pages m root"
    and m': "m' = store64 (fill_zero m (unat z) 4096) (unat x + 8 * i) (write_perm z 0)"
  shows "\<And>q. path_ok q \<Longrightarrow> node m' root q = (if q = p @ [i] then Some z else node m root q)"
    and "\<And>y j. y \<in> pt_pages m root \<Longrightarrow> j < 512 \<Longrightarrow> y \<noteq> x \<or> j \<noteq> i \<Longrightarrow>
           load64 m' (unat y + 8 * j) = load64 m (unat y + 8 * j)"
    and "\<And>j. j < 512 \<Longrightarrow> load64 m' (unat z + 8 * j) = 0"
proof -
  let ?m = "fill_zero m (unat z) 4096"
  have x: "x \<in> pt_pages m root" "ram_page x" "x \<noteq> z"
    using pt_pagesI [OF p(1,3)] wf_tree_ram [OF wf] z by auto
  have fill: "load64 ?m (unat y + 8 * j) = load64 m (unat y + 8 * j)"
    if "y \<in> pt_pages m root" "j < 512" for y j
  proof (rule load64_fill_zero_disjoint)
    have "unat y + 4096 \<le> unat z \<or> unat z + 4096 \<le> unat y"
      using that z by (intro ram_page_disjoint) (auto intro: wf_tree_ram [OF wf])
    with that(2) show "unat y + 8 * j + 8 \<le> unat z \<or> unat z + 4096 \<le> unat y + 8 * j" by linarith
  qed
  then have same: "pt_same m ?m root" by (simp add: pt_same_def)
  have node: "node ?m root q = node m root q" if "path_ok q" for q
    by (rule pt_same_node [OF same that])
  have wf': "wf_tree ?m root" by (rule pt_same_tree [OF same wf])
  show old: "load64 m' (unat y + 8 * j) = load64 m (unat y + 8 * j)"
    if "y \<in> pt_pages m root" "j < 512" "y \<noteq> x \<or> j \<noteq> i" for y j
    unfolding m' using that x wf_tree_ram [OF wf that(1)] i
    by (subst ram_slot_disjoint) (auto simp: fill)
  show zero: "load64 m' (unat z + 8 * j) = 0" if "j < 512" for j
    unfolding m' using that x z i by (subst ram_slot_disjoint) (auto simp: mem_simps)
  fix q assume q: "path_ok q"
  show "node m' root q = (if q = p @ [i] then Some z else node m root q)"
  proof (cases "\<exists>r. q = p @ i # r")
    case False
    then show ?thesis
      unfolding m' using node_store [OF wf' p(1) _ i q] node [OF p(1)] node [OF q] p(3) by auto
  next
    case True
    then obtain r where r: "q = p @ i # r" by blast
    have "node m' root p = Some x"
      unfolding m' using node_store [OF wf' p(1) _ i p(1)] node [OF p(1)] p(3) by simp
    moreover have "load64 m' (unat x + 8 * i) = write_perm z 0" unfolding m' by simp
    ultimately have "node m' root q = node m' z r"
      by (simp add: r node_append write_perm_table [OF z(1)])
    moreover have "node m' z r = (if r = [] then Some z else None)"
    proof (cases r)
      case (Cons j r')
      then have "j < 512" using q r by (auto simp: path_ok_def)
      with zero [of j] Cons show ?thesis by (simp add: is_table_def)
    qed simp
    moreover have "node m root q = None" using inv p(3) by (simp add: r node_append is_table_def)
    ultimately show ?thesis using r by auto
  qed
qed

text \<open>
  The joint invariant of an address space and the allocator: no table page is free. And what
  an operation may do while it adds table pages: it takes \<open>used\<close> from the front of the free
  list, each with one reference, and changes neither the address space nor any page outside
  the tree.
\<close>

definition vs_inv :: "usize \<Rightarrow> usize list \<Rightarrow> usize \<Rightarrow> kmem \<Rightarrow> bool" where
  "vs_inv hs ps root s \<longleftrightarrow>
     ka_inv hs ps s \<and> wf_pt (pmem s) root \<and> pt_pages (pmem s) root \<inter> set ps = {}"

definition pt_ext :: "usize \<Rightarrow> usize \<Rightarrow> usize list \<Rightarrow> usize list \<Rightarrow> kmem \<Rightarrow> kmem \<Rightarrow> bool" where
  "pt_ext hs root used ps s s' \<longleftrightarrow>
     vs_inv hs ps root s' \<and>
     pt_pages (pmem s') root = pt_pages (pmem s) root \<union> set used \<and>
     (\<forall>q. ram_page q \<longrightarrow> rc s' q = (if q \<in> set used then 1 else rc s q)) \<and>
     (\<forall>y. ram_page y \<longrightarrow> y \<notin> pt_pages (pmem s') root \<longrightarrow>
        load_bytes (pmem s') (unat y) 4096 = load_bytes (pmem s) (unat y) 4096)"

definition pt_grow :: "usize \<Rightarrow> usize \<Rightarrow> usize list \<Rightarrow> usize list \<Rightarrow> kmem \<Rightarrow> kmem \<Rightarrow> bool" where
  "pt_grow hs root used ps s s' \<longleftrightarrow>
     pt_ext hs root used ps s s' \<and> vmap (pmem s') root = vmap (pmem s) root"

lemma pt_ext_trans:
  "pt_ext hs root us (vs @ ps) s s1 \<Longrightarrow> pt_ext hs root vs ps s1 s2 \<Longrightarrow>
   pt_ext hs root (us @ vs) ps s s2"
  by (auto simp: pt_ext_def)

lemma pt_ext_refl: "vs_inv hs ps root s \<Longrightarrow> pt_ext hs root [] ps s s"
  by (simp add: pt_ext_def)

lemma pt_grow_refl: "vs_inv hs ps root s \<Longrightarrow> pt_grow hs root [] ps s s"
  by (simp add: pt_grow_def pt_ext_refl)

lemma pt_grow_trans:
  "pt_grow hs root us (vs @ ps) s s1 \<Longrightarrow> pt_grow hs root vs ps s1 s2 \<Longrightarrow>
   pt_grow hs root (us @ vs) ps s s2"
  by (auto simp: pt_grow_def intro: pt_ext_trans)

lemma pt_grow_inv: "pt_grow hs root us ps s s' \<Longrightarrow> vs_inv hs ps root s'"
  by (simp add: pt_grow_def pt_ext_def)

lemma pt_ext_inv: "pt_ext hs root us ps s s' \<Longrightarrow> vs_inv hs ps root s'"
  by (simp add: pt_ext_def)

lemma vs_inv_tree_not_free:
  "vs_inv hs ps root s \<Longrightarrow> path_ok p \<Longrightarrow> node (pmem s) root p = Some x \<Longrightarrow> x \<notin> set ps"
  using pt_pagesI by (fastforce simp: vs_inv_def)

text \<open>Writing an entry of the tree does not touch the free list.\<close>

lemma ka_inv_set_pte:
  assumes "ka_inv hs ps s" "ram_page x" "x \<notin> set ps" "i < 512"
  shows "ka_inv hs ps (set_pte (unat x + 8 * i) e s)"
  unfolding set_pte_def
proof (rule ka_inv_mem [OF assms(1)])
  fix q assume "q \<in> set ps"
  then show "load64 (store64 (pmem s) (unat x + 8 * i) e) (unat q) = load64 (pmem s) (unat q)"
    using ram_slot_disjoint [of x q i 0 "pmem s" e] ka_inv_ram [OF assms(1)] assms by force
qed

lemma tree_add_table:
  assumes wf: "wf_tree m root" and p: "path_ok p" "length p < 2" "node m root p = Some x"
    and i: "i < 512" and inv: "\<not> is_valid (load64 m (unat x + 8 * i))"
    and z: "ram_page z" "z \<notin> pt_pages m root"
    and m': "m' = store64 (fill_zero m (unat z) 4096) (unat x + 8 * i) (write_perm z 0)"
  shows "wf_tree m' root" "pt_pages m' root = insert z (pt_pages m root)"
    "vmap m' root = vmap m root"
proof -
  note add = pt_add_table [OF assms]
  have pi: "path_ok (p @ [i])" using p(1,2) i by (rule path_ok_snoc)
  have none: "node m root (p @ [i]) = None" using inv p(3) by (simp add: node_append is_table_def)
  show pages: "pt_pages m' root = insert z (pt_pages m root)"
    using add(1) pi none by (auto simp: pt_pages_def split: if_splits) (metis option.distinct(1))
  show "wf_tree m' root"
    unfolding wf_tree_def pages
  proof (intro conjI allI impI)
    show "\<forall>x\<in>insert z (pt_pages m root). ram_page x" using z wf_tree_ram [OF wf] by auto
  next
    fix q r y assume "path_ok q" "path_ok r" "node m' root q = Some y" "node m' root r = Some y"
    then show "q = r"
      using add(1) wf_tree_inj [OF wf, of q r y] z(2) pt_pagesI [of _ m root]
      by (auto split: if_splits)
  qed
  show "vmap m' root = vmap m root"
  proof
    fix v
    have ne: "y \<noteq> x" if "node m root (vpath v) = Some y" for y
      using wf_tree_inj [OF wf p(1) _ p(3), of "vpath v"] that p(2) by auto
    show "vmap m' root v = vmap m root v"
      using add(1) [of "vpath v"] add(2) [of _ "v mod 512"] add(3) [of "v mod 512"] none ne pi
        pt_pagesI [of "vpath v" m root]
      by (cases "vpath v = p @ [i]"; cases "node m root (vpath v)") (auto simp: vmap_def pte_slot_def)
  qed
qed

lemma wf_pt_add_table:
  assumes wf: "wf_pt m root" and p: "path_ok p" "length p < 2" "node m root p = Some x"
    and i: "i < 512" and inv: "\<not> is_valid (load64 m (unat x + 8 * i))"
    and z: "ram_page z" "z \<notin> pt_pages m root"
    and m': "m' = store64 (fill_zero m (unat z) 4096) (unat x + 8 * i) (write_perm z 0)"
  shows "wf_pt m' root" "pt_pages m' root = insert z (pt_pages m root)"
    "vmap m' root = vmap m root"
proof -
  note tree = tree_add_table [OF wf_pt_tree [OF wf] p i inv z m']
  note add = pt_add_table [OF wf_pt_tree [OF wf] p i inv z m']
  show "pt_pages m' root = insert z (pt_pages m root)" "vmap m' root = vmap m root" by (rule tree)+
  have xm: "load64 m' (unat x + 8 * i) = write_perm z 0" by (simp add: m')
  have "\<not> (is_valid (load64 m' (unat y + 8 * j)) \<and> is_leaf (load64 m' (unat y + 8 * j)))"
    if q: "path_ok q" "length q < 2" "node m' root q = Some y" "j < 512" for q y j
  proof -
    have "\<not> (is_valid (load64 m (unat y + 8 * j)) \<and> is_leaf (load64 m (unat y + 8 * j)))"
      if "q \<noteq> p @ [i]" using wf_pt_no_huge [OF wf q(1,2) _ q(4)] add(1) [OF q(1)] q(3) that by auto
    then show ?thesis
      using add(1) [OF q(1)] add(2) [of y j] add(3) [of j] q xm pt_pagesI [of q m root y]
      by (cases "q = p @ [i]"; cases "y = x \<and> j = i") auto
  qed
  with tree(1) show "wf_pt m' root" by (auto simp: wf_pt_def wf_tree_def)
qed

lemma walk_alloc:
  assumes vs: "vs_inv hs (z # ps) root s" and p: "path_ok p" "length p < 2"
    "node (pmem s) root p = Some x"
    and i: "i < 512" and inv: "\<not> is_valid (load64 (pmem s) (unat x + 8 * i))"
  obtains s1 where "new_zeroed s = Inr (z, s1)"
    "pt_grow hs root [z] ps s (set_pte (unat x + 8 * i) (write_perm z 0) s1)"
    "node (pmem (set_pte (unat x + 8 * i) (write_perm z 0) s1)) root (p @ [i]) = Some z"
proof -
  have ka: "ka_inv hs (z # ps) s" and wf: "wf_pt (pmem s) root"
    and disj: "pt_pages (pmem s) root \<inter> set (z # ps) = {}" using vs by (simp_all add: vs_inv_def)
  obtain s1 where s1: "new_zeroed s = Inr (z, s1)" "ka_inv hs ps s1" "heap_page hs z"
    "ka_count s1 = (ka_count s)(pidx z := 1)" "pmem s1 = fill_zero (pmem s) (unat z) 4096"
    using new_zeroed_cons [OF ka] by metis
  have z: "ram_page z" "z \<notin> pt_pages (pmem s) root" using s1(3) disj by auto
  have x: "x \<in> pt_pages (pmem s) root" by (rule pt_pagesI [OF p(1,3)])
  then have xr: "ram_page x" "x \<notin> set ps" "x \<noteq> z" using wf_pt_ram [OF wf] disj z(2) by auto
  let ?s = "set_pte (unat x + 8 * i) (write_perm z 0) s1"
  have m: "pmem ?s = store64 (fill_zero (pmem s) (unat z) 4096) (unat x + 8 * i) (write_perm z 0)"
    by (simp add: set_pte_def s1(5))
  note add = wf_pt_add_table [OF wf p i inv z m]
  have "z \<notin> set ps" using ka.free_distinct [OF ka] by simp
  moreover have "ka_inv hs ps ?s" by (rule ka_inv_set_pte [OF s1(2) xr(1,2) i])
  ultimately have "vs_inv hs ps root ?s" using add(1,2) disj by (auto simp: vs_inv_def)
  moreover have "rc ?s q = (if q = z then 1 else rc s q)" if "ram_page q" for q
    using pidx_inj [OF that z(1)] by (simp add: rc_def set_pte_def s1(4))
  moreover have "load_bytes (pmem ?s) (unat y) 4096 = load_bytes (pmem s) (unat y) 4096"
    if "ram_page y" "y \<notin> pt_pages (pmem ?s) root" for y
  proof -
    have "y \<noteq> z" "y \<noteq> x" using that(2) add(2) x by auto
    then show ?thesis
      unfolding m using ram_page_disjoint [OF that(1) z(1)] ram_page_disjoint [OF that(1) xr(1)] i
      by (subst load_bytes_store64_disjoint) (auto simp: mem_simps)
  qed
  ultimately have "pt_grow hs root [z] ps s ?s" using add by (auto simp: pt_grow_def pt_ext_def)
  moreover have "node (pmem ?s) root (p @ [i]) = Some z"
    using pt_add_table(1) [OF wf_pt_tree [OF wf] p i inv z m path_ok_snoc [OF p(1,2) i]] by simp
  ultimately show thesis using that s1(1) by blast
qed

lemma walk_level:
  assumes vs: "vs_inv hs ps root s" and ne: "ps \<noteq> []" and p: "path_ok p" "length p < 2"
    "node (pmem s) root p = Some x"
  obtains us ps' s' y where "ps = us @ ps'" "length us \<le> 1"
    "translate_walk (level # ls) x va True s = translate_walk ls y va True s'"
    "pt_grow hs root us ps' s s'"
    "node (pmem s') root (p @ [unat (page_num va level)]) = Some y"
proof -
  let ?i = "unat (page_num va level)"
  let ?e = "load64 (pmem s) (unat x + 8 * ?i)"
  have wf: "wf_pt (pmem s) root" using vs by (simp add: vs_inv_def)
  show thesis
  proof (cases "is_valid ?e")
    case True
    then have leaf: "\<not> is_leaf ?e" using wf_pt_no_huge [OF wf p, of ?i] by simp
    then have "\<not> (is_read ?e \<or> is_write ?e \<or> is_execute ?e)" using is_leaf_rwx [of ?e] by blast
    with True leaf p(3) show thesis
      by (intro that [of "[]" ps "as_pagetable ?e" s])
        (simp_all add: pte_at_def get_pte_def Let_def pt_grow_refl [OF vs] node_append is_table_def)
  next
    case False
    obtain z ps' where ps: "ps = z # ps'" using ne by (cases ps) auto
    from walk_alloc [OF vs [unfolded ps] p page_num_lt False]
    obtain s1 where s1: "new_zeroed s = Inr (z, s1)"
      "pt_grow hs root [z] ps' s (set_pte (unat x + 8 * ?i) (write_perm z 0) s1)"
      "node (pmem (set_pte (unat x + 8 * ?i) (write_perm z 0) s1)) root (p @ [?i]) = Some z"
      by metis
    show thesis
      by (rule that [OF _ _ _ s1(2,3)])
        (use False s1(1) ps in \<open>simp_all add: pte_at_def get_pte_def Let_def\<close>)
  qed
qed

text \<open>Translation with allocation finds or makes the slot of the address.\<close>

lemma translate_alloc:
  assumes vs: "vs_inv hs ps root s" and len: "2 \<le> length ps" and va: "va \<le> MAXVA"
  obtains us ps' s' a where "ps = us @ ps'" "length us \<le> 2"
    "translate root va True s = Inr (Some a, s')" "pt_grow hs root us ps' s s'"
    "pte_slot (pmem s') root (unat va div 4096) = Some a"
proof -
  let ?i2 = "unat (page_num va 2)" and ?i1 = "unat (page_num va 1)"
  have ne: "ps \<noteq> []" using len by auto
  have w1: "path_ok []" "length [] < 2" "node (pmem s) root [] = Some root" by simp_all
  obtain us1 ps1 s1 y1 where 1: "ps = us1 @ ps1" "length us1 \<le> 1"
    "translate_walk [2, 1] root va True s = translate_walk [1] y1 va True s1"
    "pt_grow hs root us1 ps1 s s1" "node (pmem s1) root [?i2] = Some y1"
    by (rule walk_level [OF vs ne w1, of 2 "[1]" va, unfolded append_Nil])
  have ne1: "ps1 \<noteq> []" using len 1(1,2) by auto
  have w2: "path_ok [?i2]" "length [?i2] < 2" by (simp_all add: path_ok_def)
  obtain us2 ps2 s2 y2 where 2: "ps1 = us2 @ ps2" "length us2 \<le> 1"
    "translate_walk [1] y1 va True s1 = translate_walk [] y2 va True s2"
    "pt_grow hs root us2 ps2 s1 s2" "node (pmem s2) root [?i2, ?i1] = Some y2"
    by (rule walk_level [OF pt_grow_inv [OF 1(4)] ne1 w2 1(5), of 1 "[]" va,
          unfolded append_Cons append_Nil])
  have "pte_slot (pmem s2) root (unat va div 4096) = Some (pte_at y2 (page_num va 0))"
    using 2(5) unfolding page_num_vpath pte_slot_def pte_at_def by simp
  moreover have "translate root va True s = Inr (Some (pte_at y2 (page_num va 0)), s2)"
    using va 1(3) 2(3) by (simp add: translate_def)
  moreover have "pt_grow hs root (us1 @ us2) ps2 s s2"
    using 1(4) 2(1,4) pt_grow_trans by blast
  ultimately show thesis using that [of "us1 @ us2" ps2] 1(1,2) 2(1,2) by simp
qed

section \<open>Mapping a range\<close>

text \<open>Filling a free slot of the tree with a valid entry.\<close>

lemma set_slot_inv:
  assumes vs: "vs_inv hs ps root s" and slot: "pte_slot (pmem s) root v = Some a"
    and v: "v < 2 ^ 27"
  shows "pt_ext hs root [] ps s (set_pte a e s)"
    and "vmap (pmem (set_pte a e s)) root =
           (vmap (pmem s) root)(v := if is_valid e then Some e else None)"
proof -
  have wf: "wf_pt (pmem s) root" using vs by (simp add: vs_inv_def)
  obtain x where x: "node (pmem s) root (vpath v) = Some x" and a: "a = unat x + 8 * (v mod 512)"
    using slot by (auto simp: pte_slot_def)
  have xp: "x \<in> pt_pages (pmem s) root" "ram_page x" "x \<notin> set ps"
    using pt_pagesI [OF _ x] wf_pt_ram [OF wf] vs_inv_tree_not_free [OF vs _ x] by simp_all
  have m: "pmem (set_pte a e s) = store64 (pmem s) a e" by (simp add: set_pte_def)
  note leaf = pt_set_leaf [OF wf slot v m]
  have "ka_inv hs ps (set_pte a e s)"
    unfolding a using vs xp by (intro ka_inv_set_pte) (simp_all add: vs_inv_def)
  then have "vs_inv hs ps root (set_pte a e s)" using leaf(1,2) vs by (simp add: vs_inv_def)
  moreover have "load_bytes (pmem (set_pte a e s)) (unat y) 4096 = load_bytes (pmem s) (unat y) 4096"
    if "ram_page y" "y \<notin> pt_pages (pmem s) root" for y
  proof -
    have "v mod 512 < 512" by simp
    moreover have "unat y + 4096 \<le> unat x \<or> unat x + 4096 \<le> unat y"
      using that xp by (intro ram_page_disjoint) auto
    ultimately have "unat y + 4096 \<le> a \<or> a + 8 \<le> unat y" unfolding a by linarith
    then show ?thesis unfolding m by (rule load_bytes_store64_disjoint)
  qed
  ultimately show "pt_ext hs root [] ps s (set_pte a e s)"
    using leaf(2) by (simp add: pt_ext_def rc_def set_pte_def)
  show "vmap (pmem (set_pte a e s)) root =
      (vmap (pmem s) root)(v := if is_valid e then Some e else None)" by (rule leaf(3))
qed

text \<open>The specification of \<^verbatim>\<open>map\<close>: \<open>n\<close> consecutive pages from \<open>v\<close> on point to \<open>n\<close> consecutive
  physical pages from \<open>pa\<close> on.\<close>

definition map_range ::
  "(nat \<Rightarrow> usize option) \<Rightarrow> nat \<Rightarrow> nat \<Rightarrow> usize \<Rightarrow> usize \<Rightarrow> nat \<Rightarrow> usize option" where
  "map_range f v n pa perm w =
     (if v \<le> w \<and> w < v + n then Some (write_perm (pa + of_nat (w - v) * PGSIZE) perm) else f w)"

lemma map_range_0 [simp]: "map_range f v 0 pa perm = f"
  by (auto simp: fun_eq_iff map_range_def)

lemma map_range_Suc:
  "map_range (f(v \<mapsto> write_perm pa perm)) (Suc v) n (pa + PGSIZE) perm =
   map_range f v (Suc n) pa perm"
proof
  fix w
  have "pa + PGSIZE + of_nat (w - Suc v) * PGSIZE = pa + of_nat (w - v) * PGSIZE" if "v < w"
  proof -
    have "w - v = Suc (w - Suc v)" using that by simp
    then show ?thesis by (simp add: algebra_simps)
  qed
  note eq = this
  show "map_range (f(v \<mapsto> write_perm pa perm)) (Suc v) n (pa + PGSIZE) perm w =
      map_range f v (Suc n) pa perm w"
  proof (cases "v < w")
    case True
    then have "Suc v \<le> w" "v \<le> w" "w \<noteq> v" by simp_all
    then show ?thesis unfolding map_range_def eq [OF True] by simp
  next
    case False
    then show ?thesis by (cases "w = v") (auto simp: map_range_def)
  qed
qed

lemma add_page_unat:
  "unat a + 4096 < 2 ^ 64 \<Longrightarrow> add_page a = Inr (a + PGSIZE) \<and> unat (a + PGSIZE) = unat a + 4096"
  by (simp add: add_page_def add_ck_def unat_word_ariths)

text \<open>One round of the loop.\<close>

lemma map_step:
  assumes vs: "vs_inv hs ps root s" and len: "2 \<le> length ps"
    and va: "unat va = 4096 * v" "v < 2 ^ 26" and free: "vmap (pmem s) root v = None"
    and pa: "unat pa + 4096 < 2 ^ 64" and ne: "va \<noteq> lst"
  obtains us ps' s' where "ps = us @ ps'" "length us \<le> 2"
    "map_loop root va lst pa perm s = map_loop root (va + PGSIZE) lst (pa + PGSIZE) perm s'"
    "pt_ext hs root us ps' s s'"
    "vmap (pmem s') root = (vmap (pmem s) root)(v \<mapsto> write_perm pa perm)"
proof -
  have "va \<le> MAXVA" using va by (simp add: word_le_nat_alt)
  from translate_alloc [OF vs len this] obtain us ps' s1 a where t:
    "ps = us @ ps'" "length us \<le> 2" "translate root va True s = Inr (Some a, s1)"
    "pt_grow hs root us ps' s s1" "pte_slot (pmem s1) root v = Some a"
    using va(1) by (metis nonzero_mult_div_cancel_left zero_neq_numeral)
  have v: "v < 2 ^ 27" using va(2) by simp
  have vm: "vmap (pmem s1) root = vmap (pmem s) root" using t(4) by (simp add: pt_grow_def)
  have invalid: "\<not> is_valid (get_pte a s1)"
    using free vm t(5) v by (auto simp: fun_eq_iff vmap_def get_pte_def split: if_splits)
  let ?s = "set_pte a (write_perm pa perm) s1"
  note set = set_slot_inv [OF pt_grow_inv [OF t(4)] t(5) v, of "write_perm pa perm"]
  have "pt_ext hs root us ps' s s1" using t(4) by (simp add: pt_grow_def)
  then have "pt_ext hs root us ps' s ?s"
    using set(1) pt_ext_trans [of hs root us "[]" ps' s s1] by simp
  moreover have "vmap (pmem ?s) root = (vmap (pmem s) root)(v \<mapsto> write_perm pa perm)"
    using set(2) vm by simp
  moreover have "map_loop root va lst pa perm s = map_loop root (va + PGSIZE) lst (pa + PGSIZE) perm ?s"
    using ne t(3) invalid add_page_unat [OF pa] add_page_unat [of va] va
    by (subst map_loop.simps) simp
  ultimately show thesis using that [OF t(1,2)] by blast
qed

lemma map_loop_range:
  assumes "vs_inv hs ps root s" "2 * n \<le> length ps"
    and "unat va = 4096 * v" "unat lst = 4096 * (v + n)" "v + n \<le> 2 ^ 26"
    and "unat pa + 4096 * n < 2 ^ 64"
    and "\<And>w. v \<le> w \<Longrightarrow> w < v + n \<Longrightarrow> vmap (pmem s) root w = None"
  shows "\<exists>us ps' s'. ps = us @ ps' \<and> length us \<le> 2 * n \<and>
           map_loop root va lst pa perm s = Inr (True, s') \<and> pt_ext hs root us ps' s s' \<and>
           vmap (pmem s') root = map_range (vmap (pmem s) root) v n pa perm"
  using assms
proof (induction n arbitrary: ps s va v pa)
  case 0
  then have "va = lst" by (simp add: word_unat_eq_iff)
  with 0 show ?case by (simp add: map_loop.simps pt_ext_refl)
next
  case (Suc n)
  have len: "2 \<le> length ps" and v: "v < 2 ^ 26" and pa: "unat pa + 4096 < 2 ^ 64"
    using Suc.prems(2,5,6) by simp_all
  have "unat va \<noteq> unat lst" using Suc.prems(3,4) by simp
  then have ne: "va \<noteq> lst" by blast
  have free: "vmap (pmem s) root v = None" using Suc.prems(7) [of v] by simp
  obtain us ps1 s1 where 1: "ps = us @ ps1" "length us \<le> 2"
    "map_loop root va lst pa perm s = map_loop root (va + PGSIZE) lst (pa + PGSIZE) perm s1"
    "pt_ext hs root us ps1 s s1"
    "vmap (pmem s1) root = (vmap (pmem s) root)(v \<mapsto> write_perm pa perm)"
    by (rule map_step [OF Suc.prems(1) len Suc.prems(3) v free pa ne])
  have va': "unat (va + PGSIZE) = 4096 * Suc v"
    using add_page_unat [of va] v Suc.prems(3) by simp
  have pa': "unat (pa + PGSIZE) = unat pa + 4096" using add_page_unat [OF pa] by simp
  have "\<exists>us' ps' s'. ps1 = us' @ ps' \<and> length us' \<le> 2 * n \<and>
      map_loop root (va + PGSIZE) lst (pa + PGSIZE) perm s1 = Inr (True, s') \<and>
      pt_ext hs root us' ps' s1 s' \<and>
      vmap (pmem s') root = map_range (vmap (pmem s1) root) (Suc v) n (pa + PGSIZE) perm"
  proof (rule Suc.IH [OF pt_ext_inv [OF 1(4)] _ va'])
    show "2 * n \<le> length ps1" using Suc.prems(2) 1(1,2) by simp
    show "unat lst = 4096 * (Suc v + n)" "Suc v + n \<le> 2 ^ 26" using Suc.prems(4,5) by simp_all
    show "unat (pa + PGSIZE) + 4096 * n < 2 ^ 64" using Suc.prems(6) pa' by simp
    show "vmap (pmem s1) root w = None" if "Suc v \<le> w" "w < Suc v + n" for w
      using Suc.prems(7) [of w] that 1(5) by simp
  qed
  then obtain us' ps' s' where 2: "ps1 = us' @ ps'" "length us' \<le> 2 * n"
    "map_loop root (va + PGSIZE) lst (pa + PGSIZE) perm s1 = Inr (True, s')"
    "pt_ext hs root us' ps' s1 s'"
    "vmap (pmem s') root = map_range (vmap (pmem s1) root) (Suc v) n (pa + PGSIZE) perm" by blast
  have "pt_ext hs root (us @ us') ps' s s'" using 1(4) 2(1,4) pt_ext_trans by blast
  then show ?case
    using 1 2 map_range_Suc [of "vmap (pmem s) root" v pa perm n]
    by (intro exI [of _ "us @ us'"] exI [of _ ps'] exI [of _ s']) simp
qed

text \<open>Mapping over a page that is already mapped panics.\<close>

lemma map_loop_remap:
  assumes vs: "vs_inv hs ps root s" and len: "2 \<le> length ps"
    and va: "unat va = 4096 * v" "v < 2 ^ 26" and some: "vmap (pmem s) root v = Some e"
    and ne: "va \<noteq> lst"
  shows "map_loop root va lst pa perm s = Inl Remap"
proof -
  have "va \<le> MAXVA" using va by (simp add: word_le_nat_alt)
  from translate_alloc [OF vs len this] obtain us ps' s1 a where t:
    "translate root va True s = Inr (Some a, s1)"
    "pt_grow hs root us ps' s s1" "pte_slot (pmem s1) root v = Some a"
    using va(1) by (metis nonzero_mult_div_cancel_left zero_neq_numeral)
  have "vmap (pmem s1) root v = Some e" using t(2) some by (simp add: pt_grow_def)
  then have "is_valid (get_pte a s1)"
    using t(3) by (auto simp: vmap_def get_pte_def split: if_splits)
  with ne t(1) show ?thesis by (subst map_loop.simps) simp
qed

lemma map_pages_range:
  assumes vs: "vs_inv hs ps root s" and sz: "unat va + unat sz \<le> 2 ^ 38"
    and n: "n = (unat va + unat sz + 4095) div 4096 - unat va div 4096" "2 * n \<le> length ps"
    and pa: "unat pa + 4096 * n < 2 ^ 64"
    and free: "\<And>w. unat va div 4096 \<le> w \<Longrightarrow> w < unat va div 4096 + n \<Longrightarrow>
       vmap (pmem s) root w = None"
  shows "\<exists>us ps' s'. ps = us @ ps' \<and> length us \<le> 2 * n \<and>
           map_pages root va pa sz perm s = Inr (True, s') \<and> pt_ext hs root us ps' s s' \<and>
           vmap (pmem s') root = map_range (vmap (pmem s) root) (unat va div 4096) n pa perm"
proof -
  let ?v = "unat va div 4096"
  have e: "add_ck va sz = Inr (va + sz)" and eu: "unat (va + sz) = unat va + unat sz"
    using sz by (simp_all add: add_ck_def unat_word_ariths)
  obtain lst where lst: "pg_round_up (va + sz) = Inr lst"
    using sz eu by (simp add: pg_round_up_eq)
  have le: "?v \<le> (unat va + unat sz + 4095) div 4096" by (intro div_le_mono) simp
  then have lu: "unat lst = 4096 * (?v + n)"
    using unat_pg_round_up [OF lst] eu n(1) by simp
  have "(unat va + unat sz + 4095) div 4096 \<le> (2 ^ 38 + 4095) div 4096"
    using sz by (intro div_le_mono) simp
  then have bound: "?v + n \<le> 2 ^ 26" using n(1) le by simp
  have "\<exists>us ps' s'. ps = us @ ps' \<and> length us \<le> 2 * n \<and>
      map_loop root (pg_round_down va) lst pa perm s = Inr (True, s') \<and> pt_ext hs root us ps' s s' \<and>
      vmap (pmem s') root = map_range (vmap (pmem s) root) ?v n pa perm"
    by (rule map_loop_range [OF vs n(2) _ lu bound pa free]) simp_all
  then show ?thesis by (simp add: map_pages_def e lst)
qed

end
