(* ===== verification/Rx_Uvm.thy ===== *)
theory Rx_Uvm
  imports Rx_Vspace
begin

text \<open>
  User memory, the second half of \<^verbatim>\<open>memory/mapping/pagetable.rs\<close>: unmapping gives pages back to
  the allocator, \<^verbatim>\<open>copy_in\<close> and \<^verbatim>\<open>copy_out\<close> read and write the bytes the address space names,
  \<^verbatim>\<open>ucopy_nocopy\<close> shares pages for a fork and \<^verbatim>\<open>uload_page\<close> resolves a write to a shared page.
\<close>

section \<open>Giving a page back\<close>

lemma drop_page_live:
  assumes inv: "ka_inv hs ps s" and p: "heap_page hs p" "1 \<le> rc s p"
  obtains ps' s' where "drop_page p s = Inr s'" "ka_inv hs ps' s'" "set ps' \<subseteq> insert p (set ps)"
    "\<And>q. ram_page q \<Longrightarrow> rc s' q = (if q = p then rc s q - 1 else rc s q)"
    "\<And>y. ram_page y \<Longrightarrow> y \<noteq> p \<or> 2 \<le> rc s p \<Longrightarrow>
       load_bytes (pmem s') (unat y) 4096 = load_bytes (pmem s) (unat y) 4096"
proof (cases "rc s p = 1")
  case True
  from ka_dealloc_last [OF inv p(1) True, of 4096] obtain s' where s':
    "ka_dealloc p 4096 s = Inr s'" "ka_inv hs (p # ps) s'"
    "ka_count s' = (ka_count s)(pidx p := 0)" "pmem s' = set_run_next (pmem s) p (ka_head s)" by auto
  show thesis
  proof (rule that [of s' "p # ps"])
    show "rc s' q = (if q = p then rc s q - 1 else rc s q)" if "ram_page q" for q
      using pidx_inj [OF that, of p] p True by (simp add: rc_def s'(3))
    show "load_bytes (pmem s') (unat y) 4096 = load_bytes (pmem s) (unat y) 4096"
      if "ram_page y" "y \<noteq> p \<or> 2 \<le> rc s p" for y
      unfolding s'(4) set_run_next_def using ram_page_disjoint [of y p] that p True
      by (intro load_bytes_store64_disjoint) auto
  qed (use s' in \<open>simp_all add: drop_page_def\<close>)
next
  case False
  with p have two: "2 \<le> rc s p" by simp
  let ?s = "s\<lparr>ka_count := (ka_count s)(pidx p := rc s p - 1)\<rparr>"
  show thesis
  proof (rule that [of ?s ps])
    show "rc ?s q = (if q = p then rc s q - 1 else rc s q)" if "ram_page q" for q
      using pidx_inj [OF that, of p] p by (simp add: rc_def)
  qed (use ka_dealloc_shared [OF inv p(1) two, of 4096] in \<open>auto simp: drop_page_def\<close>)
qed

lemma not_flags_never_V: "NOT (as_flags e) \<noteq> PTE_V"
proof
  assume "NOT (as_flags e) = PTE_V"
  then have "bit (NOT (as_flags e)) 10 = bit PTE_V 10" by simp
  then show False by (simp add: bit_not_iff bit_as_flags PTE_V_def bit_1_iff)
qed

section \<open>Unmapping a range\<close>

definition targets :: "(nat \<Rightarrow> usize option) \<Rightarrow> nat \<Rightarrow> nat \<Rightarrow> usize set" where
  "targets f v n = {as_pagetable e |w e. v \<le> w \<and> w < v + n \<and> f w = Some e}"

definition unmap_range :: "(nat \<Rightarrow> usize option) \<Rightarrow> nat \<Rightarrow> nat \<Rightarrow> nat \<Rightarrow> usize option" where
  "unmap_range f v n w = (if v \<le> w \<and> w < v + n then None else f w)"

text \<open>The pages of a range can be given back: each is mapped to a heap page of its own that
  has a reference and is not a table page.\<close>

definition range_owned :: "usize \<Rightarrow> usize \<Rightarrow> kmem \<Rightarrow> nat \<Rightarrow> nat \<Rightarrow> bool" where
  "range_owned hs root s v n \<longleftrightarrow>
     (\<forall>w. v \<le> w \<longrightarrow> w < v + n \<longrightarrow>
        (\<exists>e. vmap (pmem s) root w = Some e \<and> heap_page hs (as_pagetable e) \<and>
             1 \<le> rc s (as_pagetable e) \<and> as_pagetable e \<notin> pt_pages (pmem s) root)) \<and>
     inj_on (\<lambda>w. as_pagetable (the (vmap (pmem s) root w))) {v..<v + n}"

lemma vmap_slot:
  "vmap m root v = Some e \<Longrightarrow>
   v < 2 ^ 27 \<and> (\<exists>a. pte_slot m root v = Some a \<and> load64 m a = e \<and> is_valid e)"
  by (auto simp: vmap_def split: if_splits option.splits)

lemma uunmap_step:
  assumes vs: "vs_inv hs ps root s" and va: "unat va = 4096 * v" "v < 2 ^ 26"
    and e: "vmap (pmem s) root v = Some e" "heap_page hs (as_pagetable e)"
      "1 \<le> rc s (as_pagetable e)" "as_pagetable e \<notin> pt_pages (pmem s) root"
  obtains ps' s' where
    "uunmap_loop (Suc n) root va True s = uunmap_loop n root (va + PGSIZE) True s'"
    "vs_inv hs ps' root s'" "vmap (pmem s') root = (vmap (pmem s) root)(v := None)"
    "pt_pages (pmem s') root = pt_pages (pmem s) root"
    "\<And>q. ram_page q \<Longrightarrow> rc s' q = (if q = as_pagetable e then rc s q - 1 else rc s q)"
    "\<And>y. ram_page y \<Longrightarrow> y \<notin> pt_pages (pmem s) root \<Longrightarrow> y \<noteq> as_pagetable e \<Longrightarrow>
       load_bytes (pmem s') (unat y) 4096 = load_bytes (pmem s) (unat y) 4096"
proof -
  let ?p = "as_pagetable e"
  have ka: "ka_inv hs ps s" and wf: "wf_pt (pmem s) root"
    and disj: "pt_pages (pmem s) root \<inter> set ps = {}" using vs by (simp_all add: vs_inv_def)
  obtain a where a: "pte_slot (pmem s) root v = Some a" "load64 (pmem s) a = e" "is_valid e"
    using vmap_slot [OF e(1)] by blast
  have le: "va \<le> MAXVA" using va by (simp add: word_le_nat_alt)
  obtain ps1 s1 where s1: "drop_page ?p s = Inr s1" "ka_inv hs ps1 s1"
    "set ps1 \<subseteq> insert ?p (set ps)"
    "\<And>q. ram_page q \<Longrightarrow> rc s1 q = (if q = ?p then rc s q - 1 else rc s q)"
    "\<And>y. ram_page y \<Longrightarrow> y \<noteq> ?p \<or> 2 \<le> rc s ?p \<Longrightarrow>
       load_bytes (pmem s1) (unat y) 4096 = load_bytes (pmem s) (unat y) 4096"
    by (rule drop_page_live [OF ka e(2,3)]) (rule that; assumption)
  have same: "pt_same (pmem s) (pmem s1) root"
    by (rule pt_sameI, rule s1(5)) (use wf_pt_ram [OF wf] e(4) in auto)
  have vs1: "vs_inv hs ps1 root s1"
    using s1(2,3) pt_same_wf [OF same wf] pt_same_pages [OF same] disj e(4)
    by (auto simp: vs_inv_def)
  have v: "v < 2 ^ 27" using va(2) by simp
  have slot1: "pte_slot (pmem s1) root v = Some a" using a(1) pt_same_slot [OF same] by simp
  note set = set_slot_inv [OF vs1 slot1 v, of 0]
  let ?s = "set_pte a 0 s1"
  have "uunmap_loop (Suc n) root va True s = uunmap_loop n root (va + PGSIZE) True ?s"
    using translate_slot [OF wf le] va a s1(1) not_flags_never_V [of e] add_page_unat [of va]
    by (simp add: get_pte_def Let_def)
  moreover have "vs_inv hs ps1 root ?s" using set(1) by (rule pt_ext_inv)
  moreover have "vmap (pmem ?s) root = (vmap (pmem s) root)(v := None)"
    using set(2) pt_same_vmap [OF same] by simp
  moreover have pages: "pt_pages (pmem ?s) root = pt_pages (pmem s) root"
    using set(1) pt_same_pages [OF same] by (simp add: pt_ext_def)
  moreover have "rc ?s q = (if q = ?p then rc s q - 1 else rc s q)" if "ram_page q" for q
    using set(1) s1(4) [OF that] that by (simp add: pt_ext_def)
  moreover have "load_bytes (pmem ?s) (unat y) 4096 = load_bytes (pmem s) (unat y) 4096"
    if "ram_page y" "y \<notin> pt_pages (pmem s) root" "y \<noteq> ?p" for y
    using set(1) s1(5) [OF that(1)] that pages by (simp add: pt_ext_def)
  ultimately show thesis by (rule that)
qed

lemma unmap_range_0 [simp]: "unmap_range f v 0 = f"
  by (auto simp: fun_eq_iff unmap_range_def)

lemma unmap_range_Suc: "unmap_range (f(v := None)) (Suc v) n = unmap_range f v (Suc n)"
  by (auto simp: fun_eq_iff unmap_range_def)

lemma targets_Suc:
  "f v = Some e \<Longrightarrow> targets f v (Suc n) = insert (as_pagetable e) (targets f (Suc v) n)"
proof -
  assume e: "f v = Some e"
  have split: "v \<le> w \<and> w < v + Suc n \<and> P \<longleftrightarrow> w = v \<and> P \<or> Suc v \<le> w \<and> w < Suc v + n \<and> P"
    for w P by auto
  show ?thesis unfolding targets_def split using e by auto
qed

lemma range_ownedD:
  "range_owned hs root s v n \<Longrightarrow> v \<le> w \<Longrightarrow> w < v + n \<Longrightarrow>
   \<exists>e. vmap (pmem s) root w = Some e \<and> heap_page hs (as_pagetable e) \<and>
       1 \<le> rc s (as_pagetable e) \<and> as_pagetable e \<notin> pt_pages (pmem s) root"
  unfolding range_owned_def by blast

lemma range_owned_SucD:
  assumes "range_owned hs root s v (Suc n)"
  obtains e where "vmap (pmem s) root v = Some e" "heap_page hs (as_pagetable e)"
    "1 \<le> rc s (as_pagetable e)" "as_pagetable e \<notin> pt_pages (pmem s) root"
    "as_pagetable e \<notin> targets (vmap (pmem s) root) (Suc v) n"
proof -
  have inj: "inj_on (\<lambda>w. as_pagetable (the (vmap (pmem s) root w))) {v..<v + Suc n}"
    using assms by (simp add: range_owned_def)
  obtain e where e: "vmap (pmem s) root v = Some e" "heap_page hs (as_pagetable e)"
    "1 \<le> rc s (as_pagetable e)" "as_pagetable e \<notin> pt_pages (pmem s) root"
    using range_ownedD [OF assms, of v] by auto
  moreover have "as_pagetable e \<notin> targets (vmap (pmem s) root) (Suc v) n"
  proof
    assume "as_pagetable e \<in> targets (vmap (pmem s) root) (Suc v) n"
    then obtain w e' where w: "Suc v \<le> w" "w < Suc v + n" "vmap (pmem s) root w = Some e'"
      "as_pagetable e' = as_pagetable e" by (auto simp: targets_def)
    then show False using inj_onD [OF inj, of v w] e(1) by simp
  qed
  ultimately show thesis by (rule that)
qed

lemma range_owned_step:
  assumes own: "range_owned hs root s v (Suc n)" and e: "vmap (pmem s) root v = Some e"
    "as_pagetable e \<notin> targets (vmap (pmem s) root) (Suc v) n"
    and vm: "vmap (pmem s') root = (vmap (pmem s) root)(v := None)"
    and pages: "pt_pages (pmem s') root = pt_pages (pmem s) root"
    and rc: "\<And>q. ram_page q \<Longrightarrow> rc s' q = (if q = as_pagetable e then rc s q - 1 else rc s q)"
  shows "range_owned hs root s' (Suc v) n"
  unfolding range_owned_def
proof (intro conjI allI impI)
  fix w assume w: "Suc v \<le> w" "w < Suc v + n"
  then obtain e' where e': "vmap (pmem s) root w = Some e'" "heap_page hs (as_pagetable e')"
    "1 \<le> rc s (as_pagetable e')" "as_pagetable e' \<notin> pt_pages (pmem s) root"
    using range_ownedD [OF own, of w] by auto
  then have "as_pagetable e' \<noteq> as_pagetable e" using e(2) w by (auto simp: targets_def)
  with e' w vm pages rc [of "as_pagetable e'"] show "\<exists>e. vmap (pmem s') root w = Some e \<and>
      heap_page hs (as_pagetable e) \<and> 1 \<le> rc s' (as_pagetable e) \<and>
      as_pagetable e \<notin> pt_pages (pmem s') root" by auto
next
  have "inj_on (\<lambda>w. as_pagetable (the (vmap (pmem s) root w))) {Suc v..<Suc v + n}"
    by (rule inj_on_subset [of _ "{v..<v + Suc n}"]) (use own in \<open>auto simp: range_owned_def\<close>)
  then show "inj_on (\<lambda>w. as_pagetable (the (vmap (pmem s') root w))) {Suc v..<Suc v + n}"
    by (rule inj_on_cong [THEN iffD1, rotated]) (use vm in auto)
qed

lemma uunmap_range:
  assumes "vs_inv hs ps root s" "unat va = 4096 * v" "v + n \<le> 2 ^ 26"
    and "range_owned hs root s v n"
  shows "\<exists>ps' s'. uunmap_loop n root va True s = Inr s' \<and> vs_inv hs ps' root s' \<and>
           vmap (pmem s') root = unmap_range (vmap (pmem s) root) v n \<and>
           pt_pages (pmem s') root = pt_pages (pmem s) root \<and>
           (\<forall>q. ram_page q \<longrightarrow>
              rc s' q = (if q \<in> targets (vmap (pmem s) root) v n then rc s q - 1 else rc s q)) \<and>
           (\<forall>y. ram_page y \<longrightarrow> y \<notin> pt_pages (pmem s) root \<longrightarrow>
              y \<notin> targets (vmap (pmem s) root) v n \<longrightarrow>
              load_bytes (pmem s') (unat y) 4096 = load_bytes (pmem s) (unat y) 4096)"
  using assms
proof (induction n arbitrary: ps s va v)
  case 0
  then show ?case by (auto simp: targets_def)
next
  case (Suc n)
  obtain e where e: "vmap (pmem s) root v = Some e" "heap_page hs (as_pagetable e)"
    "1 \<le> rc s (as_pagetable e)" "as_pagetable e \<notin> pt_pages (pmem s) root"
    "as_pagetable e \<notin> targets (vmap (pmem s) root) (Suc v) n"
    by (rule range_owned_SucD [OF Suc.prems(4)])
  have v: "v < 2 ^ 26" using Suc.prems(3) by simp
  obtain ps1 s1 where 1:
    "uunmap_loop (Suc n) root va True s = uunmap_loop n root (va + PGSIZE) True s1"
    "vs_inv hs ps1 root s1" "vmap (pmem s1) root = (vmap (pmem s) root)(v := None)"
    "pt_pages (pmem s1) root = pt_pages (pmem s) root"
    "\<And>q. ram_page q \<Longrightarrow> rc s1 q = (if q = as_pagetable e then rc s q - 1 else rc s q)"
    "\<And>y. ram_page y \<Longrightarrow> y \<notin> pt_pages (pmem s) root \<Longrightarrow> y \<noteq> as_pagetable e \<Longrightarrow>
       load_bytes (pmem s1) (unat y) 4096 = load_bytes (pmem s) (unat y) 4096"
    by (rule uunmap_step [OF Suc.prems(1,2) v e(1-4)]) (rule that; assumption)
  have own: "range_owned hs root s1 (Suc v) n"
    by (rule range_owned_step [OF Suc.prems(4) e(1,5) 1(3,4,5)])
  have va: "unat (va + PGSIZE) = 4096 * Suc v" using add_page_unat [of va] v Suc.prems(2) by simp
  have "Suc v + n \<le> 2 ^ 26" using Suc.prems(3) by simp
  from Suc.IH [OF 1(2) va this own] obtain ps' s' where 2:
    "uunmap_loop n root (va + PGSIZE) True s1 = Inr s'" "vs_inv hs ps' root s'"
    "vmap (pmem s') root = unmap_range (vmap (pmem s1) root) (Suc v) n"
    "pt_pages (pmem s') root = pt_pages (pmem s1) root"
    "\<forall>q. ram_page q \<longrightarrow> rc s' q =
       (if q \<in> targets (vmap (pmem s1) root) (Suc v) n then rc s1 q - 1 else rc s1 q)"
    "\<forall>y. ram_page y \<longrightarrow> y \<notin> pt_pages (pmem s1) root \<longrightarrow>
       y \<notin> targets (vmap (pmem s1) root) (Suc v) n \<longrightarrow>
       load_bytes (pmem s') (unat y) 4096 = load_bytes (pmem s1) (unat y) 4096" by blast
  have t1: "targets (vmap (pmem s1) root) (Suc v) n = targets (vmap (pmem s) root) (Suc v) n"
    unfolding 1(3) targets_def by fastforce
  note t = targets_Suc [of "vmap (pmem s) root" v e n, OF e(1)]
  show ?case
  proof (intro exI [of _ ps'] exI [of _ s'] conjI allI impI)
    show "uunmap_loop (Suc n) root va True s = Inr s'" unfolding 1(1) by (rule 2(1))
    show "vs_inv hs ps' root s'" by (rule 2(2))
    show "vmap (pmem s') root = unmap_range (vmap (pmem s) root) v (Suc n)"
      unfolding 2(3) 1(3) by (rule unmap_range_Suc)
    show "pt_pages (pmem s') root = pt_pages (pmem s) root" using 1(4) 2(4) by simp
  next
    fix q assume q: "ram_page q"
    show "rc s' q = (if q \<in> targets (vmap (pmem s) root) v (Suc n) then rc s q - 1 else rc s q)"
      unfolding t using 2(5) [unfolded t1, rule_format, OF q] 1(5) [OF q] e(5) by auto
  next
    fix y assume y: "ram_page y" "y \<notin> pt_pages (pmem s) root"
      "y \<notin> targets (vmap (pmem s) root) v (Suc n)"
    show "load_bytes (pmem s') (unat y) 4096 = load_bytes (pmem s) (unat y) 4096"
      using 2(6) [unfolded t1 1(4), rule_format, OF y(1,2)] 1(6) [OF y(1,2)] y(3) unfolding t by auto
  qed
qed

section \<open>Unmapping without freeing\<close>

text \<open>With \<open>free\<close> false the loop only checks that the pages are mapped: the entries stay.\<close>

lemma uunmap_keep:
  assumes "wf_pt (pmem s) root" "unat va = 4096 * v" "v + n \<le> 2 ^ 26"
    and "\<And>w. v \<le> w \<Longrightarrow> w < v + n \<Longrightarrow> vmap (pmem s) root w \<noteq> None"
  shows "uunmap_loop n root va False s = Inr s"
  using assms
proof (induction n arbitrary: va v)
  case (Suc n)
  have le: "va \<le> MAXVA" using Suc.prems(2,3) by (simp add: word_le_nat_alt)
  obtain e where e: "vmap (pmem s) root v = Some e" using Suc.prems(4) [of v] by auto
  obtain a where a: "pte_slot (pmem s) root v = Some a" "load64 (pmem s) a = e" "is_valid e"
    using vmap_slot [OF e] by blast
  have page: "add_page va = Inr (va + PGSIZE)" "unat (va + PGSIZE) = 4096 * Suc v"
    using add_page_unat [of va] Suc.prems(2,3) by simp_all
  have "uunmap_loop n root (va + PGSIZE) False s = Inr s"
    by (rule Suc.IH [OF Suc.prems(1) page(2)]) (use Suc.prems(3,4) in auto)
  with translate_slot [OF Suc.prems(1) le] Suc.prems(2) a page(1) not_flags_never_V [of e]
  show ?case by (simp add: get_pte_def)
qed simp

section \<open>Reading user memory\<close>

definition uphys :: "pmem \<Rightarrow> usize \<Rightarrow> nat \<Rightarrow> nat option" where
  "uphys m root a =
     (case vmap m root (a div 4096) of
        Some e \<Rightarrow> if is_user e then Some (unat (as_pagetable e) + a mod 4096) else None
      | None \<Rightarrow> None)"

definition uread :: "pmem \<Rightarrow> usize \<Rightarrow> nat \<Rightarrow> nat \<Rightarrow> u8 list" where
  "uread m root a n = map (\<lambda>i. m (the (uphys m root (a + i)))) [0..<n]"

lemma pgt_translate_vmap:
  assumes wf: "wf_pt (pmem s) root" and va: "va \<le> MAXVA"
  shows "pgt_translate root va s =
    Inr (case vmap (pmem s) root (unat va div 4096) of
           Some e \<Rightarrow> if is_user e then Some (as_pagetable e) else None
         | None \<Rightarrow> None, s)"
proof -
  have "unat va \<le> 2 ^ 38" using va by (simp add: word_le_nat_alt)
  then have "unat va div 4096 \<le> 2 ^ 38 div 4096" by (rule div_le_mono)
  then have "unat va div 4096 < 2 ^ 27" by simp
  with translate_slot [OF wf va] va show ?thesis
    by (auto simp: pgt_translate_def vmap_def get_pte_def Let_def not_less split: option.splits)
qed

lemma pgt_translate_unwrap_uphys:
  assumes wf: "wf_pt (pmem s) root" and va: "unat va = 4096 * v" "v \<le> 2 ^ 26"
  shows "uphys (pmem s) root (4096 * v) = None \<Longrightarrow>
           pgt_translate_unwrap root va s = Inl UnwrapNone"
    and "uphys (pmem s) root (4096 * v) = Some p \<Longrightarrow>
           \<exists>pa. unat pa = p \<and> pgt_translate_unwrap root va s = Inr (pa, s)"
proof -
  have "va \<le> MAXVA" using va by (simp add: word_le_nat_alt)
  from pgt_translate_vmap [OF wf this] va(1)
  have t: "pgt_translate root va s = Inr (case vmap (pmem s) root v of
      Some e \<Rightarrow> if is_user e then Some (as_pagetable e) else None | None \<Rightarrow> None, s)" by simp
  show "uphys (pmem s) root (4096 * v) = None \<Longrightarrow> pgt_translate_unwrap root va s = Inl UnwrapNone"
    by (auto simp: pgt_translate_unwrap_def t uphys_def split: option.splits if_splits)
  show "uphys (pmem s) root (4096 * v) = Some p \<Longrightarrow>
      \<exists>pa. unat pa = p \<and> pgt_translate_unwrap root va s = Inr (pa, s)"
    by (auto simp: pgt_translate_unwrap_def t uphys_def split: option.splits if_splits)
qed

text \<open>The bytes of one page are consecutive in physical memory.\<close>

lemma uphys_page:
  assumes "off < 4096" "uphys m root (4096 * v + off') = Some (p + off')" "off' < 4096"
  shows "uphys m root (4096 * v + off) = Some (p + off)"
proof -
  have "(4096 * v + k) div 4096 = v \<and> (4096 * v + k) mod 4096 = k" if "k < 4096" for k
    using that by simp
  with assms show ?thesis by (auto simp: uphys_def split: option.splits if_splits)
qed

lemma length_uread [simp]: "length (uread m root a n) = n"
  by (simp add: uread_def)

lemma uread_append: "uread m root a (n + k) = uread m root a n @ uread m root (a + n) k"
  by (rule nth_equalityI) (auto simp: uread_def nth_append)

lemma uread_in_page:
  assumes p: "uphys m root (4096 * v) = Some p" and "off + n \<le> 4096"
  shows "uread m root (4096 * v + off) n = load_bytes m (p + off) n"
proof (rule nth_equalityI)
  fix i assume "i < length (uread m root (4096 * v + off) n)"
  then have i: "i < n" by (simp add: uread_def)
  then have "off + i < 4096" using assms(2) by linarith
  then have "uphys m root (4096 * v + (off + i)) = Some (p + (off + i))"
    using uphys_page [of "off + i" m root v 0 p] p by simp
  with i show "uread m root (4096 * v + off) n ! i = load_bytes m (p + off) n ! i"
    by (simp add: uread_def add.assoc)
qed (simp add: uread_def)

lemma copy_in_loop_uread:
  assumes "wf_pt (pmem s) root" "unat va = 4096 * v" "off < 4096"
    and "uphys (pmem s) root (4096 * v) = Some p" "4096 * v + off + n \<le> 2 ^ 38"
    and "\<And>i. i < n \<Longrightarrow> uphys (pmem s) root (4096 * v + off + i) \<noteq> None"
  shows "copy_in_loop root va (p + off) (4096 - off) n s =
           Inr (uread (pmem s) root (4096 * v + off) n)"
  using assms
proof (induction n arbitrary: va v off p rule: less_induct)
  case (less n)
  show ?case
  proof (cases "n \<le> 4096 - off")
    case True
    then have "uread (pmem s) root (4096 * v + off) n = load_bytes (pmem s) (p + off) n"
      using less.prems(3) by (intro uread_in_page [OF less.prems(4)]) simp
    with True show ?thesis by (subst copy_in_loop.simps) (simp add: Let_def)
  next
    case False
    define c k where "c = 4096 - off" and "k = n - c"
    have n: "n = c + k" "0 < k" "0 < c" "off + c = 4096"
      using False less.prems(3) by (simp_all add: c_def k_def)
    have next_a: "4096 * v + off + c = 4096 * Suc v" using n(4) by simp
    have bound: "4096 * Suc v + k \<le> 2 ^ 38" using less.prems(5) n(1) next_a by linarith
    then have v: "Suc v \<le> 2 ^ 26" by simp
    have page: "add_page va = Inr (va + PGSIZE)" "unat (va + PGSIZE) = 4096 * Suc v"
      using add_page_unat [of va] less.prems(2) bound by simp_all
    obtain p' where p': "uphys (pmem s) root (4096 * Suc v) = Some p'"
      using less.prems(6) [of c] n next_a by auto
    obtain pa where pa: "unat pa = p'" "pgt_translate_unwrap root (va + PGSIZE) s = Inr (pa, s)"
      using pgt_translate_unwrap_uphys(2) [OF less.prems(1) page(2) v p'] by blast
    have "copy_in_loop root (va + PGSIZE) (p' + 0) (4096 - 0) k s =
        Inr (uread (pmem s) root (4096 * Suc v + 0) k)"
    proof (rule less.IH [OF _ less.prems(1) page(2) _ p'])
      show "uphys (pmem s) root (4096 * Suc v + 0 + i) \<noteq> None" if "i < k" for i
      proof -
        have eq: "4096 * v + off + (c + i) = 4096 * Suc v + 0 + i" using next_a by linarith
        have "c + i < n" using that n(1) by simp
        then show ?thesis using less.prems(6) [of "c + i"] unfolding eq by blast
      qed
    qed (use n bound in simp_all)
    moreover have "uread (pmem s) root (4096 * v + off) c = load_bytes (pmem s) (p + off) c"
      using n(4) by (intro uread_in_page [OF less.prems(4)]) simp
    ultimately show ?thesis
      using n page pa uread_append [of "pmem s" root "4096 * v + off" c k] next_a
      by (subst copy_in_loop.simps) (simp add: Let_def flip: c_def)
  qed
qed

lemma page_split: "unat a = 4096 * (unat a div 4096) + unat a mod 4096"
  by simp

lemma copy_in_uread:
  assumes wf: "wf_pt (pmem s) root" and bound: "unat src + n \<le> 2 ^ 38"
    and mapped: "\<And>i. i < n \<Longrightarrow> uphys (pmem s) root (unat src + i) \<noteq> None" and n: "0 < n"
  shows "copy_in root n src s = Inr (uread (pmem s) root (unat src) n)"
proof -
  let ?v = "unat src div 4096" and ?o = "unat src mod 4096"
  have src: "4096 * ?v + ?o = unat src" by simp
  have o: "?o < 4096" by simp
  have "uphys (pmem s) root (4096 * ?v + ?o) \<noteq> None" using mapped [of 0] n src by simp
  then obtain p where p: "uphys (pmem s) root (4096 * ?v) = Some p"
    by (auto simp: uphys_def split: option.splits if_splits)
  have va: "unat (pg_round_down src) = 4096 * ?v" by simp
  have v: "?v \<le> 2 ^ 26" using bound by simp
  obtain pa where pa: "unat pa = p" "pgt_translate_unwrap root (pg_round_down src) s = Inr (pa, s)"
    using pgt_translate_unwrap_uphys(2) [OF wf va v p] by blast
  have off: "unat src - unat (pg_round_down src) = ?o" using src va by linarith
  have "copy_in_loop root (pg_round_down src) (p + ?o) (4096 - ?o) n s =
      Inr (uread (pmem s) root (4096 * ?v + ?o) n)"
    by (rule copy_in_loop_uread [OF wf va o p], unfold src, rule bound, erule mapped)
  then show ?thesis using pa off src by (simp add: copy_in_def Let_def)
qed

section \<open>Writing user memory\<close>

text \<open>A store to a page outside the tree leaves the address space alone.\<close>

lemma store_page_same:
  assumes wf: "wf_pt m root" and p: "ram_page p" "p \<notin> pt_pages m root"
    and "off + length bs \<le> 4096"
  shows "pt_same m (store_bytes m (unat p + off) bs) root"
proof (rule pt_sameI)
  fix y assume y: "y \<in> pt_pages m root"
  then have "y \<noteq> p" "ram_page y" using p wf_pt_ram [OF wf] by auto
  then have "unat y + 4096 \<le> unat p \<or> unat p + 4096 \<le> unat y"
    using ram_page_disjoint [of y p] p(1) by blast
  then show "load_bytes (store_bytes m (unat p + off) bs) (unat y) 4096 = load_bytes m (unat y) 4096"
    using assms(4) by (intro load_store_bytes_disjoint) linarith
qed

lemma uphys_same: "pt_same m m' root \<Longrightarrow> uphys m' root = uphys m root"
  by (simp add: fun_eq_iff uphys_def pt_same_vmap)

text \<open>A user range that can be written: mapped to pages of RAM outside the tree, no byte of
  it twice.\<close>

definition uwritable :: "pmem \<Rightarrow> usize \<Rightarrow> nat \<Rightarrow> nat \<Rightarrow> bool" where
  "uwritable m root a n \<longleftrightarrow>
     (\<forall>i<n. \<exists>e. vmap m root ((a + i) div 4096) = Some e \<and> is_user e \<and>
        ram_page (as_pagetable e) \<and> as_pagetable e \<notin> pt_pages m root) \<and>
     inj_on (\<lambda>i. the (uphys m root (a + i))) {..<n}"

lemma uwritableD:
  "uwritable m root a n \<Longrightarrow> i < n \<Longrightarrow>
   \<exists>e. vmap m root ((a + i) div 4096) = Some e \<and> is_user e \<and>
       ram_page (as_pagetable e) \<and> as_pagetable e \<notin> pt_pages m root"
  by (simp add: uwritable_def)

lemma uwritable_uphys: "uwritable m root a n \<Longrightarrow> i < n \<Longrightarrow> uphys m root (a + i) \<noteq> None"
  by (drule uwritableD) (auto simp: uphys_def)

lemma uwritable_inj:
  "uwritable m root a n \<Longrightarrow> i < n \<Longrightarrow> j < n \<Longrightarrow> i \<noteq> j \<Longrightarrow>
   the (uphys m root (a + i)) \<noteq> the (uphys m root (a + j))"
  by (auto simp: uwritable_def inj_on_def)

lemma uwritable_drop:
  assumes "uwritable m root a (c + k)"
  shows "uwritable m root (a + c) k"
  unfolding uwritable_def
proof (intro conjI allI impI)
  fix i assume "i < k"
  then show "\<exists>e. vmap m root ((a + c + i) div 4096) = Some e \<and> is_user e \<and>
      ram_page (as_pagetable e) \<and> as_pagetable e \<notin> pt_pages m root"
    using uwritableD [OF assms, of "c + i"] by (simp add: add.assoc)
next
  show "inj_on (\<lambda>i. the (uphys m root (a + c + i))) {..<k}"
    using uwritable_inj [OF assms] by (intro inj_onI) (metis add.assoc add_left_cancel
        add_less_cancel_left lessThan_iff)
qed

lemma uwritable_same: "pt_same m m' root \<Longrightarrow> uwritable m' root a n = uwritable m root a n"
  by (simp add: uwritable_def pt_same_vmap pt_same_pages uphys_same)

text \<open>What \<open>copy_out\<close> has to do to memory: the bytes of the range get the new values, no other
  byte changes.\<close>

definition uwritten :: "pmem \<Rightarrow> pmem \<Rightarrow> usize \<Rightarrow> nat \<Rightarrow> u8 list \<Rightarrow> bool" where
  "uwritten m m' root a bs \<longleftrightarrow>
     (\<forall>i<length bs. m' (the (uphys m root (a + i))) = bs ! i) \<and>
     (\<forall>x. (\<forall>i<length bs. x \<noteq> the (uphys m root (a + i))) \<longrightarrow> m' x = m x)"

lemma uwritten_append:
  assumes w: "uwritable m root a (length xs + length ys)" and same: "pt_same m m1 root"
    and 1: "uwritten m m1 root a xs" and 2: "uwritten m1 m2 root (a + length xs) ys"
  shows "uwritten m m2 root a (xs @ ys)"
  unfolding uwritten_def
proof (intro conjI allI impI)
  note ph = uphys_same [OF same]
  fix i assume i: "i < length (xs @ ys)"
  show "m2 (the (uphys m root (a + i))) = (xs @ ys) ! i"
  proof (cases "i < length xs")
    case True
    have "the (uphys m root (a + i)) \<noteq> the (uphys m root (a + length xs + j))"
      if "j < length ys" for j
      using uwritable_inj [OF w, of i "length xs + j"] True that by (simp add: add.assoc)
    then have "m2 (the (uphys m root (a + i))) = m1 (the (uphys m root (a + i)))"
      using 2 by (simp add: uwritten_def ph)
    with 1 True show ?thesis by (simp add: uwritten_def nth_append)
  next
    case False
    then obtain j where j: "i = length xs + j" using le_Suc_ex not_less by blast
    with 2 i show ?thesis by (simp add: uwritten_def ph add.assoc)
  qed
next
  note ph = uphys_same [OF same]
  fix x assume x: "\<forall>i<length (xs @ ys). x \<noteq> the (uphys m root (a + i))"
  then have "\<forall>j<length ys. x \<noteq> the (uphys m root (a + length xs + j))"
    by (simp add: add.assoc)
  then have "m2 x = m1 x" using 2 by (simp add: uwritten_def ph)
  also have "\<dots> = m x" using 1 x by (simp add: uwritten_def)
  finally show "m2 x = m x" .
qed

lemma uwritten_page:
  assumes p: "uphys m root (4096 * v) = Some p" and "off + length bs \<le> 4096"
  shows "uwritten m (store_bytes m (p + off) bs) root (4096 * v + off) bs"
proof -
  have ph: "the (uphys m root (4096 * v + off + i)) = p + off + i" if "i < length bs" for i
    using uphys_page [of "off + i" m root v 0 p] p that assms(2) by (simp add: add.assoc)
  show ?thesis
    unfolding uwritten_def
  proof (intro conjI allI impI)
    fix i assume "i < length bs"
    then show "store_bytes m (p + off) bs (the (uphys m root (4096 * v + off + i))) = bs ! i"
      by (simp add: ph store_bytes_def)
  next
    fix x assume x: "\<forall>i<length bs. x \<noteq> the (uphys m root (4096 * v + off + i))"
    have "x < p + off \<or> p + off + length bs \<le> x"
    proof (rule ccontr)
      assume "\<not> ?thesis"
      then have "x - (p + off) < length bs" "x = p + off + (x - (p + off))" by auto
      with x ph [of "x - (p + off)"] show False by auto
    qed
    then show "store_bytes m (p + off) bs x = m x" by (rule store_bytes_outside)
  qed
qed

lemma pt_same_trans: "pt_same m m1 root \<Longrightarrow> pt_same m1 m2 root \<Longrightarrow> pt_same m m2 root"
  by (frule pt_same_pages) (auto simp: pt_same_def)

lemma copy_out_chunk:
  assumes wf: "wf_pt m root" and off: "off < 4096"
    and p: "uphys m root (4096 * v) = Some p" and w: "uwritable m root (4096 * v + off) n"
    and n: "0 < n" and len: "off + length bs \<le> 4096"
  shows "pt_same m (store_bytes m (p + off) bs) root"
    "uwritten m (store_bytes m (p + off) bs) root (4096 * v + off) bs"
proof -
  have "(4096 * v + off) div 4096 = v" using off by simp
  then obtain e where e: "vmap m root v = Some e" "is_user e" "ram_page (as_pagetable e)"
    "as_pagetable e \<notin> pt_pages m root" using uwritableD [OF w n] by auto
  then have "p = unat (as_pagetable e)" using p by (simp add: uphys_def)
  then show "pt_same m (store_bytes m (p + off) bs) root"
    using store_page_same [OF wf e(3,4) len] by simp
  show "uwritten m (store_bytes m (p + off) bs) root (4096 * v + off) bs"
    by (rule uwritten_page [OF p len])
qed

lemma copy_out_loop_written:
  assumes "wf_pt (pmem s) root" "unat va = 4096 * v" "off < 4096"
    and "uphys (pmem s) root (4096 * v) = Some p" "4096 * v + off + length src \<le> 2 ^ 38"
    and "uwritable (pmem s) root (4096 * v + off) (length src)" "src \<noteq> []"
  shows "\<exists>m'. copy_out_loop root va (p + off) (4096 - off) src s = Inr (s\<lparr>pmem := m'\<rparr>) \<and>
           uwritten (pmem s) m' root (4096 * v + off) src \<and> pt_same (pmem s) m' root"
  using assms
proof (induction "length src" arbitrary: va v off p src s rule: less_induct)
  case less
  have pos: "0 < length src" using less.prems(7) by simp
  show ?case
  proof (cases "length src \<le> 4096 - off")
    case True
    then have "off + length src \<le> 4096" using less.prems(3) by simp
    note chunk = copy_out_chunk [OF less.prems(1,3,4,6) pos this]
    with True show ?thesis by (subst copy_out_loop.simps) (auto simp: Let_def)
  next
    case False
    define c xs ys where "c = 4096 - off" and "xs = take c src" and "ys = drop c src"
    have c: "c < length src" "0 < c" "off + c = 4096"
      using False less.prems(3) by (simp_all add: c_def)
    have src: "src = xs @ ys" "length xs = c" "ys \<noteq> []" "length ys < length src"
      using c by (simp_all add: xs_def ys_def)
    let ?m = "store_bytes (pmem s) (p + off) xs" and ?s = "s\<lparr>pmem := store_bytes (pmem s) (p + off) xs\<rparr>"
    have "off + length xs \<le> 4096" using c(3) src(2) by simp
    note chunk = copy_out_chunk [OF less.prems(1,3,4,6) pos this]
    have next_a: "4096 * v + off + c = 4096 * Suc v" using c(3) by simp
    have len: "length src = c + length ys" using src by simp
    have bound: "4096 * Suc v + length ys \<le> 2 ^ 38" using less.prems(5) len next_a by linarith
    then have v: "Suc v \<le> 2 ^ 26" by simp
    have page: "add_page va = Inr (va + PGSIZE)" "unat (va + PGSIZE) = 4096 * Suc v"
      using add_page_unat [of va] less.prems(2) bound by simp_all
    have wf: "wf_pt (pmem ?s) root" using pt_same_wf [OF chunk(1) less.prems(1)] by simp
    have w: "uwritable (pmem ?s) root (4096 * Suc v + 0) (length ys)"
      using uwritable_drop [of "pmem s" root "4096 * v + off" c "length ys"] less.prems(6)
        uwritable_same [OF chunk(1)] by (simp add: len next_a)
    then obtain p' where p': "uphys (pmem ?s) root (4096 * Suc v) = Some p'"
      using uwritable_uphys [of "pmem ?s" root _ "length ys" 0] src(3) by fastforce
    obtain pa where pa: "unat pa = p'" "pgt_translate_unwrap root (va + PGSIZE) ?s = Inr (pa, ?s)"
      using pgt_translate_unwrap_uphys(2) [OF wf page(2) v p'] by blast
    from less.hyps [OF src(4) wf page(2) _ p' _ w src(3)] bound
    obtain m' where m': "copy_out_loop root (va + PGSIZE) p' 4096 ys ?s = Inr (s\<lparr>pmem := m'\<rparr>)"
      "uwritten ?m m' root (4096 * Suc v) ys" "pt_same ?m m' root" by auto
    have "uwritten (pmem s) m' root (4096 * v + off) (xs @ ys)"
    proof (rule uwritten_append [OF _ chunk])
      show "uwritable (pmem s) root (4096 * v + off) (length xs + length ys)"
        using less.prems(6) len src(2) by simp
      show "uwritten ?m m' root (4096 * v + off + length xs) ys"
        unfolding src(2) next_a by (rule m'(2))
    qed
    moreover have "copy_out_loop root va (p + off) (4096 - off) src s = Inr (s\<lparr>pmem := m'\<rparr>)"
      using False page pa m'(1) src(3) c(1) unfolding xs_def ys_def c_def
      by (subst copy_out_loop.simps) (simp add: Let_def)
    ultimately show ?thesis
      using m'(3) pt_same_trans [OF chunk(1)] src(1) by auto
  qed
qed

lemma copy_out_written:
  assumes wf: "wf_pt (pmem s) root" and bound: "unat dst + length src \<le> 2 ^ 38"
    and w: "uwritable (pmem s) root (unat dst) (length src)" and ne: "src \<noteq> []"
  obtains m' where "copy_out root dst src s = Inr (s\<lparr>pmem := m'\<rparr>)"
    "uwritten (pmem s) m' root (unat dst) src" "pt_same (pmem s) m' root"
proof -
  let ?v = "unat dst div 4096" and ?o = "unat dst mod 4096"
  have dst: "4096 * ?v + ?o = unat dst" by simp
  have o: "?o < 4096" by simp
  have "uphys (pmem s) root (4096 * ?v + ?o) \<noteq> None" using uwritable_uphys [OF w, of 0] ne dst by simp
  then obtain p where p: "uphys (pmem s) root (4096 * ?v) = Some p"
    by (auto simp: uphys_def split: option.splits if_splits)
  have va: "unat (pg_round_down dst) = 4096 * ?v" by simp
  have v: "?v \<le> 2 ^ 26" using bound by simp
  obtain pa where pa: "unat pa = p" "pgt_translate_unwrap root (pg_round_down dst) s = Inr (pa, s)"
    using pgt_translate_unwrap_uphys(2) [OF wf va v p] by blast
  have off: "unat dst - unat (pg_round_down dst) = ?o" using dst va by linarith
  have eq: "copy_out root dst src s =
      copy_out_loop root (pg_round_down dst) (p + ?o) (4096 - ?o) src s"
    unfolding copy_out_def Let_def off pa(2) using pa(1) by simp
  from copy_out_loop_written [OF wf va o p, of src, unfolded dst, OF bound w ne]
  show thesis using that unfolding eq by blast
qed

text \<open>Reading back what was written.\<close>

lemma uread_written:
  "uwritten m m' root a bs \<Longrightarrow> pt_same m m' root \<Longrightarrow> uread m' root a (length bs) = bs"
  by (rule nth_equalityI) (simp_all add: uread_def uwritten_def uphys_same)

end
