(* ===== verification/Rx_Cow.thy ===== *)
theory Rx_Cow
  imports Rx_Uvm
begin

text \<open>
  Copy on write: \<^verbatim>\<open>ucopy_nocopy\<close>, with which a fork shares the parent's pages, and \<^verbatim>\<open>uload_page\<close>,
  the handler of a write to a shared page. Two address spaces live in the same memory, so the
  first part says when an operation on one leaves the other alone.
\<close>

section \<open>Two address spaces\<close>

definition vs2_inv :: "usize \<Rightarrow> usize list \<Rightarrow> usize \<Rightarrow> usize \<Rightarrow> kmem \<Rightarrow> bool" where
  "vs2_inv hs ps r1 r2 s \<longleftrightarrow>
     vs_inv hs ps r1 s \<and> vs_inv hs ps r2 s \<and> pt_pages (pmem s) r1 \<inter> pt_pages (pmem s) r2 = {}"

lemma vs2_inv_sym: "vs2_inv hs ps r1 r2 s \<Longrightarrow> vs2_inv hs ps r2 r1 s"
  by (auto simp: vs2_inv_def)

lemma pt_ext_other:
  assumes vs: "vs2_inv hs (us @ ps) r1 r2 s" and ext: "pt_ext hs r2 us ps s s'"
  shows "pt_same (pmem s) (pmem s') r1" "vs2_inv hs ps r1 r2 s'"
proof -
  have wf: "wf_pt (pmem s) r1" and disj: "pt_pages (pmem s) r1 \<inter> set (us @ ps) = {}"
    using vs by (simp_all add: vs2_inv_def vs_inv_def)
  have sep: "pt_pages (pmem s) r1 \<inter> pt_pages (pmem s') r2 = {}"
    using vs ext disj by (auto simp: vs2_inv_def pt_ext_def)
  show same: "pt_same (pmem s) (pmem s') r1"
  proof (rule pt_sameI)
    fix y assume "y \<in> pt_pages (pmem s) r1"
    then show "load_bytes (pmem s') (unat y) 4096 = load_bytes (pmem s) (unat y) 4096"
      using ext sep wf_pt_ram [OF wf] by (auto simp: pt_ext_def)
  qed
  have "vs_inv hs ps r2 s'" using ext by (simp add: pt_ext_def)
  moreover have "vs_inv hs ps r1 s'"
    using \<open>vs_inv hs ps r2 s'\<close> pt_same_wf [OF same wf] pt_same_pages [OF same] disj
    by (auto simp: vs_inv_def)
  ultimately show "vs2_inv hs ps r1 r2 s'"
    using sep pt_same_pages [OF same] by (auto simp: vs2_inv_def)
qed

section \<open>Sharing one page\<close>

lemma to_cow_bits:
  "is_valid (to_cow_page e) = is_valid e" "as_pagetable (to_cow_page e) = as_pagetable e"
  "\<not> is_write (to_cow_page e)" "is_user (to_cow_page e) = is_user e"
proof -
  have b: "bit (to_cow_page e) n \<longleftrightarrow> n < 64 \<and> (bit e n \<and> n \<noteq> 2 \<or> n = 8)" for n
    using bit_imp_le_length [of e n]
    unfolding to_cow_page_def PTE_W_def PTE_RS1_def bit_or_iff bit_and_iff bit_not_iff
      bit_push_bit_iff bit_1_iff by auto
  show "is_valid (to_cow_page e) = is_valid e" "\<not> is_write (to_cow_page e)"
    "is_user (to_cow_page e) = is_user e" by (simp_all add: pte_bits b)
  show "as_pagetable (to_cow_page e) = as_pagetable e"
  proof (rule bit_word_eqI)
    fix n assume "n < LENGTH(64)"
    then show "bit (as_pagetable (to_cow_page e)) n = bit (as_pagetable e) n"
      unfolding bit_as_pagetable b by auto
  qed
qed

lemma add_write_bits:
  "is_valid (add_write_bit e) = is_valid e" "as_pagetable (add_write_bit e) = as_pagetable e"
  "is_write (add_write_bit e)" "is_user (add_write_bit e) = is_user e"
proof -
  have b: "bit (add_write_bit e) n \<longleftrightarrow> n < 64 \<and> (bit e n \<or> n = 2)" for n
    using bit_imp_le_length [of e n]
    unfolding add_write_bit_def PTE_W_def bit_or_iff bit_push_bit_iff bit_1_iff by auto
  show "is_valid (add_write_bit e) = is_valid e" "is_write (add_write_bit e)"
    "is_user (add_write_bit e) = is_user e" by (simp_all add: pte_bits b)
  show "as_pagetable (add_write_bit e) = as_pagetable e"
  proof (rule bit_word_eqI)
    fix n assume "n < LENGTH(64)"
    then show "bit (as_pagetable (add_write_bit e)) n = bit (as_pagetable e) n"
      unfolding bit_as_pagetable b by auto
  qed
qed

lemma truncate_write:
  fixes e :: usize
  defines "perm \<equiv> pte_from_bits_truncate (e OR PTE_W)"
  shows "as_flags perm = perm" "is_write perm" "is_user perm = is_user e"
proof -
  have b: "bit perm n \<longleftrightarrow> n < 10 \<and> (bit e n \<or> n = 2)" for n
    unfolding perm_def pte_from_bits_truncate_def pte_flags_all_mask PTE_W_def bit_and_iff
      bit_or_iff bit_push_bit_iff bit_1_iff bit_mask_iff by auto
  show "as_flags perm = perm"
    by (rule bit_word_eqI) (auto simp: bit_as_flags b)
  show "is_write perm" "is_user perm = is_user e" by (simp_all add: pte_bits b)
qed

lemma is_write_write_perm [simp]: "is_write (write_perm pa perm) = is_write perm"
  by (auto simp: pte_bits bit_write_perm)

section \<open>Resolving a write to a shared page\<close>

lemma ram_page_aligned: "ram_page p \<Longrightarrow> is_page_aligned p"
  by (simp add: ram_page_def is_page_aligned_unat)

lemma copy_page_spec:
  assumes z: "ram_page z"
  shows "load_bytes (pmem (copy_page z p s)) (unat z) 4096 = load_bytes (pmem s) (unat p) 4096"
    "\<And>y. ram_page y \<Longrightarrow> y \<noteq> z \<Longrightarrow>
       load_bytes (pmem (copy_page z p s)) (unat y) 4096 = load_bytes (pmem s) (unat y) 4096"
proof -
  show "load_bytes (pmem (copy_page z p s)) (unat z) 4096 = load_bytes (pmem s) (unat p) 4096"
    by (simp add: copy_page_def)
  show "load_bytes (pmem (copy_page z p s)) (unat y) 4096 = load_bytes (pmem s) (unat y) 4096"
    if "ram_page y" "y \<noteq> z" for y
    using ram_page_disjoint [OF that(1) z that(2)]
    by (simp add: copy_page_def) (rule load_store_bytes_disjoint, simp)
qed

text \<open>A page with one owner only gets its write bit back.\<close>

lemma uload_page_private:
  assumes vs: "vs_inv hs ps root s" and va: "va \<le> MAXVA" and v: "v = unat va div 4096"
    and e: "vmap (pmem s) root v = Some e" "heap_page hs (as_pagetable e)"
    and one: "rc s (as_pagetable e) = 1"
  shows "\<exists>s'. uload_page root va s = Inr (Inr (), s') \<and> pt_ext hs root [] ps s s' \<and>
           vmap (pmem s') root = (vmap (pmem s) root)(v \<mapsto> add_write_bit e)"
proof -
  have wf: "wf_pt (pmem s) root" using vs by (simp add: vs_inv_def)
  obtain a where a: "pte_slot (pmem s) root v = Some a" "load64 (pmem s) a = e" "is_valid e"
    and lt: "v < 2 ^ 27" using vmap_slot [OF e(1)] by blast
  have "uload_page root va s = Inr (Inr (), set_pte a (add_write_bit e) s)"
    using translate_slot [OF wf va] a(1,2) v one e(2)
    by (simp add: uload_page_def get_pte_def Let_def get_count_rc)
  with set_slot_inv [OF vs a(1) lt, of "add_write_bit e"] a(3) show ?thesis
    by (simp add: add_write_bits)
qed

lemma ka_inv_copy_page:
  assumes inv: "ka_inv hs ps s" and z: "ram_page z" "z \<notin> set ps"
  shows "ka_inv hs ps (copy_page z p s)"
  unfolding copy_page_def
proof (rule ka_inv_mem [OF inv])
  fix q assume "q \<in> set ps"
  then have "ram_page q" "q \<noteq> z" using ka_inv_ram [OF inv] z(2) by auto
  then have "load_bytes (pmem (copy_page z p s)) (unat q) 4096 = load_bytes (pmem s) (unat q) 4096"
    by (rule copy_page_spec(2) [OF z(1)])
  then show "load64 (store_bytes (pmem s) (unat z) (load_bytes (pmem s) (unat p) 4096)) (unat q) =
      load64 (pmem s) (unat q)"
    unfolding copy_page_def by (intro load64_from_page) simp
qed

text \<open>A fresh page that holds a copy, next to an address space it is not part of yet.\<close>

lemma fresh_copy:
  assumes vs: "vs_inv hs (z # ps) root s" and p: "ram_page p" "p \<noteq> z"
  obtains s1 where "new_zeroed s = Inr (z, s1)"
    "vs_inv hs ps root (copy_page z p s1)" "pt_same (pmem s) (pmem (copy_page z p s1)) root"
    "heap_page hs z" "z \<notin> pt_pages (pmem s) root"
    "load_bytes (pmem (copy_page z p s1)) (unat z) 4096 = load_bytes (pmem s) (unat p) 4096"
    "\<And>y. ram_page y \<Longrightarrow> y \<noteq> z \<Longrightarrow>
       load_bytes (pmem (copy_page z p s1)) (unat y) 4096 = load_bytes (pmem s) (unat y) 4096"
    "\<And>q. ram_page q \<Longrightarrow> rc (copy_page z p s1) q = (if q = z then 1 else rc s q)"
proof -
  have ka: "ka_inv hs (z # ps) s" and wf: "wf_pt (pmem s) root"
    and disj: "pt_pages (pmem s) root \<inter> set (z # ps) = {}" using vs by (simp_all add: vs_inv_def)
  obtain s1 where s1: "new_zeroed s = Inr (z, s1)" "ka_inv hs ps s1" "heap_page hs z"
    "ka_count s1 = (ka_count s)(pidx z := 1)" "pmem s1 = fill_zero (pmem s) (unat z) 4096"
    using new_zeroed_cons [OF ka] by metis
  let ?s = "copy_page z p s1"
  have z: "ram_page z" "z \<notin> pt_pages (pmem s) root" "z \<notin> set ps"
    using s1(3) disj ka.free_distinct [OF ka] by auto
  have fill: "load_bytes (pmem s1) (unat y) 4096 = load_bytes (pmem s) (unat y) 4096"
    if "ram_page y" "y \<noteq> z" for y
    unfolding s1(5) using ram_page_disjoint [OF that(1) z(1) that(2)]
    by (intro load_bytes_fill_zero_disjoint) simp
  have other: "load_bytes (pmem ?s) (unat y) 4096 = load_bytes (pmem s) (unat y) 4096"
    if "ram_page y" "y \<noteq> z" for y
    using copy_page_spec(2) [OF z(1) that] fill [OF that] by simp
  have same: "pt_same (pmem s) (pmem ?s) root"
    by (rule pt_sameI, rule other) (use wf_pt_ram [OF wf] z(2) in auto)
  have "ka_inv hs ps ?s" by (rule ka_inv_copy_page [OF s1(2) z(1,3)])
  then have "vs_inv hs ps root ?s"
    using pt_same_wf [OF same wf] pt_same_pages [OF same] disj by (auto simp: vs_inv_def)
  moreover have "rc ?s q = (if q = z then 1 else rc s q)" if "ram_page q" for q
    using pidx_inj [OF that z(1)] by (simp add: rc_def copy_page_def s1(4))
  moreover have "load_bytes (pmem ?s) (unat z) 4096 = load_bytes (pmem s) (unat p) 4096"
    using copy_page_spec(1) [OF z(1), of p s1] fill [OF p] by simp
  ultimately show thesis using that s1(1,3) same z(2) other by blast
qed

lemma drop_other_page:
  assumes vs: "vs_inv hs ps root s" and p: "heap_page hs p" "1 \<le> rc s p" "p \<notin> pt_pages (pmem s) root"
  obtains ps' s' where "drop_page p s = Inr s'" "vs_inv hs ps' root s'"
    "pt_same (pmem s) (pmem s') root"
    "\<And>q. ram_page q \<Longrightarrow> rc s' q = (if q = p then rc s q - 1 else rc s q)"
    "\<And>y. ram_page y \<Longrightarrow> y \<noteq> p \<or> 2 \<le> rc s p \<Longrightarrow>
       load_bytes (pmem s') (unat y) 4096 = load_bytes (pmem s) (unat y) 4096"
proof -
  have ka: "ka_inv hs ps s" and wf: "wf_pt (pmem s) root"
    and disj: "pt_pages (pmem s) root \<inter> set ps = {}" using vs by (simp_all add: vs_inv_def)
  obtain ps1 s1 where s1: "drop_page p s = Inr s1" "ka_inv hs ps1 s1"
    "set ps1 \<subseteq> insert p (set ps)"
    "\<And>q. ram_page q \<Longrightarrow> rc s1 q = (if q = p then rc s q - 1 else rc s q)"
    "\<And>y. ram_page y \<Longrightarrow> y \<noteq> p \<or> 2 \<le> rc s p \<Longrightarrow>
       load_bytes (pmem s1) (unat y) 4096 = load_bytes (pmem s) (unat y) 4096"
    by (rule drop_page_live [OF ka p(1,2)]) (rule that; assumption)
  have same: "pt_same (pmem s) (pmem s1) root"
    by (rule pt_sameI, rule s1(5)) (use wf_pt_ram [OF wf] p(3) in auto)
  have "vs_inv hs ps1 root s1"
    using s1(2,3) pt_same_wf [OF same wf] pt_same_pages [OF same] disj p(3)
    by (auto simp: vs_inv_def)
  with s1 same show thesis by (intro that)
qed

lemma uload_page_shared:
  assumes vs: "vs_inv hs (z # ps) root s" and va: "va \<le> MAXVA" and v: "v = unat va div 4096"
    and e: "vmap (pmem s) root v = Some e" "heap_page hs (as_pagetable e)"
      "as_pagetable e \<notin> pt_pages (pmem s) root" and two: "2 \<le> rc s (as_pagetable e)"
  obtains ps' s' where "uload_page root va s = Inr (Inr (), s')" "vs_inv hs ps' root s'"
    "vmap (pmem s') root =
       (vmap (pmem s) root)(v \<mapsto> write_perm z (pte_from_bits_truncate (e OR PTE_W)))"
    "load_bytes (pmem s') (unat z) 4096 = load_bytes (pmem s) (unat (as_pagetable e)) 4096"
    "\<And>y. ram_page y \<Longrightarrow> y \<notin> pt_pages (pmem s) root \<Longrightarrow> y \<noteq> z \<Longrightarrow>
       load_bytes (pmem s') (unat y) 4096 = load_bytes (pmem s) (unat y) 4096"
    "\<And>q. ram_page q \<Longrightarrow> rc s' q =
       (if q = z then 1 else if q = as_pagetable e then rc s q - 1 else rc s q)"
    "heap_page hs z" "z \<noteq> as_pagetable e"
proof -
  let ?p = "as_pagetable e"
  have wf: "wf_pt (pmem s) root" and ka: "ka_inv hs (z # ps) s" using vs by (simp_all add: vs_inv_def)
  have pz: "?p \<noteq> z" using ka.free_iff [OF ka, of z] two by auto
  have pr: "ram_page ?p" using e(2) by simp
  obtain a where a: "pte_slot (pmem s) root v = Some a" "load64 (pmem s) a = e" "is_valid e"
    and lt: "v < 2 ^ 27" using vmap_slot [OF e(1)] by blast
  obtain s1 where s1: "new_zeroed s = Inr (z, s1)"
    "vs_inv hs ps root (copy_page z ?p s1)" "pt_same (pmem s) (pmem (copy_page z ?p s1)) root"
    "heap_page hs z" "z \<notin> pt_pages (pmem s) root"
    "load_bytes (pmem (copy_page z ?p s1)) (unat z) 4096 = load_bytes (pmem s) (unat ?p) 4096"
    "\<And>y. ram_page y \<Longrightarrow> y \<noteq> z \<Longrightarrow>
       load_bytes (pmem (copy_page z ?p s1)) (unat y) 4096 = load_bytes (pmem s) (unat y) 4096"
    "\<And>q. ram_page q \<Longrightarrow> rc (copy_page z ?p s1) q = (if q = z then 1 else rc s q)"
    by (rule fresh_copy [OF vs pr pz]) (rule that; assumption)
  let ?c = "copy_page z ?p s1"
  have slot: "pte_slot (pmem ?c) root v = Some a" using a(1) pt_same_slot [OF s1(3)] by simp
  have vmc: "vmap (pmem ?c) root = vmap (pmem s) root" by (rule pt_same_vmap [OF s1(3)])
  have ec: "load64 (pmem ?c) a = e"
    using vmc e(1) slot lt by (auto simp: fun_eq_iff vmap_def split: if_splits)
  define perm where "perm = pte_from_bits_truncate (e OR PTE_W)"
  note set = set_slot_inv [OF s1(2) slot lt, of "write_perm z perm"]
  let ?t = "set_pte a (write_perm z perm) ?c"
  have pages: "pt_pages (pmem ?t) root = pt_pages (pmem s) root"
    using set(1) pt_same_pages [OF s1(3)] by (simp add: pt_ext_def)
  have rct: "rc ?t q = (if q = z then 1 else rc s q)" if "ram_page q" for q
    using set(1) s1(8) [OF that] that by (simp add: pt_ext_def)
  obtain ps' s' where s': "drop_page ?p ?t = Inr s'" "vs_inv hs ps' root s'"
    "pt_same (pmem ?t) (pmem s') root"
    "\<And>q. ram_page q \<Longrightarrow> rc s' q = (if q = ?p then rc ?t q - 1 else rc ?t q)"
    "\<And>y. ram_page y \<Longrightarrow> y \<noteq> ?p \<or> 2 \<le> rc ?t ?p \<Longrightarrow>
       load_bytes (pmem s') (unat y) 4096 = load_bytes (pmem ?t) (unat y) 4096"
    by (rule drop_other_page [OF pt_ext_inv [OF set(1)] e(2)])
      (use rct [OF pr] pz two e(3) pages that in auto)
  have frame: "load_bytes (pmem s') (unat y) 4096 = load_bytes (pmem ?c) (unat y) 4096"
    if "ram_page y" "y \<notin> pt_pages (pmem s) root" for y
    using s'(5) [OF that(1)] rct [OF pr] two pz set(1) that pages by (simp add: pt_ext_def)
  show thesis
  proof (rule that)
    show "uload_page root va s = Inr (Inr (), s')"
      using translate_slot [OF wf va] a(1,2) v two e(2) s1(1) s'(1) ec
      by (simp add: uload_page_def get_pte_def Let_def get_count_rc perm_def)
    show "vs_inv hs ps' root s'" "heap_page hs z" "z \<noteq> ?p" using s'(2) s1(4) pz by auto
    show "vmap (pmem s') root =
        (vmap (pmem s) root)(v \<mapsto> write_perm z (pte_from_bits_truncate (e OR PTE_W)))"
      using pt_same_vmap [OF s'(3)] set(2) vmc by (simp add: perm_def)
    show "load_bytes (pmem s') (unat z) 4096 = load_bytes (pmem s) (unat ?p) 4096"
      using frame [of z] s1(4,5,6) pz by simp
    show "load_bytes (pmem s') (unat y) 4096 = load_bytes (pmem s) (unat y) 4096"
      if "ram_page y" "y \<notin> pt_pages (pmem s) root" "y \<noteq> z" for y
      using frame [of y] s1(7) [of y] that by simp
    show "rc s' q = (if q = z then 1 else if q = ?p then rc s q - 1 else rc s q)"
      if "ram_page q" for q
      using s'(4) [OF that] rct [OF that] pz by auto
  qed
qed

section \<open>Sharing a range for a fork\<close>

definition share_pte :: "usize \<Rightarrow> usize" where
  "share_pte e = write_perm (as_pagetable e) (as_flags (to_cow_page e))"

definition cow_range :: "(nat \<Rightarrow> usize option) \<Rightarrow> nat \<Rightarrow> nat \<Rightarrow> nat \<Rightarrow> usize option" where
  "cow_range f v n w = (if v \<le> w \<and> w < v + n then map_option to_cow_page (f w) else f w)"

definition share_range ::
  "(nat \<Rightarrow> usize option) \<Rightarrow> (nat \<Rightarrow> usize option) \<Rightarrow> nat \<Rightarrow> nat \<Rightarrow> nat \<Rightarrow> usize option" where
  "share_range f g v n w = (if v \<le> w \<and> w < v + n then map_option share_pte (f w) else g w)"

lemma cow_range_Suc:
  "f v = Some e \<Longrightarrow> cow_range (f(v \<mapsto> to_cow_page e)) (Suc v) n = cow_range f v (Suc n)"
  by (auto simp: fun_eq_iff cow_range_def)

lemma share_range_Suc:
  "f v = Some e \<Longrightarrow> share_range (f(v \<mapsto> e')) (g(v \<mapsto> share_pte e)) (Suc v) n =
   share_range f g v (Suc n)"
  by (auto simp: fun_eq_iff share_range_def)

text \<open>What one or more rounds of the loop do: \<open>us\<close> are the pages the child's tree took, \<open>T\<close> the
  shared pages.\<close>

definition shares ::
  "usize \<Rightarrow> usize \<Rightarrow> usize \<Rightarrow> usize list \<Rightarrow> usize list \<Rightarrow> usize set \<Rightarrow> kmem \<Rightarrow> kmem \<Rightarrow> bool" where
  "shares hs r1 r2 us ps T s s' \<longleftrightarrow>
     vs2_inv hs ps r1 r2 s' \<and>
     pt_pages (pmem s') r1 = pt_pages (pmem s) r1 \<and>
     pt_pages (pmem s') r2 = pt_pages (pmem s) r2 \<union> set us \<and>
     (\<forall>q. ram_page q \<longrightarrow> rc s' q =
        (if q \<in> T then rc s q + 1 else if q \<in> set us then 1 else rc s q)) \<and>
     (\<forall>y. ram_page y \<longrightarrow> y \<notin> pt_pages (pmem s') r1 \<longrightarrow> y \<notin> pt_pages (pmem s') r2 \<longrightarrow>
        load_bytes (pmem s') (unat y) 4096 = load_bytes (pmem s) (unat y) 4096)"

lemma shares_refl: "vs2_inv hs ps r1 r2 s \<Longrightarrow> shares hs r1 r2 [] ps {} s s"
  by (simp add: shares_def)

lemma shares_trans:
  assumes "shares hs r1 r2 us (vs @ ps) T s s1" "shares hs r1 r2 vs ps U s1 s2" "T \<inter> U = {}"
    and "T \<inter> set vs = {}" "U \<inter> set us = {}"
  shows "shares hs r1 r2 (us @ vs) ps (T \<union> U) s s2"
  using assms by (auto simp: shares_def)

lemma map_one_page:
  assumes vs: "vs_inv hs ps root s" and len: "2 \<le> length ps"
    and va: "unat va = 4096 * v" "v < 2 ^ 26" and pa: "ram_page pa"
    and free: "vmap (pmem s) root v = None"
  obtains us ps' s' where "ps = us @ ps'" "length us \<le> 2"
    "map_pages root va pa PGSIZE perm s = Inr (True, s')" "pt_ext hs root us ps' s s'"
    "vmap (pmem s') root = (vmap (pmem s) root)(v \<mapsto> write_perm pa perm)"
proof -
  have n: "1 = (unat va + unat PGSIZE + 4095) div 4096 - unat va div 4096" using va(1) by simp
  have "\<exists>us ps' s'. ps = us @ ps' \<and> length us \<le> 2 * 1 \<and>
      map_pages root va pa PGSIZE perm s = Inr (True, s') \<and> pt_ext hs root us ps' s s' \<and>
      vmap (pmem s') root = map_range (vmap (pmem s) root) (unat va div 4096) 1 pa perm"
  proof (rule map_pages_range [OF vs _ n])
    show "unat va + unat PGSIZE \<le> 2 ^ 38" using va by simp
    show "unat pa + 4096 * 1 < 2 ^ 64" using pa by (simp add: ram_page_def)
    show "vmap (pmem s) root w = None"
      if "unat va div 4096 \<le> w" "w < unat va div 4096 + 1" for w
    proof -
      have "w = v" using that va(1) by simp
      with free show ?thesis by simp
    qed
  qed (use len in simp)
  moreover have "map_range (vmap (pmem s) root) v 1 pa perm =
      (vmap (pmem s) root)(v \<mapsto> write_perm pa perm)"
    by (auto simp: fun_eq_iff map_range_def)
  ultimately show thesis using that va(1) by auto
qed

lemma share_step:
  assumes vs: "vs2_inv hs ps r1 r2 s" and len: "2 \<le> length ps"
    and va: "unat va = 4096 * v" "v < 2 ^ 26" and e: "vmap (pmem s) r1 v = Some e"
      "heap_page hs (as_pagetable e)" "1 \<le> rc s (as_pagetable e)"
      "rc s (as_pagetable e) < 2 ^ 31 - 1"
    and free: "vmap (pmem s) r2 v = None" and sz: "add_ck sz start = Inr end_va" "va \<noteq> end_va"
  obtains us ps' s' where "ps = us @ ps'" "length us \<le> 2"
    "ucopy_nocopy_loop r1 r2 start va sz s = ucopy_nocopy_loop r1 r2 start (va + PGSIZE) sz s'"
    "shares hs r1 r2 us ps' {as_pagetable e} s s'"
    "vmap (pmem s') r1 = (vmap (pmem s) r1)(v \<mapsto> to_cow_page e)"
    "vmap (pmem s') r2 = (vmap (pmem s) r2)(v \<mapsto> share_pte e)"
proof -
  let ?p = "as_pagetable e"
  have vs1: "vs_inv hs ps r1 s" and wf: "wf_pt (pmem s) r1"
    using vs by (simp_all add: vs2_inv_def vs_inv_def)
  obtain a where a: "pte_slot (pmem s) r1 v = Some a" "load64 (pmem s) a = e" "is_valid e"
    and lt: "v < 2 ^ 27" using vmap_slot [OF e(1)] by blast
  have le: "va \<le> MAXVA" using va by (simp add: word_le_nat_alt)
  let ?s1 = "set_pte a (to_cow_page e) s"
  note set = set_slot_inv [OF vs1 a(1) lt, of "to_cow_page e"]
  have o1: "pt_same (pmem s) (pmem ?s1) r2" "vs2_inv hs ps r1 r2 ?s1"
    using pt_ext_other [of hs "[]" ps r2 r1 s ?s1] vs2_inv_sym [OF vs] set(1)
    by (simp_all add: vs2_inv_sym)
  have rc1: "rc ?s1 = rc s" by (simp add: rc_def set_pte_def fun_eq_iff)
  let ?s2 = "?s1\<lparr>ka_count := (ka_count ?s1)(pidx ?p := rc ?s1 ?p + 1)\<rparr>"
  have ka1: "ka_inv hs ps ?s1" using o1(2) by (simp add: vs2_inv_def vs_inv_def)
  have add: "add_count ?p ?s1 = Inr ?s2" "ka_inv hs ps ?s2"
    using add_count_live [OF ka1 e(2)] e(3,4) rc1 by simp_all
  have vs2: "vs2_inv hs ps r1 r2 ?s2" using o1(2) add(2) by (simp add: vs2_inv_def vs_inv_def)
  have free2: "vmap (pmem ?s2) r2 v = None" using free pt_same_vmap [OF o1(1)] by simp
  obtain us ps' s3 where m: "ps = us @ ps'" "length us \<le> 2"
    "map_pages r2 va ?p PGSIZE (as_flags (to_cow_page e)) ?s2 = Inr (True, s3)"
    "pt_ext hs r2 us ps' ?s2 s3"
    "vmap (pmem s3) r2 = (vmap (pmem ?s2) r2)(v \<mapsto> share_pte e)"
    using map_one_page [OF _ len va _ free2, of hs ?p "as_flags (to_cow_page e)"] vs2 e(2)
    unfolding vs2_inv_def share_pte_def by (metis heap_ram)
  have o3: "pt_same (pmem ?s2) (pmem s3) r1" "vs2_inv hs ps' r1 r2 s3"
    using pt_ext_other [OF _ m(4)] vs2 m(1) by simp_all
  have loop: "ucopy_nocopy_loop r1 r2 start va sz s =
      ucopy_nocopy_loop r1 r2 start (va + PGSIZE) sz s3"
    using sz translate_slot [OF wf le] a va add(1) m(3) add_page_unat [of va]
    by (subst ucopy_nocopy_loop.simps)
      (simp add: get_pte_def Let_def to_cow_bits pte_flags_new_eq as_flags_def and.assoc)
  have pg1: "pt_pages (pmem s3) r1 = pt_pages (pmem s) r1"
    using pt_same_pages [OF o3(1)] set(1) by (simp add: pt_ext_def)
  have pg2: "pt_pages (pmem s3) r2 = pt_pages (pmem s) r2 \<union> set us"
    using m(4) pt_same_pages [OF o1(1)] by (simp add: pt_ext_def)
  have notus: "?p \<notin> set us"
    using ka.live_not_free [of hs ps s ?p] vs1 e(3) m(1) by (auto simp: vs_inv_def)
  have "rc s3 q = (if q \<in> {?p} then rc s q + 1 else if q \<in> set us then 1 else rc s q)"
    if "ram_page q" for q
  proof -
    have "rc s3 q = (if q \<in> set us then 1 else rc ?s2 q)" using m(4) that by (simp add: pt_ext_def)
    moreover have "rc ?s2 q = (if q = ?p then rc s q + 1 else rc s q)"
      using pidx_inj [OF that, of ?p] e(2) rc1 by (auto simp: rc_def fun_eq_iff)
    ultimately show ?thesis using notus by auto
  qed
  moreover have "load_bytes (pmem s3) (unat y) 4096 = load_bytes (pmem s) (unat y) 4096"
    if "ram_page y" "y \<notin> pt_pages (pmem s3) r1" "y \<notin> pt_pages (pmem s3) r2" for y
    using m(4) set(1) that pg1 by (simp add: pt_ext_def)
  ultimately have "shares hs r1 r2 us ps' {?p} s s3" using o3(2) pg1 pg2 by (simp add: shares_def)
  moreover have "vmap (pmem s3) r1 = (vmap (pmem s) r1)(v \<mapsto> to_cow_page e)"
    using pt_same_vmap [OF o3(1)] set(2) a(3) by (simp add: to_cow_bits)
  moreover have "vmap (pmem s3) r2 = (vmap (pmem s) r2)(v \<mapsto> share_pte e)"
    using m(5) pt_same_vmap [OF o1(1)] by simp
  ultimately show thesis using that [OF m(1,2) loop] by blast
qed

lemma targets_upd: "v < v' \<Longrightarrow> targets (f(v := x)) v' n = targets f v' n"
  unfolding targets_def by fastforce

lemma targets_live:
  "range_owned hs root s v n \<Longrightarrow> q \<in> targets (vmap (pmem s) root) v n \<Longrightarrow>
   heap_page hs q \<and> 1 \<le> rc s q"
proof -
  assume own: "range_owned hs root s v n" and "q \<in> targets (vmap (pmem s) root) v n"
  then obtain w e where "v \<le> w" "w < v + n" "vmap (pmem s) root w = Some e" "q = as_pagetable e"
    by (auto simp: targets_def)
  with range_ownedD [OF own, of w] show ?thesis by auto
qed

lemma range_owned_share:
  assumes own: "range_owned hs r1 s v (Suc n)" and sh: "shares hs r1 r2 us ps T s s'"
    and vm: "vmap (pmem s') r1 = (vmap (pmem s) r1)(v \<mapsto> e')"
  shows "range_owned hs r1 s' (Suc v) n"
  unfolding range_owned_def
proof (intro conjI allI impI)
  fix w assume w: "Suc v \<le> w" "w < Suc v + n"
  then obtain e where e: "vmap (pmem s) r1 w = Some e" "heap_page hs (as_pagetable e)"
    "1 \<le> rc s (as_pagetable e)" "as_pagetable e \<notin> pt_pages (pmem s) r1"
    using range_ownedD [OF own, of w] by auto
  then have "1 \<le> rc s' (as_pagetable e)" using sh by (auto simp: shares_def)
  with e w vm sh show "\<exists>e. vmap (pmem s') r1 w = Some e \<and> heap_page hs (as_pagetable e) \<and>
      1 \<le> rc s' (as_pagetable e) \<and> as_pagetable e \<notin> pt_pages (pmem s') r1"
    by (auto simp: shares_def)
next
  have "inj_on (\<lambda>w. as_pagetable (the (vmap (pmem s) r1 w))) {Suc v..<Suc v + n}"
    by (rule inj_on_subset [of _ "{v..<v + Suc n}"]) (use own in \<open>auto simp: range_owned_def\<close>)
  then show "inj_on (\<lambda>w. as_pagetable (the (vmap (pmem s') r1 w))) {Suc v..<Suc v + n}"
    by (rule inj_on_cong [THEN iffD1, rotated]) (use vm in auto)
qed

lemma share_loop:
  assumes "vs2_inv hs ps r1 r2 s" "2 * n \<le> length ps"
    and "unat va = 4096 * v" "v + n \<le> 2 ^ 26" "range_owned hs r1 s v n"
    and "\<And>q. q \<in> targets (vmap (pmem s) r1) v n \<Longrightarrow> rc s q < 2 ^ 31 - 1"
    and "\<And>w. v \<le> w \<Longrightarrow> w < v + n \<Longrightarrow> vmap (pmem s) r2 w = None"
    and sz: "add_ck sz start = Inr end_va" and "unat end_va = 4096 * (v + n)"
  shows "\<exists>us ps' s'. ps = us @ ps' \<and> length us \<le> 2 * n \<and>
           ucopy_nocopy_loop r1 r2 start va sz s = Inr (Inr (), s') \<and>
           shares hs r1 r2 us ps' (targets (vmap (pmem s) r1) v n) s s' \<and>
           vmap (pmem s') r1 = cow_range (vmap (pmem s) r1) v n \<and>
           vmap (pmem s') r2 = share_range (vmap (pmem s) r1) (vmap (pmem s) r2) v n"
  using assms(1-7,9)
proof (induction n arbitrary: ps s va v)
  case 0
  then have "va = end_va" by (simp add: word_unat_eq_iff)
  then have "ucopy_nocopy_loop r1 r2 start va sz s = Inr (Inr (), s)"
    using sz by (subst ucopy_nocopy_loop.simps) simp
  moreover have "cow_range f v 0 = f" "share_range f g v 0 = g" "targets f v 0 = {}" for f g
    by (auto simp: fun_eq_iff cow_range_def share_range_def targets_def)
  ultimately show ?case using shares_refl [OF 0(1)] by simp
next
  case (Suc n)
  obtain e where e: "vmap (pmem s) r1 v = Some e" "heap_page hs (as_pagetable e)"
    "1 \<le> rc s (as_pagetable e)" "as_pagetable e \<notin> pt_pages (pmem s) r1"
    "as_pagetable e \<notin> targets (vmap (pmem s) r1) (Suc v) n"
    by (rule range_owned_SucD [OF Suc.prems(5)])
  note t = targets_Suc [of "vmap (pmem s) r1" v e n, OF e(1)]
  let ?U = "targets (vmap (pmem s) r1) (Suc v) n"
  have len: "2 \<le> length ps" and v: "v < 2 ^ 26" using Suc.prems(2,4) by simp_all
  have max: "rc s (as_pagetable e) < 2 ^ 31 - 1" using Suc.prems(6) t by simp
  have free: "vmap (pmem s) r2 v = None" using Suc.prems(7) [of v] by simp
  have "unat va \<noteq> unat end_va" using Suc.prems(3,8) by simp
  then have ne: "va \<noteq> end_va" by blast
  obtain us ps1 s1 where 1: "ps = us @ ps1" "length us \<le> 2"
    "ucopy_nocopy_loop r1 r2 start va sz s = ucopy_nocopy_loop r1 r2 start (va + PGSIZE) sz s1"
    "shares hs r1 r2 us ps1 {as_pagetable e} s s1"
    "vmap (pmem s1) r1 = (vmap (pmem s) r1)(v \<mapsto> to_cow_page e)"
    "vmap (pmem s1) r2 = (vmap (pmem s) r2)(v \<mapsto> share_pte e)"
    by (rule share_step [OF Suc.prems(1) len Suc.prems(3) v e(1-3) max free sz ne])
  have vs1: "vs2_inv hs ps1 r1 r2 s1" using 1(4) by (simp add: shares_def)
  have own: "range_owned hs r1 s1 (Suc v) n" by (rule range_owned_share [OF Suc.prems(5) 1(4,5)])
  have U: "targets (vmap (pmem s1) r1) (Suc v) n = ?U" unfolding 1(5) by (rule targets_upd) simp
  have live: "heap_page hs q \<and> 1 \<le> rc s q" if "q \<in> ?U" for q
    using targets_live [OF Suc.prems(5), of q] that t by simp
  have ka: "ka_inv hs (us @ ps1) s" "ka_inv hs ps1 s1"
    using Suc.prems(1) vs1 1(1) by (simp_all add: vs2_inv_def vs_inv_def)
  have notus: "?U \<inter> set us = {}" using ka.live_not_free [OF ka(1)] live by auto
  have page: "unat (va + PGSIZE) = 4096 * Suc v" using add_page_unat [of va] v Suc.prems(3) by simp
  have "\<exists>us' ps' s'. ps1 = us' @ ps' \<and> length us' \<le> 2 * n \<and>
      ucopy_nocopy_loop r1 r2 start (va + PGSIZE) sz s1 = Inr (Inr (), s') \<and>
      shares hs r1 r2 us' ps' (targets (vmap (pmem s1) r1) (Suc v) n) s1 s' \<and>
      vmap (pmem s') r1 = cow_range (vmap (pmem s1) r1) (Suc v) n \<and>
      vmap (pmem s') r2 = share_range (vmap (pmem s1) r1) (vmap (pmem s1) r2) (Suc v) n"
  proof (rule Suc.IH [OF vs1 _ page _ own])
    show "2 * n \<le> length ps1" "Suc v + n \<le> 2 ^ 26" "unat end_va = 4096 * (Suc v + n)"
      using Suc.prems(2,4,8) 1(1,2) by simp_all
    show "rc s1 q < 2 ^ 31 - 1" if "q \<in> targets (vmap (pmem s1) r1) (Suc v) n" for q
      using that U 1(4) live [of q] Suc.prems(6) [of q] e(5) t notus by (auto simp: shares_def)
    show "vmap (pmem s1) r2 w = None" if "Suc v \<le> w" "w < Suc v + n" for w
      using Suc.prems(7) [of w] that 1(6) by simp
  qed
  then obtain us' ps' s' where 2: "ps1 = us' @ ps'" "length us' \<le> 2 * n"
    "ucopy_nocopy_loop r1 r2 start (va + PGSIZE) sz s1 = Inr (Inr (), s')"
    "shares hs r1 r2 us' ps' ?U s1 s'"
    "vmap (pmem s') r1 = cow_range (vmap (pmem s1) r1) (Suc v) n"
    "vmap (pmem s') r2 = share_range (vmap (pmem s1) r1) (vmap (pmem s1) r2) (Suc v) n"
    unfolding U by blast
  have "1 \<le> rc s1 (as_pagetable e)" using 1(4) e(2,3) by (simp add: shares_def)
  then have "as_pagetable e \<notin> set us'" using ka.live_not_free [OF ka(2)] 2(1) by auto
  then have "shares hs r1 r2 (us @ us') ps' ({as_pagetable e} \<union> ?U) s s'"
    using 1(4) 2(1,4) e(5) notus by (intro shares_trans) auto
  then show ?case
    using 1 2 t cow_range_Suc [of "vmap (pmem s) r1" v e n, OF e(1)]
      share_range_Suc [of "vmap (pmem s) r1" v e _ "vmap (pmem s) r2" n, OF e(1)]
    by (intro exI [of _ "us @ us'"] exI [of _ ps'] exI [of _ s']) simp
qed

end
