(* ===== verification/Rx_Memory.thy ===== *)
theory Rx_Memory
  imports Rx_Cow
begin

text \<open>
  The growth of user memory (\<^verbatim>\<open>unew\<close>, \<^verbatim>\<open>ualloc\<close>), the null-terminated copy \<^verbatim>\<open>copy_in_str\<close>, and
  the properties of the memory subsystem, stated over the operations of the page table and
  the allocator with a witness for each.
\<close>

section \<open>A new page table\<close>

lemma unew_empty:
  assumes inv: "ka_inv hs (z # ps) s"
  obtains s1 where "unew s = Inr (z, s1)" "vs_inv hs ps z s1" "vmap (pmem s1) z = (\<lambda>_. None)"
    "pt_pages (pmem s1) z = {z}"
    "\<And>q. ram_page q \<Longrightarrow> rc s1 q = (if q = z then 1 else rc s q)"
    "\<And>y. ram_page y \<Longrightarrow> y \<noteq> z \<Longrightarrow>
       load_bytes (pmem s1) (unat y) 4096 = load_bytes (pmem s) (unat y) 4096"
proof -
  obtain s1 where s1: "new_zeroed s = Inr (z, s1)" "ka_inv hs ps s1" "heap_page hs z"
    "ka_count s1 = (ka_count s)(pidx z := 1)" "pmem s1 = fill_zero (pmem s) (unat z) 4096"
    using new_zeroed_cons [OF inv] by metis
  have zero: "load64 (pmem s1) (unat z + 8 * j) = 0" if "j < 512" for j
    unfolding s1(5) using that by (intro load64_fill_zero_inside) auto
  have node: "node (pmem s1) z p = (if p = [] then Some z else None)" if "path_ok p" for p
  proof (cases p)
    case (Cons i r)
    then have "i < 512" using that by (simp add: path_ok_def)
    with Cons zero [of i] show ?thesis by (simp add: is_table_def)
  qed simp
  have "x = z" if "x \<in> pt_pages (pmem s1) z" for x
    using that node by (auto simp: pt_pages_def split: if_splits)
  then have pages: "pt_pages (pmem s1) z = {z}" by auto
  have "wf_pt (pmem s1) z"
    unfolding wf_pt_def pages using s1(3) zero by (auto simp: node split: if_splits)
  moreover have "z \<notin> set ps" using ka.free_distinct [OF inv] by simp
  ultimately have "vs_inv hs ps z s1" using s1(2) pages by (simp add: vs_inv_def)
  moreover have "vpath v \<noteq> []" for v by (simp add: vpath_def)
  then have "vmap (pmem s1) z = (\<lambda>_. None)"
    by (simp add: fun_eq_iff vmap_def pte_slot_def node)
  moreover have "rc s1 q = (if q = z then 1 else rc s q)" if "ram_page q" for q
    using pidx_inj [OF that, of z] s1(3) by (simp add: rc_def s1(4))
  moreover have "load_bytes (pmem s1) (unat y) 4096 = load_bytes (pmem s) (unat y) 4096"
    if "ram_page y" "y \<noteq> z" for y
    unfolding s1(5) using ram_page_disjoint [OF that(1) _ that(2)] s1(3)
    by (intro load_bytes_fill_zero_disjoint) simp
  ultimately show thesis using that s1(1) pages by (simp add: unew_def)
qed

section \<open>Growing user memory\<close>

definition RWXU :: usize where "RWXU = PTE_W OR PTE_R OR PTE_X OR PTE_U"

lemma RWXU_flags: "as_flags RWXU = RWXU" "is_user RWXU" "is_write RWXU" "is_leaf RWXU"
  by (simp_all add: RWXU_def pte_flag_defs as_flags_def pte_bits is_leaf_bits)

definition zero_filled :: "kmem \<Rightarrow> usize \<Rightarrow> bool" where
  "zero_filled s q \<longleftrightarrow> (\<forall>i<4096. pmem s (unat q + i) = 0)"

lemma zero_filled_bytes:
  "load_bytes (pmem s') (unat q) 4096 = load_bytes (pmem s) (unat q) 4096 \<Longrightarrow>
   zero_filled s q \<Longrightarrow> zero_filled s' q"
  unfolding zero_filled_def by (metis nth_load_bytes)

text \<open>One round of \<open>ualloc_loop\<close>: a fresh zeroed page is mapped at the next virtual page.\<close>

lemma alloc_map:
  assumes vs: "vs_inv hs (q # ps) root s" and len: "2 \<le> length ps"
    and va: "unat va = 4096 * v" "v < 2 ^ 26" and free: "vmap (pmem s) root v = None"
  obtains us ps' s1 s' where "ps = us @ ps'" "length us \<le> 2" "new_zeroed s = Inr (q, s1)"
    "map_pages root va q PGSIZE perm (zero_page q s1) = Inr (True, s')"
    "vs_inv hs ps' root s'"
    "vmap (pmem s') root = (vmap (pmem s) root)(v \<mapsto> write_perm q perm)"
    "pt_pages (pmem s') root = pt_pages (pmem s) root \<union> set us"
    "heap_page hs q" "q \<notin> pt_pages (pmem s') root" "zero_filled s' q"
    "\<And>p. ram_page p \<Longrightarrow> rc s' p = (if p \<in> insert q (set us) then 1 else rc s p)"
    "\<And>y. ram_page y \<Longrightarrow> y \<notin> pt_pages (pmem s') root \<Longrightarrow> y \<noteq> q \<Longrightarrow>
       load_bytes (pmem s') (unat y) 4096 = load_bytes (pmem s) (unat y) 4096"
proof -
  have ka: "ka_inv hs (q # ps) s" and wf: "wf_pt (pmem s) root"
    and disj: "pt_pages (pmem s) root \<inter> set (q # ps) = {}" using vs by (simp_all add: vs_inv_def)
  obtain s1 where s1: "new_zeroed s = Inr (q, s1)" "ka_inv hs ps s1" "heap_page hs q"
    "ka_count s1 = (ka_count s)(pidx q := 1)" "pmem s1 = fill_zero (pmem s) (unat q) 4096"
    using new_zeroed_cons [OF ka] by metis
  have zp: "zero_page q s1 = s1"
    unfolding zero_page_def s1(5) by (simp add: fill_zero_def fun_eq_iff s1(5) [unfolded fill_zero_def])
  have other: "load_bytes (pmem s1) (unat y) 4096 = load_bytes (pmem s) (unat y) 4096"
    if "ram_page y" "y \<noteq> q" for y
    unfolding s1(5) using ram_page_disjoint [OF that(1) _ that(2)] s1(3)
    by (intro load_bytes_fill_zero_disjoint) simp
  have same: "pt_same (pmem s) (pmem s1) root"
    by (rule pt_sameI, rule other) (use wf_pt_ram [OF wf] disj in auto)
  have vs1: "vs_inv hs ps root s1"
    using s1(2) pt_same_wf [OF same wf] pt_same_pages [OF same] disj by (auto simp: vs_inv_def)
  have qr: "ram_page q" using s1(3) by simp
  have free1: "vmap (pmem s1) root v = None" using free pt_same_vmap [OF same] by simp
  obtain us ps' s' where m: "ps = us @ ps'" "length us \<le> 2"
    "map_pages root va q PGSIZE perm s1 = Inr (True, s')" "pt_ext hs root us ps' s1 s'"
    "vmap (pmem s') root = (vmap (pmem s1) root)(v \<mapsto> write_perm q perm)"
    by (rule map_one_page [OF vs1 len va qr free1])
  have qn: "q \<notin> set ps" using ka.free_distinct [OF ka] by simp
  then have qt: "q \<notin> pt_pages (pmem s') root"
    using m(1,4) disj pt_same_pages [OF same] by (auto simp: pt_ext_def)
  have "zero_filled s1 q" unfolding zero_filled_def s1(5) by (simp add: fill_zero_def)
  then have "zero_filled s' q"
    by (rule zero_filled_bytes [rotated]) (use m(4) qr qt in \<open>simp add: pt_ext_def\<close>)
  moreover have "rc s' p = (if p \<in> insert q (set us) then 1 else rc s p)" if "ram_page p" for p
  proof -
    have "rc s1 p = (if p = q then 1 else rc s p)"
      using pidx_inj [OF that qr] by (simp add: rc_def s1(4))
    then show ?thesis using m(4) that by (auto simp: pt_ext_def)
  qed
  moreover have "load_bytes (pmem s') (unat y) 4096 = load_bytes (pmem s) (unat y) 4096"
    if "ram_page y" "y \<notin> pt_pages (pmem s') root" "y \<noteq> q" for y
    using m(4) other [of y] that by (simp add: pt_ext_def)
  moreover have "vmap (pmem s') root = (vmap (pmem s) root)(v \<mapsto> write_perm q perm)"
    using m(5) pt_same_vmap [OF same] by simp
  moreover have "pt_pages (pmem s') root = pt_pages (pmem s) root \<union> set us"
    using m(4) pt_same_pages [OF same] by (simp add: pt_ext_def)
  ultimately show thesis
    using that m(1,2,3) s1(1,3) qt pt_ext_inv [OF m(4)] zp by simp
qed

definition alloc_range ::
  "(nat \<Rightarrow> usize option) \<Rightarrow> nat \<Rightarrow> usize list \<Rightarrow> nat \<Rightarrow> usize option" where
  "alloc_range f v qs w =
     (if v \<le> w \<and> w < v + length qs then Some (write_perm (qs ! (w - v)) RWXU) else f w)"

lemma alloc_range_Cons:
  "alloc_range (f(v \<mapsto> write_perm q RWXU)) (Suc v) qs = alloc_range f v (q # qs)"
proof
  fix w
  show "alloc_range (f(v \<mapsto> write_perm q RWXU)) (Suc v) qs w = alloc_range f v (q # qs) w"
  proof (cases "w - v")
    case (Suc k)
    then have "w - Suc v = k" by simp
    with Suc show ?thesis by (auto simp: alloc_range_def)
  qed (auto simp: alloc_range_def)
qed

text \<open>What growing by fresh pages \<open>qs\<close> does to the state.\<close>

definition grown ::
  "usize \<Rightarrow> usize \<Rightarrow> nat \<Rightarrow> usize list \<Rightarrow> usize list \<Rightarrow> usize list \<Rightarrow> kmem \<Rightarrow> kmem \<Rightarrow> bool" where
  "grown hs root v qs ps ps' s s' \<longleftrightarrow>
     vs_inv hs ps' root s' \<and> set ps' \<subseteq> set ps \<and> distinct qs \<and> set qs \<subseteq> set ps \<and>
     vmap (pmem s') root = alloc_range (vmap (pmem s) root) v qs \<and>
     pt_pages (pmem s') root \<subseteq> pt_pages (pmem s) root \<union> set ps \<and>
     (\<forall>q\<in>set qs. rc s' q = 1 \<and> zero_filled s' q \<and> q \<notin> pt_pages (pmem s') root) \<and>
     (\<forall>p. ram_page p \<longrightarrow> p \<notin> set ps \<longrightarrow> rc s' p = rc s p) \<and>
     (\<forall>y. ram_page y \<longrightarrow> y \<notin> set ps \<longrightarrow> y \<notin> pt_pages (pmem s) root \<longrightarrow>
        load_bytes (pmem s') (unat y) 4096 = load_bytes (pmem s) (unat y) 4096)"

lemma grown_refl: "vs_inv hs ps root s \<Longrightarrow> grown hs root v [] ps ps s s"
  by (auto simp: grown_def alloc_range_def fun_eq_iff)

lemma grown_Cons:
  assumes vs: "vs_inv hs (q # us @ ps1) root s"
    and s1: "vs_inv hs ps1 root s1"
      "vmap (pmem s1) root = (vmap (pmem s) root)(v \<mapsto> write_perm q RWXU)"
      "pt_pages (pmem s1) root = pt_pages (pmem s) root \<union> set us"
      "q \<notin> pt_pages (pmem s1) root" "zero_filled s1 q"
      "\<And>p. ram_page p \<Longrightarrow> rc s1 p = (if p \<in> insert q (set us) then 1 else rc s p)"
      "\<And>y. ram_page y \<Longrightarrow> y \<notin> pt_pages (pmem s1) root \<Longrightarrow> y \<noteq> q \<Longrightarrow>
         load_bytes (pmem s1) (unat y) 4096 = load_bytes (pmem s) (unat y) 4096"
    and g: "grown hs root (Suc v) qs ps1 ps' s1 s'"
  shows "grown hs root v (q # qs) (q # us @ ps1) ps' s s'"
proof -
  have ka: "ka_inv hs (q # us @ ps1) s" using vs by (simp add: vs_inv_def)
  have d: "distinct (q # us @ ps1)" using ka.free_distinct [OF ka] .
  have qr: "ram_page q" using ka_inv_ram [OF ka] by simp
  have qn: "q \<notin> set ps1" "q \<notin> set qs" using d g by (auto simp: grown_def)
  have tree: "pt_pages (pmem s') root \<subseteq> pt_pages (pmem s1) root \<union> set ps1"
    using g by (simp add: grown_def)
  have q1: "rc s' q = 1"
    using g qr qn(1) s1(6) [OF qr] by (simp add: grown_def)
  have q2: "zero_filled s' q"
    by (rule zero_filled_bytes [OF _ s1(5)]) (use g qr qn(1) s1(4) in \<open>simp add: grown_def\<close>)
  have q3: "q \<notin> pt_pages (pmem s') root" using tree s1(4) qn(1) by auto
  show ?thesis
    unfolding grown_def
  proof (intro conjI ballI allI impI)
    show "vs_inv hs ps' root s'" "set ps' \<subseteq> set (q # us @ ps1)" "distinct (q # qs)"
      "set (q # qs) \<subseteq> set (q # us @ ps1)" using g qn(2) by (auto simp: grown_def)
    show "vmap (pmem s') root = alloc_range (vmap (pmem s) root) v (q # qs)"
      using g s1(2) alloc_range_Cons by (simp add: grown_def)
    show "pt_pages (pmem s') root \<subseteq> pt_pages (pmem s) root \<union> set (q # us @ ps1)"
      using tree s1(3) by auto
  next
    fix p assume p: "p \<in> set (q # qs)"
    show "rc s' p = 1" using p q1 g by (auto simp: grown_def)
    show "zero_filled s' p" using p q2 g by (auto simp: grown_def)
    show "p \<notin> pt_pages (pmem s') root" using p q3 g by (auto simp: grown_def)
  next
    fix p assume "ram_page p" "p \<notin> set (q # us @ ps1)"
    then show "rc s' p = rc s p" using g s1(6) [of p] by (auto simp: grown_def)
  next
    fix y assume "ram_page y" "y \<notin> set (q # us @ ps1)" "y \<notin> pt_pages (pmem s) root"
    then show "load_bytes (pmem s') (unat y) 4096 = load_bytes (pmem s) (unat y) 4096"
      using g s1(3) s1(7) [of y] by (auto simp: grown_def)
  qed
qed

lemma ualloc_loop_grown:
  assumes "vs_inv hs ps root s" "3 * n \<le> length ps" "unat cur = 4096 * v" "v + n \<le> 2 ^ 26"
    and "n = (unat new + 4095) div 4096 - v"
    and "\<And>w. v \<le> w \<Longrightarrow> w < v + n \<Longrightarrow> vmap (pmem s) root w = None"
  shows "\<exists>qs ps' s'. length qs = n \<and> ualloc_loop root old cur new s = Inr (Some new, s') \<and>
           grown hs root v qs ps ps' s s'"
  using assms
proof (induction n arbitrary: ps s cur v)
  case 0
  then have "unat new \<le> unat cur" by simp
  then have "\<not> cur < new" by (simp add: word_less_nat_alt)
  then show ?case using grown_refl [OF 0(1)] by (subst ualloc_loop.simps) auto
next
  case (Suc n)
  obtain q ps0 where ps: "ps = q # ps0" using Suc.prems(2) by (cases ps) auto
  have len: "2 \<le> length ps0" and v: "v < 2 ^ 26" using Suc.prems(2,4) ps by simp_all
  have free: "vmap (pmem s) root v = None" using Suc.prems(6) [of v] by simp
  have "v < (unat new + 4095) div 4096" using Suc.prems(5) by simp
  then have "unat cur < unat new" using Suc.prems(3) by (simp add: less_eq_div_iff_mult_less_eq
        flip: Suc_le_eq)
  then have lt: "cur < new" by (simp add: word_less_nat_alt)
  obtain us ps1 s0 s1 where m: "ps0 = us @ ps1" "length us \<le> 2" "new_zeroed s = Inr (q, s0)"
    "map_pages root cur q PGSIZE RWXU (zero_page q s0) = Inr (True, s1)"
    "vs_inv hs ps1 root s1"
    "vmap (pmem s1) root = (vmap (pmem s) root)(v \<mapsto> write_perm q RWXU)"
    "pt_pages (pmem s1) root = pt_pages (pmem s) root \<union> set us"
    "heap_page hs q" "q \<notin> pt_pages (pmem s1) root" "zero_filled s1 q"
    "\<And>p. ram_page p \<Longrightarrow> rc s1 p = (if p \<in> insert q (set us) then 1 else rc s p)"
    "\<And>y. ram_page y \<Longrightarrow> y \<notin> pt_pages (pmem s1) root \<Longrightarrow> y \<noteq> q \<Longrightarrow>
       load_bytes (pmem s1) (unat y) 4096 = load_bytes (pmem s) (unat y) 4096"
    by (rule alloc_map [OF Suc.prems(1) [unfolded ps] len Suc.prems(3) v free]) (rule that; assumption)
  have page: "checked_add cur PGSIZE = Some (cur + PGSIZE)" "unat (cur + PGSIZE) = 4096 * Suc v"
    using Suc.prems(3) v by (simp_all add: checked_add_def unat_word_ariths)
  have "\<exists>qs ps' s'. length qs = n \<and> ualloc_loop root old (cur + PGSIZE) new s1 = Inr (Some new, s') \<and>
      grown hs root (Suc v) qs ps1 ps' s1 s'"
  proof (rule Suc.IH [OF m(5) _ page(2)])
    show "3 * n \<le> length ps1" "Suc v + n \<le> 2 ^ 26" using Suc.prems(2,4) ps m(1,2) by simp_all
    show "n = (unat new + 4095) div 4096 - Suc v" using Suc.prems(5) by simp
    show "vmap (pmem s1) root w = None" if "Suc v \<le> w" "w < Suc v + n" for w
      using Suc.prems(6) [of w] that m(6) by simp
  qed
  then obtain qs ps' s' where g: "length qs = n"
    "ualloc_loop root old (cur + PGSIZE) new s1 = Inr (Some new, s')"
    "grown hs root (Suc v) qs ps1 ps' s1 s'" by blast
  have "grown hs root v (q # qs) ps ps' s s'"
    using grown_Cons [OF Suc.prems(1) [unfolded ps m(1)] m(5,6,7,9,10,11,12) g(3)] ps m(1) by simp
  moreover have "ualloc_loop root old cur new s = Inr (Some new, s')"
    using lt m(3,4) page(1) g(2) by (subst ualloc_loop.simps) (simp flip: RWXU_def)
  ultimately show ?case using g(1)
    by (intro exI [of _ "q # qs"] exI [of _ ps'] exI [of _ s']) simp
qed

lemma ualloc_grown:
  assumes vs: "vs_inv hs ps root s" and le: "old \<le> new" "unat new \<le> 2 ^ 38"
    and v: "v = (unat old + 4095) div 4096" and n: "n = (unat new + 4095) div 4096 - v"
    and len: "3 * n \<le> length ps"
    and free: "\<And>w. v \<le> w \<Longrightarrow> w < v + n \<Longrightarrow> vmap (pmem s) root w = None"
  shows "\<exists>qs ps' s'. length qs = n \<and> ualloc root old new s = Inr (Some new, s') \<and>
           grown hs root v qs ps ps' s s'"
proof -
  have ou: "unat old \<le> unat new" using le(1) by (simp add: word_le_nat_alt)
  obtain cur where cur: "pg_round_up old = Inr cur" using ou le(2) by (simp add: pg_round_up_eq)
  then have cu: "unat cur = 4096 * v" using unat_pg_round_up [OF cur] v by simp
  have "(unat old + 4095) div 4096 \<le> (unat new + 4095) div 4096" using ou by (intro div_le_mono) simp
  moreover have "(unat new + 4095) div 4096 \<le> (2 ^ 38 + 4095) div 4096"
    using le(2) by (intro div_le_mono) simp
  ultimately have "v + n \<le> 2 ^ 26" using v n by simp
  note bound = this
  have eq: "ualloc root old new s = ualloc_loop root cur cur new s"
    using le(1) cur by (simp add: ualloc_def leD)
  show ?thesis unfolding eq by (rule ualloc_loop_grown [OF vs len cu bound n free])
qed

section \<open>Strings from user space\<close>

lemma find_zero_Some:
  "find_zero xs = Some k \<longleftrightarrow> k < length xs \<and> xs ! k = 0 \<and> (\<forall>i<k. xs ! i \<noteq> 0)"
proof (induction xs arbitrary: k)
  case (Cons x xs)
  show ?case
  proof (cases k)
    case 0
    then show ?thesis by (cases "find_zero xs") auto
  next
    case (Suc j)
    then show ?thesis
      using Cons [of j] by (cases "x = 0") (auto simp: All_less_Suc2)
  qed
qed simp

lemma find_zero_None: "find_zero xs = None \<longleftrightarrow> (\<forall>i<length xs. xs ! i \<noteq> 0)"
proof (induction xs)
  case (Cons x xs)
  then show ?case by (cases "x = 0") (auto simp: All_less_Suc2)
qed simp

text \<open>The user memory from \<open>a\<close> on holds a string of length \<open>k\<close> and its terminator.\<close>

definition ustring :: "pmem \<Rightarrow> usize \<Rightarrow> nat \<Rightarrow> nat \<Rightarrow> bool" where
  "ustring m root a k \<longleftrightarrow>
     (\<forall>i\<le>k. uphys m root (a + i) \<noteq> None) \<and>
     m (the (uphys m root (a + k))) = 0 \<and> (\<forall>i<k. m (the (uphys m root (a + i))) \<noteq> 0)"

lemma page_bytes:
  assumes p: "uphys m root (4096 * v) = Some p" and "i < 4096 - off" "off < 4096"
  shows "load_bytes m (p + off) (4096 - off) ! i = m (the (uphys m root (4096 * v + off + i)))"
proof -
  have "off + i < 4096" using assms by linarith
  with uphys_page [of "off + i" m root v 0 p] p
  have "uphys m root (4096 * v + (off + i)) = Some (p + (off + i))" by simp
  with assms(2) show ?thesis by (simp add: add.assoc)
qed

lemma copy_in_str_loop_ok:
  assumes "wf_pt (pmem s) root" "unat va = 4096 * v" "off < 4096"
    and "uphys (pmem s) root (4096 * v) = Some p" "4096 * v + off + k < 2 ^ 38"
    and "ustring (pmem s) root (4096 * v + off) k" "k < length dst"
  shows "copy_in_str_loop root va (load_bytes (pmem s) (p + off) (4096 - off)) (4096 - off) dst s =
           Inr (uread (pmem s) root (4096 * v + off) (k + 1) @ drop (k + 1) dst)"
  using assms
proof (induction k arbitrary: va v off p dst rule: less_induct)
  case (less k)
  let ?src = "load_bytes (pmem s) (p + off) (4096 - off)"
  note bytes = page_bytes [OF less.prems(4) _ less.prems(3)]
  show ?case
  proof (cases "k < 4096 - off")
    case True
    then have "find_zero ?src = Some k"
      using less.prems(6) by (auto simp: find_zero_Some bytes ustring_def simp del: nth_load_bytes)
    moreover have "take (k + 1) ?src = uread (pmem s) root (4096 * v + off) (k + 1)"
      using True less.prems(3) uread_in_page [OF less.prems(4), of off "k + 1"]
      by (simp add: load_bytes_def take_map)
    ultimately show ?thesis using less.prems(7) by (subst copy_in_str_loop.simps) (simp add: Let_def)
  next
    case False
    define c where "c = 4096 - off"
    define j where "j = k - c"
    have c: "k = c + j" "0 < c" "off + c = 4096" "c < length dst"
      using False less.prems(3,7) by (simp_all add: c_def j_def)
    have next_a: "4096 * v + off + c = 4096 * Suc v" using c(3) by simp
    have shift: "4096 * v + off + (c + i) = 4096 * Suc v + 0 + i" for i using next_a by linarith
    have "?src ! i \<noteq> 0" if "i < 4096 - off" for i
    proof -
      have "i < k" using that c(1) by (simp add: c_def)
      then show ?thesis using less.prems(6) unfolding ustring_def bytes [OF that] by blast
    qed
    then have "find_zero ?src = None" by (simp add: find_zero_None del: nth_load_bytes)
    moreover have bound: "4096 * Suc v + 0 + j < 2 ^ 38" using less.prems(5) c(1) next_a by linarith
    then have v: "Suc v \<le> 2 ^ 26" by simp
    have page: "add_page va = Inr (va + PGSIZE)" "unat (va + PGSIZE) = 4096 * Suc v"
      using add_page_unat [of va] less.prems(2) bound by simp_all
    have us: "ustring (pmem s) root (4096 * Suc v + 0) j"
      using less.prems(6) unfolding ustring_def c(1)
      by (metis shift add_le_cancel_left add_less_cancel_left)
    then obtain p' where p': "uphys (pmem s) root (4096 * Suc v) = Some p'"
      by (fastforce simp: ustring_def)
    obtain pa where pa: "unat pa = p'" "pgt_translate_unwrap root (va + PGSIZE) s = Inr (pa, s)"
      using pgt_translate_unwrap_uphys(2) [OF less.prems(1) page(2) v p'] by blast
    have "copy_in_str_loop root (va + PGSIZE) (load_bytes (pmem s) (p' + 0) (4096 - 0)) (4096 - 0)
        (drop c dst) s =
        Inr (uread (pmem s) root (4096 * Suc v + 0) (j + 1) @ drop (j + 1) (drop c dst))"
      by (rule less.IH [OF _ less.prems(1) page(2) _ p' bound us]) (use c less.prems(7) in auto)
    moreover have "?src = uread (pmem s) root (4096 * v + off) c"
      using c(3) uread_in_page [OF less.prems(4), of off c] by (simp add: c_def)
    moreover have "uread (pmem s) root (4096 * v + off) (k + 1) =
        uread (pmem s) root (4096 * v + off) c @ uread (pmem s) root (4096 * Suc v + 0) (j + 1)"
    proof -
      have eq: "k + 1 = c + (j + 1)" "4096 * Suc v + 0 = 4096 * v + off + c"
        using c(1) next_a by simp_all
      show ?thesis unfolding eq by (rule uread_append)
    qed
    ultimately show ?thesis
      using page pa c by (subst copy_in_str_loop.simps) (simp add: Let_def c_def [symmetric] add.commute)
  qed
qed

lemma copy_in_str_ok:
  assumes wf: "wf_pt (pmem s) root" and bound: "unat src + k < 2 ^ 38"
    and us: "ustring (pmem s) root (unat src) k" and len: "k < length dst"
  shows "copy_in_str root dst src s =
           Inr (uread (pmem s) root (unat src) (k + 1) @ drop (k + 1) dst)"
proof -
  let ?v = "unat src div 4096" and ?o = "unat src mod 4096"
  have src: "4096 * ?v + ?o = unat src" by simp
  have o: "?o < 4096" by simp
  have "uphys (pmem s) root (4096 * ?v + ?o) \<noteq> None" using us src by (fastforce simp: ustring_def)
  then obtain p where p: "uphys (pmem s) root (4096 * ?v) = Some p"
    by (auto simp: uphys_def split: option.splits if_splits)
  have va: "unat (pg_round_down src) = 4096 * ?v" by simp
  have v: "?v \<le> 2 ^ 26" using bound by simp
  obtain pa where pa: "unat pa = p" "pgt_translate_unwrap root (pg_round_down src) s = Inr (pa, s)"
    using pgt_translate_unwrap_uphys(2) [OF wf va v p] by blast
  have off: "unat src - unat (pg_round_down src) = ?o" using src va by linarith
  have "copy_in_str root dst src s = copy_in_str_loop root (pg_round_down src)
      (load_bytes (pmem s) (p + ?o) (4096 - ?o)) (4096 - ?o) dst s"
    unfolding copy_in_str_def Let_def off pa(2) using pa(1) by simp
  then show ?thesis
    using copy_in_str_loop_ok [OF wf va o p, of k dst, unfolded src, OF bound us len] by simp
qed

text \<open>A buffer that is too short for the string makes the copy panic.\<close>

lemma copy_in_str_short:
  assumes wf: "wf_pt (pmem s) root" and bound: "unat src < 2 ^ 38"
    and p: "uphys (pmem s) root (unat src) \<noteq> None"
    and nz: "\<And>i. i < length dst \<Longrightarrow> pmem s (the (uphys (pmem s) root (unat src + i))) \<noteq> 0"
    and short: "unat src mod 4096 + length dst < 4096"
  shows "copy_in_str root dst src s = Inl OutOfBounds \<or>
         copy_in_str root dst src s = Inl LengthMismatch"
proof -
  let ?v = "unat src div 4096" and ?o = "unat src mod 4096"
  have src: "4096 * ?v + ?o = unat src" by simp
  have o: "?o < 4096" by simp
  obtain p where p: "uphys (pmem s) root (4096 * ?v) = Some p"
    using p src by (auto simp: uphys_def split: option.splits if_splits)
  have va: "unat (pg_round_down src) = 4096 * ?v" by simp
  have v: "?v \<le> 2 ^ 26" using bound by simp
  obtain pa where pa: "unat pa = p" "pgt_translate_unwrap root (pg_round_down src) s = Inr (pa, s)"
    using pgt_translate_unwrap_uphys(2) [OF wf va v p] by blast
  have off: "unat src - unat (pg_round_down src) = ?o" using src va by linarith
  let ?src = "load_bytes (pmem s) (p + ?o) (4096 - ?o)"
  have eq: "copy_in_str root dst src s =
      copy_in_str_loop root (pg_round_down src) ?src (4096 - ?o) dst s"
    unfolding copy_in_str_def Let_def off pa(2) using pa(1) by simp
  have nz': "?src ! i \<noteq> 0" if "i < length dst" for i
  proof -
    have "i < 4096 - ?o" using that short by linarith
    from page_bytes [OF p this o] nz [OF that] show ?thesis unfolding src by simp
  qed
  have "length dst < 4096 - ?o" using short by linarith
  moreover have "length dst \<le> k" if "find_zero ?src = Some k" for k
    using that nz' unfolding find_zero_Some by (meson not_le)
  ultimately show ?thesis
    unfolding eq by (subst (1 2) copy_in_str_loop.simps) (auto simp: Let_def split: option.splits)
qed

section \<open>A machine with a small heap\<close>

text \<open>The state the witnesses start from: the kernel ends sixteen pages below the top of RAM.\<close>

definition boot16 :: "kmem outcome" where
  "boot16 = ka_init 0x17FFF0000 (ka_new (\<lambda>_. 0))"

lemma boot16_inv:
  obtains s ps where "boot16 = Inr s" "ka_inv 0x17FFF0000 ps s" "length ps = 16"
    "\<And>p. rc s p = 0"
proof -
  have hs: "page_round_up 0x17FFF0000 = Inr 0x17FFF0000"
    by (simp add: pg_round_up_eq pg_round_down_def PGSIZE_def)
  obtain s ps where s: "boot16 = Inr s" "ka_inv 0x17FFF0000 ps s" "\<forall>p. rc s p = 0"
    using ka_init_inv [of "0x17FFF0000" "\<lambda>_. 0"] hs by (auto simp: boot16_def)
  have "set ps = (\<lambda>k. 0x17FFF0000 + of_nat k * 4096) ` {..<16}"
  proof (intro set_eqI iffI)
    fix p assume "p \<in> set ps"
    then have p: "ram_page p" "0x17FFF0000 \<le> unat p"
      using ka_inv_in [OF s(2)] by (auto simp: heap_page_def word_le_nat_alt)
    have "unat p = 0x80000000 + 4096 * pidx p" "pidx p < 1048576"
      using ram_page_unat [OF p(1)] pidx_less [OF p(1)] by auto
    moreover from this p(2) have "1048560 \<le> pidx p" by simp
    ultimately obtain k where k: "k < 16" "unat p = 0x17FFF0000 + 4096 * k"
      by (intro that [of "pidx p - 1048560"]) auto
    have "p = of_nat (unat p)" by simp
    also have "\<dots> = 0x17FFF0000 + of_nat k * 4096" unfolding k(2) by simp
    finally show "p \<in> (\<lambda>k. 0x17FFF0000 + of_nat k * 4096) ` {..<16}" using k(1) by blast
  next
    fix p :: usize assume "p \<in> (\<lambda>k. 0x17FFF0000 + of_nat k * 4096) ` {..<16}"
    then have "p \<in> (\<lambda>k. 0x17FFF0000 + of_nat k * 4096) ` set [0..<16]" by auto
    then have "heap_page 0x17FFF0000 p"
      by (auto simp: upt_rec heap_page_def ram_page_def word_le_nat_alt)
    then show "p \<in> set ps" using ka.free_iff [OF s(2), of p] s(3) by simp
  qed
  moreover have "card ((\<lambda>k. 0x17FFF0000 + of_nat k * 4096 :: usize) ` set [0..<16]) = 16"
    by (simp add: upt_rec)
  ultimately have "length ps = 16"
    using distinct_card [OF ka.free_distinct [OF s(2)]] by (simp add: lessThan_atLeast0)
  with s that show thesis by blast
qed

text \<open>An empty address space on that machine.\<close>

lemma boot_space:
  obtains s root s1 ps where "boot16 = Inr s" "unew s = Inr (root, s1)"
    "vs_inv 0x17FFF0000 ps root s1" "length ps = 15" "vmap (pmem s1) root = (\<lambda>_. None)"
proof -
  obtain s ps where s: "boot16 = Inr s" "ka_inv 0x17FFF0000 ps s" "length ps = 16"
    by (rule boot16_inv)
  then obtain z ps' where ps: "ps = z # ps'" by (cases ps) auto
  obtain s1 where "unew s = Inr (z, s1)" "vs_inv 0x17FFF0000 ps' z s1"
    "vmap (pmem s1) z = (\<lambda>_. None)"
    by (rule unew_empty [OF s(2) [unfolded ps]])
  with s ps that show thesis by auto
qed

text \<open>One zero-filled user page at virtual address 0.\<close>

lemma boot_page:
  obtains root s q ps where "vs_inv 0x17FFF0000 ps root s" "12 \<le> length ps"
    "vmap (pmem s) root = [0 \<mapsto> write_perm q RWXU]" "heap_page 0x17FFF0000 q" "rc s q = 1"
    "q \<notin> pt_pages (pmem s) root" "zero_filled s q"
proof -
  obtain s root s1 ps where b: "vs_inv 0x17FFF0000 ps root s1" "length ps = 15"
    "vmap (pmem s1) root = (\<lambda>_. None)" by (rule boot_space)
  then obtain q ps0 where ps: "ps = q # ps0" by (cases ps) auto
  have len: "2 \<le> length ps0" using b(2) ps by simp
  have z: "unat (0 :: usize) = 4096 * 0" "(0 :: nat) < 2 ^ 26" "vmap (pmem s1) root 0 = None"
    using b(3) by simp_all
  obtain us ps' s0 s' where m: "ps0 = us @ ps'" "length us \<le> 2" "new_zeroed s1 = Inr (q, s0)"
    "map_pages root 0 q PGSIZE RWXU (zero_page q s0) = Inr (True, s')" "vs_inv 0x17FFF0000 ps' root s'"
    "vmap (pmem s') root = (vmap (pmem s1) root)(0 \<mapsto> write_perm q RWXU)"
    "pt_pages (pmem s') root = pt_pages (pmem s1) root \<union> set us"
    "heap_page 0x17FFF0000 q" "q \<notin> pt_pages (pmem s') root" "zero_filled s' q"
    "\<And>p. ram_page p \<Longrightarrow> rc s' p = (if p \<in> insert q (set us) then 1 else rc s1 p)"
    "\<And>y. ram_page y \<Longrightarrow> y \<notin> pt_pages (pmem s') root \<Longrightarrow> y \<noteq> q \<Longrightarrow>
       load_bytes (pmem s') (unat y) 4096 = load_bytes (pmem s1) (unat y) 4096"
    by (rule alloc_map [OF b(1) [unfolded ps] len z]) (rule that; assumption)
  have "vmap (pmem s') root = [0 \<mapsto> write_perm q RWXU]" using m(6) b(3) by simp
  moreover have "rc s' q = 1" using m(11) [of q] m(8) by simp
  ultimately show thesis using that [OF m(5)] m(1,2,8,9,10) b(2) ps by simp
qed

lemma RWXU_page:
  assumes "heap_page hs q"
  shows "as_pagetable (write_perm q RWXU) = q" "is_user (write_perm q RWXU)"
    "is_valid (write_perm q RWXU)"
  using as_pagetable_write_perm [OF ram_page_aligned RWXU_flags(1)] assms RWXU_flags by auto

section \<open>Properties\<close>

text \<open>C14. \<^verbatim>\<open>PageTable::map\<close> implements the update of the address space: on a well-formed table with
  enough free pages, mapping an unmapped range of virtual pages succeeds, makes each page of the
  range point to its physical page with the given permissions, and leaves every other mapping,
  every page outside the table and the invariant of table and allocator as they were.\<close>

theorem map_pages_refines:
  assumes "vs_inv hs ps root s" "unat va + unat sz \<le> 2 ^ 38"
    and "n = (unat va + unat sz + 4095) div 4096 - unat va div 4096" "2 * n \<le> length ps"
    and "unat pa + 4096 * n < 2 ^ 64"
    and "\<forall>w. unat va div 4096 \<le> w \<and> w < unat va div 4096 + n \<longrightarrow> vmap (pmem s) root w = None"
  shows "\<exists>ps' s'. map_pages root va pa sz perm s = Inr (True, s') \<and> vs_inv hs ps' root s' \<and>
           vmap (pmem s') root = map_range (vmap (pmem s) root) (unat va div 4096) n pa perm \<and>
           (\<forall>y. ram_page y \<longrightarrow> y \<notin> pt_pages (pmem s') root \<longrightarrow>
              load_bytes (pmem s') (unat y) 4096 = load_bytes (pmem s) (unat y) 4096)"
  using map_pages_range [OF assms(1-5), of perm] assms(6) unfolding pt_ext_def by blast

theorem map_pages_refines_witness:
  "\<exists>root s1 s'. map_pages root 0x1000 0x80000000 0x2000 PTE_R s1 = Inr (True, s') \<and>
     vmap (pmem s') root 2 = Some (write_perm 0x80001000 PTE_R)"
proof -
  obtain s root s1 ps where b: "vs_inv 0x17FFF0000 ps root s1" "length ps = 15"
    "vmap (pmem s1) root = (\<lambda>_. None)" by (rule boot_space)
  have "\<exists>ps' s'. map_pages root 0x1000 0x80000000 0x2000 PTE_R s1 = Inr (True, s') \<and>
      vs_inv 0x17FFF0000 ps' root s' \<and>
      vmap (pmem s') root = map_range (vmap (pmem s1) root) (unat (0x1000 :: usize) div 4096) 2 0x80000000 PTE_R \<and>
      (\<forall>y. ram_page y \<longrightarrow> y \<notin> pt_pages (pmem s') root \<longrightarrow>
         load_bytes (pmem s') (unat y) 4096 = load_bytes (pmem s1) (unat y) 4096)"
    by (rule map_pages_refines [OF b(1)]) (simp_all add: b(2,3))
  moreover have "map_range f (unat (0x1000 :: usize) div 4096) 2 0x80000000 PTE_R 2 =
      Some (write_perm 0x80001000 PTE_R)" for f
    by (simp add: map_range_def PGSIZE_def)
  ultimately show ?thesis by metis
qed

text \<open>Mapping over a virtual page that is already mapped never replaces the mapping: \<^verbatim>\<open>map\<close>
  panics with "remap".\<close>

lemma map_pages_no_remap:
  assumes "vs_inv hs ps root s" "2 \<le> length ps" "unat va + unat sz \<le> 2 ^ 38" "0 < sz"
    and "vmap (pmem s) root (unat va div 4096) \<noteq> None"
  shows "map_pages root va pa sz perm s = Inl Remap"
proof -
  obtain e where e: "vmap (pmem s) root (unat va div 4096) = Some e" using assms(5) by blast
  have pos: "0 < unat sz" using assms(4) by (simp add: word_less_nat_alt)
  have ck: "add_ck va sz = Inr (va + sz)" and eu: "unat (va + sz) = unat va + unat sz"
    using assms(3) by (simp_all add: add_ck_def unat_word_ariths)
  obtain lst where lst: "pg_round_up (va + sz) = Inr lst" using assms(3) eu by (simp add: pg_round_up_eq)
  have "unat va div 4096 * 4096 < unat lst"
    using unat_pg_round_up [OF lst] eu pos by simp
  then have "unat (pg_round_down va) \<noteq> unat lst" by simp
  then have ne: "pg_round_down va \<noteq> lst" by blast
  have "unat va div 4096 < 2 ^ 26" using assms(3) pos by simp
  from map_loop_remap [OF assms(1,2) _ this e ne] show ?thesis by (simp add: map_pages_def ck lst)
qed

text \<open>C15. \<^verbatim>\<open>pgt_translate\<close> computes the address space: it changes nothing and returns the physical
  page of a virtual address exactly when the page is mapped with the user bit.\<close>

theorem pgt_translate_computes_vmap:
  assumes "wf_pt (pmem s) root" "va \<le> MAXVA"
  shows "pgt_translate root va s =
    Inr (case vmap (pmem s) root (unat va div 4096) of
           Some e \<Rightarrow> if is_user e then Some (as_pagetable e) else None
         | None \<Rightarrow> None, s)"
  by (rule pgt_translate_vmap [OF assms])

theorem pgt_translate_computes_vmap_witness:
  "\<exists>root s q. heap_page 0x17FFF0000 q \<and> pgt_translate root 0x123 s = Inr (Some q, s)"
proof -
  obtain root s q ps where b: "vs_inv 0x17FFF0000 ps root s"
    "vmap (pmem s) root = [0 \<mapsto> write_perm q RWXU]" "heap_page 0x17FFF0000 q" by (rule boot_page)
  have "wf_pt (pmem s) root" "(0x123 :: usize) \<le> MAXVA"
    using b(1) by (simp_all add: vs_inv_def word_le_nat_alt)
  from pgt_translate_computes_vmap [OF this] b(2) RWXU_page [OF b(3)]
  have "pgt_translate root 0x123 s = Inr (Some q, s)" by simp
  with b(3) show ?thesis by blast
qed

end
