(* ===== verification/Rx_Memory_Props.thy ===== *)
theory Rx_Memory_Props
  imports Rx_Memory
begin

text \<open>
  Further properties of user memory: unmapping, growth, the copies between kernel and user
  space, and copy on write. The witnesses run on the small machine of the previous theory.
\<close>

section \<open>Facts about the witness page\<close>

lemma page_owned:
  assumes "vmap (pmem s) root = [0 \<mapsto> write_perm q RWXU]" "heap_page hs q" "rc s q = 1"
    "q \<notin> pt_pages (pmem s) root"
  shows "range_owned hs root s 0 1" "targets (vmap (pmem s) root) 0 1 = {q}"
  using assms RWXU_page [OF assms(2)] by (auto simp: range_owned_def targets_def)

lemma page_uphys:
  assumes "vmap (pmem s) root = [0 \<mapsto> write_perm q RWXU]" "heap_page hs q"
  shows "uphys (pmem s) root a = (if a < 4096 then Some (unat q + a) else None)"
  using assms RWXU_page [OF assms(2)] by (auto simp: uphys_def div_eq_0_iff)

lemma page_uwritable:
  assumes "vmap (pmem s) root = [0 \<mapsto> write_perm q RWXU]" "heap_page hs q"
    "q \<notin> pt_pages (pmem s) root" "a + n \<le> 4096"
  shows "uwritable (pmem s) root a n"
  using assms RWXU_page [OF assms(2)]
  by (auto simp: uwritable_def page_uphys [OF assms(1,2)] intro!: inj_onI)

section \<open>Unmapping\<close>

text \<open>C16. \<^verbatim>\<open>uunmap\<close> with \<^verbatim>\<open>free\<close> removes exactly the range from the address space and drops exactly one
  reference of each page that was mapped there; pages whose last reference went are free
  again, all other pages and mappings are as before.\<close>

theorem uunmap_refines:
  assumes "vs_inv hs ps root s" "is_page_aligned va" "v = unat va div 4096"
    and "v + unat npages \<le> 2 ^ 26" "range_owned hs root s v (unat npages)"
  shows "\<exists>ps' s'. uunmap root va npages True s = Inr s' \<and> vs_inv hs ps' root s' \<and>
           vmap (pmem s') root = unmap_range (vmap (pmem s) root) v (unat npages) \<and>
           (\<forall>q. ram_page q \<longrightarrow> rc s' q =
              (if q \<in> targets (vmap (pmem s) root) v (unat npages) then rc s q - 1 else rc s q)) \<and>
           (\<forall>q. q \<in> set ps' \<longleftrightarrow> heap_page hs q \<and> rc s' q = 0) \<and>
           (\<forall>y. ram_page y \<longrightarrow> y \<notin> pt_pages (pmem s) root \<longrightarrow>
              y \<notin> targets (vmap (pmem s) root) v (unat npages) \<longrightarrow>
              load_bytes (pmem s') (unat y) 4096 = load_bytes (pmem s) (unat y) 4096)"
proof -
  have va: "unat va = 4096 * v" using assms(2,3) by (auto simp: is_page_aligned_unat)
  from uunmap_range [OF assms(1) va assms(4,5)] obtain ps' s' where
    u: "uunmap_loop (unat npages) root va True s = Inr s'" "vs_inv hs ps' root s'"
    "vmap (pmem s') root = unmap_range (vmap (pmem s) root) v (unat npages)"
    "\<forall>q. ram_page q \<longrightarrow> rc s' q =
       (if q \<in> targets (vmap (pmem s) root) v (unat npages) then rc s q - 1 else rc s q)"
    "\<forall>y. ram_page y \<longrightarrow> y \<notin> pt_pages (pmem s) root \<longrightarrow>
       y \<notin> targets (vmap (pmem s) root) v (unat npages) \<longrightarrow>
       load_bytes (pmem s') (unat y) 4096 = load_bytes (pmem s) (unat y) 4096" by blast
  have "\<forall>q. q \<in> set ps' \<longleftrightarrow> heap_page hs q \<and> rc s' q = 0"
    using u(2) ka.free_iff by (auto simp: vs_inv_def)
  moreover have "uunmap root va npages True s = Inr s'" using u(1) assms(2) by (simp add: uunmap_def)
  ultimately show ?thesis using u(2-5) by blast
qed

theorem uunmap_refines_witness:
  "\<exists>root s s' q. rc s q = 1 \<and> uunmap root 0 1 True s = Inr s' \<and> rc s' q = 0 \<and>
     vmap (pmem s) root 0 \<noteq> None \<and> vmap (pmem s') root 0 = None"
proof -
  obtain root s q ps where b: "vs_inv 0x17FFF0000 ps root s"
    "vmap (pmem s) root = [0 \<mapsto> write_perm q RWXU]" "heap_page 0x17FFF0000 q" "rc s q = 1"
    "q \<notin> pt_pages (pmem s) root" by (rule boot_page)
  note own = page_owned [OF b(2-5)]
  have "is_page_aligned 0" by (simp add: is_page_aligned_unat)
  from uunmap_refines [OF b(1) this refl, of 1] own obtain s' where
    "uunmap root 0 1 True s = Inr s'" "rc s' q = 0"
    "vmap (pmem s') root = unmap_range (vmap (pmem s) root) 0 1"
    using b(3,4) by auto
  moreover have "vmap (pmem s') root 0 = None" using calculation(3) by (simp add: unmap_range_def)
  moreover have "vmap (pmem s) root 0 \<noteq> None" using b(2) by simp
  ultimately show ?thesis using b(4) by blast
qed

text \<open>\<^verbatim>\<open>uunmap\<close> without \<^verbatim>\<open>free\<close> only checks its range: the whole state, the mapping included, is
  what it was. A page table that goes through \<^verbatim>\<open>proc_free_pagetable\<close> keeps its trampoline and
  trapframe entries.\<close>

lemma uunmap_no_free_keeps_mapping:
  assumes "wf_pt (pmem s) root" "is_page_aligned va" "v = unat va div 4096"
    and "v + unat npages \<le> 2 ^ 26"
    and "\<forall>w. v \<le> w \<and> w < v + unat npages \<longrightarrow> vmap (pmem s) root w \<noteq> None"
  shows "uunmap root va npages False s = Inr s"
proof -
  have va: "unat va = 4096 * v" using assms(2,3) by (auto simp: is_page_aligned_unat)
  have "uunmap_loop (unat npages) root va False s = Inr s"
    by (rule uunmap_keep [OF assms(1) va assms(4)]) (use assms(5) in blast)
  with assms(2) show ?thesis by (simp add: uunmap_def)
qed

section \<open>Growing\<close>

text \<open>C17. \<^verbatim>\<open>ualloc\<close> grows a user address space by zero-filled pages nobody else has: every page of
  the new range is mapped user-accessible to a page of its own that was free and now has one
  reference, the old mappings stay, and the new size is returned.\<close>

theorem ualloc_grows:
  assumes "vs_inv hs ps root s" "old \<le> new" "unat new \<le> 2 ^ 38"
    and "v = (unat old + 4095) div 4096" "n = (unat new + 4095) div 4096 - v"
    and "3 * n \<le> length ps"
    and "\<forall>w. v \<le> w \<and> w < v + n \<longrightarrow> vmap (pmem s) root w = None"
  shows "\<exists>qs ps' s'. ualloc root old new s = Inr (Some new, s') \<and> vs_inv hs ps' root s' \<and>
           length qs = n \<and> distinct qs \<and>
           vmap (pmem s') root = alloc_range (vmap (pmem s) root) v qs \<and>
           (\<forall>q\<in>set qs. heap_page hs q \<and> rc s q = 0 \<and> rc s' q = 1 \<and> zero_filled s' q)"
proof -
  from ualloc_grown [OF assms(1-6)] assms(7) obtain qs ps' s' where
    g: "length qs = n" "ualloc root old new s = Inr (Some new, s')" "grown hs root v qs ps ps' s s'"
    by blast
  have ka: "ka_inv hs ps s" using assms(1) by (simp add: vs_inv_def)
  have "\<forall>q\<in>set qs. heap_page hs q \<and> rc s q = 0"
    using g(3) ka_inv_in [OF ka] by (auto simp: grown_def)
  with g show ?thesis unfolding grown_def by blast
qed

theorem ualloc_grows_witness:
  "\<exists>root s s'. ualloc root 0 0x1001 s = Inr (Some 0x1001, s') \<and>
     vmap (pmem s) root 1 = None \<and> vmap (pmem s') root 1 \<noteq> None"
proof -
  obtain s0 root s ps where b: "vs_inv 0x17FFF0000 ps root s" "length ps = 15"
    "vmap (pmem s) root = (\<lambda>_. None)" by (rule boot_space)
  have "\<exists>qs ps' s'. ualloc root 0 0x1001 s = Inr (Some 0x1001, s') \<and>
      vs_inv 0x17FFF0000 ps' root s' \<and> length qs = 2 \<and> distinct qs \<and>
      vmap (pmem s') root = alloc_range (vmap (pmem s) root) 0 qs \<and>
      (\<forall>q\<in>set qs. heap_page 0x17FFF0000 q \<and> rc s q = 0 \<and> rc s' q = 1 \<and> zero_filled s' q)"
    by (rule ualloc_grows [OF b(1)]) (simp_all add: b(2,3))
  then show ?thesis using b(3) by (fastforce simp: alloc_range_def)
qed

section \<open>Copies between kernel and user space\<close>

text \<open>C18. \<^verbatim>\<open>copy_in\<close> reads the user's virtual memory: over any mapped range, page boundaries
  included, it returns the bytes at the physical addresses the page table gives.\<close>

theorem copy_in_reads_user_memory:
  assumes "wf_pt (pmem s) root" "unat src + n \<le> 2 ^ 38" "0 < n"
    and "\<forall>i<n. uphys (pmem s) root (unat src + i) \<noteq> None"
  shows "copy_in root n src s = Inr (uread (pmem s) root (unat src) n)"
  by (rule copy_in_uread [OF assms(1,2) _ assms(3)]) (use assms(4) in blast)

theorem copy_in_reads_user_memory_witness:
  "\<exists>root s. copy_in root 3 0xFF0 s = Inr [0, 0, 0]"
proof -
  obtain root s q ps where b: "vs_inv 0x17FFF0000 ps root s"
    "vmap (pmem s) root = [0 \<mapsto> write_perm q RWXU]" "heap_page 0x17FFF0000 q" "zero_filled s q"
    by (rule boot_page)
  note ph = page_uphys [OF b(2,3)]
  have "copy_in root 3 0xFF0 s = Inr (uread (pmem s) root (unat (0xFF0 :: usize)) 3)"
    by (rule copy_in_reads_user_memory) (use b(1) ph in \<open>simp_all add: vs_inv_def\<close>)
  moreover have "uread (pmem s) root 0xFF0 3 = [0, 0, 0]"
    using b(4) by (simp add: uread_def ph zero_filled_def upt_rec)
  ultimately show ?thesis by auto
qed

text \<open>C19. \<^verbatim>\<open>copy_out\<close> writes the user's virtual memory: the bytes of the range become the source's,
  no other byte of physical memory changes, the address space is kept, and a following
  \<^verbatim>\<open>copy_in\<close> of the range returns what was written.\<close>

theorem copy_out_writes_user_memory:
  assumes "wf_pt (pmem s) root" "unat dst + length src \<le> 2 ^ 38" "src \<noteq> []"
    and "uwritable (pmem s) root (unat dst) (length src)"
  shows "\<exists>s'. copy_out root dst src s = Inr s' \<and> uwritten (pmem s) (pmem s') root (unat dst) src \<and>
           vmap (pmem s') root = vmap (pmem s) root \<and> copy_in root (length src) dst s' = Inr src"
proof -
  obtain m' where m: "copy_out root dst src s = Inr (s\<lparr>pmem := m'\<rparr>)"
    "uwritten (pmem s) m' root (unat dst) src" "pt_same (pmem s) m' root"
    by (rule copy_out_written [OF assms(1,2,4,3)])
  let ?s = "s\<lparr>pmem := m'\<rparr>"
  have "copy_in root (length src) dst ?s = Inr (uread (pmem ?s) root (unat dst) (length src))"
  proof (rule copy_in_uread)
    show "wf_pt (pmem ?s) root" using pt_same_wf [OF m(3) assms(1)] by simp
    show "uphys (pmem ?s) root (unat dst + i) \<noteq> None" if "i < length src" for i
      using uwritable_uphys [OF assms(4) that] uphys_same [OF m(3)] by simp
  qed (use assms in auto)
  with m pt_same_vmap [OF m(3)] uread_written [OF m(2,3)] show ?thesis by auto
qed

theorem copy_out_writes_user_memory_witness:
  "\<exists>root s s'. copy_out root 0x10 [1, 2, 3] s = Inr s' \<and> copy_in root 3 0x10 s' = Inr [1, 2, 3]"
proof -
  obtain root s q ps where b: "vs_inv 0x17FFF0000 ps root s"
    "vmap (pmem s) root = [0 \<mapsto> write_perm q RWXU]" "heap_page 0x17FFF0000 q" "rc s q = 1"
    "q \<notin> pt_pages (pmem s) root" by (rule boot_page)
  have "\<exists>s'. copy_out root 0x10 [1, 2, 3] s = Inr s' \<and>
      uwritten (pmem s) (pmem s') root (unat (0x10 :: usize)) [1, 2, 3] \<and>
      vmap (pmem s') root = vmap (pmem s) root \<and>
      copy_in root (length [1 :: u8, 2, 3]) 0x10 s' = Inr [1, 2, 3]"
    by (rule copy_out_writes_user_memory)
      (use b(1) page_uwritable [OF b(2,3,5)] in \<open>simp_all add: vs_inv_def\<close>)
  then show ?thesis by (auto simp: numeral_3_eq_3)
qed

text \<open>A user pointer that is not mapped, or lies above the address space, makes the kernel
  panic in \<^verbatim>\<open>copy_in\<close> and \<^verbatim>\<open>copy_out\<close>: the translation is unwrapped without a check.\<close>

lemma copy_unmapped_panics:
  assumes "wf_pt (pmem s) root"
    and "pg_round_down a > MAXVA \<or> vmap (pmem s) root (unat a div 4096) = None"
  shows "copy_in root n a s = Inl UnwrapNone \<and> copy_out root a bs s = Inl UnwrapNone"
proof -
  have "pgt_translate root (pg_round_down a) s = Inr (None, s)"
  proof (cases "pg_round_down a > MAXVA")
    case True
    then show ?thesis by (simp add: pgt_translate_def)
  next
    case False
    then have "pg_round_down a \<le> MAXVA" by simp
    from pgt_translate_vmap [OF assms(1) this] False assms(2) show ?thesis by simp
  qed
  then have "pgt_translate_unwrap root (pg_round_down a) s = Inl UnwrapNone"
    by (simp add: pgt_translate_unwrap_def)
  then show ?thesis by (simp add: copy_in_def copy_out_def Let_def)
qed

text \<open>C20. \<^verbatim>\<open>copy_in_str\<close> reads a string: when the terminator comes within the buffer it returns the
  string with its terminator and leaves the rest of the buffer as it was.\<close>

theorem copy_in_str_reads_string:
  assumes "wf_pt (pmem s) root" "unat src + k < 2 ^ 38"
    and "ustring (pmem s) root (unat src) k" "k < length dst"
  shows "copy_in_str root dst src s =
           Inr (uread (pmem s) root (unat src) (k + 1) @ drop (k + 1) dst)"
  by (rule copy_in_str_ok [OF assms])

theorem copy_in_str_reads_string_witness:
  "\<exists>root s. copy_in_str root [7, 7] 0 s = Inr [0, 7]"
proof -
  obtain root s q ps where b: "vs_inv 0x17FFF0000 ps root s"
    "vmap (pmem s) root = [0 \<mapsto> write_perm q RWXU]" "heap_page 0x17FFF0000 q" "zero_filled s q"
    by (rule boot_page)
  note ph = page_uphys [OF b(2,3)]
  have z: "pmem s (unat q) = 0" using b(4) by (auto simp: zero_filled_def dest: spec [of _ 0])
  have "copy_in_str root [7, 7] 0 s =
      Inr (uread (pmem s) root (unat (0 :: usize)) (0 + 1) @ drop (0 + 1) [7, 7])"
    by (rule copy_in_str_reads_string) (use b(1) ph z in \<open>simp_all add: vs_inv_def ustring_def\<close>)
  moreover have "uread (pmem s) root 0 1 = [0]" using ph z by (simp add: uread_def)
  ultimately show ?thesis by auto
qed

text \<open>A string that does not end within the buffer makes \<^verbatim>\<open>copy_in_str\<close> panic instead of being
  cut at the buffer's length.\<close>

lemma copy_in_str_long_string_panics:
  assumes "wf_pt (pmem s) root" "unat src < 2 ^ 38" "uphys (pmem s) root (unat src) \<noteq> None"
    and "\<forall>i<length dst. pmem s (the (uphys (pmem s) root (unat src + i))) \<noteq> 0"
    and "unat src mod 4096 + length dst < 4096"
  shows "copy_in_str root dst src s = Inl OutOfBounds \<or>
         copy_in_str root dst src s = Inl LengthMismatch"
  by (rule copy_in_str_short [OF assms(1-3) _ assms(5)]) (use assms(4) in blast)

section \<open>Copy on write\<close>

text \<open>C21. A fork shares the parent's memory copy-on-write: \<^verbatim>\<open>ucopy_nocopy\<close> makes every page of the
  range read-only and marked in the parent, maps the same physical pages with the same flags
  in the child, adds one reference to each, and changes no byte of them. The pages of the stack are
  not in the range: \<^verbatim>\<open>fork\<close> copies them with \<^verbatim>\<open>ucopy_stack\<close>.\<close>

theorem ucopy_nocopy_shares:
  assumes "vs2_inv hs ps r1 r2 s" "unat va = 4096 * v" "unat sz = 4096 * n" "v + n \<le> 2 ^ 26"
    and "2 * n \<le> length ps" "range_owned hs r1 s v n"
    and "\<forall>q\<in>targets (vmap (pmem s) r1) v n. rc s q < 2 ^ 31 - 1 \<and> q \<notin> pt_pages (pmem s) r2"
    and "\<forall>w. v \<le> w \<and> w < v + n \<longrightarrow> vmap (pmem s) r2 w = None"
  shows "\<exists>ps' s'. ucopy_nocopy r1 r2 va sz s = Inr (Inr (), s') \<and> vs2_inv hs ps' r1 r2 s' \<and>
           vmap (pmem s') r1 = cow_range (vmap (pmem s) r1) v n \<and>
           vmap (pmem s') r2 = share_range (vmap (pmem s) r1) (vmap (pmem s) r2) v n \<and>
           (\<forall>q\<in>targets (vmap (pmem s) r1) v n. rc s' q = rc s q + 1 \<and>
              load_bytes (pmem s') (unat q) 4096 = load_bytes (pmem s) (unat q) 4096)"
proof -
  have e: "add_ck sz va = Inr (sz + va)" "unat (sz + va) = 4096 * (v + n)"
    using assms(2-4) by (simp_all add: add_ck_def unat_word_ariths)
  have "\<exists>us ps' s'. ps = us @ ps' \<and> length us \<le> 2 * n \<and>
      ucopy_nocopy_loop r1 r2 va va sz s = Inr (Inr (), s') \<and>
      shares hs r1 r2 us ps' (targets (vmap (pmem s) r1) v n) s s' \<and>
      vmap (pmem s') r1 = cow_range (vmap (pmem s) r1) v n \<and>
      vmap (pmem s') r2 = share_range (vmap (pmem s) r1) (vmap (pmem s) r2) v n"
    by (rule share_loop [OF assms(1,5,2,4,6) _ _ e]) (use assms(7,8) in auto)
  then obtain us ps' s' where l: "ps = us @ ps'"
    "ucopy_nocopy_loop r1 r2 va va sz s = Inr (Inr (), s')"
    "shares hs r1 r2 us ps' (targets (vmap (pmem s) r1) v n) s s'"
    "vmap (pmem s') r1 = cow_range (vmap (pmem s) r1) v n"
    "vmap (pmem s') r2 = share_range (vmap (pmem s) r1) (vmap (pmem s) r2) v n" by blast
  have ka: "ka_inv hs ps s" using assms(1) by (simp add: vs2_inv_def vs_inv_def)
  have "rc s' q = rc s q + 1 \<and>
      load_bytes (pmem s') (unat q) 4096 = load_bytes (pmem s) (unat q) 4096"
    if q: "q \<in> targets (vmap (pmem s) r1) v n" for q
  proof -
    obtain w e where w: "v \<le> w" "w < v + n" "vmap (pmem s) r1 w = Some e" "q = as_pagetable e"
      using q by (auto simp: targets_def)
    then have live: "heap_page hs q" "1 \<le> rc s q" "q \<notin> pt_pages (pmem s) r1"
      using range_ownedD [OF assms(6), of w] by auto
    then have "q \<notin> set us" using ka.live_not_free [OF ka, of q] l(1) by auto
    with live l(3) q assms(7) show ?thesis by (auto simp: shares_def)
  qed
  with l show ?thesis unfolding ucopy_nocopy_def shares_def by blast
qed

text \<open>A parent with one page and an empty child.\<close>

lemma boot_two:
  obtains r1 r2 s q ps where "vs2_inv 0x17FFF0000 ps r1 r2 s" "11 \<le> length ps"
    "vmap (pmem s) r1 = [0 \<mapsto> write_perm q RWXU]" "vmap (pmem s) r2 = (\<lambda>_. None)"
    "heap_page 0x17FFF0000 q" "rc s q = 1" "q \<notin> pt_pages (pmem s) r1" "q \<notin> pt_pages (pmem s) r2"
proof -
  obtain r1 s q ps where b: "vs_inv 0x17FFF0000 ps r1 s" "12 \<le> length ps"
    "vmap (pmem s) r1 = [0 \<mapsto> write_perm q RWXU]" "heap_page 0x17FFF0000 q" "rc s q = 1"
    "q \<notin> pt_pages (pmem s) r1" by (rule boot_page)
  then obtain z ps' where ps: "ps = z # ps'" by (cases ps) auto
  have ka: "ka_inv 0x17FFF0000 (z # ps') s" and wf: "wf_pt (pmem s) r1"
    and disj: "pt_pages (pmem s) r1 \<inter> set (z # ps') = {}"
    using b(1) ps by (simp_all add: vs_inv_def)
  obtain s1 where u: "unew s = Inr (z, s1)" "vs_inv 0x17FFF0000 ps' z s1"
    "vmap (pmem s1) z = (\<lambda>_. None)" "pt_pages (pmem s1) z = {z}"
    "\<And>q. ram_page q \<Longrightarrow> rc s1 q = (if q = z then 1 else rc s q)"
    "\<And>y. ram_page y \<Longrightarrow> y \<noteq> z \<Longrightarrow>
       load_bytes (pmem s1) (unat y) 4096 = load_bytes (pmem s) (unat y) 4096"
    by (rule unew_empty [OF ka]) (rule that; assumption)
  have same: "pt_same (pmem s) (pmem s1) r1"
    by (rule pt_sameI, rule u(6)) (use wf_pt_ram [OF wf] disj in auto)
  have qz: "q \<noteq> z" using ka.free_iff [OF ka, of z] b(5) by auto
  have "vs2_inv 0x17FFF0000 ps' r1 z s1"
    using u(2,4) pt_same_wf [OF same wf] pt_same_pages [OF same] disj
    by (auto simp: vs2_inv_def vs_inv_def)
  moreover have "rc s1 q = 1" using u(5) [of q] b(4,5) qz by simp
  ultimately show thesis
    using that [of ps' r1 z s1 q] u(3,4) b(2,3,4,6) ps pt_same_vmap [OF same] pt_same_pages [OF same] qz
    by simp
qed

theorem ucopy_nocopy_shares_witness:
  "\<exists>r1 r2 s s' q. ucopy_nocopy r1 r2 0 0x1000 s = Inr (Inr (), s') \<and>
     rc s q = 1 \<and> rc s' q = 2 \<and> vmap (pmem s') r2 0 \<noteq> None"
proof -
  obtain r1 r2 s q ps where b: "vs2_inv 0x17FFF0000 ps r1 r2 s" "11 \<le> length ps"
    "vmap (pmem s) r1 = [0 \<mapsto> write_perm q RWXU]" "vmap (pmem s) r2 = (\<lambda>_. None)"
    "heap_page 0x17FFF0000 q" "rc s q = 1" "q \<notin> pt_pages (pmem s) r1" "q \<notin> pt_pages (pmem s) r2"
    by (rule boot_two)
  note own = page_owned [OF b(3,5,6,7)]
  have "\<exists>ps' s'. ucopy_nocopy r1 r2 0 0x1000 s = Inr (Inr (), s') \<and> vs2_inv 0x17FFF0000 ps' r1 r2 s' \<and>
      vmap (pmem s') r1 = cow_range (vmap (pmem s) r1) 0 1 \<and>
      vmap (pmem s') r2 = share_range (vmap (pmem s) r1) (vmap (pmem s) r2) 0 1 \<and>
      (\<forall>q\<in>targets (vmap (pmem s) r1) 0 1. rc s' q = rc s q + 1 \<and>
         load_bytes (pmem s') (unat q) 4096 = load_bytes (pmem s) (unat q) 4096)"
    by (rule ucopy_nocopy_shares [OF b(1)]) (use b own in simp_all)
  then obtain s' where "ucopy_nocopy r1 r2 0 0x1000 s = Inr (Inr (), s')" "rc s' q = rc s q + 1"
    "vmap (pmem s') r2 = share_range (vmap (pmem s) r1) (vmap (pmem s) r2) 0 1"
    unfolding own(2) by blast
  moreover have "vmap (pmem s') r2 0 \<noteq> None" using calculation(3) b(3) by (simp add: share_range_def)
  ultimately show ?thesis using b(6) by (intro exI conjI) (assumption | simp)+
qed

text \<open>C22. The write-fault handler \<^verbatim>\<open>uload_page\<close> gives the process a private writable page with the
  same contents: a page it shares is copied to a fresh one and loses one reference while its
  contents stay for the other owners, and a page it owns alone only becomes writable.\<close>

theorem uload_page_makes_private:
  assumes "vs_inv hs ps root s" "ps \<noteq> []" "va \<le> MAXVA" "v = unat va div 4096"
    and "vmap (pmem s) root v = Some e" "p = as_pagetable e" "heap_page hs p" "1 \<le> rc s p"
    and "p \<notin> pt_pages (pmem s) root"
  shows "\<exists>ps' s' e'. uload_page root va s = Inr (Inr (), s') \<and> vs_inv hs ps' root s' \<and>
           vmap (pmem s') root = (vmap (pmem s) root)(v \<mapsto> e') \<and>
           is_write e' \<and> is_user e' = is_user e \<and> rc s' (as_pagetable e') = 1 \<and>
           load_bytes (pmem s') (unat (as_pagetable e')) 4096 = load_bytes (pmem s) (unat p) 4096 \<and>
           (as_pagetable e' = p \<longleftrightarrow> rc s p = 1) \<and>
           (2 \<le> rc s p \<longrightarrow> rc s' p = rc s p - 1 \<and>
              load_bytes (pmem s') (unat p) 4096 = load_bytes (pmem s) (unat p) 4096)"
proof (cases "rc s p = 1")
  case True
  from uload_page_private [OF assms(1,3,4,5)] True assms(6,7) obtain s' where s':
    "uload_page root va s = Inr (Inr (), s')" "pt_ext hs root [] ps s s'"
    "vmap (pmem s') root = (vmap (pmem s) root)(v \<mapsto> add_write_bit e)" by auto
  have pg: "pt_pages (pmem s') root = pt_pages (pmem s) root" using s'(2) by (simp add: pt_ext_def)
  show ?thesis
    using s' True assms(6,7,9) pg
    by (intro exI [of _ ps] exI [of _ s'] exI [of _ "add_write_bit e"])
      (simp add: add_write_bits pt_ext_def)
next
  case False
  then have two: "2 \<le> rc s (as_pagetable e)" using assms(6,8) by simp
  obtain z ps0 where ps: "ps = z # ps0" using assms(2) by (cases ps) auto
  have e: "heap_page hs (as_pagetable e)" "as_pagetable e \<notin> pt_pages (pmem s) root"
    using assms(6,7,9) by simp_all
  obtain ps' s' where s': "uload_page root va s = Inr (Inr (), s')" "vs_inv hs ps' root s'"
    "vmap (pmem s') root =
       (vmap (pmem s) root)(v \<mapsto> write_perm z (pte_from_bits_truncate (e OR PTE_W)))"
    "load_bytes (pmem s') (unat z) 4096 = load_bytes (pmem s) (unat (as_pagetable e)) 4096"
    "\<And>y. ram_page y \<Longrightarrow> y \<notin> pt_pages (pmem s) root \<Longrightarrow> y \<noteq> z \<Longrightarrow>
       load_bytes (pmem s') (unat y) 4096 = load_bytes (pmem s) (unat y) 4096"
    "\<And>q. ram_page q \<Longrightarrow> rc s' q =
       (if q = z then 1 else if q = as_pagetable e then rc s q - 1 else rc s q)"
    "heap_page hs z" "z \<noteq> as_pagetable e"
    by (rule uload_page_shared [OF assms(1) [unfolded ps] assms(3,4,5) e two]) (rule that; assumption)
  let ?e = "write_perm z (pte_from_bits_truncate (e OR PTE_W))"
  have z: "as_pagetable ?e = z" "is_write ?e" "is_user ?e = is_user e"
    using truncate_write [of e] as_pagetable_write_perm [OF ram_page_aligned] s'(7) by simp_all
  have "rc s' z = 1" "rc s' p = rc s p - 1" using s'(6) [of z] s'(6) [of p] s'(7,8) assms(6,7) by auto
  moreover have "load_bytes (pmem s') (unat p) 4096 = load_bytes (pmem s) (unat p) 4096"
    using s'(5) [of p] assms(6,7,9) s'(8) by auto
  ultimately show ?thesis
    using s'(1-4,8) z False assms(6)
    by (intro exI [of _ ps'] exI [of _ s'] exI [of _ ?e]) auto
qed

theorem uload_page_makes_private_witness:
  "\<exists>root s s' q. rc s q = 1 \<and> uload_page root 0x10 s = Inr (Inr (), s') \<and>
     vmap (pmem s') root 0 \<noteq> None"
proof -
  obtain root s q ps where b: "vs_inv 0x17FFF0000 ps root s" "12 \<le> length ps"
    "vmap (pmem s) root = [0 \<mapsto> write_perm q RWXU]" "heap_page 0x17FFF0000 q" "rc s q = 1"
    "q \<notin> pt_pages (pmem s) root" by (rule boot_page)
  have h: "ps \<noteq> []" "(0x10 :: usize) \<le> MAXVA" "0 = unat (0x10 :: usize) div 4096"
    "vmap (pmem s) root 0 = Some (write_perm q RWXU)" "q = as_pagetable (write_perm q RWXU)" "1 \<le> rc s q"
    using b RWXU_page [OF b(4)] by (auto simp: word_le_nat_alt)
  from uload_page_makes_private [OF b(1) h(1-5) b(4) h(6) b(6)] obtain s' e' where
    "uload_page root 0x10 s = Inr (Inr (), s')" "vmap (pmem s') root = (vmap (pmem s) root)(0 \<mapsto> e')"
    by blast
  with b(5) show ?thesis by (intro exI conjI) (assumption | simp)+
qed

end
