(* ===== verification/Rx_Bio.thy ===== *)
theory Rx_Bio
  imports Rx_Prelude
begin

text \<open>
  The buffer cache of \<^verbatim>\<open>fs/bio.rs\<close>: thirty buffers, a control block for each with the device and
  block number it caches, a reference count and the links of a circular doubly linked list in
  least-recently-used order. The disk is part of the state; \<^verbatim>\<open>DISK.rw\<close> moves one block between it
  and a buffer. A \<^verbatim>\<open>Buf\<close> is the index, device and block number it was made with; its pointer to
  the reference count is that of the control block with its index. Each operation runs under
  the lock of the list, and the holder of a \<^verbatim>\<open>Buf\<close> holds the sleep lock of its data.
\<close>

section \<open>State\<close>

type_synonym block = "u8 list"

definition BSIZE :: nat where "BSIZE = 1024"
definition MAXOPBLOCKS :: nat where "MAXOPBLOCKS = 10"
definition NBUF :: nat where "NBUF = MAXOPBLOCKS * 3"

record buf_ctrl =
  bc_dev :: u32
  bc_blockno :: u32
  bc_prev :: nat
  bc_next :: nat
  bc_refcnt :: nat
  bc_index :: nat

record buf_lru =
  lru_inner :: "buf_ctrl list"
  lru_head :: nat
  lru_tail :: nat

record bcache =
  bc_ctrl :: buf_lru
  bc_valid :: "bool list"
  bc_data :: "block list"
  bc_disk :: "u32 \<Rightarrow> block"

record buf =
  buf_index :: nat
  buf_dev :: u32
  buf_blockno :: u32

definition buf_ctrl_new :: "nat \<Rightarrow> buf_ctrl" where
  "buf_ctrl_new idx = \<lparr>bc_dev = 0, bc_blockno = 0, bc_prev = (if idx = 0 then 0 else idx - 1),
     bc_next = idx + 1, bc_refcnt = 0, bc_index = idx\<rparr>"

definition buf_lru_new :: buf_lru where
  "buf_lru_new =
     (let inner = map buf_ctrl_new [0..<NBUF];
          inner = inner[0 := (inner ! 0)\<lparr>bc_prev := NBUF - 1\<rparr>];
          inner = inner[NBUF - 1 := (inner ! (NBUF - 1))\<lparr>bc_next := 0\<rparr>] in
      \<lparr>lru_inner = inner, lru_head = 0, lru_tail = NBUF - 1\<rparr>)"

definition bcache_new :: "(u32 \<Rightarrow> block) \<Rightarrow> bcache" where
  "bcache_new disk = \<lparr>bc_ctrl = buf_lru_new, bc_valid = replicate NBUF False,
     bc_data = replicate NBUF (replicate BSIZE 0), bc_disk = disk\<rparr>"

section \<open>The list of control blocks\<close>

text \<open>The two searches run around the circle until they are back at their start. The fuel of
  the loops is the number of buffers, which is enough on a well-formed list.\<close>

primrec find_cached_loop ::
  "nat \<Rightarrow> u32 \<Rightarrow> u32 \<Rightarrow> nat \<Rightarrow> buf_lru \<Rightarrow> (nat option \<times> buf_lru) outcome" where
  "find_cached_loop 0 dev blockno b l = Inl OutOfFuel"
| "find_cached_loop (Suc fuel) dev blockno b l =
     bindR (idx_get (lru_inner l) b) (\<lambda>bref.
       if bc_dev bref = dev \<and> bc_blockno bref = blockno
       then bindR (usize_inc (bc_refcnt bref)) (\<lambda>c.
         Inr (Some (bc_index bref), l\<lparr>lru_inner := (lru_inner l)[b := bref\<lparr>bc_refcnt := c\<rparr>]\<rparr>))
       else if bc_next bref = lru_head l then Inr (None, l)
       else find_cached_loop fuel dev blockno (bc_next bref) l)"

definition find_cached :: "u32 \<Rightarrow> u32 \<Rightarrow> buf_lru \<Rightarrow> (nat option \<times> buf_lru) outcome" where
  "find_cached dev blockno l = find_cached_loop NBUF dev blockno (lru_head l) l"

primrec recycle_loop ::
  "nat \<Rightarrow> u32 \<Rightarrow> u32 \<Rightarrow> nat \<Rightarrow> buf_lru \<Rightarrow> (nat option \<times> buf_lru) outcome" where
  "recycle_loop 0 dev blockno b l = Inl OutOfFuel"
| "recycle_loop (Suc fuel) dev blockno b l =
     bindR (idx_get (lru_inner l) b) (\<lambda>bref.
       if bc_refcnt bref = 0
       then Inr (Some (bc_index bref),
         l\<lparr>lru_inner := (lru_inner l)
              [b := bref\<lparr>bc_refcnt := 1, bc_dev := dev, bc_blockno := blockno\<rparr>]\<rparr>)
       else if bc_prev bref = lru_tail l then Inr (None, l)
       else recycle_loop fuel dev blockno (bc_prev bref) l)"

definition recycle :: "u32 \<Rightarrow> u32 \<Rightarrow> buf_lru \<Rightarrow> (nat option \<times> buf_lru) outcome" where
  "recycle dev blockno l = recycle_loop NBUF dev blockno (lru_tail l) l"

definition inner_set ::
  "nat \<Rightarrow> (buf_ctrl \<Rightarrow> buf_ctrl) \<Rightarrow> buf_ctrl list \<Rightarrow> buf_ctrl list outcome" where
  "inner_set i f inner = bindR (idx_get inner i) (\<lambda>c. idx_set inner i (f c))"

definition move_if_no_ref :: "nat \<Rightarrow> buf_lru \<Rightarrow> buf_lru outcome" where
  "move_if_no_ref index l =
     bindR (idx_get (lru_inner l) index) (\<lambda>c.
       bindR (usize_dec (bc_refcnt c)) (\<lambda>r.
         let inner = (lru_inner l)[index := c\<lparr>bc_refcnt := r\<rparr>] in
         if r = 0 \<and> index \<noteq> lru_head l then
           let tail = (if lru_tail l = index then bc_prev c else lru_tail l);
               prev = bc_prev c; nxt = bc_next c; head = lru_head l in
           bindR (inner_set prev (\<lambda>x. x\<lparr>bc_next := nxt\<rparr>) inner) (\<lambda>inner.
             bindR (inner_set nxt (\<lambda>x. x\<lparr>bc_prev := prev\<rparr>) inner) (\<lambda>inner.
               bindR (inner_set index (\<lambda>x. x\<lparr>bc_prev := tail\<rparr>) inner) (\<lambda>inner.
                 bindR (inner_set index (\<lambda>x. x\<lparr>bc_next := head\<rparr>) inner) (\<lambda>inner.
                   bindR (inner_set head (\<lambda>x. x\<lparr>bc_prev := index\<rparr>) inner) (\<lambda>inner.
                     bindR (inner_set tail (\<lambda>x. x\<lparr>bc_next := index\<rparr>) inner) (\<lambda>inner.
                       Inr \<lparr>lru_inner = inner, lru_head = index, lru_tail = tail\<rparr>))))))
         else Inr (l\<lparr>lru_inner := inner\<rparr>)))"

section \<open>Buffers\<close>

definition disk_rw :: "buf \<Rightarrow> bool \<Rightarrow> bcache \<Rightarrow> bcache outcome" where
  "disk_rw b writing s =
     (if writing
      then bindR (idx_get (bc_data s) (buf_index b)) (\<lambda>d.
        Inr (s\<lparr>bc_disk := (bc_disk s)(buf_blockno b := d)\<rparr>))
      else bindR (idx_set (bc_data s) (buf_index b) (bc_disk s (buf_blockno b))) (\<lambda>ds.
        Inr (s\<lparr>bc_data := ds\<rparr>)))"

definition bcache_get :: "u32 \<Rightarrow> u32 \<Rightarrow> bcache \<Rightarrow> (buf \<times> bcache) outcome" where
  "bcache_get dev blockno s =
     bindR (find_cached dev blockno (bc_ctrl s)) (\<lambda>(r, l).
       case r of
         Some idx \<Rightarrow>
           bindR (guardR (idx < length (bc_data s)) OutOfBounds) (\<lambda>_.
             Inr (\<lparr>buf_index = idx, buf_dev = dev, buf_blockno = blockno\<rparr>, s\<lparr>bc_ctrl := l\<rparr>))
       | None \<Rightarrow>
           bindR (recycle dev blockno l) (\<lambda>(r, l).
             case r of
               Some idx \<Rightarrow>
                 bindR (idx_set (bc_valid s) idx False) (\<lambda>vs.
                   Inr (\<lparr>buf_index = idx, buf_dev = dev, buf_blockno = blockno\<rparr>,
                        s\<lparr>bc_ctrl := l, bc_valid := vs\<rparr>))
             | None \<Rightarrow> Inl NoUsableBuffer))"

definition bcache_read :: "u32 \<Rightarrow> u32 \<Rightarrow> bcache \<Rightarrow> (buf \<times> bcache) outcome" where
  "bcache_read dev blockno s =
     bindR (bcache_get dev blockno s) (\<lambda>(b, s).
       bindR (idx_get (bc_valid s) (buf_index b)) (\<lambda>v.
         if \<not> v
         then bindR (disk_rw b False s) (\<lambda>s.
           bindR (idx_set (bc_valid s) (buf_index b) True) (\<lambda>vs.
             Inr (b, s\<lparr>bc_valid := vs\<rparr>)))
         else Inr (b, s)))"

definition bcache_release :: "nat \<Rightarrow> bcache \<Rightarrow> bcache outcome" where
  "bcache_release index s =
     bindR (move_if_no_ref index (bc_ctrl s)) (\<lambda>l. Inr (s\<lparr>bc_ctrl := l\<rparr>))"

definition buf_write :: "buf \<Rightarrow> bcache \<Rightarrow> bcache outcome" where
  "buf_write b s = disk_rw b True s"

definition buf_drop :: "buf \<Rightarrow> bcache \<Rightarrow> bcache outcome" where
  "buf_drop b s = bcache_release (buf_index b) s"

text \<open>Access to the data of a held buffer through \<^verbatim>\<open>raw_data\<close> and \<^verbatim>\<open>raw_data_mut\<close>.\<close>

definition raw_data :: "buf \<Rightarrow> bcache \<Rightarrow> block outcome" where
  "raw_data b s = idx_get (bc_data s) (buf_index b)"

definition set_raw_data :: "buf \<Rightarrow> block \<Rightarrow> bcache \<Rightarrow> bcache outcome" where
  "set_raw_data b d s =
     bindR (idx_set (bc_data s) (buf_index b) d) (\<lambda>ds. Inr (s\<lparr>bc_data := ds\<rparr>))"

definition upd_refcnt :: "(nat \<Rightarrow> nat outcome) \<Rightarrow> buf \<Rightarrow> bcache \<Rightarrow> bcache outcome" where
  "upd_refcnt f b s =
     bindR (idx_get (lru_inner (bc_ctrl s)) (buf_index b)) (\<lambda>c.
       bindR (f (bc_refcnt c)) (\<lambda>r.
         Inr (s\<lparr>bc_ctrl := (bc_ctrl s)
           \<lparr>lru_inner := (lru_inner (bc_ctrl s))[buf_index b := c\<lparr>bc_refcnt := r\<rparr>]\<rparr>\<rparr>)))"

definition buf_pin :: "buf \<Rightarrow> bcache \<Rightarrow> bcache outcome" where
  "buf_pin b s = upd_refcnt usize_inc b s"

definition buf_unpin :: "buf \<Rightarrow> bcache \<Rightarrow> bcache outcome" where
  "buf_unpin b s = upd_refcnt (\<lambda>rc. if rc \<le> 1 then Inl BufUnpinMismatch else Inr (rc - 1)) b s"

end
