(* ===== verification/Rx_Lru.thy ===== *)
theory Rx_Lru
  imports Rx_Bio
begin

text \<open>
  The list of \<^verbatim>\<open>BufLru\<close> in \<^verbatim>\<open>fs/bio.rs\<close> refines a list of indices, most recently released first:
  \<open>lru_wf l order\<close> says that following the links from the head visits \<open>order\<close> and returns to the
  head. \<^verbatim>\<open>find_cached\<close> is a search of that list from the front, \<^verbatim>\<open>recycle\<close> one from the back, and
  releasing the last reference of a buffer moves its index to the front.
\<close>

section \<open>Circular doubly linked lists\<close>

fun linked :: "(nat \<Rightarrow> nat) \<Rightarrow> (nat \<Rightarrow> nat) \<Rightarrow> nat list \<Rightarrow> bool" where
  "linked nx pv (a # b # zs) \<longleftrightarrow> nx a = b \<and> pv b = a \<and> linked nx pv (b # zs)"
| "linked nx pv _ \<longleftrightarrow> True"

lemma linked_append:
  "xs \<noteq> [] \<Longrightarrow> ys \<noteq> [] \<Longrightarrow>
   linked nx pv (xs @ ys) \<longleftrightarrow>
     linked nx pv xs \<and> linked nx pv ys \<and> nx (last xs) = hd ys \<and> pv (hd ys) = last xs"
proof (induction xs)
  case (Cons x xs)
  show ?case
  proof (cases xs)
    case Nil
    with Cons.prems show ?thesis by (cases ys) auto
  next
    case (Cons y zs)
    with Cons.IH Cons.prems show ?thesis by auto
  qed
qed simp

lemma linked_cong:
  assumes "\<And>a. a \<in> set (butlast zs) \<Longrightarrow> nx' a = nx a" "\<And>b. b \<in> set (tl zs) \<Longrightarrow> pv' b = pv b"
  shows "linked nx' pv' zs = linked nx pv zs"
  using assms by (induction nx pv zs rule: linked.induct) auto

lemma butlast_not_last: "distinct xs \<Longrightarrow> a \<in> set (butlast xs) \<Longrightarrow> a \<noteq> last xs"
  by (induction xs) (auto split: if_splits)

lemma tl_not_hd: "distinct xs \<Longrightarrow> a \<in> set (tl xs) \<Longrightarrow> a \<noteq> hd xs"
  by (cases xs) auto

definition circular :: "(nat \<Rightarrow> nat) \<Rightarrow> (nat \<Rightarrow> nat) \<Rightarrow> nat list \<Rightarrow> bool" where
  "circular nx pv zs \<longleftrightarrow> zs \<noteq> [] \<and> distinct zs \<and> linked nx pv (zs @ [hd zs])"

text \<open>Unlinking an element and linking it in before the head, as six pointer updates.\<close>

lemma circular_to_front:
  assumes circ: "circular nx pv (xs @ i # ys)" and xs: "xs \<noteq> []"
  defines "p \<equiv> pv i" and "n \<equiv> nx i" and "h \<equiv> hd xs"
  defines "t \<equiv> if ys = [] then p else last ys"
  shows "circular (((nx(p := n))(i := h))(t := i)) (((pv(n := p))(i := t))(h := i)) (i # xs @ ys)"
proof -
  let ?nx = "((nx(p := n))(i := h))(t := i)" and ?pv = "((pv(n := p))(i := t))(h := i)"
  have d: "distinct (xs @ i # ys)" using circ by (simp add: circular_def)
  have hd_eq: "hd (xs @ i # ys) = h" using xs by (simp add: h_def)
  have l: "linked nx pv (xs @ (i # ys @ [h]))" using circ hd_eq by (simp add: circular_def)
  have lx: "linked nx pv xs" and li: "linked nx pv (i # ys @ [h])" and p: "p = last xs"
    using l xs linked_append [of xs "i # ys @ [h]" nx pv] by (auto simp: p_def)
  have ix: "i \<notin> set xs" "h \<in> set xs" "p \<in> set xs" using d xs p by (auto simp: h_def)
  have ly: "linked nx pv ys" "n = hd (ys @ [h])"
    using li linked_append [of "i # ys" "[h]" nx pv] linked_append [of "[i]" "ys @ [h]" nx pv]
      linked_append [of ys "[h]" nx pv] by (cases ys; auto simp: n_def)+
  have lx': "linked ?nx ?pv xs"
  proof (subst linked_cong [of xs ?nx nx ?pv pv])
    show "?nx a = nx a" if "a \<in> set (butlast xs)" for a
      using that d p butlast_not_last [of xs a] in_set_butlastD [OF that] by (auto simp: t_def)
    show "?pv b = pv b" if "b \<in> set (tl xs)" for b
      using that d xs ly(2) tl_not_hd [of xs b] list.set_sel(2) [OF xs that]
      by (cases ys) (auto simp: h_def)
  qed (rule lx)
  show ?thesis
  proof (cases "ys = []")
    case True
    then have "n = h" "t = p" using ly(2) by (simp_all add: t_def)
    then have "linked ?nx ?pv (i # (xs @ [i]))"
      using lx' xs ix p linked_append [of "[i]" "xs @ [i]" ?nx ?pv] linked_append [of xs "[i]" ?nx ?pv]
      by (auto simp: h_def)
    with True d show ?thesis by (auto simp: circular_def)
  next
    case False
    have t: "t = last ys" "t \<in> set ys" "n = hd ys" "n \<in> set ys" using False ly(2) by (auto simp: t_def)
    have "linked ?nx ?pv ys"
    proof (subst linked_cong [of ys ?nx nx ?pv pv])
      show "?nx a = nx a" if "a \<in> set (butlast ys)" for a
        using that d t ix butlast_not_last [of ys a] in_set_butlastD [OF that] by auto
      show "?pv b = pv b" if "b \<in> set (tl ys)" for b
        using that d t ix tl_not_hd [of ys b] list.set_sel(2) [OF False that] by auto
    qed (rule ly(1))
    moreover have "?nx p = n" "?pv n = p" "?nx i = h" "?pv h = i" "?nx t = i" "?pv i = t"
      using t ix d by auto
    ultimately have "linked ?nx ?pv (i # (xs @ (ys @ [i])))"
      using lx' xs False p t linked_append [of "[i]" "xs @ ys @ [i]" ?nx ?pv]
        linked_append [of xs "ys @ [i]" ?nx ?pv] linked_append [of ys "[i]" ?nx ?pv]
      by (simp add: h_def)
    with d show ?thesis by (auto simp: circular_def)
  qed
qed

section \<open>The list of control blocks\<close>

abbreviation lru_nx :: "buf_lru \<Rightarrow> nat \<Rightarrow> nat" where
  "lru_nx l i \<equiv> bc_next (lru_inner l ! i)"

abbreviation lru_pv :: "buf_lru \<Rightarrow> nat \<Rightarrow> nat" where
  "lru_pv l i \<equiv> bc_prev (lru_inner l ! i)"

definition lru_wf :: "buf_lru \<Rightarrow> nat list \<Rightarrow> bool" where
  "lru_wf l order \<longleftrightarrow>
     length (lru_inner l) = NBUF \<and> set order = {..<NBUF} \<and>
     circular (lru_nx l) (lru_pv l) order \<and>
     lru_head l = hd order \<and> lru_tail l = last order \<and>
     (\<forall>i<NBUF. bc_index (lru_inner l ! i) = i)"

lemma NBUF_val: "NBUF = 30"
  by (simp add: NBUF_def MAXOPBLOCKS_def)

lemma linked_upt:
  "(\<And>i. a \<le> i \<Longrightarrow> Suc i < b \<Longrightarrow> nx i = Suc i \<and> pv (Suc i) = i) \<Longrightarrow> linked nx pv [a..<b]"
proof (induction "b - a" arbitrary: a)
  case (Suc k)
  show ?case
  proof (cases "Suc a < b")
    case True
    then have "[a..<b] = a # Suc a # [Suc (Suc a)..<b]" "[Suc a..<b] = Suc a # [Suc (Suc a)..<b]"
      by (simp_all add: upt_conv_Cons)
    with Suc.hyps(1) [of "Suc a"] Suc.hyps(2) Suc.prems True show ?thesis by auto
  next
    case False
    with Suc.hyps(2) have "[a..<b] = [a]" by (simp add: upt_conv_Cons)
    then show ?thesis by simp
  qed
qed simp

lemma lru_wf_new: "lru_wf buf_lru_new [0..<NBUF]"
proof -
  have inner: "lru_inner buf_lru_new ! i = \<lparr>bc_dev = 0, bc_blockno = 0,
      bc_prev = (if i = 0 then 29 else i - 1), bc_next = (if i = 29 then 0 else i + 1),
      bc_refcnt = 0, bc_index = i\<rparr>" if "i < 30" for i
    using that by (auto simp: buf_lru_new_def NBUF_val Let_def nth_list_update buf_ctrl_new_def)
  have "linked (lru_nx buf_lru_new) (lru_pv buf_lru_new) [0..<30]"
    by (rule linked_upt) (simp add: inner)
  then have "circular (lru_nx buf_lru_new) (lru_pv buf_lru_new) [0..<30]"
    using linked_append [of "[0..<30]" "[0]"] by (simp add: circular_def inner)
  then show ?thesis
    by (auto simp: lru_wf_def NBUF_val inner) (simp_all add: buf_lru_new_def NBUF_val Let_def)
qed

section \<open>Searching\<close>

definition hits :: "u32 \<Rightarrow> u32 \<Rightarrow> buf_lru \<Rightarrow> nat \<Rightarrow> bool" where
  "hits dev blockno l i \<longleftrightarrow>
     bc_dev (lru_inner l ! i) = dev \<and> bc_blockno (lru_inner l ! i) = blockno"

definition is_unused :: "buf_lru \<Rightarrow> nat \<Rightarrow> bool" where
  "is_unused l i \<longleftrightarrow> bc_refcnt (lru_inner l ! i) = 0"

lemma lru_wf_in: "lru_wf l order \<Longrightarrow> i \<in> set order \<Longrightarrow> i < NBUF \<and> i < length (lru_inner l)"
  by (auto simp: lru_wf_def)

lemma lru_wf_length: "lru_wf l order \<Longrightarrow> length order = NBUF"
  using distinct_card [of order] by (simp add: lru_wf_def circular_def)

lemma lru_next:
  assumes wf: "lru_wf l (xs @ b # ys)"
  shows "bc_next (lru_inner l ! b) = (if ys = [] then lru_head l else hd ys)"
    "ys = [] \<or> hd ys \<noteq> lru_head l"
proof -
  let ?o = "xs @ b # ys"
  have l: "linked (lru_nx l) (lru_pv l) ((xs @ [b]) @ (ys @ [hd ?o]))" and d: "distinct ?o"
    and h: "lru_head l = hd ?o" using wf by (simp_all add: lru_wf_def circular_def)
  from l show "bc_next (lru_inner l ! b) = (if ys = [] then lru_head l else hd ys)"
    using linked_append [of "xs @ [b]" "ys @ [hd ?o]"] h by (cases ys) auto
  show "ys = [] \<or> hd ys \<noteq> lru_head l" using d h by (cases xs; cases ys) auto
qed

lemma lru_prev:
  assumes wf: "lru_wf l (xs @ b # ys)"
  shows "bc_prev (lru_inner l ! b) = (if xs = [] then lru_tail l else last xs)"
    "xs = [] \<or> last xs \<noteq> lru_tail l"
proof -
  let ?o = "xs @ b # ys"
  have l: "linked (lru_nx l) (lru_pv l) (?o @ [hd ?o])" and d: "distinct ?o"
    and t: "lru_tail l = last ?o" using wf by (simp_all add: lru_wf_def circular_def)
  show "bc_prev (lru_inner l ! b) = (if xs = [] then lru_tail l else last xs)"
  proof (cases "xs = []")
    case True
    then show ?thesis using l t linked_append [of "b # ys" "[b]"] by simp
  next
    case False
    then show ?thesis using l linked_append [of xs "b # ys @ [hd ?o]"] by simp
  qed
  show "xs = [] \<or> last xs \<noteq> lru_tail l"
  proof (rule disjCI)
    assume "\<not> last xs \<noteq> lru_tail l"
    then have "last xs = last (b # ys)" using t by simp
    moreover have "last (b # ys) \<in> set (b # ys)" by (rule last_in_set) simp
    ultimately show "xs = []" using d last_in_set [of xs] by auto
  qed
qed

lemma find_cached_loop_eq:
  assumes "lru_wf l (xs @ b # ys)" "length ys < fuel"
  shows "find_cached_loop fuel dev blockno b l =
    (case find (hits dev blockno l) (b # ys) of
       None \<Rightarrow> Inr (None, l)
     | Some i \<Rightarrow> bindR (usize_inc (bc_refcnt (lru_inner l ! i))) (\<lambda>c.
         Inr (Some i, l\<lparr>lru_inner := (lru_inner l)[i := (lru_inner l ! i)\<lparr>bc_refcnt := c\<rparr>]\<rparr>)))"
  using assms
proof (induction fuel arbitrary: xs b ys)
  case (Suc fuel)
  have b: "b < length (lru_inner l)" "bc_index (lru_inner l ! b) = b"
    using lru_wf_in [OF Suc.prems(1), of b] Suc.prems(1) by (auto simp: lru_wf_def)
  show ?case
  proof (cases "hits dev blockno l b")
    case True
    then show ?thesis using b by (simp add: hits_def)
  next
    case False
    then have miss: "\<not> (bc_dev (lru_inner l ! b) = dev \<and> bc_blockno (lru_inner l ! b) = blockno)"
      by (simp add: hits_def)
    show ?thesis
    proof (cases ys)
      case Nil
      with False miss b lru_next [OF Suc.prems(1)] show ?thesis by auto
    next
      case (Cons c zs)
      have "find_cached_loop fuel dev blockno c l =
        (case find (hits dev blockno l) (c # zs) of
           None \<Rightarrow> Inr (None, l)
         | Some i \<Rightarrow> bindR (usize_inc (bc_refcnt (lru_inner l ! i))) (\<lambda>c.
             Inr (Some i, l\<lparr>lru_inner := (lru_inner l)[i := (lru_inner l ! i)\<lparr>bc_refcnt := c\<rparr>]\<rparr>)))"
        using Suc.IH [of "xs @ [b]" c zs] Suc.prems Cons by simp
      with Cons False miss b lru_next [OF Suc.prems(1)] show ?thesis by auto
    qed
  qed
qed simp

lemma find_cached_eq:
  assumes wf: "lru_wf l order"
  shows "find_cached dev blockno l =
    (case find (hits dev blockno l) order of
       None \<Rightarrow> Inr (None, l)
     | Some i \<Rightarrow> bindR (usize_inc (bc_refcnt (lru_inner l ! i))) (\<lambda>c.
         Inr (Some i, l\<lparr>lru_inner := (lru_inner l)[i := (lru_inner l ! i)\<lparr>bc_refcnt := c\<rparr>]\<rparr>)))"
proof -
  obtain b ys where o: "order = b # ys" using wf by (cases order) (auto simp: lru_wf_def circular_def)
  then have "b = lru_head l" "length ys < NBUF"
    using wf lru_wf_length [OF wf] by (auto simp: lru_wf_def)
  then show ?thesis
    using find_cached_loop_eq [of l "[]" b ys NBUF] wf o by (simp add: find_cached_def)
qed

lemma recycle_loop_eq:
  assumes "lru_wf l (xs @ b # ys)" "length xs < fuel"
  shows "recycle_loop fuel dev blockno b l =
    (case find (is_unused l) (b # rev xs) of
       None \<Rightarrow> Inr (None, l)
     | Some i \<Rightarrow> Inr (Some i, l\<lparr>lru_inner := (lru_inner l)[i := (lru_inner l ! i)
         \<lparr>bc_refcnt := 1, bc_dev := dev, bc_blockno := blockno\<rparr>]\<rparr>))"
  using assms
proof (induction fuel arbitrary: xs b ys)
  case (Suc fuel)
  have b: "b < length (lru_inner l)" "bc_index (lru_inner l ! b) = b"
    using lru_wf_in [OF Suc.prems(1), of b] Suc.prems(1) by (auto simp: lru_wf_def)
  show ?case
  proof (cases "is_unused l b")
    case True
    then show ?thesis using b by (simp add: is_unused_def)
  next
    case False
    then have used: "bc_refcnt (lru_inner l ! b) \<noteq> 0" by (simp add: is_unused_def)
    show ?thesis
    proof (cases xs rule: rev_cases)
      case Nil
      with False used b lru_prev [OF Suc.prems(1)] show ?thesis by simp
    next
      case (snoc zs c)
      have "recycle_loop fuel dev blockno c l =
        (case find (is_unused l) (c # rev zs) of
           None \<Rightarrow> Inr (None, l)
         | Some i \<Rightarrow> Inr (Some i, l\<lparr>lru_inner := (lru_inner l)[i := (lru_inner l ! i)
             \<lparr>bc_refcnt := 1, bc_dev := dev, bc_blockno := blockno\<rparr>]\<rparr>))"
        using Suc.IH [of zs c "b # ys"] Suc.prems snoc by simp
      with snoc False used b lru_prev [OF Suc.prems(1)] show ?thesis by simp
    qed
  qed
qed simp

lemma recycle_eq:
  assumes wf: "lru_wf l order"
  shows "recycle dev blockno l =
    (case find (is_unused l) (rev order) of
       None \<Rightarrow> Inr (None, l)
     | Some i \<Rightarrow> Inr (Some i, l\<lparr>lru_inner := (lru_inner l)[i := (lru_inner l ! i)
         \<lparr>bc_refcnt := 1, bc_dev := dev, bc_blockno := blockno\<rparr>]\<rparr>))"
proof -
  obtain xs b where o: "order = xs @ [b]"
    using wf by (cases order rule: rev_cases) (auto simp: lru_wf_def circular_def)
  then have "b = lru_tail l" "length xs < NBUF"
    using wf lru_wf_length [OF wf] by (auto simp: lru_wf_def)
  then show ?thesis
    using recycle_loop_eq [of l xs b "[]" NBUF] wf o by (simp add: recycle_def)
qed

section \<open>Releasing a buffer\<close>

abbreviation lru_refs :: "buf_lru \<Rightarrow> nat \<Rightarrow> nat" where
  "lru_refs l i \<equiv> bc_refcnt (lru_inner l ! i)"

text \<open>Two lists of control blocks that cache the same blocks in the same buffers.\<close>

definition same_blocks :: "buf_lru \<Rightarrow> buf_lru \<Rightarrow> bool" where
  "same_blocks l l' \<longleftrightarrow>
     (\<forall>j. bc_dev (lru_inner l' ! j) = bc_dev (lru_inner l ! j) \<and>
          bc_blockno (lru_inner l' ! j) = bc_blockno (lru_inner l ! j))"

lemma inner_set_in [simp]:
  "i < length inner \<Longrightarrow> inner_set i f inner = Inr (inner[i := f (inner ! i)])"
  by (simp add: inner_set_def)

lemma upd_links [simp]:
  assumes "i < length xs"
  shows "(\<lambda>j. bc_next (xs[i := (xs ! i)\<lparr>bc_next := v\<rparr>] ! j)) = (\<lambda>j. bc_next (xs ! j))(i := v)"
    "(\<lambda>j. bc_prev (xs[i := (xs ! i)\<lparr>bc_next := v\<rparr>] ! j)) = (\<lambda>j. bc_prev (xs ! j))"
    "(\<lambda>j. bc_next (xs[i := (xs ! i)\<lparr>bc_prev := v\<rparr>] ! j)) = (\<lambda>j. bc_next (xs ! j))"
    "(\<lambda>j. bc_prev (xs[i := (xs ! i)\<lparr>bc_prev := v\<rparr>] ! j)) = (\<lambda>j. bc_prev (xs ! j))(i := v)"
    "(\<lambda>j. bc_next (xs[i := (xs ! i)\<lparr>bc_refcnt := r\<rparr>] ! j)) = (\<lambda>j. bc_next (xs ! j))"
    "(\<lambda>j. bc_prev (xs[i := (xs ! i)\<lparr>bc_refcnt := r\<rparr>] ! j)) = (\<lambda>j. bc_prev (xs ! j))"
  using assms by (auto simp: fun_eq_iff nth_list_update)

lemma upd_other [simp]:
  assumes "i < length xs"
  shows "bc_dev (xs[i := (xs ! i)\<lparr>bc_next := v\<rparr>] ! j) = bc_dev (xs ! j)"
    "bc_dev (xs[i := (xs ! i)\<lparr>bc_prev := v\<rparr>] ! j) = bc_dev (xs ! j)"
    "bc_dev (xs[i := (xs ! i)\<lparr>bc_refcnt := r\<rparr>] ! j) = bc_dev (xs ! j)"
    "bc_blockno (xs[i := (xs ! i)\<lparr>bc_next := v\<rparr>] ! j) = bc_blockno (xs ! j)"
    "bc_blockno (xs[i := (xs ! i)\<lparr>bc_prev := v\<rparr>] ! j) = bc_blockno (xs ! j)"
    "bc_blockno (xs[i := (xs ! i)\<lparr>bc_refcnt := r\<rparr>] ! j) = bc_blockno (xs ! j)"
    "bc_index (xs[i := (xs ! i)\<lparr>bc_next := v\<rparr>] ! j) = bc_index (xs ! j)"
    "bc_index (xs[i := (xs ! i)\<lparr>bc_prev := v\<rparr>] ! j) = bc_index (xs ! j)"
    "bc_index (xs[i := (xs ! i)\<lparr>bc_refcnt := r\<rparr>] ! j) = bc_index (xs ! j)"
    "bc_refcnt (xs[i := (xs ! i)\<lparr>bc_next := v\<rparr>] ! j) = bc_refcnt (xs ! j)"
    "bc_refcnt (xs[i := (xs ! i)\<lparr>bc_prev := v\<rparr>] ! j) = bc_refcnt (xs ! j)"
    "bc_refcnt (xs[i := (xs ! i)\<lparr>bc_refcnt := r\<rparr>] ! j) = (if j = i then r else bc_refcnt (xs ! j))"
  using assms by (auto simp: nth_list_update)

text \<open>Changing a reference count does not touch the list.\<close>

lemma lru_wf_refcnt:
  assumes "lru_wf l order" "i < NBUF"
  shows "lru_wf (l\<lparr>lru_inner := (lru_inner l)[i := (lru_inner l ! i)\<lparr>bc_refcnt := r\<rparr>]\<rparr>) order"
  using assms by (simp add: lru_wf_def)

lemma move_keep:
  assumes wf: "lru_wf l order" and i: "i < NBUF" and c: "0 < lru_refs l i"
    and keep: "lru_refs l i \<noteq> 1 \<or> i = lru_head l"
  shows "move_if_no_ref i l =
    Inr (l\<lparr>lru_inner := (lru_inner l)[i := (lru_inner l ! i)\<lparr>bc_refcnt := lru_refs l i - 1\<rparr>]\<rparr>)"
proof -
  have "i < length (lru_inner l)" using wf i by (simp add: lru_wf_def)
  with c keep show ?thesis by (auto simp: move_if_no_ref_def usize_dec_def Let_def)
qed

lemma move_front:
  assumes wf: "lru_wf l (xs @ i # ys)" and xs: "xs \<noteq> []" and c: "lru_refs l i = 1"
  shows "\<exists>l'. move_if_no_ref i l = Inr l' \<and> lru_wf l' (i # xs @ ys) \<and> same_blocks l l' \<and>
           (\<forall>j. lru_refs l' j = (if j = i then 0 else lru_refs l j))"
proof -
  let ?o = "xs @ i # ys"
  have len: "length (lru_inner l) = NBUF" and set: "set ?o = {..<NBUF}"
    and circ: "circular (lru_nx l) (lru_pv l) ?o" and d: "distinct ?o"
    and h: "lru_head l = hd xs" and t: "lru_tail l = last (i # ys)"
    and idx: "\<forall>j<NBUF. bc_index (lru_inner l ! j) = j"
    using wf xs by (auto simp: lru_wf_def circular_def)
  define p n tl' where "p = lru_pv l i" and "n = lru_nx l i"
    and "tl' = (if ys = [] then p else last ys)"
  have p: "p = last xs" using lru_prev(1) [OF wf] xs by (simp add: p_def)
  have n: "n = (if ys = [] then hd xs else hd ys)" using lru_next(1) [OF wf] h by (simp add: n_def)
  have tail: "(if lru_tail l = i then p else lru_tail l) = tl'"
    using t d by (auto simp: tl'_def)
  have in_o: "i \<in> set ?o" "p \<in> set ?o" "n \<in> set ?o" "hd xs \<in> set ?o" "tl' \<in> set ?o"
    using xs p n by (auto simp: tl'_def)
  then have lt: "i < NBUF" "p < NBUF" "n < NBUF" "hd xs < NBUF" "tl' < NBUF"
    unfolding set by simp_all
  have ih: "i \<noteq> hd xs" using d xs by auto
  define inner where "inner = (lru_inner l)[i := (lru_inner l ! i)\<lparr>bc_refcnt := 0\<rparr>]"
  define inner1 where "inner1 = inner[p := (inner ! p)\<lparr>bc_next := n\<rparr>]"
  define inner2 where "inner2 = inner1[n := (inner1 ! n)\<lparr>bc_prev := p\<rparr>]"
  define inner3 where "inner3 = inner2[i := (inner2 ! i)\<lparr>bc_prev := tl'\<rparr>]"
  define inner4 where "inner4 = inner3[i := (inner3 ! i)\<lparr>bc_next := hd xs\<rparr>]"
  define inner5 where "inner5 = inner4[hd xs := (inner4 ! hd xs)\<lparr>bc_prev := i\<rparr>]"
  define inner6 where "inner6 = inner5[tl' := (inner5 ! tl')\<lparr>bc_next := i\<rparr>]"
  note defs = inner6_def inner5_def inner4_def inner3_def inner2_def inner1_def inner_def
  let ?l = "\<lparr>lru_inner = inner6, lru_head = i, lru_tail = tl'\<rparr>"
  have get: "idx_get (lru_inner l) i = Inr (lru_inner l ! i)" "usize_dec (lru_refs l i) = Inr 0"
    using lt len c by (simp_all add: usize_dec_def)
  have move: "move_if_no_ref i l = Inr ?l"
    unfolding move_if_no_ref_def get bindR_simps Let_def p_def [symmetric] n_def [symmetric] tail
    using lt len ih h by (simp add: defs)
  have lens: "i < length (lru_inner l)" "p < length inner" "n < length inner1" "i < length inner2"
    "i < length inner3" "hd xs < length inner4" "tl' < length inner5" "length inner6 = NBUF"
    using lt len by (simp_all add: defs)
  note e = upd_links(5,6) [OF lens(1), of 0, folded inner_def]
    upd_links(1,2) [OF lens(2), of n, folded inner1_def]
    upd_links(3,4) [OF lens(3), of p, folded inner2_def]
    upd_links(3,4) [OF lens(4), of tl', folded inner3_def]
    upd_links(1,2) [OF lens(5), of "hd xs", folded inner4_def]
    upd_links(3,4) [OF lens(6), of i, folded inner5_def]
    upd_links(1,2) [OF lens(7), of i, folded inner6_def]
  note o = upd_other(3,6,9,12) [OF lens(1), of 0, folded inner_def]
    upd_other(1,4,7,10) [OF lens(2), of n, folded inner1_def]
    upd_other(2,5,8,11) [OF lens(3), of p, folded inner2_def]
    upd_other(2,5,8,11) [OF lens(4), of tl', folded inner3_def]
    upd_other(1,4,7,10) [OF lens(5), of "hd xs", folded inner4_def]
    upd_other(2,5,8,11) [OF lens(6), of i, folded inner5_def]
    upd_other(1,4,7,10) [OF lens(7), of i, folded inner6_def]
  have links: "lru_nx ?l = (((lru_nx l)(p := n))(i := hd xs))(tl' := i)"
    "lru_pv ?l = (((lru_pv l)(n := p))(i := tl'))(hd xs := i)" by (simp_all only: e buf_lru.simps)
  have "circular (lru_nx ?l) (lru_pv ?l) (i # xs @ ys)"
    unfolding links using circular_to_front [OF circ xs]
    by (simp only: p_def n_def tl'_def)
  moreover have "last (i # xs @ ys) = tl'" using xs p by (simp add: tl'_def)
  moreover have "set (i # xs @ ys) = {..<NBUF}" using set by auto
  moreover have "\<forall>j<NBUF. bc_index (inner6 ! j) = j" using idx by (simp only: o)
  ultimately have "lru_wf ?l (i # xs @ ys)"
    using lens(8) unfolding lru_wf_def by simp
  moreover have "same_blocks l ?l" unfolding same_blocks_def o buf_lru.simps by blast
  moreover have "\<forall>j. lru_refs ?l j = (if j = i then 0 else lru_refs l j)"
    unfolding o buf_lru.simps by blast
  ultimately show ?thesis using move by blast
qed

text \<open>Releasing a buffer on the abstract list.\<close>

definition release_order :: "nat \<Rightarrow> nat \<Rightarrow> nat list \<Rightarrow> nat list" where
  "release_order refs i order = (if refs = 1 then i # remove1 i order else order)"

lemma move_if_no_ref_refines:
  assumes wf: "lru_wf l order" and i: "i < NBUF" and c: "0 < lru_refs l i"
  shows "\<exists>l'. move_if_no_ref i l = Inr l' \<and>
           lru_wf l' (release_order (lru_refs l i) i order) \<and> same_blocks l l' \<and>
           (\<forall>j. lru_refs l' j = (if j = i then lru_refs l j - 1 else lru_refs l j))"
proof (cases "lru_refs l i \<noteq> 1 \<or> i = lru_head l")
  case True
  let ?l = "l\<lparr>lru_inner := (lru_inner l)[i := (lru_inner l ! i)\<lparr>bc_refcnt := lru_refs l i - 1\<rparr>]\<rparr>"
  have len: "i < length (lru_inner l)" using wf i by (simp add: lru_wf_def)
  have order: "release_order (lru_refs l i) i order = order"
    using True wf by (cases order) (auto simp: release_order_def lru_wf_def circular_def)
  have "same_blocks l ?l" "\<forall>j. lru_refs ?l j = (if j = i then lru_refs l j - 1 else lru_refs l j)"
    using len by (auto simp: same_blocks_def)
  with move_keep [OF wf i c True] lru_wf_refcnt [OF wf i, of "lru_refs l i - 1"] order
  show ?thesis by metis
next
  case False
  then have one: "lru_refs l i = 1" and ne: "i \<noteq> lru_head l" by auto
  have "i \<in> set order" using wf i by (simp add: lru_wf_def)
  then obtain xs ys where o: "order = xs @ i # ys" "i \<notin> set xs" by (meson split_list_first)
  have xs: "xs \<noteq> []" using ne wf o by (auto simp: lru_wf_def)
  have "release_order (lru_refs l i) i order = i # xs @ ys"
    using one o by (simp add: release_order_def remove1_append)
  moreover have "(if j = i then 0 else lru_refs l j) = (if j = i then lru_refs l j - 1 else lru_refs l j)" for j
    using one by simp
  ultimately show ?thesis using move_front [OF wf [unfolded o(1)] xs one] by simp
qed

end
