(* ===== verification/Rx_Bcache.thy ===== *)
theory Rx_Bcache
  imports Rx_Lru
begin

text \<open>
  What the buffer cache promises. Seen from outside it is a disk with a second, newer version of
  some blocks: \<open>cview\<close> is the contents the kernel sees, \<open>bc_disk\<close> what is on the disk, and \<open>crefs\<close>
  counts the references to each block. The contract is the locale \<open>block_cache\<close>; the
  interpretation at the end proves it for the operations of \<^verbatim>\<open>fs/bio.rs\<close>.
\<close>

section \<open>Invariant and abstraction\<close>

abbreviation ctl :: "bcache \<Rightarrow> nat \<Rightarrow> buf_ctrl" where
  "ctl s i \<equiv> lru_inner (bc_ctrl s) ! i"

text \<open>\<open>caches d s b i\<close>: buffer \<open>i\<close> caches block \<open>b\<close> of device \<open>d\<close>.\<close>

definition caches :: "u32 \<Rightarrow> bcache \<Rightarrow> u32 \<Rightarrow> nat \<Rightarrow> bool" where
  "caches d s b i \<longleftrightarrow> i < NBUF \<and> hits d b (bc_ctrl s) i"

definition bc_inv :: "u32 \<Rightarrow> bcache \<Rightarrow> bool" where
  "bc_inv d s \<longleftrightarrow>
     d \<noteq> 0 \<and> (\<exists>order. lru_wf (bc_ctrl s) order) \<and>
     length (bc_valid s) = NBUF \<and> length (bc_data s) = NBUF \<and>
     (\<forall>b i j. caches d s b i \<longrightarrow> caches d s b j \<longrightarrow> i = j) \<and>
     (\<forall>i<NBUF. bc_dev (ctl s i) \<noteq> d \<longrightarrow> bc_refcnt (ctl s i) = 0) \<and>
     (\<forall>i<NBUF. 0 < bc_refcnt (ctl s i) \<longrightarrow> bc_valid s ! i) \<and>
     (\<forall>b i. caches d s b i \<longrightarrow> bc_valid s ! i \<longrightarrow> bc_refcnt (ctl s i) = 0 \<longrightarrow>
        bc_data s ! i = bc_disk s b)"

definition slot :: "u32 \<Rightarrow> bcache \<Rightarrow> u32 \<Rightarrow> nat option" where
  "slot d s b = find (hits d b (bc_ctrl s)) [0..<NBUF]"

definition cview :: "u32 \<Rightarrow> bcache \<Rightarrow> u32 \<Rightarrow> block" where
  "cview d s b =
     (case slot d s b of
        Some i \<Rightarrow> if bc_valid s ! i then bc_data s ! i else bc_disk s b
      | None \<Rightarrow> bc_disk s b)"

definition crefs :: "u32 \<Rightarrow> bcache \<Rightarrow> u32 \<Rightarrow> nat" where
  "crefs d s b = (case slot d s b of Some i \<Rightarrow> bc_refcnt (ctl s i) | None \<Rightarrow> 0)"

definition holds :: "u32 \<Rightarrow> bcache \<Rightarrow> buf \<Rightarrow> bool" where
  "holds d s h \<longleftrightarrow>
     caches d s (buf_blockno h) (buf_index h) \<and> 0 < bc_refcnt (ctl s (buf_index h))"

lemma slot_Some: "slot d s b = Some i \<Longrightarrow> caches d s b i"
  by (auto simp: slot_def caches_def find_Some_iff)

lemma slot_None: "slot d s b = None \<longleftrightarrow> (\<forall>i. \<not> caches d s b i)"
  by (auto simp: slot_def caches_def find_None_iff)

lemma bc_inv_uniq: "bc_inv d s \<Longrightarrow> caches d s b i \<Longrightarrow> caches d s b j \<Longrightarrow> i = j"
  by (simp add: bc_inv_def)

lemma slot_eq: "bc_inv d s \<Longrightarrow> caches d s b i \<Longrightarrow> slot d s b = Some i"
  using slot_Some slot_None bc_inv_uniq by (cases "slot d s b") blast+

lemma bc_inv_valid: "bc_inv d s \<Longrightarrow> i < NBUF \<Longrightarrow> 0 < bc_refcnt (ctl s i) \<Longrightarrow> bc_valid s ! i"
  by (simp add: bc_inv_def)

lemma bc_inv_clean:
  "bc_inv d s \<Longrightarrow> caches d s b i \<Longrightarrow> bc_valid s ! i \<Longrightarrow> bc_refcnt (ctl s i) = 0 \<Longrightarrow>
   bc_data s ! i = bc_disk s b"
  by (simp add: bc_inv_def)

lemma bc_inv_lengths:
  "bc_inv d s \<Longrightarrow> length (bc_valid s) = NBUF \<and> length (bc_data s) = NBUF \<and>
   length (lru_inner (bc_ctrl s)) = NBUF"
  by (auto simp: bc_inv_def lru_wf_def)

lemma holds_slot: "bc_inv d s \<Longrightarrow> holds d s h \<Longrightarrow> slot d s (buf_blockno h) = Some (buf_index h)"
  by (simp add: holds_def slot_eq)

lemma holds_lt: "holds d s h \<Longrightarrow> buf_index h < NBUF"
  by (simp add: holds_def caches_def)

lemma holds_view:
  "bc_inv d s \<Longrightarrow> holds d s h \<Longrightarrow> cview d s (buf_blockno h) = bc_data s ! buf_index h"
  using bc_inv_valid [of d s "buf_index h"] by (simp add: cview_def holds_slot holds_def caches_def)

lemma holds_refs:
  "bc_inv d s \<Longrightarrow> holds d s h \<Longrightarrow> crefs d s (buf_blockno h) = bc_refcnt (ctl s (buf_index h))"
  by (simp add: crefs_def holds_slot)

lemma find_slot:
  assumes inv: "bc_inv d s" and wf: "lru_wf (bc_ctrl s) order"
  shows "find (hits d b (bc_ctrl s)) order = slot d s b"
proof (cases "slot d s b")
  case None
  then have "\<forall>i. \<not> caches d s b i" unfolding slot_None .
  then have "find (hits d b (bc_ctrl s)) order = None"
    using wf by (auto simp: find_None_iff caches_def lru_wf_def)
  with None show ?thesis by simp
next
  case (Some i)
  have set: "set order = {..<NBUF}" using wf by (simp add: lru_wf_def)
  have i: "caches d s b i" by (rule slot_Some [OF Some])
  then have "i \<in> set order" "hits d b (bc_ctrl s) i" unfolding set by (auto simp: caches_def)
  then obtain j where j: "find (hits d b (bc_ctrl s)) order = Some j"
    by (cases "find (hits d b (bc_ctrl s)) order") (auto simp: find_None_iff)
  then have "j \<in> set order" "hits d b (bc_ctrl s) j" by (auto simp: find_Some_iff)
  then have "caches d s b j" unfolding set by (simp add: caches_def)
  with bc_inv_uniq [OF inv i] j Some show ?thesis by simp
qed

section \<open>The initial cache\<close>

lemma new_ctl:
  "i < NBUF \<Longrightarrow> bc_dev (lru_inner buf_lru_new ! i) = 0 \<and> bc_refcnt (lru_inner buf_lru_new ! i) = 0"
  by (auto simp: buf_lru_new_def NBUF_val Let_def nth_list_update buf_ctrl_new_def)

lemma bcache_new_inv: "d \<noteq> 0 \<Longrightarrow> bc_inv d (bcache_new disk)"
  using lru_wf_new new_ctl
  by (fastforce simp: bc_inv_def bcache_new_def caches_def hits_def)

lemma bcache_new_abs:
  assumes "d \<noteq> 0"
  shows "cview d (bcache_new disk) = disk" "crefs d (bcache_new disk) = (\<lambda>_. 0)"
proof -
  have "slot d (bcache_new disk) b = None" for b
    using assms new_ctl by (auto simp: slot_None caches_def hits_def bcache_new_def)
  then show "cview d (bcache_new disk) = disk" "crefs d (bcache_new disk) = (\<lambda>_. 0)"
    by (auto simp: cview_def crefs_def fun_eq_iff bcache_new_def)
qed

section \<open>Changing a reference count\<close>

definition with_refcnt :: "nat \<Rightarrow> nat \<Rightarrow> buf_lru \<Rightarrow> buf_lru" where
  "with_refcnt i r l = l\<lparr>lru_inner := (lru_inner l)[i := (lru_inner l ! i)\<lparr>bc_refcnt := r\<rparr>]\<rparr>"

text \<open>An update of the control blocks that keeps what is cached and changes one count.\<close>

definition recount :: "bcache \<Rightarrow> nat \<Rightarrow> nat \<Rightarrow> bcache \<Rightarrow> bool" where
  "recount s i r s' \<longleftrightarrow>
     (\<exists>l'. s' = s\<lparr>bc_ctrl := l'\<rparr> \<and> (\<exists>order. lru_wf l' order) \<and> same_blocks (bc_ctrl s) l' \<and>
        (\<forall>j. lru_refs l' j = (if j = i then r else lru_refs (bc_ctrl s) j)))"

lemma recount_caches: "recount s i r s' \<Longrightarrow> caches d s' b j = caches d s b j"
  by (auto simp: recount_def caches_def hits_def same_blocks_def)

lemma recount_slot: "recount s i r s' \<Longrightarrow> slot d s' b = slot d s b"
proof -
  assume "recount s i r s'"
  then have "hits d b (bc_ctrl s') = hits d b (bc_ctrl s)"
    by (auto simp: recount_def hits_def same_blocks_def fun_eq_iff)
  then show ?thesis by (simp add: slot_def)
qed

lemma recount_fields:
  "recount s i r s' \<Longrightarrow> bc_valid s' = bc_valid s \<and> bc_data s' = bc_data s \<and> bc_disk s' = bc_disk s"
  by (auto simp: recount_def)

lemma recount_view: "recount s i r s' \<Longrightarrow> cview d s' = cview d s"
  using recount_fields [of s i r s'] recount_slot [of s i r s' d]
  by (auto simp: fun_eq_iff cview_def split: option.splits)

lemma recount_refcnt:
  "recount s i r s' \<Longrightarrow> bc_refcnt (ctl s' j) = (if j = i then r else bc_refcnt (ctl s j))"
  by (auto simp: recount_def)

lemma recount_refs:
  assumes inv: "bc_inv d s" and rec: "recount s i r s'" and b: "caches d s b i"
  shows "crefs d s' = (crefs d s)(b := r)"
proof
  fix c
  show "crefs d s' c = ((crefs d s)(b := r)) c"
  proof (cases "c = b")
    case True
    then show ?thesis using recount_slot [OF rec] slot_eq [OF inv b] recount_refcnt [OF rec]
      by (simp add: crefs_def)
  next
    case False
    have "slot d s c \<noteq> Some i"
    proof
      assume "slot d s c = Some i"
      then have "caches d s c i" by (rule slot_Some)
      with b False show False by (auto simp: caches_def hits_def)
    qed
    with False show ?thesis
      using recount_slot [OF rec] recount_refcnt [OF rec] by (auto simp: crefs_def split: option.splits)
  qed
qed

lemma recount_inv:
  assumes inv: "bc_inv d s" and rec: "recount s i r s'" and b: "caches d s b i"
    and pos: "r = 0 \<Longrightarrow> cview d s b = bc_disk s b" "0 < r \<Longrightarrow> bc_valid s ! i"
  shows "bc_inv d s'"
proof -
  have dev: "bc_dev (ctl s' j) = bc_dev (ctl s j)" for j
    using rec by (auto simp: recount_def same_blocks_def)
  have di: "bc_dev (ctl s i) = d" using b by (simp add: caches_def hits_def)
  have clean: "bc_data s ! j = bc_disk s c"
    if "caches d s c j" "bc_valid s ! j" "bc_refcnt (ctl s' j) = 0" for c j
  proof (cases "j = i")
    case True
    then have "c = b" "r = 0" using that b recount_refcnt [OF rec] by (auto simp: caches_def hits_def)
    with pos(1) that(2) True show ?thesis by (simp add: cview_def slot_eq [OF inv b])
  next
    case False
    with that recount_refcnt [OF rec] show ?thesis using bc_inv_clean [OF inv] by simp
  qed
  have "\<exists>order. lru_wf (bc_ctrl s') order" using rec by (auto simp: recount_def)
  then show ?thesis
    using inv recount_fields [OF rec] pos(2) di clean
    unfolding bc_inv_def recount_caches [OF rec] dev recount_refcnt [OF rec] by auto
qed

lemma recount_holds:
  "recount s i r s' \<Longrightarrow> 0 < r \<or> buf_index h \<noteq> i \<Longrightarrow> holds d s h \<Longrightarrow> holds d s' h"
  using recount_caches [of s i r s' d] recount_refcnt [of s i r s'] by (auto simp: holds_def)

lemma with_refcnt_recount:
  assumes "bc_inv d s" "i < NBUF"
  shows "recount s i r (s\<lparr>bc_ctrl := with_refcnt i r (bc_ctrl s)\<rparr>)"
proof -
  obtain order where wf: "lru_wf (bc_ctrl s) order" using assms(1) by (auto simp: bc_inv_def)
  have "i < length (lru_inner (bc_ctrl s))" using bc_inv_lengths [OF assms(1)] assms(2) by simp
  then have "same_blocks (bc_ctrl s) (with_refcnt i r (bc_ctrl s))"
    "\<forall>j. lru_refs (with_refcnt i r (bc_ctrl s)) j = (if j = i then r else lru_refs (bc_ctrl s) j)"
    by (simp_all add: same_blocks_def with_refcnt_def)
  moreover have "lru_wf (with_refcnt i r (bc_ctrl s)) order"
    using lru_wf_refcnt [OF wf assms(2)] by (simp add: with_refcnt_def)
  ultimately show ?thesis by (auto simp: recount_def)
qed

section \<open>Loading a block into a buffer\<close>

text \<open>Buffer \<open>i\<close>, unused before, takes over block \<open>b\<close>, with its contents from the disk.\<close>

definition loaded :: "u32 \<Rightarrow> bcache \<Rightarrow> u32 \<Rightarrow> nat \<Rightarrow> bcache" where
  "loaded d s b i =
     s\<lparr>bc_ctrl := (bc_ctrl s)\<lparr>lru_inner := (lru_inner (bc_ctrl s))
            [i := (ctl s i)\<lparr>bc_refcnt := 1, bc_dev := d, bc_blockno := b\<rparr>]\<rparr>,
       bc_valid := (bc_valid s)[i := True],
       bc_data := (bc_data s)[i := bc_disk s b]\<rparr>"

lemma loaded_ctl:
  assumes "i < length (lru_inner (bc_ctrl s))"
  shows "ctl (loaded d s b i) j =
    (if j = i then (ctl s i)\<lparr>bc_refcnt := 1, bc_dev := d, bc_blockno := b\<rparr> else ctl s j)"
  using assms by (auto simp: loaded_def nth_list_update)

lemma loaded_caches:
  assumes "bc_inv d s" "i < NBUF"
  shows "caches d (loaded d s b i) c j \<longleftrightarrow>
    (if j = i then c = b else caches d s c j)"
proof -
  have "i < length (lru_inner (bc_ctrl s))" using bc_inv_lengths [OF assms(1)] assms(2) by simp
  from loaded_ctl [OF this, of d b] assms(2) show ?thesis
    by (auto simp: caches_def hits_def)
qed

lemma loaded_wf:
  assumes "lru_wf (bc_ctrl s) order" "i < NBUF"
  shows "lru_wf (bc_ctrl (loaded d s b i)) order"
proof -
  have i: "i < length (lru_inner (bc_ctrl s))" using assms by (simp add: lru_wf_def)
  have "lru_nx (bc_ctrl (loaded d s b i)) = lru_nx (bc_ctrl s)"
    "lru_pv (bc_ctrl (loaded d s b i)) = lru_pv (bc_ctrl s)"
    using loaded_ctl [OF i, of d b] by (auto simp: fun_eq_iff)
  moreover have "\<forall>j<NBUF. bc_index (ctl (loaded d s b i) j) = j"
    using loaded_ctl [OF i, of d b] assms by (auto simp: lru_wf_def)
  ultimately show ?thesis using assms by (simp add: lru_wf_def) (simp add: loaded_def)
qed

lemma loaded_spec:
  assumes inv: "bc_inv d s" and i: "i < NBUF" "bc_refcnt (ctl s i) = 0"
    and none: "\<And>j. j \<noteq> i \<Longrightarrow> \<not> caches d s b j"
    and fresh: "caches d s b i \<Longrightarrow> \<not> bc_valid s ! i"
  shows "bc_inv d (loaded d s b i)" "cview d (loaded d s b i) = cview d s"
    "crefs d (loaded d s b i) = (crefs d s)(b := 1)"
    "bc_disk (loaded d s b i) = bc_disk s"
    "\<And>h. holds d s h \<Longrightarrow> holds d (loaded d s b i) h"
    "holds d (loaded d s b i) \<lparr>buf_index = i, buf_dev = d, buf_blockno = b\<rparr>"
proof -
  let ?s = "loaded d s b i"
  note lens = bc_inv_lengths [OF inv]
  have len: "i < length (lru_inner (bc_ctrl s))" using lens i by simp
  note ca = loaded_caches [OF inv i(1), of b]
  note ct = loaded_ctl [OF len, of d b]
  have val: "bc_valid ?s ! j = (j = i \<or> bc_valid s ! j)" if "j < NBUF" for j
    using that lens i by (auto simp: loaded_def nth_list_update)
  have dat: "bc_data ?s ! j = (if j = i then bc_disk s b else bc_data s ! j)" if "j < NBUF" for j
    using that lens i by (auto simp: loaded_def nth_list_update)
  show disk: "bc_disk ?s = bc_disk s" by (simp add: loaded_def)
  obtain order where "lru_wf (bc_ctrl s) order" using inv by (auto simp: bc_inv_def)
  then have wf: "lru_wf (bc_ctrl ?s) order" using i(1) by (rule loaded_wf)
  show inv': "bc_inv d ?s"
    unfolding bc_inv_def
  proof (intro conjI allI impI)
    show "d \<noteq> 0" using inv by (simp add: bc_inv_def)
    show "\<exists>order. lru_wf (bc_ctrl ?s) order" using wf by blast
    show "length (bc_valid ?s) = NBUF" "length (bc_data ?s) = NBUF"
      using lens by (simp_all add: loaded_def)
    show "j = k" if "caches d ?s c j" "caches d ?s c k" for c j k
      using that none bc_inv_uniq [OF inv, of c j k] unfolding ca by (auto split: if_splits)
    show "bc_refcnt (ctl ?s j) = 0" if "j < NBUF" "bc_dev (ctl ?s j) \<noteq> d" for j
      using that inv unfolding ct bc_inv_def by (auto split: if_splits)
    show "bc_valid ?s ! j" if "j < NBUF" "0 < bc_refcnt (ctl ?s j)" for j
      using that val [of j] bc_inv_valid [OF inv, of j] unfolding ct by (auto split: if_splits)
    show "bc_data ?s ! j = bc_disk ?s c"
      if "caches d ?s c j" "bc_valid ?s ! j" "bc_refcnt (ctl ?s j) = 0" for c j
    proof -
      have "j < NBUF" using that(1) by (simp add: caches_def)
      with that show ?thesis
        using val [of j] dat [of j] bc_inv_clean [OF inv, of c j] disk unfolding ca ct
        by (auto split: if_splits)
    qed
  qed
  have sb: "slot d ?s b = Some i" by (rule slot_eq [OF inv']) (simp add: ca)
  have sc: "slot d ?s c = (if slot d s c = Some i then None else slot d s c)" if "c \<noteq> b" for c
  proof (cases "slot d s c")
    case None
    then have "\<forall>j. \<not> caches d s c j" unfolding slot_None .
    then have "\<forall>j. \<not> caches d ?s c j" using that by (simp add: ca)
    with None show ?thesis by (simp add: slot_None [symmetric])
  next
    case (Some j)
    then have j: "caches d s c j" by (rule slot_Some)
    show ?thesis
    proof (cases "j = i")
      case True
      have "\<not> caches d ?s c k" for k using bc_inv_uniq [OF inv j, of k] that True unfolding ca by auto
      then have "slot d ?s c = None" by (simp add: slot_None)
      with Some True show ?thesis by simp
    next
      case False
      with j have "caches d ?s c j" by (simp add: ca)
      with Some False slot_eq [OF inv'] show ?thesis by simp
    qed
  qed
  have old: "cview d s c = bc_disk s c" if "slot d s c = Some i" for c
    using bc_inv_clean [OF inv slot_Some [OF that]] i(2) that by (auto simp: cview_def)
  have oldb: "cview d s b = bc_disk s b"
  proof (cases "slot d s b")
    case (Some j)
    with none slot_Some [OF Some] have "j = i" by blast
    with old Some show ?thesis by simp
  qed (simp add: cview_def)
  show "cview d ?s = cview d s"
  proof
    fix c
    show "cview d ?s c = cview d s c"
    proof (cases "c = b")
      case True
      then show ?thesis using sb val [OF i(1)] dat [OF i(1)] oldb by (simp add: cview_def)
    next
      case False
      have "j < NBUF" if "slot d s c = Some j" for j using slot_Some [OF that] by (simp add: caches_def)
      with sc [OF False] old [of c] disk show ?thesis
        by (auto simp: cview_def val dat split: option.splits)
    qed
  qed
  show "crefs d ?s = (crefs d s)(b := 1)"
  proof
    fix c
    show "crefs d ?s c = ((crefs d s)(b := 1)) c"
      using sb sc [of c] i(2) ct by (cases "c = b") (auto simp: crefs_def split: option.splits)
  qed
  show "holds d ?s h" if "holds d s h" for h
  proof -
    have "buf_index h \<noteq> i" using that i(2) by (auto simp: holds_def)
    with that ct ca show ?thesis by (simp add: holds_def)
  qed
  show "holds d ?s \<lparr>buf_index = i, buf_dev = d, buf_blockno = b\<rparr>" by (simp add: holds_def ca ct)
qed

section \<open>Reading a block\<close>

text \<open>A block can be read when it is referenced already or fewer blocks than there are buffers
  are referenced.\<close>

definition room :: "(u32 \<Rightarrow> nat) \<Rightarrow> u32 \<Rightarrow> bool" where
  "room refs b \<longleftrightarrow> refs b < 2 ^ 64 - 1 \<and> (0 < refs b \<or> card {c. 0 < refs c} < NBUF)"

lemma room_unused:
  assumes inv: "bc_inv d s" and lt: "card {c. 0 < crefs d s c} < NBUF"
  shows "\<exists>i<NBUF. bc_refcnt (ctl s i) = 0"
proof (rule ccontr)
  assume "\<not> ?thesis"
  then have used: "0 < bc_refcnt (ctl s i)" if "i < NBUF" for i using that by auto
  have ca: "caches d s (bc_blockno (ctl s i)) i" if "i < NBUF" for i
    using used [OF that] that inv by (auto simp: caches_def hits_def bc_inv_def)
  have "inj_on (\<lambda>i. bc_blockno (ctl s i)) {..<NBUF}"
    using ca bc_inv_uniq [OF inv] by (intro inj_onI) (metis lessThan_iff)
  moreover have "(\<lambda>i. bc_blockno (ctl s i)) ` {..<NBUF} \<subseteq> {c. 0 < crefs d s c}"
  proof
    fix c assume "c \<in> (\<lambda>i. bc_blockno (ctl s i)) ` {..<NBUF}"
    then obtain i where "i < NBUF" "c = bc_blockno (ctl s i)" by auto
    then show "c \<in> {c. 0 < crefs d s c}"
      using slot_eq [OF inv ca] used by (simp add: crefs_def)
  qed
  ultimately have "card {..<NBUF} \<le> card {c. 0 < crefs d s c}" by (intro card_inj_on_le) auto
  with lt show False by simp
qed

lemma find_SomeD: "find P xs = Some j \<Longrightarrow> j \<in> set xs \<and> P j"
  by (induction xs) (auto split: if_splits)

lemma find_rev_unused:
  assumes wf: "lru_wf l order" and i: "i < NBUF" "lru_refs l i = 0"
  obtains j where "find (is_unused l) (rev order) = Some j" "j < NBUF" "lru_refs l j = 0"
proof -
  have set: "set order = {..<NBUF}" using wf by (simp add: lru_wf_def)
  with i obtain j where j: "find (is_unused l) (rev order) = Some j"
    by (cases "find (is_unused l) (rev order)") (auto simp: find_None_iff is_unused_def)
  from find_SomeD [OF this] have "j < NBUF" "lru_refs l j = 0" using set by (auto simp: is_unused_def)
  with that j show thesis by blast
qed

lemma read_loaded:
  assumes inv: "bc_inv d s" and i: "i < NBUF"
    and get: "bcache_get d b s = Inr (\<lparr>buf_index = i, buf_dev = d, buf_blockno = b\<rparr>, s1)"
    and s1: "length (bc_valid s1) = NBUF" "length (bc_data s1) = NBUF" "\<not> bc_valid s1 ! i"
    and eq: "s1\<lparr>bc_valid := (bc_valid s1)[i := True],
                bc_data := (bc_data s1)[i := bc_disk s1 b]\<rparr> = loaded d s b i"
  shows "bcache_read d b s =
           Inr (\<lparr>buf_index = i, buf_dev = d, buf_blockno = b\<rparr>, loaded d s b i)"
  using get s1 i by (simp add: bcache_read_def disk_rw_def eq [symmetric])

lemma bcache_read_spec:
  assumes inv: "bc_inv d s" and room: "room (crefs d s) b"
  obtains h s' where "bcache_read d b s = Inr (h, s')" "buf_blockno h = b" "bc_inv d s'"
    "cview d s' = cview d s" "bc_disk s' = bc_disk s"
    "crefs d s' = (crefs d s)(b := crefs d s b + 1)" "holds d s' h"
    "\<And>g. holds d s g \<Longrightarrow> holds d s' g"
proof -
  obtain order where wf: "lru_wf (bc_ctrl s) order" using inv by (auto simp: bc_inv_def)
  note lens = bc_inv_lengths [OF inv]
  note find = find_cached_eq [OF wf, of d b, unfolded find_slot [OF inv wf, of b]]
  have max: "crefs d s b < 2 ^ 64 - 1" using room by (simp add: room_def)
  show thesis
  proof (cases "slot d s b")
    case (Some i)
    then have ca: "caches d s b i" by (rule slot_Some)
    then have i: "i < NBUF" by (simp add: caches_def)
    have r: "bc_refcnt (ctl s i) = crefs d s b" using Some by (simp add: crefs_def)
    let ?h = "\<lparr>buf_index = i, buf_dev = d, buf_blockno = b\<rparr>"
    let ?s1 = "s\<lparr>bc_ctrl := with_refcnt i (crefs d s b + 1) (bc_ctrl s)\<rparr>"
    have get: "bcache_get d b s = Inr (?h, ?s1)"
      using find Some r max lens i
      by (simp add: bcache_get_def usize_inc_def with_refcnt_def)
    show thesis
    proof (cases "bc_valid s ! i")
      case True
      have rec: "recount s i (crefs d s b + 1) ?s1" by (rule with_refcnt_recount [OF inv i])
      have "bcache_read d b s = Inr (?h, ?s1)"
        using get True lens i by (simp add: bcache_read_def)
      moreover have "bc_inv d ?s1" by (rule recount_inv [OF inv rec ca]) (use True in simp_all)
      moreover have "holds d ?s1 ?h"
        using recount_caches [OF rec] recount_refcnt [OF rec] ca by (simp add: holds_def)
      ultimately show thesis
        using that [of ?h ?s1] recount_view [OF rec] recount_refs [OF inv rec ca]
          recount_holds [OF rec] by simp
    next
      case False
      then have r0: "bc_refcnt (ctl s i) = 0" using bc_inv_valid [OF inv i] by auto
      have dev: "bc_dev (ctl s i) = d" "bc_blockno (ctl s i) = b" using ca by (auto simp: caches_def hits_def)
      have "bcache_read d b s = Inr (?h, loaded d s b i)"
      proof (rule read_loaded [OF inv i get])
        have "(ctl s i)\<lparr>bc_refcnt := 1\<rparr> = (ctl s i)\<lparr>bc_refcnt := 1, bc_dev := d, bc_blockno := b\<rparr>"
          using dev by (cases "ctl s i") simp
        then show "?s1\<lparr>bc_valid := (bc_valid ?s1)[i := True],
            bc_data := (bc_data ?s1)[i := bc_disk ?s1 b]\<rparr> = loaded d s b i"
          using r r0 by (simp add: with_refcnt_def loaded_def)
      qed (use lens False in simp_all)
      moreover note loaded_spec [OF inv i r0, of b]
      moreover have "\<not> caches d s b j" if "j \<noteq> i" for j using bc_inv_uniq [OF inv ca, of j] that by auto
      ultimately show thesis using that [of ?h "loaded d s b i"] False r r0 by simp
    qed
  next
    case None
    then have nc: "\<And>j. \<not> caches d s b j" unfolding slot_None by blast
    have r0: "crefs d s b = 0" using None by (simp add: crefs_def)
    then obtain k where k: "k < NBUF" "bc_refcnt (ctl s k) = 0"
      using room room_unused [OF inv] by (auto simp: room_def)
    obtain i where i: "find (is_unused (bc_ctrl s)) (rev order) = Some i" "i < NBUF"
      "bc_refcnt (ctl s i) = 0" by (rule find_rev_unused [OF wf k])
    let ?h = "\<lparr>buf_index = i, buf_dev = d, buf_blockno = b\<rparr>"
    let ?l = "(bc_ctrl s)\<lparr>lru_inner := (lru_inner (bc_ctrl s))
      [i := (ctl s i)\<lparr>bc_refcnt := 1, bc_dev := d, bc_blockno := b\<rparr>]\<rparr>"
    let ?s1 = "s\<lparr>bc_ctrl := ?l, bc_valid := (bc_valid s)[i := False]\<rparr>"
    have get: "bcache_get d b s = Inr (?h, ?s1)"
      using find None recycle_eq [OF wf, of d b] i lens by (simp add: bcache_get_def)
    have "bcache_read d b s = Inr (?h, loaded d s b i)"
      by (rule read_loaded [OF inv i(2) get]) (use lens i in \<open>simp_all add: loaded_def\<close>)
    then show thesis
      using that [of ?h "loaded d s b i"] loaded_spec [OF inv i(2,3), of b] nc r0 by simp
  qed
qed

section \<open>Using a held buffer\<close>

lemma raw_data_spec:
  "bc_inv d s \<Longrightarrow> holds d s h \<Longrightarrow> raw_data h s = Inr (cview d s (buf_blockno h))"
  using bc_inv_lengths [of d s] holds_lt [of d s h] by (simp add: raw_data_def holds_view)

lemma held_other:
  assumes "bc_inv d s" "holds d s h" "caches d s c (buf_index h)"
  shows "c = buf_blockno h"
  using assms by (auto simp: holds_def caches_def hits_def)

lemma set_raw_data_spec:
  assumes inv: "bc_inv d s" and h: "holds d s h"
  obtains s' where "set_raw_data h x s = Inr s'" "bc_inv d s'"
    "cview d s' = (cview d s)(buf_blockno h := x)" "bc_disk s' = bc_disk s" "crefs d s' = crefs d s"
    "\<And>g. holds d s' g \<longleftrightarrow> holds d s g"
proof -
  note lens = bc_inv_lengths [OF inv] and lt = holds_lt [OF h]
  let ?i = "buf_index h" and ?s = "s\<lparr>bc_data := (bc_data s)[buf_index h := x]\<rparr>"
  have ca: "caches d ?s b i = caches d s b i" for b i by (simp add: caches_def)
  have sl: "slot d ?s b = slot d s b" for b by (simp add: slot_def)
  have pos: "0 < bc_refcnt (ctl s ?i)" using h by (simp add: holds_def)
  have "(bc_data s)[?i := x] ! i = bc_disk s b"
    if "caches d s b i" "bc_valid s ! i" "bc_refcnt (ctl s i) = 0" for b i
  proof -
    have "i \<noteq> ?i" using that(3) pos by auto
    with bc_inv_clean [OF inv that] show ?thesis by simp
  qed
  then have "bc_inv d ?s" using inv unfolding bc_inv_def ca by auto
  moreover have "cview d ?s = (cview d s)(buf_blockno h := x)"
  proof
    fix c
    have "slot d s c = Some ?i \<Longrightarrow> c = buf_blockno h"
      using held_other [OF inv h slot_Some] by blast
    then show "cview d ?s c = ((cview d s)(buf_blockno h := x)) c"
      using holds_slot [OF inv h] bc_inv_valid [OF inv lt pos] lens lt
      by (cases "slot d s c") (auto simp: cview_def sl nth_list_update)
  qed
  moreover have "crefs d ?s = crefs d s" by (auto simp: fun_eq_iff crefs_def sl split: option.splits)
  moreover have "holds d ?s g \<longleftrightarrow> holds d s g" for g by (simp add: holds_def ca)
  ultimately show thesis using that lens lt by (simp add: set_raw_data_def)
qed

lemma buf_write_spec:
  assumes inv: "bc_inv d s" and h: "holds d s h"
  obtains s' where "buf_write h s = Inr s'" "bc_inv d s'" "cview d s' = cview d s"
    "bc_disk s' = (bc_disk s)(buf_blockno h := cview d s (buf_blockno h))" "crefs d s' = crefs d s"
    "\<And>g. holds d s' g \<longleftrightarrow> holds d s g"
proof -
  note lens = bc_inv_lengths [OF inv] and lt = holds_lt [OF h]
  let ?b = "buf_blockno h" and ?x = "bc_data s ! buf_index h"
  let ?s = "s\<lparr>bc_disk := (bc_disk s)(?b := ?x)\<rparr>"
  have ca: "caches d ?s b i = caches d s b i" for b i by (simp add: caches_def)
  have sl: "slot d ?s b = slot d s b" for b by (simp add: slot_def)
  have x: "?x = cview d s ?b" by (simp add: holds_view [OF inv h])
  have cb: "caches d s ?b (buf_index h)" "0 < bc_refcnt (ctl s (buf_index h))"
    using h by (simp_all add: holds_def)
  have "bc_data s ! i = ((bc_disk s)(?b := ?x)) b"
    if "caches d s b i" "bc_valid s ! i" "bc_refcnt (ctl s i) = 0" for b i
    using bc_inv_clean [OF inv that] bc_inv_uniq [OF inv that(1)] cb that(3) by auto
  then have "bc_inv d ?s" using inv unfolding bc_inv_def ca by auto
  moreover have "cview d ?s = cview d s"
    using holds_slot [OF inv h] bc_inv_valid [OF inv lt cb(2)]
    by (auto simp: fun_eq_iff cview_def sl split: option.splits)
  moreover have "crefs d ?s = crefs d s" by (auto simp: fun_eq_iff crefs_def sl split: option.splits)
  moreover have "holds d ?s g \<longleftrightarrow> holds d s g" for g by (simp add: holds_def ca)
  ultimately show thesis using that [of ?s] lens lt x by (simp add: buf_write_def disk_rw_def)
qed

lemma buf_drop_spec:
  assumes inv: "bc_inv d s" and h: "holds d s h"
    and clean: "1 < crefs d s (buf_blockno h) \<or> cview d s (buf_blockno h) = bc_disk s (buf_blockno h)"
  obtains s' where "buf_drop h s = Inr s'" "bc_inv d s'" "cview d s' = cview d s"
    "bc_disk s' = bc_disk s"
    "crefs d s' = (crefs d s)(buf_blockno h := crefs d s (buf_blockno h) - 1)"
    "\<And>g. holds d s g \<Longrightarrow> 1 < crefs d s (buf_blockno h) \<or> buf_blockno g \<noteq> buf_blockno h \<Longrightarrow> holds d s' g"
proof -
  let ?i = "buf_index h" and ?b = "buf_blockno h"
  obtain order where wf: "lru_wf (bc_ctrl s) order" using inv by (auto simp: bc_inv_def)
  have ca: "caches d s ?b ?i" and pos: "0 < bc_refcnt (ctl s ?i)" using h by (simp_all add: holds_def)
  have r: "bc_refcnt (ctl s ?i) = crefs d s ?b" by (simp add: holds_refs [OF inv h])
  obtain l' where l': "move_if_no_ref ?i (bc_ctrl s) = Inr l'"
    "\<exists>order. lru_wf l' order" "same_blocks (bc_ctrl s) l'"
    "\<forall>j. lru_refs l' j = (if j = ?i then lru_refs (bc_ctrl s) j - 1 else lru_refs (bc_ctrl s) j)"
    using move_if_no_ref_refines [OF wf holds_lt [OF h] pos] by blast
  let ?s = "s\<lparr>bc_ctrl := l'\<rparr>"
  have "\<forall>j. lru_refs l' j = (if j = ?i then crefs d s ?b - 1 else lru_refs (bc_ctrl s) j)"
    using l'(4) r by auto
  with l'(2,3) have rec: "recount s ?i (crefs d s ?b - 1) ?s" by (auto simp: recount_def)
  have "bc_inv d ?s"
    by (rule recount_inv [OF inv rec ca])
      (use clean bc_inv_valid [OF inv holds_lt [OF h] pos] in auto)
  moreover have "holds d ?s g"
    if "holds d s g" "1 < crefs d s ?b \<or> buf_blockno g \<noteq> ?b" for g
  proof (rule recount_holds [OF rec _ that(1)])
    have "buf_index g \<noteq> ?i" if "buf_blockno g \<noteq> ?b"
      using held_other [OF inv h, of "buf_blockno g"] \<open>holds d s g\<close> that by (auto simp: holds_def)
    with that(2) show "0 < crefs d s ?b - 1 \<or> buf_index g \<noteq> ?i" by auto
  qed
  ultimately show thesis
    using that [of ?s] l'(1) recount_view [OF rec] recount_refs [OF inv rec ca]
    by (simp add: buf_drop_def bcache_release_def)
qed

lemma upd_refcnt_spec:
  assumes inv: "bc_inv d s" and h: "holds d s h" and f: "f (crefs d s (buf_blockno h)) = Inr r" "0 < r"
  obtains s' where "upd_refcnt f h s = Inr s'" "bc_inv d s'" "cview d s' = cview d s"
    "bc_disk s' = bc_disk s" "crefs d s' = (crefs d s)(buf_blockno h := r)"
    "\<And>g. holds d s g \<Longrightarrow> holds d s' g"
proof -
  let ?i = "buf_index h" and ?s = "s\<lparr>bc_ctrl := with_refcnt (buf_index h) r (bc_ctrl s)\<rparr>"
  note lens = bc_inv_lengths [OF inv] and lt = holds_lt [OF h]
  have ca: "caches d s (buf_blockno h) ?i" and pos: "0 < bc_refcnt (ctl s ?i)"
    using h by (simp_all add: holds_def)
  have rec: "recount s ?i r ?s" by (rule with_refcnt_recount [OF inv lt])
  have "bc_inv d ?s"
    by (rule recount_inv [OF inv rec ca]) (use f(2) bc_inv_valid [OF inv lt pos] in auto)
  moreover have "upd_refcnt f h s = Inr ?s"
    using lens lt f(1) holds_refs [OF inv h] by (simp add: upd_refcnt_def with_refcnt_def)
  ultimately show thesis
    using that [of ?s] recount_view [OF rec] recount_refs [OF inv rec ca] recount_holds [OF rec] f(2)
    by simp
qed

section \<open>The contract\<close>

locale block_cache =
  fixes inv :: "'s \<Rightarrow> bool"
    and view disk :: "'s \<Rightarrow> u32 \<Rightarrow> block"
    and refs :: "'s \<Rightarrow> u32 \<Rightarrow> nat"
    and held :: "'s \<Rightarrow> 'h \<Rightarrow> bool"
    and blockno :: "'h \<Rightarrow> u32"
    and read :: "u32 \<Rightarrow> 's \<Rightarrow> ('h \<times> 's) outcome"
    and fetch :: "'h \<Rightarrow> 's \<Rightarrow> block outcome"
    and store :: "'h \<Rightarrow> block \<Rightarrow> 's \<Rightarrow> 's outcome"
    and sync release unpin :: "'h \<Rightarrow> 's \<Rightarrow> 's outcome"
  assumes read_law: "inv s \<Longrightarrow> room (refs s) b \<Longrightarrow>
      \<exists>h s'. read b s = Inr (h, s') \<and> blockno h = b \<and> inv s' \<and> view s' = view s \<and>
        disk s' = disk s \<and> refs s' = (refs s)(b := refs s b + 1) \<and> held s' h \<and>
        (\<forall>g. held s g \<longrightarrow> held s' g)"
    and fetch_law: "inv s \<Longrightarrow> held s h \<Longrightarrow> fetch h s = Inr (view s (blockno h))"
    and store_law: "inv s \<Longrightarrow> held s h \<Longrightarrow>
      \<exists>s'. store h x s = Inr s' \<and> inv s' \<and> view s' = (view s)(blockno h := x) \<and>
        disk s' = disk s \<and> refs s' = refs s \<and> (\<forall>g. held s' g \<longleftrightarrow> held s g)"
    and sync_law: "inv s \<Longrightarrow> held s h \<Longrightarrow>
      \<exists>s'. sync h s = Inr s' \<and> inv s' \<and> view s' = view s \<and>
        disk s' = (disk s)(blockno h := view s (blockno h)) \<and> refs s' = refs s \<and>
        (\<forall>g. held s' g \<longleftrightarrow> held s g)"
    and release_law: "inv s \<Longrightarrow> held s h \<Longrightarrow>
      1 < refs s (blockno h) \<or> view s (blockno h) = disk s (blockno h) \<Longrightarrow>
      \<exists>s'. release h s = Inr s' \<and> inv s' \<and> view s' = view s \<and> disk s' = disk s \<and>
        refs s' = (refs s)(blockno h := refs s (blockno h) - 1) \<and>
        (\<forall>g. held s g \<longrightarrow> 1 < refs s (blockno h) \<or> blockno g \<noteq> blockno h \<longrightarrow> held s' g)"
    and unpin_law: "inv s \<Longrightarrow> held s h \<Longrightarrow> 1 < refs s (blockno h) \<Longrightarrow>
      \<exists>s'. unpin h s = Inr s' \<and> inv s' \<and> view s' = view s \<and> disk s' = disk s \<and>
        refs s' = (refs s)(blockno h := refs s (blockno h) - 1) \<and> (\<forall>g. held s g \<longrightarrow> held s' g)"
begin

text \<open>Read a block, change it, write it through and release it.\<close>

lemma update_block:
  assumes inv: "inv s" and room: "room (refs s) b"
  shows "\<exists>s'. bindR (read b s) (\<lambda>(h, s). bindR (fetch h s) (\<lambda>x. bindR (store h (f x) s) (\<lambda>s.
           bindR (sync h s) (\<lambda>s. release h s)))) = Inr s' \<and> inv s' \<and>
         view s' = (view s)(b := f (view s b)) \<and> disk s' = (disk s)(b := f (view s b)) \<and>
         refs s' = refs s"
proof -
  obtain h s1 where r: "read b s = Inr (h, s1)" "blockno h = b" "inv s1" "view s1 = view s"
    "disk s1 = disk s" "refs s1 = (refs s)(b := refs s b + 1)" "held s1 h"
    using read_law [OF inv room] by blast
  obtain s2 where st: "store h (f (view s b)) s1 = Inr s2" "inv s2"
    "view s2 = (view s)(b := f (view s b))" "disk s2 = disk s" "refs s2 = refs s1" "held s2 h"
    using store_law [OF r(3,7), of "f (view s b)"] r by auto
  obtain s3 where sy: "sync h s2 = Inr s3" "inv s3" "view s3 = view s2"
    "disk s3 = (disk s)(b := f (view s b))" "refs s3 = refs s1" "held s3 h"
    using sync_law [OF st(2,6)] st r by auto
  have "1 < refs s3 (blockno h) \<or> view s3 (blockno h) = disk s3 (blockno h)"
    using sy st r by simp
  from release_law [OF sy(2,6) this] obtain s4 where "release h s3 = Inr s4" "inv s4"
    "view s4 = view s3" "disk s4 = disk s3" "refs s4 = (refs s3)(b := refs s3 b - 1)"
    using r(2) by auto
  then show ?thesis using r st sy fetch_law [OF r(3,7)] by (auto simp: fun_eq_iff)
qed

text \<open>Read a block, look at it and release it.\<close>

lemma peek_block:
  assumes inv: "inv s" and room: "room (refs s) b" and clean: "0 < refs s b \<or> view s b = disk s b"
  shows "\<exists>h s1 s'. read b s = Inr (h, s1) \<and> fetch h s1 = Inr (view s b) \<and> release h s1 = Inr s' \<and>
         inv s' \<and> view s' = view s \<and> disk s' = disk s \<and> refs s' = refs s"
proof -
  obtain h s1 where r: "read b s = Inr (h, s1)" "blockno h = b" "inv s1" "view s1 = view s"
    "disk s1 = disk s" "refs s1 = (refs s)(b := refs s b + 1)" "held s1 h"
    using read_law [OF inv room] by blast
  have "1 < refs s1 (blockno h) \<or> view s1 (blockno h) = disk s1 (blockno h)" using r clean by auto
  from release_law [OF r(3,7) this] obtain s4 where "release h s1 = Inr s4" "inv s4"
    "view s4 = view s1" "disk s4 = disk s1" "refs s4 = (refs s1)(b := refs s1 b - 1)"
    using r(2) by auto
  then show ?thesis using r fetch_law [OF r(3,7)] by (auto simp: fun_eq_iff)
qed

text \<open>Hold two different blocks, copy the second to the first and write the first through.\<close>

lemma copy_to_first:
  assumes inv: "inv s" and ne: "a \<noteq> b" and ra: "room (refs s) a"
    and rb: "room ((refs s)(a := refs s a + 1)) b" and live: "0 < refs s b \<or> view s b = disk s b"
  shows "\<exists>s'. bindR (read a s) (\<lambda>(h, s). bindR (read b s) (\<lambda>(g, s). bindR (fetch g s) (\<lambda>x.
           bindR (store h x s) (\<lambda>s. bindR (sync h s) (\<lambda>s. bindR (release g s) (\<lambda>s. release h s)))))) =
           Inr s' \<and> inv s' \<and> view s' = (view s)(a := view s b) \<and>
         disk s' = (disk s)(a := view s b) \<and> refs s' = refs s"
proof -
  obtain h s1 where r: "read a s = Inr (h, s1)" "blockno h = a" "inv s1" "view s1 = view s"
    "disk s1 = disk s" "refs s1 = (refs s)(a := refs s a + 1)" "held s1 h"
    using read_law [OF inv ra] by blast
  obtain g s2 where q: "read b s1 = Inr (g, s2)" "blockno g = b" "inv s2" "view s2 = view s"
    "disk s2 = disk s" "refs s2 = (refs s1)(b := refs s1 b + 1)" "held s2 g" "held s2 h"
    using read_law [OF r(3), of b] rb r by auto
  obtain s3 where st: "store h (view s b) s2 = Inr s3" "inv s3"
    "view s3 = (view s)(a := view s b)" "disk s3 = disk s" "refs s3 = refs s2" "held s3 h" "held s3 g"
    using store_law [OF q(3,8), of "view s b"] q r by auto
  obtain s4 where sy: "sync h s3 = Inr s4" "inv s4" "view s4 = view s3"
    "disk s4 = (disk s)(a := view s b)" "refs s4 = refs s2" "held s4 h" "held s4 g"
    using sync_law [OF st(2,6)] st r by auto
  have "1 < refs s4 (blockno g) \<or> view s4 (blockno g) = disk s4 (blockno g)"
    using sy st q r ne live by auto
  from release_law [OF sy(2,7) this] obtain s5 where u: "release g s4 = Inr s5" "inv s5"
    "view s5 = view s4" "disk s5 = disk s4" "refs s5 = (refs s4)(b := refs s4 b - 1)" "held s5 h"
    using q(2) r(2) ne sy(6) by auto
  have "1 < refs s5 (blockno h) \<or> view s5 (blockno h) = disk s5 (blockno h)"
    using u sy st r by simp
  from release_law [OF u(2,6) this] obtain s6 where "release h s5 = Inr s6" "inv s6"
    "view s6 = view s5" "disk s6 = disk s5" "refs s6 = (refs s5)(a := refs s5 a - 1)"
    using r(2) by auto
  then show ?thesis
    using r q st sy u ne fetch_law [OF q(3,7)] by (auto simp: fun_eq_iff)
qed

text \<open>Copy the first to the second and write the second through; the second may be pinned, and
  then loses its pin.\<close>

lemma copy_to_second:
  assumes inv: "inv s" and ne: "a \<noteq> b" and ra: "room (refs s) a"
    and rb: "room ((refs s)(a := refs s a + 1)) b" and clean: "view s a = disk s a"
    and pin: "pinned \<Longrightarrow> 0 < refs s b"
  shows "\<exists>s'. bindR (read a s) (\<lambda>(h, s). bindR (read b s) (\<lambda>(g, s). bindR (fetch h s) (\<lambda>x.
           bindR (store g x s) (\<lambda>s. bindR (sync g s) (\<lambda>s.
           bindR (if pinned then unpin g s else Inr s) (\<lambda>s.
           bindR (release h s) (\<lambda>s. release g s))))))) = Inr s' \<and> inv s' \<and>
         view s' = (view s)(b := view s a) \<and> disk s' = (disk s)(b := view s a) \<and>
         refs s' = (if pinned then (refs s)(b := refs s b - 1) else refs s)"
proof -
  obtain h s1 where r: "read a s = Inr (h, s1)" "blockno h = a" "inv s1" "view s1 = view s"
    "disk s1 = disk s" "refs s1 = (refs s)(a := refs s a + 1)" "held s1 h"
    using read_law [OF inv ra] by blast
  obtain g s2 where q: "read b s1 = Inr (g, s2)" "blockno g = b" "inv s2" "view s2 = view s"
    "disk s2 = disk s" "refs s2 = (refs s1)(b := refs s1 b + 1)" "held s2 g" "held s2 h"
    using read_law [OF r(3), of b] rb r by auto
  obtain s3 where st: "store g (view s a) s2 = Inr s3" "inv s3"
    "view s3 = (view s)(b := view s a)" "disk s3 = disk s" "refs s3 = refs s2" "held s3 h" "held s3 g"
    using store_law [OF q(3,7), of "view s a"] q r by auto
  obtain s4 where sy: "sync g s3 = Inr s4" "inv s4" "view s4 = view s3"
    "disk s4 = (disk s)(b := view s a)" "refs s4 = refs s2" "held s4 h" "held s4 g"
    using sync_law [OF st(2,7)] st q by auto
  have refs4: "refs s4 = (refs s)(a := refs s a + 1, b := refs s b + 1)" using sy q r ne by simp
  obtain s5 where up: "(if pinned then unpin g s4 else Inr s4) = Inr s5" "inv s5" "view s5 = view s4"
    "disk s5 = disk s4" "refs s5 = (refs s)(a := refs s a + 1, b := if pinned then refs s b else refs s b + 1)"
    "held s5 h" "held s5 g"
  proof (cases pinned)
    case True
    then have "1 < refs s4 (blockno g)" using refs4 q(2) pin by simp
    from unpin_law [OF sy(2,7) this] obtain s5 where "unpin g s4 = Inr s5" "inv s5" "view s5 = view s4"
      "disk s5 = disk s4" "refs s5 = (refs s4)(b := refs s4 b - 1)" "held s5 h" "held s5 g"
      using q(2) sy(6,7) by auto
    with True refs4 that show thesis by simp
  next
    case False
    with that sy refs4 show thesis by simp
  qed
  have "1 < refs s5 (blockno h) \<or> view s5 (blockno h) = disk s5 (blockno h)"
    using up sy st r ne clean by simp
  from release_law [OF up(2,6) this] obtain s6 where u: "release h s5 = Inr s6" "inv s6"
    "view s6 = view s5" "disk s6 = disk s5" "refs s6 = (refs s5)(a := refs s5 a - 1)" "held s6 g"
    using q(2) r(2) ne up(7) by auto
  have "1 < refs s6 (blockno g) \<or> view s6 (blockno g) = disk s6 (blockno g)"
    using u up sy st q by simp
  from release_law [OF u(2,6) this] obtain s7 where "release g s6 = Inr s7" "inv s7"
    "view s7 = view s6" "disk s7 = disk s6" "refs s7 = (refs s6)(b := refs s6 b - 1)"
    using q(2) by auto
  then show ?thesis
    using r q st sy up u ne fetch_law [OF q(3,8)] by (auto simp: fun_eq_iff)
qed

end

lemma buf_unpin_spec:
  assumes "bc_inv d s" "holds d s h" "1 < crefs d s (buf_blockno h)"
  obtains s' where "buf_unpin h s = Inr s'" "bc_inv d s'" "cview d s' = cview d s"
    "bc_disk s' = bc_disk s"
    "crefs d s' = (crefs d s)(buf_blockno h := crefs d s (buf_blockno h) - 1)"
    "\<And>g. holds d s g \<Longrightarrow> holds d s' g"
  using upd_refcnt_spec [OF assms(1,2), of "\<lambda>rc. if rc \<le> 1 then Inl BufUnpinMismatch else Inr (rc - 1)"
      "crefs d s (buf_blockno h) - 1"] assms(3) by (auto simp: buf_unpin_def)

interpretation bc: block_cache "bc_inv d" "cview d" bc_disk "crefs d" "holds d" buf_blockno
  "bcache_read d" raw_data set_raw_data buf_write buf_drop buf_unpin
proof
  fix s b h x
  show "\<exists>h s'. bcache_read d b s = Inr (h, s') \<and> buf_blockno h = b \<and> bc_inv d s' \<and>
      cview d s' = cview d s \<and> bc_disk s' = bc_disk s \<and>
      crefs d s' = (crefs d s)(b := crefs d s b + 1) \<and> holds d s' h \<and>
      (\<forall>g. holds d s g \<longrightarrow> holds d s' g)" if "bc_inv d s" "room (crefs d s) b"
    by (rule bcache_read_spec [OF that]) blast
  show "raw_data h s = Inr (cview d s (buf_blockno h))" if "bc_inv d s" "holds d s h"
    by (rule raw_data_spec [OF that])
  show "\<exists>s'. set_raw_data h x s = Inr s' \<and> bc_inv d s' \<and>
      cview d s' = (cview d s)(buf_blockno h := x) \<and> bc_disk s' = bc_disk s \<and>
      crefs d s' = crefs d s \<and> (\<forall>g. holds d s' g \<longleftrightarrow> holds d s g)" if "bc_inv d s" "holds d s h"
    by (rule set_raw_data_spec [OF that, of x]) blast
  show "\<exists>s'. buf_write h s = Inr s' \<and> bc_inv d s' \<and> cview d s' = cview d s \<and>
      bc_disk s' = (bc_disk s)(buf_blockno h := cview d s (buf_blockno h)) \<and>
      crefs d s' = crefs d s \<and> (\<forall>g. holds d s' g \<longleftrightarrow> holds d s g)" if "bc_inv d s" "holds d s h"
    by (rule buf_write_spec [OF that]) blast
  show "\<exists>s'. buf_drop h s = Inr s' \<and> bc_inv d s' \<and> cview d s' = cview d s \<and>
      bc_disk s' = bc_disk s \<and>
      crefs d s' = (crefs d s)(buf_blockno h := crefs d s (buf_blockno h) - 1) \<and>
      (\<forall>g. holds d s g \<longrightarrow> 1 < crefs d s (buf_blockno h) \<or> buf_blockno g \<noteq> buf_blockno h \<longrightarrow>
        holds d s' g)"
    if "bc_inv d s" "holds d s h"
      "1 < crefs d s (buf_blockno h) \<or> cview d s (buf_blockno h) = bc_disk s (buf_blockno h)"
    by (rule buf_drop_spec [OF that]) blast
  show "\<exists>s'. buf_unpin h s = Inr s' \<and> bc_inv d s' \<and> cview d s' = cview d s \<and>
      bc_disk s' = bc_disk s \<and>
      crefs d s' = (crefs d s)(buf_blockno h := crefs d s (buf_blockno h) - 1) \<and>
      (\<forall>g. holds d s g \<longrightarrow> holds d s' g)"
    if "bc_inv d s" "holds d s h" "1 < crefs d s (buf_blockno h)"
    by (rule buf_unpin_spec [OF that]) blast
qed

end
