(* ===== verification/Rx_Log.thy ===== *)
theory Rx_Log
  imports Rx_Bcache
begin

text \<open>
  The write-ahead log of \<^verbatim>\<open>fs/log.rs\<close>: the log record, its header as it is laid out in the first
  log block, the commit and recovery procedures over the buffer cache, and the operations that
  open, extend and close a transaction. The lock of the log is held through each operation;
  \<^verbatim>\<open>begin_op\<close> is one turn of its loop, in which a caller that has to sleep gets nothing.
\<close>

section \<open>State\<close>

definition LOGSIZE :: nat where "LOGSIZE = MAXOPBLOCKS * 3"

record log =
  lg_start :: u32
  lg_size :: u32
  lg_dev :: u32
  lg_outstanding :: u32
  lg_commiting :: bool
  lh_len :: u32
  lh_blocknos :: "u32 list"

definition log_unint :: log where
  "log_unint = \<lparr>lg_start = 0, lg_size = 0, lg_dev = 0, lg_outstanding = 0, lg_commiting = False,
     lh_len = 0, lh_blocknos = replicate (LOGSIZE - 1) 0\<rparr>"

text \<open>\<^verbatim>\<open>LogHeader\<close> is \<^verbatim>\<open>repr(C)\<close>: the length and the 29 block numbers, four bytes each.\<close>

definition header_bytes :: "u32 \<Rightarrow> u32 list \<Rightarrow> u8 list" where
  "header_bytes len bs = to_le 4 len @ concat (map (to_le 4) bs)"

definition header_len :: "block \<Rightarrow> u32" where
  "header_len x = of_le (take 4 x)"

definition header_blocknos :: "block \<Rightarrow> u32 list" where
  "header_blocknos x = map (\<lambda>i. of_le (take 4 (drop (4 + 4 * i) x))) [0..<LOGSIZE - 1]"

section \<open>Commit and recovery\<close>

definition read_head :: "log \<Rightarrow> bcache \<Rightarrow> (log \<times> bcache) outcome" where
  "read_head g c =
     bindR (bcache_read (lg_dev g) (lg_start g) c) (\<lambda>(b, c).
       bindR (raw_data b c) (\<lambda>x.
         bindR (buf_drop b c) (\<lambda>c.
           Inr (g\<lparr>lh_len := header_len x, lh_blocknos := header_blocknos x\<rparr>, c))))"

definition write_head :: "log \<Rightarrow> bcache \<Rightarrow> bcache outcome" where
  "write_head g c =
     bindR (bcache_read (lg_dev g) (lg_start g) c) (\<lambda>(b, c).
       bindR (raw_data b c) (\<lambda>x.
         bindR (set_raw_data b
             (header_bytes (lh_len g) (lh_blocknos g) @ drop (4 * LOGSIZE) x) c) (\<lambda>c.
           bindR (buf_write b c) (\<lambda>c. buf_drop b c))))"

definition empty_head :: "log \<Rightarrow> bcache \<Rightarrow> (log \<times> bcache) outcome" where
  "empty_head g c =
     (let g = g\<lparr>lh_len := 0\<rparr> in
      bindR (bindR (bcache_read (lg_dev g) (lg_start g) c) (\<lambda>(b, c).
        bindR (raw_data b c) (\<lambda>x.
          bindR (set_raw_data b (to_le 4 (0 :: u32) @ drop 4 x) c) (\<lambda>c.
            bindR (buf_write b c) (\<lambda>c. buf_drop b c))))) (\<lambda>c. Inr (g, c)))"

definition install_one :: "bool \<Rightarrow> log \<Rightarrow> nat \<Rightarrow> bcache \<Rightarrow> bcache outcome" where
  "install_one recovering g i c =
     bindR (add_ck (lg_start g) (of_nat i)) (\<lambda>lb.
       bindR (bcache_read (lg_dev g) lb c) (\<lambda>(log_buf, c).
         bindR (idx_get (lh_blocknos g) (i - 1)) (\<lambda>bno.
           bindR (bcache_read (lg_dev g) bno c) (\<lambda>(disk_buf, c).
             bindR (raw_data log_buf c) (\<lambda>x.
               bindR (set_raw_data disk_buf x c) (\<lambda>c.
                 bindR (buf_write disk_buf c) (\<lambda>c.
                   bindR (if \<not> recovering then buf_unpin disk_buf c else Inr c) (\<lambda>c.
                     bindR (buf_drop log_buf c) (\<lambda>c. buf_drop disk_buf c)))))))))"

definition install_trans :: "bool \<Rightarrow> log \<Rightarrow> bcache \<Rightarrow> bcache outcome" where
  "install_trans recovering g c = foldR (install_one recovering g) [1..<unat (lh_len g) + 1] c"

definition write_log_one :: "log \<Rightarrow> nat \<Rightarrow> bcache \<Rightarrow> bcache outcome" where
  "write_log_one g i c =
     bindR (add_ck (lg_start g) (of_nat i)) (\<lambda>lb.
       bindR (bcache_read (lg_dev g) lb c) (\<lambda>(log_buf, c).
         bindR (idx_get (lh_blocknos g) (i - 1)) (\<lambda>bno.
           bindR (bcache_read (lg_dev g) bno c) (\<lambda>(cache_buf, c).
             bindR (raw_data cache_buf c) (\<lambda>x.
               bindR (set_raw_data log_buf x c) (\<lambda>c.
                 bindR (buf_write log_buf c) (\<lambda>c.
                   bindR (buf_drop cache_buf c) (\<lambda>c. buf_drop log_buf c))))))))"

definition write_log :: "log \<Rightarrow> bcache \<Rightarrow> bcache outcome" where
  "write_log g c = foldR (write_log_one g) [1..<unat (lh_len g) + 1] c"

definition commit_no_lock :: "log \<Rightarrow> bcache \<Rightarrow> (log \<times> bcache) outcome" where
  "commit_no_lock g c =
     (if \<not> lg_commiting g then Inl LogNotCommitting
      else if 0 < lh_len g then
        bindR (write_log g c) (\<lambda>c.
          bindR (write_head g c) (\<lambda>c.
            bindR (install_trans False g c) (\<lambda>c.
              empty_head g c)))
      else Inr (g, c))"

text \<open>\<^verbatim>\<open>Log::commit\<close> is the same procedure under the lock.\<close>

definition log_commit :: "log \<Rightarrow> bcache \<Rightarrow> (log \<times> bcache) outcome" where
  "log_commit g c =
     (if \<not> lg_commiting g then Inl LogNotCommitting
      else if 0 < lh_len g then
        bindR (write_log g c) (\<lambda>c.
          bindR (write_head g c) (\<lambda>c.
            bindR (install_trans False g c) (\<lambda>c.
              empty_head g c)))
      else Inr (g, c))"

definition log_recover :: "log \<Rightarrow> bcache \<Rightarrow> (log \<times> bcache) outcome" where
  "log_recover g c =
     bindR (read_head g c) (\<lambda>(g, c).
       if 0 < lh_len g then
         bindR (install_trans True g c) (\<lambda>c. empty_head g c)
       else Inr (g, c))"

text \<open>The superblock's log position is an argument.\<close>

definition log_init :: "u32 \<Rightarrow> u32 \<times> u32 \<Rightarrow> log \<Rightarrow> bcache \<Rightarrow> (log \<times> bcache) outcome" where
  "log_init dev sb_log g c =
     log_recover (g\<lparr>lg_start := fst sb_log, lg_size := snd sb_log, lg_dev := dev\<rparr>) c"

section \<open>Transactions\<close>

definition begin_op :: "log \<Rightarrow> log option outcome" where
  "begin_op g =
     (if lg_commiting g then Inr None
      else bindR (add_ck (lg_outstanding g) 1) (\<lambda>o1.
        if 1 + unat (lh_len g) + unat o1 * MAXOPBLOCKS > LOGSIZE then Inr None
        else Inr (Some (g\<lparr>lg_outstanding := o1\<rparr>))))"

definition write_full :: "log \<Rightarrow> bool outcome" where
  "write_full g =
     bindR (add_ck (lh_len g) 1) (\<lambda>l1.
       if LOGSIZE \<le> unat l1 then Inr True
       else bindR (add_ck (lh_len g) 1) (\<lambda>l1. Inr (lg_size g \<le> l1)))"

definition no_space :: "log \<Rightarrow> bool outcome" where
  "no_space g =
     (if LOGSIZE \<le> unat (lh_len g) + 2 then Inr True
      else bindR (add_ck (lh_len g) 2) (\<lambda>l2. Inr (lg_size g \<le> l2)))"

definition log_write :: "buf \<Rightarrow> log \<Rightarrow> bcache \<Rightarrow> (log \<times> bcache) outcome" where
  "log_write b g c =
     bindR (write_full g) (\<lambda>full.
       if full then Inl LogNoSpace
       else if lg_outstanding g < 1 then Inl LogOutOfTransaction
       else if buf_blockno b \<in> set (take (unat (lh_len g)) (lh_blocknos g))
         then bindR (buf_drop b c) (\<lambda>c. Inr (g, c))
         else bindR (no_space g) (\<lambda>full.
           if full then Inl LogNoSpace
           else bindR (buf_pin b c) (\<lambda>c.
             bindR (idx_set (lh_blocknos g) (unat (lh_len g)) (buf_blockno b)) (\<lambda>bs.
               bindR (add_ck (lh_len g) 1) (\<lambda>l.
                 bindR (buf_drop b c) (\<lambda>c.
                   Inr (g\<lparr>lh_blocknos := bs, lh_len := l\<rparr>, c)))))))"

definition end_op :: "log \<Rightarrow> bcache \<Rightarrow> (log \<times> bcache) outcome" where
  "end_op g c =
     bindR (sub_ck (lg_outstanding g) 1) (\<lambda>o1.
       let g = g\<lparr>lg_outstanding := o1\<rparr> in
       if lg_commiting g then Inl LogEndWhileCommitting
       else if o1 = 0 then
         bindR (commit_no_lock (g\<lparr>lg_commiting := True\<rparr>) c) (\<lambda>(g, c).
           Inr (g\<lparr>lg_commiting := False\<rparr>, c))
       else Inr (g, c))"

end
