(* ===== verification/Rx_Log_Commit.thy ===== *)
theory Rx_Log_Commit
  imports Rx_Log
begin

text \<open>
  What commit and recovery do to the contents of the disk. The effect of the loops of
  \<^verbatim>\<open>write_log\<close> and \<^verbatim>\<open>install_trans\<close> is a sequence of point updates, \<open>patch\<close>; the facts come from
  the contract of the buffer cache.
\<close>

section \<open>The header\<close>

lemma take_drop_chunks:
  "i < length bs \<Longrightarrow> take 4 (drop (4 * i) (concat (map (to_le 4) bs) @ r)) = to_le 4 (bs ! i)"
proof (induction bs arbitrary: i)
  case (Cons b bs)
  then show ?case by (cases i) simp_all
qed simp

lemma header_len_bytes [simp]: "header_len (header_bytes len bs @ r) = len"
  by (simp add: header_len_def header_bytes_def)

lemma header_blocknos_bytes:
  "length bs = LOGSIZE - 1 \<Longrightarrow> header_blocknos (header_bytes len bs @ r) = bs"
proof (rule nth_equalityI)
  fix i assume bs: "length bs = LOGSIZE - 1"
    and "i < length (header_blocknos (header_bytes len bs @ r))"
  then have i: "i < length bs" by (simp add: header_blocknos_def)
  have "drop (4 + 4 * i) (header_bytes len bs @ r) = drop (4 * i) (concat (map (to_le 4) bs) @ r)"
    by (simp add: header_bytes_def)
  then show "header_blocknos (header_bytes len bs @ r) ! i = bs ! i"
    using i bs take_drop_chunks [OF i, of r]
    by (simp add: header_blocknos_def del: take_append drop_append)
qed (simp add: header_blocknos_def)

lemma header_len_zero [simp]: "header_len (to_le 4 (0 :: u32) @ r) = 0"
  by (simp add: header_len_def)

section \<open>Point updates\<close>

primrec patch :: "(nat \<Rightarrow> u32) \<Rightarrow> (nat \<Rightarrow> 'a) \<Rightarrow> nat \<Rightarrow> (u32 \<Rightarrow> 'a) \<Rightarrow> u32 \<Rightarrow> 'a" where
  "patch f x 0 v = v"
| "patch f x (Suc k) v = (patch f x k v)(f (Suc k) := x (Suc k))"

lemma patch_out: "(\<And>i. 1 \<le> i \<Longrightarrow> i \<le> k \<Longrightarrow> b \<noteq> f i) \<Longrightarrow> patch f x k v b = v b"
  by (induction k) auto

lemma patch_in:
  assumes "inj_on f {1..k}" "1 \<le> i" "i \<le> k"
  shows "patch f x k v (f i) = x i"
  using assms
proof (induction k)
  case (Suc k)
  show ?case
  proof (cases "i = Suc k")
    case False
    with Suc.prems have "f i \<noteq> f (Suc k)" "i \<le> k" by (auto dest: inj_onD)
    moreover have "inj_on f {1..k}" using Suc.prems(1) by (rule inj_on_subset) auto
    ultimately show ?thesis using Suc by simp
  qed simp
qed simp

lemma patch_cong:
  "(\<And>i. 1 \<le> i \<Longrightarrow> i \<le> k \<Longrightarrow> x i = y i) \<Longrightarrow> patch f x k v = patch f y k v"
  by (induction k) auto

text \<open>Updates with the values of a function make the result agree with that function.\<close>

lemma patch_agree:
  assumes "\<And>i. 1 \<le> i \<Longrightarrow> i \<le> k \<Longrightarrow> x i = w (f i)"
    and "v b = w b \<or> (\<exists>i. 1 \<le> i \<and> i \<le> k \<and> b = f i)"
  shows "patch f x k v b = w b"
  using assms
proof (induction k)
  case (Suc k)
  then show ?case by (cases "b = f (Suc k)") (auto simp: le_Suc_eq)
qed auto

section \<open>Logs\<close>

definition lblk :: "log \<Rightarrow> nat \<Rightarrow> u32" where
  "lblk g i = lg_start g + of_nat i"

definition logged :: "log \<Rightarrow> u32 list" where
  "logged g = take (unat (lh_len g)) (lh_blocknos g)"

definition data_block :: "log \<Rightarrow> u32 \<Rightarrow> bool" where
  "data_block g b \<longleftrightarrow> (\<forall>i<LOGSIZE. b \<noteq> lblk g i)"

definition log_wf :: "u32 \<Rightarrow> log \<Rightarrow> bool" where
  "log_wf d g \<longleftrightarrow>
     lg_dev g = d \<and> length (lh_blocknos g) = LOGSIZE - 1 \<and> unat (lh_len g) \<le> LOGSIZE - 2 \<and>
     unat (lg_start g) + LOGSIZE < 2 ^ 32 \<and> distinct (logged g) \<and>
     (\<forall>b\<in>set (logged g). data_block g b)"

definition pins :: "u32 set \<Rightarrow> u32 \<Rightarrow> nat" where
  "pins S = (\<lambda>b. if b \<in> S then 1 else 0)"

lemma LOGSIZE_val: "LOGSIZE = 30"
  by (simp add: LOGSIZE_def MAXOPBLOCKS_def)

lemma log_wf_bounds:
  "log_wf d g \<Longrightarrow> length (logged g) = unat (lh_len g) \<and> unat (lh_len g) \<le> 28 \<and>
     length (lh_blocknos g) = 29"
  by (auto simp: log_wf_def logged_def LOGSIZE_val)

lemma unat_lblk:
  assumes "log_wf d g" "i < LOGSIZE"
  shows "unat (lblk g i) = unat (lg_start g) + i" "add_ck (lg_start g) (of_nat i) = Inr (lblk g i)"
proof -
  have i: "unat (of_nat i :: u32) = i" using assms(2) by (simp add: LOGSIZE_val unat_of_nat)
  with assms show "unat (lblk g i) = unat (lg_start g) + i"
    by (simp add: lblk_def log_wf_def unat_word_ariths)
  show "add_ck (lg_start g) (of_nat i) = Inr (lblk g i)"
    using i assms by (simp add: lblk_def log_wf_def add_ck_def)
qed

lemma lblk_inj:
  assumes "log_wf d g" "i < LOGSIZE" "j < LOGSIZE" "lblk g i = lblk g j"
  shows "i = j"
proof -
  have "unat (lblk g i) = unat (lblk g j)" by (simp only: assms(4))
  then show ?thesis unfolding unat_lblk(1) [OF assms(1,2)] unat_lblk(1) [OF assms(1,3)] by simp
qed

lemma lblk_0: "lblk g 0 = lg_start g"
  by (simp add: lblk_def)

lemma lblk_inj_on: "log_wf d g \<Longrightarrow> inj_on (lblk g) {1..unat (lh_len g)}"
  by (rule inj_onI, rule lblk_inj) (use log_wf_bounds [of d g] in \<open>auto simp: LOGSIZE_val\<close>)

lemma logged_nth:
  assumes "log_wf d g" "1 \<le> i" "i \<le> unat (lh_len g)"
  shows "idx_get (lh_blocknos g) (i - 1) = Inr (logged g ! (i - 1))" "logged g ! (i - 1) \<in> set (logged g)"
proof -
  have i: "i - 1 < length (logged g)" "i - 1 < length (lh_blocknos g)"
    using assms log_wf_bounds [OF assms(1)] by auto
  from i(1) show "logged g ! (i - 1) \<in> set (logged g)" by (rule nth_mem)
  have "logged g ! (i - 1) = lh_blocknos g ! (i - 1)" using i by (simp add: logged_def)
  with i(2) show "idx_get (lh_blocknos g) (i - 1) = Inr (logged g ! (i - 1))" by simp
qed

lemma logged_data: "log_wf d g \<Longrightarrow> b \<in> set (logged g) \<Longrightarrow> i < LOGSIZE \<Longrightarrow> b \<noteq> lblk g i"
  by (auto simp: log_wf_def data_block_def)

lemma logged_inj_on:
  "log_wf d g \<Longrightarrow> inj_on (\<lambda>i. logged g ! (i - 1)) {1..unat (lh_len g)}"
  using log_wf_bounds [of d g]
  by (auto intro!: inj_onI simp: log_wf_def nth_eq_iff_index_eq)

lemma room_pins:
  assumes "finite S" "card S \<le> 28"
  shows "room (pins S) a" "room ((pins S)(a := pins S a + 1)) b"
proof -
  have "{c. 0 < pins S c} = S" by (auto simp: pins_def)
  moreover have "{c. 0 < ((pins S)(a := pins S a + 1)) c} = insert a S" by (auto simp: pins_def)
  ultimately show "room (pins S) a" "room ((pins S)(a := pins S a + 1)) b"
    using assms card_insert_le_m1 [of 29 S a] card_insert_if [of S a]
    by (auto simp: room_def pins_def NBUF_def MAXOPBLOCKS_def)
qed

lemma unreferenced_clean:
  assumes "bc_inv d c" "crefs d c b = 0"
  shows "cview d c b = bc_disk c b"
proof (cases "slot d c b")
  case (Some i)
  then have "bc_refcnt (ctl c i) = 0" "caches d c b i"
    using assms(2) slot_Some by (auto simp: crefs_def)
  with bc_inv_clean [OF assms(1)] Some show ?thesis by (auto simp: cview_def)
qed (simp add: cview_def)

section \<open>Writing the log\<close>

lemma write_log_one_spec:
  assumes wf: "log_wf d g" and inv: "bc_inv d c" and refs: "crefs d c = pins S"
    and S: "finite S" "card S \<le> 28" "set (logged g) \<subseteq> S" and i: "1 \<le> i" "i \<le> unat (lh_len g)"
  shows "\<exists>c'. write_log_one g i c = Inr c' \<and> bc_inv d c' \<and> crefs d c' = pins S \<and>
    cview d c' = (cview d c)(lblk g i := cview d c (logged g ! (i - 1))) \<and>
    bc_disk c' = (bc_disk c)(lblk g i := cview d c (logged g ! (i - 1)))"
proof -
  have il: "i < LOGSIZE" using i log_wf_bounds [OF wf] by (simp add: LOGSIZE_val)
  note b = logged_nth [OF wf i]
  have "lblk g i \<noteq> logged g ! (i - 1)" using logged_data [OF wf b(2) il] by simp
  moreover have "0 < crefs d c (logged g ! (i - 1))" using refs b(2) S(3) by (auto simp: pins_def)
  ultimately have copy: "\<exists>c'. bindR (bcache_read d (lblk g i) c) (\<lambda>(h, c).
      bindR (bcache_read d (logged g ! (i - 1)) c) (\<lambda>(g, c). bindR (raw_data g c) (\<lambda>x.
        bindR (set_raw_data h x c) (\<lambda>c. bindR (buf_write h c) (\<lambda>c.
          bindR (buf_drop g c) (\<lambda>c. buf_drop h c)))))) = Inr c' \<and> bc_inv d c' \<and>
      cview d c' = (cview d c)(lblk g i := cview d c (logged g ! (i - 1))) \<and>
      bc_disk c' = (bc_disk c)(lblk g i := cview d c (logged g ! (i - 1))) \<and> crefs d c' = crefs d c"
    by (intro bc.copy_to_first [OF inv]) (simp_all only: refs room_pins [OF S(1,2)] simp_thms)
  have "lg_dev g = d" using wf by (simp add: log_wf_def)
  then have run: "write_log_one g i c = bindR (bcache_read d (lblk g i) c) (\<lambda>(h, c).
      bindR (bcache_read d (logged g ! (i - 1)) c) (\<lambda>(g, c). bindR (raw_data g c) (\<lambda>x.
        bindR (set_raw_data h x c) (\<lambda>c. bindR (buf_write h c) (\<lambda>c.
          bindR (buf_drop g c) (\<lambda>c. buf_drop h c))))))"
    by (simp only: write_log_one_def unat_lblk(2) [OF wf il] b(1) bindR_simps)
  show ?thesis
    using copy [folded run] unfolding refs by (elim exE conjE) (intro exI conjI; assumption)
qed

lemma write_log_upto:
  assumes wf: "log_wf d g" and inv: "bc_inv d c" and refs: "crefs d c = pins S"
    and S: "finite S" "card S \<le> 28" "set (logged g) \<subseteq> S" and k: "k \<le> unat (lh_len g)"
  shows "\<exists>c'. foldR (write_log_one g) [1..<k + 1] c = Inr c' \<and> bc_inv d c' \<and> crefs d c' = pins S \<and>
    cview d c' = patch (lblk g) (\<lambda>i. cview d c (logged g ! (i - 1))) k (cview d c) \<and>
    bc_disk c' = patch (lblk g) (\<lambda>i. cview d c (logged g ! (i - 1))) k (bc_disk c)"
  using k
proof (induction k)
  case (Suc k)
  then obtain c1 where c1: "foldR (write_log_one g) [1..<k + 1] c = Inr c1" "bc_inv d c1"
    "crefs d c1 = pins S" "cview d c1 = patch (lblk g) (\<lambda>i. cview d c (logged g ! (i - 1))) k (cview d c)"
    "bc_disk c1 = patch (lblk g) (\<lambda>i. cview d c (logged g ! (i - 1))) k (bc_disk c)" by auto
  have b: "logged g ! k \<in> set (logged g)" using logged_nth(2) [OF wf, of "Suc k"] Suc.prems by simp
  have "cview d c1 (logged g ! k) = cview d c (logged g ! k)"
    unfolding c1(4) using logged_data [OF wf b] log_wf_bounds [OF wf] Suc.prems
    by (intro patch_out) (simp add: LOGSIZE_val)
  with write_log_one_spec [OF wf c1(2,3) S, of "Suc k"] Suc.prems c1 show ?case
    by (auto simp: foldR_append)
qed (use inv refs in simp)

section \<open>Installing a transaction\<close>

lemma install_one_spec:
  assumes wf: "log_wf d g" and inv: "bc_inv d c" and refs: "crefs d c = pins S"
    and S: "finite S" "card S \<le> 28" and i: "1 \<le> i" "i \<le> unat (lh_len g)"
    and pin: "\<not> recovering \<Longrightarrow> logged g ! (i - 1) \<in> S"
    and clean: "cview d c (lblk g i) = bc_disk c (lblk g i)"
  shows "\<exists>c'. install_one recovering g i c = Inr c' \<and> bc_inv d c' \<and>
    crefs d c' = pins (if recovering then S else S - {logged g ! (i - 1)}) \<and>
    cview d c' = (cview d c)(logged g ! (i - 1) := cview d c (lblk g i)) \<and>
    bc_disk c' = (bc_disk c)(logged g ! (i - 1) := cview d c (lblk g i))"
proof -
  have il: "i < LOGSIZE" using i log_wf_bounds [OF wf] by (simp add: LOGSIZE_val)
  note b = logged_nth [OF wf i]
  have "lblk g i \<noteq> logged g ! (i - 1)" using logged_data [OF wf b(2) il] by simp
  moreover have "0 < crefs d c (logged g ! (i - 1))" if "\<not> recovering"
    using refs pin [OF that] by (simp add: pins_def)
  ultimately have copy: "\<exists>c'. bindR (bcache_read d (lblk g i) c) (\<lambda>(h, c).
      bindR (bcache_read d (logged g ! (i - 1)) c) (\<lambda>(g, c). bindR (raw_data h c) (\<lambda>x.
        bindR (set_raw_data g x c) (\<lambda>c. bindR (buf_write g c) (\<lambda>c.
          bindR (if \<not> recovering then buf_unpin g c else Inr c) (\<lambda>c.
          bindR (buf_drop h c) (\<lambda>c. buf_drop g c))))))) = Inr c' \<and> bc_inv d c' \<and>
      cview d c' = (cview d c)(logged g ! (i - 1) := cview d c (lblk g i)) \<and>
      bc_disk c' = (bc_disk c)(logged g ! (i - 1) := cview d c (lblk g i)) \<and>
      crefs d c' = (if \<not> recovering
        then (crefs d c)(logged g ! (i - 1) := crefs d c (logged g ! (i - 1)) - 1) else crefs d c)"
    by (intro bc.copy_to_second [OF inv]) (simp_all only: refs room_pins [OF S(1,2)] simp_thms clean)
  have "lg_dev g = d" using wf by (simp add: log_wf_def)
  then have run: "install_one recovering g i c = bindR (bcache_read d (lblk g i) c) (\<lambda>(h, c).
      bindR (bcache_read d (logged g ! (i - 1)) c) (\<lambda>(g, c). bindR (raw_data h c) (\<lambda>x.
        bindR (set_raw_data g x c) (\<lambda>c. bindR (buf_write g c) (\<lambda>c.
          bindR (if \<not> recovering then buf_unpin g c else Inr c) (\<lambda>c.
          bindR (buf_drop h c) (\<lambda>c. buf_drop g c)))))))"
    by (simp only: install_one_def unat_lblk(2) [OF wf il] b(1) bindR_simps)
  have "(pins S)(x := pins S x - 1) = pins (S - {x})" for x by (auto simp: pins_def)
  then have refs': "(if \<not> recovering
        then (crefs d c)(logged g ! (i - 1) := crefs d c (logged g ! (i - 1)) - 1) else crefs d c) =
      pins (if recovering then S else S - {logged g ! (i - 1)})" using refs by simp
  show ?thesis
    using copy [folded run, unfolded refs'] by (elim exE conjE) (intro exI conjI; assumption)
qed

lemma install_upto:
  assumes wf: "log_wf d g" and inv: "bc_inv d c" and refs: "crefs d c = pins S"
    and S: "finite S" "card S \<le> 28" and k: "k \<le> unat (lh_len g)"
    and pin: "\<not> recovering \<Longrightarrow> set (logged g) \<subseteq> S"
    and clean: "\<And>i. 1 \<le> i \<Longrightarrow> i \<le> unat (lh_len g) \<Longrightarrow> cview d c (lblk g i) = bc_disk c (lblk g i)"
  shows "\<exists>c'. foldR (install_one recovering g) [1..<k + 1] c = Inr c' \<and> bc_inv d c' \<and>
    crefs d c' = pins (if recovering then S else S - set (take k (logged g))) \<and>
    cview d c' = patch (\<lambda>i. logged g ! (i - 1)) (\<lambda>i. cview d c (lblk g i)) k (cview d c) \<and>
    bc_disk c' = patch (\<lambda>i. logged g ! (i - 1)) (\<lambda>i. cview d c (lblk g i)) k (bc_disk c)"
  using k
proof (induction k)
  case (Suc k)
  let ?S = "if recovering then S else S - set (take k (logged g))"
  from Suc obtain c1 where c1: "foldR (install_one recovering g) [1..<k + 1] c = Inr c1" "bc_inv d c1"
    "crefs d c1 = pins ?S"
    "cview d c1 = patch (\<lambda>i. logged g ! (i - 1)) (\<lambda>i. cview d c (lblk g i)) k (cview d c)"
    "bc_disk c1 = patch (\<lambda>i. logged g ! (i - 1)) (\<lambda>i. cview d c (lblk g i)) k (bc_disk c)" by auto
  have len: "k < length (logged g)" "Suc k < LOGSIZE"
    using Suc.prems log_wf_bounds [OF wf] by (simp_all add: LOGSIZE_val)
  have out: "lblk g (Suc k) \<noteq> logged g ! (i - 1)" if "1 \<le> i" "i \<le> k" for i
    using logged_data [OF wf logged_nth(2) [OF wf that(1)] len(2)] that Suc.prems by auto
  have same: "cview d c1 (lblk g (Suc k)) = cview d c (lblk g (Suc k))"
    "bc_disk c1 (lblk g (Suc k)) = bc_disk c (lblk g (Suc k))"
    unfolding c1(4,5) using out by (intro patch_out; simp)+
  have "logged g ! k \<notin> set (take k (logged g))"
    using len(1) wf by (auto simp: log_wf_def in_set_conv_nth nth_eq_iff_index_eq)
  then have pin1: "logged g ! (Suc k - 1) \<in> ?S" if "\<not> recovering"
    using pin [OF that] len(1) by auto
  have S1: "finite ?S" "card ?S \<le> 28"
    using S card_mono [of S "S - set (take k (logged g))"] by (auto intro: le_trans)
  have take: "set (take (Suc k) (logged g)) = insert (logged g ! k) (set (take k (logged g)))"
    using len(1) by (simp add: take_Suc_conv_app_nth)
  have clean1: "cview d c (lblk g (Suc k)) = bc_disk c (lblk g (Suc k))"
    using clean Suc.prems by simp
  have "\<exists>c2. install_one recovering g (Suc k) c1 = Inr c2 \<and> bc_inv d c2 \<and>
      crefs d c2 = pins (if recovering then ?S else ?S - {logged g ! k}) \<and>
      cview d c2 = (cview d c1)(logged g ! k := cview d c (lblk g (Suc k))) \<and>
      bc_disk c2 = (bc_disk c1)(logged g ! k := cview d c (lblk g (Suc k)))"
    by (rule install_one_spec [OF wf c1(2,3) S1 _ Suc.prems, of recovering, unfolded same diff_Suc_1])
      (simp, rule pin1 [unfolded diff_Suc_1], assumption, rule clean1)
  then obtain c2 where
    c2: "install_one recovering g (Suc k) c1 = Inr c2" "bc_inv d c2"
      "crefs d c2 = pins (if recovering then ?S else ?S - {logged g ! k})"
      "cview d c2 = (cview d c1)(logged g ! k := cview d c (lblk g (Suc k)))"
      "bc_disk c2 = (bc_disk c1)(logged g ! k := cview d c (lblk g (Suc k)))"
    by (elim exE conjE) (rule that; assumption)
  have "(if recovering then ?S else ?S - {logged g ! k}) =
      (if recovering then S else S - set (take (Suc k) (logged g)))"
    unfolding take by auto
  moreover have "foldR (install_one recovering g) [1..<Suc k + 1] c = Inr c2"
    using c1(1) c2(1) by (simp add: foldR_append)
  ultimately show ?case using c2(2-5) unfolding c1(4,5) by (intro exI [of _ c2]) simp
qed (use inv refs in \<open>simp add: Diff_triv\<close>)

section \<open>The header block\<close>

lemma write_head_spec:
  assumes wf: "log_wf d g" and inv: "bc_inv d c" and refs: "crefs d c = pins S"
    and S: "finite S" "card S \<le> 28"
  shows "\<exists>c' r. write_head g c = Inr c' \<and> bc_inv d c' \<and> crefs d c' = pins S \<and>
    cview d c' = (cview d c)(lg_start g := header_bytes (lh_len g) (lh_blocknos g) @ r) \<and>
    bc_disk c' = (bc_disk c)(lg_start g := header_bytes (lh_len g) (lh_blocknos g) @ r)"
  using bc.update_block [OF inv, of "lg_start g"
      "\<lambda>x. header_bytes (lh_len g) (lh_blocknos g) @ drop (4 * LOGSIZE) x"]
    room_pins [OF S] refs wf
  by (auto simp: write_head_def log_wf_def)

lemma empty_head_spec:
  assumes "lg_dev g = d" and inv: "bc_inv d c" and refs: "crefs d c = pins S"
    and S: "finite S" "card S \<le> 28"
  shows "\<exists>c' r. empty_head g c = Inr (g\<lparr>lh_len := 0\<rparr>, c') \<and> bc_inv d c' \<and> crefs d c' = pins S \<and>
    cview d c' = (cview d c)(lg_start g := to_le 4 (0 :: u32) @ r) \<and>
    bc_disk c' = (bc_disk c)(lg_start g := to_le 4 (0 :: u32) @ r)"
  using bc.update_block [OF inv, of "lg_start g" "\<lambda>x. to_le 4 (0 :: u32) @ drop 4 x"]
    room_pins [OF S] refs assms(1)
  by (auto simp: empty_head_def)

lemma read_head_spec:
  assumes "lg_dev g = d" and inv: "bc_inv d c" and refs: "crefs d c = pins S"
    and S: "finite S" "card S \<le> 28" and clean: "cview d c (lg_start g) = bc_disk c (lg_start g)"
  shows "\<exists>c'. read_head g c =
      Inr (g\<lparr>lh_len := header_len (bc_disk c (lg_start g)),
             lh_blocknos := header_blocknos (bc_disk c (lg_start g))\<rparr>, c') \<and>
    bc_inv d c' \<and> crefs d c' = pins S \<and> cview d c' = cview d c \<and> bc_disk c' = bc_disk c"
  using bc.peek_block [OF inv, of "lg_start g"] room_pins [OF S] refs assms(1) clean
  by (auto simp: read_head_def)

end
