(* ===== verification/Rx_Log_Crash.thy ===== *)
theory Rx_Log_Crash
  imports Rx_Log_Commit
begin

text \<open>
  Crash safety of the log. A commit is a sequence of steps that write one disk block each, so
  the disks a crash can leave are the ones after a prefix of these steps. Booting on such a
  disk and running \<^verbatim>\<open>Log::init\<close> gives the data before or after the transaction, all of it.
\<close>

section \<open>Commit as a sequence of disk writes\<close>

datatype commit_step = WriteLog nat | WriteHead | Install nat | EmptyHead

primrec commit_step_run :: "log \<Rightarrow> commit_step \<Rightarrow> bcache \<Rightarrow> bcache outcome" where
  "commit_step_run g (WriteLog i) c = write_log_one g i c"
| "commit_step_run g WriteHead c = write_head g c"
| "commit_step_run g (Install i) c = install_one False g i c"
| "commit_step_run g EmptyHead c = bindR (empty_head g c) (\<lambda>(_, c). Inr c)"

definition commit_steps :: "nat \<Rightarrow> commit_step list" where
  "commit_steps n = map WriteLog [1..<n + 1] @ [WriteHead] @ map Install [1..<n + 1] @ [EmptyHead]"

definition commit_prefix :: "nat \<Rightarrow> log \<Rightarrow> bcache \<Rightarrow> bcache outcome" where
  "commit_prefix k g c = foldR (commit_step_run g) (take k (commit_steps (unat (lh_len g)))) c"

lemma foldR_cong: "(\<And>x s. x \<in> set xs \<Longrightarrow> f x s = g x s) \<Longrightarrow> foldR f xs s = foldR g xs s"
  by (induction xs arbitrary: s) (auto intro: bindR_cong)

lemma foldR_WriteLog: "foldR (commit_step_run g) (map WriteLog xs) c = foldR (write_log_one g) xs c"
  unfolding foldR_map by (rule foldR_cong) simp

lemma foldR_Install: "foldR (commit_step_run g) (map Install xs) c = foldR (install_one False g) xs c"
  unfolding foldR_map by (rule foldR_cong) simp

text \<open>The whole sequence is what \<^verbatim>\<open>commit\<close> runs.\<close>

lemma empty_head_log: "empty_head g c = Inr (g', c') \<Longrightarrow> g' = g\<lparr>lh_len := 0\<rparr>"
  by (auto simp: empty_head_def Let_def outcome_simps)

lemma commit_all_steps:
  assumes "lg_commiting g" "0 < lh_len g"
    and "commit_prefix (length (commit_steps (unat (lh_len g)))) g c = Inr c'"
  shows "commit_no_lock g c = Inr (g\<lparr>lh_len := 0\<rparr>, c')"
proof -
  have "bindR (write_log g c) (\<lambda>c. bindR (write_head g c) (\<lambda>c.
      bindR (install_trans False g c) (\<lambda>c. bindR (empty_head g c) (\<lambda>(_, c). Inr c)))) = Inr c'"
    using assms(3)
    by (auto simp: commit_prefix_def commit_steps_def foldR_append foldR_WriteLog foldR_Install
        write_log_def install_trans_def outcome_simps simp del: upt_Suc)
  then show ?thesis
    using assms(1,2) by (auto simp: commit_no_lock_def outcome_simps dest: empty_head_log)
qed

lemma take_commit_steps:
  "k \<le> n \<Longrightarrow> take k (commit_steps n) = map WriteLog [1..<k + 1]"
  "j \<le> n \<Longrightarrow> take (n + 1 + j) (commit_steps n) =
     map WriteLog [1..<n + 1] @ [WriteHead] @ map Install [1..<j + 1]"
  by (simp_all add: commit_steps_def take_map take_upt del: upt_Suc)

section \<open>The disk at each point of a commit\<close>

definition old_header :: "log \<Rightarrow> bcache \<Rightarrow> bool" where
  "old_header g c \<longleftrightarrow> header_len (bc_disk c (lg_start g)) = 0"

text \<open>A log whose logged blocks are pinned once and nothing else is referenced: the state in
  which \<^verbatim>\<open>end_op\<close> commits when the last operation ends.\<close>

definition commit_ready :: "u32 \<Rightarrow> log \<Rightarrow> bcache \<Rightarrow> bool" where
  "commit_ready d g c \<longleftrightarrow>
     log_wf d g \<and> bc_inv d c \<and> crefs d c = pins (set (logged g)) \<and> old_header g c"

lemma commit_ready_card: "log_wf d g \<Longrightarrow> card (set (logged g)) \<le> 28"
  using log_wf_bounds [of d g] card_length [of "logged g"] by simp

lemma data_not_lblk: "data_block g b \<Longrightarrow> i < LOGSIZE \<Longrightarrow> b \<noteq> lblk g i"
  by (simp add: data_block_def)

lemma data_not_start: "data_block g b \<Longrightarrow> b \<noteq> lg_start g"
  using data_not_lblk [of g b 0] by (simp add: LOGSIZE_val lblk_0)

lemma start_not_logged: "log_wf d g \<Longrightarrow> b \<in> set (logged g) \<Longrightarrow> b \<noteq> lg_start g"
  using data_not_start by (auto simp: log_wf_def)

lemma lblk_not_start: "log_wf d g \<Longrightarrow> 1 \<le> i \<Longrightarrow> i < LOGSIZE \<Longrightarrow> lblk g i \<noteq> lg_start g"
  using lblk_inj [of d g i 0] by (auto simp: lblk_0 LOGSIZE_val)

lemma len_lt: "log_wf d g \<Longrightarrow> i \<le> unat (lh_len g) \<Longrightarrow> i < LOGSIZE"
  using log_wf_bounds [of d g] by (simp add: LOGSIZE_val)

lemma phase_log:
  assumes rd: "commit_ready d g c" and k: "k \<le> unat (lh_len g)"
  obtains c' where "commit_prefix k g c = Inr c'" "bc_inv d c'" "crefs d c' = pins (set (logged g))"
    "\<And>i. 1 \<le> i \<Longrightarrow> i \<le> k \<Longrightarrow> bc_disk c' (lblk g i) = cview d c (logged g ! (i - 1))"
    "\<And>b. b = lg_start g \<or> data_block g b \<Longrightarrow> bc_disk c' b = bc_disk c b \<and> cview d c' b = cview d c b"
proof -
  note rdd = rd [unfolded commit_ready_def]
  note wf = rdd [THEN conjunct1]
  obtain c' where c': "foldR (write_log_one g) [1..<k + 1] c = Inr c'" "bc_inv d c'"
    "crefs d c' = pins (set (logged g))"
    "cview d c' = patch (lblk g) (\<lambda>i. cview d c (logged g ! (i - 1))) k (cview d c)"
    "bc_disk c' = patch (lblk g) (\<lambda>i. cview d c (logged g ! (i - 1))) k (bc_disk c)"
    using write_log_upto [OF wf _ _ finite_set commit_ready_card [OF wf] order_refl k] rdd by auto
  have out: "b \<noteq> lblk g i" if "b = lg_start g \<or> data_block g b" "1 \<le> i" "i \<le> k" for b i
    using that k lblk_not_start [OF wf that(2)] data_not_lblk [of g b i] len_lt [OF wf, of i] by auto
  have "inj_on (lblk g) {1..k}" by (rule inj_on_subset [OF lblk_inj_on [OF wf]]) (use k in auto)
  note inj = patch_in [OF this]
  have "commit_prefix k g c = Inr c'"
    using c'(1) k by (simp add: commit_prefix_def take_commit_steps foldR_WriteLog del: upt_Suc)
  then show thesis
    by (rule that) (simp_all add: c'(2,3), simp_all add: c'(4,5) inj patch_out out)
qed

text \<open>After the header is written the log holds the whole transaction; \<open>j\<close> blocks of it have
  been installed.\<close>

lemma phase_install:
  assumes rd: "commit_ready d g c" and j: "j \<le> unat (lh_len g)"
  obtains c' r where "commit_prefix (unat (lh_len g) + 1 + j) g c = Inr c'" "bc_inv d c'"
    "crefs d c' = pins (set (logged g) - set (take j (logged g)))"
    "bc_disk c' (lg_start g) = header_bytes (lh_len g) (lh_blocknos g) @ r"
    "\<And>i. 1 \<le> i \<Longrightarrow> i \<le> unat (lh_len g) \<Longrightarrow> bc_disk c' (lblk g i) = cview d c (logged g ! (i - 1))"
    "\<And>b. data_block g b \<Longrightarrow> cview d c' b = cview d c b"
    "\<And>b. data_block g b \<Longrightarrow> b \<notin> set (take j (logged g)) \<Longrightarrow> bc_disk c' b = bc_disk c b"
    "\<And>b. data_block g b \<Longrightarrow> b \<in> set (take j (logged g)) \<Longrightarrow> bc_disk c' b = cview d c b"
proof -
  let ?n = "unat (lh_len g)" and ?S = "set (logged g)"
  note rdd = rd [unfolded commit_ready_def]
  note wf = rdd [THEN conjunct1]
  note card = commit_ready_card [OF wf]
  obtain c1 where c1: "commit_prefix ?n g c = Inr c1" "bc_inv d c1" "crefs d c1 = pins ?S"
    "\<And>i. 1 \<le> i \<Longrightarrow> i \<le> ?n \<Longrightarrow> bc_disk c1 (lblk g i) = cview d c (logged g ! (i - 1))"
    "\<And>b. b = lg_start g \<or> data_block g b \<Longrightarrow> bc_disk c1 b = bc_disk c b \<and> cview d c1 b = cview d c b"
    by (rule phase_log [OF rd order_refl]) (rule that; assumption)
  from write_head_spec [OF wf c1(2,3) finite_set card] obtain c2 r where
    c2: "write_head g c1 = Inr c2" "bc_inv d c2" "crefs d c2 = pins ?S"
      "cview d c2 = (cview d c1)(lg_start g := header_bytes (lh_len g) (lh_blocknos g) @ r)"
      "bc_disk c2 = (bc_disk c1)(lg_start g := header_bytes (lh_len g) (lh_blocknos g) @ r)"
    by blast
  have log: "bc_disk c2 (lblk g i) = cview d c (logged g ! (i - 1)) \<and>
      cview d c2 (lblk g i) = bc_disk c2 (lblk g i)" if i: "1 \<le> i" "i \<le> ?n" for i
  proof -
    have "lblk g i \<notin> ?S" using logged_data [OF wf _ len_lt [OF wf i(2)]] by blast
    then have "cview d c2 (lblk g i) = bc_disk c2 (lblk g i)"
      using unreferenced_clean [OF c2(2)] c2(3) by (simp add: pins_def)
    then show ?thesis using c1(4) [OF i] c2(5) lblk_not_start [OF wf i(1) len_lt [OF wf i(2)]] by simp
  qed
  let ?f = "\<lambda>i. logged g ! (i - 1)"
  obtain c3 where c3: "foldR (install_one False g) [1..<j + 1] c2 = Inr c3" "bc_inv d c3"
    "crefs d c3 = pins (?S - set (take j (logged g)))"
    "cview d c3 = patch ?f (\<lambda>i. cview d c2 (lblk g i)) j (cview d c2)"
    "bc_disk c3 = patch ?f (\<lambda>i. cview d c2 (lblk g i)) j (bc_disk c2)"
    using install_upto [OF wf c2(2,3) finite_set card j, of False] log by auto
  have out: "lblk g i \<noteq> ?f m" if "i < LOGSIZE" "1 \<le> m" "m \<le> j" for i m
    using logged_data [OF wf logged_nth(2) [OF wf that(2)] that(1)] that j by auto
  have in_take: "b \<in> set (take j (logged g)) \<longleftrightarrow> (\<exists>i. 1 \<le> i \<and> i \<le> j \<and> b = ?f i)" for b
  proof -
    have "j \<le> length (logged g)" using j log_wf_bounds [OF wf] by simp
    then have "b \<in> set (take j (logged g)) \<longleftrightarrow> (\<exists>m<j. b = logged g ! m)"
      by (auto simp: in_set_conv_nth)
    also have "\<dots> \<longleftrightarrow> (\<exists>i. 1 \<le> i \<and> i \<le> j \<and> b = ?f i)"
      by (rule iffI; elim exE conjE) (rule exI [of _ "Suc _"], auto intro!: exI [of _ "_ - Suc 0"])
    finally show ?thesis .
  qed
  have vals: "cview d c2 (lblk g i) = cview d c (?f i)" if "1 \<le> i" "i \<le> j" for i
    using log [of i] that j by simp
  show thesis
  proof (rule that)
    show "commit_prefix (?n + 1 + j) g c = Inr c3"
      using c1(1) c2(1) c3(1)
      unfolding commit_prefix_def take_commit_steps(2) [OF j] take_commit_steps(1) [OF order_refl]
      by (simp add: foldR_append foldR_WriteLog foldR_Install del: upt_Suc)
    show "bc_disk c3 (lg_start g) = header_bytes (lh_len g) (lh_blocknos g) @ r"
      unfolding c3(5) using out [of 0] c2(5)
      by (subst patch_out) (auto simp: lblk_0 LOGSIZE_val)
    show "bc_disk c3 (lblk g i) = cview d c (logged g ! (i - 1))" if "1 \<le> i" "i \<le> ?n" for i
      unfolding c3(5) using out [OF len_lt [OF wf that(2)]] log [OF that] by (subst patch_out) auto
    show "cview d c3 b = cview d c b" if "data_block g b" for b
      unfolding c3(4) by (rule patch_agree)
        (use vals c2(4) c1(5) that data_not_start [OF that] in auto)
    show "bc_disk c3 b = bc_disk c b" if "data_block g b" "b \<notin> set (take j (logged g))" for b
      unfolding c3(5) using that in_take [of b] c2(5) c1(5) data_not_start [OF that(1)]
      by (subst patch_out) auto
    show "bc_disk c3 b = cview d c b" if "data_block g b" "b \<in> set (take j (logged g))" for b
      unfolding c3(5) by (rule patch_agree) (use vals that in_take [of b] in auto)
  qed (use c3 in auto)
qed

section \<open>Recovery\<close>

lemma lblk_cong: "lg_start g' = lg_start g \<Longrightarrow> lblk g' = lblk g"
  by (simp add: lblk_def fun_eq_iff)

lemma data_block_cong: "lg_start g' = lg_start g \<Longrightarrow> data_block g' = data_block g"
  using lblk_cong [of g' g] by (simp add: data_block_def fun_eq_iff)

lemma pins_empty: "pins {} = (\<lambda>_. 0)"
  by (simp add: pins_def)

lemma init_read_head:
  assumes "d \<noteq> 0"
  obtains c where "log_init d (start, sz) log_unint (bcache_new D) =
      (let g = log_unint\<lparr>lg_start := start, lg_size := sz, lg_dev := d,
                 lh_len := header_len (D start), lh_blocknos := header_blocknos (D start)\<rparr> in
       if 0 < header_len (D start) then bindR (install_trans True g c) (\<lambda>c. empty_head g c)
       else Inr (g, c))"
    "bc_inv d c" "crefs d c = pins {}" "cview d c = D" "bc_disk c = D"
proof -
  note new = bcache_new_inv [OF assms, of D] bcache_new_abs [OF assms, of D]
  have disk: "bc_disk (bcache_new D) = D" by (simp add: bcache_new_def)
  let ?g = "log_unint\<lparr>lg_start := start, lg_size := sz, lg_dev := d\<rparr>"
  from read_head_spec [of ?g d "bcache_new D" "{}"] new disk obtain c where
    "read_head ?g (bcache_new D) =
       Inr (?g\<lparr>lh_len := header_len (D start), lh_blocknos := header_blocknos (D start)\<rparr>, c)"
    "bc_inv d c" "crefs d c = pins {}" "cview d c = D" "bc_disk c = D"
    by (auto simp: pins_empty)
  with that show thesis by (simp add: log_init_def log_recover_def Let_def)
qed

lemma recover_none:
  assumes "d \<noteq> 0" "header_len (D start) = 0"
  obtains g' c' where "log_init d (start, sz) log_unint (bcache_new D) = Inr (g', c')"
    "lh_len g' = 0" "bc_inv d c'" "crefs d c' = pins {}" "bc_disk c' = D"
  by (rule init_read_head [OF assms(1), of start sz D]) (use assms(2) that in \<open>auto simp: Let_def\<close>)

lemma recover_replay:
  assumes d: "d \<noteq> 0" and wf: "log_wf d g" and n: "0 < lh_len g"
    and hd: "D (lg_start g) = header_bytes (lh_len g) (lh_blocknos g) @ r"
  obtains g' c' where "log_init d (lg_start g, sz) log_unint (bcache_new D) = Inr (g', c')"
    "lh_len g' = 0" "bc_inv d c'" "crefs d c' = pins {}" "header_len (bc_disk c' (lg_start g)) = 0"
    "\<And>b. data_block g b \<Longrightarrow> b \<notin> set (logged g) \<Longrightarrow> bc_disk c' b = D b"
    "\<And>i. 1 \<le> i \<Longrightarrow> i \<le> unat (lh_len g) \<Longrightarrow> bc_disk c' (logged g ! (i - 1)) = D (lblk g i)"
proof -
  let ?g = "log_unint\<lparr>lg_start := lg_start g, lg_size := sz, lg_dev := d,
              lh_len := lh_len g, lh_blocknos := lh_blocknos g\<rparr>" and ?n = "unat (lh_len g)"
  have "length (lh_blocknos g) = LOGSIZE - 1" using wf by (simp add: log_wf_def)
  note dec = hd [THEN arg_cong, of header_len, simplified]
    hd [THEN arg_cong, of header_blocknos, unfolded header_blocknos_bytes [OF this]]
  have eq: "lblk ?g = lblk g" "logged ?g = logged g" "data_block ?g = data_block g"
    using lblk_cong [of ?g g] data_block_cong [of ?g g] by (simp_all add: logged_def)
  then have wf': "log_wf d ?g" using wf by (simp add: log_wf_def)
  obtain c where c: "log_init d (lg_start g, sz) log_unint (bcache_new D) =
      bindR (install_trans True ?g c) (\<lambda>c. empty_head ?g c)"
    "bc_inv d c" "crefs d c = pins {}" "cview d c = D" "bc_disk c = D"
    by (rule init_read_head [OF d, of "lg_start g" sz D]) (use n dec that in \<open>auto simp: Let_def\<close>)
  let ?f = "\<lambda>i. logged g ! (i - 1)"
  obtain c1 where c1: "install_trans True ?g c = Inr c1" "bc_inv d c1" "crefs d c1 = pins {}"
    "bc_disk c1 = patch ?f (\<lambda>i. D (lblk g i)) ?n D"
    using install_upto [OF wf' c(2,3), of ?n True] c(4,5) eq by (auto simp: install_trans_def simp del: upt_Suc)
  obtain c2 r' where c2: "empty_head ?g c1 = Inr (?g\<lparr>lh_len := 0\<rparr>, c2)" "bc_inv d c2" "crefs d c2 = pins {}"
    "bc_disk c2 = (bc_disk c1)(lg_start g := to_le 4 (0 :: u32) @ r')"
    using empty_head_spec [of ?g d c1 "{}"] c1 by auto
  have f_mem: "?f i \<in> set (logged g)" if "1 \<le> i" "i \<le> ?n" for i using logged_nth(2) [OF wf that] .
  show thesis
  proof (rule that)
    show "log_init d (lg_start g, sz) log_unint (bcache_new D) = Inr (?g\<lparr>lh_len := 0\<rparr>, c2)"
      unfolding c(1) c1(1) bindR_simps by (rule c2(1))
    show "bc_disk c2 b = D b" if "data_block g b" "b \<notin> set (logged g)" for b
    proof -
      have "patch ?f (\<lambda>i. D (lblk g i)) ?n D b = D b" using f_mem that(2) by (intro patch_out) blast
      then show ?thesis using c2(4) c1(4) data_not_start [OF that(1)] by simp
    qed
    show "bc_disk c2 (?f i) = D (lblk g i)" if "1 \<le> i" "i \<le> ?n" for i
      using patch_in [OF logged_inj_on [OF wf] that] c2(4) c1(4) start_not_logged [OF wf f_mem [OF that]]
      by simp
  qed (use c2 in auto)
qed

section \<open>Atomicity\<close>

text \<open>Either all data blocks are the ones before the transaction or all are the committed ones;
  the turning point is the write of the header.\<close>

definition recovered :: "u32 \<Rightarrow> log \<Rightarrow> bcache \<Rightarrow> (u32 \<Rightarrow> block) \<Rightarrow> bool" where
  "recovered d g c v \<longleftrightarrow>
     (\<exists>g' c'. log_init d (lg_start g, lg_size g) log_unint (bcache_new (bc_disk c)) = Inr (g', c') \<and>
        lh_len g' = 0 \<and> bc_inv d c' \<and> header_len (bc_disk c' (lg_start g)) = 0 \<and>
        (\<forall>b. data_block g b \<longrightarrow> bc_disk c' b = v b))"

lemma recovered_old:
  assumes "d \<noteq> 0" "header_len (bc_disk c (lg_start g)) = 0"
    and "\<And>b. data_block g b \<Longrightarrow> bc_disk c b = v b"
  shows "recovered d g c v"
  by (rule recover_none [of d "bc_disk c" "lg_start g" "lg_size g", OF assms(1,2)]) (use assms in \<open>auto simp: recovered_def\<close>)

lemma crash_before:
  assumes rd: "commit_ready d g c" and k: "k \<le> unat (lh_len g)"
  shows "\<exists>c'. commit_prefix k g c = Inr c' \<and> recovered d g c' (bc_disk c)"
proof -
  obtain c' where c': "commit_prefix k g c = Inr c'"
    "\<And>b. b = lg_start g \<or> data_block g b \<Longrightarrow> bc_disk c' b = bc_disk c b \<and> cview d c' b = cview d c b"
    by (rule phase_log [OF rd k]) (rule that; assumption)
  have "d \<noteq> 0" using rd by (auto simp: commit_ready_def bc_inv_def)
  then have "recovered d g c' (bc_disk c)"
    by (rule recovered_old) (use c'(2) rd in \<open>auto simp: commit_ready_def old_header_def\<close>)
  with c'(1) show ?thesis by blast
qed

lemma crash_after:
  assumes rd: "commit_ready d g c" and n: "0 < lh_len g" and j: "j \<le> unat (lh_len g)"
  shows "\<exists>c'. commit_prefix (unat (lh_len g) + 1 + j) g c = Inr c' \<and> recovered d g c' (cview d c)"
proof -
  let ?n = "unat (lh_len g)"
  have wf: "log_wf d g" and d: "d \<noteq> 0" and inv: "bc_inv d c" and refs: "crefs d c = pins (set (logged g))"
    using rd by (auto simp: commit_ready_def bc_inv_def)
  obtain c1 r where c1: "commit_prefix (?n + 1 + j) g c = Inr c1"
    "bc_disk c1 (lg_start g) = header_bytes (lh_len g) (lh_blocknos g) @ r"
    "\<And>i. 1 \<le> i \<Longrightarrow> i \<le> ?n \<Longrightarrow> bc_disk c1 (lblk g i) = cview d c (logged g ! (i - 1))"
    "\<And>b. data_block g b \<Longrightarrow> b \<notin> set (take j (logged g)) \<Longrightarrow> bc_disk c1 b = bc_disk c b"
    by (rule phase_install [OF rd j]) (rule that; assumption)
  obtain g' c' where c': "log_init d (lg_start g, lg_size g) log_unint (bcache_new (bc_disk c1)) = Inr (g', c')"
    "lh_len g' = 0" "bc_inv d c'" "header_len (bc_disk c' (lg_start g)) = 0"
    "\<And>b. data_block g b \<Longrightarrow> b \<notin> set (logged g) \<Longrightarrow> bc_disk c' b = bc_disk c1 b"
    "\<And>i. 1 \<le> i \<Longrightarrow> i \<le> ?n \<Longrightarrow> bc_disk c' (logged g ! (i - 1)) = bc_disk c1 (lblk g i)"
    by (rule recover_replay [of d g "bc_disk c1" r "lg_size g", OF d wf n c1(2)]) (rule that; assumption)
  have "bc_disk c' b = cview d c b" if b: "data_block g b" for b
  proof (cases "b \<in> set (logged g)")
    case True
    then obtain m where "m < ?n" "b = logged g ! m"
      using log_wf_bounds [OF wf] by (auto simp: in_set_conv_nth)
    then show ?thesis using c'(6) [of "Suc m"] c1(3) [of "Suc m"] by simp
  next
    case False
    then have "b \<notin> set (take j (logged g))" using in_set_takeD by fast
    then have "bc_disk c' b = bc_disk c b" using c'(5) [OF b False] c1(4) [OF b] by simp
    also have "\<dots> = cview d c b"
      using unreferenced_clean [OF inv, of b] refs False by (simp add: pins_def)
    finally show ?thesis .
  qed
  with c' c1(1) show ?thesis unfolding recovered_def by blast
qed

lemma commit_done:
  assumes rd: "commit_ready d g c" and n: "0 < lh_len g"
  obtains c' where "commit_prefix (2 * unat (lh_len g) + 2) g c = Inr c'" "bc_inv d c'"
    "crefs d c' = pins {}" "header_len (bc_disk c' (lg_start g)) = 0"
    "\<And>b. data_block g b \<Longrightarrow> cview d c' b = cview d c b \<and> bc_disk c' b = cview d c b"
proof -
  let ?n = "unat (lh_len g)"
  have wf: "log_wf d g" and inv: "bc_inv d c" and refs: "crefs d c = pins (set (logged g))"
    using rd by (auto simp: commit_ready_def)
  have all: "take ?n (logged g) = logged g" using log_wf_bounds [OF wf] by simp
  obtain c1 where c1: "commit_prefix (?n + 1 + ?n) g c = Inr c1" "bc_inv d c1"
    "crefs d c1 = pins {}" "\<And>b. data_block g b \<Longrightarrow> cview d c1 b = cview d c b"
    by (rule phase_install [OF rd order_refl]) (use all that in auto)
  have dev: "lg_dev g = d" using wf by (simp add: log_wf_def)
  obtain c2 r where c2: "empty_head g c1 = Inr (g\<lparr>lh_len := 0\<rparr>, c2)" "bc_inv d c2" "crefs d c2 = pins {}"
    "cview d c2 = (cview d c1)(lg_start g := to_le 4 (0 :: u32) @ r)"
    "bc_disk c2 = (bc_disk c1)(lg_start g := to_le 4 (0 :: u32) @ r)"
    using empty_head_spec [OF dev c1(2,3)] by auto
  have "take (2 * ?n + 2) (commit_steps ?n) = take (?n + 1 + ?n) (commit_steps ?n) @ [EmptyHead]"
    by (simp add: commit_steps_def del: upt_Suc)
  then have "commit_prefix (2 * ?n + 2) g c = Inr c2"
    using c1(1) c2(1) by (simp add: commit_prefix_def foldR_append)
  then show thesis
  proof (rule that)
    show "cview d c2 b = cview d c b \<and> bc_disk c2 b = cview d c b" if "data_block g b" for b
      using c1(4) [OF that] c2(4,5) data_not_start [OF that] unreferenced_clean [OF c1(2), of b] c1(3)
      by (simp add: pins_empty)
  qed (use c2 in auto)
qed

lemma crash_done:
  assumes rd: "commit_ready d g c" and n: "0 < lh_len g"
  shows "\<exists>c'. commit_prefix (2 * unat (lh_len g) + 2) g c = Inr c' \<and> recovered d g c' (cview d c)"
proof -
  obtain c' where c': "commit_prefix (2 * unat (lh_len g) + 2) g c = Inr c'"
    "header_len (bc_disk c' (lg_start g)) = 0"
    "\<And>b. data_block g b \<Longrightarrow> cview d c' b = cview d c b \<and> bc_disk c' b = cview d c b"
    by (rule commit_done [OF assms]) (rule that; assumption)
  have "d \<noteq> 0" using rd by (auto simp: commit_ready_def bc_inv_def)
  then have "recovered d g c' (cview d c)" by (rule recovered_old) (use c'(2,3) in auto)
  with c'(1) show ?thesis by blast
qed

end
