(* ===== verification/Rx_Log_Props.thy ===== *)
theory Rx_Log_Props
  imports Rx_Log_Crash
begin

text \<open>
  The transaction protocol over the log: what \<^verbatim>\<open>begin_op\<close>, \<^verbatim>\<open>write\<close> and \<^verbatim>\<open>end_op\<close> keep, and the
  properties of cache and log that the file system above relies on.
\<close>

section \<open>The invariant of the running log\<close>

text \<open>Every logged block has one pin on top of the references \<open>H\<close> of the buffers held.\<close>

definition log_inv :: "u32 \<Rightarrow> log \<Rightarrow> bcache \<Rightarrow> (u32 \<Rightarrow> nat) \<Rightarrow> bool" where
  "log_inv d g c H \<longleftrightarrow>
     log_wf d g \<and> bc_inv d c \<and> crefs d c = (\<lambda>b. pins (set (logged g)) b + H b)"

lemma buf_pin_spec:
  assumes "bc_inv d s" "holds d s h" "crefs d s (buf_blockno h) < 2 ^ 64 - 1"
  obtains s' where "buf_pin h s = Inr s'" "bc_inv d s'" "cview d s' = cview d s"
    "bc_disk s' = bc_disk s"
    "crefs d s' = (crefs d s)(buf_blockno h := crefs d s (buf_blockno h) + 1)"
    "\<And>g. holds d s g \<Longrightarrow> holds d s' g"
  using upd_refcnt_spec [OF assms(1,2), of usize_inc "crefs d s (buf_blockno h) + 1"] assms(3)
  by (auto simp: buf_pin_def usize_inc_def)

lemma log_space:
  assumes "log_wf d g" "lh_len g + 2 < lg_size g" "unat (lh_len g) + 2 < LOGSIZE"
  shows "write_full g = Inr False" "no_space g = Inr False"
    "add_ck (lh_len g) 1 = Inr (lh_len g + 1)" "unat (lh_len g + 1) = unat (lh_len g) + 1"
proof -
  have n: "unat (lh_len g) \<le> 27" using assms(3) by (simp add: LOGSIZE_val)
  then show ck: "add_ck (lh_len g) 1 = Inr (lh_len g + 1)" by (simp add: add_ck_def)
  from n have ck2: "add_ck (lh_len g) 2 = Inr (lh_len g + 2)" by (simp add: add_ck_def)
  show u: "unat (lh_len g + 1) = unat (lh_len g) + 1" using n by (simp add: unat_word_ariths)
  have "unat (lh_len g + 2) = unat (lh_len g) + 2" using n by (simp add: unat_word_ariths)
  then have "lh_len g + 1 < lg_size g" using assms(2) u by (simp add: word_less_nat_alt)
  then show "write_full g = Inr False" "no_space g = Inr False"
    using n u ck ck2 assms(2) by (simp_all add: write_full_def no_space_def LOGSIZE_val)
qed

lemma logged_append:
  assumes "log_wf d g" "unat (lh_len g) + 2 < LOGSIZE" "unat (lh_len g + 1) = unat (lh_len g) + 1"
  shows "logged (g\<lparr>lh_blocknos := (lh_blocknos g)[unat (lh_len g) := b], lh_len := lh_len g + 1\<rparr>) =
    logged g @ [b]"
  using assms by (simp add: logged_def log_wf_def LOGSIZE_val take_Suc_conv_app_nth)

lemma log_wf_append:
  assumes wf: "log_wf d g" and n: "unat (lh_len g) + 2 < LOGSIZE"
    and u: "unat (lh_len g + 1) = unat (lh_len g) + 1" and b: "data_block g b" "b \<notin> set (logged g)"
  shows "log_wf d (g\<lparr>lh_blocknos := (lh_blocknos g)[unat (lh_len g) := b], lh_len := lh_len g + 1\<rparr>)"
proof -
  let ?g = "g\<lparr>lh_blocknos := (lh_blocknos g)[unat (lh_len g) := b], lh_len := lh_len g + 1\<rparr>"
  have "data_block ?g = data_block g" by (rule data_block_cong) simp
  with logged_append [OF wf n u, of b] wf n u b show ?thesis
    unfolding log_wf_def by (simp add: LOGSIZE_val)
qed

lemma log_write_absorb:
  assumes inv: "log_inv d g c H" and h: "holds d c h" "0 < H (buf_blockno h)"
    and out: "1 \<le> lg_outstanding g" and full: "write_full g = Inr False"
    and old: "buf_blockno h \<in> set (logged g)"
  obtains c' where "log_write h g c = Inr (g, c')" "log_inv d g c' (H(buf_blockno h := H (buf_blockno h) - 1))"
    "cview d c' = cview d c" "bc_disk c' = bc_disk c"
proof -
  let ?b = "buf_blockno h"
  have bc: "bc_inv d c" and refs: "crefs d c = (\<lambda>b. pins (set (logged g)) b + H b)" and wf: "log_wf d g"
    using inv by (simp_all add: log_inv_def)
  have "1 < crefs d c ?b" using refs old h(2) by (simp add: pins_def)
  then obtain c' where c': "buf_drop h c = Inr c'" "bc_inv d c'" "cview d c' = cview d c"
    "bc_disk c' = bc_disk c" "crefs d c' = (crefs d c)(?b := crefs d c ?b - 1)"
    using bc.release_law [OF bc h(1)] by blast
  have "\<not> lg_outstanding g < 1" using out by (simp only: not_less)
  then have "log_write h g c = Inr (g, c')"
    using full old c'(1) by (simp add: log_write_def logged_def)
  moreover have "crefs d c' = (\<lambda>b. pins (set (logged g)) b + (H(?b := H ?b - 1)) b)"
    using c'(5) refs h(2) by (auto simp: fun_eq_iff)
  ultimately show thesis using that c' wf by (simp add: log_inv_def)
qed

lemma log_write_new:
  assumes inv: "log_inv d g c H" and h: "holds d c h" "0 < H (buf_blockno h)"
    and out: "1 \<le> lg_outstanding g" and space: "lh_len g + 2 < lg_size g" "unat (lh_len g) + 2 < LOGSIZE"
    and new: "buf_blockno h \<notin> set (logged g)" "data_block g (buf_blockno h)"
    and bound: "H (buf_blockno h) < 2 ^ 64 - 2"
  obtains g' c' where "log_write h g c = Inr (g', c')" "logged g' = logged g @ [buf_blockno h]"
    "g' = g\<lparr>lh_blocknos := lh_blocknos g', lh_len := lh_len g + 1\<rparr>"
    "log_inv d g' c' (H(buf_blockno h := H (buf_blockno h) - 1))"
    "cview d c' = cview d c" "bc_disk c' = bc_disk c"
proof -
  let ?b = "buf_blockno h"
  have bc: "bc_inv d c" and refs: "crefs d c = (\<lambda>b. pins (set (logged g)) b + H b)" and wf: "log_wf d g"
    using inv by (simp_all add: log_inv_def)
  let ?g = "g\<lparr>lh_blocknos := (lh_blocknos g)[unat (lh_len g) := ?b], lh_len := lh_len g + 1\<rparr>"
  note sp = log_space [OF wf space]
  have rb: "crefs d c ?b = H ?b" using refs new(1) by (simp add: pins_def)
  obtain c1 where c1: "buf_pin h c = Inr c1" "bc_inv d c1" "cview d c1 = cview d c"
    "bc_disk c1 = bc_disk c" "crefs d c1 = (crefs d c)(?b := H ?b + 1)" "holds d c1 h"
    by (rule buf_pin_spec [OF bc h(1)]) (use rb bound h that in auto)
  have "1 < crefs d c1 ?b" using c1(5) h(2) by simp
  then obtain c' where c': "buf_drop h c1 = Inr c'" "bc_inv d c'" "cview d c' = cview d c1"
    "bc_disk c' = bc_disk c1" "crefs d c' = (crefs d c1)(?b := crefs d c1 ?b - 1)"
    using bc.release_law [OF c1(2,6)] by blast
  note app = logged_append [OF wf space(2) sp(4), of ?b]
  have "\<not> lg_outstanding g < 1" using out by (simp only: not_less)
  moreover have "unat (lh_len g) < length (lh_blocknos g)" using log_wf_bounds [OF wf] by simp
  ultimately have "log_write h g c = Inr (?g, c')"
    using sp(1-3) new(1) c1(1) c'(1) by (simp add: log_write_def logged_def [symmetric])
  moreover have "crefs d c' = (\<lambda>b. pins (set (logged ?g)) b + (H(?b := H ?b - 1)) b)"
    unfolding app using c'(5) c1(5) refs h(2) new(1) by (auto simp: fun_eq_iff pins_def)
  ultimately show thesis
    using that [of ?g c'] app log_wf_append [OF wf space(2) sp(4) new(2,1)] c' c1 by (simp add: log_inv_def)
qed

lemma end_op_commit:
  assumes inv: "log_inv d g c (\<lambda>_. 0)" and hd: "old_header g c"
    and g: "lg_outstanding g = 1" "\<not> lg_commiting g"
  obtains c' where "end_op g c = Inr (g\<lparr>lg_outstanding := 0, lh_len := 0\<rparr>, c')"
    "log_inv d (g\<lparr>lg_outstanding := 0, lh_len := 0\<rparr>) c' (\<lambda>_. 0)" "old_header g c'"
    "\<And>b. data_block g b \<Longrightarrow> cview d c' b = cview d c b \<and> bc_disk c' b = cview d c b"
proof -
  let ?g = "g\<lparr>lg_outstanding := 0, lg_commiting := True\<rparr>"
  let ?g' = "g\<lparr>lg_outstanding := 0, lh_len := 0\<rparr>"
  have wf: "log_wf d g" and bc: "bc_inv d c" and refs: "crefs d c = pins (set (logged g))"
    using inv by (simp_all add: log_inv_def)
  have same: "lblk ?g = lblk g" "logged ?g = logged g" "data_block ?g = data_block g"
    using lblk_cong [of ?g g] data_block_cong [of ?g g] by (simp_all add: logged_def)
  then have rd: "commit_ready d ?g c"
    using wf bc refs hd by (simp add: commit_ready_def log_wf_def old_header_def)
  have "data_block ?g' = data_block g" by (rule data_block_cong) simp
  then have wf': "log_wf d ?g'" using wf by (simp add: log_wf_def logged_def)
  have sub: "sub_ck (lg_outstanding g) 1 = Inr 0" using g(1) by (simp add: sub_ck_def)
  have op: "end_op g c = bindR (commit_no_lock ?g c) (\<lambda>(g, c). Inr (g\<lparr>lg_commiting := False\<rparr>, c))"
    using g sub by (simp add: end_op_def Let_def)
  have g': "?g\<lparr>lh_len := 0, lg_commiting := False\<rparr> = ?g'" using g(2) by simp
  show thesis
  proof (cases "lh_len g = 0")
    case True
    then have empty: "set (logged g) = {}" by (simp add: logged_def)
    have "g\<lparr>lg_outstanding := 0, lg_commiting := False\<rparr> = ?g'" using True g(2) by simp
    then have "end_op g c = Inr (?g', c)" using op True by (simp add: commit_no_lock_def)
    moreover have "log_inv d ?g' c (\<lambda>_. 0)" using wf' bc refs [unfolded empty] by (simp add: log_inv_def logged_def)
    ultimately show thesis
      using that unreferenced_clean [OF bc] refs empty hd by (simp add: pins_empty)
  next
    case False
    then have n: "0 < lh_len ?g" by (simp add: word_neq_0_conv)
    obtain c' where c': "commit_prefix (2 * unat (lh_len ?g) + 2) ?g c = Inr c'" "bc_inv d c'"
      "crefs d c' = pins {}" "header_len (bc_disk c' (lg_start ?g)) = 0"
      "\<And>b. data_block ?g b \<Longrightarrow> cview d c' b = cview d c b \<and> bc_disk c' b = cview d c b"
      by (rule commit_done [OF rd n]) (rule that; assumption)
    have "length (commit_steps (unat (lh_len ?g))) = 2 * unat (lh_len ?g) + 2"
      by (simp add: commit_steps_def del: upt_Suc)
    then have "commit_no_lock ?g c = Inr (?g\<lparr>lh_len := 0\<rparr>, c')"
      using commit_all_steps [of ?g c c'] n c'(1) by simp
    then have "end_op g c = Inr (?g', c')" using op g' by simp
    moreover have "log_inv d ?g' c' (\<lambda>_. 0)" using wf' c'(2,3) by (simp add: log_inv_def logged_def)
    ultimately show thesis using that c'(4,5) same by (simp add: old_header_def)
  qed
qed

section \<open>Writing a list of blocks\<close>

text \<open>Blocks read through the cache and written to the log, one after the other, as the operations of
  the file system do.\<close>

definition write_blocks :: "u32 \<Rightarrow> u32 list \<Rightarrow> log \<times> bcache \<Rightarrow> (log \<times> bcache) outcome" where
  "write_blocks d = foldR (\<lambda>b (g, c). bindR (bcache_read d b c) (\<lambda>(h, c). log_write h g c))"

lemma logged_out: "logged (g\<lparr>lg_outstanding := n\<rparr>) = logged g"
  by (simp add: logged_def)

lemma data_block_out: "data_block (g\<lparr>lg_outstanding := n\<rparr>) = data_block g"
  by (rule data_block_cong) simp

lemma log_wf_out: "log_wf d (g\<lparr>lg_outstanding := n\<rparr>) = log_wf d g"
  by (simp add: log_wf_def logged_out data_block_out)

lemma read_in_log:
  assumes "log_inv d g c (\<lambda>_. 0)"
  obtains h c1 where "bcache_read d b c = Inr (h, c1)" "buf_blockno h = b" "holds d c1 h"
    "log_inv d g c1 ((\<lambda>_. 0)(b := 1))"
proof -
  have inv: "bc_inv d c" "log_wf d g" "crefs d c = pins (set (logged g))" using assms by (simp_all add: log_inv_def)
  have "card (set (logged g)) \<le> 28" using log_wf_bounds [OF inv(2)] card_length [of "logged g"] by linarith
  then have "room (crefs d c) b" using room_pins(1) inv(3) by simp
  from bc.read_law [OF inv(1) this] obtain h c1 where h: "bcache_read d b c = Inr (h, c1)" "buf_blockno h = b"
    "bc_inv d c1" "crefs d c1 = (crefs d c)(b := crefs d c b + 1)" "holds d c1 h" by blast
  have "log_inv d g c1 ((\<lambda>_. 0)(b := 1))" using h(3,4) inv by (auto simp: log_inv_def fun_eq_iff)
  with that h show thesis by blast
qed

lemma write_blocks_new:
  assumes "log_inv d g c (\<lambda>_. 0)" "1 \<le> lg_outstanding g" "29 < unat (lg_size g)"
    and "distinct (logged g @ bs)" "\<forall>b\<in>set bs. data_block g b" "length (logged g) + length bs \<le> 28"
  obtains g' c' where "write_blocks d bs (g, c) = Inr (g', c')" "log_inv d g' c' (\<lambda>_. 0)" "logged g' = logged g @ bs"
    "g' = g\<lparr>lh_blocknos := lh_blocknos g', lh_len := lh_len g'\<rparr>"
  using assms
proof (induction bs arbitrary: g c thesis)
  case Nil
  then show ?case by (simp add: write_blocks_def)
next
  case (Cons b bs)
  obtain h c1 where h: "bcache_read d b c = Inr (h, c1)" "buf_blockno h = b" "holds d c1 h"
    "log_inv d g c1 ((\<lambda>_. 0)(b := 1))"
    using read_in_log [OF Cons.prems(2)] by blast
  have n: "unat (lh_len g) \<le> 27"
    using Cons.prems(2,7) log_wf_bounds [of d g] by (simp add: log_inv_def)
  then have space: "lh_len g + 2 < lg_size g" "unat (lh_len g) + 2 < LOGSIZE"
    using Cons.prems(4) by (simp_all add: word_less_nat_alt unat_word_ariths LOGSIZE_val)
  have b: "buf_blockno h \<notin> set (logged g)" "data_block g (buf_blockno h)" using Cons.prems(5,6) h(2) by simp_all
  obtain g1 c2 where w: "log_write h g c1 = Inr (g1, c2)" "logged g1 = logged g @ [buf_blockno h]"
    "g1 = g\<lparr>lh_blocknos := lh_blocknos g1, lh_len := lh_len g + 1\<rparr>"
    "log_inv d g1 c2 (((\<lambda>_. 0)(b := 1))(buf_blockno h := ((\<lambda>_. 0)(b := 1)) (buf_blockno h) - 1))"
    by (rule log_write_new [OF h(4,3) _ Cons.prems(3) space b]) (use h(2) that in simp_all)
  have f: "lg_outstanding g1 = lg_outstanding g" "lg_size g1 = lg_size g" "lg_start g1 = lg_start g" by (subst w(3), simp)+
  have inv: "log_inv d g1 c2 (\<lambda>_. 0)" using w(4) h(2) by (simp add: fun_upd_idem)
  obtain g' c' where g': "write_blocks d bs (g1, c2) = Inr (g', c')" "log_inv d g' c' (\<lambda>_. 0)" "logged g' = logged g1 @ bs"
    "g' = g1\<lparr>lh_blocknos := lh_blocknos g', lh_len := lh_len g'\<rparr>"
    by (rule Cons.IH [OF _ inv])
      (use Cons.prems(3-7) w(2) h(2) f data_block_cong [OF f(3)] that in simp_all)
  have "g' = g\<lparr>lh_blocknos := lh_blocknos g', lh_len := lh_len g'\<rparr>"
    by (subst g'(4), subst w(3)) simp
  then show ?case
    using Cons.prems(1) [of g' c'] g'(1-3) h(1,2) w(1,2) by (simp add: write_blocks_def)
qed

lemma write_block_full:
  assumes inv: "log_inv d g c (\<lambda>_. 0)" and n: "unat (lh_len g) = 28"
    and g: "29 < unat (lg_size g)" "1 \<le> lg_outstanding g" "b \<notin> set (logged g)"
  shows "write_blocks d [b] (g, c) = Inl LogNoSpace"
proof -
  have ck: "add_ck (lh_len g) 1 = Inr (lh_len g + 1)" "unat (lh_len g + 1) = 29"
    using n by (simp_all add: add_ck_def unat_word_ariths)
  with g(1) have "write_full g = Inr False" by (simp add: write_full_def LOGSIZE_val word_le_nat_alt)
  moreover have "no_space g = Inr True" using n by (simp add: no_space_def LOGSIZE_val)
  moreover have "\<not> lg_outstanding g < 1" using g(2) by (simp only: not_less)
  moreover obtain h c1 where "bcache_read d b c = Inr (h, c1)" "buf_blockno h = b"
    using read_in_log [OF inv] by blast
  ultimately show ?thesis using g(3) by (simp add: write_blocks_def log_write_def logged_def)
qed

section \<open>An example transaction\<close>

text \<open>A log of thirty blocks at block 2 of device 1, one operation open, nothing logged.\<close>

definition demo_log :: log where
  "demo_log = log_unint\<lparr>lg_start := 2, lg_size := 31, lg_dev := 1, lg_outstanding := 1\<rparr>"

definition demo_disk :: "u32 \<Rightarrow> block" where
  "demo_disk = (\<lambda>_. replicate BSIZE 0)"

lemma demo_log_wf: "log_wf 1 demo_log" "data_block demo_log 100"
proof -
  show "data_block demo_log 100"
    unfolding data_block_def
  proof (intro allI impI)
    fix i assume "i < LOGSIZE"
    then have "unat (of_nat i :: u32) = i" "i < 30" by (simp_all add: LOGSIZE_val unat_of_nat)
    then have "unat (lblk demo_log i) = 2 + i"
      by (simp add: lblk_def demo_log_def unat_word_ariths)
    with \<open>i < 30\<close> show "100 \<noteq> lblk demo_log i" by auto
  qed
  show "log_wf 1 demo_log"
    by (simp add: log_wf_def demo_log_def logged_def log_unint_def LOGSIZE_val)
qed

lemma demo_header: "header_len (demo_disk b) = 0"
  by (simp add: header_len_def demo_disk_def BSIZE_def of_le_zeros)

lemma demo_disk_ne: "demo_disk b \<noteq> [7]"
proof -
  have "length (demo_disk b) = 1024" by (simp add: demo_disk_def BSIZE_def)
  then show ?thesis by auto
qed

lemma demo_held:
  obtains h c where "bcache_read 1 100 (bcache_new demo_disk) = Inr (h, c)" "buf_blockno h = 100"
    "log_inv 1 demo_log c (pins {100})" "holds 1 c h" "bc_disk c = demo_disk" "cview 1 c = demo_disk"
proof -
  note new = bcache_new_inv [of 1 demo_disk] bcache_new_abs [of 1 demo_disk]
  have "room (crefs 1 (bcache_new demo_disk)) 100"
    using new by (simp add: room_def NBUF_def MAXOPBLOCKS_def)
  with new obtain h c where c: "bcache_read 1 100 (bcache_new demo_disk) = Inr (h, c)"
    "buf_blockno h = 100" "bc_inv 1 c" "cview 1 c = demo_disk" "bc_disk c = demo_disk"
    "crefs 1 c = (\<lambda>_. 0)(100 := 1)" "holds 1 c h"
    using bc.read_law [of 1 "bcache_new demo_disk" 100] by (auto simp: bcache_new_def)
  have "logged demo_log = []" by (simp add: logged_def demo_log_def log_unint_def)
  then have "log_inv 1 demo_log c (pins {100})"
    using c demo_log_wf by (auto simp: log_inv_def pins_def)
  with that c show thesis by blast
qed

lemma demo_ready:
  obtains g c where "log_inv 1 g c (\<lambda>_. 0)" "old_header g c" "lg_outstanding g = 1"
    "\<not> lg_commiting g" "lh_len g = 1" "data_block g 100" "cview 1 c 100 = [7]" "bc_disk c = demo_disk"
proof -
  obtain h c where c: "buf_blockno h = 100" "log_inv 1 demo_log c (pins {100})" "holds 1 c h"
    "bc_disk c = demo_disk"
    by (rule demo_held) (rule that; assumption)
  have "bc_inv 1 c" using c(2) by (simp add: log_inv_def)
  then obtain c1 where c1: "set_raw_data h [7] c = Inr c1" "bc_inv 1 c1"
    "cview 1 c1 = (cview 1 c)(100 := [7])" "bc_disk c1 = demo_disk" "crefs 1 c1 = crefs 1 c" "holds 1 c1 h"
    using bc.store_law [of 1 c h "[7]"] c by auto
  have inv1: "log_inv 1 demo_log c1 (pins {100})" using c(2) c1 by (simp add: log_inv_def)
  have len: "lh_len demo_log = 0" "lg_size demo_log = 31" "lg_outstanding demo_log = 1"
    "\<not> lg_commiting demo_log" "logged demo_log = []"
    by (simp_all add: demo_log_def log_unint_def logged_def)
  obtain g c2 where g: "logged g = logged demo_log @ [100]"
    "g = demo_log\<lparr>lh_blocknos := lh_blocknos g, lh_len := lh_len demo_log + 1\<rparr>"
    "log_inv 1 g c2 ((pins {100})(100 := pins {100} 100 - 1))" "cview 1 c2 = cview 1 c1" "bc_disk c2 = bc_disk c1"
    by (rule log_write_new [OF inv1 c1(6)])
      (use c(1) len demo_log_wf(2) that in \<open>simp_all add: pins_def LOGSIZE_val\<close>)
  have H: "(pins {100})(100 := pins {100} 100 - 1) = (\<lambda>_. 0)" by (simp add: pins_def fun_eq_iff)
  have f: "lg_start g = lg_start demo_log" "lg_outstanding g = 1" "\<not> lg_commiting g" "lh_len g = 1"
    by (subst g(2), simp add: len)+
  show thesis
    by (rule that [of g c2])
      (use g(3) [unfolded H] g(4,5) c1(3,4) f demo_header data_block_cong [OF f(1)] demo_log_wf(2)
       in \<open>simp_all add: old_header_def\<close>)
qed

section \<open>Properties\<close>

text \<open>C23. A read through the buffer cache returns the current contents of the block, whether it
  is cached or comes from the disk, and changes neither the contents of any block nor the disk:
  it only adds one reference.\<close>

theorem bcache_read_coherent:
  assumes "bc_inv d s" "room (crefs d s) b"
  shows "\<exists>h s'. bcache_read d b s = Inr (h, s') \<and> raw_data h s' = Inr (cview d s b) \<and>
           bc_inv d s' \<and> cview d s' = cview d s \<and> bc_disk s' = bc_disk s \<and>
           crefs d s' = (crefs d s)(b := crefs d s b + 1)"
  using bc.read_law [OF assms] bc.fetch_law by metis

theorem bcache_read_coherent_witness:
  "\<exists>h s'. bcache_read 1 100 (bcache_new demo_disk) = Inr (h, s') \<and>
     raw_data h s' = Inr (replicate BSIZE 0)"
proof -
  have "room (crefs 1 (bcache_new demo_disk)) 100"
    using bcache_new_abs [of 1 demo_disk] by (simp add: room_def NBUF_def MAXOPBLOCKS_def)
  with bcache_read_coherent [OF bcache_new_inv [of 1 demo_disk], of 100] bcache_new_abs [of 1 demo_disk]
  show ?thesis by (auto simp: demo_disk_def)
qed

text \<open>C24. Releasing a buffer implements the least-recently-used order: the linked list stays a
  well-formed circle, a buffer whose last reference goes moves to the front, every other buffer
  keeps its place, and only the one count changes.\<close>

theorem release_refines_lru:
  assumes "lru_wf l order" "i < NBUF" "0 < lru_refs l i"
  shows "\<exists>l'. move_if_no_ref i l = Inr l' \<and>
           lru_wf l' (if lru_refs l i = 1 then i # remove1 i order else order) \<and> same_blocks l l' \<and>
           (\<forall>j. lru_refs l' j = (if j = i then lru_refs l j - 1 else lru_refs l j))"
  using move_if_no_ref_refines [OF assms] by (simp add: release_order_def)

theorem release_refines_lru_witness:
  "\<exists>h s l'. bcache_read 1 100 (bcache_new demo_disk) = Inr (h, s) \<and>
     move_if_no_ref (buf_index h) (bc_ctrl s) = Inr l' \<and> lru_head l' = buf_index h"
proof -
  obtain h c where c: "bcache_read 1 100 (bcache_new demo_disk) = Inr (h, c)" "buf_blockno h = 100"
    "log_inv 1 demo_log c (pins {100})" "holds 1 c h"
    by (rule demo_held) (rule that; assumption)
  have inv: "bc_inv 1 c" and "crefs 1 c 100 = 1"
    using c(3) by (simp_all add: log_inv_def pins_def logged_def demo_log_def log_unint_def)
  then have one: "lru_refs (bc_ctrl c) (buf_index h) = 1" using holds_refs [OF inv c(4)] c(2) by simp
  obtain order where wf: "lru_wf (bc_ctrl c) order" using inv by (auto simp: bc_inv_def)
  obtain l' where "move_if_no_ref (buf_index h) (bc_ctrl c) = Inr l'"
    "lru_wf l' (buf_index h # remove1 (buf_index h) order)"
    using release_refines_lru [OF wf holds_lt [OF c(4)]] one by auto
  with c(1) show ?thesis by (auto simp: lru_wf_def)
qed

text \<open>C1. Commits are atomic. Whatever prefix of the disk writes of a commit a crash leaves,
  booting on that disk and running recovery restores all data blocks to what they were before
  the transaction if the header had not been written, and to what the transaction wrote if it
  had; the log is empty again. The full sequence of writes is what the commit procedure does.\<close>

theorem log_commit_crash_atomic:
  assumes "commit_ready d g c" "0 < lh_len g" "lg_commiting g" "k \<le> 2 * unat (lh_len g) + 2"
  shows "\<exists>c'. commit_prefix k g c = Inr c' \<and>
           recovered d g c' (if k \<le> unat (lh_len g) then bc_disk c else cview d c) \<and>
           (k = 2 * unat (lh_len g) + 2 \<longrightarrow> commit_no_lock g c = Inr (g\<lparr>lh_len := 0\<rparr>, c'))"
proof -
  let ?n = "unat (lh_len g)"
  have "length (commit_steps ?n) = 2 * ?n + 2" by (simp add: commit_steps_def del: upt_Suc)
  note full = commit_all_steps [OF assms(3,2), unfolded this]
  consider "k \<le> ?n" | "?n < k" "k \<le> 2 * ?n + 1" | "k = 2 * ?n + 2"
    using assms(4) by linarith
  then show ?thesis
  proof cases
    case 1
    with crash_before [OF assms(1) 1] show ?thesis by auto
  next
    case 2
    then have "k - ?n - 1 \<le> ?n" "?n + 1 + (k - ?n - 1) = k" by linarith+
    with crash_after [OF assms(1,2) this(1)] 2 show ?thesis by auto
  next
    case 3
    with crash_done [OF assms(1,2)] full show ?thesis by auto
  qed
qed

theorem log_commit_crash_atomic_witness:
  "\<exists>g c c'. lh_len g = 1 \<and> bc_disk c 100 \<noteq> [7] \<and> commit_prefix 2 g c = Inr c' \<and>
     (\<exists>g2 c2. log_init 1 (lg_start g, lg_size g) log_unint (bcache_new (bc_disk c')) = Inr (g2, c2) \<and>
        bc_disk c2 100 = [7])"
proof -
  obtain g c where g: "log_inv 1 g c (\<lambda>_. 0)" "old_header g c" "lh_len g = 1" "data_block g 100"
    "cview 1 c 100 = [7]" "bc_disk c = demo_disk"
    by (rule demo_ready) (rule that; assumption)
  let ?g = "g\<lparr>lg_commiting := True\<rparr>"
  have same: "lblk ?g = lblk g" "logged ?g = logged g" "data_block ?g = data_block g"
    using lblk_cong [of ?g g] data_block_cong [of ?g g] by (simp_all add: logged_def)
  have "commit_ready 1 ?g c"
    using g(1,2) same by (simp add: commit_ready_def log_inv_def log_wf_def old_header_def)
  from log_commit_crash_atomic [OF this, of 2] g(3) obtain c' where
    "commit_prefix 2 ?g c = Inr c'" "recovered 1 ?g c' (cview 1 c)" by auto
  moreover have "bc_disk c 100 \<noteq> [7]" using g(6) demo_disk_ne by simp
  ultimately show ?thesis
    using g(3,4,5) same by (intro exI [of _ ?g] exI [of _ c] exI [of _ c']) (auto simp: recovered_def)
qed

text \<open>C2. The last operation to end makes the transaction durable: \<^verbatim>\<open>end_op\<close> succeeds, the disk
  holds the cached contents of every data block, no block is pinned any more, the log is empty
  on disk and in memory, and the contents seen through the cache are unchanged.\<close>

theorem end_op_durable:
  assumes "log_inv d g c (\<lambda>_. 0)" "old_header g c" "lg_outstanding g = 1" "\<not> lg_commiting g"
  shows "\<exists>c'. end_op g c = Inr (g\<lparr>lg_outstanding := 0, lh_len := 0\<rparr>, c') \<and>
           log_inv d (g\<lparr>lg_outstanding := 0, lh_len := 0\<rparr>) c' (\<lambda>_. 0) \<and> old_header g c' \<and>
           (\<forall>b. data_block g b \<longrightarrow> cview d c' b = cview d c b \<and> bc_disk c' b = cview d c b)"
  by (rule end_op_commit [OF assms]) blast

theorem end_op_durable_witness:
  "\<exists>g c g' c'. bc_disk c 100 \<noteq> [7] \<and> end_op g c = Inr (g', c') \<and> bc_disk c' 100 = [7]"
proof -
  obtain g c where g: "log_inv 1 g c (\<lambda>_. 0)" "old_header g c" "lg_outstanding g = 1"
    "\<not> lg_commiting g" "data_block g 100" "cview 1 c 100 = [7]" "bc_disk c = demo_disk"
    by (rule demo_ready) (rule that; assumption)
  have "bc_disk c 100 \<noteq> [7]" using g(7) demo_disk_ne by simp
  with end_op_durable [OF g(1-4)] g(5,6) show ?thesis by metis
qed

text \<open>C25. Inside a transaction \<^verbatim>\<open>write\<close> records the block of a held buffer in the log exactly
  once, keeps it pinned in the cache so that it cannot reach the disk early, and gives up the
  caller's reference; no contents and no disk block change.\<close>

theorem log_write_records:
  assumes "log_inv d g c H" "holds d c h" "0 < H (buf_blockno h)" "H (buf_blockno h) < 2 ^ 64 - 2"
    and "1 \<le> lg_outstanding g" "data_block g (buf_blockno h)"
    and "lh_len g + 2 < lg_size g" "unat (lh_len g) + 2 < LOGSIZE"
  shows "\<exists>g' c'. log_write h g c = Inr (g', c') \<and>
           log_inv d g' c' (H(buf_blockno h := H (buf_blockno h) - 1)) \<and>
           logged g' = (if buf_blockno h \<in> set (logged g) then logged g else logged g @ [buf_blockno h]) \<and>
           cview d c' = cview d c \<and> bc_disk c' = bc_disk c"
proof (cases "buf_blockno h \<in> set (logged g)")
  case True
  have "log_wf d g" using assms(1) by (simp add: log_inv_def)
  note full = log_space(1) [OF this assms(7,8)]
  show ?thesis by (rule log_write_absorb [OF assms(1-3,5) full True]) (use True in auto)
next
  case False
  show ?thesis by (rule log_write_new [OF assms(1-3,5,7,8) False assms(6,4)]) (use False in auto)
qed

theorem log_write_records_witness:
  "\<exists>h c g' c'. bcache_read 1 100 (bcache_new demo_disk) = Inr (h, c) \<and>
     log_write h demo_log c = Inr (g', c') \<and> logged g' = [100]"
proof -
  obtain h c where c: "bcache_read 1 100 (bcache_new demo_disk) = Inr (h, c)" "buf_blockno h = 100"
    "log_inv 1 demo_log c (pins {100})" "holds 1 c h"
    by (rule demo_held) (rule that; assumption)
  have len: "lh_len demo_log = 0" "lg_size demo_log = 31" "lg_outstanding demo_log = 1" "logged demo_log = []"
    by (simp_all add: demo_log_def log_unint_def logged_def)
  have "\<exists>g' c'. log_write h demo_log c = Inr (g', c') \<and> logged g' = [100]"
    using log_write_records [OF c(3,4)] c(2) len demo_log_wf(2) by (auto simp: pins_def LOGSIZE_val)
  with c(1) show ?thesis by blast
qed

text \<open>C26. \<^verbatim>\<open>begin_op\<close> admits an operation only while the log is not committing and the blocks
  already logged plus ten for each open operation fit in the 29 entries of the header, so at
  most two operations are open at a time.\<close>

theorem begin_op_reserves:
  assumes "begin_op g = Inr (Some g')"
  shows "\<not> lg_commiting g \<and> g' = g\<lparr>lg_outstanding := lg_outstanding g + 1\<rparr> \<and>
         unat (lh_len g) + MAXOPBLOCKS * unat (lg_outstanding g') \<le> LOGSIZE - 1 \<and>
         1 \<le> unat (lg_outstanding g') \<and> unat (lg_outstanding g') \<le> 2"
proof -
  obtain o1 where o1: "add_ck (lg_outstanding g) 1 = Inr o1" "\<not> lg_commiting g"
    "g' = g\<lparr>lg_outstanding := o1\<rparr>" "1 + unat (lh_len g) + unat o1 * MAXOPBLOCKS \<le> LOGSIZE"
    using assms by (auto simp: begin_op_def outcome_simps split: if_splits)
  from add_ck_unat [OF o1(1)] o1 show ?thesis
    by (auto simp: add_ck_eq_Inr_iff LOGSIZE_val MAXOPBLOCKS_def)
qed

theorem begin_op_reserves_witness:
  "\<exists>g'. begin_op demo_log = Inr (Some g') \<and> unat (lg_outstanding g') \<le> 2"
proof -
  have b: "begin_op demo_log = Inr (Some (demo_log\<lparr>lg_outstanding := 2\<rparr>))"
    by (simp add: begin_op_def demo_log_def log_unint_def add_ck_def LOGSIZE_val MAXOPBLOCKS_def)
  from begin_op_reserves [OF b] b show ?thesis by blast
qed

text \<open>C27. The log takes 28 blocks, one less than \<^verbatim>\<open>begin_op\<close> reserves for, so that a run within its
  reservations panics. From an idle log two operations are admitted; the second writes nine blocks and
  ends while the first is open, so that nothing is committed; a third is then admitted; and when the two
  open ones write the ten blocks each that \<^verbatim>\<open>begin_op\<close> has reserved for them, all writes but the
  last succeed and the last panics for want of space.\<close>

theorem admitted_writes_panic:
  assumes idle: "log_inv d g c (\<lambda>_. 0)" "lg_outstanding g = 0" "\<not> lg_commiting g" "lh_len g = 0" "29 < unat (lg_size g)"
    and blocks: "length xs = MAXOPBLOCKS - 1" "length ys = MAXOPBLOCKS" "length zs = MAXOPBLOCKS"
      "distinct (xs @ ys @ zs)" "\<forall>b\<in>set (xs @ ys @ zs). data_block g b"
  shows "\<exists>g1 g2 g3 c3 g4 g5 g6 c6. begin_op g = Inr (Some g1) \<and> begin_op g1 = Inr (Some g2) \<and>
    write_blocks d xs (g2, c) = Inr (g3, c3) \<and> end_op g3 c3 = Inr (g4, c3) \<and> begin_op g4 = Inr (Some g5) \<and>
    write_blocks d (ys @ butlast zs) (g5, c3) = Inr (g6, c6) \<and> write_blocks d (ys @ zs) (g5, c3) = Inl LogNoSpace"
proof -
  let ?g2 = "g\<lparr>lg_outstanding := 2\<rparr>"
  have none: "logged g = []" using idle(4) by (simp add: logged_def)
  have b1: "begin_op g = Inr (Some (g\<lparr>lg_outstanding := 1\<rparr>))" "begin_op (g\<lparr>lg_outstanding := 1\<rparr>) = Inr (Some ?g2)"
    using idle(2-4) by (simp_all add: begin_op_def add_ck_def LOGSIZE_val MAXOPBLOCKS_def)
  obtain zs' z where z: "zs = zs' @ [z]" using blocks(3) by (cases zs rule: rev_cases) (auto simp: MAXOPBLOCKS_def)
  obtain g3 c3 where w: "write_blocks d xs (?g2, c) = Inr (g3, c3)" "log_inv d g3 c3 (\<lambda>_. 0)" "logged g3 = xs"
    "g3 = ?g2\<lparr>lh_blocknos := lh_blocknos g3, lh_len := lh_len g3\<rparr>"
    by (rule write_blocks_new [of d ?g2 c xs])
      (use idle blocks none that in \<open>simp_all add: log_inv_def log_wf_out logged_out data_block_out MAXOPBLOCKS_def\<close>)
  let ?g4 = "g3\<lparr>lg_outstanding := 1\<rparr>" and ?g5 = "g3\<lparr>lg_outstanding := 2\<rparr>"
  have f: "lg_outstanding g3 = 2" "\<not> lg_commiting g3" "lg_size g3 = lg_size g" "lg_start g3 = lg_start g"
    using idle(3) by (subst w(4), simp)+
  have n3: "unat (lh_len g3) = 9"
    using log_wf_bounds [of d g3] w(2,3) blocks(1) by (simp add: log_inv_def MAXOPBLOCKS_def)
  have e: "end_op g3 c3 = Inr (?g4, c3)" using f by (simp add: end_op_def sub_ck_def)
  have b2: "begin_op ?g4 = Inr (Some ?g5)" using f n3 by (simp add: begin_op_def add_ck_def LOGSIZE_val MAXOPBLOCKS_def)
  have db: "data_block g3 = data_block g" by (rule data_block_cong) (rule f(4))
  obtain g6 c6 where w2: "write_blocks d (ys @ zs') (?g5, c3) = Inr (g6, c6)" "log_inv d g6 c6 (\<lambda>_. 0)"
    "logged g6 = xs @ ys @ zs'" "g6 = ?g5\<lparr>lh_blocknos := lh_blocknos g6, lh_len := lh_len g6\<rparr>"
    by (rule write_blocks_new [of d ?g5 c3 "ys @ zs'"])
      (use idle(5) blocks w(2,3) f n3 z that in \<open>simp_all add: log_inv_def log_wf_out logged_out data_block_out db MAXOPBLOCKS_def\<close>)
  have f6: "lg_outstanding g6 = 2" "lg_size g6 = lg_size g" using f by (subst w2(4), simp)+
  have n6: "unat (lh_len g6) = 28"
    using log_wf_bounds [of d g6] w2(2,3) blocks z by (simp add: log_inv_def MAXOPBLOCKS_def)
  have "write_blocks d [z] (g6, c6) = Inl LogNoSpace"
    by (rule write_block_full [OF w2(2) n6]) (use f6 idle(5) w2(3) blocks(4) z in auto)
  then have "write_blocks d (ys @ zs) (?g5, c3) = Inl LogNoSpace"
    using w2(1) unfolding z by (simp add: write_blocks_def foldR_append flip: append_assoc)
  then show ?thesis using b1 w(1) e b2 w2(1) z by auto
qed

text \<open>Block numbers behind the log of the example.\<close>

lemma demo_data_block:
  assumes "100 \<le> b" "b < 1000"
  shows "data_block demo_log (of_nat b)"
  unfolding data_block_def
proof (intro allI impI)
  fix i assume "i < LOGSIZE"
  then have "unat (lblk demo_log i) = 2 + i" "i < 30"
    using unat_lblk(1) [OF demo_log_wf(1)] by (simp_all add: demo_log_def LOGSIZE_val)
  moreover have "unat (of_nat b :: u32) = b" using assms by (simp add: unat_of_nat)
  ultimately show "of_nat b \<noteq> lblk demo_log i" using assms by auto
qed

theorem admitted_writes_panic_witness:
  "\<exists>g1 g2 g3 c3 g4 g5. begin_op (demo_log\<lparr>lg_outstanding := 0\<rparr>) = Inr (Some g1) \<and> begin_op g1 = Inr (Some g2) \<and>
     write_blocks 1 (map of_nat [100..<109]) (g2, bcache_new demo_disk) = Inr (g3, c3) \<and> end_op g3 c3 = Inr (g4, c3) \<and>
     begin_op g4 = Inr (Some g5) \<and> write_blocks 1 (map of_nat [109..<119] @ map of_nat [119..<129]) (g5, c3) = Inl LogNoSpace"
proof -
  let ?g = "demo_log\<lparr>lg_outstanding := 0\<rparr>" and ?c = "bcache_new demo_disk"
  let ?xs = "map of_nat [100..<109] :: u32 list" and ?ys = "map of_nat [109..<119] :: u32 list" and ?zs = "map of_nat [119..<129] :: u32 list"
  have none: "logged demo_log = []" by (simp add: demo_log_def log_unint_def logged_def)
  have "crefs 1 ?c = (\<lambda>b. pins (set (logged ?g)) b + 0)"
    using bcache_new_abs [of 1 demo_disk] by (simp add: logged_out none pins_def)
  then have "log_inv 1 ?g ?c (\<lambda>_. 0)"
    using demo_log_wf(1) bcache_new_inv [of 1 demo_disk] by (simp add: log_inv_def log_wf_out)
  moreover have "lg_outstanding ?g = 0" "\<not> lg_commiting ?g" "lh_len ?g = 0" "29 < unat (lg_size ?g)"
    by (simp_all add: demo_log_def log_unint_def)
  moreover have "inj_on (of_nat :: nat \<Rightarrow> u32) {100..<129}"
    by (rule inj_onI) (simp add: word_unat_eq_iff unat_of_nat)
  then have "distinct (?xs @ ?ys @ ?zs)"
    by (simp only: map_append [symmetric] distinct_map) (simp add: upt_add_eq_append [symmetric] upt_rec)
  moreover have "\<forall>b\<in>set (?xs @ ?ys @ ?zs). data_block ?g b"
    using demo_data_block by (simp only: data_block_out set_append set_map set_upt ball_Un) auto
  moreover have "length ?xs = MAXOPBLOCKS - 1" "length ?ys = MAXOPBLOCKS" "length ?zs = MAXOPBLOCKS"
    by (simp_all add: MAXOPBLOCKS_def)
  ultimately show ?thesis
    using admitted_writes_panic [of 1 ?g ?c ?xs ?ys ?zs] by blast
qed

end
