(* ===== verification/Rx_Fs.thy ===== *)
theory Rx_Fs
  imports Rx_Log
begin

text \<open>
  The layers of the file system between the log and the inode cache: the superblock of
  \<^verbatim>\<open>fs/superblock.rs\<close>, the block bitmap of \<^verbatim>\<open>fs/bitmap.rs\<close>, the on-disk inode and directory entry
  of \<^verbatim>\<open>fs/dinode.rs\<close> and the in-memory inode tables of \<^verbatim>\<open>fs/inode.rs\<close> as data. The state of the
  file system is one record; an operation takes it and returns it updated, or panics.
\<close>

section \<open>Constants\<close>

definition FSMAGIC :: u32 where "FSMAGIC = 0x10203040"
definition NINODE :: nat where "NINODE = 50"
definition ROOTDEV :: u32 where "ROOTDEV = 1"
definition ROOTINUM :: u32 where "ROOTINUM = 1"
definition NDIRECT :: nat where "NDIRECT = 12"
definition NINDIRECT :: nat where "NINDIRECT = BSIZE div 8"
definition MAXFILE :: nat where "MAXFILE = NDIRECT + NINDIRECT"
definition DIRSIZ :: nat where "DIRSIZ = 14"
definition BPB :: nat where "BPB = BSIZE * 8"

text \<open>The size of \<^verbatim>\<open>DiskInode\<close> is 64: four 16-bit fields, the size and 13 addresses.\<close>

definition IPB :: nat where "IPB = BSIZE div 64"

section \<open>Data\<close>

datatype inode_type = Empty | Directory | File | Device

text \<open>The discriminants of \<^verbatim>\<open>InodeType\<close>. A value above three is not a valid enum value in Rust;
  it is read as the last one.\<close>

fun inode_type_code :: "inode_type \<Rightarrow> u16" where
  "inode_type_code Empty = 0"
| "inode_type_code Directory = 1"
| "inode_type_code File = 2"
| "inode_type_code Device = 3"

definition inode_type_of :: "u16 \<Rightarrow> inode_type" where
  "inode_type_of w = (if w = 0 then Empty else if w = 1 then Directory else if w = 2 then File else Device)"

record superblock =
  sb_magic :: u32
  sb_size :: u32
  sb_nblocks :: u32
  sb_ninodes :: u32
  sb_nlog :: u32
  sb_logstart :: u32
  sb_inodestart :: u32
  sb_bmapstart :: u32

record dinode =
  di_type :: inode_type
  di_major :: u16
  di_minor :: u16
  di_nlink :: u16
  di_size :: u32
  di_addrs :: "u32 list"

record inode_meta =
  im_dev :: u32
  im_blockno :: u32
  im_inum :: u32
  im_refs :: nat

record inode_data =
  id_valid :: bool
  id_dev :: u32
  id_inum :: u32
  id_dinode :: dinode

record inode =
  ino_dev :: u32
  ino_inum :: u32
  ino_index :: nat

record fs =
  fs_bc :: bcache
  fs_log :: log
  fs_sb :: superblock
  fs_sb_init :: bool
  fs_meta :: "inode_meta list"
  fs_data :: "inode_data list"

definition superblock_uninit :: superblock where
  "superblock_uninit = \<lparr>sb_magic = 0, sb_size = 0, sb_nblocks = 0, sb_ninodes = 0, sb_nlog = 0,
     sb_logstart = 0, sb_inodestart = 0, sb_bmapstart = 0\<rparr>"

definition dinode_new :: dinode where
  "dinode_new = \<lparr>di_type = Empty, di_major = 0, di_minor = 0, di_nlink = 0, di_size = 0,
     di_addrs = replicate (NDIRECT + 1) 0\<rparr>"

definition inode_meta_new :: inode_meta where
  "inode_meta_new = \<lparr>im_dev = 0, im_blockno = 0, im_inum = 0, im_refs = 0\<rparr>"

definition inode_data_new :: inode_data where
  "inode_data_new = \<lparr>id_valid = False, id_dev = 0, id_inum = 0, id_dinode = dinode_new\<rparr>"

definition fs_new :: "(u32 \<Rightarrow> block) \<Rightarrow> fs" where
  "fs_new disk = \<lparr>fs_bc = bcache_new disk, fs_log = log_unint, fs_sb = superblock_uninit,
     fs_sb_init = False, fs_meta = replicate NINODE inode_meta_new,
     fs_data = replicate NINODE inode_data_new\<rparr>"

section \<open>Layout on disk\<close>

text \<open>A 32-bit field of a structure at a byte offset.\<close>

definition field32 :: "block \<Rightarrow> nat \<Rightarrow> u32" where
  "field32 x off = of_le (take 4 (drop off x))"

definition field16 :: "block \<Rightarrow> nat \<Rightarrow> u16" where
  "field16 x off = of_le (take 2 (drop off x))"

definition superblock_of :: "block \<Rightarrow> superblock" where
  "superblock_of x = \<lparr>sb_magic = field32 x 0, sb_size = field32 x 4, sb_nblocks = field32 x 8,
     sb_ninodes = field32 x 12, sb_nlog = field32 x 16, sb_logstart = field32 x 20,
     sb_inodestart = field32 x 24, sb_bmapstart = field32 x 28\<rparr>"

definition dinode_bytes :: "dinode \<Rightarrow> u8 list" where
  "dinode_bytes di = to_le 2 (inode_type_code (di_type di)) @ to_le 2 (di_major di) @
     to_le 2 (di_minor di) @ to_le 2 (di_nlink di) @ to_le 4 (di_size di) @
     concat (map (to_le 4) (di_addrs di))"

definition dinode_of :: "u8 list \<Rightarrow> dinode" where
  "dinode_of x = \<lparr>di_type = inode_type_of (field16 x 0), di_major = field16 x 2,
     di_minor = field16 x 4, di_nlink = field16 x 6, di_size = field32 x 8,
     di_addrs = map (\<lambda>i. field32 x (12 + 4 * i)) [0..<NDIRECT + 1]\<rparr>"

text \<open>Bytes of a block replaced from an offset on.\<close>

definition put_bytes :: "nat \<Rightarrow> u8 list \<Rightarrow> block \<Rightarrow> block" where
  "put_bytes off bs x = take off x @ bs @ drop (off + length bs) x"

section \<open>Calls into the cache and the log\<close>

definition fs_bread :: "u32 \<Rightarrow> u32 \<Rightarrow> fs \<Rightarrow> (buf \<times> fs) outcome" where
  "fs_bread dev b s = bindR (bcache_read dev b (fs_bc s)) (\<lambda>(h, c). Inr (h, s\<lparr>fs_bc := c\<rparr>))"

definition fs_raw :: "buf \<Rightarrow> fs \<Rightarrow> block outcome" where
  "fs_raw h s = raw_data h (fs_bc s)"

definition fs_set :: "buf \<Rightarrow> block \<Rightarrow> fs \<Rightarrow> fs outcome" where
  "fs_set h x s = bindR (set_raw_data h x (fs_bc s)) (\<lambda>c. Inr (s\<lparr>fs_bc := c\<rparr>))"

definition fs_bdrop :: "buf \<Rightarrow> fs \<Rightarrow> fs outcome" where
  "fs_bdrop h s = bindR (buf_drop h (fs_bc s)) (\<lambda>c. Inr (s\<lparr>fs_bc := c\<rparr>))"

definition fs_log_write :: "buf \<Rightarrow> fs \<Rightarrow> fs outcome" where
  "fs_log_write h s =
     bindR (log_write h (fs_log s) (fs_bc s)) (\<lambda>(g, c). Inr (s\<lparr>fs_log := g, fs_bc := c\<rparr>))"

section \<open>Superblock\<close>

definition superblock_init :: "u32 \<Rightarrow> fs \<Rightarrow> fs outcome" where
  "superblock_init dev s =
     (if fs_sb_init s then Inr s
      else bindR (fs_bread dev 1 s) (\<lambda>(h, s).
        bindR (fs_raw h s) (\<lambda>x.
          let s = s\<lparr>fs_sb := superblock_of x\<rparr> in
          if sb_magic (fs_sb s) \<noteq> FSMAGIC then Inl BadMagic
          else fs_bdrop h (s\<lparr>fs_sb_init := True\<rparr>))))"

definition read_log :: "fs \<Rightarrow> u32 \<times> u32" where
  "read_log s = (sb_logstart (fs_sb s), sb_nlog (fs_sb s))"

definition read_inode :: "fs \<Rightarrow> u32 \<times> u32" where
  "read_inode s = (sb_inodestart (fs_sb s), sb_ninodes (fs_sb s))"

definition locate_inode :: "u32 \<Rightarrow> fs \<Rightarrow> u32 outcome" where
  "locate_inode inum s =
     (if sb_ninodes (fs_sb s) \<le> inum
      then bindR (sub_ck (sb_ninodes (fs_sb s)) 1) (\<lambda>_. Inl InumTooLarge)
      else add_ck (inum div of_nat IPB) (sb_inodestart (fs_sb s)))"

definition locate_bmp :: "u32 \<Rightarrow> fs \<Rightarrow> u32 outcome" where
  "locate_bmp blockno s = add_ck (sb_bmapstart (fs_sb s)) (blockno div of_nat BPB)"

definition fs_init :: "u32 \<Rightarrow> fs \<Rightarrow> fs outcome" where
  "fs_init dev s =
     bindR (superblock_init dev s) (\<lambda>s.
       bindR (log_init dev (read_log s) (fs_log s) (fs_bc s)) (\<lambda>(g, c).
         Inr (s\<lparr>fs_log := g, fs_bc := c\<rparr>)))"

section \<open>Bitmap\<close>

definition bitmap_free :: "u32 \<Rightarrow> u32 \<Rightarrow> fs \<Rightarrow> fs outcome" where
  "bitmap_free dev blockno s =
     (let bm_offset = unat blockno mod BPB; index = bm_offset div 8; k = bm_offset mod 8 in
      bindR (fs_bread dev (sb_bmapstart (fs_sb s)) s) (\<lambda>(h, s).
        bindR (fs_raw h s) (\<lambda>x.
          bindR (idx_get x index) (\<lambda>byte.
            if \<not> bit byte k then Inl BitmapDoubleFree
            else bindR (fs_set h (x[index := unset_bit k byte]) s) (\<lambda>s. fs_log_write h s)))))"

text \<open>The bit of block \<open>i\<close> of a bitmap block, and the first clear one among the first \<open>n\<close>.\<close>

definition bm_bit :: "block \<Rightarrow> nat \<Rightarrow> bool" where
  "bm_bit x i = bit (x ! (i div 8)) (i mod 8)"

definition bm_find :: "block \<Rightarrow> nat \<Rightarrow> nat option" where
  "bm_find x n = find (\<lambda>i. \<not> bm_bit x i) [0..<n]"

fun bitmap_alloc_from :: "u32 \<Rightarrow> nat list \<Rightarrow> fs \<Rightarrow> (u32 \<times> fs) outcome" where
  "bitmap_alloc_from dev [] s = Inl BitmapFull"
| "bitmap_alloc_from dev (b # bs) s =
     bindR (locate_bmp (of_nat b) s) (\<lambda>bm.
       bindR (fs_bread dev bm s) (\<lambda>(h, s).
         bindR (fs_raw h s) (\<lambda>x.
           case bm_find x (min BPB (unat (sb_size (fs_sb s)) - b)) of
             Some i \<Rightarrow>
               bindR (fs_set h (x[i div 8 := set_bit (i mod 8) (x ! (i div 8))]) s) (\<lambda>s.
                 bindR (fs_log_write h s) (\<lambda>s.
                   bindR (add_ck (of_nat b) (of_nat i)) (\<lambda>r. Inr (r, s))))
           | None \<Rightarrow> bindR (fs_bdrop h s) (\<lambda>s. bitmap_alloc_from dev bs s))))"

definition bitmap_alloc :: "u32 \<Rightarrow> fs \<Rightarrow> (u32 \<times> fs) outcome" where
  "bitmap_alloc dev s =
     bitmap_alloc_from dev
       (map (\<lambda>k. k * BPB) [0..<(unat (sb_size (fs_sb s)) + BPB - 1) div BPB]) s"

section \<open>On-disk inodes\<close>

definition inode_offset :: "u32 \<Rightarrow> nat" where
  "inode_offset inum = unat inum mod IPB"

text \<open>The inode of a held buffer of the inode area, read and written in place.\<close>

definition get_dinode :: "u32 \<Rightarrow> block \<Rightarrow> dinode" where
  "get_dinode inum x = dinode_of (take 64 (drop (64 * inode_offset inum) x))"

definition put_dinode :: "u32 \<Rightarrow> dinode \<Rightarrow> block \<Rightarrow> block" where
  "put_dinode inum di x = put_bytes (64 * inode_offset inum) (dinode_bytes di) x"

definition find_inode :: "u32 \<Rightarrow> u32 \<Rightarrow> fs \<Rightarrow> (buf \<times> fs) outcome" where
  "find_inode dev inum s =
     bindR (locate_inode inum s) (\<lambda>blockno. fs_bread dev blockno s)"

definition try_alloc :: "inode_type \<Rightarrow> dinode \<Rightarrow> dinode option" where
  "try_alloc itype di =
     (if di_type di = Empty then Some (dinode_new\<lparr>di_type := itype\<rparr>) else None)"

text \<open>One turn of the search for a free inode: the allocated inode is logged, a used one is
  released.\<close>

definition dinode_try :: "u32 \<Rightarrow> inode_type \<Rightarrow> u32 \<Rightarrow> fs \<Rightarrow> (bool \<times> fs) outcome" where
  "dinode_try dev itype inum s =
     bindR (find_inode dev inum s) (\<lambda>(h, s).
       bindR (fs_raw h s) (\<lambda>x.
         case try_alloc itype (get_dinode inum x) of
           Some di \<Rightarrow>
             bindR (fs_set h (put_dinode inum di x) s) (\<lambda>s.
               bindR (fs_log_write h s) (\<lambda>s. Inr (True, s)))
         | None \<Rightarrow> bindR (fs_bdrop h s) (\<lambda>s. Inr (False, s))))"

fun dinode_search :: "u32 \<Rightarrow> inode_type \<Rightarrow> nat list \<Rightarrow> fs \<Rightarrow> (u32 option \<times> fs) outcome" where
  "dinode_search dev itype [] s = Inr (None, s)"
| "dinode_search dev itype (i # is) s =
     bindR (dinode_try dev itype (of_nat i) s) (\<lambda>(ok, s).
       if ok then Inr (Some (of_nat i), s) else dinode_search dev itype is s)"

definition dinode_alloc :: "u32 \<Rightarrow> inode_type \<Rightarrow> fs \<Rightarrow> (u32 \<times> fs) outcome" where
  "dinode_alloc dev itype s =
     bindR (dinode_search dev itype [1..<unat (sb_size (fs_sb s))] s) (\<lambda>(r, s).
       case r of Some inum \<Rightarrow> Inr (inum, s) | None \<Rightarrow> Inl NoFreeInode)"

end
