(* ===== verification/Rx_Inode.thy ===== *)
theory Rx_Inode
  imports Rx_Fs
begin

text \<open>
  The inode cache of \<^verbatim>\<open>fs/inode.rs\<close>: reference-counted slots, reading and writing file
  contents, directories and path names. A slot's \<^verbatim>\<open>InodeData\<close> is behind a sleep lock; the model
  accesses the slot by its index between \<^verbatim>\<open>lock\<close> and the end of the guard's scope. Guards and
  \<^verbatim>\<open>Inode\<close> values that go out of scope are released in the order Rust drops them.
\<close>

section \<open>Slots\<close>

definition get_idata :: "nat \<Rightarrow> fs \<Rightarrow> inode_data outcome" where
  "get_idata i s = idx_get (fs_data s) i"

definition set_idata :: "nat \<Rightarrow> inode_data \<Rightarrow> fs \<Rightarrow> fs outcome" where
  "set_idata i x s = bindR (idx_set (fs_data s) i x) (\<lambda>ds. Inr (s\<lparr>fs_data := ds\<rparr>))"

definition upd_dinode :: "nat \<Rightarrow> (dinode \<Rightarrow> dinode) \<Rightarrow> fs \<Rightarrow> fs outcome" where
  "upd_dinode i f s =
     bindR (get_idata i s) (\<lambda>x. set_idata i (x\<lparr>id_dinode := f (id_dinode x)\<rparr>) s)"

definition set_refs :: "nat \<Rightarrow> (nat \<Rightarrow> nat outcome) \<Rightarrow> fs \<Rightarrow> fs outcome" where
  "set_refs i f s =
     bindR (idx_get (fs_meta s) i) (\<lambda>m.
       bindR (f (im_refs m)) (\<lambda>r.
         Inr (s\<lparr>fs_meta := (fs_meta s)[i := m\<lparr>im_refs := r\<rparr>]\<rparr>)))"

definition inode_clone :: "inode \<Rightarrow> fs \<Rightarrow> (inode \<times> fs) outcome" where
  "inode_clone ip s = bindR (set_refs (ino_index ip) usize_inc s) (\<lambda>s. Inr (ip, s))"

fun find_index :: "('a \<Rightarrow> bool) \<Rightarrow> 'a list \<Rightarrow> nat option" where
  "find_index P [] = None"
| "find_index P (x # xs) =
     (if P x then Some 0 else case find_index P xs of None \<Rightarrow> None | Some i \<Rightarrow> Some (i + 1))"

definition icache_get :: "u32 \<Rightarrow> u32 \<Rightarrow> fs \<Rightarrow> (inode \<times> fs) outcome" where
  "icache_get dev inum s =
     (case find_index (\<lambda>m. im_inum m = inum \<and> 0 < im_refs m \<and> im_dev m = dev) (fs_meta s) of
        Some idx \<Rightarrow>
          bindR (set_refs idx usize_inc s) (\<lambda>s.
            Inr (\<lparr>ino_dev = dev, ino_inum = inum, ino_index = idx\<rparr>, s))
      | None \<Rightarrow>
          (case find_index (\<lambda>m. im_refs m = 0) (fs_meta s) of
             Some idx \<Rightarrow>
               let s = s\<lparr>fs_meta := (fs_meta s)
                     [idx := (fs_meta s ! idx)\<lparr>im_dev := dev, im_inum := inum, im_refs := 1\<rparr>]\<rparr> in
               bindR (get_idata idx s) (\<lambda>x.
                 bindR (guardR (\<not> id_valid x) AssertFailed) (\<lambda>_.
                   Inr (\<lparr>ino_dev = dev, ino_inum = inum, ino_index = idx\<rparr>, s)))
           | None \<Rightarrow> Inl InodeCacheFull))"

text \<open>\<^verbatim>\<open>Inode::lock\<close> loads the inode from disk when the slot is not valid. The buffer is released
  at the end of the binding, before the inode is copied; its data stays in place.\<close>

definition inode_lock :: "inode \<Rightarrow> fs \<Rightarrow> fs outcome" where
  "inode_lock ip s =
     bindR (get_idata (ino_index ip) s) (\<lambda>x.
       if id_valid x then Inr s
       else bindR (find_inode (ino_dev ip) (ino_inum ip) s) (\<lambda>(h, s).
         bindR (fs_raw h s) (\<lambda>b.
           bindR (fs_bdrop h s) (\<lambda>s.
             let di = get_dinode (ino_inum ip) b in
             bindR (set_idata (ino_index ip)
                 \<lparr>id_valid = True, id_dev = ino_dev ip, id_inum = ino_inum ip, id_dinode = di\<rparr> s) (\<lambda>s.
               if di_type di = Empty then Inl InodeEmptyType else Inr s)))))"

section \<open>Contents\<close>

definition inode_update :: "nat \<Rightarrow> fs \<Rightarrow> fs outcome" where
  "inode_update i s =
     bindR (get_idata i s) (\<lambda>x.
       bindR (find_inode (id_dev x) (id_inum x) s) (\<lambda>(h, s).
         bindR (fs_raw h s) (\<lambda>b.
           bindR (fs_set h (put_dinode (id_inum x) (id_dinode x) b) s) (\<lambda>s. fs_log_write h s))))"

text \<open>\<^verbatim>\<open>truncate\<close>: the direct blocks, the blocks of the indirect block, the indirect block.\<close>

definition free_direct :: "u32 \<Rightarrow> nat \<Rightarrow> nat \<Rightarrow> fs \<Rightarrow> fs outcome" where
  "free_direct dev i k s =
     bindR (get_idata i s) (\<lambda>x.
       bindR (idx_get (di_addrs (id_dinode x)) k) (\<lambda>a.
         if 0 < a
         then bindR (bitmap_free dev a s) (\<lambda>s.
           upd_dinode i (\<lambda>d. d\<lparr>di_addrs := (di_addrs d)[k := 0]\<rparr>) s)
         else Inr s))"

definition indirect_addrs :: "block \<Rightarrow> u32 list" where
  "indirect_addrs b = map (\<lambda>j. field32 b (4 * j)) [0..<NINDIRECT]"

definition inode_truncate :: "inode \<Rightarrow> nat \<Rightarrow> fs \<Rightarrow> fs outcome" where
  "inode_truncate ip i s =
     bindR (foldR (free_direct (ino_dev ip) i) [0..<NDIRECT] s) (\<lambda>s.
       bindR (get_idata i s) (\<lambda>x.
         bindR (idx_get (di_addrs (id_dinode x)) NDIRECT) (\<lambda>ind.
           bindR (if 0 < ind
             then bindR (fs_bread (ino_dev ip) ind s) (\<lambda>(h, s).
               bindR (fs_raw h s) (\<lambda>b.
                 bindR (foldR (\<lambda>a s. if 0 < a then bitmap_free (ino_dev ip) a s else Inr s)
                     (indirect_addrs b) s) (\<lambda>s.
                   bindR (fs_bdrop h s) (\<lambda>s.
                     bindR (bitmap_free (ino_dev ip) ind s) (\<lambda>s.
                       upd_dinode i (\<lambda>d. d\<lparr>di_addrs := (di_addrs d)[NDIRECT := 0]\<rparr>) s)))))
             else Inr s) (\<lambda>s.
             bindR (upd_dinode i (\<lambda>d. d\<lparr>di_size := 0\<rparr>) s) (\<lambda>s. inode_update i s)))))"

definition icache_put :: "inode \<Rightarrow> fs \<Rightarrow> fs outcome" where
  "icache_put ip s =
     (let i = ino_index ip in
      bindR (idx_get (fs_meta s) i) (\<lambda>m.
        if im_refs m = 1 then
          bindR (get_idata i s) (\<lambda>x.
            if \<not> id_valid x \<or> 0 <s di_nlink (id_dinode x) then
              bindR (set_idata i (x\<lparr>id_valid := False\<rparr>) s) (\<lambda>s. set_refs i usize_dec s)
            else
              bindR (upd_dinode i (\<lambda>d. d\<lparr>di_type := Empty\<rparr>) s) (\<lambda>s.
                bindR (inode_truncate ip i s) (\<lambda>s.
                  bindR (get_idata i s) (\<lambda>x.
                    bindR (set_idata i (x\<lparr>id_valid := False\<rparr>) s) (\<lambda>s. set_refs i usize_dec s)))))
        else set_refs i usize_dec s))"

definition icache_alloc :: "u32 \<Rightarrow> inode_type \<Rightarrow> fs \<Rightarrow> (inode option \<times> fs) outcome" where
  "icache_alloc dev itype s =
     bindR (dinode_search dev itype [1..<unat (snd (read_inode s)) + 1] s) (\<lambda>(r, s).
       case r of
         Some inum \<Rightarrow> bindR (icache_get dev inum s) (\<lambda>(ip, s). Inr (Some ip, s))
       | None \<Rightarrow> Inr (None, s))"

definition inode_map :: "nat \<Rightarrow> u32 \<Rightarrow> fs \<Rightarrow> (u32 \<times> fs) outcome" where
  "inode_map i offset_bn s =
     (let bn = unat offset_bn in
      bindR (get_idata i s) (\<lambda>x.
        if bn < NDIRECT then
          bindR (idx_get (di_addrs (id_dinode x)) bn) (\<lambda>a.
            if a = 0
            then bindR (bitmap_alloc (id_dev x) s) (\<lambda>(addr, s).
              bindR (upd_dinode i (\<lambda>d. d\<lparr>di_addrs := (di_addrs d)[bn := addr]\<rparr>) s) (\<lambda>s.
                Inr (addr, s)))
            else Inr (a, s))
        else if bn < NINDIRECT + NDIRECT then
          let k = bn - NDIRECT in
          bindR (idx_get (di_addrs (id_dinode x)) NDIRECT) (\<lambda>a.
            bindR (if a \<noteq> 0
              then bindR (bitmap_alloc (id_dev x) s) (\<lambda>(addr, s).
                upd_dinode i (\<lambda>d. d\<lparr>di_addrs := (di_addrs d)[NDIRECT := addr]\<rparr>) s)
              else Inr s) (\<lambda>s.
              bindR (get_idata i s) (\<lambda>x.
                bindR (idx_get (di_addrs (id_dinode x)) NDIRECT) (\<lambda>ind.
                  bindR (fs_bread (id_dev x) ind s) (\<lambda>(h, s).
                    bindR (fs_raw h s) (\<lambda>b.
                      if field32 b (4 * k) = 0
                      then bindR (bitmap_alloc (id_dev x) s) (\<lambda>(addr, s).
                        bindR (fs_raw h s) (\<lambda>b.
                          bindR (fs_set h (put_bytes (4 * k) (to_le 4 addr) b) s) (\<lambda>s.
                            bindR (fs_log_write h s) (\<lambda>s. Inr (addr, s)))))
                      else bindR (fs_bdrop h s) (\<lambda>s. Inr (0, s))))))))
        else Inr (0, s)))"

text \<open>The loops of \<^verbatim>\<open>read\<close> and \<^verbatim>\<open>write\<close> over the blocks of the range. Where the bytes go and come
  from is \<^verbatim>\<open>copy_from_kernel\<close> and \<^verbatim>\<open>copy_to_kernel\<close>: a function \<open>wr\<close> that stores bytes at an
  address of the memory \<open>m\<close>, and a function \<open>rd\<close> that loads them.\<close>

function inode_read_loop ::
  "(usize \<Rightarrow> u8 list \<Rightarrow> 'm \<Rightarrow> 'm outcome) \<Rightarrow> nat \<Rightarrow> nat \<Rightarrow> nat \<Rightarrow> nat \<Rightarrow> usize \<Rightarrow> 'm \<Rightarrow> fs \<Rightarrow>
     (nat \<times> 'm \<times> fs) outcome" where
  "inode_read_loop wr i count tot offset dst m s =
     (if tot < count then
        let block_offset = offset mod BSIZE; write_len = min (count - tot) (BSIZE - block_offset) in
        bindR (inode_map i (of_nat (offset div BSIZE)) s) (\<lambda>(block_no, s).
          bindR (get_idata i s) (\<lambda>x.
            bindR (fs_bread (id_dev x) block_no s) (\<lambda>(h, s).
              bindR (fs_raw h s) (\<lambda>b.
                bindR (wr dst (take write_len (drop block_offset b)) m) (\<lambda>m.
                  bindR (add_ck dst (of_nat write_len)) (\<lambda>dst.
                    bindR (fs_bdrop h s) (\<lambda>s.
                      inode_read_loop wr i count (tot + write_len) (offset + write_len) dst m s)))))))
      else Inr (tot, m, s))"
  by pat_completeness auto
termination
  by (relation "measure (\<lambda>(wr, i, count, tot, offset, dst, m, s). count - tot)")
    (auto simp: BSIZE_def)

definition inode_read ::
  "(usize \<Rightarrow> u8 list \<Rightarrow> 'm \<Rightarrow> 'm outcome) \<Rightarrow> nat \<Rightarrow> usize \<Rightarrow> u32 \<Rightarrow> u32 \<Rightarrow> 'm \<Rightarrow> fs \<Rightarrow>
     ((string + nat) \<times> 'm \<times> fs) outcome" where
  "inode_read wr i dst offset count m s =
     (case checked_add offset count of
        None \<Rightarrow> Inr (Inl ''Failed to add count.'', m, s)
      | Some e \<Rightarrow>
          bindR (get_idata i s) (\<lambda>x.
            if di_size (id_dinode x) < e
            then Inr (Inl ''inode read: end is more than diskinode's size'', m, s)
            else bindR (inode_read_loop wr i (unat count) 0 (unat offset) dst m s) (\<lambda>(n, m, s).
              Inr (Inr n, m, s))))"

function inode_write_loop ::
  "(usize \<Rightarrow> nat \<Rightarrow> u8 list outcome) \<Rightarrow> nat \<Rightarrow> nat \<Rightarrow> nat \<Rightarrow> nat \<Rightarrow> usize \<Rightarrow> fs \<Rightarrow>
     (nat \<times> nat \<times> fs) outcome" where
  "inode_write_loop rd i count tot offset src s =
     (if tot < count then
        let block_offset = offset mod BSIZE; read_len = min (count - tot) (BSIZE - block_offset) in
        bindR (inode_map i (of_nat (offset div BSIZE)) s) (\<lambda>(block_no, s).
          bindR (get_idata i s) (\<lambda>x.
            bindR (fs_bread (id_dev x) block_no s) (\<lambda>(h, s).
              bindR (fs_raw h s) (\<lambda>b.
                bindR (rd src read_len) (\<lambda>bs.
                  bindR (fs_set h (put_bytes block_offset bs b) s) (\<lambda>s.
                    bindR (add_ck src (of_nat read_len)) (\<lambda>src.
                      bindR (fs_log_write h s) (\<lambda>s.
                        inode_write_loop rd i count (tot + read_len) (offset + read_len) src s))))))))
      else Inr (tot, offset, s))"
  by pat_completeness auto
termination
  by (relation "measure (\<lambda>(rd, i, count, tot, offset, src, s). count - tot)")
    (auto simp: BSIZE_def)

definition inode_write ::
  "(usize \<Rightarrow> nat \<Rightarrow> u8 list outcome) \<Rightarrow> nat \<Rightarrow> usize \<Rightarrow> u32 \<Rightarrow> u32 \<Rightarrow> fs \<Rightarrow>
     ((string + nat) \<times> fs) outcome" where
  "inode_write rd i src offset count s =
     bindR (inode_write_loop rd i (unat count) 0 (unat offset) src s) (\<lambda>(tot, offset, s).
       bindR (get_idata i s) (\<lambda>x.
         bindR (if di_size (id_dinode x) < of_nat offset
           then upd_dinode i (\<lambda>d. d\<lparr>di_size := of_nat offset\<rparr>) s else Inr s) (\<lambda>s.
           bindR (inode_update i s) (\<lambda>s. Inr (Inr tot, s)))))"

record stat =
  st_dev :: u32
  st_inum :: u32
  st_type :: inode_type
  st_nlink :: u16
  st_size :: usize

definition idata_stat :: "inode_data \<Rightarrow> stat" where
  "idata_stat x = \<lparr>st_dev = id_dev x, st_inum = id_inum x, st_type = di_type (id_dinode x),
     st_nlink = di_nlink (id_dinode x), st_size = ucast (di_size (id_dinode x))\<rparr>"

section \<open>Directories\<close>

text \<open>A directory entry is 16 bytes: a 16-bit inode number and 14 bytes of name. The entries are
  read into and written from a local variable, a list of its bytes addressed from zero.\<close>

definition DE_SIZE :: nat where "DE_SIZE = 2 + DIRSIZ"

definition local_wr :: "usize \<Rightarrow> u8 list \<Rightarrow> u8 list \<Rightarrow> u8 list outcome" where
  "local_wr a bs m = Inr (put_bytes (unat a) bs m)"

definition local_rd :: "u8 list \<Rightarrow> usize \<Rightarrow> nat \<Rightarrow> u8 list outcome" where
  "local_rd m a n = Inr (take n (drop (unat a) m))"

definition de_inum :: "u8 list \<Rightarrow> u16" where
  "de_inum de = field16 de 0"

definition de_name :: "u8 list \<Rightarrow> u8 list" where
  "de_name de = drop 2 de"

definition read_entry :: "nat \<Rightarrow> nat \<Rightarrow> u8 list \<Rightarrow> fs \<Rightarrow> (u8 list \<times> fs) outcome" where
  "read_entry i offset de s =
     bindR (inode_read local_wr i 0 (of_nat offset) (of_nat DE_SIZE) de s) (\<lambda>(r, de, s).
       case r of Inl _ \<Rightarrow> Inl DirReadFailed | Inr _ \<Rightarrow> Inr (de, s))"

text \<open>The comparison of names up to a common terminator; without one within the shorter of the
  two the entry does not match.\<close>

fun name_matches :: "u8 list \<Rightarrow> u8 list \<Rightarrow> bool" where
  "name_matches (a # as) (b # bs) =
     (if a \<noteq> b then False else if b = 0 \<and> a = 0 then True else name_matches as bs)"
| "name_matches _ _ = False"

fun dir_lookup_loop :: "nat \<Rightarrow> u8 list \<Rightarrow> nat list \<Rightarrow> u8 list \<Rightarrow> fs \<Rightarrow> (inode option \<times> fs) outcome" where
  "dir_lookup_loop i name [] de s = Inr (None, s)"
| "dir_lookup_loop i name (off # offs) de s =
     bindR (read_entry i off de s) (\<lambda>(de, s).
       if de_inum de \<noteq> 0 \<and> name_matches name (de_name de)
       then bindR (get_idata i s) (\<lambda>x.
         bindR (icache_get (id_dev x) (ucast (de_inum de)) s) (\<lambda>(ip, s). Inr (Some ip, s)))
       else dir_lookup_loop i name offs de s)"

definition entry_offsets :: "nat \<Rightarrow> nat \<Rightarrow> nat list" where
  "entry_offsets start sz = map (\<lambda>k. start + k * DE_SIZE) [0..<(sz - start + DE_SIZE - 1) div DE_SIZE]"

definition dir_lookup :: "nat \<Rightarrow> u8 list \<Rightarrow> fs \<Rightarrow> (inode option \<times> fs) outcome" where
  "dir_lookup i name s =
     bindR (get_idata i s) (\<lambda>x.
       if di_type (id_dinode x) \<noteq> Directory then Inl NotADirectory
       else dir_lookup_loop i name (entry_offsets 0 (unat (di_size (id_dinode x))))
              (replicate DE_SIZE 0) s)"

fun dir_link_loop :: "nat \<Rightarrow> nat list \<Rightarrow> nat \<Rightarrow> u8 list \<Rightarrow> fs \<Rightarrow> (nat \<times> fs) outcome" where
  "dir_link_loop i [] entry_offset de s = Inr (entry_offset, s)"
| "dir_link_loop i (off # offs) entry_offset de s =
     bindR (read_entry i off de s) (\<lambda>(de, s).
       if de_inum de = 0 then Inr (entry_offset + DE_SIZE, s)
       else dir_link_loop i offs (entry_offset + DE_SIZE) de s)"

definition dir_link :: "nat \<Rightarrow> u8 list \<Rightarrow> u32 \<Rightarrow> fs \<Rightarrow> ((string + unit) \<times> fs) outcome" where
  "dir_link i name inum s =
     bindR (get_idata i s) (\<lambda>x.
       if di_type (id_dinode x) \<noteq> Directory then Inl NotADirectory
       else bindR (dir_link_loop i (entry_offsets 0 (unat (di_size (id_dinode x)))) 0
                     (replicate DE_SIZE 0) s) (\<lambda>(entry_offset, s).
         bindR (guardR (length name \<le> DIRSIZ) OutOfBounds) (\<lambda>_.
           let de = to_le 2 (ucast inum :: u16) @ name @ replicate (DIRSIZ - length name) 0 in
           bindR (inode_write (local_rd de) i 0 (of_nat entry_offset) (of_nat DE_SIZE) s) (\<lambda>(r, s).
             Inr (case r of Inl e \<Rightarrow> Inl e | Inr _ \<Rightarrow> Inr (), s)))))"

fun is_dir_empty_loop :: "nat \<Rightarrow> nat list \<Rightarrow> u8 list \<Rightarrow> fs \<Rightarrow> (bool \<times> fs) outcome" where
  "is_dir_empty_loop i [] de s = Inr (False, s)"
| "is_dir_empty_loop i (off # offs) de s =
     bindR (read_entry i off de s) (\<lambda>(de, s).
       if de_inum de \<noteq> 0 then Inr (True, s) else is_dir_empty_loop i offs de s)"

definition is_dir_empty :: "nat \<Rightarrow> fs \<Rightarrow> (bool \<times> fs) outcome" where
  "is_dir_empty i s =
     bindR (get_idata i s) (\<lambda>x.
       is_dir_empty_loop i (entry_offsets (2 * DE_SIZE) (unat (di_size (id_dinode x))))
         (replicate DE_SIZE 0) s)"

section \<open>Path names\<close>

function skip_while :: "(u8 \<Rightarrow> bool) \<Rightarrow> u8 list \<Rightarrow> nat \<Rightarrow> nat outcome" where
  "skip_while P path cur =
     bindR (idx_get path cur) (\<lambda>c. if P c then skip_while P path (cur + 1) else Inr cur)"
  by pat_completeness auto
termination
  by (relation "measure (\<lambda>(P, path, cur). length path - cur)") (auto simp: outcome_simps)

definition SLASH :: u8 where "SLASH = 47"

definition skip_path :: "u8 list \<Rightarrow> nat \<Rightarrow> u8 list \<Rightarrow> (nat \<times> u8 list) outcome" where
  "skip_path path cur name =
     bindR (skip_while (\<lambda>c. c = SLASH) path cur) (\<lambda>cur.
       bindR (idx_get path cur) (\<lambda>c.
         if c = 0 then Inr (0, name)
         else bindR (skip_while (\<lambda>c. c \<noteq> SLASH \<and> c \<noteq> 0) path cur) (\<lambda>stop.
           let count = stop - cur in
           if length name \<le> count then Inl AssertFailed
           else bindR (skip_while (\<lambda>c. c = SLASH) path stop) (\<lambda>nxt.
             Inr (nxt, (take count (drop cur path) @ drop count name)[count := 0])))))"

text \<open>The fuel is the length of the path: every turn of the loop consumes a byte of it.\<close>

primrec namex_loop ::
  "nat \<Rightarrow> u8 list \<Rightarrow> bool \<Rightarrow> nat \<Rightarrow> u8 list \<Rightarrow> inode \<Rightarrow> fs \<Rightarrow> (inode option \<times> u8 list \<times> fs) outcome" where
  "namex_loop 0 path is_parent cur name ip s = Inl OutOfFuel"
| "namex_loop (Suc fuel) path is_parent cur name ip s =
     bindR (skip_path path cur name) (\<lambda>(cur, name).
       if cur = 0 then
         (if is_parent then bindR (icache_put ip s) (\<lambda>s. Inr (None, name, s))
          else Inr (Some ip, name, s))
       else bindR (inode_lock ip s) (\<lambda>s.
         bindR (get_idata (ino_index ip) s) (\<lambda>x.
           if di_type (id_dinode x) \<noteq> Directory
           then bindR (icache_put ip s) (\<lambda>s. Inr (None, name, s))
           else bindR (if is_parent then idx_get path cur else Inr 1) (\<lambda>c.
             if is_parent \<and> c = 0 then Inr (Some ip, name, s)
             else bindR (dir_lookup (ino_index ip) name s) (\<lambda>(r, s).
               bindR (icache_put ip s) (\<lambda>s.
                 case r of
                   Some nxt \<Rightarrow> namex_loop fuel path is_parent cur name nxt s
                 | None \<Rightarrow> Inr (None, name, s)))))))"

text \<open>The working directory of the current process is an argument.\<close>

definition namex ::
  "inode option \<Rightarrow> u8 list \<Rightarrow> u8 list \<Rightarrow> bool \<Rightarrow> fs \<Rightarrow> (inode option \<times> u8 list \<times> fs) outcome" where
  "namex cwd path name is_parent s =
     bindR (idx_get path 0) (\<lambda>c.
       bindR (if c = SLASH then icache_get ROOTDEV ROOTINUM s
              else bindR (unwrap cwd) (\<lambda>ip. inode_clone ip s)) (\<lambda>(ip, s).
         namex_loop (length path + 1) path is_parent 0 name ip s))"

definition namei :: "inode option \<Rightarrow> u8 list \<Rightarrow> fs \<Rightarrow> (inode option \<times> fs) outcome" where
  "namei cwd path s =
     bindR (namex cwd path (replicate DIRSIZ 0) False s) (\<lambda>(r, _, s). Inr (r, s))"

definition namei_parent ::
  "inode option \<Rightarrow> u8 list \<Rightarrow> u8 list \<Rightarrow> fs \<Rightarrow> (inode option \<times> u8 list \<times> fs) outcome" where
  "namei_parent cwd path name s = namex cwd path name True s"

text \<open>The two links of a new directory; an error leaves \<^verbatim>\<open>create\<close> early.\<close>

definition link_dots :: "inode \<Rightarrow> fs \<Rightarrow> ((string + unit) \<times> fs) outcome" where
  "link_dots ip s =
     bindR (upd_dinode (ino_index ip) (\<lambda>d. d\<lparr>di_nlink := di_nlink d + 1\<rparr>) s) (\<lambda>s.
       bindR (inode_update (ino_index ip) s) (\<lambda>s.
         bindR (dir_link (ino_index ip) [46] (ino_inum ip) s) (\<lambda>(r, s).
           case r of
             Inl e \<Rightarrow> Inr (Inl e, s)
           | Inr _ \<Rightarrow> dir_link (ino_index ip) [46, 46] (ino_inum ip) s)))"

definition inode_create ::
  "inode option \<Rightarrow> u8 list \<Rightarrow> inode_type \<Rightarrow> u16 \<Rightarrow> u16 \<Rightarrow> fs \<Rightarrow> ((string + inode) \<times> fs) outcome" where
  "inode_create cwd path itype major minor s =
     bindR (namei_parent cwd path (replicate DIRSIZ 0) s) (\<lambda>(r, name, s).
       bindR (unwrap r) (\<lambda>dir.
         bindR (inode_lock dir s) (\<lambda>s.
           bindR (dir_lookup (ino_index dir) name s) (\<lambda>(found, s).
             case found of
               Some ip \<Rightarrow>
                 bindR (inode_lock ip s) (\<lambda>s.
                   bindR (get_idata (ino_index ip) s) (\<lambda>x.
                     if (di_type (id_dinode x) = Device \<or> di_type (id_dinode x) = File) \<and> itype = File
                     then bindR (icache_put dir s) (\<lambda>s. Inr (Inr ip, s))
                     else bindR (icache_put ip s) (\<lambda>s.
                       bindR (icache_put dir s) (\<lambda>s. Inr (Inl ''create: unmatched type'', s)))))
             | None \<Rightarrow>
                 bindR (get_idata (ino_index dir) s) (\<lambda>dx.
                   bindR (dinode_alloc (id_dev dx) itype s) (\<lambda>(inum, s).
                     bindR (icache_get (id_dev dx) inum s) (\<lambda>(ip, s).
                       bindR (inode_lock ip s) (\<lambda>s.
                         bindR (upd_dinode (ino_index ip) (\<lambda>d. d\<lparr>di_type := itype, di_major := major,
                             di_minor := minor, di_nlink := 1\<rparr>) s) (\<lambda>s.
                           bindR (inode_update (ino_index ip) s) (\<lambda>s.
                             bindR (if itype = Directory then link_dots ip s else Inr (Inr (), s)) (\<lambda>(r, s).
                               case r of
                                 Inl e \<Rightarrow> bindR (icache_put ip s) (\<lambda>s.
                                   bindR (icache_put dir s) (\<lambda>s. Inr (Inl e, s)))
                               | Inr _ \<Rightarrow>
                                   bindR (get_idata (ino_index ip) s) (\<lambda>x.
                                     bindR (dir_link (ino_index dir) name (id_inum x) s) (\<lambda>(r, s).
                                       case r of
                                         Inl e \<Rightarrow> Inl UnwrapNone
                                       | Inr _ \<Rightarrow> bindR (icache_put dir s) (\<lambda>s. Inr (Inr ip, s)))))))))))))))"

end
