(* ===== verification/Rx_Fs_Props.thy ===== *)
theory Rx_Fs_Props
  imports Rx_Log_Props Rx_Inode
begin

text \<open>
  The on-disk file system over the contracts of the buffer cache and the log: the block bitmap and the
  encoding of disk inodes. \<open>fs_view\<close> is the contents of a block as the kernel sees it.
\<close>

section \<open>Reading and updating a block in a transaction\<close>

definition fs_view :: "u32 \<Rightarrow> fs \<Rightarrow> u32 \<Rightarrow> block" where
  "fs_view d s = cview d (fs_bc s)"

text \<open>An open transaction with no buffer held and room for \<open>k\<close> more blocks in the log.\<close>

definition in_op :: "u32 \<Rightarrow> nat \<Rightarrow> fs \<Rightarrow> bool" where
  "in_op d k s \<longleftrightarrow> log_inv d (fs_log s) (fs_bc s) (\<lambda>_. 0) \<and> 1 \<le> lg_outstanding (fs_log s) \<and>
     unat (lh_len (fs_log s)) + 1 + k < LOGSIZE \<and> unat (lh_len (fs_log s)) + 1 + k < unat (lg_size (fs_log s))"

lemma in_op_less: "in_op d k s \<Longrightarrow> j \<le> k \<Longrightarrow> in_op d j s"
  by (auto simp: in_op_def)

lemma in_op_bread:
  assumes op: "in_op d k s"
  obtains h s1 where "fs_bread d b s = Inr (h, s1)" "fs_raw h s1 = Inr (fs_view d s b)" "buf_blockno h = b"
    "holds d (fs_bc s1) h" "log_inv d (fs_log s) (fs_bc s1) ((\<lambda>_. 0)(b := 1))" "s1 = s\<lparr>fs_bc := fs_bc s1\<rparr>"
    "fs_view d s1 = fs_view d s" "bc_disk (fs_bc s1) = bc_disk (fs_bc s)"
proof -
  let ?g = "fs_log s" and ?c = "fs_bc s"
  have wf: "log_wf d ?g" and inv: "bc_inv d ?c" and refs: "crefs d ?c = pins (set (logged ?g))"
    using op by (auto simp: in_op_def log_inv_def)
  have "card (set (logged ?g)) \<le> length (logged ?g)" by (rule card_length)
  also have "\<dots> \<le> 28" using wf by (simp add: log_wf_def logged_def LOGSIZE_val)
  finally have room: "room (crefs d ?c) b" using room_pins(1) [of "set (logged ?g)" b] refs by simp
  obtain h c where r: "bcache_read d b ?c = Inr (h, c)" "buf_blockno h = b" "bc_inv d c" "cview d c = cview d ?c"
    "bc_disk c = bc_disk ?c" "crefs d c = (crefs d ?c)(b := crefs d ?c b + 1)" "holds d c h"
    using bc.read_law [OF inv room] by blast
  show thesis
  proof (rule that [of h "s\<lparr>fs_bc := c\<rparr>"])
    show "fs_raw h (s\<lparr>fs_bc := c\<rparr>) = Inr (fs_view d s b)"
      using bc.fetch_law [OF r(3,7)] r(2,4) by (simp add: fs_raw_def fs_view_def)
    show "log_inv d ?g (fs_bc (s\<lparr>fs_bc := c\<rparr>)) ((\<lambda>_. 0)(b := 1))"
      using wf r(3,6) refs by (auto simp: log_inv_def fun_eq_iff)
  qed (use r in \<open>simp_all add: fs_bread_def fs_view_def\<close>)
qed

lemma in_op_release:
  assumes op: "in_op d k s" and r: "fs_bread d b s = Inr (h, s1)"
    and h: "buf_blockno h = b" "holds d (fs_bc s1) h" "log_inv d (fs_log s) (fs_bc s1) ((\<lambda>_. 0)(b := 1))"
    "s1 = s\<lparr>fs_bc := fs_bc s1\<rparr>" "fs_view d s1 = fs_view d s" "bc_disk (fs_bc s1) = bc_disk (fs_bc s)"
  obtains s2 where "fs_bdrop h s1 = Inr s2" "in_op d k s2" "s2 = s\<lparr>fs_bc := fs_bc s2\<rparr>"
    "fs_view d s2 = fs_view d s"
proof -
  let ?g = "fs_log s"
  have inv: "bc_inv d (fs_bc s)" "crefs d (fs_bc s) = pins (set (logged ?g))" and inv1: "bc_inv d (fs_bc s1)"
    and refs1: "crefs d (fs_bc s1) = (\<lambda>x. pins (set (logged ?g)) x + ((\<lambda>_. 0)(b := 1)) x)" and wf: "log_wf d ?g"
    using op h(3) by (auto simp: in_op_def log_inv_def)
  have "cview d (fs_bc s) b = bc_disk (fs_bc s) b" if "b \<notin> set (logged ?g)"
    using unreferenced_clean [OF inv(1), of b] that inv(2) by (simp add: pins_def)
  then have "1 < crefs d (fs_bc s1) (buf_blockno h) \<or>
      cview d (fs_bc s1) (buf_blockno h) = bc_disk (fs_bc s1) (buf_blockno h)"
    using h(1,5,6) refs1 by (auto simp: pins_def fs_view_def)
  from bc.release_law [OF inv1 h(2) this] obtain c where c: "buf_drop h (fs_bc s1) = Inr c" "bc_inv d c"
    "cview d c = cview d (fs_bc s1)" "crefs d c = (crefs d (fs_bc s1))(b := crefs d (fs_bc s1) b - 1)"
    using h(1) by blast
  have "crefs d c = pins (set (logged ?g))" using c(4) refs1 by (auto simp: fun_eq_iff)
  then have "log_inv d ?g c (\<lambda>_. 0)" using wf c(2) by (simp add: log_inv_def)
  moreover have "fs_log s1 = ?g" "s1\<lparr>fs_bc := c\<rparr> = s\<lparr>fs_bc := c\<rparr>" by (subst h(4), simp)+
  ultimately show thesis
    using that [of "s1\<lparr>fs_bc := c\<rparr>"] c op h(5)
    by (auto simp: fs_bdrop_def in_op_def fs_view_def)
qed

lemma in_op_logged:
  assumes op: "in_op d (Suc k) s" and data: "data_block (fs_log s) b" and r: "fs_bread d b s = Inr (h, s1)"
    and h: "buf_blockno h = b" "holds d (fs_bc s1) h" "log_inv d (fs_log s) (fs_bc s1) ((\<lambda>_. 0)(b := 1))"
    "s1 = s\<lparr>fs_bc := fs_bc s1\<rparr>" "fs_view d s1 = fs_view d s"
  obtains s2 s3 where "fs_set h y s1 = Inr s2" "fs_log_write h s2 = Inr s3" "in_op d k s3"
    "fs_view d s3 = (fs_view d s)(b := y)" "fs_sb s2 = fs_sb s" "fs_sb s3 = fs_sb s"
    "\<And>x. data_block (fs_log s3) x = data_block (fs_log s) x"
proof -
  let ?g = "fs_log s"
  have inv1: "bc_inv d (fs_bc s1)" and wf: "log_wf d ?g" using h(3) by (simp_all add: log_inv_def)
  obtain c2 where c2: "set_raw_data h y (fs_bc s1) = Inr c2" "bc_inv d c2"
    "cview d c2 = (cview d (fs_bc s1))(b := y)" "crefs d c2 = crefs d (fs_bc s1)" "holds d c2 h"
    using bc.store_law [OF inv1 h(2), of y] h(1,2) by auto
  have inv2: "log_inv d ?g c2 ((\<lambda>_. 0)(b := 1))" using h(3) c2(2,4) by (simp add: log_inv_def)
  have H: "((\<lambda>_. 0)(b := 1))(b := ((\<lambda>_. 0)(b := 1)) b - 1) = (\<lambda>_. 0 :: nat)" by (simp add: fun_eq_iff)
  have n: "unat (lh_len ?g) \<le> 27" "unat (lh_len ?g + 2) = unat (lh_len ?g) + 2"
    using op by (auto simp: in_op_def LOGSIZE_val unat_word_ariths)
  have sp: "lh_len ?g + 2 < lg_size ?g" "unat (lh_len ?g) + 2 < LOGSIZE" and out: "1 \<le> lg_outstanding ?g"
    using op n by (auto simp: in_op_def word_less_nat_alt)
  have "\<exists>g' c'. log_write h ?g c2 = Inr (g', c') \<and> log_inv d g' c' (\<lambda>_. 0) \<and> cview d c' = cview d c2 \<and>
      lg_outstanding g' = lg_outstanding ?g \<and> lg_size g' = lg_size ?g \<and> lg_start g' = lg_start ?g \<and>
      unat (lh_len g') \<le> unat (lh_len ?g) + 1"
  proof (cases "b \<in> set (logged ?g)")
    case True
    show ?thesis
      by (rule log_write_absorb [OF inv2 c2(5), unfolded h(1) H, OF _ out log_space(1) [OF wf sp] True]) auto
  next
    case False
    show ?thesis
    proof (rule log_write_new [OF inv2 c2(5), unfolded h(1) H, OF _ out sp False data])
      fix g' c' assume a: "log_write h ?g c2 = Inr (g', c')" "log_inv d g' c' (\<lambda>_. 0)" "cview d c' = cview d c2"
        "g' = ?g\<lparr>lh_blocknos := lh_blocknos g', lh_len := lh_len ?g + 1\<rparr>"
      have "lg_outstanding g' = lg_outstanding ?g" "lg_size g' = lg_size ?g" "lg_start g' = lg_start ?g"
        "lh_len g' = lh_len ?g + 1" by (subst a(4), simp)+
      then show ?thesis using a log_space(4) [OF wf sp] by auto
    qed auto
  qed
  then obtain g' c' where w: "log_write h ?g c2 = Inr (g', c')" "log_inv d g' c' (\<lambda>_. 0)" "cview d c' = cview d c2"
    "lg_outstanding g' = lg_outstanding ?g" "lg_size g' = lg_size ?g" "lg_start g' = lg_start ?g"
    "unat (lh_len g') \<le> unat (lh_len ?g) + 1" by blast
  have sl: "fs_log s1 = ?g" "fs_sb s1 = fs_sb s" by (subst h(4), simp)+
  show thesis
  proof (rule that [of "s1\<lparr>fs_bc := c2\<rparr>" "s1\<lparr>fs_bc := c', fs_log := g'\<rparr>"])
    show "data_block (fs_log (s1\<lparr>fs_bc := c', fs_log := g'\<rparr>)) x = data_block ?g x" for x
      using w(6) by (simp add: data_block_def lblk_def)
    show "in_op d k (s1\<lparr>fs_bc := c', fs_log := g'\<rparr>)" using w op by (simp add: in_op_def)
  qed (use c2 w sl h(5) in \<open>simp_all add: fs_set_def fs_log_write_def fs_view_def\<close>)
qed

section \<open>The bitmap\<close>

text \<open>The bit of block \<open>n\<close> of the device.\<close>

definition used_bit :: "u32 \<Rightarrow> fs \<Rightarrow> nat \<Rightarrow> bool" where
  "used_bit d s n = bm_bit (fs_view d s (sb_bmapstart (fs_sb s) + of_nat (n div BPB))) (n mod BPB)"

text \<open>The blocks of the bitmap are whole blocks outside the log, and their numbers do not wrap.\<close>

definition bitmap_ok :: "u32 \<Rightarrow> fs \<Rightarrow> bool" where
  "bitmap_ok d s \<longleftrightarrow>
     unat (sb_bmapstart (fs_sb s)) + unat (sb_size (fs_sb s)) div BPB + 1 < 2 ^ 32 \<and>
     (\<forall>k. k * BPB < unat (sb_size (fs_sb s)) \<longrightarrow>
        data_block (fs_log s) (sb_bmapstart (fs_sb s) + of_nat k) \<and>
        length (fs_view d s (sb_bmapstart (fs_sb s) + of_nat k)) = BSIZE)"

lemma BPB_val: "BPB = 8192" by (simp add: BPB_def BSIZE_def)

lemma bm_bit_set:
  assumes "length x = BSIZE" "i < BPB" "j < BPB"
  shows "bm_bit (x[i div 8 := set_bit (i mod 8) (x ! (i div 8))]) j \<longleftrightarrow> bm_bit x j \<or> j = i"
proof -
  have "i div 8 < length x" "i mod 8 < 8" using assms by (auto simp: BPB_val BSIZE_def)
  moreover have "j = i \<longleftrightarrow> j div 8 = i div 8 \<and> j mod 8 = i mod 8" by (metis div_mult_mod_eq)
  ultimately show ?thesis by (auto simp: bm_bit_def nth_list_update bit_set_bit_iff)
qed

lemma bm_bit_clear:
  assumes "length x = BSIZE" "i < BPB" "j < BPB"
  shows "bm_bit (x[i div 8 := unset_bit (i mod 8) (x ! (i div 8))]) j \<longleftrightarrow> bm_bit x j \<and> j \<noteq> i"
proof -
  have "i div 8 < length x" using assms by (auto simp: BPB_val BSIZE_def)
  moreover have "j = i \<longleftrightarrow> j div 8 = i div 8 \<and> j mod 8 = i mod 8" by (metis div_mult_mod_eq)
  ultimately show ?thesis by (auto simp: bm_bit_def nth_list_update bit_unset_bit_iff)
qed

lemma bm_find_Some: "bm_find x n = Some i \<Longrightarrow> i < n \<and> \<not> bm_bit x i \<and> (\<forall>j<i. bm_bit x j)"
  by (auto simp: bm_find_def find_Some_iff)

lemma bm_find_None: "bm_find x n = None \<longleftrightarrow> (\<forall>i<n. bm_bit x i)"
  by (auto simp: bm_find_def find_None_iff)

lemma unat_u32_less: "unat (x :: u32) < 2 ^ 32"
  using unsigned_less [of x, where ?'a = nat] by simp

lemma locate_bmp_at:
  assumes "bitmap_ok d s" "k * BPB < unat (sb_size (fs_sb s))"
  shows "locate_bmp (of_nat (k * BPB)) s = Inr (sb_bmapstart (fs_sb s) + of_nat k)"
proof -
  have lt: "k * BPB < 2 ^ 32" using assms(2) unat_u32_less [of "sb_size (fs_sb s)"] by simp
  then have u: "unat (of_nat (k * BPB) :: u32) = k * BPB" by (simp add: unat_of_nat del: of_nat_mult)
  have k: "unat (of_nat BPB :: u32) = BPB" "unat (of_nat k :: u32) = k" using lt by (simp_all add: unat_of_nat BPB_val)
  have "unat ((of_nat (k * BPB) :: u32) div of_nat BPB) = k" by (simp only: unat_div u k) (simp add: BPB_val)
  then have d: "(of_nat (k * BPB) :: u32) div of_nat BPB = of_nat k" using k(2) by (simp add: word_unat_eq_iff del: of_nat_mult)
  have "k \<le> unat (sb_size (fs_sb s)) div BPB" using assms(2) by (simp add: BPB_val)
  then have "unat (sb_bmapstart (fs_sb s)) + k < 2 ^ 32" using assms(1) by (simp add: bitmap_ok_def)
  then show ?thesis by (simp add: locate_bmp_def d add_ck_def k(2) del: of_nat_mult)
qed

lemma used_bit_same: "fs_sb s' = fs_sb s \<Longrightarrow> fs_view d s' = fs_view d s \<Longrightarrow> used_bit d s' = used_bit d s"
  by (simp add: used_bit_def fun_eq_iff)

lemma bitmap_alloc_from_spec:
  assumes "in_op d (Suc k) s" "bitmap_ok d s" "sz = unat (sb_size (fs_sb s))" "sz \<le> K * BPB"
    "n < sz" "k0 * BPB \<le> n" "\<not> used_bit d s n" "\<And>m. m < k0 * BPB \<Longrightarrow> used_bit d s m"
    "(K - 1) * BPB < sz"
  shows "\<exists>r s' x. bitmap_alloc_from d (map (\<lambda>k. k * BPB) [k0..<K]) s = Inr (r, s') \<and> unat r < sz \<and>
     \<not> used_bit d s (unat r) \<and> (\<forall>m<unat r. used_bit d s m) \<and> in_op d k s' \<and> fs_sb s' = fs_sb s \<and>
     (\<forall>b. data_block (fs_log s') b = data_block (fs_log s) b) \<and>
     x = fs_view d s (sb_bmapstart (fs_sb s) + of_nat (unat r div BPB)) \<and>
     fs_view d s' = (fs_view d s)(sb_bmapstart (fs_sb s) + of_nat (unat r div BPB) :=
       x[(unat r mod BPB) div 8 := set_bit (unat r mod BPB mod 8) (x ! ((unat r mod BPB) div 8))])"
  using assms
proof (induction "K - k0" arbitrary: k0 s)
  case 0
  then have "sz \<le> k0 * BPB" using mult_le_mono1 [of K k0 BPB] by linarith
  then show ?case using 0 by simp
next
  case (Suc j)
  let ?B = "sb_bmapstart (fs_sb s) + of_nat k0" and ?w = "min BPB (sz - k0 * BPB)"
  let ?x = "fs_view d s ?B"
  have k0: "k0 < K" "k0 * BPB < sz" using Suc by auto
  have cons: "[k0..<K] = k0 # [Suc k0..<K]" using k0 by (simp add: upt_conv_Cons)
  have loc: "locate_bmp (of_nat (k0 * BPB)) s = Inr ?B"
    using locate_bmp_at [OF Suc.prems(2)] k0 Suc.prems(3) by simp
  have data: "data_block (fs_log s) ?B" using Suc.prems(2,3) k0 by (simp add: bitmap_ok_def)
  obtain h s1 where r: "fs_bread d ?B s = Inr (h, s1)" "fs_raw h s1 = Inr ?x" "buf_blockno h = ?B"
    "holds d (fs_bc s1) h" "log_inv d (fs_log s) (fs_bc s1) ((\<lambda>_. 0)(?B := 1))" "s1 = s\<lparr>fs_bc := fs_bc s1\<rparr>"
    "fs_view d s1 = fs_view d s" "bc_disk (fs_bc s1) = bc_disk (fs_bc s)"
    by (rule in_op_bread [OF Suc.prems(1)]) (rule that; assumption)
  have sb1: "fs_sb s1 = fs_sb s" by (subst r(6)) simp
  have at: "used_bit d s (k0 * BPB + i) = bm_bit ?x i" if "i < BPB" for i
    using that by (simp add: used_bit_def BPB_val)
  show ?case
  proof (cases "bm_find ?x ?w")
    case (Some i)
    note f = bm_find_Some [OF Some]
    have i: "i < BPB" "k0 * BPB + i < sz" using f by auto
    have bound: "k0 * BPB + i < 2 ^ 32" using i(2) Suc.prems(3) unat_u32_less [of "sb_size (fs_sb s)"] by simp
    let ?r = "of_nat (k0 * BPB) + of_nat i :: u32"
    have u: "unat ?r = k0 * BPB + i" "add_ck (of_nat (k0 * BPB) :: u32) (of_nat i) = Inr ?r"
      using bound by (simp_all add: unat_of_nat unat_word_ariths add_ck_def del: of_nat_mult)
    have dm: "(k0 * BPB + i) div BPB = k0" "i mod BPB = i" using i(1) by (simp_all add: BPB_val)
    let ?y = "?x[i div 8 := set_bit (i mod 8) (?x ! (i div 8))]"
    obtain s2 s3 where w: "fs_set h ?y s1 = Inr s2" "fs_log_write h s2 = Inr s3" "in_op d k s3"
      "fs_view d s3 = (fs_view d s)(?B := ?y)" "fs_sb s3 = fs_sb s"
      "\<And>b. data_block (fs_log s3) b = data_block (fs_log s) b"
      by (rule in_op_logged [OF Suc.prems(1) data r(1,3-7)]) (rule that; assumption)
    have run: "bitmap_alloc_from d (map (\<lambda>k. k * BPB) [k0..<K]) s = Inr (?r, s3)"
      using Some w(1,2) r(1,2) u(2) loc by (simp add: cons sb1 Suc.prems(3) del: of_nat_mult)
    have low: "used_bit d s m" if "m < k0 * BPB + i" for m
    proof (cases "m < k0 * BPB")
      case False
      then have "m = k0 * BPB + (m - k0 * BPB)" "m - k0 * BPB < i" using that by auto
      then show ?thesis using at [of "m - k0 * BPB"] f i(1) by (metis less_trans)
    qed (rule Suc.prems(8))
    have free: "\<not> used_bit d s (unat ?r)" using at [OF i(1)] f u(1) by simp
    show ?thesis
      by (intro exI [of _ ?r] exI [of _ s3] exI [of _ ?x])
        (use run i(2) free low w(3-6) in \<open>simp add: dm u(1) del: of_nat_mult\<close>)
  next
    case None
    have full: "bm_bit ?x i" if "i < ?w" for i using None that bm_find_None by blast
    obtain s2 where s2: "fs_bdrop h s1 = Inr s2" "in_op d (Suc k) s2" "s2 = s\<lparr>fs_bc := fs_bc s2\<rparr>"
      "fs_view d s2 = fs_view d s"
      by (rule in_op_release [OF Suc.prems(1) r(1,3-8)]) (rule that; assumption)
    have sb2: "fs_sb s2 = fs_sb s" "fs_log s2 = fs_log s" by (subst s2(3), simp)+
    note same = used_bit_same [OF sb2(1) s2(4)]
    have run: "bitmap_alloc_from d (map (\<lambda>k. k * BPB) [k0..<K]) s =
        bitmap_alloc_from d (map (\<lambda>k. k * BPB) [Suc k0..<K]) s2"
      using None s2(1) r(1,2) loc by (simp add: cons sb1 Suc.prems(3) del: of_nat_mult)
    have nxt: "Suc k0 * BPB \<le> n"
    proof (rule ccontr)
      assume "\<not> Suc k0 * BPB \<le> n"
      then have "n = k0 * BPB + (n - k0 * BPB)" "n - k0 * BPB < ?w" using Suc.prems(5,6) by auto
      then show False using at [of "n - k0 * BPB"] full [of "n - k0 * BPB"] Suc.prems(7) by simp
    qed
    have low: "used_bit d s2 m" if "m < Suc k0 * BPB" for m
    proof (cases "m < k0 * BPB")
      case False
      then have "m = k0 * BPB + (m - k0 * BPB)" "m - k0 * BPB < ?w" using that nxt Suc.prems(5) by auto
      then show ?thesis using at [of "m - k0 * BPB"] full [of "m - k0 * BPB"] by (simp add: same)
    qed (simp add: same Suc.prems(8))
    have ok2: "bitmap_ok d s2" using Suc.prems(2) by (simp add: bitmap_ok_def sb2 s2(4))
    have hyp: "j = K - Suc k0" "sz = unat (sb_size (fs_sb s2))" "\<not> used_bit d s2 n"
      using Suc.hyps(2) Suc.prems(3,7) by (auto simp: sb2 same)
    show ?thesis
      using Suc.hyps(1) [OF hyp(1) s2(2) ok2 hyp(2) Suc.prems(4,5) nxt hyp(3) low Suc.prems(9)]
      unfolding run by (simp add: same sb2 s2(4))
  qed
qed

lemma bitmap_alloc_spec:
  assumes op: "in_op d (Suc k) s" and ok: "bitmap_ok d s"
    and free: "n < unat (sb_size (fs_sb s))" "\<not> used_bit d s n"
  shows "\<exists>r s'. bitmap_alloc d s = Inr (r, s') \<and> unat r < unat (sb_size (fs_sb s)) \<and>
     \<not> used_bit d s (unat r) \<and> (\<forall>m<unat r. used_bit d s m) \<and> in_op d k s' \<and> fs_sb s' = fs_sb s \<and> bitmap_ok d s' \<and>
     (\<forall>m<unat (sb_size (fs_sb s)). used_bit d s' m \<longleftrightarrow> used_bit d s m \<or> m = unat r) \<and>
     (\<forall>b. b \<noteq> sb_bmapstart (fs_sb s) + of_nat (unat r div BPB) \<longrightarrow> fs_view d s' b = fs_view d s b)"
proof -
  let ?sz = "unat (sb_size (fs_sb s))" and ?st = "sb_bmapstart (fs_sb s)"
  let ?K = "(?sz + BPB - 1) div BPB"
  have K: "?sz \<le> ?K * BPB" "(?K - 1) * BPB < ?sz" using free(1) by (simp_all add: BPB_val)
  obtain r s' x where r: "bitmap_alloc_from d (map (\<lambda>k. k * BPB) [0..<?K]) s = Inr (r, s')" "unat r < ?sz"
    "\<not> used_bit d s (unat r)" "\<forall>m<unat r. used_bit d s m" "in_op d k s'" "fs_sb s' = fs_sb s"
    "\<forall>b. data_block (fs_log s') b = data_block (fs_log s) b" "x = fs_view d s (?st + of_nat (unat r div BPB))"
    "fs_view d s' = (fs_view d s)(?st + of_nat (unat r div BPB) :=
       x[(unat r mod BPB) div 8 := set_bit (unat r mod BPB mod 8) (x ! ((unat r mod BPB) div 8))])"
    using bitmap_alloc_from_spec [OF op ok refl K(1) free(1) _ free(2) _ K(2), of 0] by auto
  have blk: "k * BPB < ?sz \<Longrightarrow> unat (?st + of_nat k) = unat ?st + k" for k
  proof -
    assume "k * BPB < ?sz"
    then have "k \<le> ?sz div BPB" by (simp add: BPB_val)
    then have "unat ?st + k < 2 ^ 32" using ok by (simp add: bitmap_ok_def)
    then show ?thesis by (simp add: unat_word_ariths unat_of_nat)
  qed
  have m_blk: "(m div BPB) * BPB < ?sz" if "m < ?sz" for m using that by (simp add: BPB_val)
  have len: "length x = BSIZE" using ok m_blk [OF r(2)] r(8) by (simp add: bitmap_ok_def)
  have "used_bit d s' m \<longleftrightarrow> used_bit d s m \<or> m = unat r" if m: "m < ?sz" for m
  proof (cases "m div BPB = unat r div BPB")
    case True
    have "m = unat r \<longleftrightarrow> m mod BPB = unat r mod BPB" using True by (metis div_mult_mod_eq)
    moreover have "m mod BPB < BPB" "unat r mod BPB < BPB" by (simp_all add: BPB_val)
    ultimately show ?thesis
      using bm_bit_set [OF len, of "unat r mod BPB" "m mod BPB"] True r(8) by (simp add: used_bit_def r(6,9))
  next
    case False
    then have "?st + of_nat (m div BPB) \<noteq> ?st + of_nat (unat r div BPB)"
      using blk [OF m_blk [OF m]] blk [OF m_blk [OF r(2)]] by (metis add_left_cancel)
    then show ?thesis using False by (auto simp: used_bit_def r(6,9))
  qed
  moreover have "bitmap_ok d s'" using ok len r(7,8) by (auto simp: bitmap_ok_def r(6,9))
  ultimately show ?thesis using r(1-6,9) by (intro exI [of _ r] exI [of _ s']) (auto simp: bitmap_alloc_def)
qed

lemma bitmap_free_spec:
  assumes op: "in_op d (Suc k) s" and ok: "bitmap_ok d s" and b: "unat b < BPB" "unat b < unat (sb_size (fs_sb s))"
    and used: "used_bit d s (unat b)"
  shows "\<exists>s'. bitmap_free d b s = Inr s' \<and> in_op d k s' \<and> fs_sb s' = fs_sb s \<and>
     (\<forall>m<BPB. used_bit d s' m \<longleftrightarrow> used_bit d s m \<and> m \<noteq> unat b) \<and>
     (\<forall>x. x \<noteq> sb_bmapstart (fs_sb s) \<longrightarrow> fs_view d s' x = fs_view d s x)"
proof -
  let ?B = "sb_bmapstart (fs_sb s)" and ?i = "unat b"
  let ?x = "fs_view d s ?B"
  have data: "data_block (fs_log s) ?B" and len: "length ?x = BSIZE"
    using ok b(2) by (auto simp: bitmap_ok_def dest!: spec [of _ 0])
  have bit: "bit (?x ! (?i div 8)) (?i mod 8)" using used b(1) by (simp add: used_bit_def bm_bit_def)
  obtain h s1 where r: "fs_bread d ?B s = Inr (h, s1)" "fs_raw h s1 = Inr ?x" "buf_blockno h = ?B"
    "holds d (fs_bc s1) h" "log_inv d (fs_log s) (fs_bc s1) ((\<lambda>_. 0)(?B := 1))" "s1 = s\<lparr>fs_bc := fs_bc s1\<rparr>"
    "fs_view d s1 = fs_view d s"
    by (rule in_op_bread [OF op]) (rule that; assumption)
  let ?y = "?x[?i div 8 := unset_bit (?i mod 8) (?x ! (?i div 8))]"
  obtain s2 s3 where w: "fs_set h ?y s1 = Inr s2" "fs_log_write h s2 = Inr s3" "in_op d k s3"
    "fs_view d s3 = (fs_view d s)(?B := ?y)" "fs_sb s3 = fs_sb s"
    by (rule in_op_logged [OF op data r(1,3-7)]) (rule that; assumption)
  have "?i div 8 < length ?x" using b(1) len by (simp add: BPB_val BSIZE_def)
  then have "bitmap_free d b s = Inr s3"
    using r(1,2) w(1,2) bit b(1) by (simp add: bitmap_free_def Let_def idx_get_def)
  moreover have "used_bit d s3 m \<longleftrightarrow> used_bit d s m \<and> m \<noteq> ?i" if "m < BPB" for m
    using bm_bit_clear [OF len b(1) that] that by (simp add: used_bit_def w(4,5))
  ultimately show ?thesis using w by auto
qed

section \<open>Disk inodes\<close>

lemma inode_type_roundtrip: "inode_type_of (inode_type_code ty) = ty"
  by (cases ty) (simp_all add: inode_type_of_def)

lemma concat_slice:
  "i < length xs \<Longrightarrow> take 4 (drop (4 * i) (concat (map (to_le 4) xs))) = to_le 4 (xs ! i)"
proof (induction xs arbitrary: i)
  case (Cons x xs)
  then show ?case by (cases i) simp_all
qed simp

lemma length_concat_words [simp]: "length (concat (map (to_le 4) xs)) = 4 * length xs"
  by (induction xs) simp_all

lemma length_dinode_bytes: "length (di_addrs di) = NDIRECT + 1 \<Longrightarrow> length (dinode_bytes di) = 64"
  by (simp add: dinode_bytes_def NDIRECT_def)

lemma dinode_of_bytes:
  assumes "length (di_addrs di) = NDIRECT + 1"
  shows "dinode_of (dinode_bytes di) = di"
proof -
  have "field32 (dinode_bytes di) (12 + 4 * i) = di_addrs di ! i" if "i < NDIRECT + 1" for i
    using concat_slice [of i "di_addrs di"] that assms
    by (simp add: field32_def dinode_bytes_def drop_Cons' flip: drop_drop)
  then have "map (\<lambda>i. field32 (dinode_bytes di) (12 + 4 * i)) [0..<NDIRECT + 1] = di_addrs di"
    using assms by (intro nth_equalityI) (simp_all del: upt_Suc)
  moreover have "field16 (dinode_bytes di) 0 = inode_type_code (di_type di)" "field16 (dinode_bytes di) 2 = di_major di"
    "field16 (dinode_bytes di) 4 = di_minor di" "field16 (dinode_bytes di) 6 = di_nlink di"
    "field32 (dinode_bytes di) 8 = di_size di"
    by (simp_all add: field16_def field32_def dinode_bytes_def)
  ultimately show ?thesis by (simp add: dinode_of_def inode_type_roundtrip)
qed

lemma take_drop_put_same: "off + length bs \<le> length x \<Longrightarrow> take (length bs) (drop off (put_bytes off bs x)) = bs"
  by (simp add: put_bytes_def)

lemma take_drop_put_other:
  assumes "off + length bs \<le> length x" "a + n \<le> off \<or> off + length bs \<le> a"
  shows "take n (drop a (put_bytes off bs x)) = take n (drop a x)"
  using assms by (auto simp: put_bytes_def drop_take min_def)

lemma inode_offset_bound: "64 * inode_offset i + 64 \<le> 1024"
proof -
  have "inode_offset i < 16" by (simp add: inode_offset_def IPB_def BSIZE_def)
  then show ?thesis by simp
qed

lemma get_put_dinode:
  assumes "length x = BSIZE" "length (di_addrs di) = NDIRECT + 1"
  shows "get_dinode j (put_dinode i di x) = (if inode_offset j = inode_offset i then di else get_dinode j x)"
proof -
  let ?o = "64 * inode_offset i"
  have len: "length (dinode_bytes di) = 64" by (rule length_dinode_bytes [OF assms(2)])
  have fit: "?o + length (dinode_bytes di) \<le> length x" using inode_offset_bound [of i] assms(1) len by (simp add: BSIZE_def)
  show ?thesis
  proof (cases "inode_offset j = inode_offset i")
    case True
    then show ?thesis
      using take_drop_put_same [OF fit] dinode_of_bytes [OF assms(2)] len by (simp add: get_dinode_def put_dinode_def)
  next
    case False
    then have "64 * inode_offset j + 64 \<le> ?o \<or> ?o + length (dinode_bytes di) \<le> 64 * inode_offset j"
      unfolding len by linarith
    from take_drop_put_other [OF fit this] False show ?thesis by (simp add: get_dinode_def put_dinode_def)
  qed
qed

lemma IPB_val: "IPB = 16" by (simp add: IPB_def BSIZE_def)

text \<open>The inode of a number as the kernel sees it in its block of the inode area.\<close>

definition inode_block :: "fs \<Rightarrow> u32 \<Rightarrow> u32" where
  "inode_block s n = n div of_nat IPB + sb_inodestart (fs_sb s)"

definition disk_inode :: "u32 \<Rightarrow> fs \<Rightarrow> u32 \<Rightarrow> dinode" where
  "disk_inode d s n = get_dinode n (fs_view d s (inode_block s n))"

text \<open>The blocks of the inode area are whole blocks outside the log, and their numbers do not wrap.\<close>

definition inode_area_ok :: "u32 \<Rightarrow> fs \<Rightarrow> bool" where
  "inode_area_ok d s \<longleftrightarrow>
     unat (sb_inodestart (fs_sb s)) + unat (sb_ninodes (fs_sb s)) div IPB < 2 ^ 32 \<and>
     (\<forall>n < sb_ninodes (fs_sb s). data_block (fs_log s) (inode_block s n) \<and> length (fs_view d s (inode_block s n)) = BSIZE)"

lemma unat_inode_block:
  assumes "inode_area_ok d s" "n < sb_ninodes (fs_sb s)"
  shows "unat (inode_block s n) = unat n div IPB + unat (sb_inodestart (fs_sb s))" "locate_inode n s = Inr (inode_block s n)"
proof -
  have q: "unat (n div of_nat IPB) = unat n div IPB" by (simp add: unat_div IPB_val)
  have "unat n div IPB \<le> unat (sb_ninodes (fs_sb s)) div IPB"
    using assms(2) by (intro div_le_mono) (simp add: word_less_nat_alt)
  then have b: "unat n div IPB + unat (sb_inodestart (fs_sb s)) < 2 ^ 32" using assms(1) by (simp add: inode_area_ok_def)
  then show "unat (inode_block s n) = unat n div IPB + unat (sb_inodestart (fs_sb s))"
    by (simp add: inode_block_def unat_add_lem [THEN iffD1] q)
  show "locate_inode n s = Inr (inode_block s n)"
    using b assms(2) leD [of "sb_ninodes (fs_sb s)" n] by (auto simp: locate_inode_def inode_block_def add_ck_def q)
qed

text \<open>Two inodes never share their place: those of one block have different offsets.\<close>

lemma inode_place_inj:
  assumes "inode_area_ok d s" "m < sb_ninodes (fs_sb s)" "n < sb_ninodes (fs_sb s)"
    "inode_block s m = inode_block s n" "inode_offset m = inode_offset n"
  shows "m = n"
proof -
  have "unat m div IPB = unat n div IPB"
    using unat_inode_block(1) [OF assms(1,2)] unat_inode_block(1) [OF assms(1,3)] assms(4) by simp
  with assms(5) show ?thesis unfolding inode_offset_def by (metis div_mult_mod_eq word_unat_eq_iff)
qed

lemma fs_data_frame:
  "fs_bread d b s = Inr (h, s1) \<Longrightarrow> fs_data s1 = fs_data s" "fs_set h y s = Inr s1 \<Longrightarrow> fs_data s1 = fs_data s"
  "fs_log_write h s = Inr s1 \<Longrightarrow> fs_data s1 = fs_data s"
  by (auto simp: fs_bread_def fs_set_def fs_log_write_def outcome_simps)

lemma inode_update_spec:
  assumes op: "in_op d (Suc k) s" and ok: "inode_area_ok d s"
    and x: "get_idata i s = Inr x" "id_dev x = d" "id_inum x < sb_ninodes (fs_sb s)"
      "length (di_addrs (id_dinode x)) = NDIRECT + 1"
  obtains s' where "inode_update i s = Inr s'" "in_op d k s'" "inode_area_ok d s'" "fs_data s' = fs_data s" "fs_sb s' = fs_sb s"
    "\<forall>b. b \<noteq> inode_block s (id_inum x) \<longrightarrow> fs_view d s' b = fs_view d s b"
    "\<forall>n < sb_ninodes (fs_sb s). disk_inode d s' n = (if n = id_inum x then id_dinode x else disk_inode d s n)"
proof -
  let ?B = "inode_block s (id_inum x)"
  let ?x = "fs_view d s ?B"
  let ?y = "put_dinode (id_inum x) (id_dinode x) ?x"
  have data: "data_block (fs_log s) ?B" and len: "length ?x = BSIZE" using ok x(3) by (simp_all add: inode_area_ok_def)
  obtain h s1 where r: "fs_bread d ?B s = Inr (h, s1)" "fs_raw h s1 = Inr ?x" "buf_blockno h = ?B"
    "holds d (fs_bc s1) h" "log_inv d (fs_log s) (fs_bc s1) ((\<lambda>_. 0)(?B := 1))" "s1 = s\<lparr>fs_bc := fs_bc s1\<rparr>"
    "fs_view d s1 = fs_view d s"
    by (rule in_op_bread [OF op]) (rule that; assumption)
  obtain s2 s3 where w: "fs_set h ?y s1 = Inr s2" "fs_log_write h s2 = Inr s3" "in_op d k s3"
    "fs_view d s3 = (fs_view d s)(?B := ?y)" "fs_sb s3 = fs_sb s"
    "\<And>b. data_block (fs_log s3) b = data_block (fs_log s) b"
    by (rule in_op_logged [OF op data r(1,3-7)]) (rule that; assumption)
  have run: "inode_update i s = Inr s3"
    using r(1,2) w(1,2) x unat_inode_block(2) [OF ok x(3)] by (simp add: inode_update_def find_inode_def)
  have blk: "inode_block s3 = inode_block s" by (simp add: inode_block_def w(5) fun_eq_iff)
  have ylen: "length ?y = BSIZE"
    using len inode_offset_bound [of "id_inum x"] length_dinode_bytes [OF x(4)]
    by (simp add: put_dinode_def put_bytes_def BSIZE_def)
  have "disk_inode d s3 n = (if n = id_inum x then id_dinode x else disk_inode d s n)" if "n < sb_ninodes (fs_sb s)" for n
    using get_put_dinode [OF len x(4), of n "id_inum x"] inode_place_inj [OF ok that x(3)]
    by (auto simp: disk_inode_def blk w(4))
  then show thesis
    using that [of s3] run w ok ylen fs_data_frame(1) [OF r(1)] fs_data_frame(2) [OF w(1)] fs_data_frame(3) [OF w(2)]
    by (simp add: inode_area_ok_def blk)
qed

lemma inode_lock_spec:
  assumes op: "in_op d k s" and ok: "inode_area_ok d s" and y: "get_idata (ino_index ip) s = Inr y" "\<not> id_valid y"
    and ip: "ino_dev ip = d" "ino_inum ip < sb_ninodes (fs_sb s)"
  shows "if di_type (disk_inode d s (ino_inum ip)) = Empty then inode_lock ip s = Inl InodeEmptyType
     else \<exists>s'. inode_lock ip s = Inr s' \<and> in_op d k s' \<and> fs_view d s' = fs_view d s \<and> get_idata (ino_index ip) s' =
       Inr \<lparr>id_valid = True, id_dev = d, id_inum = ino_inum ip, id_dinode = disk_inode d s (ino_inum ip)\<rparr>"
proof -
  let ?B = "inode_block s (ino_inum ip)"
  let ?i = "\<lparr>id_valid = True, id_dev = d, id_inum = ino_inum ip, id_dinode = disk_inode d s (ino_inum ip)\<rparr>"
  obtain h s1 where r: "fs_bread d ?B s = Inr (h, s1)" "fs_raw h s1 = Inr (fs_view d s ?B)" "buf_blockno h = ?B"
    "holds d (fs_bc s1) h" "log_inv d (fs_log s) (fs_bc s1) ((\<lambda>_. 0)(?B := 1))" "s1 = s\<lparr>fs_bc := fs_bc s1\<rparr>"
    "fs_view d s1 = fs_view d s" "bc_disk (fs_bc s1) = bc_disk (fs_bc s)"
    by (rule in_op_bread [OF op]) (rule that; assumption)
  obtain s2 where s2: "fs_bdrop h s1 = Inr s2" "in_op d k s2" "s2 = s\<lparr>fs_bc := fs_bc s2\<rparr>" "fs_view d s2 = fs_view d s"
    by (rule in_op_release [OF op r(1,3-8)]) (rule that; assumption)
  let ?s = "s2\<lparr>fs_data := (fs_data s2)[ino_index ip := ?i]\<rparr>"
  have "fs_data s2 = fs_data s" by (subst s2(3)) simp
  then have lt: "ino_index ip < length (fs_data s2)" using y(1) by (auto simp: get_idata_def idx_get_def split: if_splits)
  then have set: "set_idata (ino_index ip) ?i s2 = Inr ?s" "get_idata (ino_index ip) ?s = Inr ?i"
    by (simp_all add: set_idata_def get_idata_def idx_get_def idx_set_def)
  have "inode_lock ip s = (if di_type (disk_inode d s (ino_inum ip)) = Empty then Inl InodeEmptyType else Inr ?s)"
    using y ip r(1,2) s2(1) set(1) unat_inode_block(2) [OF ok ip(2)]
    by (simp add: inode_lock_def find_inode_def disk_inode_def Let_def)
  moreover have "in_op d k ?s" "fs_view d ?s = fs_view d s" using s2(2,4) by (simp_all add: in_op_def fs_view_def)
  ultimately show ?thesis using set(2) by auto
qed

section \<open>Properties\<close>

definition demo_fs :: fs where
  "demo_fs = (fs_new demo_disk)\<lparr>fs_log := demo_log, fs_sb := superblock_uninit\<lparr>sb_size := 200, sb_bmapstart := 100\<rparr>\<rparr>"

lemma demo_fs_facts: "in_op 1 2 demo_fs" "bitmap_ok 1 demo_fs" "\<not> used_bit 1 demo_fs n \<or> BPB \<le> n"
  "sb_size (fs_sb demo_fs) = 200"
proof -
  note new = bcache_new_inv [of 1 demo_disk] bcache_new_abs [of 1 demo_disk]
  have f: "fs_bc demo_fs = bcache_new demo_disk" "fs_log demo_fs = demo_log"
    "sb_size (fs_sb demo_fs) = 200" "sb_bmapstart (fs_sb demo_fs) = 100"
    by (simp_all add: demo_fs_def fs_new_def)
  have g: "lh_len demo_log = 0" "lg_size demo_log = 31" "lg_outstanding demo_log = 1" "logged demo_log = []"
    by (simp_all add: demo_log_def log_unint_def logged_def)
  have v: "fs_view 1 demo_fs = demo_disk" using new by (simp add: fs_view_def f)
  show "in_op 1 2 demo_fs"
    using new demo_log_wf(1) by (simp add: in_op_def f g log_inv_def LOGSIZE_val pins_def)
  show "bitmap_ok 1 demo_fs"
    unfolding bitmap_ok_def f v
  proof (intro conjI allI impI)
    show "unat (100 :: u32) + unat (200 :: u32) div BPB + 1 < 2 ^ 32" by (simp add: BPB_val)
    fix k assume "k * BPB < unat (200 :: u32)"
    then have "k = 0" by (simp add: BPB_val)
    then show "data_block demo_log (100 + of_nat k)" using demo_log_wf(2) by simp
  qed (simp add: demo_disk_def)
  show "\<not> used_bit 1 demo_fs n \<or> BPB \<le> n"
    by (auto simp: used_bit_def v bm_bit_def demo_disk_def BPB_val BSIZE_def)
  show "sb_size (fs_sb demo_fs) = 200" by (rule f(3))
qed

text \<open>C35. Allocating a block takes the first free one: inside a transaction with room in the log
  and with a free block on the device, the block returned was free, all before it were used,
  exactly its bit is set and no block outside the bitmap changes.\<close>

theorem bitmap_alloc_first_free:
  assumes "in_op d (Suc k) s" "bitmap_ok d s" "n < unat (sb_size (fs_sb s))" "\<not> used_bit d s n"
  shows "\<exists>r s'. bitmap_alloc d s = Inr (r, s') \<and> unat r \<le> n \<and> \<not> used_bit d s (unat r) \<and>
     (\<forall>m<unat r. used_bit d s m) \<and>
     (\<forall>m<unat (sb_size (fs_sb s)). used_bit d s' m \<longleftrightarrow> used_bit d s m \<or> m = unat r) \<and>
     (\<forall>b. b \<noteq> sb_bmapstart (fs_sb s) + of_nat (unat r div BPB) \<longrightarrow> fs_view d s' b = fs_view d s b) \<and>
     in_op d k s' \<and> bitmap_ok d s'"
proof -
  obtain r s' where r: "bitmap_alloc d s = Inr (r, s')" "\<not> used_bit d s (unat r)" "\<forall>m<unat r. used_bit d s m"
    "in_op d k s'" "bitmap_ok d s'"
    "\<forall>m<unat (sb_size (fs_sb s)). used_bit d s' m \<longleftrightarrow> used_bit d s m \<or> m = unat r"
    "\<forall>b. b \<noteq> sb_bmapstart (fs_sb s) + of_nat (unat r div BPB) \<longrightarrow> fs_view d s' b = fs_view d s b"
    using bitmap_alloc_spec [OF assms] by blast
  have "unat r \<le> n" using r(3) assms(4) by (meson not_less)
  then show ?thesis using r by (intro exI [of _ r] exI [of _ s'] conjI)
qed

theorem bitmap_alloc_first_free_witness:
  "\<exists>s'. bitmap_alloc 1 demo_fs = Inr (0, s') \<and> used_bit 1 s' 0 \<and> \<not> used_bit 1 s' 1"
proof -
  have op: "in_op 1 (Suc 0) demo_fs" using in_op_less [OF demo_fs_facts(1), of 1] by simp
  have free: "\<not> used_bit 1 demo_fs 0" "\<not> used_bit 1 demo_fs 1"
    using demo_fs_facts(3) [of 0] demo_fs_facts(3) [of 1] by (auto simp: BPB_val)
  from bitmap_alloc_first_free [OF op demo_fs_facts(2) _ free(1)] obtain r s' where
    r: "bitmap_alloc 1 demo_fs = Inr (r, s')" "unat r \<le> 0"
      "\<forall>m<unat (sb_size (fs_sb demo_fs)). used_bit 1 s' m \<longleftrightarrow> used_bit 1 demo_fs m \<or> m = unat r"
    by (auto simp: demo_fs_facts(4))
  have "r = 0" using r(2) by (simp add: unat_eq_0)
  then have "used_bit 1 s' 0" "\<not> used_bit 1 s' 1" using r(3) free by (simp_all add: demo_fs_facts(4))
  then show ?thesis using r(1) \<open>r = 0\<close> by blast
qed

text \<open>Freeing undoes allocating: for a block covered by the first bitmap block, an allocation
  followed by its release leaves every bit as it was and no other block changed.\<close>

lemma bitmap_alloc_free_roundtrip:
  assumes "in_op d (Suc (Suc k)) s" "bitmap_ok d s" "n < unat (sb_size (fs_sb s))" "n < BPB" "\<not> used_bit d s n"
  shows "\<exists>r s1 s2. bitmap_alloc d s = Inr (r, s1) \<and> bitmap_free d r s1 = Inr s2 \<and> in_op d k s2 \<and>
     (\<forall>m<min BPB (unat (sb_size (fs_sb s))). used_bit d s2 m = used_bit d s m) \<and>
     (\<forall>b. b \<noteq> sb_bmapstart (fs_sb s) \<longrightarrow> fs_view d s2 b = fs_view d s b)"
proof -
  let ?sz = "unat (sb_size (fs_sb s))"
  obtain r s1 where r: "bitmap_alloc d s = Inr (r, s1)" "unat r < ?sz" "\<not> used_bit d s (unat r)"
    "\<forall>m<unat r. used_bit d s m" "in_op d (Suc k) s1" "fs_sb s1 = fs_sb s" "bitmap_ok d s1"
    "\<forall>m<?sz. used_bit d s1 m \<longleftrightarrow> used_bit d s m \<or> m = unat r"
    "\<forall>b. b \<noteq> sb_bmapstart (fs_sb s) + of_nat (unat r div BPB) \<longrightarrow> fs_view d s1 b = fs_view d s b"
    using bitmap_alloc_spec [OF assms(1-3,5)] by blast
  have "unat r \<le> n" using r(4) assms(5) by (meson not_less)
  then have lt: "unat r < BPB" using assms(4) by simp
  then have first: "unat r div BPB = 0" by simp
  have used: "used_bit d s1 (unat r)" using r(2,8) by simp
  obtain s2 where s2: "bitmap_free d r s1 = Inr s2" "in_op d k s2"
    "\<forall>m<BPB. used_bit d s2 m \<longleftrightarrow> used_bit d s1 m \<and> m \<noteq> unat r"
    "\<forall>x. x \<noteq> sb_bmapstart (fs_sb s) \<longrightarrow> fs_view d s2 x = fs_view d s1 x"
    using bitmap_free_spec [OF r(5,7) lt _ used] r(2,6) by auto
  have "\<forall>m<min BPB ?sz. used_bit d s2 m = used_bit d s m" using s2(3) r(3,8) by auto
  moreover have "\<forall>b. b \<noteq> sb_bmapstart (fs_sb s) \<longrightarrow> fs_view d s2 b = fs_view d s b"
    using s2(4) r(9) first by simp
  ultimately show ?thesis using r(1) s2(1,2) by blast
qed

text \<open>C36. What \<^verbatim>\<open>Inode::update\<close> writes is what \<^verbatim>\<open>Inode::lock\<close> later loads. Inside a transaction with
  room in the log, updating an inode succeeds and changes only the block of the inode area it lies in;
  loading any inode of the device into a slot that is not valid then gives the updated inode for its
  number, and for every other number the inode that was on the disk before; a number whose inode is of
  no type panics.\<close>

theorem inode_update_read_back:
  assumes "in_op d (Suc k) s" "inode_area_ok d s" "get_idata i s = Inr x" "id_dev x = d"
    "id_inum x < sb_ninodes (fs_sb s)" "length (di_addrs (id_dinode x)) = NDIRECT + 1"
  shows "\<exists>s'. inode_update i s = Inr s' \<and> in_op d k s' \<and>
    (\<forall>b. b \<noteq> inode_block s (id_inum x) \<longrightarrow> fs_view d s' b = fs_view d s b) \<and>
    (\<forall>ip y di. get_idata (ino_index ip) s = Inr y \<and> \<not> id_valid y \<and> ino_dev ip = d \<and> ino_inum ip < sb_ninodes (fs_sb s) \<and>
       di = (if ino_inum ip = id_inum x then id_dinode x else disk_inode d s (ino_inum ip)) \<longrightarrow>
       (if di_type di = Empty then inode_lock ip s' = Inl InodeEmptyType
        else \<exists>s''. inode_lock ip s' = Inr s'' \<and> in_op d k s'' \<and> fs_view d s'' = fs_view d s' \<and>
          get_idata (ino_index ip) s'' = Inr \<lparr>id_valid = True, id_dev = d, id_inum = ino_inum ip, id_dinode = di\<rparr>))"
proof -
  obtain s' where s': "inode_update i s = Inr s'" "in_op d k s'" "inode_area_ok d s'" "fs_data s' = fs_data s" "fs_sb s' = fs_sb s"
    "\<forall>b. b \<noteq> inode_block s (id_inum x) \<longrightarrow> fs_view d s' b = fs_view d s b"
    "\<forall>n < sb_ninodes (fs_sb s). disk_inode d s' n = (if n = id_inum x then id_dinode x else disk_inode d s n)"
    by (rule inode_update_spec [OF assms])
  show ?thesis
  proof (intro exI [of _ s'] conjI allI impI, goal_cases)
    case (4 ip y di)
    then have y: "get_idata (ino_index ip) s' = Inr y" "\<not> id_valid y" "ino_dev ip = d" "ino_inum ip < sb_ninodes (fs_sb s')"
      and di: "di = disk_inode d s' (ino_inum ip)"
      using s'(4,5,7) by (auto simp: get_idata_def)
    show ?case unfolding di by (rule inode_lock_spec [OF s'(2,3) y])
  qed (use s' in auto)
qed

text \<open>A device with 40 inodes from block 100 on; slot 0 of the inode table holds inode 17.\<close>

definition demo_inode :: dinode where
  "demo_inode = dinode_new\<lparr>di_type := Directory, di_size := 0x12345\<rparr>"

definition demo_inodes :: fs where
  "demo_inodes = demo_fs\<lparr>fs_sb := (fs_sb demo_fs)\<lparr>sb_ninodes := 40, sb_inodestart := 100\<rparr>,
     fs_data := (fs_data demo_fs)[0 := \<lparr>id_valid = True, id_dev = 1, id_inum = 17, id_dinode = demo_inode\<rparr>]\<rparr>"

lemma dinode_of_zeros: "dinode_of (replicate n 0) = dinode_new"
proof -
  have zero: "of_le (replicate k (0 :: u8)) = 0" for k by (rule of_le_zeros) auto
  have "map (\<lambda>i. field32 (replicate n 0) (12 + 4 * i)) [0..<NDIRECT + 1] = replicate (NDIRECT + 1) 0"
    by (rule nth_equalityI) (simp_all add: field32_def zero nth_replicate del: upt_Suc replicate_Suc)
  then show ?thesis
    by (simp add: dinode_of_def dinode_new_def field16_def zero inode_type_of_def) (simp add: field32_def zero)
qed

lemma demo_inodes_facts: "in_op 1 (Suc 1) demo_inodes" "inode_area_ok 1 demo_inodes"
  "get_idata 0 demo_inodes = Inr \<lparr>id_valid = True, id_dev = 1, id_inum = 17, id_dinode = demo_inode\<rparr>"
  "get_idata 1 demo_inodes = Inr inode_data_new" "sb_ninodes (fs_sb demo_inodes) = 40"
  "disk_inode 1 demo_inodes 16 = dinode_new"
proof -
  note new = bcache_new_abs [of 1 demo_disk]
  have f: "fs_bc demo_inodes = bcache_new demo_disk" "fs_log demo_inodes = demo_log"
    by (simp_all add: demo_inodes_def demo_fs_def fs_new_def)
  show sb: "sb_ninodes (fs_sb demo_inodes) = 40" by (simp add: demo_inodes_def)
  have st: "sb_inodestart (fs_sb demo_inodes) = 100" by (simp add: demo_inodes_def)
  have v: "fs_view 1 demo_inodes = demo_disk" using new by (simp add: fs_view_def f)
  show "in_op 1 (Suc 1) demo_inodes"
    using demo_fs_facts(1) by (simp add: in_op_def demo_inodes_def numeral_2_eq_2)
  have "data_block demo_log (inode_block demo_inodes n)" if "n < 40" for n
  proof -
    have "unat (n div 16) < 3" using that by (simp add: unat_div word_less_nat_alt)
    then have "inode_block demo_inodes n = of_nat (100 + unat (n div 16))"
      by (simp add: inode_block_def st IPB_val)
    with demo_data_block [of "100 + unat (n div 16)"] \<open>unat (n div 16) < 3\<close> show ?thesis by simp
  qed
  then show "inode_area_ok 1 demo_inodes"
    by (simp add: inode_area_ok_def sb st v f(2) IPB_val demo_disk_def)
  show "get_idata 0 demo_inodes = Inr \<lparr>id_valid = True, id_dev = 1, id_inum = 17, id_dinode = demo_inode\<rparr>"
    "get_idata 1 demo_inodes = Inr inode_data_new"
    by (simp_all add: demo_inodes_def demo_fs_def fs_new_def get_idata_def idx_get_def NINODE_def)
  have "take 64 (drop (64 * inode_offset 16) (replicate BSIZE 0)) = replicate 64 (0 :: u8)"
    by (simp add: inode_offset_def IPB_val BSIZE_def)
  then show "disk_inode 1 demo_inodes 16 = dinode_new"
    by (simp only: disk_inode_def v demo_disk_def get_dinode_def dinode_of_zeros)
qed

theorem inode_update_read_back_witness:
  "\<exists>s' s''. inode_update 0 demo_inodes = Inr s' \<and> inode_lock \<lparr>ino_dev = 1, ino_inum = 17, ino_index = 1\<rparr> s' = Inr s'' \<and>
     get_idata 1 s'' = Inr \<lparr>id_valid = True, id_dev = 1, id_inum = 17, id_dinode = demo_inode\<rparr> \<and>
     inode_lock \<lparr>ino_dev = 1, ino_inum = 16, ino_index = 1\<rparr> s' = Inl InodeEmptyType"
proof -
  let ?x = "\<lparr>id_valid = True, id_dev = 1, id_inum = 17, id_dinode = demo_inode\<rparr> :: inode_data"
  have len: "length (di_addrs (id_dinode ?x)) = NDIRECT + 1" by (simp add: demo_inode_def dinode_new_def)
  have ty: "di_type demo_inode \<noteq> Empty" "di_type dinode_new = Empty" by (simp_all add: demo_inode_def dinode_new_def)
  note f = demo_inodes_facts
  have lt: "id_inum ?x < sb_ninodes (fs_sb demo_inodes)" by (simp add: f(5))
  obtain s' where s': "inode_update 0 demo_inodes = Inr s'" and
    lock: "\<forall>ip y di. get_idata (ino_index ip) demo_inodes = Inr y \<and> \<not> id_valid y \<and> ino_dev ip = 1 \<and> ino_inum ip < sb_ninodes (fs_sb demo_inodes) \<and>
       di = (if ino_inum ip = id_inum ?x then id_dinode ?x else disk_inode 1 demo_inodes (ino_inum ip)) \<longrightarrow>
       (if di_type di = Empty then inode_lock ip s' = Inl InodeEmptyType
        else \<exists>s''. inode_lock ip s' = Inr s'' \<and> in_op 1 1 s'' \<and> fs_view 1 s'' = fs_view 1 s' \<and>
          get_idata (ino_index ip) s'' = Inr \<lparr>id_valid = True, id_dev = 1, id_inum = ino_inum ip, id_dinode = di\<rparr>)"
    using inode_update_read_back [OF f(1-3) _ lt len] by auto
  have new: "get_idata 1 demo_inodes = Inr inode_data_new" "\<not> id_valid inode_data_new"
    using f(4) by (simp_all add: inode_data_new_def)
  from lock [rule_format, of "\<lparr>ino_dev = 1, ino_inum = 17, ino_index = 1\<rparr>" inode_data_new demo_inode]
    lock [rule_format, of "\<lparr>ino_dev = 1, ino_inum = 16, ino_index = 1\<rparr>" inode_data_new dinode_new]
  show ?thesis using s' new ty f(5,6) by auto
qed

text \<open>The test for an empty directory answers the opposite: a directory that holds only its
  first two entries is reported as not empty.\<close>

lemma is_dir_empty_denies_empty:
  assumes "get_idata i s = Inr x" "unat (di_size (id_dinode x)) \<le> 2 * DE_SIZE"
  shows "is_dir_empty i s = Inr (False, s)"
  using assms by (simp add: is_dir_empty_def entry_offsets_def DE_SIZE_def DIRSIZ_def)

end
