(* ===== verification/Rx_Path.thy ===== *)
theory Rx_Path
  imports Rx_Inode
begin

text \<open>
  Path names. \<^verbatim>\<open>namex\<close> of \<^verbatim>\<open>fs/inode.rs\<close> walks a path with a cursor into its bytes and a name buffer
  it reuses; the reference here splits the path into its elements and walks the list. The two agree
  on every outcome, panics included, so the walk ends after as many turns as the path has elements.
\<close>

section \<open>Splitting a path\<close>

primrec split_on :: "'a \<Rightarrow> 'a list \<Rightarrow> 'a list list" where
  "split_on c [] = [[]]"
| "split_on c (x # xs) =
     (if x = c then [] # split_on c xs else (x # hd (split_on c xs)) # tl (split_on c xs))"

definition path_elems :: "u8 list \<Rightarrow> u8 list list" where
  "path_elems path = filter (\<lambda>e. e \<noteq> []) (split_on SLASH (takeWhile (\<lambda>c. c \<noteq> 0) path))"

lemma split_on_ne [simp]: "split_on c xs \<noteq> []"
  by (cases xs) simp_all

lemma split_on_prefix: "c \<notin> set e \<Longrightarrow> split_on c (e @ xs) = (e @ hd (split_on c xs)) # tl (split_on c xs)"
  by (induction e) auto

lemma path_elems_slashes [simp]: "path_elems (replicate a SLASH @ xs) = path_elems xs"
  by (induction a) (simp_all add: path_elems_def SLASH_def)

lemma path_elems_Nil [simp]: "path_elems [] = []"
  by (simp add: path_elems_def)

lemma path_elems_end [simp]: "path_elems (0 # xs) = []"
  by (simp add: path_elems_def)

lemma path_elems_element:
  assumes "e \<noteq> []" "SLASH \<notin> set e" "0 \<notin> set e" "y = SLASH \<or> y = 0"
  shows "path_elems (e @ y # xs) = e # path_elems (y # xs)"
proof -
  have "takeWhile (\<lambda>c. c \<noteq> 0) (e @ y # xs) = e @ takeWhile (\<lambda>c. c \<noteq> 0) (y # xs)"
    using assms(3) by (induction e) auto
  then show ?thesis
    using assms split_on_prefix [OF assms(2)] by (auto simp: path_elems_def SLASH_def)
qed

lemma path_elems_ne: "y \<noteq> SLASH \<Longrightarrow> y \<noteq> 0 \<Longrightarrow> path_elems (y # xs) \<noteq> []"
  by (simp add: path_elems_def)

lemma set_dropWhileI: "x \<in> set xs \<Longrightarrow> x \<notin> set (takeWhile P xs) \<Longrightarrow> x \<in> set (dropWhile P xs)"
  by (induction xs) (auto split: if_splits)

text \<open>A terminated string is slashes up to its end, or slashes, an element, slashes and a rest.\<close>

lemma path_cases:
  assumes "0 \<in> set xs"
  obtains (none) a ys where "xs = replicate a SLASH @ 0 # ys" "path_elems xs = []"
    | (elem) a e c y ys where "xs = replicate a SLASH @ e @ replicate c SLASH @ y # ys"
      "e \<noteq> []" "SLASH \<notin> set e" "0 \<notin> set e" "y \<noteq> SLASH" "c = 0 \<longrightarrow> y = 0" "0 \<in> set (y # ys)"
      "path_elems xs = e # path_elems (y # ys)"
proof -
  let ?s = "\<lambda>x. x = SLASH"
  have slashes: "takeWhile ?s zs = replicate (length (takeWhile ?s zs)) SLASH" for zs :: "u8 list"
    by (rule replicate_eqI) (auto dest: set_takeWhileD)
  have skip: "\<exists>a y ys. zs = replicate a SLASH @ y # ys \<and> y \<noteq> SLASH \<and> 0 \<in> set (y # ys) \<and> (hd zs \<noteq> SLASH \<longrightarrow> a = 0)"
    if "0 \<in> set zs" for zs :: "u8 list"
  proof -
    have eq: "zs = takeWhile ?s zs @ dropWhile ?s zs" by simp
    have "0 \<notin> set (takeWhile ?s zs)" by (auto dest!: set_takeWhileD simp: SLASH_def)
    then have z: "0 \<in> set (dropWhile ?s zs)" using that by (rule set_dropWhileI [rotated])
    then obtain y ys where d: "dropWhile ?s zs = y # ys" by (cases "dropWhile ?s zs") auto
    have "y \<noteq> SLASH" using d hd_dropWhile [of ?s zs] by simp
    moreover have "hd zs \<noteq> SLASH \<longrightarrow> length (takeWhile ?s zs) = 0" by (cases zs) auto
    moreover have "zs = replicate (length (takeWhile ?s zs)) SLASH @ y # ys" using eq d slashes [of zs] by metis
    ultimately show ?thesis using d z by (intro exI [of _ "length (takeWhile ?s zs)"]) auto
  qed
  obtain a y ys where xs: "xs = replicate a SLASH @ y # ys" and y: "y \<noteq> SLASH" "0 \<in> set (y # ys)"
    using skip [OF assms] by blast
  show ?thesis
  proof (cases "y = 0")
    case True
    then show ?thesis using none [of a ys] xs by simp
  next
    case False
    let ?p = "\<lambda>x. x \<noteq> SLASH \<and> x \<noteq> 0"
    define e r where "e = takeWhile ?p (y # ys)" and "r = dropWhile ?p (y # ys)"
    have split: "y # ys = e @ r" by (simp only: e_def r_def takeWhile_dropWhile_id)
    have e: "e \<noteq> []" "SLASH \<notin> set e" "0 \<notin> set e" using False y(1) by (auto simp: e_def dest: set_takeWhileD)
    have r0: "0 \<in> set r" unfolding r_def by (rule set_dropWhileI [OF y(2) e(3) [unfolded e_def]])
    then obtain z zs where r: "r = z # zs" by (cases r) auto
    have z: "z = SLASH \<or> z = 0" using r hd_dropWhile [of ?p "y # ys"] by (auto simp: r_def)
    obtain c w ws where rest: "r = replicate c SLASH @ w # ws" and w: "w \<noteq> SLASH" "0 \<in> set (w # ws)"
      using skip [OF r0] by blast
    have "path_elems xs = e # path_elems r" unfolding xs split r using path_elems_element [OF e z, of zs] by simp
    then have elems: "path_elems xs = e # path_elems (w # ws)" unfolding rest by simp
    have c0: "c = 0 \<longrightarrow> w = 0" using rest r z w(1) by auto
    have shape: "xs = replicate a SLASH @ e @ replicate c SLASH @ w # ws" unfolding xs split rest ..
    show ?thesis by (rule elem [OF shape e w(1) c0 w(2) elems])
  qed
qed

section \<open>The cursor\<close>

declare skip_while.simps [simp del]

lemma skip_while_run:
  assumes "\<forall>c\<in>set xs. P c" "\<not> P y"
  shows "skip_while P (pre @ xs @ y # ys) (length pre) = Inr (length pre + length xs)"
  using assms(1)
proof (induction xs arbitrary: pre)
  case Nil
  then show ?case using assms(2) by (subst skip_while.simps) (simp add: idx_get_def)
next
  case (Cons x xs)
  then show ?case using Cons.IH [of "pre @ [x]"] by (subst skip_while.simps) (simp add: idx_get_def)
qed

lemma skip_path_element_spec:
  assumes e: "e \<noteq> []" "SLASH \<notin> set e" "0 \<notin> set e" "length e < length name"
    and y: "y \<noteq> SLASH" "c = 0 \<longrightarrow> y = 0"
  shows "skip_path (pre @ replicate a SLASH @ e @ replicate c SLASH @ y # rest) (length pre) name =
     Inr (length pre + a + length e + c, e @ 0 # drop (Suc (length e)) name)"
proof -
  obtain e0 es where es: "e = e0 # es" using e(1) by (cases e) auto
  let ?path = "pre @ replicate a SLASH @ e @ replicate c SLASH @ y # rest"
  let ?pre1 = "pre @ replicate a SLASH"
  have s1: "skip_while (\<lambda>x. x = SLASH) ?path (length pre) = Inr (length pre + a)"
    using skip_while_run [of "replicate a SLASH" "\<lambda>x. x = SLASH" e0 pre "es @ replicate c SLASH @ y # rest"] e(2)
    by (auto simp: es)
  have nth: "idx_get ?path (length pre + a) = Inr e0" by (simp add: idx_get_def es nth_append)
  obtain z zs where z: "replicate c SLASH @ y # rest = z # zs" "\<not> (z \<noteq> SLASH \<and> z \<noteq> 0)"
    using y by (cases c) auto
  have s2: "skip_while (\<lambda>x. x \<noteq> SLASH \<and> x \<noteq> 0) ?path (length pre + a) = Inr (length pre + a + length e)"
    using skip_while_run [of e "\<lambda>x. x \<noteq> SLASH \<and> x \<noteq> 0" z ?pre1 zs] e(2,3) z by auto
  have s3: "skip_while (\<lambda>x. x = SLASH) ?path (length pre + a + length e) = Inr (length pre + a + length e + c)"
    using skip_while_run [of "replicate c SLASH" "\<lambda>x. x = SLASH" y "?pre1 @ e" rest] y(1) by (simp add: add.assoc)
  have "(take (length e) (drop (length pre + a) ?path) @ drop (length e) name)[length e := 0] =
      e @ 0 # drop (Suc (length e)) name"
    using e(4) by (simp add: list_update_append Cons_nth_drop_Suc [symmetric])
  then show ?thesis using s1 s2 s3 nth e(3,4) es by (simp add: skip_path_def Let_def)
qed

lemma skip_path_end: "skip_path (pre @ replicate a SLASH @ 0 # rest) (length pre) name = Inr (0, name)"
  using skip_while_run [of "replicate a SLASH" "\<lambda>x. x = SLASH" 0 pre rest]
  by (simp add: skip_path_def idx_get_def SLASH_def nth_append)

section \<open>Names\<close>

text \<open>A lookup reads the name buffer up to its terminator.\<close>

lemma name_matches_terminated: "name_matches (e @ 0 # xs) n = name_matches (e @ [0]) n"
proof (induction e arbitrary: n)
  case Nil
  then show ?case by (cases n) auto
next
  case (Cons c e)
  then show ?case by (cases n) auto
qed

lemma dir_lookup_loop_terminated:
  "dir_lookup_loop i (e @ 0 # xs) offs de s = dir_lookup_loop i (e @ [0]) offs de s"
  by (induction offs arbitrary: de s) (simp_all add: name_matches_terminated [of e xs] cong: if_cong)

lemma dir_lookup_terminated: "dir_lookup i (e @ 0 # xs) s = dir_lookup i (e @ [0]) s"
  by (simp add: dir_lookup_def dir_lookup_loop_terminated [of i e xs] cong: if_cong)

section \<open>The walk\<close>

declare namex_loop.simps(2) [simp del]

text \<open>The reference: the directories named by the elements one after the other; for the parent, all
  but the last element.\<close>

fun walk :: "bool \<Rightarrow> inode \<Rightarrow> u8 list list \<Rightarrow> fs \<Rightarrow> (inode option \<times> fs) outcome" where
  "walk is_parent ip [] s =
     (if is_parent then bindR (icache_put ip s) (\<lambda>s. Inr (None, s)) else Inr (Some ip, s))"
| "walk is_parent ip (e # es) s =
     bindR (inode_lock ip s) (\<lambda>s.
       bindR (get_idata (ino_index ip) s) (\<lambda>x.
         if di_type (id_dinode x) \<noteq> Directory
         then bindR (icache_put ip s) (\<lambda>s. Inr (None, s))
         else if is_parent \<and> es = [] then Inr (Some ip, s)
         else bindR (dir_lookup (ino_index ip) (e @ [0]) s) (\<lambda>(r, s).
           bindR (icache_put ip s) (\<lambda>s.
             case r of Some nxt \<Rightarrow> walk is_parent nxt es s | None \<Rightarrow> Inr (None, s)))))"

definition walk_from :: "inode option \<Rightarrow> u8 list \<Rightarrow> bool \<Rightarrow> fs \<Rightarrow> (inode option \<times> fs) outcome" where
  "walk_from cwd path is_parent s =
     bindR (if hd path = SLASH then icache_get ROOTDEV ROOTINUM s
            else bindR (unwrap cwd) (\<lambda>ip. inode_clone ip s)) (\<lambda>(ip, s).
       walk is_parent ip (path_elems path) s)"

definition drop_name :: "(inode option \<times> u8 list \<times> fs) outcome \<Rightarrow> (inode option \<times> fs) outcome" where
  "drop_name r = bindR r (\<lambda>(x, _, s). Inr (x, s))"

lemma drop_name_simps [simp]:
  "drop_name (Inr (x, n, s)) = Inr (x, s)"
  "drop_name (bindR r f) = bindR r (\<lambda>y. drop_name (f y))"
  by (simp_all add: drop_name_def bindR_assoc)

text \<open>One turn of the loop on an element, with \<open>cur\<close> and \<open>name\<close> after it.\<close>

lemma namex_loop_elem:
  fixes pre a e c y ys name
  defines "path \<equiv> pre @ replicate a SLASH @ e @ replicate c SLASH @ y # ys"
    and "cur \<equiv> length (pre @ replicate a SLASH @ e @ replicate c SLASH)" and "name1 \<equiv> e @ 0 # drop (Suc (length e)) name"
  assumes e: "e \<noteq> []" "SLASH \<notin> set e" "0 \<notin> set e" "length e < length name" and y: "y \<noteq> SLASH" "c = 0 \<longrightarrow> y = 0"
  shows "namex_loop (Suc f) path is_parent (length pre) name ip s =
    bindR (inode_lock ip s) (\<lambda>s.
      bindR (get_idata (ino_index ip) s) (\<lambda>x.
        if di_type (id_dinode x) \<noteq> Directory
        then bindR (icache_put ip s) (\<lambda>s. Inr (None, name1, s))
        else if is_parent \<and> path_elems (y # ys) = [] then Inr (Some ip, name1, s)
        else bindR (dir_lookup (ino_index ip) (e @ [0]) s) (\<lambda>(r, s).
          bindR (icache_put ip s) (\<lambda>s.
            case r of Some nxt \<Rightarrow> namex_loop f path is_parent cur name1 nxt s | None \<Rightarrow> Inr (None, name1, s)))))"
proof -
  have skip: "skip_path path (length pre) name = Inr (cur, name1)"
    using skip_path_element_spec [of e name y c pre a ys] e y
    by (simp add: path_def cur_def name1_def add.assoc)
  have pos: "cur \<noteq> 0" using e(1) by (simp add: cur_def)
  have here: "idx_get path cur = Inr y" by (simp add: path_def cur_def idx_get_def nth_append)
  have y0: "y = 0 \<longleftrightarrow> path_elems (y # ys) = []" using y(1) path_elems_ne [of y ys] by auto
  have look: "dir_lookup i name1 s = dir_lookup i (e @ [0]) s" for i s
    unfolding name1_def by (rule dir_lookup_terminated)
  show ?thesis unfolding namex_loop.simps skip using pos here y0 by (auto simp: look intro!: bindR_cong)
qed

lemma namex_loop_walks:
  assumes "0 \<in> set xs" "\<forall>e\<in>set (path_elems xs). length e < length name" "length (path_elems xs) < fuel"
  shows "drop_name (namex_loop fuel (pre @ xs) is_parent (length pre) name ip s) =
     walk is_parent ip (path_elems xs) s"
  using assms
proof (induction "path_elems xs" arbitrary: xs pre name ip s fuel)
  case Nil
  then obtain f where f: "fuel = Suc f" by (cases fuel) auto
  from Nil.prems(1) show ?case
  proof (cases rule: path_cases)
    case (none a ys)
    then show ?thesis using f skip_path_end [of pre a ys name] by (simp add: namex_loop.simps(2))
  qed (use Nil.hyps in simp)
next
  case (Cons e0 es)
  obtain f where f: "fuel = Suc f" using Cons.prems by (cases fuel) auto
  from Cons.prems(1) show ?case
  proof (cases rule: path_cases)
    case (elem a e c y ys)
    let ?pre = "pre @ replicate a SLASH @ e @ replicate c SLASH" and ?name = "e @ 0 # drop (Suc (length e)) name"
    have es: "es = path_elems (y # ys)" using Cons.hyps(2) elem(8) by simp
    have len: "length e < length name" using Cons.prems(2) elem(8) by simp
    have path: "pre @ xs = ?pre @ y # ys" using elem(1) by simp
    have IH: "drop_name (namex_loop f (pre @ xs) is_parent (length ?pre) ?name nxt s) = walk is_parent nxt es s" for nxt s
      unfolding path es
      by (rule Cons.hyps(1) [OF es elem(7)]) (use Cons.prems(2,3) elem(8) f len in auto)
    show ?thesis
      unfolding f elem(8) es [symmetric]
      unfolding elem(1) namex_loop_elem [OF elem(2-4) len elem(5,6)] es [symmetric] using IH [unfolded elem(1)]
      by (auto split: option.splits intro!: bindR_cong)
  qed (use Cons.hyps(2) in simp)
qed

text \<open>The name buffer ends with the last element in it.\<close>

lemma namex_loop_name:
  assumes "0 \<in> set xs" "\<forall>e\<in>set (path_elems xs). length e < length name"
    "namex_loop fuel (pre @ xs) is_parent (length pre) name ip s = Inr (Some ip', name', s')"
  shows "takeWhile (\<lambda>c. c \<noteq> 0) name' =
     (if path_elems xs = [] then takeWhile (\<lambda>c. c \<noteq> 0) name else last (path_elems xs))"
  using assms
proof (induction "path_elems xs" arbitrary: xs pre name ip s fuel)
  case Nil
  obtain f where f: "fuel = Suc f" using Nil.prems(3) by (cases fuel) auto
  from Nil.prems(1) show ?case
  proof (cases rule: path_cases)
    case (none a ys)
    then show ?thesis using Nil f skip_path_end [of pre a ys name]
      by (auto simp: namex_loop.simps(2) outcome_simps split: if_splits)
  qed (use Nil.hyps in simp)
next
  case (Cons e0 es)
  obtain f where f: "fuel = Suc f" using Cons.prems(3) by (cases fuel) auto
  from Cons.prems(1) show ?case
  proof (cases rule: path_cases)
    case (elem a e c y ys)
    let ?pre = "pre @ replicate a SLASH @ e @ replicate c SLASH" and ?name = "e @ 0 # drop (Suc (length e)) name"
    have es: "es = path_elems (y # ys)" using Cons.hyps(2) elem(8) by simp
    have len: "length e < length name" using Cons.prems(2) elem(8) by simp
    have lname: "length ?name = length name" using len by simp
    have path: "pre @ xs = ?pre @ y # ys" using elem(1) by simp
    have tw: "takeWhile (\<lambda>c. c \<noteq> 0) ?name = e" using elem(4) by (simp add: takeWhile_append)
    have IH: "takeWhile (\<lambda>c. c \<noteq> 0) name' = (if es = [] then e else last es)"
      if "namex_loop f (pre @ xs) is_parent (length ?pre) ?name nxt s = Inr (Some ip', name', s')" for nxt s
      using Cons.hyps(1) [OF es elem(7), of ?name f ?pre nxt s] that Cons.prems(2) elem(8)
      unfolding path es tw lname by auto
    have "name' = ?name \<and> es = [] \<or> (\<exists>nxt s. namex_loop f (pre @ xs) is_parent (length ?pre) ?name nxt s = Inr (Some ip', name', s'))"
      using Cons.prems(3) unfolding f elem(1) namex_loop_elem [OF elem(2-4) len elem(5,6)] es [symmetric]
      by (auto simp: outcome_simps split: if_splits option.splits)
    then show ?thesis unfolding elem(8) es [symmetric] using IH tw by auto
  qed (use Cons.hyps(2) in simp)
qed

lemma length_split_on: "length (filter (\<lambda>e. e \<noteq> []) (split_on c xs)) \<le> length xs"
proof (induction xs)
  case (Cons x xs)
  show ?case
  proof (cases "split_on c xs")
    case (Cons y ys)
    then show ?thesis using Cons.IH by (auto split: if_splits)
  qed simp
qed simp

lemma length_path_elems: "length (path_elems path) \<le> length path"
  using length_split_on [of SLASH "takeWhile (\<lambda>c. c \<noteq> 0) path"] length_takeWhile_le [of "\<lambda>c. c \<noteq> 0" path]
  unfolding path_elems_def by linarith

section \<open>Properties\<close>

text \<open>C37. A path walk visits the elements of the path: for a terminated path whose elements fit into
  the name buffer, \<^verbatim>\<open>namex\<close> ends and does, on every outcome, what walking the list of the
  elements between the slashes does, from the root for a path that starts with a slash and from the
  working directory otherwise; when it succeeds, the name buffer holds the last element.\<close>

theorem namex_walks_path:
  assumes "0 \<in> set path" "\<forall>e\<in>set (path_elems path). length e < length name"
  shows "drop_name (namex cwd path name is_parent s) = walk_from cwd path is_parent s \<and>
     (\<forall>ip name' s'. namex cwd path name is_parent s = Inr (Some ip, name', s') \<longrightarrow> path_elems path \<noteq> [] \<longrightarrow>
        takeWhile (\<lambda>c. c \<noteq> 0) name' = last (path_elems path))"
proof -
  have ne: "idx_get path 0 = Inr (hd path)" using assms(1) by (cases path) (auto simp: idx_get_def)
  have loop: "drop_name (namex_loop (Suc (length path)) path is_parent 0 name ip s) = walk is_parent ip (path_elems path) s" for ip s
    using namex_loop_walks [OF assms, of "Suc (length path)" "[]"] length_path_elems [of path] by simp
  have "drop_name (namex cwd path name is_parent s) = walk_from cwd path is_parent s"
    by (auto simp: namex_def walk_from_def ne loop split_beta intro!: bindR_cong)
  moreover have "takeWhile (\<lambda>c. c \<noteq> 0) name' = last (path_elems path)"
    if "namex cwd path name is_parent s = Inr (Some ip, name', s')" "path_elems path \<noteq> []" for ip name' s'
    using that namex_loop_name [OF assms, of "Suc (length path)" "[]" is_parent _ _ ip name' s']
    by (auto simp: namex_def ne outcome_simps)
  ultimately show ?thesis by blast
qed

text \<open>A file system with an empty directory in slot 3 of the inode cache.\<close>

definition one_dir :: fs where
  "one_dir = (fs_new (\<lambda>_. replicate BSIZE 0))\<lparr>
     fs_meta := (replicate NINODE inode_meta_new)[3 := \<lparr>im_dev = 1, im_blockno = 0, im_inum = 5, im_refs = 1\<rparr>],
     fs_data := (replicate NINODE inode_data_new)[3 :=
       \<lparr>id_valid = True, id_dev = 1, id_inum = 5, id_dinode = dinode_new\<lparr>di_type := Directory, di_nlink := 1\<rparr>\<rparr>]\<rparr>"

theorem namex_walks_path_witness:
  "path_elems [97, 47, 47, 98, 0] = [[97], [98]] \<and>
   drop_name (namex (Some \<lparr>ino_dev = 1, ino_inum = 5, ino_index = 3\<rparr>) [97, 47, 47, 98, 0] (replicate 14 0) False one_dir) =
     Inr (None, one_dir)"
proof -
  have e: "path_elems [97, 47, 47, 98, 0] = [[97], [98]]" by (simp add: path_elems_def SLASH_def)
  have "walk_from (Some \<lparr>ino_dev = 1, ino_inum = 5, ino_index = 3\<rparr>) [97, 47, 47, 98, 0] False one_dir = Inr (None, one_dir)"
    by (simp add: walk_from_def e SLASH_def one_dir_def inode_clone_def set_refs_def usize_inc_def usize_dec_def inode_lock_def
        get_idata_def dir_lookup_def entry_offsets_def icache_put_def dinode_new_def fs_new_def NINODE_def DE_SIZE_def DIRSIZ_def)
  then show ?thesis
    using namex_walks_path [of "[97, 47, 47, 98, 0]" "replicate 14 0" "Some \<lparr>ino_dev = 1, ino_inum = 5, ino_index = 3\<rparr>" False one_dir] e
    by simp
qed

end
