(* ===== verification/Rx_Lock.thy ===== *)
theory Rx_Lock
  imports Rx_Prelude
begin

text \<open>
  Interrupt masking and spin locks: the status register functions of
  \<^verbatim>\<open>arch/riscv/register/sstatus.rs\<close>, the nesting of \<^verbatim>\<open>push_off\<close> and \<^verbatim>\<open>pop_off\<close> in \<^verbatim>\<open>process/cpu.rs\<close>
  and \<^verbatim>\<open>lock/mutex.rs\<close>. A hart is its \<^verbatim>\<open>CPU\<close> record with its status register. The atomic exchange
  of a lock and the store of its owner are one step.
\<close>

section \<open>The status register\<close>

definition SPP :: usize where "SPP = push_bit 8 1"
definition SPIE :: usize where "SPIE = push_bit 5 1"
definition SIE :: usize where "SIE = push_bit 1 1"

record hart =
  c_process :: "nat option"
  c_noff :: nat
  c_intena :: bool
  c_sstatus :: usize

definition is_from_supervisor :: "hart \<Rightarrow> bool" where
  "is_from_supervisor h \<longleftrightarrow> c_sstatus h AND SPP \<noteq> 0"

definition is_from_user :: "hart \<Rightarrow> bool" where
  "is_from_user h \<longleftrightarrow> c_sstatus h AND SPP = 0"

definition intr_on :: "hart \<Rightarrow> hart" where
  "intr_on h = h\<lparr>c_sstatus := c_sstatus h OR SIE\<rparr>"

definition intr_off :: "hart \<Rightarrow> hart" where
  "intr_off h = h\<lparr>c_sstatus := c_sstatus h AND NOT SIE\<rparr>"

definition intr_get :: "hart \<Rightarrow> bool" where
  "intr_get h \<longleftrightarrow> c_sstatus h AND SIE \<noteq> 0"

definition clear_spp :: "usize \<Rightarrow> usize" where
  "clear_spp st = st AND NOT SPP"

definition user_intr_on :: "usize \<Rightarrow> usize" where
  "user_intr_on st = st OR SPIE"

definition cpu_new :: hart where
  "cpu_new = \<lparr>c_process = None, c_noff = 0, c_intena = False, c_sstatus = 0\<rparr>"

definition push_off :: "hart \<Rightarrow> hart outcome" where
  "push_off h =
     (let old_enable = intr_get h;
          h = intr_off h;
          h = (if c_noff h = 0 then h\<lparr>c_intena := old_enable\<rparr> else h) in
      bindR (usize_inc (c_noff h)) (\<lambda>n. Inr (h\<lparr>c_noff := n\<rparr>)))"

definition pop_off :: "hart \<Rightarrow> hart outcome" where
  "pop_off h =
     (if intr_get h then Inl PopOffEnabled
      else if c_noff h = 0 then Inl PopOffMismatch
      else let h = h\<lparr>c_noff := c_noff h - 1\<rparr> in
        Inr (if c_noff h = 0 \<and> c_intena h then intr_on h else h))"

section \<open>Spin locks\<close>

record mutex =
  mx_lock :: bool
  mx_cpu :: int

definition mutex_new :: mutex where
  "mutex_new = \<lparr>mx_lock = False, mx_cpu = - 1\<rparr>"

definition holding :: "nat \<Rightarrow> mutex \<Rightarrow> bool" where
  "holding me m \<longleftrightarrow> mx_lock m \<and> mx_cpu m = int me"

text \<open>\<^verbatim>\<open>lock\<close> first masks interrupts and checks for a lock by the same hart, then repeats
  \<^verbatim>\<open>try_lock_weak\<close> until it succeeds; a weak exchange may also fail on a free lock.\<close>

definition lock_enter :: "nat \<Rightarrow> mutex \<Rightarrow> hart \<Rightarrow> hart outcome" where
  "lock_enter me m h =
     bindR (push_off h) (\<lambda>h. if holding me m then Inl MutexReacquire else Inr h)"

definition try_lock_weak :: "bool \<Rightarrow> nat \<Rightarrow> mutex \<Rightarrow> mutex option" where
  "try_lock_weak spurious me m =
     (if \<not> mx_lock m \<and> \<not> spurious then Some \<lparr>mx_lock = True, mx_cpu = int me\<rparr> else None)"

definition try_lock :: "nat \<Rightarrow> mutex \<Rightarrow> hart \<Rightarrow> (mutex option \<times> hart) outcome" where
  "try_lock me m h =
     bindR (push_off h) (\<lambda>h.
       if \<not> mx_lock m then Inr (Some \<lparr>mx_lock = True, mx_cpu = int me\<rparr>, h)
       else bindR (pop_off h) (\<lambda>h. Inr (None, h)))"

definition force_unlock :: "nat \<Rightarrow> mutex \<Rightarrow> hart \<Rightarrow> (mutex \<times> hart) outcome" where
  "force_unlock me m h =
     (if \<not> holding me m then Inl MutexNotHeld
      else let m = m\<lparr>mx_cpu := - 1\<rparr>; m = m\<lparr>mx_lock := False\<rparr> in
        bindR (pop_off h) (\<lambda>h. Inr (m, h)))"

section \<open>Masking interrupts\<close>

lemma bit_SIE: "bit SIE n \<longleftrightarrow> n = 1"
  by (auto simp: SIE_def bit_2_iff)

lemma SIE_bit: "x AND SIE \<noteq> 0 \<longleftrightarrow> bit x 1"
proof -
  have "x AND SIE = (if bit x 1 then SIE else 0)"
    by (rule bit_word_eqI) (auto simp: bit_SIE bit_and_iff)
  moreover have "SIE \<noteq> 0" using bit_SIE [of 1] by auto
  ultimately show ?thesis by simp
qed

lemma intr_get_bit: "intr_get h \<longleftrightarrow> bit (c_sstatus h) 1"
  by (simp add: intr_get_def SIE_bit)

lemma intr_get_off [simp]: "\<not> intr_get (intr_off h)"
  by (simp add: intr_get_bit intr_off_def bit_SIE [unfolded One_nat_def] bit_and_iff bit_not_iff)

lemma intr_get_on [simp]: "intr_get (intr_on h)"
  by (simp add: intr_get_bit intr_on_def bit_SIE [unfolded One_nat_def] bit_or_iff)

lemma intr_on_off: "intr_get h \<Longrightarrow> intr_on (intr_off h) = h"
proof -
  assume "intr_get h"
  then have "(c_sstatus h AND NOT SIE) OR SIE = c_sstatus h"
    by (intro bit_word_eqI)
      (auto simp: intr_get_bit bit_SIE bit_or_iff bit_and_iff bit_not_iff)
  then show ?thesis by (simp add: intr_on_def intr_off_def)
qed

lemma intr_off_idle: "\<not> intr_get h \<Longrightarrow> intr_off h = h"
proof -
  assume "\<not> intr_get h"
  then have "c_sstatus h AND NOT SIE = c_sstatus h"
    by (intro bit_word_eqI)
      (auto simp: intr_get_bit bit_SIE bit_and_iff bit_not_iff)
  then show ?thesis by (simp add: intr_off_def)
qed

lemma intr_off_fields [simp]:
  "c_noff (intr_off h) = c_noff h" "c_intena (intr_off h) = c_intena h" "c_process (intr_off h) = c_process h"
  by (simp_all add: intr_off_def)

lemma intr_on_fields [simp]:
  "c_noff (intr_on h) = c_noff h" "c_intena (intr_on h) = c_intena h" "c_process (intr_on h) = c_process h"
  by (simp_all add: intr_on_def)

lemma intr_get_noff [simp]: "intr_get (h\<lparr>c_noff := n\<rparr>) = intr_get h"
  "intr_get (h\<lparr>c_intena := b\<rparr>) = intr_get h" "intr_get (h\<lparr>c_process := p\<rparr>) = intr_get h"
  by (simp_all add: intr_get_def)

text \<open>A hart inside a critical section has interrupts off; outside, it keeps no record of the
  flag but the flag itself.\<close>

definition hart_ok :: "hart \<Rightarrow> bool" where
  "hart_ok h \<longleftrightarrow> c_noff h < 2 ^ 63 \<and> (0 < c_noff h \<longrightarrow> \<not> intr_get h)"

text \<open>Whether interrupts are on once all sections are left.\<close>

definition base_enabled :: "hart \<Rightarrow> bool" where
  "base_enabled h = (if c_noff h = 0 then intr_get h else c_intena h)"

lemma push_off_spec:
  assumes "hart_ok h"
  shows "\<exists>h'. push_off h = Inr h' \<and> c_noff h' = c_noff h + 1 \<and> \<not> intr_get h' \<and>
    base_enabled h' = base_enabled h \<and> c_process h' = c_process h"
  using assms by (simp add: push_off_def Let_def usize_inc_def hart_ok_def base_enabled_def)

lemma pop_off_spec:
  assumes "hart_ok h" "0 < c_noff h"
  shows "\<exists>h'. pop_off h = Inr h' \<and> c_noff h' = c_noff h - 1 \<and> hart_ok h' \<and>
    base_enabled h' = base_enabled h \<and> c_process h' = c_process h"
  using assms by (auto simp: pop_off_def Let_def hart_ok_def base_enabled_def)

lemma pop_push:
  assumes "hart_ok h" "push_off h = Inr h1"
  shows "\<exists>h2. pop_off h1 = Inr h2 \<and> c_noff h2 = c_noff h \<and> c_sstatus h2 = c_sstatus h"
proof (cases "c_noff h = 0")
  case True
  then have h1: "h1 = (intr_off h)\<lparr>c_intena := intr_get h, c_noff := 1\<rparr>"
    using assms(2) by (simp add: push_off_def Let_def usize_inc_def)
  show ?thesis
  proof (cases "intr_get h")
    case True
    from intr_on_off [OF True] have "c_sstatus (intr_on (intr_off h)) = c_sstatus h" by simp
    then show ?thesis using True h1 \<open>c_noff h = 0\<close>
      by (simp add: pop_off_def Let_def intr_on_def)
  next
    case False
    then show ?thesis using h1 True intr_off_idle [OF False] by (simp add: pop_off_def Let_def)
  qed
next
  case False
  then have off: "\<not> intr_get h" using assms(1) by (simp add: hart_ok_def)
  have "h1 = h\<lparr>c_noff := c_noff h + 1\<rparr>"
    using assms False intr_off_idle [OF off]
    by (simp add: push_off_def Let_def usize_inc_def hart_ok_def)
  then show ?thesis using False off by (simp add: pop_off_def Let_def)
qed

text \<open>Any number of nested sections.\<close>

primrec push_n :: "nat \<Rightarrow> hart \<Rightarrow> hart outcome" where
  "push_n 0 h = Inr h"
| "push_n (Suc n) h = bindR (push_off h) (push_n n)"

primrec pop_n :: "nat \<Rightarrow> hart \<Rightarrow> hart outcome" where
  "pop_n 0 h = Inr h"
| "pop_n (Suc n) h = bindR (pop_off h) (pop_n n)"

lemma pop_n_Suc: "pop_n (Suc n) h = bindR (pop_n n h) pop_off"
proof (induction n arbitrary: h)
  case 0
  show ?case by (cases "pop_off h") simp_all
next
  case (Suc n)
  have "pop_n (Suc (Suc n)) h = bindR (pop_off h) (pop_n (Suc n))" by simp
  also have "\<dots> = bindR (pop_off h) (\<lambda>h. bindR (pop_n n h) pop_off)" using Suc by presburger
  also have "\<dots> = bindR (pop_n (Suc n) h) pop_off" by (simp add: bindR_assoc)
  finally show ?case .
qed

lemma push_n_ok:
  assumes "hart_ok h" "c_noff h + n < 2 ^ 63"
  shows "\<exists>h'. push_n n h = Inr h' \<and> c_noff h' = c_noff h + n \<and> hart_ok h' \<and>
    (0 < n \<longrightarrow> \<not> intr_get h') \<and> base_enabled h' = base_enabled h"
  using assms
proof (induction n arbitrary: h)
  case (Suc n)
  obtain h1 where h1: "push_off h = Inr h1" "c_noff h1 = c_noff h + 1" "\<not> intr_get h1"
    "base_enabled h1 = base_enabled h"
    using push_off_spec [OF Suc.prems(1)] by blast
  have "hart_ok h1" "c_noff h1 + n < 2 ^ 63" using h1 Suc.prems(2) by (simp_all add: hart_ok_def)
  from Suc.IH [OF this] obtain h' where "push_n n h1 = Inr h'" "c_noff h' = c_noff h1 + n" "hart_ok h'"
    "base_enabled h' = base_enabled h1" by blast
  with h1 show ?case by (auto simp: hart_ok_def)
qed simp

text \<open>Inside a section only the depth changes.\<close>

lemma push_n_inner:
  "0 < c_noff h \<Longrightarrow> hart_ok h \<Longrightarrow> c_noff h + n < 2 ^ 63 \<Longrightarrow>
   push_n n h = Inr (h\<lparr>c_noff := c_noff h + n\<rparr>)"
proof (induction n arbitrary: h)
  case (Suc n)
  have off: "\<not> intr_get h" using Suc.prems by (simp add: hart_ok_def)
  then have "push_off h = Inr (h\<lparr>c_noff := c_noff h + 1\<rparr>)"
    using Suc.prems intr_off_idle [OF off] by (simp add: push_off_def Let_def usize_inc_def)
  then show ?case using Suc off by (simp add: hart_ok_def)
qed simp

lemma pop_n_inner:
  "0 < c_noff h \<Longrightarrow> \<not> intr_get h \<Longrightarrow> pop_n n (h\<lparr>c_noff := c_noff h + n\<rparr>) = Inr h"
  by (induction n) (simp_all add: pop_off_def Let_def)

lemma pop_n_push_n:
  assumes "hart_ok h" "c_noff h + n < 2 ^ 63"
  shows "\<exists>h' h''. push_n n h = Inr h' \<and> pop_n n h' = Inr h'' \<and>
    c_noff h'' = c_noff h \<and> c_sstatus h'' = c_sstatus h"
proof (cases n)
  case (Suc m)
  obtain h1 where h1: "push_off h = Inr h1" "c_noff h1 = c_noff h + 1" "\<not> intr_get h1"
    using push_off_spec [OF assms(1)] by blast
  have "hart_ok h1" using h1 assms(2) Suc by (simp add: hart_ok_def)
  then have "push_n n h = Inr (h1\<lparr>c_noff := c_noff h1 + m\<rparr>)"
    using push_n_inner [of h1 m] h1 assms(2) Suc by simp
  moreover obtain h2 where "pop_off h1 = Inr h2" "c_noff h2 = c_noff h" "c_sstatus h2 = c_sstatus h"
    using pop_push [OF assms(1) h1(1)] by blast
  moreover have "pop_n n (h1\<lparr>c_noff := c_noff h1 + m\<rparr>) = bindR (Inr h1) pop_off"
    using pop_n_inner [of h1 m] h1 Suc pop_n_Suc [of m] by simp
  ultimately show ?thesis by simp
qed simp

section \<open>Mutual exclusion\<close>

text \<open>Harts that use one lock. Each is outside, waiting after \<open>lock_enter\<close>, or inside the
  section, and the harts move in any order.\<close>

datatype where_at = Outside | Waiting | Inside

record lock_sys =
  ls_mutex :: mutex
  ls_hart :: "nat \<Rightarrow> hart"
  ls_at :: "nat \<Rightarrow> where_at"

inductive lock_step :: "lock_sys \<Rightarrow> lock_sys \<Rightarrow> bool" where
  enter: "ls_at s i = Outside \<Longrightarrow> lock_enter i (ls_mutex s) (ls_hart s i) = Inr h \<Longrightarrow>
    lock_step s (s\<lparr>ls_hart := (ls_hart s)(i := h), ls_at := (ls_at s)(i := Waiting)\<rparr>)"
| acquire: "ls_at s i = Waiting \<Longrightarrow> try_lock_weak spurious i (ls_mutex s) = Some m \<Longrightarrow>
    lock_step s (s\<lparr>ls_mutex := m, ls_at := (ls_at s)(i := Inside)\<rparr>)"
| release: "ls_at s i = Inside \<Longrightarrow> force_unlock i (ls_mutex s) (ls_hart s i) = Inr (m, h) \<Longrightarrow>
    lock_step s (s\<lparr>ls_mutex := m, ls_hart := (ls_hart s)(i := h), ls_at := (ls_at s)(i := Outside)\<rparr>)"

inductive lock_reach :: "lock_sys \<Rightarrow> bool" where
  start: "\<forall>i. hart_ok (hs i) \<and> c_noff (hs i) = 0 \<Longrightarrow>
    lock_reach \<lparr>ls_mutex = mutex_new, ls_hart = hs, ls_at = (\<lambda>_. Outside)\<rparr>"
| step: "lock_reach s \<Longrightarrow> lock_step s t \<Longrightarrow> lock_reach t"

inductive_cases lock_stepE: "lock_step s t"

definition lock_inv :: "lock_sys \<Rightarrow> bool" where
  "lock_inv s \<longleftrightarrow>
     (\<forall>i. ls_at s i = Inside \<longleftrightarrow> holding i (ls_mutex s)) \<and>
     (\<forall>i. hart_ok (ls_hart s i) \<and> c_noff (ls_hart s i) = (if ls_at s i = Outside then 0 else 1)) \<and>
     (mx_lock (ls_mutex s) \<longrightarrow> 0 \<le> mx_cpu (ls_mutex s))"

lemma lock_invD:
  assumes "lock_inv s"
  shows "ls_at s i = Inside \<longleftrightarrow> holding i (ls_mutex s)" "hart_ok (ls_hart s i)"
    "c_noff (ls_hart s i) = (if ls_at s i = Outside then 0 else 1)"
  using assms by (auto simp: lock_inv_def)

lemma enter_inv:
  assumes inv: "lock_inv s" and at: "ls_at s i = Outside"
    and h: "lock_enter i (ls_mutex s) (ls_hart s i) = Inr h"
  shows "lock_inv (s\<lparr>ls_hart := (ls_hart s)(i := h), ls_at := (ls_at s)(i := Waiting)\<rparr>)"
proof -
  obtain h' where h': "push_off (ls_hart s i) = Inr h'" "c_noff h' = 1" "\<not> intr_get h'"
    using push_off_spec [OF lock_invD(2) [OF inv, of i]] lock_invD(3) [OF inv, of i] at by auto
  then have "h = h'" using h by (simp add: lock_enter_def split: if_splits)
  then have "hart_ok h" "c_noff h = 1" using h' by (simp_all add: hart_ok_def)
  moreover have "\<not> holding i (ls_mutex s)" using lock_invD(1) [OF inv, of i] at by simp
  ultimately show ?thesis using inv at by (auto simp: lock_inv_def)
qed

lemma acquire_inv:
  assumes inv: "lock_inv s" and at: "ls_at s i = Waiting"
    and m: "try_lock_weak spurious i (ls_mutex s) = Some m"
  shows "lock_inv (s\<lparr>ls_mutex := m, ls_at := (ls_at s)(i := Inside)\<rparr>)"
proof -
  have "m = \<lparr>mx_lock = True, mx_cpu = int i\<rparr>" "\<not> mx_lock (ls_mutex s)"
    using m by (auto simp: try_lock_weak_def split: if_splits)
  moreover from this have "ls_at s j \<noteq> Inside" for j
    using lock_invD(1) [OF inv, of j] by (simp add: holding_def)
  ultimately show ?thesis using inv at by (auto simp: lock_inv_def holding_def)
qed

lemma release_inv:
  assumes inv: "lock_inv s" and at: "ls_at s i = Inside"
    and m: "force_unlock i (ls_mutex s) (ls_hart s i) = Inr (m, h)"
  shows "lock_inv (s\<lparr>ls_mutex := m, ls_hart := (ls_hart s)(i := h), ls_at := (ls_at s)(i := Outside)\<rparr>)"
proof -
  have one: "c_noff (ls_hart s i) = 1" using lock_invD(3) [OF inv, of i] at by simp
  obtain h' where "pop_off (ls_hart s i) = Inr h'" "c_noff h' = 0" "hart_ok h'"
    using pop_off_spec [OF lock_invD(2) [OF inv, of i]] one by auto
  with m have h: "c_noff h = 0" "hart_ok h" "\<not> mx_lock m"
    by (auto simp: force_unlock_def Let_def split: if_splits)
  have "ls_at s j \<noteq> Inside" if "j \<noteq> i" for j
    using lock_invD(1) [OF inv, of i] lock_invD(1) [OF inv, of j] at that by (auto simp: holding_def)
  with h inv show ?thesis by (auto simp: lock_inv_def holding_def)
qed

lemma lock_reach_inv: "lock_reach s \<Longrightarrow> lock_inv s"
proof (induction rule: lock_reach.induct)
  case (start hs)
  then show ?case by (auto simp: lock_inv_def holding_def mutex_new_def)
next
  case (step s t)
  from step.hyps(2) step.IH show ?case
    by (cases rule: lock_step.cases) (auto intro: enter_inv acquire_inv release_inv)
qed

text \<open>No hart panics in the lock code: the next call of every hart succeeds, or waits.\<close>

lemma lock_no_panic:
  assumes inv: "lock_inv s"
  shows "ls_at s i = Outside \<Longrightarrow> \<exists>h. lock_enter i (ls_mutex s) (ls_hart s i) = Inr h"
    "ls_at s i = Inside \<Longrightarrow> \<exists>m h. force_unlock i (ls_mutex s) (ls_hart s i) = Inr (m, h)"
proof -
  assume at: "ls_at s i = Outside"
  obtain h where "push_off (ls_hart s i) = Inr h" using push_off_spec [OF lock_invD(2) [OF inv]] by blast
  then show "\<exists>h. lock_enter i (ls_mutex s) (ls_hart s i) = Inr h"
    using lock_invD(1) [OF inv, of i] at by (simp add: lock_enter_def)
next
  assume at: "ls_at s i = Inside"
  then obtain h where "pop_off (ls_hart s i) = Inr h"
    using pop_off_spec [OF lock_invD(2) [OF inv, of i]] lock_invD(3) [OF inv, of i] by auto
  then show "\<exists>m h. force_unlock i (ls_mutex s) (ls_hart s i) = Inr (m, h)"
    using lock_invD(1) [OF inv, of i] at by (simp add: force_unlock_def Let_def)
qed

section \<open>Properties\<close>

text \<open>C28. The spin lock gives mutual exclusion and keeps interrupts off in the section: in every
  reachable state of any number of harts at most one is inside, it is the recorded owner and
  has interrupts disabled, and no call of \<^verbatim>\<open>lock\<close> or \<^verbatim>\<open>force_unlock\<close> in its turn panics.\<close>

theorem mutex_exclusion:
  assumes "lock_reach s"
  shows "(\<forall>i j. ls_at s i = Inside \<and> ls_at s j = Inside \<longrightarrow> i = j) \<and>
         (\<forall>i. ls_at s i = Inside \<longrightarrow> holding i (ls_mutex s) \<and> \<not> intr_get (ls_hart s i) \<and>
            (\<exists>m h. force_unlock i (ls_mutex s) (ls_hart s i) = Inr (m, h))) \<and>
         (\<forall>i. ls_at s i = Outside \<longrightarrow> (\<exists>h. lock_enter i (ls_mutex s) (ls_hart s i) = Inr h))"
proof -
  note inv = lock_reach_inv [OF assms]
  have "i = j" if "ls_at s i = Inside" "ls_at s j = Inside" for i j
    using lock_invD(1) [OF inv, of i] lock_invD(1) [OF inv, of j] that by (simp add: holding_def)
  moreover have "\<not> intr_get (ls_hart s i)" if "ls_at s i = Inside" for i
    using lock_invD(2,3) [OF inv, of i] that by (simp add: hart_ok_def)
  ultimately show ?thesis using lock_invD(1) [OF inv] lock_no_panic [OF inv] by blast
qed

theorem mutex_exclusion_witness:
  "\<exists>s. lock_reach s \<and> ls_at s 2 = Inside \<and> ls_at s 3 = Waiting \<and> \<not> intr_get (ls_hart s 2)"
proof -
  let ?s0 = "\<lparr>ls_mutex = mutex_new, ls_hart = (\<lambda>_. cpu_new), ls_at = (\<lambda>_. Outside)\<rparr>"
  have r0: "lock_reach ?s0"
    by (rule lock_reach.start) (simp add: cpu_new_def hart_ok_def)
  obtain h where h: "lock_enter 2 mutex_new cpu_new = Inr h" "lock_enter 3 mutex_new cpu_new = Inr h"
    by (simp add: lock_enter_def push_off_def cpu_new_def Let_def usize_inc_def holding_def mutex_new_def)
  let ?s1 = "?s0\<lparr>ls_hart := (ls_hart ?s0)(2 := h), ls_at := (ls_at ?s0)(2 := Waiting)\<rparr>"
  let ?s2 = "?s1\<lparr>ls_hart := (ls_hart ?s1)(3 := h), ls_at := (ls_at ?s1)(3 := Waiting)\<rparr>"
  let ?m = "\<lparr>mx_lock = True, mx_cpu = 2\<rparr>"
  let ?s3 = "?s2\<lparr>ls_mutex := ?m, ls_at := (ls_at ?s2)(2 := Inside)\<rparr>"
  have "lock_reach ?s1" by (rule lock_reach.step [OF r0 lock_step.enter]) (use h in simp_all)
  then have "lock_reach ?s2" by (rule lock_reach.step [OF _ lock_step.enter]) (use h in simp_all)
  then have "lock_reach ?s3"
    by (rule lock_reach.step [OF _ lock_step.acquire [where spurious = False]])
      (simp_all add: try_lock_weak_def mutex_new_def)
  moreover have "ls_at ?s3 2 = Inside" by simp
  with mutex_exclusion [OF \<open>lock_reach ?s3\<close>] have "\<not> intr_get (ls_hart ?s3 2)" by blast
  ultimately show ?thesis by (intro exI [of _ ?s3]) simp
qed

text \<open>C30. Critical sections nest: after any number of \<^verbatim>\<open>push_off\<close> interrupts are off, and the same
  number of \<^verbatim>\<open>pop_off\<close> succeeds and restores depth and status register exactly.\<close>

theorem push_pop_balanced:
  assumes "hart_ok h" "c_noff h + n < 2 ^ 63" "0 < n"
  shows "\<exists>h' h''. push_n n h = Inr h' \<and> \<not> intr_get h' \<and> pop_n n h' = Inr h'' \<and>
           c_noff h'' = c_noff h \<and> c_sstatus h'' = c_sstatus h"
  using pop_n_push_n [OF assms(1,2)] push_n_ok [OF assms(1,2)] assms(3) by auto

theorem push_pop_balanced_witness:
  "\<exists>h' h''. push_n 3 (intr_on cpu_new) = Inr h' \<and> \<not> intr_get h' \<and> pop_n 3 h' = Inr h'' \<and> intr_get h''"
proof -
  have "hart_ok (intr_on cpu_new)" "c_noff (intr_on cpu_new) + 3 < 2 ^ 63"
    by (simp_all add: hart_ok_def cpu_new_def)
  from push_pop_balanced [OF this] show ?thesis
    using intr_get_on [of cpu_new] by (auto simp: intr_get_def)
qed

end
