(* ===== verification/Rx_Proc.thy ===== *)
theory Rx_Proc
  imports Rx_Pagetable Rx_Lock
begin

text \<open>
  Processes: the records of \<^verbatim>\<open>process/process.rs\<close>, the table and its operations of
  \<^verbatim>\<open>process/manager.rs\<close> and the scheduler of \<^verbatim>\<open>process/cpu.rs\<close>. A process is named by its index in
  the table, which stands for its address; the channels processes sleep on, addresses of kernel
  objects in the code, are the objects. The table's locks are held through each operation.
\<close>

section \<open>Data\<close>

definition NPROC :: nat where "NPROC = 64"
definition NCPU :: nat where "NCPU = 4"
definition NFILE :: nat where "NFILE = 100"

datatype proc_state = Unused | Used | Sleeping | Runnable | Running | Zombie | Allocated

datatype chan = ChanNone | ChanProc nat | ChanPipeRead usize | ChanPipeWrite usize | ChanLog
  | ChanUart | ChanConsole | ChanSignal nat | ChanDisk | ChanBuf usize

record proc_meta =
  pm_state :: proc_state
  pm_chan :: chan
  pm_killed :: bool
  pm_xstate :: usize
  pm_pid :: usize

record kcontext =
  cx_ra :: usize
  cx_sp :: usize
  cx_s :: "usize list"

text \<open>Open files are named by their place in the table of file objects, the working directory by
  its inode.\<close>

record 'i proc_data =
  pd_kstack :: usize
  pd_size :: usize
  pd_pagetable :: "usize option"
  pd_trapframe :: usize
  pd_context :: kcontext
  pd_name :: "u8 list"
  pd_id :: nat
  pd_open_files :: "nat option list"
  pd_cwd :: "'i option"

record 'i process =
  pr_meta :: proc_meta
  pr_data :: "'i proc_data"

record 'i ptable =
  pt_proc :: "'i process list"
  pt_pids :: usize
  pt_init_proc :: "nat option"
  pt_wait_list :: "nat option list"
  pt_idx_pids :: "usize list"

definition proc_meta_new :: proc_meta where
  "proc_meta_new = \<lparr>pm_state = Unused, pm_chan = ChanNone, pm_killed = False, pm_xstate = 0, pm_pid = 0\<rparr>"

definition context_new :: kcontext where
  "context_new = \<lparr>cx_ra = 0, cx_sp = 0, cx_s = replicate 12 0\<rparr>"

definition proc_data_new :: "nat \<Rightarrow> 'i proc_data" where
  "proc_data_new pid = \<lparr>pd_kstack = 0, pd_size = 0, pd_pagetable = None, pd_trapframe = 0,
     pd_context = context_new, pd_name = replicate 16 0, pd_id = pid,
     pd_open_files = replicate NFILE None, pd_cwd = None\<rparr>"

definition process_new :: "nat \<Rightarrow> 'i process" where
  "process_new pid = \<lparr>pr_meta = proc_meta_new, pr_data = proc_data_new pid\<rparr>"

definition ptable_new :: "'i ptable" where
  "ptable_new = \<lparr>pt_proc = map process_new [0..<NPROC], pt_pids = 0, pt_init_proc = None,
     pt_wait_list = replicate NPROC None, pt_idx_pids = replicate NPROC (of_nat NPROC)\<rparr>"

section \<open>Access\<close>

definition get_proc :: "nat \<Rightarrow> 'i ptable \<Rightarrow> 'i process outcome" where
  "get_proc i t = idx_get (pt_proc t) i"

definition upd_meta :: "nat \<Rightarrow> (proc_meta \<Rightarrow> proc_meta) \<Rightarrow> 'i ptable \<Rightarrow> 'i ptable outcome" where
  "upd_meta i f t =
     bindR (get_proc i t) (\<lambda>p.
       Inr (t\<lparr>pt_proc := (pt_proc t)[i := p\<lparr>pr_meta := f (pr_meta p)\<rparr>]\<rparr>))"

definition upd_data :: "nat \<Rightarrow> ('i proc_data \<Rightarrow> 'i proc_data) \<Rightarrow> 'i ptable \<Rightarrow> 'i ptable outcome" where
  "upd_data i f t =
     bindR (get_proc i t) (\<lambda>p.
       Inr (t\<lparr>pt_proc := (pt_proc t)[i := p\<lparr>pr_data := f (pr_data p)\<rparr>]\<rparr>))"

definition set_state :: "proc_state \<Rightarrow> proc_meta \<Rightarrow> proc_meta" where
  "set_state st m = m\<lparr>pm_state := st\<rparr>"

definition proc_killed :: "nat \<Rightarrow> 'i ptable \<Rightarrow> bool outcome" where
  "proc_killed i t = bindR (get_proc i t) (\<lambda>p. Inr (pm_killed (pr_meta p)))"

definition set_killed :: "nat \<Rightarrow> bool \<Rightarrow> 'i ptable \<Rightarrow> 'i ptable outcome" where
  "set_killed i b t = upd_meta i (\<lambda>m. m\<lparr>pm_killed := b\<rparr>) t"

definition set_name :: "u8 list \<Rightarrow> 'i proc_data \<Rightarrow> 'i proc_data" where
  "set_name name d =
     (let e = min (length (pd_name d)) (length name) in
      d\<lparr>pd_name := take e name @ drop e (pd_name d)\<rparr>)"

section \<open>Kernel stacks and tables\<close>

definition kernel_stack :: "usize \<Rightarrow> usize outcome" where
  "kernel_stack pos =
     (let n = (unat pos + 1) * (unat STACK_SIZE + unat PGSIZE) in
      if n < 2 ^ 64 then sub_ck TRAPFRAME (of_nat n) else Inl Overflow)"

definition proc_init_one :: "nat \<Rightarrow> 'i ptable \<Rightarrow> 'i ptable outcome" where
  "proc_init_one pos t =
     bindR (kernel_stack (of_nat pos)) (\<lambda>ks.
       upd_data pos (\<lambda>d. d\<lparr>pd_open_files := replicate NFILE None, pd_kstack := ks\<rparr>) t)"

definition proc_init :: "'i ptable \<Rightarrow> 'i ptable outcome" where
  "proc_init t = foldR proc_init_one [0..<length (pt_proc t)] t"

text \<open>One page of a kernel stack mapped into the kernel page table.\<close>

definition map_stack_page :: "usize \<Rightarrow> nat \<times> nat \<Rightarrow> kmem \<Rightarrow> kmem outcome" where
  "map_stack_page kpt ij s =
     bindR (new_zeroed s) (\<lambda>(pa, s).
       bindR (kernel_stack (of_nat (fst ij))) (\<lambda>ks.
         bindR (add_ck ks (of_nat (snd ij) * PGSIZE)) (\<lambda>va.
           pt_kernel_map kpt va pa PGSIZE (PTE_R OR PTE_W) s)))"

definition proc_mapstacks :: "usize \<Rightarrow> kmem \<Rightarrow> kmem outcome" where
  "proc_mapstacks kpt s =
     foldR (map_stack_page kpt)
       (List.product [0..<NPROC] [0..<unat STACK_SIZE div unat PGSIZE]) s"

text \<open>The mappings of \<^verbatim>\<open>memory/mapping/kernel_map.rs\<close>; the end of the kernel text and the trampoline
  code are addresses from the linker.\<close>

definition kernel_regions :: "usize \<Rightarrow> usize \<Rightarrow> (usize \<times> usize \<times> usize outcome \<times> usize) list" where
  "kernel_regions etext trampoline =
     [(VIRT_TEST, VIRT_TEST, Inr PGSIZE, PTE_R OR PTE_W),
      (UART0, UART0, Inr PGSIZE, PTE_R OR PTE_W),
      (VIRTIO0, VIRTIO0, Inr PGSIZE, PTE_R OR PTE_W),
      (ECAM, ECAM, Inr 0x10000000, PTE_R OR PTE_W),
      (E1000_REGS, E1000_REGS, Inr 0x20000, PTE_R OR PTE_W),
      (CLINT, CLINT, Inr 0x10000, PTE_R OR PTE_W),
      (PLIC_BASE, PLIC_BASE, Inr 0x4000000, PTE_R OR PTE_W),
      (KERNEL_BASE, KERNEL_BASE, sub_ck etext KERNEL_BASE, PTE_R OR PTE_X),
      (etext, etext, sub_ck PHYSTOP etext, PTE_R OR PTE_W),
      (TRAMPOLINE, trampoline, Inr PGSIZE, PTE_R OR PTE_X)]"

definition kernel_map_region ::
  "usize \<Rightarrow> usize \<times> usize \<times> usize outcome \<times> usize \<Rightarrow> kmem \<Rightarrow> kmem outcome" where
  "kernel_map_region kpt = (\<lambda>(va, pa, size_of, perm) s.
     bindR size_of (\<lambda>sz. pt_kernel_map kpt va pa sz perm s))"

definition kernel_map :: "usize \<Rightarrow> usize \<Rightarrow> usize \<Rightarrow> kmem \<Rightarrow> kmem outcome" where
  "kernel_map kpt etext trampoline s =
     bindR (foldR (kernel_map_region kpt) (kernel_regions etext trampoline) s) (\<lambda>s.
       proc_mapstacks kpt s)"

section \<open>Allocation\<close>

definition alloc_pid :: "'i ptable \<Rightarrow> usize \<times> 'i ptable" where
  "alloc_pid t = (pt_pids t, t\<lparr>pt_pids := pt_pids t + 1\<rparr>)"

definition init_context :: "usize \<Rightarrow> 'i proc_data \<Rightarrow> 'i proc_data outcome" where
  "init_context fork_ret d =
     bindR (add_ck (pd_kstack d) STACK_SIZE) (\<lambda>sp.
       Inr (d\<lparr>pd_context := context_new\<lparr>cx_ra := fork_ret, cx_sp := sp\<rparr>\<rparr>))"

definition proc_pagetable :: "usize \<Rightarrow> usize \<Rightarrow> kmem \<Rightarrow> (usize option \<times> kmem) outcome" where
  "proc_pagetable trampoline trapframe s =
     bindR (unew s) (\<lambda>(pgt, s).
       bindR (map_pages pgt TRAMPOLINE trampoline PGSIZE (PTE_R OR PTE_X) s) (\<lambda>(ok, s).
         if \<not> ok then bindR (ufree pgt 0 s) (\<lambda>s. bindR (box_pt_drop pgt s) (\<lambda>s. Inr (None, s)))
         else bindR (map_pages pgt TRAPFRAME trapframe PGSIZE (PTE_R OR PTE_W) s) (\<lambda>(ok, s).
           if \<not> ok then bindR (ufree pgt 0 s) (\<lambda>s. bindR (box_pt_drop pgt s) (\<lambda>s. Inr (None, s)))
           else Inr (Some pgt, s))))"

fun find_state :: "(proc_state \<Rightarrow> bool) \<Rightarrow> 'i process list \<Rightarrow> nat \<Rightarrow> nat option" where
  "find_state P [] i = None"
| "find_state P (p # ps) i = (if P (pm_state (pr_meta p)) then Some i else find_state P ps (i + 1))"

text \<open>Assigning the field drops the table it held.\<close>

definition set_pagetable ::
  "nat \<Rightarrow> usize option \<Rightarrow> 'i ptable \<Rightarrow> kmem \<Rightarrow> ('i ptable \<times> kmem) outcome" where
  "set_pagetable i pgt t s =
     bindR (get_proc i t) (\<lambda>p.
       bindR (case pd_pagetable (pr_data p) of None \<Rightarrow> Inr s | Some old \<Rightarrow> box_pt_drop old s) (\<lambda>s.
         bindR (upd_data i (\<lambda>d. d\<lparr>pd_pagetable := pgt\<rparr>) t) (\<lambda>t. Inr (t, s))))"

definition alloc_proc ::
  "usize \<Rightarrow> usize \<Rightarrow> 'i ptable \<Rightarrow> kmem \<Rightarrow> (nat option \<times> 'i ptable \<times> kmem) outcome" where
  "alloc_proc trampoline fork_ret t s =
     (let (pid, t) = alloc_pid t in
      case find_state (\<lambda>st. st = Unused) (pt_proc t) 0 of
        None \<Rightarrow> Inr (None, t, s)
      | Some i \<Rightarrow>
          bindR (upd_meta i (\<lambda>m. set_state Allocated (m\<lparr>pm_pid := pid\<rparr>)) t) (\<lambda>t.
            bindR (new_zeroed s) (\<lambda>(tf, s).
              bindR (upd_data i (\<lambda>d. d\<lparr>pd_trapframe := tf\<rparr>) t) (\<lambda>t.
                bindR (proc_pagetable trampoline tf s) (\<lambda>(pgt, s).
                  bindR (set_pagetable i pgt t s) (\<lambda>(t, s).
                    bindR (get_proc i t) (\<lambda>p.
                      bindR (init_context fork_ret (pr_data p)) (\<lambda>d.
                        bindR (upd_data i (\<lambda>_. d) t) (\<lambda>t.
                          bindR (idx_set (pt_idx_pids t) (pd_id d) pid) (\<lambda>ix.
                            Inr (Some i, t\<lparr>pt_idx_pids := ix\<rparr>, s)))))))))))"

text \<open>The trapframe page is given back as a \<^verbatim>\<open>Trapframe\<close> of 288 bytes.\<close>

definition free_proc :: "nat \<Rightarrow> 'i ptable \<Rightarrow> kmem \<Rightarrow> ('i ptable \<times> kmem) outcome" where
  "free_proc i t s =
     bindR (get_proc i t) (\<lambda>p.
       bindR (ka_dealloc (pd_trapframe (pr_data p)) 288 s) (\<lambda>s.
         bindR (case pd_pagetable (pr_data p) of
             Some pgt \<Rightarrow>
               bindR (proc_free_pagetable pgt (pd_size (pr_data p)) s) (\<lambda>s. box_pt_drop pgt s)
           | None \<Rightarrow> Inr s) (\<lambda>s.
           bindR (upd_data i (\<lambda>d. d\<lparr>pd_pagetable := None, pd_size := 0\<rparr>) t) (\<lambda>t.
             bindR (upd_meta i (\<lambda>m. set_state Unused
                 (m\<lparr>pm_pid := 0, pm_chan := ChanNone, pm_killed := False, pm_xstate := 0\<rparr>)) t) (\<lambda>t.
               Inr (t, s))))))"

definition grow_proc ::
  "nat \<Rightarrow> usize \<Rightarrow> 'i ptable \<Rightarrow> kmem \<Rightarrow> ((string + unit) \<times> 'i ptable \<times> kmem) outcome" where
  "grow_proc i count t s =
     bindR (get_proc i t) (\<lambda>p.
       let sz = pd_size (pr_data p) in
       bindR (case pd_pagetable (pr_data p) of
           None \<Rightarrow> Inr (Some sz, s)
         | Some pgt \<Rightarrow>
             if sint count < 0 then
               if - (2 ^ 63) \<le> sint sz + sint count
               then bindR (udealloc pgt sz (sz + count) s) (\<lambda>(nsz, s). Inr (Some nsz, s))
               else Inl Overflow
             else if sint count = 0 then Inr (Some sz, s)
             else bindR (add_ck sz count) (\<lambda>new. ualloc pgt sz new s)) (\<lambda>(r, s).
         case r of
           None \<Rightarrow> Inr (Inl ''Fail to allocate virtual memory for user'', t, s)
         | Some nsz \<Rightarrow> bindR (upd_data i (\<lambda>d. d\<lparr>pd_size := nsz\<rparr>) t) (\<lambda>t. Inr (Inr (), t, s))))"

section \<open>File descriptors and trapframe\<close>

fun find_none :: "'a option list \<Rightarrow> nat \<Rightarrow> nat option" where
  "find_none [] i = None"
| "find_none (x # xs) i = (if x = None then Some i else find_none xs (i + 1))"

definition find_unallocated_fd :: "'i proc_data \<Rightarrow> string + nat" where
  "find_unallocated_fd d =
     (case find_none (pd_open_files d) 0 of
        Some fd \<Rightarrow> Inr fd
      | None \<Rightarrow> Inl ''Failed to find unallocated fd'')"

definition fd_alloc :: "nat \<Rightarrow> nat \<Rightarrow> 'i ptable \<Rightarrow> ((string + nat) \<times> 'i ptable) outcome" where
  "fd_alloc i file t =
     bindR (get_proc i t) (\<lambda>p.
       case find_unallocated_fd (pr_data p) of
         Inl e \<Rightarrow> Inr (Inl e, t)
       | Inr fd \<Rightarrow>
           bindR (upd_data i (\<lambda>d. d\<lparr>pd_open_files := (pd_open_files d)[fd := Some file]\<rparr>) t) (\<lambda>t.
             Inr (Inr fd, t)))"

text \<open>Offsets of the trapframe's fields.\<close>

definition TF_KERNEL_SATP :: nat where "TF_KERNEL_SATP = 0"
definition TF_KERNEL_SP :: nat where "TF_KERNEL_SP = 8"
definition TF_KERNEL_TRAP :: nat where "TF_KERNEL_TRAP = 16"
definition TF_EPC :: nat where "TF_EPC = 24"
definition TF_KERNEL_HARTID :: nat where "TF_KERNEL_HARTID = 32"
definition TF_SP :: nat where "TF_SP = 48"
definition TF_AX :: "nat \<Rightarrow> nat" where "TF_AX i = 112 + 8 * i"

definition tf_get :: "usize \<Rightarrow> nat \<Rightarrow> kmem \<Rightarrow> usize" where
  "tf_get tf off s = load64 (pmem s) (unat tf + off)"

definition tf_set :: "usize \<Rightarrow> nat \<Rightarrow> usize \<Rightarrow> kmem \<Rightarrow> kmem" where
  "tf_set tf off v s = s\<lparr>pmem := store64 (pmem s) (unat tf + off) v\<rparr>"

definition update_epc :: "usize \<Rightarrow> kmem \<Rightarrow> kmem outcome" where
  "update_epc tf s = bindR (add_ck (tf_get tf TF_EPC s) 4) (\<lambda>e. Inr (tf_set tf TF_EPC e s))"

text \<open>The kernel's page table register, trap entry and hart number come from the machine.\<close>

definition pdata_user_init ::
  "usize \<Rightarrow> usize \<Rightarrow> usize \<Rightarrow> 'i proc_data \<Rightarrow> kmem \<Rightarrow> kmem outcome" where
  "pdata_user_init satp user_trap hartid d s =
     (let tf = pd_trapframe d; s = tf_set tf TF_KERNEL_SATP satp s in
      bindR (add_ck (pd_kstack d) STACK_SIZE) (\<lambda>sp.
        Inr (tf_set tf TF_KERNEL_HARTID hartid
          (tf_set tf TF_KERNEL_TRAP user_trap (tf_set tf TF_KERNEL_SP sp s)))))"

section \<open>Scheduling\<close>

text \<open>The checks of \<^verbatim>\<open>sched\<close> before it switches to the scheduler's context.\<close>

definition sched :: "hart \<Rightarrow> proc_meta \<Rightarrow> unit outcome" where
  "sched h m =
     (if c_noff h \<noteq> 1 then Inl SchedManyLocks
      else if pm_state m = Running then Inl SchedRunning
      else if intr_get h then Inl SchedInterruptible
      else Inr ())"

text \<open>\<^verbatim>\<open>yielding\<close> and the part of \<^verbatim>\<open>sleep\<close> before the switch; the hart holds the lock of the process.\<close>

definition yielding :: "nat \<Rightarrow> hart \<Rightarrow> 'i ptable \<Rightarrow> 'i ptable outcome" where
  "yielding i h t =
     bindR (upd_meta i (set_state Runnable) t) (\<lambda>t.
       bindR (get_proc i t) (\<lambda>p.
         bindR (sched h (pr_meta p)) (\<lambda>_. Inr t)))"

definition proc_sleep :: "nat \<Rightarrow> chan \<Rightarrow> hart \<Rightarrow> 'i ptable \<Rightarrow> 'i ptable outcome" where
  "proc_sleep i ch h t =
     bindR (upd_meta i (\<lambda>m. set_state Sleeping (m\<lparr>pm_chan := ch\<rparr>)) t) (\<lambda>t.
       bindR (get_proc i t) (\<lambda>p.
         bindR (sched h (pr_meta p)) (\<lambda>_. Inr t)))"

text \<open>The part of \<^verbatim>\<open>sleep\<close> after the switch back.\<close>

definition proc_resume :: "nat \<Rightarrow> 'i ptable \<Rightarrow> 'i ptable outcome" where
  "proc_resume i t = upd_meta i (\<lambda>m. m\<lparr>pm_chan := ChanNone\<rparr>) t"

definition wake_one :: "chan \<Rightarrow> proc_meta \<Rightarrow> proc_meta" where
  "wake_one ch m = (if pm_state m = Sleeping \<and> pm_chan m = ch then m\<lparr>pm_state := Runnable\<rparr> else m)"

definition wake_up :: "nat option \<Rightarrow> chan \<Rightarrow> 'i ptable \<Rightarrow> 'i ptable" where
  "wake_up me ch t =
     t\<lparr>pt_proc := map (\<lambda>(i, p). if me = Some i then p else p\<lparr>pr_meta := wake_one ch (pr_meta p)\<rparr>)
         (zip [0..<length (pt_proc t)] (pt_proc t))\<rparr>"

text \<open>A process asleep on a channel.\<close>

definition slept_on :: "chan \<Rightarrow> 'i ptable \<Rightarrow> nat \<Rightarrow> bool" where
  "slept_on ch t j \<longleftrightarrow> j < length (pt_proc t) \<and>
     pm_state (pr_meta (pt_proc t ! j)) = Sleeping \<and> pm_chan (pr_meta (pt_proc t ! j)) = ch"

definition yield_proc :: "hart \<Rightarrow> 'i ptable \<Rightarrow> 'i ptable outcome" where
  "yield_proc h t =
     (case c_process h of
        None \<Rightarrow> Inr t
      | Some i \<Rightarrow>
          bindR (get_proc i t) (\<lambda>p.
            if pm_state (pr_meta p) = Running
            then bindR (push_off h) (\<lambda>h. yielding i h t)
            else Inr t))"

definition seek_runnable :: "'i ptable \<Rightarrow> (nat option \<times> 'i ptable) outcome" where
  "seek_runnable t =
     (case find_state (\<lambda>st. st = Runnable) (pt_proc t) 0 of
        None \<Rightarrow> Inr (None, t)
      | Some i \<Rightarrow> bindR (upd_meta i (set_state Allocated) t) (\<lambda>t. Inr (Some i, t)))"

text \<open>One turn of \<^verbatim>\<open>scheduler\<close> up to the switch: the chosen process is the hart's, its lock is
  taken, which masks interrupts, and it is running.\<close>

definition scheduler_run :: "nat \<Rightarrow> hart \<Rightarrow> 'i ptable \<Rightarrow> (hart \<times> 'i ptable) outcome" where
  "scheduler_run i h t =
     bindR (push_off (h\<lparr>c_process := Some i\<rparr>)) (\<lambda>h.
       bindR (upd_meta i (set_state Running) t) (\<lambda>t. Inr (h, t)))"

definition scheduler_pick :: "hart \<Rightarrow> 'i ptable \<Rightarrow> (hart \<times> 'i ptable) outcome" where
  "scheduler_pick h t =
     (let h = intr_on h in
      bindR (seek_runnable t) (\<lambda>(r, t).
        case r of None \<Rightarrow> Inr (h, t) | Some i \<Rightarrow> scheduler_run i h t))"

text \<open>And after the switch back.\<close>

definition scheduler_done :: "hart \<Rightarrow> hart outcome" where
  "scheduler_done h = pop_off (h\<lparr>c_process := None\<rparr>)"

definition try_yield_proc :: "hart \<Rightarrow> 'i ptable \<Rightarrow> 'i ptable outcome" where
  "try_yield_proc h t =
     (case c_process h of
        None \<Rightarrow> Inr t
      | Some i \<Rightarrow>
          bindR (get_proc i t) (\<lambda>p.
            if pm_state (pr_meta p) = Running
            then bindR (push_off h) (\<lambda>h. yielding i h t)
            else Inr t))"

section \<open>Ending and waiting\<close>

definition parent_chan :: "nat option \<Rightarrow> chan" where
  "parent_chan p = (case p of None \<Rightarrow> ChanNone | Some i \<Rightarrow> ChanProc i)"

definition reparent_one :: "nat \<Rightarrow> nat \<Rightarrow> nat \<Rightarrow> 'i ptable \<Rightarrow> 'i ptable outcome" where
  "reparent_one cur me k t =
     bindR (idx_get (pt_wait_list t) k) (\<lambda>w.
       if w = Some me
       then bindR (unwrap (pt_init_proc t)) (\<lambda>ini.
         Inr (wake_up (Some cur) (ChanProc ini) (t\<lparr>pt_wait_list := (pt_wait_list t)[k := Some ini]\<rparr>)))
       else Inr t)"

definition reparent :: "nat \<Rightarrow> nat \<Rightarrow> 'i ptable \<Rightarrow> 'i ptable outcome" where
  "reparent cur me t = foldR (reparent_one cur me) [0..<length (pt_wait_list t)] t"

text \<open>\<^verbatim>\<open>exit\<close> first hides the process from signals, then gives back its files and its working
  directory, which are not part of this state, and then runs \<open>exit_proc\<close>. The hart of \<open>exit_proc\<close>
  holds the lock of the process only.\<close>

definition exit_hide :: "nat \<Rightarrow> 'i ptable \<Rightarrow> 'i ptable outcome" where
  "exit_hide me t =
     bindR (get_proc me t) (\<lambda>p.
       bindR (idx_set (pt_idx_pids t) (pd_id (pr_data p)) (of_nat NPROC)) (\<lambda>ix.
         Inr (t\<lparr>pt_idx_pids := ix\<rparr>)))"

definition exit_proc :: "nat \<Rightarrow> usize \<Rightarrow> hart \<Rightarrow> 'i ptable \<Rightarrow> 'i ptable outcome" where
  "exit_proc me status h t =
     bindR (reparent me me t) (\<lambda>t.
       bindR (get_proc me t) (\<lambda>p.
         bindR (idx_get (pt_wait_list t) (pd_id (pr_data p))) (\<lambda>w.
           bindR (upd_meta me (\<lambda>m. set_state Zombie (m\<lparr>pm_xstate := status\<rparr>))
               (wake_up (Some me) (parent_chan w) t)) (\<lambda>t.
             bindR (get_proc me t) (\<lambda>p.
               bindR (sched h (pr_meta p)) (\<lambda>_. Inr t))))))"

text \<open>The end of \<^verbatim>\<open>process::exit\<close>, which the trap handler calls for a killed process: the lock of the process
  is dropped and the scheduler is called on the stack of the process, while the process stays the
  hart's current one.\<close>

definition quit_proc :: "nat \<Rightarrow> usize \<Rightarrow> 'i ptable \<Rightarrow> 'i ptable outcome" where
  "quit_proc me status t =
     bindR (reparent me me t) (\<lambda>t.
       bindR (get_proc me t) (\<lambda>p.
         bindR (idx_get (pt_wait_list t) (pd_id (pr_data p))) (\<lambda>w.
           upd_meta me (\<lambda>m. set_state Zombie (m\<lparr>pm_xstate := status\<rparr>))
             (wake_up (Some me) (parent_chan w) t))))"

datatype wait_result = Reaped usize | NoChildren | MustSleep

text \<open>One pass of \<^verbatim>\<open>wait\<close> over the table. The status is written through the child's page table.\<close>

fun wait_scan ::
  "nat \<Rightarrow> usize \<Rightarrow> nat list \<Rightarrow> bool \<Rightarrow> 'i ptable \<Rightarrow> kmem \<Rightarrow> (usize option \<times> bool \<times> 'i ptable \<times> kmem) outcome" where
  "wait_scan me addr [] have_kids t s = Inr (None, have_kids, t, s)"
| "wait_scan me addr (k # ks) have_kids t s =
     bindR (get_proc k t) (\<lambda>p.
       bindR (idx_get (pt_wait_list t) (pd_id (pr_data p))) (\<lambda>w.
         if w = Some me then
           if pm_state (pr_meta p) = Zombie then
             bindR (unwrap (pd_pagetable (pr_data p))) (\<lambda>pgt.
               bindR (if addr \<noteq> 0 then copy_out pgt addr (to_le 8 (pm_xstate (pr_meta p))) s else Inr s) (\<lambda>s.
                 bindR (free_proc k t s) (\<lambda>(t, s). Inr (Some (pm_pid (pr_meta p)), True, t, s))))
           else wait_scan me addr ks True t s
         else wait_scan me addr ks have_kids t s))"

definition wait_pass ::
  "nat \<Rightarrow> usize \<Rightarrow> 'i ptable \<Rightarrow> kmem \<Rightarrow> (wait_result \<times> 'i ptable \<times> kmem) outcome" where
  "wait_pass me addr t s =
     bindR (wait_scan me addr [0..<length (pt_proc t)] False t s) (\<lambda>(r, have_kids, t, s).
       case r of
         Some pid \<Rightarrow> Inr (Reaped pid, t, s)
       | None \<Rightarrow>
           bindR (proc_killed me t) (\<lambda>k.
             Inr (if \<not> have_kids \<or> k then NoChildren else MustSleep, t, s)))"

fun kill_scan :: "usize \<Rightarrow> nat list \<Rightarrow> 'i ptable \<Rightarrow> (bool \<times> 'i ptable) outcome" where
  "kill_scan pid [] t = Inr (False, t)"
| "kill_scan pid (k # ks) t =
     bindR (get_proc k t) (\<lambda>p.
       if pm_pid (pr_meta p) = pid then
         bindR (upd_meta k (\<lambda>m. m\<lparr>pm_killed := True\<rparr>) t) (\<lambda>t.
           if pm_state (pr_meta p) = Sleeping
           then bindR (upd_meta k (set_state Runnable) t) (\<lambda>t. Inr (True, t))
           else kill_scan pid ks t)
       else kill_scan pid ks t)"

definition proc_kill :: "usize \<Rightarrow> 'i ptable \<Rightarrow> (bool \<times> 'i ptable) outcome" where
  "proc_kill pid t = kill_scan pid [0..<length (pt_proc t)] t"

section \<open>Signals\<close>

definition NSIG :: nat where "NSIG = 1"

datatype sig_handler = SigIgnore | SigDefault | SigHandler usize

record signals =
  sg_received :: "usize list"
  sg_handlers :: "sig_handler list list"

definition signals_new :: signals where
  "signals_new = \<lparr>sg_received = replicate NPROC 0,
     sg_handlers = replicate NPROC (replicate NSIG SigIgnore)\<rparr>"

definition sig_register :: "nat \<Rightarrow> nat \<Rightarrow> usize \<Rightarrow> signals \<Rightarrow> signals outcome" where
  "sig_register signum idx handler g =
     bindR (idx_get (sg_handlers g) idx) (\<lambda>hs.
       bindR (idx_set hs signum
           (if handler = 0 then SigDefault else if sint handler < 0 then SigIgnore
            else SigHandler handler)) (\<lambda>hs.
         Inr (g\<lparr>sg_handlers := (sg_handlers g)[idx := hs]\<rparr>)))"

text \<open>The entry found in the table of pids is itself used as the index. The only signal bit is
  bit 0.\<close>

definition sig_kill :: "nat option \<Rightarrow> nat \<Rightarrow> usize \<Rightarrow> 'i ptable \<Rightarrow> signals \<Rightarrow>
    (bool \<times> 'i ptable \<times> signals) outcome" where
  "sig_kill me signum pid t g =
     (case find (\<lambda>p. p = pid) (pt_idx_pids t) of
        None \<Rightarrow> Inr (False, t, g)
      | Some ix \<Rightarrow>
          bindR (idx_get (sg_received g) (unat ix)) (\<lambda>old.
            if 64 \<le> signum then Inl Overflow
            else Inr (True, wake_up me (ChanSignal (unat ix)) t,
              g\<lparr>sg_received := (sg_received g)[unat ix := old OR (push_bit signum 1 AND 1)]\<rparr>)))"

definition sig_pause :: "nat \<Rightarrow> hart \<Rightarrow> 'i ptable \<Rightarrow> signals \<Rightarrow> 'i ptable outcome" where
  "sig_pause i h t g =
     bindR (get_proc i t) (\<lambda>p.
       bindR (idx_get (sg_received g) (pd_id (pr_data p))) (\<lambda>_.
         proc_sleep i (ChanSignal (pd_id (pr_data p))) h t))"

section \<open>Fields of the trapframe\<close>

lemma tf_get_set [simp]: "tf_get tf off (tf_set tf off v m) = v"
  by (simp add: tf_get_def tf_set_def load64_store64_same)

lemma tf_get_set_other:
  "off + 8 \<le> off' \<or> off' + 8 \<le> off \<Longrightarrow> tf_get tf off (tf_set tf off' v m) = tf_get tf off m"
  by (auto simp: tf_get_def tf_set_def mem_simps)

lemmas tf_offsets = TF_KERNEL_SATP_def TF_KERNEL_SP_def TF_KERNEL_TRAP_def TF_EPC_def TF_KERNEL_HARTID_def TF_SP_def TF_AX_def

section \<open>Who sleeps\<close>

lemma slept_on_wake_up:
  "slept_on ch (wake_up me ch' t) i \<longleftrightarrow> slept_on ch t i \<and> (ch' = ch \<longrightarrow> me = Some i)"
  by (cases "i < length (pt_proc t)"; cases "me = Some i") (auto simp: slept_on_def wake_up_def wake_one_def)

end
