(* ===== verification/Rx_Proc_Props.thy ===== *)
theory Rx_Proc_Props
  imports Rx_Proc
begin

text \<open>
  Properties of processes: wake-up and the interleaving of the schedulers of
  several harts.
\<close>

section \<open>States of processes\<close>

definition pstate :: "'i ptable \<Rightarrow> nat \<Rightarrow> proc_state option" where
  "pstate t i = (if i < length (pt_proc t) then Some (pm_state (pr_meta (pt_proc t ! i))) else None)"

lemma upd_meta_pstate:
  assumes "upd_meta i f t = Inr t'"
  shows "\<exists>m. pstate t i = Some (pm_state m) \<and> pstate t' = (pstate t)(i := Some (pm_state (f m)))"
  using assms
  by (auto simp: upd_meta_def get_proc_def idx_get_def pstate_def fun_eq_iff nth_list_update split: if_splits)

lemma upd_meta_ok: "pstate t i \<noteq> None \<Longrightarrow> \<exists>t'. upd_meta i f t = Inr t'"
  by (simp add: upd_meta_def get_proc_def idx_get_def pstate_def split: if_splits)

lemma set_state_state [simp]: "pm_state (set_state st m) = st"
  by (simp add: set_state_def)

lemma upd_data_pstate: "upd_data i f t = Inr t' \<Longrightarrow> pstate t' = pstate t"
  by (auto simp: upd_data_def get_proc_def idx_get_def pstate_def fun_eq_iff nth_list_update split: if_splits)

lemma pstate_other [simp]:
  "pstate (t\<lparr>pt_idx_pids := ix\<rparr>) = pstate t" "pstate (t\<lparr>pt_pids := n\<rparr>) = pstate t"
  "pstate (t\<lparr>pt_wait_list := w\<rparr>) = pstate t"
  by (simp_all add: pstate_def fun_eq_iff)

lemma find_state_Some:
  "find_state P ps k = Some i \<Longrightarrow> \<exists>j<length ps. i = k + j \<and> P (pm_state (pr_meta (ps ! j)))"
proof (induction P ps k rule: find_state.induct)
  case (2 P p ps k)
  show ?case
  proof (cases "P (pm_state (pr_meta p))")
    case False
    then obtain j where "j < length ps" "i = k + 1 + j" "P (pm_state (pr_meta (ps ! j)))" using 2 by auto
    then show ?thesis by (intro exI [of _ "Suc j"]) simp
  qed (use 2 in \<open>auto intro!: exI [of _ 0]\<close>)
qed simp

lemma seek_runnable_pstate:
  assumes "seek_runnable t = Inr (Some i, t')"
  shows "pstate t i = Some Runnable" "pstate t' = (pstate t)(i := Some Allocated)"
proof -
  have f: "find_state (\<lambda>st. st = Runnable) (pt_proc t) 0 = Some i" and u: "upd_meta i (set_state Allocated) t = Inr t'"
    using assms by (auto simp: seek_runnable_def bindR_eq_Inr_iff split: option.splits)
  show "pstate t i = Some Runnable" using find_state_Some [OF f] by (auto simp: pstate_def)
  show "pstate t' = (pstate t)(i := Some Allocated)" using upd_meta_pstate [OF u] by auto
qed

lemma scheduler_run_pstate:
  assumes "scheduler_run i h t = Inr (h', t')"
  shows "pstate t' = (pstate t)(i := Some Running)" "c_process h' = Some i"
  using assms
  by (auto simp: scheduler_run_def bindR_eq_Inr_iff push_off_def Let_def usize_inc_def
      dest!: upd_meta_pstate split: if_splits)

lemma yielding_pstate: "yielding i h t = Inr t' \<Longrightarrow> pstate t' = (pstate t)(i := Some Runnable)"
  by (auto simp: yielding_def bindR_eq_Inr_iff dest!: upd_meta_pstate)

lemma proc_sleep_pstate: "proc_sleep i ch h t = Inr t' \<Longrightarrow> pstate t' = (pstate t)(i := Some Sleeping)"
  by (auto simp: proc_sleep_def bindR_eq_Inr_iff dest!: upd_meta_pstate)

lemma wake_up_pstate:
  "pstate (wake_up me ch t) i = pstate t i \<or>
     pstate t i = Some Sleeping \<and> pstate (wake_up me ch t) i = Some Runnable"
  by (auto simp: pstate_def wake_up_def wake_one_def)

text \<open>Only sleeping processes move, and they become runnable.\<close>

definition woken :: "(nat \<Rightarrow> proc_state option) \<Rightarrow> (nat \<Rightarrow> proc_state option) \<Rightarrow> bool" where
  "woken p p' \<longleftrightarrow> (\<forall>i. p' i = p i \<or> p i = Some Sleeping \<and> p' i = Some Runnable)"

lemma woken_refl [simp]: "woken p p" by (simp add: woken_def)

lemma woken_trans: "woken p q \<Longrightarrow> woken q r \<Longrightarrow> woken p r"
  by (auto simp: woken_def) metis+

lemma wake_up_woken: "woken (pstate t) (pstate (wake_up me ch t))"
  using wake_up_pstate by (auto simp: woken_def)

lemma foldR_woken:
  assumes "\<And>k t t'. step k t = Inr t' \<Longrightarrow> woken (pstate t) (pstate t')"
  shows "foldR step ks t = Inr t' \<Longrightarrow> woken (pstate t) (pstate t')"
proof (induction ks arbitrary: t)
  case (Cons k ks)
  then obtain t1 where "step k t = Inr t1" "foldR step ks t1 = Inr t'" by (auto simp: bindR_eq_Inr_iff)
  then show ?case using assms Cons.IH woken_trans by blast
qed simp

lemma reparent_woken: "reparent cur me t = Inr t' \<Longrightarrow> woken (pstate t) (pstate t')"
  unfolding reparent_def
proof (rule foldR_woken)
  fix k and t t' :: "'a ptable"
  assume "reparent_one cur me k t = Inr t'"
  then show "woken (pstate t) (pstate t')"
    using wake_up_woken [of "t\<lparr>pt_wait_list := w\<rparr>" for w]
    by (auto simp: reparent_one_def bindR_eq_Inr_iff split: if_splits)
qed

lemma quit_proc_pstate:
  assumes "quit_proc me status t = Inr t'"
  shows "\<exists>p. woken (pstate t) p \<and> pstate t' = p(me := Some Zombie)"
proof -
  obtain t1 w where "reparent me me t = Inr t1"
    "upd_meta me (\<lambda>m. set_state Zombie (m\<lparr>pm_xstate := status\<rparr>)) (wake_up (Some me) (parent_chan w) t1) = Inr t'"
    using assms by (auto simp: quit_proc_def bindR_eq_Inr_iff)
  then show ?thesis
    using woken_trans [OF reparent_woken wake_up_woken] upd_meta_pstate by fastforce
qed

lemma exit_proc_pstate:
  assumes "exit_proc me status h t = Inr t'"
  shows "\<exists>p. woken (pstate t) p \<and> pstate t' = p(me := Some Zombie)"
proof -
  have "quit_proc me status t = Inr t'"
    using assms by (auto simp: exit_proc_def quit_proc_def bindR_eq_Inr_iff)
  then show ?thesis by (rule quit_proc_pstate)
qed

text \<open>A timer interrupt in the kernel makes the current process of the hart yield if it is running, and
  otherwise does nothing.\<close>

lemma try_yield_proc_pstate:
  assumes "try_yield_proc h t = Inr t'"
  shows "if \<exists>i. c_process h = Some i \<and> pstate t i = Some Running
    then pstate t' = (pstate t)(the (c_process h) := Some Runnable) else t' = t"
  using assms
  by (auto simp: try_yield_proc_def bindR_eq_Inr_iff get_proc_def idx_get_def pstate_def [of t] yielding_pstate
      split: option.splits if_splits)

lemma kill_scan_woken: "kill_scan pid ks t = Inr (b, t') \<Longrightarrow> woken (pstate t) (pstate t')"
proof (induction ks arbitrary: t)
  case (Cons k ks)
  obtain p where p: "get_proc k t = Inr p" using Cons.prems by (auto simp: bindR_eq_Inr_iff)
  then have st: "pstate t k = Some (pm_state (pr_meta p))"
    by (auto simp: get_proc_def idx_get_def pstate_def split: if_splits)
  show ?case
  proof (cases "pm_pid (pr_meta p) = pid")
    case True
    then obtain t1 where t1: "upd_meta k (\<lambda>m. m\<lparr>pm_killed := True\<rparr>) t = Inr t1"
      using Cons.prems p by (auto simp: bindR_eq_Inr_iff)
    have same: "pstate t1 = pstate t" using upd_meta_pstate [OF t1] by (auto simp: fun_eq_iff)
    show ?thesis
    proof (cases "pm_state (pr_meta p) = Sleeping")
      case sl: True
      then have "upd_meta k (set_state Runnable) t1 = Inr t'"
        using Cons.prems p t1 True by (auto simp: bindR_eq_Inr_iff)
      from upd_meta_pstate [OF this] show ?thesis using st sl by (auto simp: woken_def same)
    next
      case False
      then have "kill_scan pid ks t1 = Inr (b, t')" using Cons.prems p t1 True by auto
      from Cons.IH [OF this] show ?thesis by (simp add: same)
    qed
  qed (use Cons p in auto)
qed simp

lemma free_proc_pstate: "free_proc i t s = Inr (t', s') \<Longrightarrow> pstate t' = (pstate t)(i := Some Unused)"
  by (auto simp: free_proc_def bindR_eq_Inr_iff dest!: upd_data_pstate upd_meta_pstate)

lemma set_pagetable_pstate: "set_pagetable i pgt t s = Inr (t', s') \<Longrightarrow> pstate t' = pstate t"
  by (auto simp: set_pagetable_def bindR_eq_Inr_iff dest!: upd_data_pstate)

lemma alloc_proc_pstate:
  assumes "alloc_proc tr fr t s = Inr (Some i, t', s')"
  shows "pstate t i = Some Unused" "pstate t' = (pstate t)(i := Some Allocated)"
proof -
  let ?t0 = "t\<lparr>pt_pids := pt_pids t + 1\<rparr>"
  have f: "find_state (\<lambda>st. st = Unused) (pt_proc ?t0) 0 = Some i"
    using assms by (auto simp: alloc_proc_def alloc_pid_def bindR_eq_Inr_iff split: option.splits)
  show "pstate t i = Some Unused" using find_state_Some [OF f] by (auto simp: pstate_def)
  obtain t1 where t1: "upd_meta i (\<lambda>m. set_state Allocated (m\<lparr>pm_pid := pt_pids t\<rparr>)) ?t0 = Inr t1"
    and rest: "pstate t' = pstate t1"
    using assms f
    by (auto simp: alloc_proc_def alloc_pid_def bindR_eq_Inr_iff dest!: upd_data_pstate set_pagetable_pstate)
  show "pstate t' = (pstate t)(i := Some Allocated)" using upd_meta_pstate [OF t1] rest by auto
qed

section \<open>Schedulers of several harts\<close>

text \<open>Where a hart is: in its scheduler, between choosing a process and running it, or running it.\<close>

datatype on_hart = Idle | Chosen nat | OnCpu nat

record 'i sched_sys =
  ss_tab :: "'i ptable"
  ss_mem :: kmem
  ss_hart :: "nat \<Rightarrow> hart"
  ss_at :: "nat \<Rightarrow> on_hart"
  ss_new :: "nat set"
  ss_left :: "nat set"

text \<open>The steps of the harts in any order. A hart chooses a process and, in a second step, runs it;
  the process gives up the hart by yielding, sleeping or exiting, on a hart \<open>h\<close> whose masking may
  have changed meanwhile. A process that was killed ends in \<^verbatim>\<open>process::exit\<close> instead, which runs the
  scheduler without taking the process off the hart: \<open>ss_left\<close> are the processes that went so. A timer
  interrupt of the kernel comes at any place, also in the scheduler, and makes the current process of
  the hart yield if its state is running. A process being created belongs to its creator until it is
  made runnable. Wake-ups and kills come at any time.

  A zombie is released by its parent, except one of \<open>ss_left\<close>. The code has no such exception, and needs
  it: the stack of such a process is the one the hart's scheduler runs on from then on, and the hart may
  still have the process as its current one, so that an interrupt in the scheduler makes whichever process
  gets the place in the table next yield.\<close>

inductive sched_step :: "'i sched_sys \<Rightarrow> 'i sched_sys \<Rightarrow> bool" where
  choose: "ss_at s k = Idle \<Longrightarrow> seek_runnable (ss_tab s) = Inr (Some i, t) \<Longrightarrow>
     sched_step s (s\<lparr>ss_tab := t, ss_at := (ss_at s)(k := Chosen i)\<rparr>)"
| run: "ss_at s k = Chosen i \<Longrightarrow> scheduler_run i (ss_hart s k) (ss_tab s) = Inr (h, t) \<Longrightarrow>
     sched_step s (s\<lparr>ss_tab := t, ss_hart := (ss_hart s)(k := h), ss_at := (ss_at s)(k := OnCpu i)\<rparr>)"
| yields: "ss_at s k = OnCpu i \<Longrightarrow> yielding i h (ss_tab s) = Inr t \<Longrightarrow> scheduler_done h = Inr h' \<Longrightarrow>
     sched_step s (s\<lparr>ss_tab := t, ss_hart := (ss_hart s)(k := h'), ss_at := (ss_at s)(k := Idle)\<rparr>)"
| preempts: "c_process h = c_process (ss_hart s k) \<Longrightarrow> c_process h = Some i \<Longrightarrow> pstate (ss_tab s) i = Some Running \<Longrightarrow>
     try_yield_proc h (ss_tab s) = Inr t \<Longrightarrow> scheduler_done h1 = Inr h' \<Longrightarrow>
     sched_step s (s\<lparr>ss_tab := t, ss_hart := (ss_hart s)(k := h'), ss_at := (ss_at s)(k := Idle)\<rparr>)"
| ticks: "c_process h = c_process (ss_hart s k) \<Longrightarrow> (\<nexists>i. c_process h = Some i \<and> pstate (ss_tab s) i = Some Running) \<Longrightarrow>
     try_yield_proc h (ss_tab s) = Inr t \<Longrightarrow> sched_step s (s\<lparr>ss_tab := t\<rparr>)"
| sleeps: "ss_at s k = OnCpu i \<Longrightarrow> proc_sleep i ch h (ss_tab s) = Inr t \<Longrightarrow> scheduler_done h = Inr h' \<Longrightarrow>
     sched_step s (s\<lparr>ss_tab := t, ss_hart := (ss_hart s)(k := h'), ss_at := (ss_at s)(k := Idle)\<rparr>)"
| exits: "ss_at s k = OnCpu i \<Longrightarrow> exit_proc i status h (ss_tab s) = Inr t \<Longrightarrow> scheduler_done h = Inr h' \<Longrightarrow>
     sched_step s (s\<lparr>ss_tab := t, ss_hart := (ss_hart s)(k := h'), ss_at := (ss_at s)(k := Idle)\<rparr>)"
| quits: "ss_at s k = OnCpu i \<Longrightarrow> quit_proc i status (ss_tab s) = Inr t \<Longrightarrow> c_process h = c_process (ss_hart s k) \<Longrightarrow>
     sched_step s (s\<lparr>ss_tab := t, ss_hart := (ss_hart s)(k := h), ss_at := (ss_at s)(k := Idle), ss_left := insert i (ss_left s)\<rparr>)"
| wakes: "sched_step s (s\<lparr>ss_tab := wake_up me ch (ss_tab s)\<rparr>)"
| kills: "proc_kill pid (ss_tab s) = Inr (b, t) \<Longrightarrow> sched_step s (s\<lparr>ss_tab := t\<rparr>)"
| creates: "alloc_proc tr fr (ss_tab s) (ss_mem s) = Inr (Some i, t, m) \<Longrightarrow>
     sched_step s (s\<lparr>ss_tab := t, ss_mem := m, ss_new := insert i (ss_new s)\<rparr>)"
| starts: "i \<in> ss_new s \<Longrightarrow> upd_meta i (set_state Runnable) (ss_tab s) = Inr t \<Longrightarrow>
     sched_step s (s\<lparr>ss_tab := t, ss_new := ss_new s - {i}\<rparr>)"
| reaps: "pstate (ss_tab s) i = Some Zombie \<Longrightarrow> i \<notin> ss_left s \<Longrightarrow> free_proc i (ss_tab s) (ss_mem s) = Inr (t, m) \<Longrightarrow>
     sched_step s (s\<lparr>ss_tab := t, ss_mem := m\<rparr>)"

inductive sched_reach :: "'i sched_sys \<Rightarrow> bool" where
  boot: "(\<And>k. ss_at s k = Idle) \<Longrightarrow> (\<And>k. c_process (ss_hart s k) = None) \<Longrightarrow> ss_new s = {} \<Longrightarrow> ss_left s = {} \<Longrightarrow>
     (\<And>i. pstate (ss_tab s) i \<noteq> Some Running) \<Longrightarrow> sched_reach s"
| move: "sched_reach s \<Longrightarrow> sched_step s s' \<Longrightarrow> sched_reach s'"

text \<open>The invariant, over the states of the processes, the places of the harts, the processes being
  created and the current process of each hart: a chosen process is reserved, a process on a hart
  is running and is the hart's current one, no process is on two harts, and every running process
  is on one.\<close>

definition placed :: "(nat \<Rightarrow> proc_state option) \<Rightarrow> (nat \<Rightarrow> on_hart) \<Rightarrow> nat set \<Rightarrow> (nat \<Rightarrow> nat option) \<Rightarrow> bool" where
  "placed p at new c \<longleftrightarrow>
     (\<forall>k i. at k = Chosen i \<longrightarrow> p i = Some Allocated \<and> i \<notin> new) \<and>
     (\<forall>k i. at k = OnCpu i \<longrightarrow> p i = Some Running \<and> c k = Some i) \<and>
     (\<forall>k l i. at k \<in> {Chosen i, OnCpu i} \<longrightarrow> at l \<in> {Chosen i, OnCpu i} \<longrightarrow> k = l) \<and>
     (\<forall>i\<in>new. p i = Some Allocated) \<and>
     (\<forall>i. p i = Some Running \<longrightarrow> (\<exists>k. at k = OnCpu i))"

text \<open>The current process of a hart is the one on it, or one that left by \<^verbatim>\<open>process::exit\<close> and stays a
  zombie.\<close>

definition parked :: "(nat \<Rightarrow> proc_state option) \<Rightarrow> (nat \<Rightarrow> on_hart) \<Rightarrow> nat set \<Rightarrow> (nat \<Rightarrow> nat option) \<Rightarrow> bool" where
  "parked p at left c \<longleftrightarrow>
     (\<forall>i\<in>left. p i = Some Zombie) \<and> (\<forall>k j. c k = Some j \<longrightarrow> at k = OnCpu j \<or> j \<in> left)"

definition sched_inv :: "'i sched_sys \<Rightarrow> bool" where
  "sched_inv s \<longleftrightarrow>
     placed (pstate (ss_tab s)) (ss_at s) (ss_new s) (\<lambda>k. c_process (ss_hart s k)) \<and>
     parked (pstate (ss_tab s)) (ss_at s) (ss_left s) (\<lambda>k. c_process (ss_hart s k))"

lemma parkedD:
  assumes "parked p at left c"
  shows "i \<in> left \<Longrightarrow> p i = Some Zombie" "c k = Some j \<Longrightarrow> at k = OnCpu j \<or> j \<in> left"
  using assms unfolding parked_def by blast+

lemma parked_woken: "parked p at left c \<Longrightarrow> woken p p' \<Longrightarrow> parked p' at left c"
  unfolding parked_def woken_def by (metis option.inject proc_state.distinct)

text \<open>A process that is no zombie changes its state, and hart \<open>k\<close> its place.\<close>

lemma parked_change:
  assumes "parked p at left c" "p i \<noteq> Some Zombie \<or> i \<notin> left"
    and "at' = at \<and> c' = c \<or> at' = at(k := w) \<and> c' = c(k := cur) \<and> (\<forall>j. cur = Some j \<longrightarrow> w = OnCpu j \<or> j \<in> left)"
  shows "parked (p(i := st)) at' left c'"
  unfolding parked_def
proof (intro conjI ballI allI impI)
  fix j assume "j \<in> left"
  then show "(p(i := st)) j = Some Zombie" using parkedD(1) [OF assms(1), of j] assms(2) by auto
next
  fix l j assume "c' l = Some j"
  then show "at' l = OnCpu j \<or> j \<in> left" using parkedD(2) [OF assms(1), of l j] assms(3) by (auto split: if_splits)
qed

text \<open>In the kernel a running current process is the one on the hart.\<close>

lemma current_running:
  assumes "parked p at left c" "c k = Some i" "p i = Some Running"
  shows "at k = OnCpu i"
  using assms unfolding parked_def by force

lemma placedD:
  assumes "placed p at new c"
  shows "at k = Chosen i \<Longrightarrow> p i = Some Allocated" "at k = Chosen i \<Longrightarrow> i \<notin> new"
    "at k = OnCpu i \<Longrightarrow> p i = Some Running" "at k = OnCpu i \<Longrightarrow> c k = Some i"
    "at k \<in> {Chosen i, OnCpu i} \<Longrightarrow> at l \<in> {Chosen i, OnCpu i} \<Longrightarrow> k = l"
    "i \<in> new \<Longrightarrow> p i = Some Allocated" "p i = Some Running \<Longrightarrow> \<exists>k. at k = OnCpu i"
  using assms unfolding placed_def by blast+

lemma placedI:
  assumes "\<And>k i. at k = Chosen i \<Longrightarrow> p i = Some Allocated \<and> i \<notin> new"
    "\<And>k i. at k = OnCpu i \<Longrightarrow> p i = Some Running \<and> c k = Some i"
    "\<And>k l i. at k \<in> {Chosen i, OnCpu i} \<Longrightarrow> at l \<in> {Chosen i, OnCpu i} \<Longrightarrow> k = l"
    "\<And>i. i \<in> new \<Longrightarrow> p i = Some Allocated" "\<And>i. p i = Some Running \<Longrightarrow> \<exists>k. at k = OnCpu i"
  shows "placed p at new c"
  using assms unfolding placed_def by blast

text \<open>A hart moves to or away from a process that is on no other hart.\<close>

lemma placed_move:
  assumes P: "placed p at new c" and others: "\<And>l. l \<noteq> k \<Longrightarrow> at l \<noteq> Chosen i \<and> at l \<noteq> OnCpu i"
    and old: "\<And>j. at k = OnCpu j \<Longrightarrow> j = i" and new: "i \<notin> new"
    and to: "w = Chosen i \<and> st = Allocated \<or> w = OnCpu i \<and> st = Running \<and> cur = Some i \<or> w = Idle \<and> st \<noteq> Running"
  shows "placed (p(i := Some st)) (at(k := w)) new (c(k := cur))"
proof (rule placedI)
  fix l j assume "(at(k := w)) l = Chosen j"
  then show "(p(i := Some st)) j = Some Allocated \<and> j \<notin> new"
    using to others [of l] new placedD(1,2) [OF P, of l j] by (auto split: if_splits)
next
  fix l j assume "(at(k := w)) l = OnCpu j"
  then show "(p(i := Some st)) j = Some Running \<and> (c(k := cur)) l = Some j"
    using to others [of l] placedD(3,4) [OF P, of l j] by (auto split: if_splits)
next
  fix l m j assume "(at(k := w)) l \<in> {Chosen j, OnCpu j}" "(at(k := w)) m \<in> {Chosen j, OnCpu j}"
  then show "l = m"
    using to others [of l] others [of m] placedD(5) [OF P, of l j m] by (auto split: if_splits)
next
  fix j assume "j \<in> new"
  then show "(p(i := Some st)) j = Some Allocated" using new placedD(6) [OF P, of j] by auto
next
  fix j assume r: "(p(i := Some st)) j = Some Running"
  show "\<exists>l. (at(k := w)) l = OnCpu j"
  proof (cases "j = i")
    case True
    then show ?thesis using r to by (intro exI [of _ k]) auto
  next
    case False
    then obtain l where "at l = OnCpu j" using r placedD(7) [OF P, of j] by auto
    then show ?thesis using False old [of j] by (intro exI [of _ l]) auto
  qed
qed

text \<open>A process that is on no hart changes to a state other than running.\<close>

lemma placed_change:
  assumes P: "placed p at new c" and i: "\<And>l. at l \<noteq> Chosen i \<and> at l \<noteq> OnCpu i" and st: "st \<noteq> Running"
    and new': "new' - {i} = new - {i}" "i \<in> new' \<Longrightarrow> st = Allocated"
  shows "placed (p(i := Some st)) at new' c"
proof (rule placedI)
  fix l j assume a: "at l = Chosen j"
  then have "j \<noteq> i" using i by auto
  then show "(p(i := Some st)) j = Some Allocated \<and> j \<notin> new'" using placedD(1,2) [OF P a] new'(1) by auto
next
  fix l j assume a: "at l = OnCpu j"
  then have "j \<noteq> i" using i by auto
  then show "(p(i := Some st)) j = Some Running \<and> c l = Some j" using placedD(3,4) [OF P a] by auto
next
  fix j assume "j \<in> new'"
  then show "(p(i := Some st)) j = Some Allocated" using new' placedD(6) [OF P, of j] by auto
next
  fix j assume "(p(i := Some st)) j = Some Running"
  then show "\<exists>l. at l = OnCpu j" using st placedD(7) [OF P, of j] by (auto split: if_splits)
qed (rule placedD(5) [OF P])

lemma placed_off:
  assumes "placed p at new c" "p i \<noteq> Some Running" "p i \<noteq> Some Allocated \<or> i \<in> new"
  shows "at l \<noteq> Chosen i \<and> at l \<noteq> OnCpu i"
  using placedD(1,2,3) [OF assms(1), of l i] assms(2,3) by auto

lemma placed_woken:
  assumes P: "placed p at new c" and w: "woken p p'"
  shows "placed p' at new c"
proof -
  have same: "p j = Some st \<Longrightarrow> st \<noteq> Sleeping \<Longrightarrow> p' j = Some st" and run: "p' j = Some Running \<Longrightarrow> p j = Some Running"
    for j st using w [unfolded woken_def, rule_format, of j] by auto
  show ?thesis
    by (rule placedI) (use placedD [OF P] same run in blast)+
qed

lemma scheduler_done_process: "scheduler_done h = Inr h' \<Longrightarrow> c_process h' = None"
  by (auto simp: scheduler_done_def pop_off_def Let_def split: if_splits)

lemma current_upd: "(\<lambda>l. c_process (if l = k then h else f l)) = (\<lambda>l. c_process (f l))(k := c_process h)"
  by (simp add: fun_eq_iff)

text \<open>A process leaves its hart.\<close>

lemma placed_leave:
  assumes P: "placed p at new c" and k: "at k = OnCpu i" and st: "st \<noteq> Running"
  shows "placed (p(i := Some st)) (at(k := Idle)) new (c(k := cur))"
proof (rule placed_move [OF P])
  show "at l \<noteq> Chosen i \<and> at l \<noteq> OnCpu i" if "l \<noteq> k" for l using placedD(5) [OF P, of l i k] k that by auto
  show "i \<notin> new" using placedD(6) [OF P, of i] placedD(3) [OF P k] by auto
qed (use k st in auto)

lemma sched_leave:
  assumes inv: "sched_inv s" and k: "ss_at s k = OnCpu i" and st: "st \<noteq> Running"
    and w: "woken (pstate (ss_tab s)) p" "pstate t = p(i := Some st)" and h: "c_process h' = None"
  shows "sched_inv (s\<lparr>ss_tab := t, ss_hart := (ss_hart s)(k := h'), ss_at := (ss_at s)(k := Idle)\<rparr>)"
proof -
  let ?c = "\<lambda>k. c_process (ss_hart s k)"
  have P: "placed p (ss_at s) (ss_new s) ?c" and Q: "parked p (ss_at s) (ss_left s) ?c"
    using inv placed_woken [OF _ w(1)] parked_woken [OF _ w(1)] by (auto simp: sched_inv_def)
  have "p i \<noteq> Some Zombie" using placedD(3) [OF P k] by simp
  then have "parked (p(i := Some st)) ((ss_at s)(k := Idle)) (ss_left s) (?c(k := None))"
    using parked_change [OF Q, of i _ _ k Idle None] by blast
  then show ?thesis
    using placed_leave [OF P k st, of None] w(2) h by (simp add: sched_inv_def current_upd)
qed

lemma sched_woken:
  assumes "sched_inv s" "woken (pstate (ss_tab s)) (pstate t)"
  shows "sched_inv (s\<lparr>ss_tab := t\<rparr>)"
  using assms placed_woken parked_woken by (fastforce simp: sched_inv_def)

text \<open>A process that is on no hart changes its state.\<close>

lemma sched_change:
  assumes inv: "sched_inv s" and i: "pstate (ss_tab s) i \<noteq> Some Running" "pstate (ss_tab s) i \<noteq> Some Allocated \<or> i \<in> ss_new s"
    and t: "pstate t = (pstate (ss_tab s))(i := Some st)" "st \<noteq> Running" and left: "i \<notin> ss_left s"
    and new: "new - {i} = ss_new s - {i}" "i \<in> new \<Longrightarrow> st = Allocated"
  shows "sched_inv (s\<lparr>ss_tab := t, ss_mem := m, ss_new := new\<rparr>)"
proof -
  let ?c = "\<lambda>k. c_process (ss_hart s k)"
  have P: "placed (pstate (ss_tab s)) (ss_at s) (ss_new s) ?c" and Q: "parked (pstate (ss_tab s)) (ss_at s) (ss_left s) ?c"
    using inv by (auto simp: sched_inv_def)
  have "placed (pstate t) (ss_at s) new ?c"
    unfolding t(1) by (rule placed_change [OF P placed_off [OF P i] t(2) new])
  moreover have "parked (pstate t) (ss_at s) (ss_left s) ?c"
    unfolding t(1) using parked_change [OF Q, of i] left by blast
  ultimately show ?thesis by (simp add: sched_inv_def)
qed

lemma sched_left: "sched_inv s \<Longrightarrow> i \<in> ss_left s \<Longrightarrow> pstate (ss_tab s) i = Some Zombie"
  by (simp add: sched_inv_def parked_def)

lemma sched_step_inv:
  assumes "sched_step s s'" "sched_inv s"
  shows "sched_inv s'"
  using assms
proof (induction rule: sched_step.induct)
  case (choose s k i t)
  let ?c = "\<lambda>k. c_process (ss_hart s k)"
  have P: "placed (pstate (ss_tab s)) (ss_at s) (ss_new s) ?c" and Q: "parked (pstate (ss_tab s)) (ss_at s) (ss_left s) ?c"
    using choose.prems by (auto simp: sched_inv_def)
  note q = seek_runnable_pstate [OF choose.hyps(2)]
  have off: "ss_at s l \<noteq> Chosen i \<and> ss_at s l \<noteq> OnCpu i" for l by (rule placed_off [OF P]) (use q(1) in auto)
  have new: "i \<notin> ss_new s" using placedD(6) [OF P, of i] q(1) by auto
  have same: "?c(k := ?c k) = ?c" by (simp add: fun_eq_iff)
  have cur: "\<forall>j. ?c k = Some j \<longrightarrow> Chosen i = OnCpu j \<or> j \<in> ss_left s" using parkedD(2) [OF Q, of k] choose.hyps(1) by auto
  have "parked (pstate t) ((ss_at s)(k := Chosen i)) (ss_left s) (?c(k := ?c k))"
    unfolding q(2) using parked_change [OF Q, of i _ _ k "Chosen i" "?c k"] q(1) cur by simp
  then show ?case
    using placed_move [OF P, of k i "Chosen i" Allocated "?c k"] off new choose.hyps(1)
    by (simp add: sched_inv_def q(2) same)
next
  case (run s k i h t)
  let ?c = "\<lambda>k. c_process (ss_hart s k)"
  have P: "placed (pstate (ss_tab s)) (ss_at s) (ss_new s) ?c" and Q: "parked (pstate (ss_tab s)) (ss_at s) (ss_left s) ?c"
    using run.prems by (auto simp: sched_inv_def)
  note q = scheduler_run_pstate [OF run.hyps(2)]
  have off: "ss_at s l \<noteq> Chosen i \<and> ss_at s l \<noteq> OnCpu i" if "l \<noteq> k" for l
    using placedD(5) [OF P, of l i k] run.hyps(1) that by auto
  have "pstate (ss_tab s) i \<noteq> Some Zombie" using placedD(1) [OF P run.hyps(1)] by simp
  then have "parked (pstate t) ((ss_at s)(k := OnCpu i)) (ss_left s) (?c(k := Some i))"
    unfolding q(1) using parked_change [OF Q, of i _ _ k "OnCpu i" "Some i"] by simp
  then show ?case
    using placed_move [OF P, of k i "OnCpu i" Running "Some i"] off placedD(2) [OF P run.hyps(1)] run.hyps(1)
    by (simp add: sched_inv_def q current_upd)
next
  case (yields s k i h t h')
  then show ?case
    using sched_leave [OF _ yields.hyps(1), of Runnable "pstate (ss_tab s)"] yielding_pstate scheduler_done_process by force
next
  case (preempts h s k i t h1 h')
  have k: "ss_at s k = OnCpu i"
    by (rule current_running [of "pstate (ss_tab s)" _ "ss_left s" "\<lambda>k. c_process (ss_hart s k)"])
      (use preempts.hyps(1-3) preempts.prems in \<open>simp_all add: sched_inv_def\<close>)
  have "pstate t = (pstate (ss_tab s))(i := Some Runnable)"
    using try_yield_proc_pstate [OF preempts.hyps(4)] preempts.hyps(2,3) by auto
  then show ?case
    using sched_leave [OF preempts.prems k, of Runnable "pstate (ss_tab s)"] scheduler_done_process [OF preempts.hyps(5)] by simp
next
  case (ticks h s k t)
  then have "t = ss_tab s" using try_yield_proc_pstate [OF ticks.hyps(3)] by (auto split: if_splits)
  then show ?case using ticks.prems by simp
next
  case (sleeps s k i ch h t h')
  then show ?case
    using sched_leave [OF _ sleeps.hyps(1), of Sleeping "pstate (ss_tab s)"] proc_sleep_pstate scheduler_done_process by force
next
  case (exits s k i status h t h')
  then show ?case
    using sched_leave [OF _ exits.hyps(1), of Zombie] exit_proc_pstate [OF exits.hyps(2)] scheduler_done_process by force
next
  case (quits s k i status t h)
  let ?c = "\<lambda>k. c_process (ss_hart s k)"
  obtain p where p: "woken (pstate (ss_tab s)) p" "pstate t = p(i := Some Zombie)"
    using quit_proc_pstate [OF quits.hyps(2)] by blast
  have P: "placed p (ss_at s) (ss_new s) ?c" and Q: "parked p (ss_at s) (ss_left s) ?c"
    using quits.prems placed_woken [OF _ p(1)] parked_woken [OF _ p(1)] by (auto simp: sched_inv_def)
  have "parked (pstate t) ((ss_at s)(k := Idle)) (insert i (ss_left s)) (?c(k := ?c k))"
    using Q placedD(4) [OF P quits.hyps(1)] unfolding p(2) parked_def by auto
  then show ?case
    using placed_leave [OF P quits.hyps(1), of Zombie "?c k"] p(2) quits.hyps(3) by (simp add: sched_inv_def current_upd)
next
  case (wakes s me ch)
  then show ?case by (rule sched_woken) (rule wake_up_woken)
next
  case (kills pid s b t)
  from kills.prems show ?case by (rule sched_woken) (rule kill_scan_woken, rule kills.hyps [unfolded proc_kill_def])
next
  case (creates tr fr s i t m)
  note q = alloc_proc_pstate [OF creates.hyps]
  show ?case
    by (rule sched_change [OF creates.prems, where i = i and st = Allocated])
      (use q sched_left [OF creates.prems, of i] in auto)
next
  case (starts i s t)
  have q: "pstate t = (pstate (ss_tab s))(i := Some Runnable)" using upd_meta_pstate [OF starts.hyps(2)] by auto
  have a: "pstate (ss_tab s) i = Some Allocated"
    using starts.prems starts.hyps(1) placedD(6) unfolding sched_inv_def by blast
  have "sched_inv (s\<lparr>ss_tab := t, ss_mem := ss_mem s, ss_new := ss_new s - {i}\<rparr>)"
    by (rule sched_change [OF starts.prems, where i = i and st = Runnable])
      (use q a starts.hyps(1) sched_left [OF starts.prems, of i] in auto)
  then show ?case by simp
next
  case (reaps s i t m)
  have new: "i \<notin> ss_new s"
    using reaps.prems reaps.hyps(1) placedD(6) [of _ _ "ss_new s" _ i] unfolding sched_inv_def by fastforce
  have "sched_inv (s\<lparr>ss_tab := t, ss_mem := m, ss_new := ss_new s\<rparr>)"
    by (rule sched_change [OF reaps.prems, where i = i and st = Unused])
      (use reaps.hyps(1,2) free_proc_pstate [OF reaps.hyps(3)] new in auto)
  then show ?case by simp
qed

lemma sched_reach_inv: "sched_reach s \<Longrightarrow> sched_inv s"
proof (induction rule: sched_reach.induct)
  case (boot s)
  then show ?case by (simp add: sched_inv_def placed_def parked_def)
qed (rule sched_step_inv)

section \<open>Properties\<close>

text \<open>C39. A process runs on at most one hart. In every state the schedulers of any number of harts
  reach by choosing, running, yielding, being preempted, sleeping, exiting, ending when killed, waking,
  killing, creating and reaping in any order, no process is on two harts, a process on a hart is in state
  running and is the current process of that hart, every running process is on a hart, and the current
  process of a hart that runs none has ended. This is for runs in which the place of a process that ended in
  \<^verbatim>\<open>process::exit\<close> is not released, which the code does not ensure.\<close>

theorem sched_exclusive:
  assumes "sched_reach s"
  shows "(\<forall>k l i. ss_at s k = OnCpu i \<longrightarrow> ss_at s l = OnCpu i \<longrightarrow> k = l) \<and>
     (\<forall>k i. ss_at s k = OnCpu i \<longrightarrow> pstate (ss_tab s) i = Some Running \<and> c_process (ss_hart s k) = Some i) \<and>
     (\<forall>i. pstate (ss_tab s) i = Some Running \<longrightarrow> (\<exists>k. ss_at s k = OnCpu i)) \<and>
     (\<forall>k i. c_process (ss_hart s k) = Some i \<longrightarrow> ss_at s k = OnCpu i \<or> pstate (ss_tab s) i = Some Zombie)"
  using sched_reach_inv [OF assms] unfolding sched_inv_def placed_def parked_def by blast

definition one_runnable :: "unit ptable" where
  "one_runnable = ptable_new\<lparr>pt_proc := (pt_proc ptable_new)[0 := (process_new 0)\<lparr>pr_meta := proc_meta_new\<lparr>pm_state := Runnable\<rparr>\<rparr>]\<rparr>"

lemma pt_proc_one_runnable:
  "\<exists>ps. pt_proc one_runnable = (process_new 0)\<lparr>pr_meta := proc_meta_new\<lparr>pm_state := Runnable\<rparr>\<rparr> # ps"
  by (simp add: one_runnable_def ptable_new_def NPROC_def upt_rec [of 0])

theorem sched_exclusive_witness:
  "\<exists>s :: unit sched_sys. sched_reach s \<and> ss_at s 2 = OnCpu 0 \<and> c_process (ss_hart s 2) = Some 0 \<and>
     pstate (ss_tab s) 0 = Some Running \<and> (\<forall>l. ss_at s l = OnCpu 0 \<longrightarrow> l = 2)"
proof -
  let ?s0 = "\<lparr>ss_tab = one_runnable, ss_mem = ka_new (\<lambda>_. 0), ss_hart = (\<lambda>_. cpu_new), ss_at = (\<lambda>_. Idle), ss_new = {}, ss_left = {}\<rparr>"
  obtain ps where ps: "pt_proc one_runnable = (process_new 0)\<lparr>pr_meta := proc_meta_new\<lparr>pm_state := Runnable\<rparr>\<rparr> # ps"
    using pt_proc_one_runnable by blast
  have r0: "sched_reach ?s0"
    by (rule sched_reach.boot)
      (auto simp: pstate_def one_runnable_def ptable_new_def process_new_def proc_meta_new_def nth_list_update cpu_new_def)
  obtain t1 where t1: "seek_runnable one_runnable = Inr (Some 0, t1)"
    by (simp add: seek_runnable_def ps upd_meta_def get_proc_def idx_get_def)
  let ?s1 = "?s0\<lparr>ss_tab := t1, ss_at := (ss_at ?s0)(2 := Chosen 0)\<rparr>"
  have "sched_step ?s0 ?s1" by (rule sched_step.choose) (use t1 in simp_all)
  with r0 have r1: "sched_reach ?s1" by (rule sched_reach.move)
  obtain h where h: "push_off (cpu_new\<lparr>c_process := Some 0\<rparr>) = Inr h"
    by (simp add: push_off_def Let_def usize_inc_def cpu_new_def intr_off_def)
  have "pstate t1 0 \<noteq> None" using seek_runnable_pstate(2) [OF t1] by simp
  then obtain t2 where "upd_meta 0 (set_state Running) t1 = Inr t2" using upd_meta_ok by blast
  then have run: "scheduler_run 0 cpu_new t1 = Inr (h, t2)" using h by (simp add: scheduler_run_def)
  let ?s2 = "?s1\<lparr>ss_tab := t2, ss_hart := (ss_hart ?s1)(2 := h), ss_at := (ss_at ?s1)(2 := OnCpu 0)\<rparr>"
  have "sched_step ?s1 ?s2" by (rule sched_step.run) (use run in simp_all)
  with r1 have r2: "sched_reach ?s2" by (rule sched_reach.move)
  have at: "ss_at ?s2 2 = OnCpu 0" by simp
  note ex = sched_exclusive [OF r2]
  have "\<forall>l. ss_at ?s2 l = OnCpu 0 \<longrightarrow> l = 2" using ex [THEN conjunct1] at by blast
  moreover have "pstate (ss_tab ?s2) 0 = Some Running \<and> c_process (ss_hart ?s2 2) = Some 0"
    using ex [THEN conjunct2, THEN conjunct1] at by blast
  ultimately show ?thesis using r2 at by blast
qed

end
