(* ===== verification/Rx_Ring.thy ===== *)
theory Rx_Ring
  imports Rx_Prelude
begin

text \<open>
  Byte queues. The pipe, the serial port and the console keep bytes in an array indexed by two
  free-running counters taken modulo the size of the array. The locale \<open>byte_queue\<close> is what these
  components promise of adding and removing a byte; how a step keeps the account of the bytes that
  went in and came out is proved once in it. The lemmas on counters are for the interpretations.
\<close>

section \<open>Counters\<close>

definition ring_contents :: "nat \<Rightarrow> u8 list \<Rightarrow> usize \<Rightarrow> usize \<Rightarrow> u8 list" where
  "ring_contents N buf r w = map (\<lambda>k. buf ! (unat (r + of_nat k) mod N)) [0..<unat (w - r)]"

definition ring_ok :: "nat \<Rightarrow> u8 list \<Rightarrow> usize \<Rightarrow> usize \<Rightarrow> bool" where
  "ring_ok N buf r w \<longleftrightarrow> length buf = N \<and> unat (w - r) \<le> N"

lemma length_ring_contents [simp]: "length (ring_contents N buf r w) = unat (w - r)"
  by (simp add: ring_contents_def)

lemma unat_diff_Suc:
  fixes w r :: usize
  assumes "unat (w - r) < N" "N < 2 ^ 64"
  shows "unat (w + 1 - r) = unat (w - r) + 1"
proof -
  have "unat ((w - r) + 1) = unat (w - r) + 1"
    using assms by (simp add: unat_word_ariths(1))
  then show ?thesis by (simp add: algebra_simps)
qed

lemma unat_add_mod:
  fixes r :: usize
  assumes "N dvd 2 ^ 64"
  shows "unat (r + of_nat k) mod N = (unat r + k) mod N"
proof -
  have "unat (r + of_nat k) = (unat r + k) mod 2 ^ 64"
    by (simp add: unat_word_ariths unat_of_nat mod_add_right_eq)
  then show ?thesis by (simp only: mod_mod_cancel [OF assms])
qed

text \<open>Distinct places of a queue that is not full are distinct places of the array.\<close>

lemma add_mod_neq:
  fixes a k n N :: nat
  assumes "k < n" "n < N"
  shows "(a + k) mod N \<noteq> (a + n) mod N"
proof
  assume "(a + k) mod N = (a + n) mod N"
  then have "N dvd (a + n) - (a + k)"
    using assms by (metis mod_eq_dvd_iff_nat nat_add_left_cancel_le less_imp_le_nat)
  then have "N dvd n - k" by simp
  then show False using assms by (auto dest!: dvd_imp_le)
qed

lemma ring_push:
  assumes N: "N dvd 2 ^ 64" "N < 2 ^ 64" and ok: "ring_ok N buf r w" and room: "unat (w - r) < N"
  shows "ring_ok N (buf[unat w mod N := c]) r (w + 1)"
    and "ring_contents N (buf[unat w mod N := c]) r (w + 1) = ring_contents N buf r w @ [c]"
proof -
  let ?n = "unat (w - r)"
  have step: "unat (w + 1 - r) = ?n + 1" by (rule unat_diff_Suc [OF room N(2)])
  show "ring_ok N (buf[unat w mod N := c]) r (w + 1)"
    using ok room step by (simp add: ring_ok_def)
  have w: "unat w mod N = (unat r + ?n) mod N"
    using unat_add_mod [OF N(1), of r ?n] by simp
  have len: "length buf = N" "0 < N" using ok room by (auto simp: ring_ok_def)
  have "buf[unat w mod N := c] ! (unat (r + of_nat k) mod N) = buf ! (unat (r + of_nat k) mod N)"
    if "k < ?n" for k
    using add_mod_neq [OF that room, of "unat r"] by (simp add: unat_add_mod [OF N(1)] w)
  moreover have "buf[unat w mod N := c] ! (unat (r + of_nat ?n) mod N) = c"
    using len by (simp add: unat_add_mod [OF N(1)] w)
  ultimately show "ring_contents N (buf[unat w mod N := c]) r (w + 1) = ring_contents N buf r w @ [c]"
    by (simp add: ring_contents_def step del: of_nat_unat)
qed

lemma ring_pop:
  assumes N: "N < 2 ^ 64" and ok: "ring_ok N buf r w" and ne: "r \<noteq> w"
  shows "ring_ok N buf (r + 1) w"
    and "ring_contents N buf r w = buf ! (unat r mod N) # ring_contents N buf (r + 1) w"
proof -
  have "w - r \<noteq> 0" using ne by simp
  then have pos: "0 < unat (w - r)" by (simp add: unat_gt_0)
  have "unat (w - r - 1) = unat (w - r) - 1" using \<open>w - r \<noteq> 0\<close> by (rule unat_minus_one)
  then have step: "unat (w - r) = Suc (unat (w - (r + 1)))" using pos by (simp add: algebra_simps)
  show "ring_ok N buf (r + 1) w" using ok step by (simp add: ring_ok_def)
  have shift: "r + of_nat (Suc k) = (r + 1) + of_nat k" for k by (simp add: algebra_simps)
  show "ring_contents N buf r w = buf ! (unat r mod N) # ring_contents N buf (r + 1) w"
    unfolding ring_contents_def step
    by (subst upt_conv_Cons) (simp_all add: map_Suc_upt [symmetric] shift del: upt_Suc of_nat_Suc)
qed

section \<open>The contract\<close>

locale byte_queue =
  fixes qinv :: "'q \<Rightarrow> bool"
    and contents :: "'q \<Rightarrow> u8 list"
    and cap :: nat
    and push :: "u8 \<Rightarrow> 'q \<Rightarrow> 'q"
    and pop :: "'q \<Rightarrow> u8 \<times> 'q"
  assumes bounded: "qinv q \<Longrightarrow> length (contents q) \<le> cap"
    and push_law: "qinv q \<Longrightarrow> length (contents q) < cap \<Longrightarrow>
      qinv (push c q) \<and> contents (push c q) = contents q @ [c]"
    and pop_law: "qinv q \<Longrightarrow> contents q \<noteq> [] \<Longrightarrow>
      qinv (snd (pop q)) \<and> contents q = fst (pop q) # contents (snd (pop q))"
begin

text \<open>The account of a run of steps in any order: the bytes \<open>ps\<close> that were there at first or went in since
  are the bytes \<open>outs\<close> that came out followed by those still there. Each step keeps it.\<close>

lemma fifo_push:
  assumes "qinv q" "length (contents q) < cap" "ps = outs @ contents q"
  shows "qinv (push c q) \<and> ps @ [c] = outs @ contents (push c q)"
  using push_law [OF assms(1,2), of c] assms(3) by simp

lemma fifo_pop:
  assumes "qinv q" "contents q \<noteq> []" "ps = outs @ contents q"
  shows "qinv (snd (pop q)) \<and> ps = (outs @ [fst (pop q)]) @ contents (snd (pop q))"
  using pop_law [OF assms(1,2)] assms(3) by simp

end

end
