(* ===== verification/Rx_Pipe.thy ===== *)
theory Rx_Pipe
  imports Rx_Ring Rx_Proc
begin

text \<open>
  Pipes, \<^verbatim>\<open>fs/pipe.rs\<close>. A pipe is the structure in the page it was given, named by the address of
  that page. Each end has a lock of its own around the same pointer, so the ends do not exclude
  each other; the steps of the two loops are single bytes, which may interleave. A call that has to
  wait stops with the channel to sleep on and the number of bytes moved so far, and is resumed from
  there. The copies to and from the user's memory are arguments of the loops.
\<close>

section \<open>The structure\<close>

definition PIPESIZE :: nat where "PIPESIZE = 512"

record pipe_inner =
  pi_data :: "u8 list"
  pi_nread :: usize
  pi_nwrite :: usize
  pi_readopen :: bool
  pi_writeopen :: bool

definition pipe_alloc :: "kmem \<Rightarrow> (usize \<times> pipe_inner \<times> kmem) outcome" where
  "pipe_alloc s =
     bindR (new_zeroed s) (\<lambda>(pa, s).
       Inr (pa, \<lparr>pi_data = replicate PIPESIZE 0, pi_nread = 0, pi_nwrite = 0,
                 pi_readopen = True, pi_writeopen = True\<rparr>, s))"

text \<open>The page is given back when both ends are closed; then there is no pipe any more.\<close>

definition pipe_close :: "nat option \<Rightarrow> usize \<Rightarrow> bool \<Rightarrow> pipe_inner \<Rightarrow> 'i ptable \<Rightarrow> kmem \<Rightarrow>
    (pipe_inner option \<times> 'i ptable \<times> kmem) outcome" where
  "pipe_close me pa writeable q t s =
     (let (q, t) = (if writeable
            then (q\<lparr>pi_writeopen := False\<rparr>, wake_up me (ChanPipeRead pa) t)
            else (q\<lparr>pi_readopen := False\<rparr>, wake_up me (ChanPipeWrite pa) t)) in
      if \<not> pi_readopen q \<and> \<not> pi_writeopen q
      then bindR (drop_page pa s) (\<lambda>s. Inr (None, t, s))
      else Inr (Some q, t, s))"

section \<open>Moving bytes\<close>

definition pipe_push :: "u8 \<Rightarrow> pipe_inner \<Rightarrow> pipe_inner" where
  "pipe_push c q =
     q\<lparr>pi_data := (pi_data q)[unat (pi_nwrite q) mod PIPESIZE := c], pi_nwrite := pi_nwrite q + 1\<rparr>"

definition pipe_pop :: "pipe_inner \<Rightarrow> u8 \<times> pipe_inner" where
  "pipe_pop q = (pi_data q ! (unat (pi_nread q) mod PIPESIZE), q\<lparr>pi_nread := pi_nread q + 1\<rparr>)"

datatype pipe_stop = PipeDone | PipeKilled | PipeSleep

text \<open>One turn of the loop of \<^verbatim>\<open>write\<close>: it stops the loop, or moves a byte. A turn that moves a byte
  gives the byte together with the pipe.\<close>

definition pipe_write_turn :: "(usize \<Rightarrow> u8 outcome) \<Rightarrow> bool \<Rightarrow> usize \<Rightarrow> nat \<Rightarrow> pipe_inner \<Rightarrow>
    (pipe_stop + u8 \<times> pipe_inner) outcome" where
  "pipe_write_turn rd killed addr i q =
     (if \<not> pi_readopen q \<and> killed then Inr (Inl PipeKilled)
      else bindR (add_ck (pi_nread q) (of_nat PIPESIZE)) (\<lambda>full.
        if pi_nwrite q = full then Inr (Inl PipeSleep)
        else bindR (add_ck addr (of_nat i)) (\<lambda>a.
          bindR (rd a) (\<lambda>c.
            bindR (add_ck (pi_nwrite q) 1) (\<lambda>_. Inr (Inr (c, pipe_push c q)))))))"

function pipe_write_loop :: "(usize \<Rightarrow> u8 outcome) \<Rightarrow> bool \<Rightarrow> usize \<Rightarrow> nat \<Rightarrow> nat \<Rightarrow> pipe_inner \<Rightarrow>
    (pipe_stop \<times> nat \<times> pipe_inner) outcome" where
  "pipe_write_loop rd killed addr n i q =
     (if i < n then
        bindR (pipe_write_turn rd killed addr i q) (\<lambda>r.
          case r of
            Inl st \<Rightarrow> Inr (st, i, q)
          | Inr (c, q) \<Rightarrow> pipe_write_loop rd killed addr n (i + 1) q)
      else Inr (PipeDone, i, q))"
  by pat_completeness auto
termination
  by (relation "measure (\<lambda>(rd, killed, addr, n, i, q). n - i)") auto

declare pipe_write_loop.simps [simp del]

text \<open>One turn of the loop of \<^verbatim>\<open>read\<close>: nothing when the pipe is drained.\<close>

definition pipe_read_turn :: "(usize \<Rightarrow> u8 \<Rightarrow> 'm \<Rightarrow> 'm outcome) \<Rightarrow> usize \<Rightarrow> nat \<Rightarrow> pipe_inner \<Rightarrow> 'm \<Rightarrow>
    (u8 \<times> pipe_inner \<times> 'm) option outcome" where
  "pipe_read_turn wr addr i q m =
     (if pi_nread q = pi_nwrite q then Inr None
      else let (c, q') = pipe_pop q in
        bindR (add_ck addr (of_nat i)) (\<lambda>a.
          bindR (wr a c m) (\<lambda>m.
            bindR (add_ck (pi_nread q) 1) (\<lambda>_. Inr (Some (c, q', m))))))"

function pipe_read_loop :: "(usize \<Rightarrow> u8 \<Rightarrow> 'm \<Rightarrow> 'm outcome) \<Rightarrow> usize \<Rightarrow> nat \<Rightarrow> nat \<Rightarrow> pipe_inner \<Rightarrow> 'm \<Rightarrow>
    (nat \<times> pipe_inner \<times> 'm) outcome" where
  "pipe_read_loop wr addr n i q m =
     (if i < n then
        bindR (pipe_read_turn wr addr i q m) (\<lambda>r.
          case r of
            None \<Rightarrow> Inr (i, q, m)
          | Some (c, q, m) \<Rightarrow> pipe_read_loop wr addr n (i + 1) q m)
      else Inr (i, q, m))"
  by pat_completeness auto
termination
  by (relation "measure (\<lambda>(wr, addr, n, i, q, m). n - i)") auto

declare pipe_read_loop.simps [simp del]

section \<open>The calls\<close>

datatype 'a io = Ready 'a | Wait chan nat

definition user_byte :: "usize \<Rightarrow> kmem \<Rightarrow> usize \<Rightarrow> u8 outcome" where
  "user_byte pgt s a = bindR (copy_in pgt 1 a s) (\<lambda>bs. idx_get bs 0)"

definition user_put :: "usize \<Rightarrow> usize \<Rightarrow> u8 \<Rightarrow> kmem \<Rightarrow> kmem outcome" where
  "user_put pgt a c s = copy_out pgt a [c] s"

text \<open>A write of \<open>n\<close> bytes by process \<open>me\<close> of which \<open>i\<close> have been moved.\<close>

definition pipe_write :: "nat \<Rightarrow> usize \<Rightarrow> usize \<Rightarrow> nat \<Rightarrow> nat \<Rightarrow> pipe_inner \<Rightarrow> 'i ptable \<Rightarrow> kmem \<Rightarrow>
    ((string + nat) io \<times> pipe_inner \<times> 'i ptable) outcome" where
  "pipe_write me pa addr n i q t s =
     bindR (get_proc me t) (\<lambda>p.
       bindR (unwrap (pd_pagetable (pr_data p))) (\<lambda>pgt.
         bindR (pipe_write_loop (user_byte pgt s) (pm_killed (pr_meta p)) addr n i q) (\<lambda>(st, i, q).
           Inr (case st of
               PipeKilled \<Rightarrow> (Ready (Inl ''This proc is killed''), q, t)
             | PipeSleep \<Rightarrow> (Wait (ChanPipeWrite pa) i, q, wake_up (Some me) (ChanPipeRead pa) t)
             | PipeDone \<Rightarrow> (Ready (Inr i), q, wake_up (Some me) (ChanPipeRead pa) t)))))"

definition pipe_read :: "nat \<Rightarrow> usize \<Rightarrow> usize \<Rightarrow> nat \<Rightarrow> pipe_inner \<Rightarrow> 'i ptable \<Rightarrow> kmem \<Rightarrow>
    ((string + nat) io \<times> pipe_inner \<times> 'i ptable \<times> kmem) outcome" where
  "pipe_read me pa addr n q t s =
     bindR (get_proc me t) (\<lambda>p.
       bindR (unwrap (pd_pagetable (pr_data p))) (\<lambda>pgt.
         if pi_nread q = pi_nwrite q \<and> pi_writeopen q then
           Inr (if pm_killed (pr_meta p) then Ready (Inl ''This proc is killed'')
                else Wait (ChanPipeRead pa) 0, q, t, s)
         else bindR (pipe_read_loop (user_put pgt) addr n 0 q s) (\<lambda>(i, q, s).
           Inr (Ready (Inr i), q, wake_up (Some me) (ChanPipeWrite pa) t, s))))"

section \<open>The queue\<close>

definition pipe_contents :: "pipe_inner \<Rightarrow> u8 list" where
  "pipe_contents q = ring_contents PIPESIZE (pi_data q) (pi_nread q) (pi_nwrite q)"

definition pipe_ok :: "pipe_inner \<Rightarrow> bool" where
  "pipe_ok q \<longleftrightarrow> ring_ok PIPESIZE (pi_data q) (pi_nread q) (pi_nwrite q)"

lemma PIPESIZE_dvd: "PIPESIZE dvd 2 ^ 64" "PIPESIZE < 2 ^ 64" "0 < PIPESIZE"
  by (simp_all add: PIPESIZE_def)

interpretation pq: byte_queue pipe_ok pipe_contents PIPESIZE pipe_push pipe_pop
proof
  fix q c
  show "length (pipe_contents q) \<le> PIPESIZE" if "pipe_ok q"
    using that by (simp add: pipe_ok_def pipe_contents_def ring_ok_def)
  show "pipe_ok (pipe_push c q) \<and> pipe_contents (pipe_push c q) = pipe_contents q @ [c]"
    if "pipe_ok q" "length (pipe_contents q) < PIPESIZE"
    using that ring_push [OF PIPESIZE_dvd(1,2), of "pi_data q" "pi_nread q" "pi_nwrite q" c]
    by (simp add: pipe_ok_def pipe_contents_def pipe_push_def)
  show "pipe_ok (snd (pipe_pop q)) \<and> pipe_contents q = fst (pipe_pop q) # pipe_contents (snd (pipe_pop q))"
    if "pipe_ok q" "pipe_contents q \<noteq> []"
  proof -
    have "pi_nread q \<noteq> pi_nwrite q" using that(2) by (auto simp: pipe_contents_def ring_contents_def)
    then show ?thesis
      using that(1) ring_pop [OF PIPESIZE_dvd(2), of "pi_data q" "pi_nread q" "pi_nwrite q"]
      by (simp add: pipe_ok_def pipe_contents_def pipe_pop_def)
  qed
qed

text \<open>The counters do not wrap before the next \<open>k\<close> bytes.\<close>

definition pipe_far :: "nat \<Rightarrow> pipe_inner \<Rightarrow> bool" where
  "pipe_far k q \<longleftrightarrow> pi_nread q \<le> pi_nwrite q \<and> unat (pi_nwrite q) + k + PIPESIZE < 2 ^ 64"

lemma pipe_drained_iff: "pi_nread q = pi_nwrite q \<longleftrightarrow> pipe_contents q = []"
proof
  assume "pipe_contents q = []"
  then have "unat (pi_nwrite q - pi_nread q) = 0" by (metis length_ring_contents list.size(3) pipe_contents_def)
  then show "pi_nread q = pi_nwrite q" by (simp add: unat_eq_0)
qed (simp add: pipe_contents_def ring_contents_def)

lemma pipe_full_iff: "pi_nwrite q = pi_nread q + of_nat PIPESIZE \<longleftrightarrow> length (pipe_contents q) = PIPESIZE"
proof -
  have "unat (of_nat PIPESIZE :: usize) = PIPESIZE" by (simp add: PIPESIZE_def)
  moreover have "pi_nwrite q = pi_nread q + of_nat PIPESIZE \<longleftrightarrow> pi_nwrite q - pi_nread q = of_nat PIPESIZE"
    by (simp add: algebra_simps)
  ultimately show ?thesis by (simp add: pipe_contents_def word_unat_eq_iff)
qed

lemma pipe_contents_full:
  assumes "pipe_far k q"
  shows "add_ck (pi_nread q) (of_nat PIPESIZE) = Inr (pi_nread q + of_nat PIPESIZE)"
proof -
  have "unat (pi_nread q) \<le> unat (pi_nwrite q)" using assms by (simp add: pipe_far_def word_le_nat_alt)
  then show ?thesis using assms by (simp add: add_ck_def pipe_far_def PIPESIZE_def)
qed

lemma pipe_far_push:
  assumes "pipe_far (Suc k) q"
  shows "add_ck (pi_nwrite q) 1 = Inr (pi_nwrite q + 1)" and "pipe_far k (pipe_push c q)"
proof -
  have u: "unat (pi_nwrite q + 1) = unat (pi_nwrite q) + 1"
    using assms by (simp add: pipe_far_def unat_word_ariths)
  then show "add_ck (pi_nwrite q) 1 = Inr (pi_nwrite q + 1)"
    using assms by (simp add: add_ck_def pipe_far_def)
  show "pipe_far k (pipe_push c q)"
    using assms u by (simp add: pipe_far_def pipe_push_def word_le_nat_alt)
qed

lemma add_ck_nat:
  assumes "unat (a :: usize) + n < 2 ^ 64" "i \<le> n"
  shows "add_ck a (of_nat i) = Inr (a + of_nat i)"
  using assms by (simp add: add_ck_def unat_of_nat)

lemma pipe_write_loop_spec:
  assumes "pipe_ok q" "pipe_far (n - i) q" "i \<le> n" "length bs = n" "unat addr + n < 2 ^ 64"
    "\<And>k. k < n \<Longrightarrow> rd (addr + of_nat k) = Inr (bs ! k)" "pi_readopen q \<or> \<not> killed"
    "j = min n (i + (PIPESIZE - length (pipe_contents q)))"
  shows "\<exists>q'. pipe_write_loop rd killed addr n i q = Inr (if j = n then PipeDone else PipeSleep, j, q') \<and>
           pipe_ok q' \<and> pipe_contents q' = pipe_contents q @ drop i (take j bs)"
  using assms
proof (induction "n - i" arbitrary: i q)
  case 0
  then have "i = n" "j = n" by auto
  then show ?case using 0 by (subst pipe_write_loop.simps) simp
next
  case (Suc d)
  note far = Suc.prems(2) and full = pipe_contents_full [OF Suc.prems(2)] pipe_full_iff [of q]
  have i: "i < n" using Suc.hyps(2) by simp
  have bound: "length (pipe_contents q) \<le> PIPESIZE" by (rule pq.bounded [OF Suc.prems(1)])
  show ?case
  proof (cases "length (pipe_contents q) = PIPESIZE")
    case True
    then have "j = i" using Suc.prems(3,8) by simp
    then show ?thesis using True i Suc.prems(1,7) full by (subst pipe_write_loop.simps) (auto simp: pipe_write_turn_def)
  next
    case False
    then have room: "length (pipe_contents q) < PIPESIZE" using bound by simp
    let ?q = "pipe_push (bs ! i) q"
    have push: "pipe_ok ?q" "pipe_contents ?q = pipe_contents q @ [bs ! i]"
      using pq.push_law [OF Suc.prems(1) room] by auto
    have d: "d = n - Suc i" "n - i = Suc (n - Suc i)" using Suc.hyps(2) by auto
    have far': "pipe_far (Suc (n - Suc i)) q" using far d(2) by simp
    have j: "j = min n (Suc i + (PIPESIZE - length (pipe_contents ?q)))"
      using Suc.prems(8) push(2) room by simp
    have ro: "pi_readopen ?q \<or> \<not> killed" using Suc.prems(7) by (simp add: pipe_push_def)
    have ij: "i < j" "j \<le> n" using Suc.prems(8) i room by auto
    have run: "pipe_write_loop rd killed addr n i q = pipe_write_loop rd killed addr n (Suc i) ?q"
      using i False full add_ck_nat [OF Suc.prems(5), of i] Suc.prems(6) [OF i] Suc.prems(7)
        pipe_far_push(1) [OF far'] by (subst pipe_write_loop.simps) (auto simp: pipe_write_turn_def)
    have "drop i (take j bs) = bs ! i # drop (Suc i) (take j bs)"
      using ij Suc.prems(4) by (subst Cons_nth_drop_Suc [symmetric]) auto
    then show ?thesis
      unfolding run
      using Suc.hyps(1) [OF d(1) push(1) pipe_far_push(2) [OF far'] _ Suc.prems(4,5,6) ro j] push(2) i
      by simp
  qed
qed

text \<open>The loop of \<^verbatim>\<open>read\<close> makes the stores of the bytes at the front of the pipe, one after the other,
  and panics when one of them does.\<close>

lemma pipe_read_loop_spec:
  assumes "pipe_ok q" "unat (pi_nread q) + (n - i) < 2 ^ 64" "i \<le> n" "unat addr + n < 2 ^ 64"
    "j = min (n - i) (length (pipe_contents q))" "q' = q\<lparr>pi_nread := pi_nread q + of_nat j\<rparr>"
  shows "pipe_read_loop wr addr n i q m =
             bindR (foldR (\<lambda>k. wr (addr + of_nat (i + k)) (pipe_contents q ! k)) [0..<j] m) (\<lambda>m. Inr (i + j, q', m)) \<and>
           pipe_ok q' \<and> pipe_contents q' = drop j (pipe_contents q)"
  using assms
proof (induction "n - i" arbitrary: i q m j q')
  case 0
  then have "i = n" "j = 0" "q' = q" by auto
  then show ?case using 0 by (subst pipe_read_loop.simps) simp
next
  case (Suc d)
  have i: "i < n" using Suc.hyps(2) by simp
  show ?case
  proof (cases "pipe_contents q = []")
    case True
    then show ?thesis using Suc.prems i by (subst pipe_read_loop.simps) (simp add: pipe_read_turn_def pipe_drained_iff)
  next
    case False
    let ?c = "fst (pipe_pop q)" and ?q = "snd (pipe_pop q)"
    have pop: "pipe_ok ?q" "pipe_contents q = ?c # pipe_contents ?q"
      using pq.pop_law [OF Suc.prems(1) False] by auto
    have u: "unat (pi_nread q + 1) = unat (pi_nread q) + 1" "add_ck (pi_nread q) 1 = Inr (pi_nread q + 1)"
      using Suc.prems(2) i by (auto simp: unat_word_ariths add_ck_def)
    have nr: "unat (pi_nread ?q) + (n - Suc i) < 2 ^ 64"
      using Suc.prems(2) i u(1) by (simp add: pipe_pop_def)
    have run: "pipe_read_loop wr addr n i q m = bindR (wr (addr + of_nat i) ?c m) (pipe_read_loop wr addr n (Suc i) ?q)"
      using i False add_ck_nat [OF Suc.prems(4), of i] u(2)
      by (subst pipe_read_loop.simps) (simp add: pipe_read_turn_def pipe_drained_iff case_prod_beta bindR_assoc)
    obtain j' where j': "j = Suc j'" "j' = min (n - Suc i) (length (pipe_contents ?q))"
      using Suc.prems(5) pop(2) i by (metis Suc_diff_Suc length_Cons min_Suc_Suc)
    have d: "d = n - Suc i" and le: "Suc i \<le> n" using Suc.hyps(2) i by simp_all
    have q': "q' = ?q\<lparr>pi_nread := pi_nread ?q + of_nat j'\<rparr>"
      using Suc.prems(6) j'(1) by (simp add: pipe_pop_def algebra_simps)
    have nth: "pipe_contents q ! 0 = ?c" "pipe_contents q ! Suc k = pipe_contents ?q ! k" for k
      by (subst pop(2), simp)+
    let ?g = "\<lambda>k. wr (addr + of_nat (Suc i + k)) (pipe_contents ?q ! k)"
    have stores: "foldR (\<lambda>k. wr (addr + of_nat (i + k)) (pipe_contents q ! k)) [0..<Suc j'] m =
        bindR (wr (addr + of_nat i) ?c m) (foldR ?g [0..<j'])"
      by (simp only: upt_conv_Cons [OF zero_less_Suc] foldR.simps map_Suc_upt [symmetric] foldR_map nth
          add_Suc_right add_Suc add_0_right)
    note IH = Suc.hyps(1) [OF d pop(1) nr le Suc.prems(4) j'(2) q']
    have "drop (Suc j') (pipe_contents q) = drop j' (pipe_contents ?q)" by (subst pop(2)) simp
    then show ?thesis unfolding run j'(1) stores using IH by (auto simp: bindR_assoc fun_eq_iff intro!: bindR_cong)
  qed
qed

section \<open>Interleavings\<close>

text \<open>What can happen to a pipe between two of its states, with the bytes that went in and came out: a
  turn of a writer that moves a byte, a turn of a reader that moves a byte, and any change of which ends
  are open.
  The process, its memory and its place in the call differ from turn to turn.\<close>

inductive pipe_steps :: "pipe_inner \<Rightarrow> u8 list \<Rightarrow> u8 list \<Rightarrow> pipe_inner \<Rightarrow> bool" for q0 where
  steps_none: "pipe_steps q0 [] [] q0"
| steps_write: "pipe_steps q0 ins outs q \<Longrightarrow> pipe_write_turn rd killed addr i q = Inr (Inr (c, q')) \<Longrightarrow>
    pipe_steps q0 (ins @ [c]) outs q'"
| steps_read: "pipe_steps q0 ins outs q \<Longrightarrow> pipe_read_turn wr addr i q (m :: kmem) = Inr (Some (c, q', m')) \<Longrightarrow>
    pipe_steps q0 ins (outs @ [c]) q'"
| steps_close: "pipe_steps q0 ins outs q \<Longrightarrow> pipe_steps q0 ins outs (q\<lparr>pi_readopen := r, pi_writeopen := w\<rparr>)"

lemma pipe_write_turn_moves:
  assumes "pipe_write_turn rd killed addr i q = Inr (Inr (c, q'))"
  shows "q' = pipe_push c q" "length (pipe_contents q) \<noteq> PIPESIZE"
  using assms pipe_full_iff [of q] by (auto simp: pipe_write_turn_def outcome_simps add_ck_eq_Inr_iff split: if_splits)

lemma pipe_read_turn_moves:
  assumes "pipe_read_turn wr addr i q m = Inr (Some (c, q', m'))"
  shows "pipe_contents q \<noteq> []" "c = fst (pipe_pop q)" "q' = snd (pipe_pop q)"
  using assms pipe_drained_iff [of q] by (auto simp: pipe_read_turn_def outcome_simps Let_def split: if_splits prod.splits)

lemma pipe_steps_fifo:
  assumes "pipe_steps q ins outs q'" "pipe_ok q"
  shows "pipe_ok q' \<and> pipe_contents q @ ins = outs @ pipe_contents q'"
  using assms
proof (induction rule: pipe_steps.induct)
  case (steps_write ins outs q1 rd killed addr i c q2)
  then have "pipe_ok q1" "length (pipe_contents q1) < PIPESIZE"
    using pipe_write_turn_moves(2) [OF steps_write.hyps(2)] pq.bounded [of q1] by simp_all
  from pq.fifo_push [OF this, of "pipe_contents q @ ins" outs c] steps_write show ?case
    by (simp add: pipe_write_turn_moves(1) [OF steps_write.hyps(2)] flip: append_assoc)
next
  case (steps_read ins outs q1 wr addr i m c q2 m')
  then show ?case
    using pq.fifo_pop [OF _ pipe_read_turn_moves(1) [OF steps_read.hyps(2)], of "pipe_contents q @ ins" outs]
    by (simp add: pipe_read_turn_moves(2,3) [OF steps_read.hyps(2)] flip: append_assoc)
qed (simp_all add: pipe_contents_def pipe_ok_def)

lemma pipe_read_turn_None: "pipe_read_turn wr addr i q m = Inr None \<longleftrightarrow> pipe_contents q = []"
  by (auto simp: pipe_read_turn_def pipe_drained_iff outcome_simps Let_def split: if_splits prod.splits)

lemma pipe_write_turn_sleeps:
  "pipe_write_turn rd killed addr i q = Inr (Inl PipeSleep) \<Longrightarrow> length (pipe_contents q) = PIPESIZE"
  using pipe_full_iff [of q] by (auto simp: pipe_write_turn_def outcome_simps add_ck_eq_Inr_iff split: if_splits)

lemma pipe_write_turn_full:
  "length (pipe_contents q) = PIPESIZE \<Longrightarrow> pipe_write_turn rd killed addr i q \<noteq> Inr (Inr r)"
  using pipe_full_iff [of q] by (auto simp: pipe_write_turn_def outcome_simps add_ck_eq_Inr_iff split: if_splits)

section \<open>Properties\<close>

definition pipe_empty :: pipe_inner where
  "pipe_empty = \<lparr>pi_data = replicate PIPESIZE 0, pi_nread = 0, pi_nwrite = 0,
     pi_readopen = True, pi_writeopen = True\<rparr>"

lemma pipe_empty_facts:
  "pipe_ok pipe_empty" "pipe_contents pipe_empty = []" "k < 2 ^ 32 \<Longrightarrow> pipe_far k pipe_empty"
  by (simp_all add: pipe_ok_def pipe_contents_def pipe_empty_def ring_ok_def ring_contents_def
      pipe_far_def PIPESIZE_def)

text \<open>C31. A pipe is a bounded first-in first-out queue. Take any interleaving of turns of the loops of
  \<^verbatim>\<open>write\<close> and \<^verbatim>\<open>read\<close>, of any number of calls by any processes, with the checks for a full and for a
  drained pipe that the turns make and with ends that are closed in between: the bytes that were in the
  pipe followed by the bytes put in are the bytes taken out followed by the bytes still there, and there
  are never more than 512. The checks are exact: a reader finds the pipe drained exactly when it is
  empty, a writer goes to sleep only on a full pipe and moves no byte into one.\<close>

theorem pipe_fifo:
  assumes "pipe_ok q" "pipe_steps q ins outs q'"
  shows "pipe_contents q @ ins = outs @ pipe_contents q' \<and> length (pipe_contents q') \<le> PIPESIZE \<and> pipe_ok q' \<and>
    (pipe_read_turn wr addr i q' m = Inr None \<longleftrightarrow> pipe_contents q' = []) \<and>
    (pipe_write_turn rd killed addr i q' = Inr (Inl PipeSleep) \<longrightarrow> length (pipe_contents q') = PIPESIZE) \<and>
    (length (pipe_contents q') = PIPESIZE \<longrightarrow> (\<forall>r. pipe_write_turn rd killed addr i q' \<noteq> Inr (Inr r)))"
  using pipe_steps_fifo [OF assms(2,1)] pq.bounded [of q']
  by (auto simp: pipe_read_turn_None pipe_write_turn_full dest: pipe_write_turn_sleeps)

text \<open>A writer puts in two bytes, one of them before and one after a reader takes the first.\<close>

theorem pipe_fifo_witness:
  "\<exists>q'. pipe_steps pipe_empty [7, 8] [7] q' \<and> pipe_contents q' = [8]"
proof -
  let ?q1 = "pipe_push 7 pipe_empty" and ?rd = "\<lambda>a :: usize. Inr (if a = 100 then 7 else 8) :: u8 outcome"
  let ?q2 = "snd (pipe_pop ?q1)"
  have 1: "pipe_write_turn ?rd False 100 0 pipe_empty = Inr (Inr (7, ?q1))"
    by (simp add: pipe_write_turn_def pipe_empty_def PIPESIZE_def add_ck_def)
  have 2: "pipe_read_turn (\<lambda>a c m. Inr m) 200 0 ?q1 m = Inr (Some (7, ?q2, m))" for m :: kmem
    by (simp add: pipe_read_turn_def pipe_empty_def pipe_push_def pipe_pop_def PIPESIZE_def add_ck_def)
  have 3: "pipe_write_turn ?rd False 100 1 ?q2 = Inr (Inr (8, pipe_push 8 ?q2))"
    by (simp add: pipe_write_turn_def pipe_empty_def pipe_push_def pipe_pop_def PIPESIZE_def add_ck_def)
  have run: "pipe_steps pipe_empty [7, 8] [7] (pipe_push 8 ?q2)"
    using steps_write [OF steps_read [OF steps_write [OF steps_none 1] 2] 3] by simp
  from pipe_fifo [OF pipe_empty_facts(1) run, THEN conjunct1] have "pipe_contents (pipe_push 8 ?q2) = [8]"
    by (simp add: pipe_empty_facts(2))
  with run show ?thesis by blast
qed

text \<open>C32. A write appends to the pipe, in order, as many of its remaining bytes as there is room
  for, and no others; it is done exactly when all are moved, and otherwise stops to sleep on a
  full pipe.\<close>

theorem pipe_write_appends:
  assumes "pipe_ok q" "pipe_far (n - i) q" "i \<le> n" "length bs = n" "unat addr + n < 2 ^ 64"
    "\<forall>k<n. rd (addr + of_nat k) = Inr (bs ! k)" "pi_readopen q \<or> \<not> killed"
  shows "\<exists>j q'. pipe_write_loop rd killed addr n i q = Inr (if j = n then PipeDone else PipeSleep, j, q') \<and>
           j = min n (i + (PIPESIZE - length (pipe_contents q))) \<and>
           pipe_contents q' = pipe_contents q @ drop i (take j bs) \<and>
           (j < n \<longrightarrow> length (pipe_contents q') = PIPESIZE) \<and> pipe_ok q'"
proof -
  let ?j = "min n (i + (PIPESIZE - length (pipe_contents q)))"
  obtain q' where q': "pipe_write_loop rd killed addr n i q = Inr (if ?j = n then PipeDone else PipeSleep, ?j, q')"
      "pipe_ok q'" "pipe_contents q' = pipe_contents q @ drop i (take ?j bs)"
    using pipe_write_loop_spec [OF assms(1-5) _ assms(7) refl, of rd] assms(6) by blast
  have "length (pipe_contents q') = PIPESIZE" if "?j < n"
    using q'(3) that assms(3,4) pq.bounded [OF assms(1)] by auto
  then show ?thesis using q' by blast
qed

theorem pipe_write_appends_witness:
  "\<exists>q'. pipe_write_loop (\<lambda>a. Inr (ucast a)) False 5 3 0 pipe_empty = Inr (PipeDone, 3, q') \<and>
     pipe_contents q' = [5, 6, 7]"
proof -
  have "\<forall>k<3. (Inr (ucast (5 + of_nat k :: usize)) :: u8 outcome) = Inr ([5, 6, 7] ! k)"
    by (auto simp: less_Suc_eq numeral_3_eq_3)
  from pipe_write_appends [of pipe_empty 3 0 "[5, 6, 7]" 5 "\<lambda>a. Inr (ucast a)" False, OF _ _ _ _ _ this]
  show ?thesis using pipe_empty_facts by (auto simp: PIPESIZE_def)
qed

end
