(* ===== verification/Rx_Pipe_User.thy ===== *)
theory Rx_Pipe_User
  imports Rx_Pipe Rx_Memory_Props
begin

text \<open>
  Reading from a pipe into user memory. The loop of \<^verbatim>\<open>read\<close> stores the bytes one by one with
  \<^verbatim>\<open>copy_out\<close>; together the stores write the user's buffer.
\<close>

section \<open>Single stores\<close>

lemma uwritten_Nil: "uwritten m m root a []"
  by (simp add: uwritten_def)

lemma uwritable_le: "uwritable m root a n \<Longrightarrow> k \<le> n \<Longrightarrow> uwritable m root a k"
  unfolding uwritable_def by (auto intro: inj_on_subset)

lemma user_put_written:
  assumes "wf_pt (pmem s) root" "unat a < 2 ^ 38" "uwritable (pmem s) root (unat a) 1"
  obtains m' where "user_put root a c s = Inr (s\<lparr>pmem := m'\<rparr>)" "uwritten (pmem s) m' root (unat a) [c]" "pt_same (pmem s) m' root"
  using copy_out_written [OF assms(1), of a "[c]"] assms(2,3) by (auto simp: user_put_def)

text \<open>The stores of a list of bytes at consecutive addresses.\<close>

lemma user_puts_written:
  assumes wf: "wf_pt (pmem s) root" and bound: "unat addr + n \<le> 2 ^ 38" and w: "uwritable (pmem s) root (unat addr) n"
    and j: "j \<le> n" "j \<le> length bs"
  shows "\<exists>m'. foldR (\<lambda>k. user_put root (addr + of_nat k) (bs ! k)) [0..<j] s = Inr (s\<lparr>pmem := m'\<rparr>) \<and>
     uwritten (pmem s) m' root (unat addr) (take j bs) \<and> pt_same (pmem s) m' root"
  using j
proof (induction j)
  case 0
  then show ?case by (auto intro!: exI [of _ "pmem s"] simp: uwritten_Nil pt_same_def)
next
  case (Suc j)
  then obtain m1 where m1: "foldR (\<lambda>k. user_put root (addr + of_nat k) (bs ! k)) [0..<j] s = Inr (s\<lparr>pmem := m1\<rparr>)"
    "uwritten (pmem s) m1 root (unat addr) (take j bs)" "pt_same (pmem s) m1 root" by auto
  let ?s = "s\<lparr>pmem := m1\<rparr>" and ?a = "addr + of_nat j"
  have a: "unat ?a = unat addr + j" using bound Suc.prems by (simp add: unat_word_ariths unat_of_nat)
  have wj: "uwritable (pmem s) root (unat addr) (j + 1)" by (rule uwritable_le [OF w]) (use Suc.prems in simp)
  have "uwritable (pmem ?s) root (unat ?a) 1"
    using uwritable_drop [OF wj] by (simp add: a uwritable_same [OF m1(3)])
  moreover have "wf_pt (pmem ?s) root" "unat ?a < 2 ^ 38" using pt_same_wf [OF m1(3) wf] bound Suc.prems a by simp_all
  ultimately obtain m2 where m2: "user_put root ?a (bs ! j) ?s = Inr (?s\<lparr>pmem := m2\<rparr>)"
    "uwritten m1 m2 root (unat addr + j) [bs ! j]" "pt_same m1 m2 root"
    using user_put_written [of ?s root ?a "bs ! j"] a by auto
  have "uwritten (pmem s) m2 root (unat addr) (take j bs @ [bs ! j])"
    by (rule uwritten_append [OF _ m1(3,2)]) (use wj Suc.prems m2(2) in simp_all)
  moreover have "take (Suc j) bs = take j bs @ [bs ! j]" using Suc.prems by (simp add: take_Suc_conv_app_nth)
  ultimately show ?case
    using m1(1) m2(1) pt_same_trans [OF m1(3) m2(3)] by (auto simp: foldR_append)
qed

section \<open>Property\<close>

text \<open>C33. A read from a pipe that is not empty, or that nobody can write any more, takes from its front
  as many bytes as are asked for, or all there are: it returns their number, they are in the reader's
  buffer in order, no other byte of physical memory and no mapping changes, the rest stays in the pipe,
  and the writers that wait for room are woken. The buffer has to be mapped to the reader's own pages,
  or the copy panics.\<close>

theorem pipe_read_takes:
  assumes "pipe_ok q" "unat (pi_nread q) + n < 2 ^ 64" "pipe_contents q \<noteq> [] \<or> \<not> pi_writeopen q"
    and "get_proc me t = Inr p" "pd_pagetable (pr_data p) = Some root"
    and "wf_pt (pmem s) root" "unat addr + n \<le> 2 ^ 38" "uwritable (pmem s) root (unat addr) n"
  shows "\<exists>j q' m'. j = min n (length (pipe_contents q)) \<and>
    pipe_read me pa addr n q t s = Inr (Ready (Inr j), q', wake_up (Some me) (ChanPipeWrite pa) t, s\<lparr>pmem := m'\<rparr>) \<and>
    uwritten (pmem s) m' root (unat addr) (take j (pipe_contents q)) \<and> vmap m' root = vmap (pmem s) root \<and>
    pipe_contents q' = drop j (pipe_contents q) \<and> pipe_ok q'"
proof -
  let ?j = "min n (length (pipe_contents q))"
  let ?q = "q\<lparr>pi_nread := pi_nread q + of_nat ?j\<rparr>"
  obtain m' where m': "foldR (\<lambda>k. user_put root (addr + of_nat k) (pipe_contents q ! k)) [0..<?j] s = Inr (s\<lparr>pmem := m'\<rparr>)"
    "uwritten (pmem s) m' root (unat addr) (take ?j (pipe_contents q))" "pt_same (pmem s) m' root"
    using user_puts_written [OF assms(6-8), of ?j "pipe_contents q"] by auto
  have "unat addr + n < 2 ^ 64" using assms(7) by simp
  from pipe_read_loop_spec [OF assms(1) _ _ this, of 0 ?j ?q "user_put root" s] m'(1) assms(2)
  have loop: "pipe_read_loop (user_put root) addr n 0 q s = Inr (?j, ?q, s\<lparr>pmem := m'\<rparr>)"
    "pipe_ok ?q" "pipe_contents ?q = drop ?j (pipe_contents q)" by simp_all
  have "\<not> (pi_nread q = pi_nwrite q \<and> pi_writeopen q)" using assms(3) by (auto simp: pipe_drained_iff)
  then have "pipe_read me pa addr n q t s = Inr (Ready (Inr ?j), ?q, wake_up (Some me) (ChanPipeWrite pa) t, s\<lparr>pmem := m'\<rparr>)"
    using loop(1) assms(4,5) by (simp add: pipe_read_def)
  then show ?thesis using m'(2) pt_same_vmap [OF m'(3)] loop(2,3) by blast
qed

text \<open>A process with one page reads the two bytes in a pipe into its memory.\<close>

theorem pipe_read_takes_witness:
  "\<exists>root s t q' m'. pipe_read 0 0x80500000 0x10 5 (pipe_push 8 (pipe_push 7 pipe_empty)) t s =
       Inr (Ready (Inr 2), q', wake_up (Some 0) (ChanPipeWrite 0x80500000) (t :: unit ptable), s\<lparr>pmem := m'\<rparr>) \<and>
     uwritten (pmem s) m' root 0x10 [7, 8] \<and> pipe_contents q' = []"
proof -
  let ?q = "pipe_push 8 (pipe_push 7 pipe_empty)"
  have q1: "pipe_ok (pipe_push 7 pipe_empty)" "pipe_contents (pipe_push 7 pipe_empty) = [7]"
    using pq.push_law [OF pipe_empty_facts(1), of 7] by (simp_all add: pipe_empty_facts PIPESIZE_def)
  have q2: "pipe_ok ?q" "pipe_contents ?q = [7, 8]"
    using pq.push_law [OF q1(1), of 8] by (simp_all add: q1 PIPESIZE_def)
  obtain root s u ps where b: "vs_inv 0x17FFF0000 ps root s" "vmap (pmem s) root = [0 \<mapsto> write_perm u RWXU]"
    "heap_page 0x17FFF0000 u" "u \<notin> pt_pages (pmem s) root" by (rule boot_page)
  let ?p = "(process_new 0)\<lparr>pr_data := (proc_data_new 0)\<lparr>pd_pagetable := Some root\<rparr>\<rparr>"
  let ?t = "ptable_new\<lparr>pt_proc := [?p]\<rparr> :: unit ptable"
  have "\<exists>j q' m'. j = min 5 (length (pipe_contents ?q)) \<and>
      pipe_read 0 0x80500000 0x10 5 ?q ?t s =
        Inr (Ready (Inr j), q', wake_up (Some 0) (ChanPipeWrite 0x80500000) ?t, s\<lparr>pmem := m'\<rparr>) \<and>
      uwritten (pmem s) m' root (unat (0x10 :: usize)) (take j (pipe_contents ?q)) \<and> vmap m' root = vmap (pmem s) root \<and>
      pipe_contents q' = drop j (pipe_contents ?q) \<and> pipe_ok q'"
    by (rule pipe_read_takes [where p = ?p])
      (use b(1) page_uwritable [OF b(2-4), of 16 5] q2 in
        \<open>simp_all add: vs_inv_def get_proc_def idx_get_def pipe_push_def pipe_empty_def\<close>)
  then have "\<exists>q' m'. pipe_read 0 0x80500000 0x10 5 ?q ?t s =
        Inr (Ready (Inr 2), q', wake_up (Some 0) (ChanPipeWrite 0x80500000) ?t, s\<lparr>pmem := m'\<rparr>) \<and>
      uwritten (pmem s) m' root 0x10 [7, 8] \<and> pipe_contents q' = []"
    unfolding q2(2) by (auto simp flip: numeral_2_eq_2)
  then show ?thesis by blast
qed

end
