(* ===== verification/Rx_Sleeplock.thy ===== *)
theory Rx_Sleeplock
  imports Rx_Proc
begin

text \<open>
  Sleep locks, \<^verbatim>\<open>lock/sleep_mutex.rs\<close>: a flag behind a spin lock. A process that finds the flag set
  sleeps on the address of the flag; unlocking clears it and wakes the sleepers. The operations are
  followed by a transition system in which processes interleave at the points where the spin lock
  and the locks of the processes allow it.
\<close>

section \<open>Operations\<close>

record 'd sleep_mutex =
  sm_locked :: bool
  sm_name :: string
  sm_data :: 'd

definition sleep_mutex_new :: "'d \<Rightarrow> string \<Rightarrow> 'd sleep_mutex" where
  "sleep_mutex_new d nm = \<lparr>sm_locked = False, sm_name = nm, sm_data = d\<rparr>"

text \<open>One turn of the loop of \<^verbatim>\<open>lock\<close> under the spin lock: the flag is taken, or the process has to
  sleep.\<close>

definition sm_try :: "'d sleep_mutex \<Rightarrow> 'd sleep_mutex option" where
  "sm_try s = (if sm_locked s then None else Some (s\<lparr>sm_locked := True\<rparr>))"

definition sm_clear :: "'d sleep_mutex \<Rightarrow> 'd sleep_mutex" where
  "sm_clear s = s\<lparr>sm_locked := False\<rparr>"

definition sm_unlock :: "nat option \<Rightarrow> chan \<Rightarrow> 'd sleep_mutex \<Rightarrow> 'i ptable \<Rightarrow> 'd sleep_mutex \<times> 'i ptable" where
  "sm_unlock me ch s t = (sm_clear s, wake_up me ch t)"

section \<open>Interleaving\<close>

text \<open>Where a process is: not in the code of the lock; holding the lock; past the test of the flag
  with its own lock taken and the spin lock dropped, about to sleep; asleep or waiting to be run
  again; or unlocking, with the processes before a position already woken.\<close>

datatype sl_place = Away | Holding | Deciding | Asleep | Waking nat

record ('d, 'i) sl_sys =
  sl_mutex :: "'d sleep_mutex"
  sl_tab :: "'i ptable"
  sl_spin :: "nat option"
  sl_at :: "nat \<Rightarrow> sl_place"

text \<open>The turn of \<^verbatim>\<open>wake_up\<close> for process \<open>j\<close>.\<close>

definition wake_turn :: "nat option \<Rightarrow> chan \<Rightarrow> nat \<Rightarrow> 'i ptable \<Rightarrow> 'i ptable" where
  "wake_turn me ch j t =
     (if me = Some j then t
      else t\<lparr>pt_proc := (pt_proc t)[j := (pt_proc t ! j)\<lparr>pr_meta := wake_one ch (pr_meta (pt_proc t ! j))\<rparr>]\<rparr>)"

text \<open>The steps of the processes. A turn of the waking loop waits for a process that holds its own lock
  on the way to sleep. The rest of the kernel may change the table in any way that puts no process
  to sleep on this channel.\<close>

inductive sl_step :: "chan \<Rightarrow> ('d, 'i) sl_sys \<Rightarrow> ('d, 'i) sl_sys \<Rightarrow> bool" for ch where
  enter: "sl_at s i = Away \<Longrightarrow> sl_spin s = None \<Longrightarrow> sm_try (sl_mutex s) = Some m \<Longrightarrow>
     sl_step ch s (s\<lparr>sl_mutex := m, sl_at := (sl_at s)(i := Holding)\<rparr>)"
| refuse: "sl_at s i = Away \<Longrightarrow> sl_spin s = None \<Longrightarrow> sm_try (sl_mutex s) = None \<Longrightarrow> i < length (pt_proc (sl_tab s)) \<Longrightarrow>
     sl_step ch s (s\<lparr>sl_at := (sl_at s)(i := Deciding)\<rparr>)"
| sleeps: "sl_at s i = Deciding \<Longrightarrow> proc_sleep i ch h (sl_tab s) = Inr t \<Longrightarrow>
     sl_step ch s (s\<lparr>sl_tab := t, sl_at := (sl_at s)(i := Asleep)\<rparr>)"
| resumes: "sl_at s i = Asleep \<Longrightarrow> \<not> slept_on ch (sl_tab s) i \<Longrightarrow> proc_resume i (sl_tab s) = Inr t \<Longrightarrow> ch \<noteq> ChanNone \<Longrightarrow>
     sl_step ch s (s\<lparr>sl_tab := t, sl_at := (sl_at s)(i := Away)\<rparr>)"
| release: "sl_at s i = Holding \<Longrightarrow> sl_spin s = None \<Longrightarrow>
     sl_step ch s (s\<lparr>sl_mutex := sm_clear (sl_mutex s), sl_spin := Some i, sl_at := (sl_at s)(i := Waking 0)\<rparr>)"
| wakes: "sl_at s i = Waking j \<Longrightarrow> j < length (pt_proc (sl_tab s)) \<Longrightarrow> sl_at s j \<noteq> Deciding \<Longrightarrow>
     sl_step ch s (s\<lparr>sl_tab := wake_turn (Some i) ch j (sl_tab s), sl_at := (sl_at s)(i := Waking (Suc j))\<rparr>)"
| leaves: "sl_at s i = Waking j \<Longrightarrow> \<not> j < length (pt_proc (sl_tab s)) \<Longrightarrow>
     sl_step ch s (s\<lparr>sl_spin := None, sl_at := (sl_at s)(i := Away)\<rparr>)"
| others: "length (pt_proc t) = length (pt_proc (sl_tab s)) \<Longrightarrow> (\<And>j. slept_on ch t j \<Longrightarrow> slept_on ch (sl_tab s) j) \<Longrightarrow>
     sl_step ch s (s\<lparr>sl_tab := t\<rparr>)"

inductive sl_reach :: "chan \<Rightarrow> ('d, 'i) sl_sys \<Rightarrow> bool" for ch where
  boot: "sl_mutex s = sleep_mutex_new d nm \<Longrightarrow> sl_spin s = None \<Longrightarrow> (\<And>i. sl_at s i = Away) \<Longrightarrow>
     (\<And>j. \<not> slept_on ch (sl_tab s) j) \<Longrightarrow> sl_reach ch s"
| move: "sl_reach ch s \<Longrightarrow> sl_step ch s s' \<Longrightarrow> sl_reach ch s'"

section \<open>Waking\<close>

lemma slept_on_wake_turn:
  "slept_on ch (wake_turn me ch j t) i \<longleftrightarrow> slept_on ch t i \<and> (i = j \<longrightarrow> me = Some j)"
proof (cases "i = j")
  case True
  then show ?thesis by (auto simp: slept_on_def wake_turn_def wake_one_def)
qed (auto simp: slept_on_def wake_turn_def)

lemma length_wake_turn [simp]: "length (pt_proc (wake_turn me ch j t)) = length (pt_proc t)"
  by (simp add: wake_turn_def)

text \<open>All turns together are \<^const>\<open>wake_up\<close>.\<close>

lemma wake_turns:
  assumes "n \<le> length (pt_proc t)"
  shows "fold (wake_turn me ch) [0..<n] t =
    t\<lparr>pt_proc := map (\<lambda>(i, p). if me = Some i then p else p\<lparr>pr_meta := wake_one ch (pr_meta p)\<rparr>)
        (zip [0..<n] (take n (pt_proc t))) @ drop n (pt_proc t)\<rparr>"
  using assms
proof (induction n)
  case (Suc n)
  let ?f = "\<lambda>(i, p :: 'a process). if me = Some i then p else p\<lparr>pr_meta := wake_one ch (pr_meta p)\<rparr>"
  let ?xs = "map ?f (zip [0..<n] (take n (pt_proc t)))"
  have len: "length ?xs = n" "n < length (pt_proc t)" using Suc.prems by simp_all
  have dr: "drop n (pt_proc t) = pt_proc t ! n # drop (Suc n) (pt_proc t)" using len(2) by (rule Cons_nth_drop_Suc [symmetric])
  have nth: "(?xs @ p # ps) ! n = p" for p ps using len by (simp add: nth_append)
  have tk: "take (Suc n) (pt_proc t) = take n (pt_proc t) @ [pt_proc t ! n]" using len(2) by (rule take_Suc_conv_app_nth)
  have "fold (wake_turn me ch) [0..<Suc n] t = wake_turn me ch n (fold (wake_turn me ch) [0..<n] t)" by simp
  also have "\<dots> = wake_turn me ch n (t\<lparr>pt_proc := ?xs @ drop n (pt_proc t)\<rparr>)" using Suc by simp
  also have "\<dots> = t\<lparr>pt_proc := map ?f (zip [0..<Suc n] (take (Suc n) (pt_proc t))) @ drop (Suc n) (pt_proc t)\<rparr>"
    using len by (auto simp: wake_turn_def nth dr tk list_update_append)
  finally show ?case .
qed simp

lemma wake_up_turns: "wake_up me ch t = fold (wake_turn me ch) [0..<length (pt_proc t)] t"
  by (simp add: wake_turns wake_up_def)

section \<open>The invariant\<close>

definition sl_inv :: "chan \<Rightarrow> ('d, 'i) sl_sys \<Rightarrow> bool" where
  "sl_inv ch s \<longleftrightarrow>
     (\<forall>i j. sl_at s i = Holding \<longrightarrow> sl_at s j = Holding \<longrightarrow> i = j) \<and>
     (sm_locked (sl_mutex s) \<longleftrightarrow> (\<exists>i. sl_at s i = Holding)) \<and>
     (\<forall>i. (\<exists>k. sl_at s i = Waking k) \<longleftrightarrow> sl_spin s = Some i) \<and>
     (\<forall>j. sl_at s j = Deciding \<longrightarrow> j < length (pt_proc (sl_tab s))) \<and>
     (\<forall>j. slept_on ch (sl_tab s) j \<longrightarrow> sl_at s j = Asleep) \<and>
     (\<forall>j. slept_on ch (sl_tab s) j \<or> sl_at s j = Deciding \<longrightarrow>
        sm_locked (sl_mutex s) \<or> (\<exists>i k. sl_at s i = Waking k \<and> k \<le> j))"

lemma sl_invI:
  assumes "\<And>i j. sl_at s i = Holding \<Longrightarrow> sl_at s j = Holding \<Longrightarrow> i = j"
    "sm_locked (sl_mutex s) \<longleftrightarrow> (\<exists>i. sl_at s i = Holding)"
    "\<And>i. (\<exists>k. sl_at s i = Waking k) \<longleftrightarrow> sl_spin s = Some i"
    "\<And>j. sl_at s j = Deciding \<Longrightarrow> j < length (pt_proc (sl_tab s))"
    "\<And>j. slept_on ch (sl_tab s) j \<Longrightarrow> sl_at s j = Asleep"
    "\<And>j. slept_on ch (sl_tab s) j \<or> sl_at s j = Deciding \<Longrightarrow> \<not> sm_locked (sl_mutex s) \<Longrightarrow> \<exists>i k. sl_at s i = Waking k \<and> k \<le> j"
  shows "sl_inv ch s"
  using assms unfolding sl_inv_def by blast

lemma sl_invD:
  assumes "sl_inv ch s"
  shows "sl_at s i = Holding \<Longrightarrow> sl_at s j = Holding \<Longrightarrow> i = j"
    "sm_locked (sl_mutex s) \<longleftrightarrow> (\<exists>i. sl_at s i = Holding)"
    "(\<exists>k. sl_at s i = Waking k) \<longleftrightarrow> sl_spin s = Some i"
    "sl_at s j = Deciding \<Longrightarrow> j < length (pt_proc (sl_tab s))"
    "slept_on ch (sl_tab s) j \<Longrightarrow> sl_at s j = Asleep"
    "slept_on ch (sl_tab s) j \<or> sl_at s j = Deciding \<Longrightarrow> \<not> sm_locked (sl_mutex s) \<Longrightarrow> \<exists>i k. sl_at s i = Waking k \<and> k \<le> j"
  using assms unfolding sl_inv_def by blast+

lemma proc_sleep_slept:
  assumes "proc_sleep i ch h t = Inr t'"
  shows "length (pt_proc t') = length (pt_proc t)" "slept_on ch t' j \<longleftrightarrow> slept_on ch t j \<or> j = i"
  using assms
  by (auto simp: proc_sleep_def upd_meta_def get_proc_def outcome_simps slept_on_def nth_list_update set_state_def split: if_splits)

lemma proc_resume_slept:
  assumes "proc_resume i t = Inr t'" "ch \<noteq> ChanNone"
  shows "length (pt_proc t') = length (pt_proc t)" "slept_on ch t' j \<longleftrightarrow> slept_on ch t j \<and> j \<noteq> i"
  using assms
  by (auto simp: proc_resume_def upd_meta_def get_proc_def outcome_simps slept_on_def nth_list_update split: if_splits)

lemma place_upd:
  "f i \<noteq> c \<Longrightarrow> b \<noteq> c \<Longrightarrow> (f(i := b)) j = c \<longleftrightarrow> f j = c"
  "f i \<noteq> c \<Longrightarrow> (f(i := c)) j = c \<longleftrightarrow> j = i \<or> f j = c"
  "f i = c \<Longrightarrow> b \<noteq> c \<Longrightarrow> (f(i := b)) j = c \<longleftrightarrow> j \<noteq> i \<and> f j = c"
  by auto

lemma sl_waker:
  assumes "sl_inv ch s" "sl_at s i = Waking j"
  shows "sl_spin s = Some i \<and> (\<forall>x k. sl_at s x = Waking k \<longleftrightarrow> x = i \<and> k = j)"
  using sl_invD(3) [OF assms(1)] assms(2) by (metis option.inject sl_place.inject)

lemma sl_release_inv:
  assumes "sl_inv ch s" "sl_at s i = Holding" "sl_spin s = None"
  shows "sl_inv ch (s\<lparr>sl_mutex := sm_clear (sl_mutex s), sl_spin := Some i, sl_at := (sl_at s)(i := Waking 0)\<rparr>)"
proof -
  have none: "sl_at s j \<noteq> Waking k" for j k using sl_invD(3) [OF assms(1), of j] assms(3) by simp
  have only: "sl_at s j = Holding \<longleftrightarrow> j = i" for j using sl_invD(1) [OF assms(1)] assms(2) by blast
  have sleepers: "\<not> slept_on ch (sl_tab s) i" using sl_invD(5) [OF assms(1), of i] assms(2) by auto
  show ?thesis 
  proof (rule sl_invI, goal_cases)
    case (6 j)
    then show ?case by (intro exI [of _ i] exI [of _ 0]) simp
  qed (use sl_invD(4,5) [OF assms(1)] none only sleepers in \<open>auto simp: sm_clear_def split: if_splits\<close>)
qed

lemma sl_wakes_inv:
  assumes "sl_inv ch s" "sl_at s i = Waking j" "j < length (pt_proc (sl_tab s))" "sl_at s j \<noteq> Deciding"
  shows "sl_inv ch (s\<lparr>sl_tab := wake_turn (Some i) ch j (sl_tab s), sl_at := (sl_at s)(i := Waking (Suc j))\<rparr>)"
proof -
  note w = sl_waker [OF assms(1) assms(2)]
  show ?thesis 
  proof (rule sl_invI, goal_cases)
    case (3 x)
    show ?case using w by auto
  next
    case (6 x)
    have d: "x \<noteq> i" "slept_on ch (sl_tab s) x \<or> sl_at s x = Deciding" "x \<noteq> j"
      using 6(1) sl_invD(5) [OF assms(1), of x] assms(2,4) by (auto simp: slept_on_wake_turn split: if_splits)
    then have "Suc j \<le> x" using sl_invD(6) [OF assms(1) d(2)] 6(2) w by auto
    then show ?case by (intro exI [of _ i] exI [of _ "Suc j"]) simp
  qed (use sl_invD(1,2,4,5) [OF assms(1)] assms(2) in \<open>auto simp: slept_on_wake_turn place_upd simp del: fun_upd_apply\<close>)
qed

lemma sl_leaves_inv:
  assumes "sl_inv ch s" "sl_at s i = Waking j" "\<not> j < length (pt_proc (sl_tab s))"
  shows "sl_inv ch (s\<lparr>sl_spin := None, sl_at := (sl_at s)(i := Away)\<rparr>)"
proof -
  note w = sl_waker [OF assms(1) assms(2)]
  show ?thesis 
  proof (rule sl_invI, goal_cases)
    case (3 x)
    show ?case using w by auto
  next
    case (6 x)
    have d: "slept_on ch (sl_tab s) x \<or> sl_at s x = Deciding" using 6(1) by (auto split: if_splits)
    then have "x < length (pt_proc (sl_tab s))" using sl_invD(4) [OF assms(1), of x] by (auto simp: slept_on_def)
    moreover have "j \<le> x" using sl_invD(6) [OF assms(1) d] 6(2) w by auto
    ultimately show ?case using assms(3) by simp
  qed (use sl_invD(1,2,4,5) [OF assms(1)] assms(2) in \<open>auto simp: place_upd simp del: fun_upd_apply\<close>)
qed

lemma sl_step_inv:
  assumes "sl_inv ch s" "sl_step ch s s'"
  shows "sl_inv ch s'"
  using assms(2)
proof cases
  case (enter i m)
  have m: "\<not> sm_locked (sl_mutex s)" "sm_locked m" using enter by (auto simp: sm_try_def split: if_splits)
  show ?thesis unfolding enter(1)
    by (rule sl_invI) (use sl_invD [OF assms(1)] enter m in \<open>auto simp: place_upd simp del: fun_upd_apply\<close>)
next
  case (refuse i)
  have m: "sm_locked (sl_mutex s)" using refuse by (auto simp: sm_try_def split: if_splits)
  show ?thesis unfolding refuse(1)
    by (rule sl_invI) (use sl_invD [OF assms(1)] refuse m in \<open>auto simp: place_upd simp del: fun_upd_apply\<close>)
next
  case (sleeps i h t)
  note t = proc_sleep_slept [OF sleeps(3)]
  show ?thesis unfolding sleeps(1)
    by (rule sl_invI) (use sl_invD [OF assms(1)] sleeps t in \<open>auto simp: place_upd simp del: fun_upd_apply\<close>)
next
  case (resumes i t)
  note t = proc_resume_slept [OF resumes(4,5)]
  show ?thesis unfolding resumes(1)
    by (rule sl_invI) (use sl_invD [OF assms(1)] resumes t in \<open>auto simp: place_upd simp del: fun_upd_apply\<close>)
next
  case (release i)
  then show ?thesis using sl_release_inv [OF assms(1)] by simp
next
  case (wakes i j)
  then show ?thesis using sl_wakes_inv [OF assms(1)] by simp
next
  case (leaves i j)
  then show ?thesis using sl_leaves_inv [OF assms(1)] by simp
next
  case (others t)
  show ?thesis unfolding others(1)
    by (rule sl_invI) (use sl_invD [OF assms(1)] others in auto)
qed

lemma sl_reach_inv: "sl_reach ch s \<Longrightarrow> sl_inv ch s"
proof (induction rule: sl_reach.induct)
  case (boot s d nm)
  then show ?case by (intro sl_invI) (auto simp: sleep_mutex_new_def)
qed (rule sl_step_inv)

section \<open>Exclusion and wake-ups\<close>

text \<open>C29. However the processes interleave, at most one of them holds a sleep lock, the flag is set
  exactly while one holds it, and no wake-up is lost: a process asleep on the lock, or committed to
  sleeping, finds the lock held or a waking pass in progress that has not reached it yet.\<close>

theorem sleep_lock_exclusive_no_lost_wakeup:
  assumes "sl_reach ch s"
  shows "(\<forall>i j. sl_at s i = Holding \<and> sl_at s j = Holding \<longrightarrow> i = j) \<and>
    (sm_locked (sl_mutex s) \<longleftrightarrow> (\<exists>i. sl_at s i = Holding)) \<and>
    (\<forall>j. slept_on ch (sl_tab s) j \<or> sl_at s j = Deciding \<longrightarrow>
       (\<exists>i. sl_at s i = Holding) \<or> (\<exists>i k. sl_at s i = Waking k \<and> k \<le> j))"
proof -
  note inv = sl_invD [OF sl_reach_inv [OF assms]]
  show ?thesis using inv(1) inv(2) inv(6) by blast
qed

definition sl_start :: "(nat, nat) sl_sys" where
  "sl_start = \<lparr>sl_mutex = sleep_mutex_new 0 ''inode'', sl_tab = ptable_new, sl_spin = None, sl_at = (\<lambda>_. Away)\<rparr>"

definition sl_contended :: "(nat, nat) sl_sys" where
  "sl_contended = sl_start\<lparr>sl_mutex := (sl_mutex sl_start)\<lparr>sm_locked := True\<rparr>, sl_at := (\<lambda>_. Away)(0 := Holding, 1 := Deciding)\<rparr>"

lemma sl_contended_reach: "sl_reach (ChanBuf 0) sl_contended"
proof -
  let ?s = "sl_start\<lparr>sl_mutex := (sl_mutex sl_start)\<lparr>sm_locked := True\<rparr>, sl_at := (sl_at sl_start)(0 := Holding)\<rparr>"
  have "sl_reach (ChanBuf 0) sl_start"
    by (rule sl_reach.boot) (auto simp: sl_start_def slept_on_def ptable_new_def process_new_def proc_meta_new_def)
  then have "sl_reach (ChanBuf 0) ?s"
    by (rule sl_reach.move) (rule sl_step.enter, simp_all add: sl_start_def sm_try_def sleep_mutex_new_def)
  moreover have "sl_step (ChanBuf 0) ?s (?s\<lparr>sl_at := (sl_at ?s)(1 := Deciding)\<rparr>)"
    by (rule sl_step.refuse) (simp_all add: sl_start_def sm_try_def ptable_new_def NPROC_def)
  moreover have "?s\<lparr>sl_at := (sl_at ?s)(1 := Deciding)\<rparr> = sl_contended" by (simp add: sl_contended_def sl_start_def)
  ultimately show ?thesis using sl_reach.move by metis
qed

theorem sleep_lock_exclusive_no_lost_wakeup_witness:
  "sl_reach (ChanBuf 0) sl_contended \<and> sl_at sl_contended 1 = Deciding \<and>
    {j. sl_at sl_contended j = Holding} = {0} \<and> sm_locked (sl_mutex sl_contended)"
proof -
  have h: "sl_at sl_contended 0 = Holding" "sl_at sl_contended 1 = Deciding" by (simp_all add: sl_contended_def)
  note r = sleep_lock_exclusive_no_lost_wakeup [OF sl_contended_reach]
  have "sm_locked (sl_mutex sl_contended)" using r h(1) by blast
  moreover have "j = 0" if "sl_at sl_contended j = Holding" for j using r h(1) that by blast
  ultimately show ?thesis using sl_contended_reach h by auto
qed

end
