(* ===== verification/Rx_Console.thy ===== *)
theory Rx_Console
  imports Rx_Pipe
begin

text \<open>
  The serial port and the console, \<^verbatim>\<open>driver/uart.rs\<close> and \<^verbatim>\<open>driver/console.rs\<close>. The device's registers
  are read and written through the arguments \<open>rd\<close> and \<open>wr\<close>. Waiting for the device, and a call made
  after a panic, may never return: such calls give \<^const>\<open>None\<close>. Masking interrupts around the direct
  output is balanced and left out.
\<close>

section \<open>The serial port\<close>

definition RHR :: nat where "RHR = 0"
definition THR :: nat where "THR = 0"
definition IER :: nat where "IER = 1"
definition FCR :: nat where "FCR = 2"
definition LCR :: nat where "LCR = 3"
definition LSR :: nat where "LSR = 5"
definition UART_BUF_SIZE :: nat where "UART_BUF_SIZE = 32"

record uart =
  u_buf :: "u8 list"
  u_write_index :: usize
  u_read_index :: usize

definition uart_new :: uart where
  "uart_new = \<lparr>u_buf = replicate UART_BUF_SIZE 0, u_write_index = 0, u_read_index = 0\<rparr>"

definition uart_init :: "(nat \<Rightarrow> u8 \<Rightarrow> 'v \<Rightarrow> 'v) \<Rightarrow> 'v \<Rightarrow> 'v" where
  "uart_init wr v =
     fold (\<lambda>(r, x). wr r x)
       [(IER, 0), (LCR, 0x80), (0, 3), (1, 0), (LCR, 3), (FCR, 1 OR 6), (IER, 2 OR 1)] v"

definition uart_idle :: "(nat \<Rightarrow> 'v \<Rightarrow> u8 \<times> 'v) \<Rightarrow> 'v \<Rightarrow> bool \<times> 'v" where
  "uart_idle rd v = (let (x, v) = rd LSR v in (x AND push_bit 5 1 > 0, v))"

partial_function (option) wait_idle :: "(nat \<Rightarrow> 'v \<Rightarrow> u8 \<times> 'v) \<Rightarrow> 'v \<Rightarrow> 'v option" where
  "wait_idle rd v = (let (b, v) = uart_idle rd v in if b then Some v else wait_idle rd v)"

definition uart_put :: "(nat \<Rightarrow> 'v \<Rightarrow> u8 \<times> 'v) \<Rightarrow> (nat \<Rightarrow> u8 \<Rightarrow> 'v \<Rightarrow> 'v) \<Rightarrow> u8 \<Rightarrow> 'v \<Rightarrow> 'v option" where
  "uart_put rd wr c v = map_option (wr THR c) (wait_idle rd v)"

definition uart_get :: "(nat \<Rightarrow> 'v \<Rightarrow> u8 \<times> 'v) \<Rightarrow> 'v \<Rightarrow> u8 option \<times> 'v" where
  "uart_get rd v =
     (let (x, v) = rd LSR v in
      if x AND 1 = 0 then (None, v) else let (c, v) = rd RHR v in (Some c, v))"

definition putc_sync :: "(nat \<Rightarrow> 'v \<Rightarrow> u8 \<times> 'v) \<Rightarrow> (nat \<Rightarrow> u8 \<Rightarrow> 'v \<Rightarrow> 'v) \<Rightarrow> bool \<Rightarrow> u8 \<Rightarrow> 'v \<Rightarrow> 'v option" where
  "putc_sync rd wr panicked c v = (if panicked then None else map_option (wr THR c) (wait_idle rd v))"

definition uart_push :: "u8 \<Rightarrow> uart \<Rightarrow> uart" where
  "uart_push c u = u\<lparr>u_buf := (u_buf u)[unat (u_write_index u) mod UART_BUF_SIZE := c],
     u_write_index := u_write_index u + 1\<rparr>"

definition uart_pop :: "uart \<Rightarrow> u8 \<times> uart" where
  "uart_pop u = (u_buf u ! (unat (u_read_index u) mod UART_BUF_SIZE), u\<lparr>u_read_index := u_read_index u + 1\<rparr>)"

lemma usize_diff_step: "(r :: usize) \<noteq> w \<Longrightarrow> unat (w - (r + 1)) < unat (w - r)"
proof -
  assume "r \<noteq> w"
  then have "w - r \<noteq> 0" by simp
  then have "unat (w - r - 1) < unat (w - r)" by (simp add: unat_minus_one unat_gt_0)
  then show ?thesis by (simp add: algebra_simps)
qed

function transmit :: "(nat \<Rightarrow> 'v \<Rightarrow> u8 \<times> 'v) \<Rightarrow> (nat \<Rightarrow> u8 \<Rightarrow> 'v \<Rightarrow> 'v) \<Rightarrow> nat option \<Rightarrow> uart \<Rightarrow> 'i ptable \<Rightarrow> 'v \<Rightarrow>
    uart \<times> 'i ptable \<times> 'v" where
  "transmit rd wr me u t v =
     (if u_write_index u \<noteq> u_read_index u then
        let (b, v) = uart_idle rd v in
        if b then transmit rd wr me (snd (uart_pop u)) (wake_up me ChanUart t) (wr THR (fst (uart_pop u)) v)
        else (u, t, v)
      else (u, t, v))"
  by pat_completeness auto
termination
  by (relation "measure (\<lambda>(rd, wr, me, u, t, v). unat (u_write_index u - u_read_index u))")
    (auto simp: uart_pop_def usize_diff_step)

declare transmit.simps [simp del]

text \<open>\<^verbatim>\<open>putc\<close> on the locked port: \<open>Inl\<close> is the channel to sleep on when the buffer is full.\<close>

definition uart_putc :: "(nat \<Rightarrow> 'v \<Rightarrow> u8 \<times> 'v) \<Rightarrow> (nat \<Rightarrow> u8 \<Rightarrow> 'v \<Rightarrow> 'v) \<Rightarrow> bool \<Rightarrow> nat option \<Rightarrow> u8 \<Rightarrow>
    uart \<Rightarrow> 'i ptable \<Rightarrow> 'v \<Rightarrow> (chan + uart \<times> 'i ptable \<times> 'v) option" where
  "uart_putc rd wr panicked me c u t v =
     (if panicked then None
      else if u_write_index u = u_read_index u + of_nat UART_BUF_SIZE then Some (Inl ChanUart)
      else Some (Inr (transmit rd wr me (uart_push c u) t v)))"

definition uart_contents :: "uart \<Rightarrow> u8 list" where
  "uart_contents u = ring_contents UART_BUF_SIZE (u_buf u) (u_read_index u) (u_write_index u)"

definition uart_ok :: "uart \<Rightarrow> bool" where
  "uart_ok u \<longleftrightarrow> ring_ok UART_BUF_SIZE (u_buf u) (u_read_index u) (u_write_index u)"

lemma UART_BUF_SIZE_dvd: "UART_BUF_SIZE dvd 2 ^ 64" "UART_BUF_SIZE < 2 ^ 64"
  by (simp_all add: UART_BUF_SIZE_def)

interpretation uq: byte_queue uart_ok uart_contents UART_BUF_SIZE uart_push uart_pop
proof
  fix u c
  show "length (uart_contents u) \<le> UART_BUF_SIZE" if "uart_ok u"
    using that by (simp add: uart_ok_def uart_contents_def ring_ok_def)
  show "uart_ok (uart_push c u) \<and> uart_contents (uart_push c u) = uart_contents u @ [c]"
    if "uart_ok u" "length (uart_contents u) < UART_BUF_SIZE"
    using that ring_push [OF UART_BUF_SIZE_dvd, of "u_buf u" "u_read_index u" "u_write_index u" c]
    by (simp add: uart_ok_def uart_contents_def uart_push_def)
  show "uart_ok (snd (uart_pop u)) \<and> uart_contents u = fst (uart_pop u) # uart_contents (snd (uart_pop u))"
    if "uart_ok u" "uart_contents u \<noteq> []"
  proof -
    have "u_read_index u \<noteq> u_write_index u" using that(2) by (auto simp: uart_contents_def ring_contents_def)
    then show ?thesis
      using that(1) ring_pop [OF UART_BUF_SIZE_dvd(2), of "u_buf u" "u_read_index u" "u_write_index u"]
      by (simp add: uart_ok_def uart_contents_def uart_pop_def)
  qed
qed

section \<open>The console\<close>

definition INPUT_BUF :: nat where "INPUT_BUF = 128"
definition CTRL_EOT :: u8 where "CTRL_EOT = 0x04"
definition CTRL_BS :: u8 where "CTRL_BS = 0x08"
definition CTRL_LF :: u8 where "CTRL_LF = 0x0A"
definition CTRL_CR :: u8 where "CTRL_CR = 0x0D"
definition CTRL_DEL :: u8 where "CTRL_DEL = 0x7f"
definition CTRL_PRINT_PROCESS :: u8 where "CTRL_PRINT_PROCESS = 0x10"
definition CTRL_BS_LINE :: u8 where "CTRL_BS_LINE = 0x15"

record console =
  co_buf :: "u8 list"
  co_read_index :: usize
  co_write_index :: usize
  co_edit_index :: usize

definition console_new :: console where
  "console_new = \<lparr>co_buf = replicate INPUT_BUF 0, co_read_index = 0, co_write_index = 0, co_edit_index = 0\<rparr>"

definition console_putc :: "(nat \<Rightarrow> 'v \<Rightarrow> u8 \<times> 'v) \<Rightarrow> (nat \<Rightarrow> u8 \<Rightarrow> 'v \<Rightarrow> 'v) \<Rightarrow> bool \<Rightarrow> u8 \<Rightarrow> 'v \<Rightarrow> 'v option" where
  "console_putc rd wr panicked c v =
     (if c = CTRL_BS
      then Option.bind (putc_sync rd wr panicked CTRL_BS v) (\<lambda>v.
        Option.bind (putc_sync rd wr panicked 32 v) (\<lambda>v. putc_sync rd wr panicked CTRL_BS v))
      else putc_sync rd wr panicked c v)"

lemma edit_back_less: "(e :: usize) \<noteq> w \<Longrightarrow> unat (e - 1 - w) < unat (e - w)"
proof -
  assume "e \<noteq> w"
  then have "e - w \<noteq> 0" by simp
  then have "unat (e - w - 1) < unat (e - w)" by (simp add: unat_minus_one unat_gt_0)
  then show ?thesis by (simp add: algebra_simps)
qed

function erase_line :: "(nat \<Rightarrow> 'v \<Rightarrow> u8 \<times> 'v) \<Rightarrow> (nat \<Rightarrow> u8 \<Rightarrow> 'v \<Rightarrow> 'v) \<Rightarrow> bool \<Rightarrow> console \<Rightarrow> 'v \<Rightarrow>
    (console \<times> 'v) option" where
  "erase_line rd wr panicked con v =
     (if co_edit_index con \<noteq> co_write_index con \<and>
         co_buf con ! (unat (co_edit_index con - 1) mod INPUT_BUF) \<noteq> CTRL_LF
      then Option.bind (console_putc rd wr panicked CTRL_BS v) (\<lambda>v.
        erase_line rd wr panicked (con\<lparr>co_edit_index := co_edit_index con - 1\<rparr>) v)
      else Some (con, v))"
  by pat_completeness auto
termination
  by (relation "measure (\<lambda>(rd, wr, panicked, con, v). unat (co_edit_index con - co_write_index con))")
    (auto simp: edit_back_less)

declare erase_line.simps [simp del]

definition console_intr :: "(nat \<Rightarrow> 'v \<Rightarrow> u8 \<times> 'v) \<Rightarrow> (nat \<Rightarrow> u8 \<Rightarrow> 'v \<Rightarrow> 'v) \<Rightarrow> bool \<Rightarrow> nat option \<Rightarrow> u8 \<Rightarrow>
    console \<Rightarrow> 'i ptable \<Rightarrow> 'v \<Rightarrow> (console \<times> 'i ptable \<times> 'v) option" where
  "console_intr rd wr panicked me c con t v =
     (if c = CTRL_PRINT_PROCESS then Some (con, t, v)
      else if c = CTRL_BS_LINE
      then map_option (\<lambda>(con, v). (con, t, v)) (erase_line rd wr panicked con v)
      else if c = CTRL_BS \<or> c = CTRL_DEL then
        if co_edit_index con \<noteq> co_write_index con
        then map_option (\<lambda>v. (con\<lparr>co_edit_index := co_edit_index con - 1\<rparr>, t, v))
               (console_putc rd wr panicked CTRL_BS v)
        else Some (con, t, v)
      else if c \<noteq> 0 \<and> unat (co_edit_index con - co_read_index con) < INPUT_BUF then
        let c = (if c = CTRL_CR then CTRL_LF else c) in
        Option.bind (console_putc rd wr panicked c v) (\<lambda>v.
          let con = con\<lparr>co_buf := (co_buf con)[unat (co_edit_index con) mod INPUT_BUF := c],
                co_edit_index := co_edit_index con + 1\<rparr> in
          if c = CTRL_LF \<or> c = CTRL_EOT \<or> unat (co_edit_index con - co_read_index con) = INPUT_BUF
          then Some (con\<lparr>co_write_index := co_edit_index con\<rparr>, wake_up me ChanConsole t, v)
          else Some (con, t, v))
      else Some (con, t, v))"

text \<open>\<^verbatim>\<open>console_read\<close> with \<open>left\<close> bytes to go. It ends with the number of bytes read, with nothing when
  the process is killed, or has to wait and is resumed with the bytes then left.\<close>

function console_read :: "usize option \<Rightarrow> bool \<Rightarrow> bool \<Rightarrow> usize \<Rightarrow> nat \<Rightarrow> nat \<Rightarrow> console \<Rightarrow> kmem \<Rightarrow>
    (nat option io \<times> console \<times> kmem) outcome" where
  "console_read cur killed usr dst sz left con s =
     (if 0 < left then
        if co_read_index con = co_write_index con
        then Inr (if killed then Ready None else Wait ChanConsole left, con, s)
        else
          let c = co_buf con ! (unat (co_read_index con) mod INPUT_BUF);
              con1 = con\<lparr>co_read_index := co_read_index con + 1\<rparr> in
          if c = CTRL_EOT then
            Inr (Ready (Some (sz - left)), if left < sz then con else con1, s)
          else bindR (copy_from_kernel cur dst [c] usr s) (\<lambda>s.
            bindR (add_ck dst 1) (\<lambda>dst.
              if c = CTRL_LF then Inr (Ready (Some (sz - (left - 1))), con1, s)
              else console_read cur killed usr dst sz (left - 1) con1 s))
      else Inr (Ready (Some (sz - left)), con, s))"
  by pat_completeness auto
termination
  by (relation "measure (\<lambda>(cur, killed, usr, dst, sz, left, con, s). left)") auto

declare console_read.simps [simp del]

text \<open>\<^verbatim>\<open>console_write\<close> from byte \<open>i\<close> on; it waits when the port's buffer is full. \<^const>\<open>None\<close> is a call
  that does not return.\<close>

function console_write :: "(nat \<Rightarrow> 'v \<Rightarrow> u8 \<times> 'v) \<Rightarrow> (nat \<Rightarrow> u8 \<Rightarrow> 'v \<Rightarrow> 'v) \<Rightarrow> bool \<Rightarrow> nat option \<Rightarrow>
    usize option \<Rightarrow> bool \<Rightarrow> usize \<Rightarrow> nat \<Rightarrow> nat \<Rightarrow> uart \<Rightarrow> 'i ptable \<Rightarrow> 'v \<Rightarrow> kmem \<Rightarrow>
    (nat io \<times> uart \<times> 'i ptable \<times> 'v) option outcome" where
  "console_write rd wr panicked me cur usr src sz i u t v s =
     (if i < sz then
        bindR (copy_to_kernel cur 1 src usr s) (\<lambda>bs.
          bindR (idx_get bs 0) (\<lambda>c.
            case uart_putc rd wr panicked me c u t v of
              None \<Rightarrow> Inr None
            | Some (Inl ch) \<Rightarrow> Inr (Some (Wait ch i, u, t, v))
            | Some (Inr (u, t, v)) \<Rightarrow>
                bindR (add_ck src 1) (\<lambda>src.
                  console_write rd wr panicked me cur usr src sz (i + 1) u t v s)))
      else Inr (Some (Ready sz, u, t, v)))"
  by pat_completeness auto
termination
  by (relation "measure (\<lambda>(rd, wr, panicked, me, cur, usr, src, sz, i, u, t, v, s). sz - i)") auto

declare console_write.simps [simp del]

text \<open>The interrupt of the port: it takes bytes as long as there are any, then transmits.\<close>

partial_function (option) uart_input :: "(nat \<Rightarrow> 'v \<Rightarrow> u8 \<times> 'v) \<Rightarrow> (nat \<Rightarrow> u8 \<Rightarrow> 'v \<Rightarrow> 'v) \<Rightarrow> bool \<Rightarrow>
    nat option \<Rightarrow> console \<Rightarrow> 'i ptable \<Rightarrow> 'v \<Rightarrow> (console \<times> 'i ptable \<times> 'v) option" where
  "uart_input rd wr panicked me con t v =
     (let (x, v) = rd LSR v in
      if x AND 1 > 0 then
        let (c, v) = rd RHR v in
        Option.bind (console_intr rd wr panicked me c con t v) (\<lambda>(con, t, v).
          uart_input rd wr panicked me con t v)
      else Some (con, t, v))"

definition uart_intr :: "(nat \<Rightarrow> 'v \<Rightarrow> u8 \<times> 'v) \<Rightarrow> (nat \<Rightarrow> u8 \<Rightarrow> 'v \<Rightarrow> 'v) \<Rightarrow> bool \<Rightarrow> nat option \<Rightarrow>
    console \<Rightarrow> uart \<Rightarrow> 'i ptable \<Rightarrow> 'v \<Rightarrow> (console \<times> uart \<times> 'i ptable \<times> 'v) option" where
  "uart_intr rd wr panicked me con u t v =
     map_option (\<lambda>(con, t, v). (con, transmit rd wr me u t v)) (uart_input rd wr panicked me con t v)"

section \<open>The line discipline\<close>

text \<open>The bytes of the buffer: those a reader may take, and the line being edited.\<close>

definition con_all :: "console \<Rightarrow> u8 list" where
  "con_all con = ring_contents INPUT_BUF (co_buf con) (co_read_index con) (co_edit_index con)"

definition con_ready :: "console \<Rightarrow> nat" where
  "con_ready con = unat (co_write_index con - co_read_index con)"

definition con_abs :: "console \<Rightarrow> u8 list \<times> u8 list" where
  "con_abs con = (take (con_ready con) (con_all con), drop (con_ready con) (con_all con))"

definition con_ok :: "console \<Rightarrow> bool" where
  "con_ok con \<longleftrightarrow> ring_ok INPUT_BUF (co_buf con) (co_read_index con) (co_edit_index con) \<and>
     con_ready con \<le> unat (co_edit_index con - co_read_index con)"

text \<open>What a character typed does to the two.\<close>

definition line_discipline :: "u8 \<Rightarrow> u8 list \<times> u8 list \<Rightarrow> u8 list \<times> u8 list" where
  "line_discipline c = (\<lambda>(ready, line).
     if c = CTRL_PRINT_PROCESS then (ready, line)
     else if c = CTRL_BS_LINE then (ready, rev (dropWhile (\<lambda>x. x \<noteq> CTRL_LF) (rev line)))
     else if c = CTRL_BS \<or> c = CTRL_DEL then (ready, butlast line)
     else if c = 0 \<or> INPUT_BUF \<le> length ready + length line then (ready, line)
     else let x = (if c = CTRL_CR then CTRL_LF else c); line = line @ [x] in
       if x = CTRL_LF \<or> x = CTRL_EOT \<or> length ready + length line = INPUT_BUF
       then (ready @ line, []) else (ready, line))"

lemma INPUT_BUF_dvd: "INPUT_BUF dvd 2 ^ 64" "INPUT_BUF < 2 ^ 64"
  by (simp_all add: INPUT_BUF_def)

lemma length_con_all: "length (con_all con) = unat (co_edit_index con - co_read_index con)"
  by (simp add: con_all_def)

text \<open>Taking back the last byte.\<close>

lemma con_back:
  assumes ok: "con_ok con" and ne: "co_edit_index con \<noteq> co_write_index con"
  defines "con' \<equiv> con\<lparr>co_edit_index := co_edit_index con - 1\<rparr>"
  shows "con_ok con'" "con_ready con' = con_ready con" "con_all con' = butlast (con_all con)"
    "con_ready con < length (con_all con)"
    "last (con_all con) = co_buf con ! (unat (co_edit_index con - 1) mod INPUT_BUF)"
proof -
  let ?r = "co_read_index con" and ?e = "co_edit_index con" and ?w = "co_write_index con"
  have "con_ready con \<noteq> unat (?e - ?r)" using ne by (auto simp: con_ready_def word_unat_eq_iff [symmetric])
  then show lt: "con_ready con < length (con_all con)" using ok by (simp add: con_ok_def length_con_all)
  then have nz: "?e - ?r \<noteq> 0" by (auto simp: length_con_all)
  have shift: "?e - 1 - ?r = ?e - ?r - 1" by (simp add: algebra_simps)
  have len: "unat (?e - 1 - ?r) = unat (?e - ?r) - 1" unfolding shift by (rule unat_minus_one [OF nz])
  obtain n where n: "unat (?e - ?r) = Suc n" using nz by (metis not0_implies_Suc unat_eq_0)
  have all: "con_all con = con_all con' @ [co_buf con ! (unat (?r + of_nat n) mod INPUT_BUF)]"
    using n len by (simp add: con_all_def con'_def ring_contents_def)
  have un: "unat (?e - ?r - 1) = n" using n len [unfolded shift] by simp
  have "(of_nat n :: usize) = ?e - ?r - 1" unfolding un [symmetric] by simp
  then have last_at: "?r + of_nat n = ?e - 1" by simp
  show "con_ready con' = con_ready con" by (simp add: con_ready_def con'_def)
  show "con_all con' = butlast (con_all con)" using all by simp
  show "last (con_all con) = co_buf con ! (unat (?e - 1) mod INPUT_BUF)" using all last_at by simp
  show "con_ok con'" using ok lt len n by (simp add: con_ok_def con'_def ring_ok_def con_ready_def length_con_all)
qed

text \<open>A device that is always ready for a byte, with a kernel that has not panicked.\<close>

definition port_ready :: "(nat \<Rightarrow> 'v \<Rightarrow> u8 \<times> 'v) \<Rightarrow> bool" where
  "port_ready rd \<longleftrightarrow> (\<forall>v. fst (uart_idle rd v))"

lemma putc_returns: "port_ready rd \<Longrightarrow> \<exists>v'. console_putc rd wr False c v = Some v'"
proof -
  assume ready: "port_ready rd"
  have wait: "wait_idle rd v = Some (snd (uart_idle rd v))" for v
    using ready by (subst wait_idle.simps) (simp add: port_ready_def case_prod_beta)
  show ?thesis by (simp add: console_putc_def putc_sync_def wait)
qed

lemma rev_dropWhile_step:
  assumes "line \<noteq> []" "last line \<noteq> x"
  shows "rev (dropWhile (\<lambda>y. y \<noteq> x) (rev (butlast line))) = rev (dropWhile (\<lambda>y. y \<noteq> x) (rev line))"
  using assms by (cases line rule: rev_cases) simp_all

lemma drop_butlast: "n < length xs \<Longrightarrow> drop n (butlast xs) = butlast (drop n xs)"
  by (simp add: butlast_drop)

lemma erase_line_spec:
  assumes "port_ready rd" "con_ok con"
  shows "\<exists>con' v'. erase_line rd wr False con v = Some (con', v') \<and> con_ok con' \<and> con_ready con' = con_ready con \<and>
     take (con_ready con) (con_all con') = take (con_ready con) (con_all con) \<and>
     drop (con_ready con) (con_all con') =
       rev (dropWhile (\<lambda>x. x \<noteq> CTRL_LF) (rev (drop (con_ready con) (con_all con))))"
  using assms
proof (induction "unat (co_edit_index con - co_write_index con)" arbitrary: con v rule: less_induct)
  case less
  let ?n = "con_ready con" and ?con = "con\<lparr>co_edit_index := co_edit_index con - 1\<rparr>"
  show ?case
  proof (cases "co_edit_index con = co_write_index con")
    case True
    then have "drop ?n (con_all con) = []" by (simp add: length_con_all con_ready_def)
    then show ?thesis using True less.prems by (subst erase_line.simps) simp
  next
    case ne: False
    note b = con_back [OF less.prems(2) ne]
    have line: "drop ?n (con_all con) \<noteq> []" "last (drop ?n (con_all con)) = last (con_all con)" using b(4) by simp_all
    show ?thesis
    proof (cases "co_buf con ! (unat (co_edit_index con - 1) mod INPUT_BUF) = CTRL_LF")
      case True
      then have "hd (rev (drop ?n (con_all con))) = CTRL_LF" using line b(5) by (simp add: hd_rev)
      then have "dropWhile (\<lambda>x. x \<noteq> CTRL_LF) (rev (drop ?n (con_all con))) = rev (drop ?n (con_all con))"
        using line(1) by (cases "rev (drop ?n (con_all con))") auto
      then show ?thesis using True less.prems by (subst erase_line.simps) simp
    next
      case False
      obtain v1 where v1: "console_putc rd wr False CTRL_BS v = Some v1" using putc_returns [OF less.prems(1)] by blast
      have dec: "unat (co_edit_index ?con - co_write_index ?con) < unat (co_edit_index con - co_write_index con)"
        using edit_back_less [OF ne] by simp
      have run: "erase_line rd wr False con v = erase_line rd wr False ?con v1"
        using ne False v1 by (subst erase_line.simps) simp
      have same: "take ?n (con_all ?con) = take ?n (con_all con)" using b(3,4) by (simp add: take_butlast)
      have rest: "rev (dropWhile (\<lambda>x. x \<noteq> CTRL_LF) (rev (drop ?n (con_all ?con)))) =
          rev (dropWhile (\<lambda>x. x \<noteq> CTRL_LF) (rev (drop ?n (con_all con))))"
        using rev_dropWhile_step [OF line(1)] False b(5) line(2) drop_butlast [OF b(4)] by (simp add: b(3))
      show ?thesis
        using less.hyps [OF dec less.prems(1) b(1), of v1] unfolding run by (simp only: b(2) same rest)
    qed
  qed
qed

lemma con_push:
  fixes c :: u8
  assumes ok: "con_ok con" and room: "unat (co_edit_index con - co_read_index con) < INPUT_BUF"
  defines "con' \<equiv> con\<lparr>co_buf := (co_buf con)[unat (co_edit_index con) mod INPUT_BUF := c],
     co_edit_index := co_edit_index con + 1\<rparr>"
  shows "con_ok con'" "con_ready con' = con_ready con" "con_all con' = con_all con @ [c]"
proof -
  have ring: "ring_ok INPUT_BUF (co_buf con) (co_read_index con) (co_edit_index con)" using ok by (simp add: con_ok_def)
  note p = ring_push [OF INPUT_BUF_dvd ring room, of c]
  show all: "con_all con' = con_all con @ [c]" using p(2) by (simp add: con_all_def con'_def)
  show rd: "con_ready con' = con_ready con" by (simp add: con_ready_def con'_def)
  have "con_ready con' \<le> unat (co_edit_index con' - co_read_index con')"
    using ok rd unat_diff_Suc [OF room INPUT_BUF_dvd(2)] by (simp add: con_ok_def con'_def)
  then show "con_ok con'" using p(1) by (simp add: con_ok_def con'_def)
qed

text \<open>Handing the line to the readers.\<close>

lemma con_commit:
  assumes "con_ok con"
  shows "con_ok (con\<lparr>co_write_index := co_edit_index con\<rparr>)"
    "con_abs (con\<lparr>co_write_index := co_edit_index con\<rparr>) = (con_all con, [])"
proof -
  have "con_all (con\<lparr>co_write_index := co_edit_index con\<rparr>) = con_all con" by (simp add: con_all_def)
  moreover have "con_ready (con\<lparr>co_write_index := co_edit_index con\<rparr>) = length (con_all con)"
    by (simp add: con_ready_def length_con_all)
  ultimately show "con_abs (con\<lparr>co_write_index := co_edit_index con\<rparr>) = (con_all con, [])" by (simp add: con_abs_def)
  show "con_ok (con\<lparr>co_write_index := co_edit_index con\<rparr>)" using assms by (simp add: con_ok_def con_ready_def)
qed

text \<open>An ordinary character.\<close>

lemma console_intr_types:
  assumes "port_ready rd" "con_ok con" and c: "c \<notin> {CTRL_PRINT_PROCESS, CTRL_BS_LINE, CTRL_BS, CTRL_DEL}"
  shows "\<exists>con' t' v'. console_intr rd wr False me c con t v = Some (con', t', v') \<and> con_ok con' \<and>
     con_abs con' = line_discipline c (con_abs con) \<and>
     t' = (if fst (con_abs con') = fst (con_abs con) then t else wake_up me ChanConsole t)"
proof -
  let ?n = "con_ready con"
  have le: "?n \<le> length (con_all con)" using assms(2) by (simp add: con_ok_def length_con_all)
  show ?thesis
  proof (cases "c \<noteq> 0 \<and> length (con_all con) < INPUT_BUF")
    case False
    then show ?thesis using c assms(2) le
      by (auto simp: console_intr_def line_discipline_def con_abs_def length_con_all [symmetric])
  next
    case True
    let ?x = "if c = CTRL_CR then CTRL_LF else c"
    obtain v2 where v2: "console_putc rd wr False ?x v = Some v2" using putc_returns [OF assms(1)] by blast
    let ?con = "con\<lparr>co_buf := (co_buf con)[unat (co_edit_index con) mod INPUT_BUF := ?x],
       co_edit_index := co_edit_index con + 1\<rparr>"
    let ?full = "?x = CTRL_LF \<or> ?x = CTRL_EOT \<or> length (con_all con) + 1 = INPUT_BUF"
    have room: "unat (co_edit_index con - co_read_index con) < INPUT_BUF" using True by (simp add: length_con_all)
    note p = con_push [OF assms(2) room, of ?x] and q = con_commit [OF con_push(1) [OF assms(2) room, of ?x]]
    have len: "unat (co_edit_index con + 1 - co_read_index con) = length (con_all con) + 1"
      using unat_diff_Suc [OF room INPUT_BUF_dvd(2)] by (simp add: length_con_all)
    have run: "console_intr rd wr False me c con t v =
        (if ?full then Some (?con\<lparr>co_write_index := co_edit_index ?con\<rparr>, wake_up me ChanConsole t, v2) else Some (?con, t, v2))"
      using c True v2 room len by (simp add: console_intr_def Let_def)
    have abs: "line_discipline c (con_abs con) =
        (if ?full then (con_all con @ [?x], []) else (take ?n (con_all con), drop ?n (con_all con) @ [?x]))"
      using c True le by (auto simp: line_discipline_def con_abs_def Let_def)
    show ?thesis
    proof (cases ?full)
      case full: True
      let ?c' = "?con\<lparr>co_write_index := co_edit_index ?con\<rparr>"
      have longer: "con_all con @ [?x] \<noteq> take ?n (con_all con)"
        by (rule notI, drule arg_cong [where f = length]) simp
      have q2: "con_abs ?c' = (con_all con @ [?x], [])" using q(2) p(3) by simp
      have woken: "wake_up me ChanConsole t = (if fst (con_abs ?c') = fst (con_abs con) then t else wake_up me ChanConsole t)"
        unfolding q2 using longer by (simp add: con_abs_def)
      have run': "console_intr rd wr False me c con t v = Some (?c', wake_up me ChanConsole t, v2)"
        unfolding run if_P [OF full] ..
      have "con_abs ?c' = line_discipline c (con_abs con)" unfolding abs if_P [OF full] by (rule q2)
      then show ?thesis by (intro exI conjI) (rule run' q(1) woken | assumption)+
    next
      case False
      have p4: "con_abs ?con = (take ?n (con_all con), drop ?n (con_all con) @ [?x])"
        using p(2,3) le by (simp only: con_abs_def) simp
      then have same: "t = (if fst (con_abs ?con) = fst (con_abs con) then t else wake_up me ChanConsole t)"
        by (simp add: con_abs_def [of con])
      have run': "console_intr rd wr False me c con t v = Some (?con, t, v2)" unfolding run if_not_P [OF False] ..
      have "con_abs ?con = line_discipline c (con_abs con)" unfolding abs if_not_P [OF False] by (rule p4)
      then show ?thesis by (intro exI conjI) (rule run' p(1) same | assumption)+
    qed
  qed
qed

text \<open>Every character: the line discipline, and the readers are woken when bytes become ready.\<close>

lemma console_intr_line:
  assumes "port_ready rd" "con_ok con"
  shows "\<exists>con' t' v'. console_intr rd wr False me c con t v = Some (con', t', v') \<and> con_ok con' \<and>
     con_abs con' = line_discipline c (con_abs con) \<and>
     t' = (if fst (con_abs con') = fst (con_abs con) then t else wake_up me ChanConsole t)"
proof -
  let ?n = "con_ready con"
  have eq: "co_edit_index con = co_write_index con \<longleftrightarrow> ?n = length (con_all con)"
    by (auto simp: con_ready_def length_con_all word_unat_eq_iff [symmetric])
  obtain v1 where v1: "console_putc rd wr False CTRL_BS v = Some v1" using putc_returns [OF assms(1)] by blast
  consider "c = CTRL_PRINT_PROCESS" | "c = CTRL_BS_LINE" "c \<noteq> CTRL_PRINT_PROCESS"
    | "c = CTRL_BS \<or> c = CTRL_DEL" "c \<noteq> CTRL_PRINT_PROCESS" "c \<noteq> CTRL_BS_LINE"
    | "c \<notin> {CTRL_PRINT_PROCESS, CTRL_BS_LINE, CTRL_BS, CTRL_DEL}" by blast
  then show ?thesis
  proof cases
    case 1
    then show ?thesis using assms(2) by (simp add: console_intr_def line_discipline_def con_abs_def)
  next
    case 2
    then show ?thesis
      using erase_line_spec [OF assms, of wr v]
      by (auto simp: console_intr_def line_discipline_def con_abs_def)
  next
    case 3
    show ?thesis
    proof (cases "co_edit_index con = co_write_index con")
      case True
      then show ?thesis using 3 assms(2) eq by (auto simp: console_intr_def line_discipline_def con_abs_def)
    next
      case False
      note b = con_back [OF assms(2) False]
      show ?thesis
        using 3 False v1 b drop_butlast [OF b(4)]
        by (simp add: console_intr_def line_discipline_def con_abs_def take_butlast)
    qed
  next
    case 4
    show ?thesis by (rule console_intr_types [OF assms 4])
  qed
qed

section \<open>The interrupt\<close>

text \<open>A port with received bytes waiting: the status register says whether there are any and that the
  transmitter is idle, reading the receive register takes the first, and nothing else changes them.\<close>

definition port_feeds :: "(nat \<Rightarrow> 'v \<Rightarrow> u8 \<times> 'v) \<Rightarrow> (nat \<Rightarrow> u8 \<Rightarrow> 'v \<Rightarrow> 'v) \<Rightarrow> ('v \<Rightarrow> u8 list) \<Rightarrow> bool" where
  "port_feeds rd wr pending \<longleftrightarrow> port_ready rd \<and>
     (\<forall>v. (0 < fst (rd LSR v) AND 1) = (pending v \<noteq> []) \<and> pending (snd (rd LSR v)) = pending v) \<and>
     (\<forall>v c cs. pending v = c # cs \<longrightarrow> fst (rd RHR v) = c \<and> pending (snd (rd RHR v)) = cs) \<and>
     (\<forall>v r x. pending (wr r x v) = pending v)"

lemma port_feedsD:
  assumes "port_feeds rd wr pending"
  shows "port_ready rd" "(0 < fst (rd LSR v) AND 1) = (pending v \<noteq> [])" "pending (snd (rd LSR v)) = pending v"
    "pending v = c # cs \<Longrightarrow> fst (rd RHR v) = c \<and> pending (snd (rd RHR v)) = cs" "pending (wr r x v) = pending v"
  using assms by (simp_all add: port_feeds_def)

lemma putc_pending:
  assumes "port_feeds rd wr pending"
  shows "console_putc rd wr False c v = Some v' \<Longrightarrow> pending v' = pending v"
proof -
  have wait: "wait_idle rd v = Some (snd (uart_idle rd v))" for v
    using port_feedsD(1) [OF assms] by (subst wait_idle.simps) (simp add: port_ready_def case_prod_beta)
  assume "console_putc rd wr False c v = Some v'"
  then show ?thesis
    by (auto simp: console_putc_def putc_sync_def wait uart_idle_def case_prod_beta port_feedsD [OF assms] split: if_splits)
qed

lemma erase_line_pending:
  assumes "port_feeds rd wr pending"
  shows "erase_line rd wr False con v = Some (con', v') \<Longrightarrow> pending v' = pending v"
proof (induction "unat (co_edit_index con - co_write_index con)" arbitrary: con v rule: less_induct)
  case less
  show ?case
  proof (cases "co_edit_index con \<noteq> co_write_index con \<and> co_buf con ! (unat (co_edit_index con - 1) mod INPUT_BUF) \<noteq> CTRL_LF")
    case True
    let ?con = "con\<lparr>co_edit_index := co_edit_index con - 1\<rparr>"
    have dec: "unat (co_edit_index ?con - co_write_index ?con) < unat (co_edit_index con - co_write_index con)"
      using edit_back_less True by simp
    from less.prems True obtain v1 where v1: "console_putc rd wr False CTRL_BS v = Some v1" "erase_line rd wr False ?con v1 = Some (con', v')"
      by (subst (asm) erase_line.simps) (auto simp: bind_eq_Some_conv)
    show ?thesis using less.hyps [OF dec v1(2)] putc_pending [OF assms v1(1)] by simp
  next
    case False
    then show ?thesis using less.prems by (subst (asm) erase_line.simps) (simp split: if_splits)
  qed
qed

lemma console_intr_pending:
  assumes "port_feeds rd wr pending"
  shows "console_intr rd wr False me c con t v = Some (con', t', v') \<Longrightarrow> pending v' = pending v"
  unfolding console_intr_def
  by (auto simp: Let_def bind_eq_Some_conv split: if_splits dest: putc_pending [OF assms] erase_line_pending [OF assms])

lemma transmit_keeps:
  assumes "port_feeds rd wr pending"
  shows "transmit rd wr me u t v = (u', t', v') \<Longrightarrow>
    pending v' = pending v \<and> (\<forall>i. slept_on ChanConsole t' i \<longrightarrow> slept_on ChanConsole t i)"
proof (induction "unat (u_write_index u - u_read_index u)" arbitrary: u t v rule: less_induct)
  case less
  show ?case
  proof (cases "u_write_index u \<noteq> u_read_index u \<and> fst (uart_idle rd v)")
    case True
    have dec: "unat (u_write_index (snd (uart_pop u)) - u_read_index (snd (uart_pop u))) < unat (u_write_index u - u_read_index u)"
      using usize_diff_step [of "u_read_index u" "u_write_index u"] True by (auto simp: uart_pop_def)
    have "transmit rd wr me (snd (uart_pop u)) (wake_up me ChanUart t) (wr THR (fst (uart_pop u)) (snd (uart_idle rd v))) = (u', t', v')"
      using less.prems True by (subst (asm) transmit.simps) (simp add: case_prod_beta)
    from less.hyps [OF dec this] show ?thesis
      by (auto simp: slept_on_wake_up port_feedsD [OF assms] uart_idle_def case_prod_beta)
  next
    case False
    then show ?thesis using less.prems
      by (subst (asm) transmit.simps) (auto simp: case_prod_beta uart_idle_def port_feedsD [OF assms] split: if_splits)
  qed
qed

text \<open>The ready bytes only grow, so a change is seen at the end.\<close>

definition readers_told :: "nat option \<Rightarrow> console \<Rightarrow> console \<Rightarrow> 'i ptable \<Rightarrow> 'i ptable \<Rightarrow> bool" where
  "readers_told me con con' t t' \<longleftrightarrow>
     (\<forall>i. slept_on ChanConsole t' i \<longrightarrow> slept_on ChanConsole t i) \<and>
     (fst (con_abs con') \<noteq> fst (con_abs con) \<longrightarrow> (\<forall>i. slept_on ChanConsole t' i \<longrightarrow> me = Some i))"

lemma uart_input_takes:
  assumes "port_feeds rd wr pending"
  shows "con_ok con \<Longrightarrow> \<exists>con' t' v'. uart_input rd wr False me con t v = Some (con', t', v') \<and> con_ok con' \<and>
     con_abs con' = fold line_discipline (pending v) (con_abs con) \<and> pending v' = [] \<and> readers_told me con con' t t'"
proof (induction "pending v" arbitrary: v con t)
  case Nil
  then have "uart_input rd wr False me con t v = Some (con, t, snd (rd LSR v))"
    using port_feedsD(2) [OF assms, of v] by (subst uart_input.simps) (simp add: case_prod_beta)
  then show ?case using Nil port_feedsD(3) [OF assms, of v] by (simp add: readers_told_def)
next
  case (Cons c cs)
  let ?v1 = "snd (rd LSR v)"
  have v1: "pending ?v1 = c # cs" using Cons.hyps(2) port_feedsD(3) [OF assms, of v] by simp
  note v2 = port_feedsD(4) [OF assms v1]
  obtain con1 t1 v3 where step: "console_intr rd wr False me c con t (snd (rd RHR ?v1)) = Some (con1, t1, v3)" "con_ok con1"
    "con_abs con1 = line_discipline c (con_abs con)"
    "t1 = (if fst (con_abs con1) = fst (con_abs con) then t else wake_up me ChanConsole t)"
    using console_intr_line [OF port_feedsD(1) [OF assms] Cons.prems, of wr me c t "snd (rd RHR ?v1)"] by blast
  have v3: "cs = pending v3" using console_intr_pending [OF assms step(1)] v2 by simp
  obtain con' t' v' where rest: "uart_input rd wr False me con1 t1 v3 = Some (con', t', v')" "con_ok con'"
    "con_abs con' = fold line_discipline cs (con_abs con1)" "pending v' = []" "readers_told me con1 con' t1 t'"
    using Cons.hyps(1) [OF v3 step(2), of t1] v3 by auto
  have "uart_input rd wr False me con t v = Some (con', t', v')"
    using port_feedsD(2) [OF assms, of v] Cons.hyps(2) v2 step(1) rest(1)
    by (subst uart_input.simps) (auto simp: case_prod_beta)
  moreover have "readers_told me con con' t t'"
    using rest(5) step(4) by (auto simp: readers_told_def slept_on_wake_up split: if_splits)
  ultimately show ?case using rest step(3) by (intro exI conjI) (auto simp: Cons.hyps(2) [symmetric])
qed

section \<open>Property\<close>

text \<open>C40. The interrupt handler of the serial port returns when finitely many bytes wait, and it has
  then taken all of them. Their effect on the bytes ready for readers and on the line being edited is
  the line discipline applied to them in order: backspace and line-erase touch only the line, a
  character is appended only while fewer than 128 bytes wait, and a line feed, an end of file or a
  full buffer hands the line to the readers. If bytes became ready, no other process is left asleep
  on the console. The port is one whose transmitter is idle whenever the handler asks, so that no echo
  has to wait.\<close>

theorem uart_intr_takes_input:
  assumes "port_feeds rd wr pending" "con_ok con"
  shows "\<exists>con' u' t' v'. uart_intr rd wr False me con u t v = Some (con', u', t', v') \<and> con_ok con' \<and>
     con_abs con' = fold line_discipline (pending v) (con_abs con) \<and> pending v' = [] \<and>
     (fst (con_abs con') \<noteq> fst (con_abs con) \<longrightarrow> (\<forall>i. slept_on ChanConsole t' i \<longrightarrow> me = Some i))"
proof -
  obtain con' t1 v1 where run: "uart_input rd wr False me con t v = Some (con', t1, v1)" "con_ok con'"
    "con_abs con' = fold line_discipline (pending v) (con_abs con)" "pending v1 = []" "readers_told me con con' t t1"
    using uart_input_takes [OF assms, of me t v] by blast
  obtain u' t' v' where tr: "transmit rd wr me u t1 v1 = (u', t', v')" by (rule prod_cases3)
  show ?thesis using run transmit_keeps [OF assms(1) tr] tr by (auto simp: uart_intr_def readers_told_def)
qed

text \<open>A port that holds its received bytes as a list: two characters and a carriage return.\<close>

definition list_port :: "nat \<Rightarrow> u8 list \<Rightarrow> u8 \<times> u8 list" where
  "list_port r v = (if r = LSR then (if v = [] then 0x20 else 0x21, v)
     else if r = RHR then (case v of [] \<Rightarrow> (0, []) | c # cs \<Rightarrow> (c, cs)) else (0, v))"

theorem uart_intr_takes_input_witness:
  "\<exists>con' u' t' v'. uart_intr list_port (\<lambda>r x v. v) False None console_new uart_new (ptable_new :: unit ptable) [0x6C, 0x73, CTRL_CR] =
       Some (con', u', t', v') \<and> con_abs con' = ([0x6C, 0x73, CTRL_LF], [])"
proof -
  have feeds: "port_feeds list_port (\<lambda>r x v. v) (\<lambda>v. v)"
    by (auto simp: port_feeds_def port_ready_def uart_idle_def list_port_def LSR_def RHR_def)
  have ok: "con_ok console_new" and abs: "con_abs console_new = ([], [])"
    by (simp_all add: con_ok_def console_new_def ring_ok_def con_ready_def con_abs_def con_all_def ring_contents_def)
  have "fold line_discipline [0x6C, 0x73, CTRL_CR] ([], []) = ([0x6C, 0x73, CTRL_LF], [])"
    by (simp add: line_discipline_def Let_def INPUT_BUF_def CTRL_CR_def CTRL_LF_def CTRL_EOT_def CTRL_PRINT_PROCESS_def CTRL_BS_LINE_def CTRL_BS_def CTRL_DEL_def)
  then show ?thesis
    using uart_intr_takes_input [OF feeds ok, of None uart_new "ptable_new :: unit ptable" "[0x6C, 0x73, CTRL_CR]"] abs by auto
qed

end
