(* ===== verification/Rx_File.thy ===== *)
theory Rx_File
  imports Rx_Inode Rx_Console
begin

text \<open>
  Open files: the file objects of \<^verbatim>\<open>fs/file.rs\<close>, the device table of \<^verbatim>\<open>fs/devices.rs\<close>, and the state of
  the kernel the system calls work on. A file object is behind an \<^verbatim>\<open>Arc\<close>, named by the page the global
  allocator gives for it, with the count of its references. A call that has to wait ends with the
  channel to sleep on and the number of bytes moved so far, and is resumed from there. File system
  calls run one at a time: an inode's sleep lock is free when it is taken.
\<close>

section \<open>Data\<close>

definition NDEV :: nat where "NDEV = 10"
definition MAXARG :: nat where "MAXARG = 32"
definition MAXPATH :: nat where "MAXPATH = 128"
definition CONSOLE :: nat where "CONSOLE = 0"

datatype file_type = FtNone | FtPipe | FtInode | FtDevice

record vfile =
  vf_ftype :: file_type
  vf_readable :: bool
  vf_writeable :: bool
  vf_pipe :: "usize option"
  vf_inode :: "inode option"
  vf_offset :: u32
  vf_major :: u16

definition vfile_init :: vfile where
  "vfile_init = \<lparr>vf_ftype = FtNone, vf_readable = False, vf_writeable = False, vf_pipe = None,
     vf_inode = None, vf_offset = 0, vf_major = 0\<rparr>"

text \<open>The functions in the device table are those of the console.\<close>

datatype read_fn = ConsoleRead
datatype write_fn = ConsoleWrite

record device =
  dv_read :: "read_fn option"
  dv_write :: "write_fn option"

definition device_new :: device where
  "device_new = \<lparr>dv_read = None, dv_write = None\<rparr>"

definition device_list_uninit :: "device list" where
  "device_list_uninit = replicate NDEV device_new"

text \<open>\<^verbatim>\<open>console::init\<close> after the port is initialized.\<close>

definition console_register :: "device list \<Rightarrow> device list outcome" where
  "console_register ds =
     bindR (idx_get ds CONSOLE) (\<lambda>d.
       Inr (ds[CONSOLE := d\<lparr>dv_write := Some ConsoleWrite, dv_read := Some ConsoleRead\<rparr>]))"

record file_obj =
  fo_file :: vfile
  fo_refs :: nat

text \<open>The kernel state, over the state \<open>'v\<close> of the serial port. File objects and pipes are kept
  beside the memory that holds them.\<close>

record 'v kern =
  k_mem :: kmem
  k_fs :: fs
  k_tab :: "inode ptable"
  k_files :: "nat \<Rightarrow> file_obj option"
  k_pipes :: "usize \<Rightarrow> pipe_inner option"
  k_devs :: "device list"
  k_con :: console
  k_uart :: uart
  k_port :: 'v
  k_ticks :: usize

text \<open>What the kernel takes from the machine and the linker: the registers of the serial port and
  the addresses of the assembly entry points. \<open>m_pad\<close> is what the padding of a \<^verbatim>\<open>Stat\<close> holds.\<close>

record 'v machine =
  m_rd :: "nat \<Rightarrow> 'v \<Rightarrow> u8 \<times> 'v"
  m_wr :: "nat \<Rightarrow> u8 \<Rightarrow> 'v \<Rightarrow> 'v"
  m_trampoline :: usize
  m_fork_ret :: usize
  m_pad :: "u8 list"

text \<open>The end of a call: it returns, waits on a channel, never comes back because the port is not
  ready, or ends the process.\<close>

datatype 'a call = Returns 'a | Sleeps chan nat | Hangs | Exits

definition call_of :: "'a io \<Rightarrow> 'a call" where
  "call_of r = (case r of Ready x \<Rightarrow> Returns x | Wait ch n \<Rightarrow> Sleeps ch n)"

definition my_pgt :: "nat \<Rightarrow> 'v kern \<Rightarrow> usize option outcome" where
  "my_pgt me k = bindR (get_proc me (k_tab k)) (\<lambda>p. Inr (pd_pagetable (pr_data p)))"

section \<open>Transactions\<close>

definition k_begin_op :: "'v kern \<Rightarrow> 'v kern option outcome" where
  "k_begin_op k =
     bindR (begin_op (fs_log (k_fs k))) (\<lambda>r.
       Inr (map_option (\<lambda>g. k\<lparr>k_fs := (k_fs k)\<lparr>fs_log := g\<rparr>\<rparr>) r))"

text \<open>Both ends of \<^verbatim>\<open>end_op\<close> wake the processes waiting for the log.\<close>

definition k_end_op :: "nat \<Rightarrow> 'v kern \<Rightarrow> 'v kern outcome" where
  "k_end_op me k =
     bindR (end_op (fs_log (k_fs k)) (fs_bc (k_fs k))) (\<lambda>(g, c).
       Inr (k\<lparr>k_fs := (k_fs k)\<lparr>fs_log := g, fs_bc := c\<rparr>, k_tab := wake_up (Some me) ChanLog (k_tab k)\<rparr>))"

section \<open>Sharing file objects\<close>

text \<open>The size of an \<^verbatim>\<open>ArcInner<VFile>\<close>; it only matters that it is at most a page.\<close>

definition ARC_SIZE :: nat where "ARC_SIZE = 96"

definition get_file :: "nat \<Rightarrow> 'v kern \<Rightarrow> file_obj outcome" where
  "get_file a k = unwrap (k_files k a)"

definition upd_file :: "nat \<Rightarrow> (vfile \<Rightarrow> vfile) \<Rightarrow> 'v kern \<Rightarrow> 'v kern outcome" where
  "upd_file a f k =
     bindR (get_file a k) (\<lambda>x. Inr (k\<lparr>k_files := (k_files k)(a \<mapsto> x\<lparr>fo_file := f (fo_file x)\<rparr>)\<rparr>))"

definition arc_new :: "vfile \<Rightarrow> 'v kern \<Rightarrow> (nat \<times> 'v kern) outcome" where
  "arc_new f k =
     bindR (ka_alloc ARC_SIZE (k_mem k)) (\<lambda>(r, m).
       case r of
         None \<Rightarrow> Inl AllocError
       | Some pa \<Rightarrow> Inr (unat pa, k\<lparr>k_mem := m, k_files := (k_files k)(unat pa \<mapsto> \<lparr>fo_file = f, fo_refs = 1\<rparr>)\<rparr>))"

definition arc_clone :: "nat \<Rightarrow> 'v kern \<Rightarrow> 'v kern outcome" where
  "arc_clone a k =
     bindR (get_file a k) (\<lambda>x.
       bindR (usize_inc (fo_refs x)) (\<lambda>n. Inr (k\<lparr>k_files := (k_files k)(a \<mapsto> x\<lparr>fo_refs := n\<rparr>)\<rparr>)))"

text \<open>Dropping a file closes its end of a pipe; then its fields are dropped, the inode among them.\<close>

definition vfile_drop :: "nat \<Rightarrow> vfile \<Rightarrow> 'v kern \<Rightarrow> 'v kern outcome" where
  "vfile_drop me f k =
     bindR (if vf_ftype f = FtPipe
       then bindR (unwrap (vf_pipe f)) (\<lambda>pa.
         bindR (unwrap (k_pipes k pa)) (\<lambda>q.
           bindR (pipe_close (Some me) pa (vf_writeable f) q (k_tab k) (k_mem k)) (\<lambda>(q, t, m).
             Inr (k\<lparr>k_pipes := (k_pipes k)(pa := q), k_tab := t, k_mem := m\<rparr>))))
       else Inr k) (\<lambda>k.
       case vf_inode f of
         None \<Rightarrow> Inr k
       | Some ip \<Rightarrow> bindR (icache_put ip (k_fs k)) (\<lambda>s. Inr (k\<lparr>k_fs := s\<rparr>)))"

definition arc_drop :: "nat \<Rightarrow> nat \<Rightarrow> 'v kern \<Rightarrow> 'v kern outcome" where
  "arc_drop me a k =
     bindR (get_file a k) (\<lambda>x.
       if fo_refs x = 1
       then bindR (vfile_drop me (fo_file x) (k\<lparr>k_files := (k_files k)(a := None)\<rparr>)) (\<lambda>k.
         bindR (ka_dealloc (of_nat a) ARC_SIZE (k_mem k)) (\<lambda>m. Inr (k\<lparr>k_mem := m\<rparr>)))
       else Inr (k\<lparr>k_files := (k_files k)(a \<mapsto> x\<lparr>fo_refs := fo_refs x - 1\<rparr>)\<rparr>))"

text \<open>The two ends of a new pipe.\<close>

definition pipe_end :: "bool \<Rightarrow> usize \<Rightarrow> vfile" where
  "pipe_end wr pa = \<lparr>vf_ftype = FtPipe, vf_readable = \<not> wr, vf_writeable = wr, vf_pipe = Some pa,
     vf_inode = None, vf_offset = 0, vf_major = 0\<rparr>"

definition pipe_files :: "'v kern \<Rightarrow> (nat \<times> nat \<times> 'v kern) outcome" where
  "pipe_files k =
     bindR (pipe_alloc (k_mem k)) (\<lambda>(pa, q, m).
       bindR (arc_new (pipe_end False pa) (k\<lparr>k_mem := m, k_pipes := (k_pipes k)(pa \<mapsto> q)\<rparr>)) (\<lambda>(rfd, k).
         bindR (arc_new (pipe_end True pa) k) (\<lambda>(wfd, k). Inr (rfd, wfd, k))))"

section \<open>Reading\<close>

text \<open>The entry of the table for a device file: \<^verbatim>\<open>None\<close> when the number is negative or above the
  bound. The number just past the end of the table passes the test and is out of range.\<close>

definition dev_entry :: "vfile \<Rightarrow> 'v kern \<Rightarrow> device option outcome" where
  "dev_entry f k =
     (if sint (vf_major f) < 0 \<or> NDEV < unat (vf_major f) then Inr None
      else bindR (idx_get (k_devs k) (unat (vf_major f))) (\<lambda>d. Inr (Some d)))"

definition dev_read :: "nat \<Rightarrow> usize \<Rightarrow> usize \<Rightarrow> nat \<Rightarrow> 'v kern \<Rightarrow> ((string + nat) call \<times> 'v kern) outcome" where
  "dev_read me addr len moved k =
     bindR (my_pgt me k) (\<lambda>cur.
       bindR (proc_killed me (k_tab k)) (\<lambda>killed.
         bindR (console_read cur killed True (addr + of_nat moved) (unat len) (unat len - moved) (k_con k) (k_mem k)) (\<lambda>(r, con, m).
           Inr (case r of
               Ready None \<Rightarrow> Returns (Inl ''Failed to read device'')
             | Ready (Some n) \<Rightarrow> Returns (Inr n)
             | Wait ch left \<Rightarrow> Sleeps ch (unat len - left), k\<lparr>k_con := con, k_mem := m\<rparr>))))"

definition vfile_read :: "nat \<Rightarrow> nat \<Rightarrow> usize \<Rightarrow> usize \<Rightarrow> nat \<Rightarrow> 'v kern \<Rightarrow>
    ((string + nat) call \<times> 'v kern) outcome" where
  "vfile_read me a addr len moved k =
     bindR (get_file a k) (\<lambda>x. let f = fo_file x in
       if \<not> vf_readable f then Inl FileNotReadable
       else case vf_ftype f of
         FtNone \<Rightarrow> Inl InvalidFile
       | FtPipe \<Rightarrow>
           bindR (unwrap (vf_pipe f)) (\<lambda>pa.
             bindR (unwrap (k_pipes k pa)) (\<lambda>q.
               bindR (pipe_read me pa addr (unat len) q (k_tab k) (k_mem k)) (\<lambda>(r, q, t, m).
                 Inr (call_of r, k\<lparr>k_pipes := (k_pipes k)(pa \<mapsto> q), k_tab := t, k_mem := m\<rparr>))))
       | FtInode \<Rightarrow>
           bindR (unwrap (vf_inode f)) (\<lambda>ip.
             bindR (inode_lock ip (k_fs k)) (\<lambda>s.
               bindR (my_pgt me k) (\<lambda>cur.
                 bindR (inode_read (\<lambda>d bs m. copy_from_kernel cur d bs True m) (ino_index ip) addr
                     (vf_offset f) (ucast len) (k_mem k) s) (\<lambda>(r, m, s).
                   let k = k\<lparr>k_fs := s, k_mem := m\<rparr> in
                   case r of
                     Inl e \<Rightarrow> Inr (Returns (Inl e), k)
                   | Inr n \<Rightarrow>
                       bindR (add_ck (vf_offset f) (of_nat n)) (\<lambda>off.
                         bindR (upd_file a (\<lambda>f. f\<lparr>vf_offset := off\<rparr>) k) (\<lambda>k. Inr (Returns (Inr n), k)))))))
       | FtDevice \<Rightarrow>
           bindR (dev_entry f k) (\<lambda>d.
             case d of
               None \<Rightarrow> Inr (Returns (Inl ''[Error] vfs: Fail to read file''), k)
             | Some d \<Rightarrow>
                 (case dv_read d of
                    None \<Rightarrow> Inr (Returns (Inl ''[Error] vfs: Fail to read file''), k)
                  | Some ConsoleRead \<Rightarrow> dev_read me addr len moved k)))"

section \<open>Writing\<close>

text \<open>At most this many bytes are written in one transaction.\<close>

definition MAX_WRITE :: nat where "MAX_WRITE = ((MAXOPBLOCKS - 1 - 1 - 2) div 2) * BSIZE"

declare inode_write_loop.simps [simp del] inode_read_loop.simps [simp del]

lemma inode_write_loop_total:
  "inode_write_loop rd i count tot offset src s = Inr (n, off, s') \<Longrightarrow> tot \<le> count \<Longrightarrow> n = count"
proof (induction rd i count tot offset src s rule: inode_write_loop.induct)
  case (1 rd i count tot offset src s)
  show ?case
  proof (cases "tot < count")
    case True
    have le: "tot + min (count - tot) (BSIZE - offset mod BSIZE) \<le> count" using True by simp
    from "1.prems"(1) True le show ?thesis
      by (subst (asm) inode_write_loop.simps) (auto simp: outcome_simps Let_def intro: "1.IH")
  next
    case False
    then show ?thesis using "1.prems" by (subst (asm) inode_write_loop.simps) simp
  qed
qed

lemma inode_write_total:
  "inode_write rd i src offset count s = Inr (Inr n, s') \<Longrightarrow> n = unat count"
  by (auto simp: inode_write_def outcome_simps split: if_splits dest!: inode_write_loop_total)

definition write_chunk :: "nat \<Rightarrow> inode \<Rightarrow> usize \<Rightarrow> nat \<Rightarrow> nat \<Rightarrow> u32 \<Rightarrow> 'v kern \<Rightarrow> ((string + nat) \<times> 'v kern) outcome" where
  "write_chunk me ip addr count n offset k =
     bindR (inode_lock ip (k_fs k)) (\<lambda>s.
       bindR (my_pgt me k) (\<lambda>cur.
         bindR (add_ck addr (of_nat count)) (\<lambda>src.
           bindR (inode_write (\<lambda>a n. copy_to_kernel cur n a True (k_mem k)) (ino_index ip) src offset (of_nat n) s) (\<lambda>(r, s).
             Inr (r, k\<lparr>k_fs := s\<rparr>)))))"

lemma write_chunk_total:
  assumes "write_chunk me ip addr count n offset k = Inr (Inr t, k')" "n \<le> MAX_WRITE"
  shows "t = n"
proof -
  from assms(1) have "t = unat (of_nat n :: u32)"
    by (auto simp: write_chunk_def outcome_simps dest!: inode_write_total)
  then show ?thesis using assms(2) by (simp add: MAX_WRITE_def MAXOPBLOCKS_def BSIZE_def unat_of_nat)
qed

text \<open>The transactions of a write of \<open>len\<close> bytes of which \<open>count\<close> have been written. An error in the
  middle leaves its transaction open.\<close>

function write_loop :: "nat \<Rightarrow> nat \<Rightarrow> usize \<Rightarrow> nat \<Rightarrow> nat \<Rightarrow> 'v kern \<Rightarrow> ((string + nat) call \<times> 'v kern) outcome" where
  "write_loop me a addr len count k =
     (if count < len then
        let n = min (len - count) MAX_WRITE in
        bindR (k_begin_op k) (\<lambda>b.
          case b of
            None \<Rightarrow> Inr (Sleeps ChanLog count, k)
          | Some k \<Rightarrow>
              bindR (get_file a k) (\<lambda>x.
                bindR (unwrap (vf_inode (fo_file x))) (\<lambda>ip.
                  bindR (write_chunk me ip addr count n (vf_offset (fo_file x)) k) (\<lambda>(r, k).
                    case r of
                      Inl e \<Rightarrow> Inr (Returns (Inl e), k)
                    | Inr w \<Rightarrow>
                        bindR (k_end_op me k) (\<lambda>k.
                          bindR (add_ck (vf_offset (fo_file x)) (of_nat w)) (\<lambda>off.
                            bindR (upd_file a (\<lambda>f. f\<lparr>vf_offset := off\<rparr>) k) (\<lambda>k.
                              write_loop me a addr len (count + w) k)))))))
      else Inr (Returns (Inr count), k))"
  by pat_completeness auto
termination
proof (relation "measure (\<lambda>(me, a, addr, len, count, k). len - count)", goal_cases)
  case (2 me a addr len count k n b k1 x ip rk r k2 w k3 off k4)
  then have "write_chunk me ip addr count n (vf_offset (fo_file x)) k1 = Inr (Inr w, k2)" "n \<le> MAX_WRITE" by simp_all
  then have "w = n" by (rule write_chunk_total)
  moreover have "0 < n" using 2 by (simp add: MAX_WRITE_def MAXOPBLOCKS_def BSIZE_def)
  ultimately show ?case using 2(1) by simp
qed simp

declare write_loop.simps [simp del]

definition dev_write :: "'v machine \<Rightarrow> nat \<Rightarrow> usize \<Rightarrow> usize \<Rightarrow> nat \<Rightarrow> 'v kern \<Rightarrow> ((string + nat) call \<times> 'v kern) outcome" where
  "dev_write mc me addr len moved k =
     bindR (my_pgt me k) (\<lambda>cur.
       bindR (console_write (m_rd mc) (m_wr mc) False (Some me) cur True (addr + of_nat moved) (unat len) moved
           (k_uart k) (k_tab k) (k_port k) (k_mem k)) (\<lambda>r.
         case r of
           None \<Rightarrow> Inr (Hangs, k)
         | Some (r, u, t, v) \<Rightarrow>
             Inr (call_of (case r of Ready n \<Rightarrow> Ready (Inr n) | Wait ch i \<Rightarrow> Wait ch i),
                  k\<lparr>k_uart := u, k_tab := t, k_port := v\<rparr>)))"

definition vfile_write :: "'v machine \<Rightarrow> nat \<Rightarrow> nat \<Rightarrow> usize \<Rightarrow> usize \<Rightarrow> nat \<Rightarrow> 'v kern \<Rightarrow>
    ((string + nat) call \<times> 'v kern) outcome" where
  "vfile_write mc me a addr len moved k =
     bindR (get_file a k) (\<lambda>x. let f = fo_file x in
       if \<not> vf_writeable f then Inl FileNotWriteable
       else case vf_ftype f of
         FtNone \<Rightarrow> Inl InvalidFile
       | FtPipe \<Rightarrow>
           bindR (unwrap (vf_pipe f)) (\<lambda>pa.
             bindR (unwrap (k_pipes k pa)) (\<lambda>q.
               bindR (pipe_write me pa addr (unat len) moved q (k_tab k) (k_mem k)) (\<lambda>(r, q, t).
                 Inr (call_of r, k\<lparr>k_pipes := (k_pipes k)(pa \<mapsto> q), k_tab := t\<rparr>))))
       | FtInode \<Rightarrow> write_loop me a addr (unat len) moved k
       | FtDevice \<Rightarrow>
           bindR (dev_entry f k) (\<lambda>d.
             case d of
               None \<Rightarrow> Inr (Returns (Inl ''[Error] vfs: Fail to write file''), k)
             | Some d \<Rightarrow>
                 (case dv_write d of
                    None \<Rightarrow> Inr (Returns (Inl ''[Error] vfs: Fail to write file''), k)
                  | Some ConsoleWrite \<Rightarrow> dev_write mc me addr len moved k)))"

section \<open>Status\<close>

text \<open>The 24 bytes of a \<^verbatim>\<open>Stat\<close>; four bytes of padding precede the size.\<close>

definition stat_bytes :: "u8 list \<Rightarrow> stat \<Rightarrow> u8 list" where
  "stat_bytes pad st = to_le 4 (st_dev st) @ to_le 4 (st_inum st) @ to_le 2 (inode_type_code (st_type st)) @
     to_le 2 (st_nlink st) @ take 4 (pad @ replicate 4 0) @ to_le 8 (st_size st)"

definition vfile_stat :: "'v machine \<Rightarrow> nat \<Rightarrow> nat \<Rightarrow> usize \<Rightarrow> 'v kern \<Rightarrow> ((string + unit) \<times> 'v kern) outcome" where
  "vfile_stat mc me a addr k =
     bindR (get_file a k) (\<lambda>x. let f = fo_file x in
       if vf_ftype f \<noteq> FtDevice \<and> FtInode \<noteq> vf_ftype f
       then Inr (Inl ''File type of {:?} not implemented'', k)
       else bindR (unwrap (vf_inode f)) (\<lambda>ip.
         bindR (inode_lock ip (k_fs k)) (\<lambda>s.
           bindR (get_idata (ino_index ip) s) (\<lambda>d.
             bindR (my_pgt me k) (\<lambda>cur.
               bindR (unwrap cur) (\<lambda>pgt.
                 bindR (copy_out pgt addr (stat_bytes (m_pad mc) (idata_stat d)) (k_mem k)) (\<lambda>m.
                   Inr (Inr (), k\<lparr>k_fs := s, k_mem := m\<rparr>))))))))"

end
