(* ===== verification/Rx_Exec.thy ===== *)
theory Rx_Exec
  imports Rx_File
begin

text \<open>
  The program loader, \<^verbatim>\<open>process/elf.rs\<close>: \<open>load_seg\<close> reads a segment of the file into the pages of a new
  address space, and \<open>exec\<close> builds the address space from the program headers, puts the arguments on
  the user stack and installs it. The headers are read into local variables, lists of their bytes.
  Values that go out of scope on a return, the new page table and the inode, are dropped there.
\<close>

section \<open>Headers\<close>

definition ELF_MAGIC :: u32 where "ELF_MAGIC = 0x464C457F"
definition ELF_PROG_LOAD :: u32 where "ELF_PROG_LOAD = 1"
definition EH_SIZE :: nat where "EH_SIZE = 64"
definition PH_SIZE :: nat where "PH_SIZE = 56"

definition field64 :: "u8 list \<Rightarrow> nat \<Rightarrow> usize" where
  "field64 x off = of_le (take 8 (drop off x))"

record elf_header =
  eh_magic :: u32
  eh_entry :: usize
  eh_phoff :: usize
  eh_phnum :: u16

definition elf_header_of :: "u8 list \<Rightarrow> elf_header" where
  "elf_header_of x = \<lparr>eh_magic = field32 x 0, eh_entry = field64 x 24, eh_phoff = field64 x 32, eh_phnum = field16 x 56\<rparr>"

record prog_header =
  ph_type :: u32
  ph_off :: usize
  ph_vaddr :: usize
  ph_file_size :: usize
  ph_mem_size :: usize

definition prog_header_of :: "u8 list \<Rightarrow> prog_header" where
  "prog_header_of x = \<lparr>ph_type = field32 x 0, ph_off = field64 x 8, ph_vaddr = field64 x 16,
     ph_file_size = field64 x 32, ph_mem_size = field64 x 40\<rparr>"

section \<open>Segments\<close>

function load_seg_loop :: "usize \<Rightarrow> nat \<Rightarrow> usize \<Rightarrow> usize \<Rightarrow> usize \<Rightarrow> usize \<Rightarrow> kmem \<Rightarrow> fs \<Rightarrow>
    ((string + unit) \<times> kmem \<times> fs) outcome" where
  "load_seg_loop pgt i va offset sz copy_size m s =
     (if copy_size < sz then
        bindR (pgt_translate pgt va m) (\<lambda>(r, m).
          case r of
            None \<Rightarrow> Inl LoadSegUnmapped
          | Some pa \<Rightarrow>
              let count = (if sz - copy_size < PGSIZE then sz - copy_size else PGSIZE) in
              bindR (add_ck offset copy_size) (\<lambda>o1.
                bindR (inode_read (\<lambda>d bs m. copy_from_kernel None d bs False m) i pa (ucast o1) (ucast count) m s) (\<lambda>(r, m, s).
                  case r of
                    Inl e \<Rightarrow> Inr (Inl e, m, s)
                  | Inr _ \<Rightarrow>
                      bindR (add_ck copy_size PGSIZE) (\<lambda>copied.
                        bindR (add_page va) (\<lambda>va. load_seg_loop pgt i va offset sz copied m s)))))
      else Inr (Inr (), m, s))"
  by pat_completeness auto
termination
proof (relation "measure (\<lambda>(pgt, i, va, offset, sz, copy_size, m, s). 2 ^ 64 - unat copy_size)", goal_cases)
  case (2 pgt i va offset sz copy_size m s x r m1 pa count o1 y z w m2 s2 u copied va1)
  then have "add_page copy_size = Inr copied" by (simp add: add_page_def)
  then show ?case by (simp only: in_measure prod.case add_page_less)
qed simp

declare load_seg_loop.simps [simp del]

definition load_seg :: "usize \<Rightarrow> usize \<Rightarrow> nat \<Rightarrow> usize \<Rightarrow> usize \<Rightarrow> kmem \<Rightarrow> fs \<Rightarrow> ((string + unit) \<times> kmem \<times> fs) outcome" where
  "load_seg pgt va i offset sz m s =
     (if \<not> is_page_aligned va then Inl LoadSegUnaligned
      else load_seg_loop pgt i va offset sz 0 m s)"

text \<open>The loop over the program headers: \<open>n\<close> headers are left, the next one is at \<open>off\<close>, and the
  address space has \<open>sz\<close> bytes. An error comes with whether the page table is freed explicitly.\<close>

fun load_segs :: "usize \<Rightarrow> nat \<Rightarrow> nat \<Rightarrow> usize \<Rightarrow> usize \<Rightarrow> kmem \<Rightarrow> fs \<Rightarrow> ((bool \<times> string + unit) \<times> usize \<times> kmem \<times> fs) outcome" where
  "load_segs pgt i 0 off sz m s = Inr (Inr (), sz, m, s)"
| "load_segs pgt i (Suc n) off sz m s =
     bindR (inode_read local_wr i 0 (ucast off) (of_nat PH_SIZE) (replicate PH_SIZE 0) s) (\<lambda>(r, x, s).
       case r of
         Inl _ \<Rightarrow> Inr (Inl (False, ''exec: Fail to read from inode''), sz, m, s)
       | Inr _ \<Rightarrow>
           let ph = prog_header_of x in
           if ph_type ph \<noteq> ELF_PROG_LOAD
           then bindR (add_ck off (of_nat PH_SIZE)) (\<lambda>off. load_segs pgt i n off sz m s)
           else if ph_mem_size ph < ph_file_size ph
           then Inr (Inl (True, ''exec: memory size is less than file size.''), sz, m, s)
           else case checked_add (ph_vaddr ph) (ph_mem_size ph) of
             None \<Rightarrow> Inr (Inl (True, ''exec: vaddr + memsize < vaddr''), sz, m, s)
           | Some e \<Rightarrow>
               bindR (ualloc pgt sz e m) (\<lambda>(r, m).
                 case r of
                   None \<Rightarrow> Inr (Inl (True, ''exec: Fail to ualloc''), sz, m, s)
                 | Some sz \<Rightarrow>
                     if ph_vaddr ph mod PGSIZE \<noteq> 0
                     then Inr (Inl (True, ''Exec: Program header must be integer multiple of PGSIZE.''), sz, m, s)
                     else bindR (load_seg pgt (ph_vaddr ph) i (ph_off ph) (ph_file_size ph) m s) (\<lambda>(r, m, s).
                       case r of
                         Inl _ \<Rightarrow> Inr (Inl (True, ''exec: Fail to load segment''), sz, m, s)
                       | Inr _ \<Rightarrow> bindR (add_ck off (of_nat PH_SIZE)) (\<lambda>off. load_segs pgt i n off sz m s))))"

section \<open>Arguments\<close>

definition align_sp :: "usize \<Rightarrow> usize" where
  "align_sp sp = sp - sp mod 16"

text \<open>The length of a string: \<^const>\<open>None\<close> when the search does not meet a terminator.\<close>

partial_function (option) strlen :: "(nat \<Rightarrow> u8) \<Rightarrow> nat \<Rightarrow> nat \<Rightarrow> nat option" where
  "strlen p a n = (if p (a + n) = 0 then Some n else strlen p a (n + 1))"

text \<open>The loop over the arguments. The new stack pointer and the addresses pushed so far are returned
  with the number of arguments; \<^const>\<open>None\<close> is a search that does not end.\<close>

function push_args :: "usize \<Rightarrow> usize list \<Rightarrow> nat \<Rightarrow> usize \<Rightarrow> usize list \<Rightarrow> kmem \<Rightarrow>
    ((string + nat \<times> usize \<times> usize list) option \<times> kmem) outcome" where
  "push_args pgt argv argc sp ustack m =
     bindR (idx_get argv argc) (\<lambda>a.
       if a = 0 then Inr (Some (Inr (argc, sp, ustack)), m)
       else if MAXARG \<le> argc then Inr (Some (Inl ''exec: argc is more than MAXARG''), m)
       else case strlen (pmem m) (unat a) 0 of
         None \<Rightarrow> Inr (None, m)
       | Some l \<Rightarrow>
           bindR (sub_ck sp (of_nat (l + 1))) (\<lambda>sp.
             let sp = align_sp sp in
             if sp < USTACK_BASE then Inr (Some (Inl ''exec: User stack Bomb!''), m)
             else bindR (copy_out pgt sp (load_bytes (pmem m) (unat a) (l + 1)) m) (\<lambda>m.
               bindR (idx_set ustack argc sp) (\<lambda>ustack.
                 push_args pgt argv (argc + 1) sp ustack m))))"
  by pat_completeness auto
termination
  by (relation "measure (\<lambda>(pgt, argv, argc, sp, ustack, m). length argv - argc)") (auto simp: outcome_simps)

declare push_args.simps [simp del]

text \<open>The table of argument addresses, with its null terminator.\<close>

definition push_argv :: "usize \<Rightarrow> nat \<Rightarrow> usize \<Rightarrow> usize list \<Rightarrow> kmem \<Rightarrow> ((string + usize) \<times> kmem) outcome" where
  "push_argv pgt argc sp ustack m =
     bindR (idx_set ustack argc 0) (\<lambda>ustack.
       bindR (sub_ck sp (of_nat ((argc + 1) * 8))) (\<lambda>sp.
         let sp = align_sp sp in
         if sp < USTACK_BASE then Inr (Inl ''exec: Too Many arguments (exceed user stack)'', m)
         else bindR (copy_out pgt sp (concat (map (to_le 8) (take (argc + 1) ustack))) m) (\<lambda>m. Inr (Inr sp, m))))"

section \<open>Replacing the program\<close>

text \<open>An error after the page table exists: it is freed, when the code does so, and dropped; the
  transaction is ended if it is still open; the inode is dropped last.\<close>

definition exec_fail :: "nat \<Rightarrow> bool \<Rightarrow> bool \<Rightarrow> usize \<Rightarrow> usize \<Rightarrow> inode \<Rightarrow> string \<Rightarrow> 'v kern \<Rightarrow>
    ((string + nat) call \<times> 'v kern) outcome" where
  "exec_fail me free opened pgt sz ip msg k =
     bindR (if free then proc_free_pagetable pgt sz (k_mem k) else Inr (k_mem k)) (\<lambda>m.
       bindR (if opened then k_end_op me (k\<lparr>k_mem := m\<rparr>) else Inr (k\<lparr>k_mem := m\<rparr>)) (\<lambda>k.
         bindR (box_pt_drop pgt (k_mem k)) (\<lambda>m.
           bindR (icache_put ip (k_fs k)) (\<lambda>s. Inr (Returns (Inl msg), k\<lparr>k_mem := m, k_fs := s\<rparr>)))))"

text \<open>The new image: the second argument register, the name, the page table, the size, the entry point
  and the stack pointer. The old table is freed with the old size.\<close>

definition exec_install :: "nat \<Rightarrow> usize \<Rightarrow> usize \<Rightarrow> usize \<Rightarrow> usize \<Rightarrow> u8 list \<Rightarrow> usize \<Rightarrow> 'v kern \<Rightarrow> 'v kern outcome" where
  "exec_install me pgt sz old_size sp path entry k =
     bindR (get_proc me (k_tab k)) (\<lambda>p.
       let tf = pd_trapframe (pr_data p); m = tf_set tf (TF_AX 1) sp (k_mem k) in
       bindR (upd_data me (\<lambda>d. (set_name path d)\<lparr>pd_pagetable := Some pgt\<rparr>) (k_tab k)) (\<lambda>t.
         bindR (case pd_pagetable (pr_data p) of
             None \<Rightarrow> Inr m
           | Some old \<Rightarrow> bindR (proc_free_pagetable old old_size m) (box_pt_drop old)) (\<lambda>m.
           bindR (upd_data me (\<lambda>d. d\<lparr>pd_size := sz\<rparr>) t) (\<lambda>t.
             Inr (k\<lparr>k_tab := t, k_mem := tf_set tf TF_SP sp (tf_set tf TF_EPC entry m)\<rparr>)))))"

definition exec_args :: "nat \<Rightarrow> usize \<Rightarrow> usize \<Rightarrow> usize \<Rightarrow> usize \<Rightarrow> inode \<Rightarrow> u8 list \<Rightarrow> usize list \<Rightarrow> 'v kern \<Rightarrow>
    ((string + nat) call \<times> 'v kern) outcome" where
  "exec_args me pgt sz old_size entry ip path argv k =
     bindR (add_ck USTACK_BASE USTACK_SIZE) (\<lambda>sp.
       bindR (push_args pgt argv 0 sp (replicate MAXARG 0) (k_mem k)) (\<lambda>(r, m).
         case r of
           None \<Rightarrow> Inr (Hangs, k\<lparr>k_mem := m\<rparr>)
         | Some (Inl e) \<Rightarrow> exec_fail me True False pgt sz ip e (k\<lparr>k_mem := m\<rparr>)
         | Some (Inr (argc, sp, ustack)) \<Rightarrow>
             bindR (push_argv pgt argc sp ustack m) (\<lambda>(r, m).
               case r of
                 Inl e \<Rightarrow> exec_fail me True False pgt sz ip e (k\<lparr>k_mem := m\<rparr>)
               | Inr sp \<Rightarrow>
                   bindR (exec_install me pgt sz old_size sp path entry (k\<lparr>k_mem := m\<rparr>)) (\<lambda>k.
                     bindR (icache_put ip (k_fs k)) (\<lambda>s. Inr (Returns (Inr argc), k\<lparr>k_fs := s\<rparr>))))))"

text \<open>From the locked inode to the loaded segments and the stack.\<close>

definition exec_load :: "'v machine \<Rightarrow> nat \<Rightarrow> inode \<Rightarrow> u8 list \<Rightarrow> usize list \<Rightarrow> elf_header \<Rightarrow> 'v kern \<Rightarrow>
    ((string + nat) call \<times> 'v kern) outcome" where
  "exec_load mc me ip path argv eh k =
     bindR (get_proc me (k_tab k)) (\<lambda>p.
       bindR (proc_pagetable (m_trampoline mc) (pd_trapframe (pr_data p)) (k_mem k)) (\<lambda>(r, m).
         bindR (unwrap r) (\<lambda>pgt.
           bindR (load_segs pgt (ino_index ip) (unat (eh_phnum eh)) (eh_phoff eh) 0 m (k_fs k)) (\<lambda>(r, sz, m, s).
             let k = k\<lparr>k_mem := m, k_fs := s\<rparr> in
             case r of
               Inl (free, e) \<Rightarrow> exec_fail me free True pgt sz ip e k
             | Inr _ \<Rightarrow>
                 bindR (k_end_op me k) (\<lambda>k.
                   bindR (page_round_up sz) (\<lambda>sz.
                     bindR (ualloc_stack pgt (k_mem k)) (\<lambda>(ok, m).
                       if \<not> ok then exec_fail me True False pgt sz ip ''exec: Fail to ualloc stack'' (k\<lparr>k_mem := m\<rparr>)
                       else exec_args me pgt sz (pd_size (pr_data p)) (eh_entry eh) ip path argv (k\<lparr>k_mem := m\<rparr>))))))))"

text \<open>An unknown path returns with the transaction open.\<close>

definition exec :: "'v machine \<Rightarrow> nat \<Rightarrow> u8 list \<Rightarrow> usize list \<Rightarrow> 'v kern \<Rightarrow> ((string + nat) call \<times> 'v kern) outcome" where
  "exec mc me path argv k =
     bindR (k_begin_op k) (\<lambda>b.
       case b of
         None \<Rightarrow> Inr (Sleeps ChanLog 0, k)
       | Some k \<Rightarrow>
           bindR (get_proc me (k_tab k)) (\<lambda>p.
             bindR (namei (pd_cwd (pr_data p)) path (k_fs k)) (\<lambda>(r, s).
               case r of
                 None \<Rightarrow> Inr (Returns (Inl ''Fail to find executable file''), k\<lparr>k_fs := s\<rparr>)
               | Some ip \<Rightarrow>
                   bindR (inode_lock ip s) (\<lambda>s.
                     bindR (inode_read local_wr (ino_index ip) 0 0 (of_nat EH_SIZE) (replicate EH_SIZE 0) s) (\<lambda>(r, x, s).
                       let eh = elf_header_of x; k = k\<lparr>k_fs := s\<rparr> in
                       case (case r of
                           Inl _ \<Rightarrow> Some ''exec: Failed to read elf header.''
                         | Inr _ \<Rightarrow> if eh_magic eh \<noteq> ELF_MAGIC then Some ''exec: Elf magic number is wrong'' else None) of
                         Some e \<Rightarrow>
                           bindR (k_end_op me k) (\<lambda>k.
                             bindR (icache_put ip (k_fs k)) (\<lambda>s. Inr (Returns (Inl e), k\<lparr>k_fs := s\<rparr>)))
                       | None \<Rightarrow> exec_load mc me ip path argv eh k)))))"

end
