(* ===== verification/Rx_Syscall.thy ===== *)
theory Rx_Syscall
  imports Rx_Exec
begin

text \<open>
  System calls: creating and ending processes (\<^verbatim>\<open>Process::fork\<close>, \<^verbatim>\<open>ProcManager::user_init\<close>, the two
  \<^verbatim>\<open>exit\<close> functions) and the handlers of \<^verbatim>\<open>syscall/\<close> with their dispatcher. A handler works for the
  process \<open>me\<close>; its arguments are in the process's trapframe. Values that go out of scope are dropped
  where Rust drops them, also after the end of a transaction.
\<close>

section \<open>Open files and working directories of a process\<close>

definition my_data :: "nat \<Rightarrow> 'v kern \<Rightarrow> inode proc_data outcome" where
  "my_data me k = bindR (get_proc me (k_tab k)) (\<lambda>p. Inr (pr_data p))"

definition k_upd_data :: "nat \<Rightarrow> (inode proc_data \<Rightarrow> inode proc_data) \<Rightarrow> 'v kern \<Rightarrow> 'v kern outcome" where
  "k_upd_data i f k = bindR (upd_data i f (k_tab k)) (\<lambda>t. Inr (k\<lparr>k_tab := t\<rparr>))"

definition k_put :: "inode \<Rightarrow> 'v kern \<Rightarrow> 'v kern outcome" where
  "k_put ip k = bindR (icache_put ip (k_fs k)) (\<lambda>s. Inr (k\<lparr>k_fs := s\<rparr>))"

definition k_put_opt :: "inode option \<Rightarrow> 'v kern \<Rightarrow> 'v kern outcome" where
  "k_put_opt x k = (case x of None \<Rightarrow> Inr k | Some ip \<Rightarrow> k_put ip k)"

definition fd_get :: "nat \<Rightarrow> nat \<Rightarrow> 'v kern \<Rightarrow> nat option outcome" where
  "fd_get me fd k = bindR (my_data me k) (\<lambda>d. idx_get (pd_open_files d) fd)"

definition fd_set :: "nat \<Rightarrow> nat \<Rightarrow> nat option \<Rightarrow> 'v kern \<Rightarrow> 'v kern outcome" where
  "fd_set me fd x k = k_upd_data me (\<lambda>d. d\<lparr>pd_open_files := (pd_open_files d)[fd := x]\<rparr>) k"

text \<open>\<^verbatim>\<open>take\<close> on a descriptor, with the drop of what was there.\<close>

definition fd_take :: "nat \<Rightarrow> nat \<Rightarrow> nat \<Rightarrow> 'v kern \<Rightarrow> 'v kern outcome" where
  "fd_take me i fd k =
     bindR (fd_get i fd k) (\<lambda>x.
       case x of
         None \<Rightarrow> Inr k
       | Some a \<Rightarrow> bindR (fd_set i fd None k) (\<lambda>k. arc_drop me a k))"

text \<open>\<^verbatim>\<open>fd_alloc\<close> with the file it is given, which is dropped when there is no free descriptor.\<close>

definition k_fd_alloc :: "nat \<Rightarrow> nat \<Rightarrow> 'v kern \<Rightarrow> ((string + nat) \<times> 'v kern) outcome" where
  "k_fd_alloc me a k =
     bindR (fd_alloc me a (k_tab k)) (\<lambda>(r, t).
       case r of
         Inl e \<Rightarrow> bindR (arc_drop me a (k\<lparr>k_tab := t\<rparr>)) (\<lambda>k. Inr (Inl e, k))
       | Inr fd \<Rightarrow> Inr (Inr fd, k\<lparr>k_tab := t\<rparr>))"

section \<open>Creating processes\<close>

text \<open>One descriptor of \<^verbatim>\<open>clone_from\<close>: the parent's file is shared and what the child had is dropped.\<close>

definition fork_fd :: "nat \<Rightarrow> nat \<Rightarrow> nat \<Rightarrow> 'v kern \<Rightarrow> 'v kern outcome" where
  "fork_fd me child fd k =
     bindR (fd_get me fd k) (\<lambda>x.
       bindR (fd_get child fd k) (\<lambda>old.
         bindR (case x of None \<Rightarrow> Inr k | Some a \<Rightarrow> arc_clone a k) (\<lambda>k.
           bindR (fd_set child fd x k) (\<lambda>k.
             case old of None \<Rightarrow> Inr k | Some b \<Rightarrow> arc_drop me b k))))"

definition fork_cwd :: "nat \<Rightarrow> nat \<Rightarrow> 'v kern \<Rightarrow> 'v kern outcome" where
  "fork_cwd me child k =
     bindR (my_data me k) (\<lambda>p.
       bindR (my_data child k) (\<lambda>c.
         bindR (case pd_cwd p of
             None \<Rightarrow> Inr (k_fs k)
           | Some ip \<Rightarrow> bindR (inode_clone ip (k_fs k)) (\<lambda>(_, s). Inr s)) (\<lambda>s.
           bindR (k_upd_data child (\<lambda>d. d\<lparr>pd_cwd := pd_cwd p\<rparr>) (k\<lparr>k_fs := s\<rparr>)) (\<lambda>k.
             k_put_opt (pd_cwd c) k))))"

text \<open>The memory of the child: user pages shared, the stack copied, the trapframe with \<open>a0\<close> zero.\<close>

definition TF_SIZE :: nat where "TF_SIZE = 288"

definition fork_memory :: "inode proc_data \<Rightarrow> inode proc_data \<Rightarrow> kmem \<Rightarrow> kmem outcome" where
  "fork_memory p c m =
     bindR (case (pd_pagetable p, pd_pagetable c) of
         (Some pgt, Some cpgt) \<Rightarrow>
           bindR (ucopy_nocopy pgt cpgt 0 (pd_size p) m) (\<lambda>(r, m).
             case r of Inl _ \<Rightarrow> Inl UnwrapNone | Inr _ \<Rightarrow> ucopy_stack pgt cpgt m)
       | _ \<Rightarrow> Inr m) (\<lambda>m.
       Inr (tf_set (pd_trapframe c) (TF_AX 0) 0
         (m\<lparr>pmem := store_bytes (pmem m) (unat (pd_trapframe c)) (load_bytes (pmem m) (unat (pd_trapframe p)) TF_SIZE)\<rparr>)))"

definition fork :: "'v machine \<Rightarrow> nat \<Rightarrow> 'v kern \<Rightarrow> (nat option \<times> 'v kern) outcome" where
  "fork mc me k =
     bindR (alloc_proc (m_trampoline mc) (m_fork_ret mc) (k_tab k) (k_mem k)) (\<lambda>(r, t, m).
       let k = k\<lparr>k_tab := t, k_mem := m\<rparr> in
       case r of
         None \<Rightarrow> Inr (None, k)
       | Some child \<Rightarrow>
           bindR (my_data me k) (\<lambda>p.
             bindR (my_data child k) (\<lambda>c.
               bindR (fork_memory p c (k_mem k)) (\<lambda>m.
                 bindR (foldR (fork_fd me child) [0..<NFILE] (k\<lparr>k_mem := m\<rparr>)) (\<lambda>k.
                   bindR (fork_cwd me child k) (\<lambda>k.
                     bindR (k_upd_data child (\<lambda>d. d\<lparr>pd_name := pd_name p, pd_size := pd_size p\<rparr>) k) (\<lambda>k.
                       bindR (upd_meta child (set_state Runnable) (k_tab k)) (\<lambda>t.
                         bindR (idx_set (pt_wait_list t) (pd_id c) (Some me)) (\<lambda>w.
                           Inr (Some child, k\<lparr>k_tab := t\<lparr>pt_wait_list := w\<rparr>\<rparr>))))))))))"

definition INITCODE :: "u8 list" where
  "INITCODE =
     [0x17, 0x05, 0x00, 0x00, 0x13, 0x05, 0x45, 0x02, 0x97, 0x05, 0x00, 0x00, 0x93, 0x85, 0x35, 0x02,
      0x93, 0x08, 0x70, 0x00, 0x73, 0x00, 0x00, 0x00, 0x93, 0x08, 0x20, 0x00, 0x73, 0x00, 0x00, 0x00,
      0xef, 0xf0, 0x9f, 0xff, 0x2f, 0x69, 0x6e, 0x69, 0x74, 0x00, 0x00, 0x24, 0x00, 0x00, 0x00, 0x00,
      0x00, 0x00, 0x00, 0x00]"

definition ROOTIPATH :: "u8 list" where "ROOTIPATH = [SLASH, 0]"

text \<open>The first process, made before any process runs.\<close>

definition user_init :: "'v machine \<Rightarrow> 'v kern \<Rightarrow> 'v kern outcome" where
  "user_init mc k =
     bindR (alloc_proc (m_trampoline mc) (m_fork_ret mc) (k_tab k) (k_mem k)) (\<lambda>(r, t, m).
       bindR (unwrap r) (\<lambda>i.
         bindR (my_data i (k\<lparr>k_tab := t\<rparr>)) (\<lambda>d.
           bindR (unwrap (pd_pagetable d)) (\<lambda>pgt.
             bindR (uinit pgt INITCODE m) (\<lambda>m.
               bindR (add_ck USTACK_BASE USTACK_SIZE) (\<lambda>sp.
                 let m = tf_set (pd_trapframe d) TF_SP sp (tf_set (pd_trapframe d) TF_EPC 0 m) in
                 bindR (namei None ROOTIPATH (k_fs k)) (\<lambda>(r, s).
                   bindR (unwrap r) (\<lambda>ip.
                     bindR (k_upd_data i (\<lambda>d. (set_name (map (of_nat \<circ> of_char) ''initprog'' @ [0]) d)\<lparr>pd_size := PGSIZE, pd_cwd := Some ip\<rparr>)
                         (k\<lparr>k_mem := m, k_tab := t, k_fs := s\<rparr>)) (\<lambda>k.
                       bindR (k_put_opt (pd_cwd d) k) (\<lambda>k.
                         bindR (upd_meta i (set_state Runnable) (k_tab k)) (\<lambda>t.
                           Inr (k\<lparr>k_tab := t\<lparr>pt_init_proc := (case pt_init_proc t of None \<Rightarrow> Some i | Some j \<Rightarrow> Some j)\<rparr>\<rparr>))))))))))))"

section \<open>Ending processes\<close>

text \<open>The part the two \<^verbatim>\<open>exit\<close> functions share: all descriptors are taken, and the working directory is
  dropped in a transaction of its own. \<^const>\<open>None\<close> is the wait for the log; resuming repeats the
  release, which finds nothing left to do.\<close>

definition release_all :: "nat \<Rightarrow> 'v kern \<Rightarrow> ('v kern option \<times> 'v kern) outcome" where
  "release_all me k =
     bindR (foldR (fd_take me me) [0..<NFILE] k) (\<lambda>k.
       bindR (k_begin_op k) (\<lambda>b.
         case b of
           None \<Rightarrow> Inr (None, k)
         | Some k \<Rightarrow>
             bindR (my_data me k) (\<lambda>d.
               bindR (k_upd_data me (\<lambda>d. d\<lparr>pd_cwd := None\<rparr>) k) (\<lambda>k.
                 bindR (k_put_opt (pd_cwd d) k) (\<lambda>k.
                   bindR (k_end_op me k) (\<lambda>k. Inr (Some k, k)))))))"

text \<open>\<^verbatim>\<open>ProcManager::exit\<close>; the hart \<open>h\<close> takes the lock of the process and gives it to the scheduler.\<close>

definition manager_exit :: "nat \<Rightarrow> usize \<Rightarrow> hart \<Rightarrow> 'v kern \<Rightarrow> (unit call \<times> 'v kern) outcome" where
  "manager_exit me status h k =
     bindR (exit_hide me (k_tab k)) (\<lambda>t.
       bindR (release_all me (k\<lparr>k_tab := t\<rparr>)) (\<lambda>(r, k).
         case r of
           None \<Rightarrow> Inr (Sleeps ChanLog 0, k)
         | Some k \<Rightarrow>
             bindR (push_off h) (\<lambda>h.
               bindR (exit_proc me status h (k_tab k)) (\<lambda>t. Inr (Exits, k\<lparr>k_tab := t\<rparr>)))))"

text \<open>\<^verbatim>\<open>process::exit\<close>, used by the trap handler: it does not hide the process from signals, and it drops
  the lock of the process before it runs the scheduler.\<close>

definition proc_exit :: "nat \<Rightarrow> usize \<Rightarrow> 'v kern \<Rightarrow> (unit call \<times> 'v kern) outcome" where
  "proc_exit me status k =
     bindR (release_all me k) (\<lambda>(r, k).
       case r of
         None \<Rightarrow> Inr (Sleeps ChanLog 0, k)
       | Some k \<Rightarrow> bindR (quit_proc me status (k_tab k)) (\<lambda>t. Inr (Exits, k\<lparr>k_tab := t\<rparr>)))"

section \<open>Arguments\<close>

definition arg :: "nat \<Rightarrow> nat \<Rightarrow> 'v kern \<Rightarrow> usize outcome" where
  "arg me i k =
     bindR (my_data me k) (\<lambda>d.
       if 5 < i then Inl TooManyArgs else Inr (tf_get (pd_trapframe d) (TF_AX i) (k_mem k)))"

definition copy_from_str :: "nat \<Rightarrow> usize \<Rightarrow> u8 list \<Rightarrow> 'v kern \<Rightarrow> u8 list outcome" where
  "copy_from_str me addr buf k =
     bindR (my_data me k) (\<lambda>d.
       bindR (unwrap (pd_pagetable d)) (\<lambda>pgt. copy_in_str pgt buf addr (k_mem k)))"

definition copy_from_addr :: "nat \<Rightarrow> usize \<Rightarrow> nat \<Rightarrow> 'v kern \<Rightarrow> u8 list outcome" where
  "copy_from_addr me addr n k =
     bindR (my_data me k) (\<lambda>d.
       bindR (if pd_size d < addr then Inr True
              else bindR (add_ck addr 8) (\<lambda>e. Inr (pd_size d < e))) (\<lambda>bad.
         if bad then Inl InvalidUserAddr
         else bindR (unwrap (pd_pagetable d)) (\<lambda>pgt. copy_in pgt n addr (k_mem k))))"

text \<open>How a handler ends: with its result, waiting with the place to resume at, not at all, or with
  the end of the process.\<close>

datatype resume = AtStart | After nat | AtExec "u8 list" "usize list"

datatype sys_end = SysRet "unit + usize" | SysSleep chan resume | SysHang | SysExit

definition moved_of :: "resume \<Rightarrow> nat" where
  "moved_of r = (case r of After n \<Rightarrow> n | _ \<Rightarrow> 0)"

definition sys_of :: "('e + nat) call \<Rightarrow> sys_end" where
  "sys_of r = (case r of
      Returns (Inl _) \<Rightarrow> SysRet (Inl ())
    | Returns (Inr n) \<Rightarrow> SysRet (Inr (of_nat n))
    | Sleeps ch n \<Rightarrow> SysSleep ch (After n)
    | Hangs \<Rightarrow> SysHang
    | Exits \<Rightarrow> SysExit)"

text \<open>A handler whose body is a transaction. The source waits for the log inside \<^verbatim>\<open>begin_op\<close>, with the
  arguments it has read; here the handler starts again after the wait and reads them again, which makes a
  difference only if the memory they point to is changed meanwhile by a process that shares it.\<close>

definition in_transaction :: "('v kern \<Rightarrow> (sys_end \<times> 'v kern) outcome) \<Rightarrow> 'v kern \<Rightarrow> (sys_end \<times> 'v kern) outcome" where
  "in_transaction body k =
     bindR (k_begin_op k) (\<lambda>b. case b of None \<Rightarrow> Inr (SysSleep ChanLog AtStart, k) | Some k \<Rightarrow> body k)"

text \<open>The end of the transaction and the inodes dropped after it.\<close>

definition finish :: "nat \<Rightarrow> inode list \<Rightarrow> unit + usize \<Rightarrow> 'v kern \<Rightarrow> (sys_end \<times> 'v kern) outcome" where
  "finish me ips r k =
     bindR (k_end_op me k) (\<lambda>k. bindR (foldR k_put ips k) (\<lambda>k. Inr (SysRet r, k)))"

definition on_fs :: "(fs \<Rightarrow> ('a \<times> fs) outcome) \<Rightarrow> 'v kern \<Rightarrow> ('a \<times> 'v kern) outcome" where
  "on_fs f k = bindR (f (k_fs k)) (\<lambda>(x, s). Inr (x, k\<lparr>k_fs := s\<rparr>))"

definition do_fs :: "(fs \<Rightarrow> fs outcome) \<Rightarrow> 'v kern \<Rightarrow> 'v kern outcome" where
  "do_fs f k = bindR (f (k_fs k)) (\<lambda>s. Inr (k\<lparr>k_fs := s\<rparr>))"

section \<open>Files and descriptors\<close>

definition fd_file :: "nat \<Rightarrow> 'v kern \<Rightarrow> nat outcome" where
  "fd_file me k =
     bindR (arg me 0 k) (\<lambda>fd. bindR (fd_get me (unat fd) k) (\<lambda>x. unwrap x))"

definition sys_dup :: "nat \<Rightarrow> 'v kern \<Rightarrow> (sys_end \<times> 'v kern) outcome" where
  "sys_dup me k =
     bindR (fd_file me k) (\<lambda>a.
       bindR (arc_clone a k) (\<lambda>k.
         bindR (k_fd_alloc me a k) (\<lambda>(r, k).
           case r of Inl _ \<Rightarrow> Inl UnwrapNone | Inr fd \<Rightarrow> Inr (SysRet (Inr (of_nat fd)), k))))"

definition sys_read :: "nat \<Rightarrow> resume \<Rightarrow> 'v kern \<Rightarrow> (sys_end \<times> 'v kern) outcome" where
  "sys_read me rs k =
     bindR (fd_file me k) (\<lambda>a.
       bindR (arg me 1 k) (\<lambda>addr.
         bindR (arg me 2 k) (\<lambda>len.
           bindR (vfile_read me a addr len (moved_of rs) k) (\<lambda>(r, k). Inr (sys_of r, k)))))"

definition sys_write :: "'v machine \<Rightarrow> nat \<Rightarrow> resume \<Rightarrow> 'v kern \<Rightarrow> (sys_end \<times> 'v kern) outcome" where
  "sys_write mc me rs k =
     bindR (fd_file me k) (\<lambda>a.
       bindR (arg me 1 k) (\<lambda>addr.
         bindR (arg me 2 k) (\<lambda>len.
           bindR (vfile_write mc me a addr len (moved_of rs) k) (\<lambda>(r, k). Inr (sys_of r, k)))))"

definition sys_pipe :: "nat \<Rightarrow> 'v kern \<Rightarrow> (sys_end \<times> 'v kern) outcome" where
  "sys_pipe me k =
     bindR (arg me 0 k) (\<lambda>addr.
       bindR (pipe_files k) (\<lambda>(rp, wp, k).
         bindR (k_fd_alloc me rp k) (\<lambda>(r, k).
           case r of
             Inl _ \<Rightarrow> bindR (arc_drop me wp k) (\<lambda>k. Inr (SysRet (Inl ()), k))
           | Inr rfd \<Rightarrow>
               bindR (k_fd_alloc me wp k) (\<lambda>(r, k).
                 case r of
                   Inl _ \<Rightarrow> Inr (SysRet (Inl ()), k)
                 | Inr wfd \<Rightarrow>
                     bindR (my_pgt me k) (\<lambda>cur.
                       bindR (copy_from_kernel cur addr (to_le 4 (of_nat rfd :: u32) @ to_le 4 (of_nat wfd :: u32)) True (k_mem k)) (\<lambda>m.
                         Inr (SysRet (Inr 0), k\<lparr>k_mem := m\<rparr>)))))))"

text \<open>The inode to open: with bit 9 of the mode it is created, otherwise looked up, and a directory is
  opened for reading only.\<close>

definition open_inode :: "nat \<Rightarrow> u8 list \<Rightarrow> usize \<Rightarrow> 'v kern \<Rightarrow> ((sys_end + inode) \<times> 'v kern) outcome" where
  "open_inode me path mode k =
     bindR (my_data me k) (\<lambda>d.
       if bit mode 9 then
         bindR (on_fs (inode_create (pd_cwd d) path File 0 0) k) (\<lambda>(r, k).
           case r of
             Inr ip \<Rightarrow> Inr (Inr ip, k)
           | Inl _ \<Rightarrow> bindR (finish me [] (Inl ()) k) (\<lambda>(e, k). Inr (Inl e, k)))
       else
         bindR (on_fs (namei (pd_cwd d) path) k) (\<lambda>(r, k).
           case r of
             None \<Rightarrow> bindR (finish me [] (Inl ()) k) (\<lambda>(e, k). Inr (Inl e, k))
           | Some ip \<Rightarrow>
               bindR (do_fs (inode_lock ip) k) (\<lambda>k.
                 bindR (get_idata (ino_index ip) (k_fs k)) (\<lambda>x.
                   if di_type (id_dinode x) = Directory \<and> mode \<noteq> 0
                   then bindR (finish me [ip] (Inl ()) k) (\<lambda>(e, k). Inr (Inl e, k))
                   else Inr (Inr ip, k)))))"

definition sys_open :: "nat \<Rightarrow> 'v kern \<Rightarrow> (sys_end \<times> 'v kern) outcome" where
  "sys_open me k =
     bindR (arg me 0 k) (\<lambda>addr.
       bindR (copy_from_str me addr (replicate MAXPATH 0) k) (\<lambda>path.
         bindR (arg me 1 k) (\<lambda>mode.
           in_transaction (\<lambda>k.
             bindR (open_inode me path mode k) (\<lambda>(r, k).
               case r of
                 Inl e \<Rightarrow> Inr (e, k)
               | Inr ip \<Rightarrow>
                   bindR (do_fs (inode_lock ip) k) (\<lambda>k.
                     bindR (get_idata (ino_index ip) (k_fs k)) (\<lambda>x.
                       bindR (if bit mode 10 \<and> di_type (id_dinode x) = File
                         then do_fs (inode_truncate ip (ino_index ip)) k else Inr k) (\<lambda>k.
                         bindR (k_end_op me k) (\<lambda>k.
                           let f = vfile_init\<lparr>vf_ftype := (if di_type (id_dinode x) = Device then FtDevice else FtInode),
                                 vf_inode := Some ip, vf_writeable := bit mode 0 \<or> bit mode 1,
                                 vf_readable := \<not> bit mode 0 \<or> bit mode 1\<rparr> in
                           bindR (arc_new f k) (\<lambda>(a, k).
                             bindR (k_fd_alloc me a k) (\<lambda>(r, k).
                               Inr (case r of Inl _ \<Rightarrow> SysRet (Inl ()) | Inr fd \<Rightarrow> SysRet (Inr (of_nat fd)), k))))))))) k)))"

definition sys_close :: "nat \<Rightarrow> 'v kern \<Rightarrow> (sys_end \<times> 'v kern) outcome" where
  "sys_close me k =
     bindR (arg me 0 k) (\<lambda>fd. bindR (fd_take me me (unat fd) k) (\<lambda>k. Inr (SysRet (Inr 0), k)))"

definition sys_fstat :: "'v machine \<Rightarrow> nat \<Rightarrow> 'v kern \<Rightarrow> (sys_end \<times> 'v kern) outcome" where
  "sys_fstat mc me k =
     bindR (arg me 1 k) (\<lambda>addr.
       bindR (fd_file me k) (\<lambda>a.
         bindR (vfile_stat mc me a addr k) (\<lambda>(r, k).
           Inr (case r of Inl _ \<Rightarrow> SysRet (Inl ()) | Inr _ \<Rightarrow> SysRet (Inr 0), k))))"

section \<open>Names\<close>

definition sys_mknod :: "nat \<Rightarrow> 'v kern \<Rightarrow> (sys_end \<times> 'v kern) outcome" where
  "sys_mknod me k =
     bindR (arg me 1 k) (\<lambda>major.
       bindR (arg me 2 k) (\<lambda>minor.
         in_transaction (\<lambda>k.
           bindR (arg me 0 k) (\<lambda>addr.
             bindR (copy_from_str me addr (replicate MAXPATH 0) k) (\<lambda>path.
               bindR (my_data me k) (\<lambda>d.
                 bindR (on_fs (inode_create (pd_cwd d) path Device (ucast major) (ucast minor)) k) (\<lambda>(r, k).
                   case r of
                     Inr ip \<Rightarrow> finish me [ip] (Inr 0) k
                   | Inl _ \<Rightarrow> finish me [] (Inl ()) k))))) k))"

text \<open>The old working directory, or the inode that is not a directory, is dropped inside the
  transaction.\<close>

definition sys_chdir :: "nat \<Rightarrow> 'v kern \<Rightarrow> (sys_end \<times> 'v kern) outcome" where
  "sys_chdir me =
     in_transaction (\<lambda>k.
       bindR (arg me 0 k) (\<lambda>addr.
         bindR (copy_from_str me addr (replicate MAXPATH 0) k) (\<lambda>path.
           bindR (my_data me k) (\<lambda>d.
             bindR (on_fs (namei (pd_cwd d) path) k) (\<lambda>(r, k).
               case r of
                 None \<Rightarrow> finish me [] (Inl ()) k
               | Some ip \<Rightarrow>
                   bindR (do_fs (inode_lock ip) k) (\<lambda>k.
                     bindR (get_idata (ino_index ip) (k_fs k)) (\<lambda>x.
                       if di_type (id_dinode x) = Directory
                       then bindR (k_upd_data me (\<lambda>d. d\<lparr>pd_cwd := Some ip\<rparr>) k) (\<lambda>k.
                         bindR (k_put_opt (pd_cwd d) k) (\<lambda>k. finish me [] (Inr 0) k))
                       else bindR (k_put ip k) (\<lambda>k. finish me [] (Inl ()) k))))))))"

definition sys_mkdir :: "nat \<Rightarrow> 'v kern \<Rightarrow> (sys_end \<times> 'v kern) outcome" where
  "sys_mkdir me =
     in_transaction (\<lambda>k.
       bindR (arg me 0 k) (\<lambda>addr.
         bindR (copy_from_str me addr (replicate MAXPATH 0) k) (\<lambda>path.
           bindR (my_data me k) (\<lambda>d.
             bindR (on_fs (inode_create (pd_cwd d) path Directory 0 0) k) (\<lambda>(r, k).
               case r of
                 Inr ip \<Rightarrow> bindR (k_put ip k) (\<lambda>k. finish me [] (Inr 0) k)
               | Inl _ \<Rightarrow> finish me [] (Inl ()) k)))))"

text \<open>Adding to a link count, a signed 16-bit number.\<close>

definition add_nlink :: "nat \<Rightarrow> int \<Rightarrow> fs \<Rightarrow> fs outcome" where
  "add_nlink i n s =
     bindR (get_idata i s) (\<lambda>x.
       let v = sint (di_nlink (id_dinode x)) + n in
       if - (2 ^ 15) \<le> v \<and> v < 2 ^ 15 then upd_dinode i (\<lambda>d. d\<lparr>di_nlink := of_int v\<rparr>) s else Inl Overflow)"

definition is_dot :: "u8 list \<Rightarrow> bool outcome" where
  "is_dot name =
     bindR (idx_get name 0) (\<lambda>a. if a \<noteq> 46 then Inr False else
       bindR (idx_get name 1) (\<lambda>b. if b = 0 then Inr True else if b \<noteq> 46 then Inr False else
         bindR (idx_get name 2) (\<lambda>c. Inr (c = 0))))"

text \<open>The end of \<^verbatim>\<open>sys_unlink\<close>, with the parent and the entry's inode locked: the link counts go down.
  The directory entry itself is not cleared.\<close>

definition unlink_entry :: "nat \<Rightarrow> inode \<Rightarrow> inode \<Rightarrow> 'v kern \<Rightarrow> (sys_end \<times> 'v kern) outcome" where
  "unlink_entry me parent ip k =
     bindR (get_idata (ino_index ip) (k_fs k)) (\<lambda>x.
       let dir = (di_type (id_dinode x) = Directory) in
       bindR (if dir then on_fs (is_dir_empty (ino_index ip)) k else Inr (True, k)) (\<lambda>(empty, k).
         if dir \<and> \<not> empty then finish me [ip, parent] (Inl ()) k
         else bindR (if dir
             then bindR (do_fs (add_nlink (ino_index parent) (- 1)) k) (do_fs (inode_update (ino_index parent)))
             else Inr k) (\<lambda>k.
           bindR (do_fs (add_nlink (ino_index ip) (- 1)) k) (\<lambda>k.
             bindR (do_fs (inode_update (ino_index ip)) k) (\<lambda>k.
               finish me [ip, parent] (Inr 0) k)))))"

definition sys_unlink :: "nat \<Rightarrow> 'v kern \<Rightarrow> (sys_end \<times> 'v kern) outcome" where
  "sys_unlink me k =
     bindR (arg me 0 k) (\<lambda>addr.
       bindR (copy_from_str me addr (replicate MAXPATH 0) k) (\<lambda>path.
         in_transaction (\<lambda>k.
           bindR (my_data me k) (\<lambda>d.
             bindR (on_fs (\<lambda>s. bindR (namei_parent (pd_cwd d) path (replicate DIRSIZ 0) s) (\<lambda>(r, n, s). Inr ((r, n), s))) k) (\<lambda>((r, name), k).
               case r of
                 None \<Rightarrow> Inr (SysRet (Inl ()), k)
               | Some parent \<Rightarrow>
                   bindR (do_fs (inode_lock parent) k) (\<lambda>k.
                     bindR (is_dot name) (\<lambda>dot.
                       if dot then finish me [parent] (Inl ()) k
                       else bindR (on_fs (dir_lookup (ino_index parent) name) k) (\<lambda>(r, k).
                         case r of
                           None \<Rightarrow> finish me [parent] (Inl ()) k
                         | Some ip \<Rightarrow>
                             bindR (do_fs (inode_lock ip) k) (\<lambda>k. unlink_entry me parent ip k))))))) k))"

text \<open>The end of \<^verbatim>\<open>sys_link\<close>, with the inode locked and its link count raised.\<close>

definition link_entry :: "nat \<Rightarrow> inode \<Rightarrow> inode option \<Rightarrow> u8 list \<Rightarrow> 'v kern \<Rightarrow> (sys_end \<times> 'v kern) outcome" where
  "link_entry me ip parent name k =
     (case parent of
        None \<Rightarrow> bindR (do_fs (add_nlink (ino_index ip) (- 1)) k) (\<lambda>k. finish me [ip] (Inl ()) k)
      | Some p \<Rightarrow>
          bindR (do_fs (inode_lock p) k) (\<lambda>k.
            bindR (get_idata (ino_index p) (k_fs k)) (\<lambda>x.
              bindR (if di_type (id_dinode x) \<noteq> Directory then Inr (True, k)
                     else bindR (on_fs (dir_link (ino_index p) name (ino_inum ip)) k) (\<lambda>(r, k).
                       Inr (case r of Inr _ \<Rightarrow> True | Inl _ \<Rightarrow> False, k))) (\<lambda>(fails, k).
                if fails
                then bindR (do_fs (add_nlink (ino_index ip) (- 1)) k) (\<lambda>k. finish me [p, ip] (Inl ()) k)
                else bindR (do_fs (inode_update (ino_index ip)) k) (\<lambda>k. finish me [p, ip] (Inr 0) k)))))"

definition sys_link :: "nat \<Rightarrow> 'v kern \<Rightarrow> (sys_end \<times> 'v kern) outcome" where
  "sys_link me k =
     bindR (arg me 0 k) (\<lambda>old_addr.
       bindR (arg me 1 k) (\<lambda>new_addr.
         bindR (copy_from_str me old_addr (replicate MAXPATH 0) k) (\<lambda>old_path.
           bindR (copy_from_addr me new_addr MAXPATH k) (\<lambda>new_path.
             in_transaction (\<lambda>k.
               bindR (my_data me k) (\<lambda>d.
                 bindR (on_fs (namei (pd_cwd d) old_path) k) (\<lambda>(r, k).
                   case r of
                     None \<Rightarrow> finish me [] (Inl ()) k
                   | Some ip \<Rightarrow>
                       bindR (do_fs (inode_lock ip) k) (\<lambda>k.
                         bindR (get_idata (ino_index ip) (k_fs k)) (\<lambda>x.
                           if di_type (id_dinode x) = Directory then finish me [ip] (Inl ()) k
                           else bindR (do_fs (add_nlink (ino_index ip) 1) k) (\<lambda>k.
                             bindR (on_fs (\<lambda>s. bindR (namei_parent (pd_cwd d) new_path (replicate DIRSIZ 0) s)
                                 (\<lambda>(r, n, s). Inr ((r, n), s))) k) (\<lambda>((r, name), k).
                               link_entry me ip r name k))))))) k))))"

section \<open>Processes\<close>

definition sys_fork :: "'v machine \<Rightarrow> nat \<Rightarrow> 'v kern \<Rightarrow> (sys_end \<times> 'v kern) outcome" where
  "sys_fork mc me k =
     bindR (fork mc me k) (\<lambda>(r, k).
       case r of
         None \<Rightarrow> Inr (SysRet (Inl ()), k)
       | Some c \<Rightarrow> bindR (get_proc c (k_tab k)) (\<lambda>p. Inr (SysRet (Inr (pm_pid (pr_meta p))), k)))"

definition sys_exit :: "nat \<Rightarrow> hart \<Rightarrow> 'v kern \<Rightarrow> (sys_end \<times> 'v kern) outcome" where
  "sys_exit me h k =
     bindR (arg me 0 k) (\<lambda>status.
       bindR (manager_exit me status h k) (\<lambda>(r, k).
         Inr (case r of Sleeps ch _ \<Rightarrow> SysSleep ch AtStart | _ \<Rightarrow> SysExit, k)))"

definition sys_wait :: "nat \<Rightarrow> 'v kern \<Rightarrow> (sys_end \<times> 'v kern) outcome" where
  "sys_wait me k =
     bindR (arg me 0 k) (\<lambda>addr.
       bindR (wait_pass me addr (k_tab k) (k_mem k)) (\<lambda>(r, t, m).
         Inr (case r of
             Reaped pid \<Rightarrow> SysRet (Inr pid)
           | NoChildren \<Rightarrow> SysRet (Inl ())
           | MustSleep \<Rightarrow> SysSleep (ChanProc me) AtStart, k\<lparr>k_tab := t, k_mem := m\<rparr>)))"

definition sys_getpid :: "nat \<Rightarrow> 'v kern \<Rightarrow> (sys_end \<times> 'v kern) outcome" where
  "sys_getpid me k = bindR (get_proc me (k_tab k)) (\<lambda>p. Inr (SysRet (Inr (pm_pid (pr_meta p))), k))"

definition sys_sbrk :: "nat \<Rightarrow> 'v kern \<Rightarrow> (sys_end \<times> 'v kern) outcome" where
  "sys_sbrk me k =
     bindR (arg me 0 k) (\<lambda>n.
       bindR (my_data me k) (\<lambda>d.
         bindR (grow_proc me n (k_tab k) (k_mem k)) (\<lambda>(r, t, m).
           case r of
             Inl _ \<Rightarrow> Inl SbrkFailed
           | Inr _ \<Rightarrow> Inr (SysRet (Inr (pd_size d)), k\<lparr>k_tab := t, k_mem := m\<rparr>))))"

text \<open>The tick at which the call started is what it resumes with. The channel is the number zero.\<close>

definition sys_sleep :: "nat \<Rightarrow> resume \<Rightarrow> 'v kern \<Rightarrow> (sys_end \<times> 'v kern) outcome" where
  "sys_sleep me rs k =
     bindR (arg me 0 k) (\<lambda>span.
       let start = (case rs of After n \<Rightarrow> of_nat n | _ \<Rightarrow> k_ticks k) in
       bindR (sub_ck (k_ticks k) start) (\<lambda>gone.
         if gone < span then
           bindR (proc_killed me (k_tab k)) (\<lambda>killed.
             Inr (if killed then SysRet (Inl ()) else SysSleep ChanNone (After (unat start)), k))
         else Inr (SysRet (Inr 0), k)))"

definition uptime :: "'v kern \<Rightarrow> usize" where
  "uptime k = k_ticks k div 10"

definition sys_uptime :: "'v kern \<Rightarrow> (sys_end \<times> 'v kern) outcome" where
  "sys_uptime k = Inr (SysRet (Inr (uptime k)), k)"

section \<open>Replacing the program\<close>

text \<open>The check of \<^verbatim>\<open>str::from_utf8\<close>.\<close>

definition between :: "u8 \<Rightarrow> u8 \<Rightarrow> u8 \<Rightarrow> bool" where
  "between lo hi x \<longleftrightarrow> lo \<le> x \<and> x \<le> hi"

abbreviation cont_byte :: "u8 \<Rightarrow> bool" where
  "cont_byte \<equiv> between 0x80 0xBF"

fun utf8_valid :: "u8 list \<Rightarrow> bool" where
  "utf8_valid [] = True"
| "utf8_valid (a # xs) =
     (if a \<le> 0x7F then utf8_valid xs
      else case xs of [] \<Rightarrow> False | b # ys \<Rightarrow>
        if between 0xC2 0xDF a then cont_byte b \<and> utf8_valid ys
        else case ys of [] \<Rightarrow> False | c # zs \<Rightarrow>
          if between 0xE0 0xEF a then
            between (if a = 0xE0 then 0xA0 else 0x80) (if a = 0xED then 0x9F else 0xBF) b \<and> cont_byte c \<and> utf8_valid zs
          else case zs of [] \<Rightarrow> False | d # ws \<Rightarrow>
            between 0xF0 0xF4 a \<and> between (if a = 0xF0 then 0x90 else 0x80) (if a = 0xF4 then 0x8F else 0xBF) b \<and>
            cont_byte c \<and> cont_byte d \<and> utf8_valid ws)"

text \<open>The arguments, each copied into a page of its own; \<open>Inl\<close> frees the pages for too many of them.\<close>

function collect_args :: "nat \<Rightarrow> usize \<Rightarrow> nat \<Rightarrow> usize list \<Rightarrow> 'v kern \<Rightarrow> ((unit + usize list) \<times> 'v kern) outcome" where
  "collect_args me argv_addr count argv k =
     (if length argv \<le> count then
        bindR (foldR (\<lambda>pa m. if pa \<noteq> 0 then drop_page pa m else Inr m) argv (k_mem k)) (\<lambda>m.
          Inr (Inl (), k\<lparr>k_mem := m\<rparr>))
      else
        bindR (add_ck argv_addr (of_nat (count * 8))) (\<lambda>a.
          bindR (copy_from_addr me a 8 k) (\<lambda>buf.
            let user_arg = field64 buf 0 in
            if user_arg = 0 then Inr (Inr (argv[count := 0]), k)
            else bindR (new_zeroed (k_mem k)) (\<lambda>(pa, m).
              let k = k\<lparr>k_mem := m\<rparr> in
              bindR (copy_from_str me user_arg (load_bytes (pmem m) (unat pa) 4096) k) (\<lambda>bs.
                collect_args me argv_addr (count + 1) (argv[count := pa])
                  (k\<lparr>k_mem := m\<lparr>pmem := store_bytes (pmem m) (unat pa) bs\<rparr>\<rparr>))))))"
  by pat_completeness auto
termination
  by (relation "measure (\<lambda>(me, argv_addr, count, argv, k). length argv - count)") auto

declare collect_args.simps [simp del]

text \<open>The call of \<^verbatim>\<open>exec\<close>; its pages are freed when it succeeds, and an error leaves them allocated.\<close>

definition exec_with :: "'v machine \<Rightarrow> nat \<Rightarrow> u8 list \<Rightarrow> usize list \<Rightarrow> 'v kern \<Rightarrow> (sys_end \<times> 'v kern) outcome" where
  "exec_with mc me path argv k =
     bindR (exec mc me path argv k) (\<lambda>(r, k).
       case r of
         Returns (Inr n) \<Rightarrow>
           bindR (foldR (\<lambda>pa m. if pa \<noteq> 0 then drop_page pa m else Inr m) argv (k_mem k)) (\<lambda>m.
             Inr (SysRet (Inr (of_nat n)), k\<lparr>k_mem := m\<rparr>))
       | Sleeps ch _ \<Rightarrow> Inr (SysSleep ch (AtExec path argv), k)
       | _ \<Rightarrow> Inr (sys_of r, k))"

definition sys_exec :: "'v machine \<Rightarrow> nat \<Rightarrow> resume \<Rightarrow> 'v kern \<Rightarrow> (sys_end \<times> 'v kern) outcome" where
  "sys_exec mc me rs k =
     (case rs of
        AtExec path argv \<Rightarrow> exec_with mc me path argv k
      | _ \<Rightarrow>
          bindR (arg me 0 k) (\<lambda>path_addr.
            bindR (copy_from_str me path_addr (replicate MAXPATH 0) k) (\<lambda>path.
              bindR (arg me 1 k) (\<lambda>argv_addr.
                bindR (collect_args me argv_addr 0 (replicate MAXARG 0) k) (\<lambda>(r, k).
                  case r of
                    Inl _ \<Rightarrow> Inr (SysRet (Inl ()), k)
                  | Inr argv \<Rightarrow> if \<not> utf8_valid path then Inl UnwrapNone else exec_with mc me path argv k)))))"

section \<open>The dispatcher\<close>

datatype syscall_num = SysFork | SysExitN | SysWait | SysPipe | SysRead | SysKill | SysExec | SysFstat
  | SysChdir | SysDup | SysGetPid | SysSbrk | SysSleepN | SysUptime | SysOpen | SysWrite | SysMknod
  | SysUnlink | SysLink | SysMkdir | SysClose | Unknown

definition syscall_nums :: "syscall_num list" where
  "syscall_nums = [SysFork, SysExitN, SysWait, SysPipe, SysRead, SysKill, SysExec, SysFstat, SysChdir,
     SysDup, SysGetPid, SysSbrk, SysSleepN, SysUptime, SysOpen, SysWrite, SysMknod, SysUnlink, SysLink,
     SysMkdir, SysClose]"

definition from_primitive :: "usize \<Rightarrow> syscall_num" where
  "from_primitive n = (if 1 \<le> unat n \<and> unat n \<le> 21 then syscall_nums ! (unat n - 1) else Unknown)"

definition syscall :: "'v machine \<Rightarrow> nat \<Rightarrow> hart \<Rightarrow> resume \<Rightarrow> 'v kern \<Rightarrow> (sys_end \<times> 'v kern) outcome" where
  "syscall mc me h rs k =
     bindR (my_data me k) (\<lambda>d.
       case from_primitive (tf_get (pd_trapframe d) (TF_AX 7) (k_mem k)) of
         SysFork \<Rightarrow> sys_fork mc me k
       | SysExitN \<Rightarrow> sys_exit me h k
       | SysWait \<Rightarrow> sys_wait me k
       | SysPipe \<Rightarrow> sys_pipe me k
       | SysRead \<Rightarrow> sys_read me rs k
       | SysKill \<Rightarrow> Inl Unimplemented
       | SysExec \<Rightarrow> sys_exec mc me rs k
       | SysFstat \<Rightarrow> sys_fstat mc me k
       | SysChdir \<Rightarrow> sys_chdir me k
       | SysDup \<Rightarrow> sys_dup me k
       | SysGetPid \<Rightarrow> sys_getpid me k
       | SysSbrk \<Rightarrow> sys_sbrk me k
       | SysSleepN \<Rightarrow> sys_sleep me rs k
       | SysUptime \<Rightarrow> sys_uptime k
       | SysOpen \<Rightarrow> sys_open me k
       | SysWrite \<Rightarrow> sys_write mc me rs k
       | SysMknod \<Rightarrow> sys_mknod me k
       | SysUnlink \<Rightarrow> sys_unlink me k
       | SysLink \<Rightarrow> sys_link me k
       | SysMkdir \<Rightarrow> sys_mkdir me k
       | SysClose \<Rightarrow> sys_close me k
       | Unknown \<Rightarrow> Inl Unimplemented)"

text \<open>\<^verbatim>\<open>syscall_handler\<close> stores the result, or minus one, in \<open>a0\<close>.\<close>

definition syscall_handler :: "'v machine \<Rightarrow> nat \<Rightarrow> hart \<Rightarrow> resume \<Rightarrow> 'v kern \<Rightarrow> (sys_end \<times> 'v kern) outcome" where
  "syscall_handler mc me h rs k =
     bindR (syscall mc me h rs k) (\<lambda>(r, k).
       case r of
         SysRet v \<Rightarrow>
           bindR (my_data me k) (\<lambda>d.
             Inr (r, k\<lparr>k_mem := tf_set (pd_trapframe d) (TF_AX 0) (case v of Inl _ \<Rightarrow> - 1 | Inr x \<Rightarrow> x) (k_mem k)\<rparr>))
       | _ \<Rightarrow> Inr (r, k))"

end
