(* ===== verification/Rx_Unlink.thy ===== *)
theory Rx_Unlink
  imports Rx_Syscall
begin

text \<open>
  Removing and adding links. A block can only be written to the log inside a transaction, and dropping
  the last reference to an inode without links writes blocks; \<^verbatim>\<open>sys_unlink\<close> drops its reference after the
  end of its transaction. \<^verbatim>\<open>sys_link\<close> takes a successful \<^verbatim>\<open>dir_link\<close> for a failure.
\<close>

section \<open>Open operations\<close>

abbreviation open_ops :: "fs \<Rightarrow> u32" where
  "open_ops s \<equiv> lg_outstanding (fs_log s)"

lemma log_write_ops [THEN okRD, frames]:
  "okR (\<lambda>(g', c'). lg_outstanding g' = lg_outstanding g \<and> 0 < lg_outstanding g) (log_write b g c)"
  unfolding log_write_def
  by (intro okR_intros) (auto simp: word_less_nat_alt)

lemma fs_log_write_ops [THEN okRD, frames]:
  "okR (\<lambda>s'. open_ops s' = open_ops s \<and> 0 < open_ops s \<and> fs_meta s' = fs_meta s \<and> fs_data s' = fs_data s) (fs_log_write h s)"
  unfolding fs_log_write_def by (intro okR_intros) (auto dest!: frames)

lemma fs_bread_ops [THEN okRD, frames]:
  "okR (\<lambda>(h, s'). fs_log s' = fs_log s \<and> fs_meta s' = fs_meta s \<and> fs_data s' = fs_data s) (fs_bread dev b s)"
  unfolding fs_bread_def by (intro okR_intros) auto

lemma fs_set_ops [THEN okRD, frames]:
  "okR (\<lambda>s'. fs_log s' = fs_log s \<and> fs_meta s' = fs_meta s \<and> fs_data s' = fs_data s) (fs_set h x s)"
  unfolding fs_set_def by (intro okR_intros) auto

lemma fs_bdrop_ops [THEN okRD, frames]:
  "okR (\<lambda>s'. fs_log s' = fs_log s) (fs_bdrop h s)"
  unfolding fs_bdrop_def by (intro okR_intros) auto

lemma find_inode_ops [THEN okRD, frames]:
  "okR (\<lambda>(h, s'). fs_log s' = fs_log s \<and> fs_meta s' = fs_meta s \<and> fs_data s' = fs_data s) (find_inode dev inum s)"
  unfolding find_inode_def by (intro okR_intros) (auto simp: okR_def dest!: frames)

lemma upd_dinode_ops [THEN okRD, frames]:
  "okR (\<lambda>s'. fs_log s' = fs_log s \<and> fs_meta s' = fs_meta s \<and> length (fs_data s') = length (fs_data s)) (upd_dinode i f s)"
  unfolding upd_dinode_def set_idata_def by (intro okR_intros) (auto simp: outcome_simps)

lemma inode_update_ops [THEN okRD, frames]:
  "okR (\<lambda>s'. open_ops s' = open_ops s \<and> 0 < open_ops s \<and> fs_meta s' = fs_meta s \<and> fs_data s' = fs_data s) (inode_update i s)"
  unfolding inode_update_def by (intro okR_intros) (auto simp: okR_def dest!: frames)

lemma bitmap_free_ops [THEN okRD, frames]:
  "okR (\<lambda>s'. open_ops s' = open_ops s) (bitmap_free dev b s)"
  unfolding bitmap_free_def by (intro okR_intros) (auto simp: okR_def dest!: frames)

lemma free_direct_ops [THEN okRD, frames]: "okR (\<lambda>s'. open_ops s' = open_ops s) (free_direct dev i k s)"
  unfolding free_direct_def by (intro okR_intros) (auto simp: okR_def dest!: frames)

lemma free_directs_ops [THEN okRD, frames]:
  "okR (\<lambda>s'. open_ops s' = open_ops s) (foldR (free_direct dev i) ks s)"
  by (rule foldR_ok) (auto dest!: frames)

lemma free_indirects_ops [THEN okRD, frames]:
  "okR (\<lambda>s'. open_ops s' = open_ops s) (foldR (\<lambda>a s. if 0 < a then bitmap_free dev a s else Inr s) bs s)"
  by (rule foldR_ok) (auto split: if_splits dest!: frames)

text \<open>Truncating always writes the inode.\<close>

lemma inode_truncate_ops [THEN okRD, frames]: "okR (\<lambda>s'. 0 < open_ops s) (inode_truncate ip i s)"
  unfolding inode_truncate_def
  by (intro okR_intros) (auto simp: okR_def outcome_simps split: if_splits dest!: frames)

lemma icache_put_outside:
  assumes "open_ops s = 0" "fs_meta s ! ino_index ip = m" "im_refs m = 1" "fs_data s ! ino_index ip = x"
    "id_valid x" "\<not> 0 <s di_nlink (id_dinode x)"
  shows "okR (\<lambda>_. False) (icache_put ip s)"
  unfolding icache_put_def Let_def
  by (intro okR_intros) (use assms in \<open>auto simp: get_idata_def outcome_simps dest!: frames\<close>)

lemma commit_ops [THEN okRD, frames]:
  "okR (\<lambda>(g', c'). lg_outstanding g' = lg_outstanding g) (commit_no_lock g c)"
  unfolding commit_no_lock_def empty_head_def by (intro okR_intros) auto

lemma k_end_op_ops [THEN okRD, frames]:
  "okR (\<lambda>k'. open_ops (k_fs k') = open_ops (k_fs k) - 1 \<and> fs_meta (k_fs k') = fs_meta (k_fs k) \<and> fs_data (k_fs k') = fs_data (k_fs k))
     (k_end_op me k)"
  unfolding k_end_op_def end_op_def
  by (intro okR_intros) (auto simp: outcome_simps Let_def sub_ck_def split: if_splits dest!: frames)

section \<open>Links\<close>

lemma dir_link_succeeds [THEN okRD, frames]: "okR (\<lambda>(r, s'). r = Inr ()) (dir_link i name inum s)"
  unfolding dir_link_def inode_write_def by (intro okR_intros) (auto simp: outcome_simps)

lemma finish_result [THEN okRD, frames]: "okR (\<lambda>(r', k'). r' = SysRet r) (finish me ips r k)"
  unfolding finish_def by (intro okR_intros) simp

lemma link_entry_fails [THEN okRD, frames]:
  "okR (\<lambda>(r, k'). r = SysRet (Inl ())) (link_entry me ip parent name k)"
proof -
  have fails: "okR (\<lambda>(b, k'). b) (if ty \<noteq> Directory then Inr (True, k)
      else bindR (on_fs (dir_link i name n) k) (\<lambda>(r, k). Inr (case r of Inr _ \<Rightarrow> True | Inl _ \<Rightarrow> False, k)))" for ty i n and k :: "'a kern"
    unfolding on_fs_def by (intro okR_intros) (auto simp: outcome_simps dest!: frames)
  show ?thesis unfolding link_entry_def
    by (intro okR_intros) (auto simp: okR_def dest!: frames fails [THEN okRD])
qed

lemma sys_link_fails: "okR (\<lambda>(r, k'). \<forall>v. r \<noteq> SysRet (Inr v)) (sys_link me k)"
  unfolding sys_link_def in_transaction_def by (intro okR_intros) (auto simp: okR_def dest!: frames)

text \<open>Dropping a link cannot complete when it is the last one: with a file that has one link and
  is open nowhere else, the end of \<^verbatim>\<open>sys_unlink\<close> panics. Its reference to the inode is dropped after
  the transaction has ended, and freeing the inode then writes to the log outside a transaction.\<close>

lemma unlink_last_link_panics:
  assumes "open_ops (k_fs k) = 1" "ino_index ip < length (fs_data (k_fs k))"
    "im_refs (fs_meta (k_fs k) ! ino_index ip) = 1" "id_valid (fs_data (k_fs k) ! ino_index ip)"
    "di_type (id_dinode (fs_data (k_fs k) ! ino_index ip)) = File" "di_nlink (id_dinode (fs_data (k_fs k) ! ino_index ip)) = 1"
  shows "\<exists>e. unlink_entry me parent ip k = Inl e"
proof -
  let ?i = "ino_index ip"
  have gone: "okR (\<lambda>_. False) (finish me (ip # ips) r k2)"
    if "open_ops (k_fs k2) = 1" "fs_meta (k_fs k2) = fs_meta (k_fs k)" "id_valid (fs_data (k_fs k2) ! ?i)"
      "di_nlink (id_dinode (fs_data (k_fs k2) ! ?i)) = 0" for k2 ips r
    unfolding finish_def
  proof (intro okR_intros, goal_cases)
    case (1 k3 k4)
    from 1(1) that have "okR (\<lambda>_. False) (icache_put ip (k_fs k3))"
      using assms(3) by (intro icache_put_outside [OF _ refl _ refl]) (auto dest!: frames)
    with 1(2) show ?case by (auto simp: k_put_def okR_def outcome_simps)
  qed
  have "okR (\<lambda>_. False) (unlink_entry me parent ip k)"
    unfolding unlink_entry_def do_fs_def
    by (intro okR_intros gone)
      (use assms in \<open>auto simp: get_idata_def add_nlink_def upd_dinode_def set_idata_def outcome_simps Let_def
        split: if_splits dest!: frames\<close>)
  then show ?thesis by (cases "unlink_entry me parent ip k") (auto simp: okR_def)
qed

text \<open>A file system with one transaction open and a file in use only by the caller.\<close>

definition one_link_kern :: "unit kern" where
  "one_link_kern =
     \<lparr>k_mem = ka_new (\<lambda>_. 0),
      k_fs = (fs_new (\<lambda>_. replicate BSIZE 0))\<lparr>
        fs_log := log_unint\<lparr>lg_start := 2, lg_size := 30, lg_dev := 1, lg_outstanding := 1\<rparr>,
        fs_sb := superblock_uninit\<lparr>sb_ninodes := 200, sb_inodestart := 32, sb_bmapstart := 45\<rparr>,
        fs_meta := (replicate NINODE inode_meta_new)[0 := \<lparr>im_dev = 1, im_blockno = 0, im_inum = 5, im_refs = 1\<rparr>],
        fs_data := (replicate NINODE inode_data_new)[0 :=
          \<lparr>id_valid = True, id_dev = 1, id_inum = 5, id_dinode = dinode_new\<lparr>di_type := File, di_nlink := 1\<rparr>\<rparr>]\<rparr>,
      k_tab = ptable_new, k_files = Map.empty, k_pipes = Map.empty, k_devs = device_list_uninit,
      k_con = console_new, k_uart = uart_new, k_port = (), k_ticks = 0\<rparr>"

lemma unlink_last_link_example:
  "\<exists>e. unlink_entry 0 \<lparr>ino_dev = 1, ino_inum = 1, ino_index = 1\<rparr> \<lparr>ino_dev = 1, ino_inum = 5, ino_index = 0\<rparr> one_link_kern = Inl e"
  by (rule unlink_last_link_panics) (simp_all add: one_link_kern_def NINODE_def)

text \<open>\<^verbatim>\<open>sys_link\<close> never reports success: when the new entry has been written, the handler takes the
  link count back and returns an error.\<close>

lemma sys_link_never_succeeds: "sys_link me k \<noteq> Inr (SysRet (Inr v), k')"
  using okRD [OF sys_link_fails, of me k] by auto

end
