(* ===== verification/Rx_Ulib.thy ===== *)
theory Rx_Ulib
  imports Rx_Syscall
begin

text \<open>
  The system-call stubs of user programs, \<^verbatim>\<open>src/rx-kernel/src/syscall.rs\<close>.  A stub is one
  block of assembly: the compiler places the operands in registers, moves copy them to \<open>a0\<close>, \<open>a1\<close>,
  \<open>a2\<close> and \<open>a7\<close>, and \<open>ecall\<close> enters the kernel.  The model gives the register file at the \<open>ecall\<close>.
  The register of each operand is the choice of the compiler and a parameter, \<open>ra\<close>.
\<close>

section \<open>Registers\<close>

type_synonym regs = "nat \<Rightarrow> usize"

definition A0 :: nat where "A0 = 10"
definition A1 :: nat where "A1 = 11"
definition A2 :: nat where "A2 = 12"
definition A7 :: nat where "A7 = 17"

definition mv :: "nat \<Rightarrow> nat \<Rightarrow> regs \<Rightarrow> regs" where
  "mv rd rs r = r(rd := r rs)"

text \<open>The operands in their registers, then the moves of the template from the first line on.\<close>

definition operands :: "(nat \<Rightarrow> nat) \<Rightarrow> usize list \<Rightarrow> regs \<Rightarrow> regs" where
  "operands ra ops r = fold (\<lambda>i r. r(ra i := ops ! i)) [0..<length ops] r"

definition asm_ecall :: "(nat \<Rightarrow> nat) \<Rightarrow> nat list \<Rightarrow> usize list \<Rightarrow> regs \<Rightarrow> regs" where
  "asm_ecall ra dsts ops r = fold (\<lambda>i. mv (dsts ! i) (ra i)) [0..<length dsts] (operands ra ops r)"

text \<open>\<^verbatim>\<open>SyscallNum::into\<close>.\<close>

fun into_primitive :: "syscall_num \<Rightarrow> usize" where
  "into_primitive SysFork = 1"
| "into_primitive SysExitN = 2"
| "into_primitive SysWait = 3"
| "into_primitive SysPipe = 4"
| "into_primitive SysRead = 5"
| "into_primitive SysKill = 6"
| "into_primitive SysExec = 7"
| "into_primitive SysFstat = 8"
| "into_primitive SysChdir = 9"
| "into_primitive SysDup = 10"
| "into_primitive SysGetPid = 11"
| "into_primitive SysSbrk = 12"
| "into_primitive SysSleepN = 13"
| "into_primitive SysUptime = 14"
| "into_primitive SysOpen = 15"
| "into_primitive SysWrite = 16"
| "into_primitive SysMknod = 17"
| "into_primitive SysUnlink = 18"
| "into_primitive SysLink = 19"
| "into_primitive SysMkdir = 20"
| "into_primitive SysClose = 21"
| "into_primitive Unknown = 22"

section \<open>The stubs\<close>

text \<open>A slice is its address and its elements.  \<open>as usize\<close> extends the sign of the signed types.\<close>

type_synonym 'a slice = "usize \<times> 'a list"

definition slice_ptr :: "'a slice \<Rightarrow> usize" where "slice_ptr s = fst s"
definition slice_len :: "'a slice \<Rightarrow> usize" where "slice_len s = of_nat (length (snd s))"

text \<open>The element at the end of a slice, \<^verbatim>\<open>s[s.len() - 1]\<close>: the subtraction is checked.\<close>

definition slice_last :: "'a slice \<Rightarrow> 'a outcome" where
  "slice_last s = bindR (usize_dec (length (snd s))) (\<lambda>i. idx_get (snd s) i)"

definition syscall_res :: "regs \<Rightarrow> usize" where
  "syscall_res r = r A0"

definition u_fork :: "(nat \<Rightarrow> nat) \<Rightarrow> regs \<Rightarrow> regs" where
  "u_fork ra = asm_ecall ra [A7] [into_primitive SysFork]"

definition u_wait :: "(nat \<Rightarrow> nat) \<Rightarrow> usize \<Rightarrow> regs \<Rightarrow> regs" where
  "u_wait ra status = asm_ecall ra [A0, A7] [status, into_primitive SysWait]"

text \<open>\<open>Inl\<close> is a result returned without entering the kernel.\<close>

definition u_pipe :: "(nat \<Rightarrow> nat) \<Rightarrow> 32 word slice \<Rightarrow> regs \<Rightarrow> usize + regs" where
  "u_pipe ra fds r =
     (if length (snd fds) < 2 then Inl (- 1)
      else Inr (asm_ecall ra [A0, A7] [slice_ptr fds, into_primitive SysPipe] r))"

definition u_exec :: "(nat \<Rightarrow> nat) \<Rightarrow> u8 slice \<Rightarrow> usize slice \<Rightarrow> regs \<Rightarrow> (usize + regs) outcome" where
  "u_exec ra path argv r =
     bindR (slice_last path) (\<lambda>c.
       if c \<noteq> 0 then Inr (Inl (- 1))
       else bindR (slice_last argv) (\<lambda>p.
         if p \<noteq> 0 then Inr (Inl (- 1))
         else Inr (Inr (asm_ecall ra [A0, A1, A7] [slice_ptr path, slice_ptr argv, into_primitive SysExec] r))))"

definition u_fstat :: "(nat \<Rightarrow> nat) \<Rightarrow> 32 word \<Rightarrow> usize \<Rightarrow> regs \<Rightarrow> regs" where
  "u_fstat ra fd stat = asm_ecall ra [A0, A1, A7] [scast fd, stat, into_primitive SysFstat]"

definition u_chdir :: "(nat \<Rightarrow> nat) \<Rightarrow> u8 slice \<Rightarrow> regs \<Rightarrow> regs" where
  "u_chdir ra path = asm_ecall ra [A0, A7] [slice_ptr path, into_primitive SysChdir]"

definition u_dup :: "(nat \<Rightarrow> nat) \<Rightarrow> 32 word \<Rightarrow> regs \<Rightarrow> regs" where
  "u_dup ra fd = asm_ecall ra [A0, A7] [scast fd, into_primitive SysDup]"

definition u_getpid :: "(nat \<Rightarrow> nat) \<Rightarrow> regs \<Rightarrow> regs" where
  "u_getpid ra = asm_ecall ra [A7] [into_primitive SysGetPid]"

definition u_sbrk :: "(nat \<Rightarrow> nat) \<Rightarrow> usize \<Rightarrow> regs \<Rightarrow> regs" where
  "u_sbrk ra sz = asm_ecall ra [A0, A7] [sz, into_primitive SysSbrk]"

definition u_sleep :: "(nat \<Rightarrow> nat) \<Rightarrow> usize \<Rightarrow> regs \<Rightarrow> regs" where
  "u_sleep ra num = asm_ecall ra [A0, A7] [num, into_primitive SysSleepN]"

definition u_uptime :: "(nat \<Rightarrow> nat) \<Rightarrow> regs \<Rightarrow> regs" where
  "u_uptime ra = asm_ecall ra [A7] [into_primitive SysUptime]"

definition u_open :: "(nat \<Rightarrow> nat) \<Rightarrow> u8 slice \<Rightarrow> regs \<Rightarrow> regs" where
  "u_open ra path = asm_ecall ra [A0, A7] [slice_ptr path, into_primitive SysOpen]"

definition u_mknod :: "(nat \<Rightarrow> nat) \<Rightarrow> u8 slice \<Rightarrow> 16 word \<Rightarrow> 16 word \<Rightarrow> regs \<Rightarrow> regs" where
  "u_mknod ra path major minor =
     asm_ecall ra [A0, A1, A2, A7] [slice_ptr path, scast major, scast minor, into_primitive SysMknod]"

definition u_close :: "(nat \<Rightarrow> nat) \<Rightarrow> 32 word \<Rightarrow> regs \<Rightarrow> regs" where
  "u_close ra fd = asm_ecall ra [A0, A7] [scast fd, into_primitive SysClose]"

definition u_unlink :: "(nat \<Rightarrow> nat) \<Rightarrow> u8 slice \<Rightarrow> regs \<Rightarrow> regs" where
  "u_unlink ra path = asm_ecall ra [A0, A7] [slice_ptr path, into_primitive SysUnlink]"

definition u_link :: "(nat \<Rightarrow> nat) \<Rightarrow> u8 slice \<Rightarrow> u8 slice \<Rightarrow> regs \<Rightarrow> regs" where
  "u_link ra old_path new_path =
     asm_ecall ra [A0, A1, A7] [slice_ptr old_path, slice_ptr new_path, into_primitive SysLink]"

definition u_mkdir :: "(nat \<Rightarrow> nat) \<Rightarrow> u8 slice \<Rightarrow> regs \<Rightarrow> regs" where
  "u_mkdir ra path = asm_ecall ra [A0, A7] [slice_ptr path, into_primitive SysMkdir]"

definition u_read :: "(nat \<Rightarrow> nat) \<Rightarrow> 32 word \<Rightarrow> u8 slice \<Rightarrow> regs \<Rightarrow> regs" where
  "u_read ra fd data =
     asm_ecall ra [A0, A1, A2, A7] [scast fd, slice_ptr data, slice_len data, into_primitive SysWrite]"

definition u_write :: "(nat \<Rightarrow> nat) \<Rightarrow> 32 word \<Rightarrow> u8 slice \<Rightarrow> regs \<Rightarrow> regs" where
  "u_write ra fd data =
     asm_ecall ra [A0, A1, A2, A7] [scast fd, slice_ptr data, slice_len data, into_primitive SysWrite]"

text \<open>
  \<^verbatim>\<open>exit\<close> passes the 32-bit code itself; the upper half of its register, \<open>hi\<close>, is unspecified.
\<close>

definition u_exit :: "(nat \<Rightarrow> nat) \<Rightarrow> 32 word \<Rightarrow> 32 word \<Rightarrow> regs \<Rightarrow> regs" where
  "u_exit ra hi code = asm_ecall ra [A0, A7] [word_cat hi code, into_primitive SysExitN]"

section \<open>What a stub asks of the kernel\<close>

text \<open>
  The template works when the operands have registers of their own and no move overwrites a register
  that a later move reads.
\<close>

definition placed :: "(nat \<Rightarrow> nat) \<Rightarrow> nat list \<Rightarrow> bool" where
  "placed ra dsts \<longleftrightarrow> distinct (map ra [0..<length dsts]) \<and>
     (\<forall>j < length dsts. \<forall>i < j. ra j \<noteq> dsts ! i)"

definition asks :: "regs \<Rightarrow> syscall_num \<Rightarrow> usize list \<Rightarrow> bool" where
  "asks r n args \<longleftrightarrow> from_primitive (r A7) = n \<and> (\<forall>i < length args. r (A0 + i) = args ! i)"

lemma from_into_primitive [simp]: "from_primitive (into_primitive n) = n"
  by (cases n) (simp_all add: from_primitive_def syscall_nums_def)

lemma operands_get:
  assumes "distinct (map ra [0..<n])" "n \<le> length ops" "j < n"
  shows "fold (\<lambda>i r. r(ra i := ops ! i)) [0..<n] r (ra j) = (ops ! j :: usize)"
  using assms
proof (induction n)
  case (Suc n)
  then show ?case
  proof (cases "j = n")
    case False
    then have "ra j \<in> ra ` {0..<n}" using Suc.prems by simp
    with Suc.prems have "ra j \<noteq> ra n" by auto
    with Suc False show ?thesis by simp
  qed simp
qed simp

lemma moves_other:
  "x \<notin> set (take n dsts) \<Longrightarrow> n \<le> length dsts \<Longrightarrow> fold (\<lambda>i. mv (dsts ! i) (ra i)) [0..<n] r x = r x"
  by (induction n) (auto simp: mv_def take_Suc_conv_app_nth)

lemma moves_get:
  assumes "placed ra dsts" "distinct dsts" "n \<le> length dsts" "j < n"
  shows "fold (\<lambda>i. mv (dsts ! i) (ra i)) [0..<n] r (dsts ! j) = r (ra j)"
  using assms(3,4)
proof (induction n)
  case (Suc n)
  show ?case
  proof (cases "j = n")
    case True
    have "ra n \<notin> set (take n dsts)"
    proof
      assume "ra n \<in> set (take n dsts)"
      then obtain i where "i < n" "ra n = dsts ! i" by (auto simp: in_set_conv_nth)
      then show False using assms(1) Suc.prems by (simp add: placed_def)
    qed
    then have "fold (\<lambda>i. mv (dsts ! i) (ra i)) [0..<n] r (ra n) = r (ra n)"
      using Suc.prems by (simp add: moves_other)
    then show ?thesis using True by (simp add: mv_def [of "dsts ! n"])
  next
    case False
    then have "dsts ! j \<noteq> dsts ! n" using assms(2) Suc.prems by (simp add: nth_eq_iff_index_eq)
    then show ?thesis using False Suc by (simp add: mv_def)
  qed
qed simp

lemma asm_ecall_get:
  assumes "placed ra dsts" "distinct dsts" "length ops = length dsts" "j < length dsts"
  shows "asm_ecall ra dsts ops r (dsts ! j) = ops ! j"
  using assms by (simp add: asm_ecall_def operands_def moves_get operands_get placed_def)

lemma asm_ecall_asks:
  assumes "placed ra (dsts @ [A7])" "dsts = take (length args) [A0, A1, A2]" "length args \<le> 3"
  shows "asks (asm_ecall ra (dsts @ [A7]) (args @ [into_primitive n]) r) n args"
proof -
  let ?d = "dsts @ [A7]"
  have len: "length dsts = length args" using assms by simp
  have dist: "distinct ?d" unfolding assms(2) using assms(3)
    by (auto simp: A0_def A1_def A2_def A7_def take_Cons' dest: in_set_takeD)
  have get: "j < length ?d \<Longrightarrow> asm_ecall ra ?d (args @ [into_primitive n]) r (?d ! j) = (args @ [into_primitive n]) ! j" for j
    using asm_ecall_get [OF assms(1) dist] len by simp
  have "?d ! i = A0 + i" if "i < length args" for i
    using that assms(2,3) len
    by (auto simp: nth_append A0_def A1_def A2_def nth_Cons split: nat.splits)
  then have "asm_ecall ra ?d (args @ [into_primitive n]) r (A0 + i) = args ! i" if "i < length args" for i
    using get [of i] that len by (simp add: nth_append)
  then show ?thesis using get [of "length args"] len by (simp add: asks_def nth_append)
qed

lemma slice_last_eq: "slice_last s = (if snd s = [] then Inl Overflow else Inr (last (snd s)))"
  by (simp add: slice_last_def usize_dec_def idx_get_def last_conv_nth)

lemmas stub_asks = asm_ecall_asks [where args = "[]" and dsts = "[]", simplified]
  asm_ecall_asks [where args = "[a]" and dsts = "[A0]" for a, simplified]
  asm_ecall_asks [where args = "[a, b]" and dsts = "[A0, A1]" for a b, simplified]
  asm_ecall_asks [where args = "[a, b, c]" and dsts = "[A0, A1, A2]" for a b c, simplified]

section \<open>The kernel's side\<close>

text \<open>The registers of the caller, saved by the trampoline in the trapframe.\<close>

definition saved :: "regs \<Rightarrow> nat \<Rightarrow> 'v kern \<Rightarrow> bool" where
  "saved r me k = (case my_data me k of
      Inl _ \<Rightarrow> False
    | Inr d \<Rightarrow> list_all (\<lambda>i. tf_get (pd_trapframe d) (TF_AX i) (k_mem k) = r (A0 + i)) [0..<8])"

lemma saved_arg:
  assumes "saved r me k" "asks r n args" "i < length args" "i \<le> 5"
  shows "arg me i k = Inr (args ! i)"
  using assms by (auto simp: saved_def asks_def arg_def list_all_iff outcome_simps split: sum.splits)

lemma saved_num:
  assumes "saved r me k" "asks r n args"
  shows "\<exists>d. my_data me k = Inr d \<and> from_primitive (tf_get (pd_trapframe d) (TF_AX 7) (k_mem k)) = n"
  using assms by (auto simp: saved_def asks_def list_all_iff A0_def A7_def split: sum.splits)

text \<open>
  The stub of \<^verbatim>\<open>read\<close> passes the number of \<^verbatim>\<open>write\<close>: the kernel writes the buffer to the
  file instead of filling it.
\<close>

lemma user_read_runs_sys_write:
  assumes "placed ra [A0, A1, A2, A7]" "saved (u_read ra fd data r) me k"
  shows "syscall mc me h rs k = sys_write mc me rs k"
proof -
  have "asks (u_read ra fd data r) SysWrite [scast fd, slice_ptr data, slice_len data]"
    unfolding u_read_def by (rule stub_asks) (rule assms)
  from saved_num [OF assms(2) this] show ?thesis by (auto simp: syscall_def)
qed

text \<open>
  Nothing in the assembly keeps an operand out of the registers the moves write: with the address
  placed in \<open>a0\<close>, \<^verbatim>\<open>write\<close> passes the descriptor as the address.
\<close>

lemma u_write_clobbers_operand:
  "u_write (\<lambda>i. [5, 10, 6, 7] ! i) 1 (0x1000, []) r A1 = 1"
  by (simp add: u_write_def asm_ecall_def operands_def mv_def slice_ptr_def slice_len_def A0_def A1_def A2_def A7_def upt_rec)

text \<open>C11. When the compiler gives the operands registers of their own that no earlier move overwrites,
  every stub of the user library enters the kernel with the number that the dispatcher maps to its call
  in \<open>a7\<close> and with its arguments, sign extended where they are signed, in \<open>a0\<close>, \<open>a1\<close> and \<open>a2\<close>;
  pipe and exec turn down arguments that they can see to be wrong without entering the kernel.  The
  one exception is read, which asks for a write.\<close>

theorem user_stubs_ask:
  assumes "placed ra [A7]" "placed ra [A0, A7]" "placed ra [A0, A1, A7]" "placed ra [A0, A1, A2, A7]"
  shows "asks (u_fork ra r) SysFork [] \<and> asks (u_getpid ra r) SysGetPid [] \<and> asks (u_uptime ra r) SysUptime [] \<and>
    asks (u_wait ra status r) SysWait [status] \<and> asks (u_sbrk ra sz r) SysSbrk [sz] \<and>
    asks (u_sleep ra num r) SysSleepN [num] \<and> asks (u_exit ra hi code r) SysExitN [word_cat hi code] \<and>
    asks (u_dup ra fd r) SysDup [scast fd] \<and> asks (u_close ra fd r) SysClose [scast fd] \<and>
    asks (u_open ra path r) SysOpen [slice_ptr path] \<and> asks (u_chdir ra path r) SysChdir [slice_ptr path] \<and>
    asks (u_mkdir ra path r) SysMkdir [slice_ptr path] \<and> asks (u_unlink ra path r) SysUnlink [slice_ptr path] \<and>
    asks (u_link ra path new_path r) SysLink [slice_ptr path, slice_ptr new_path] \<and>
    asks (u_fstat ra fd stat r) SysFstat [scast fd, stat] \<and>
    asks (u_mknod ra path major minor r) SysMknod [slice_ptr path, scast major, scast minor] \<and>
    asks (u_write ra fd data r) SysWrite [scast fd, slice_ptr data, slice_len data] \<and>
    asks (u_read ra fd data r) SysWrite [scast fd, slice_ptr data, slice_len data] \<and>
    (case u_pipe ra fds r of Inl v \<Rightarrow> length (snd fds) < 2 \<and> v = - 1 | Inr r' \<Rightarrow> asks r' SysPipe [slice_ptr fds]) \<and>
    (case u_exec ra path argv r of
       Inl e \<Rightarrow> snd path = [] \<or> snd argv = []
     | Inr (Inl v) \<Rightarrow> v = - 1 \<and> (last (snd path) \<noteq> 0 \<or> last (snd argv) \<noteq> 0)
     | Inr (Inr r') \<Rightarrow> asks r' SysExec [slice_ptr path, slice_ptr argv])"
proof -
  note a = stub_asks(1) [OF assms(1)] stub_asks(2) [OF assms(2)] stub_asks(3) [OF assms(3)] stub_asks(4) [OF assms(4)]
  have pipe: "case u_pipe ra fds r of Inl v \<Rightarrow> length (snd fds) < 2 \<and> v = - 1 | Inr r' \<Rightarrow> asks r' SysPipe [slice_ptr fds]"
    by (simp add: u_pipe_def a del: into_primitive.simps)
  have exec: "case u_exec ra path argv r of
       Inl e \<Rightarrow> snd path = [] \<or> snd argv = []
     | Inr (Inl v) \<Rightarrow> v = - 1 \<and> (last (snd path) \<noteq> 0 \<or> last (snd argv) \<noteq> 0)
     | Inr (Inr r') \<Rightarrow> asks r' SysExec [slice_ptr path, slice_ptr argv]"
    by (cases "snd path = []"; cases "snd argv = []") (simp_all add: u_exec_def slice_last_eq a del: into_primitive.simps)
  show ?thesis
    using pipe exec
    by (simp add: a u_fork_def u_getpid_def u_uptime_def u_wait_def u_sbrk_def u_sleep_def u_exit_def u_dup_def u_close_def
      u_open_def u_chdir_def u_mkdir_def u_unlink_def u_link_def u_fstat_def u_mknod_def u_write_def u_read_def
      del: into_primitive.simps)
qed

lemma temporaries_placed:
  "placed (\<lambda>i. 5 + i) [A7]" "placed (\<lambda>i. 5 + i) [A0, A7]" "placed (\<lambda>i. 5 + i) [A0, A1, A7]"
  "placed (\<lambda>i. 5 + i) [A0, A1, A2, A7]"
  by (auto simp: placed_def A0_def A1_def A2_def A7_def less_Suc_eq)

theorem user_stubs_ask_witness:
  "asks (u_dup (\<lambda>i. 5 + i) (- 1) (\<lambda>_. 0)) SysDup [- 1] \<and>
   asks (u_read (\<lambda>i. 5 + i) 3 (0x1000, [1, 2]) (\<lambda>_. 0)) SysWrite [3, 0x1000, 2]"
  using user_stubs_ask [OF temporaries_placed, where fd = "- 1" and r = "\<lambda>_. 0"]
    user_stubs_ask [OF temporaries_placed, where fd = 3 and r = "\<lambda>_. 0" and data = "(0x1000, [1, 2])"]
  by (simp add: slice_ptr_def slice_len_def)

end
