(* ===== verification/Rx_First.thy ===== *)
theory Rx_First
  imports Rx_Memory Rx_Syscall
begin

text \<open>
  The first process: \<^verbatim>\<open>alloc_proc\<close> and \<^verbatim>\<open>user_init\<close> on a fresh process table succeed and give it an address
  space with its program, its stack over a guard page, the trapframe and the trampoline.
\<close>

section \<open>Building an address space\<close>

text \<open>A user address space \<open>V\<close> under construction, with the pages \<open>P\<close> that the construction must leave alone.\<close>

definition usp :: "usize \<Rightarrow> usize \<Rightarrow> usize list \<Rightarrow> kmem \<Rightarrow> (nat \<Rightarrow> usize option) \<Rightarrow> usize set \<Rightarrow> bool" where
  "usp hs root ps s V P \<longleftrightarrow> vs_inv hs ps root s \<and> vmap (pmem s) root = V \<and>
     (\<forall>y\<in>P. ram_page y \<and> y \<notin> set ps \<and> y \<notin> pt_pages (pmem s) root)"

definition same_pages :: "usize set \<Rightarrow> kmem \<Rightarrow> kmem \<Rightarrow> bool" where
  "same_pages P s s' \<longleftrightarrow> (\<forall>y\<in>P. load_bytes (pmem s') (unat y) 4096 = load_bytes (pmem s) (unat y) 4096)"

lemma same_pages_trans: "same_pages P s s1 \<Longrightarrow> same_pages P s1 s2 \<Longrightarrow> same_pages P s s2"
  by (simp add: same_pages_def)

lemma same_pages_mono: "same_pages P s s' \<Longrightarrow> Q \<subseteq> P \<Longrightarrow> same_pages Q s s'"
  by (auto simp: same_pages_def)

lemma usp_mono: "usp hs root ps s V P \<Longrightarrow> Q \<subseteq> P \<Longrightarrow> usp hs root ps s V Q"
  by (auto simp: usp_def)

lemma fill_zero_same:
  assumes "heap_page hs z" "ram_page y" "y \<noteq> z"
  shows "load_bytes (fill_zero m (unat z) 4096) (unat y) 4096 = load_bytes m (unat y) 4096"
  using ram_page_disjoint [OF assms(2) heap_ram [OF assms(1)] assms(3)] by (intro load_bytes_fill_zero_disjoint) simp

text \<open>A fresh page.\<close>

lemma fresh_page:
  assumes "ka_inv hs ps s" "ps \<noteq> []"
  obtains q ps' s' where "ps = q # ps'" "new_zeroed s = Inr (q, s')" "zero_page q s' = s'" "ka_inv hs ps' s'"
    "ram_page q" "zero_filled s' q" "\<And>P. P \<inter> set ps = {} \<Longrightarrow> \<forall>y\<in>P. ram_page y \<Longrightarrow> same_pages P s s'"
    "pmem s' = fill_zero (pmem s) (unat q) 4096"
proof -
  obtain q ps' where ps: "ps = q # ps'" using assms(2) by (cases ps) auto
  obtain s' where s': "new_zeroed s = Inr (q, s')" "ka_inv hs ps' s'" "heap_page hs q" "pmem s' = fill_zero (pmem s) (unat q) 4096"
    using new_zeroed_cons [OF assms(1) [unfolded ps]] by metis
  have "zero_page q s' = s'"
    unfolding zero_page_def by (simp add: fill_zero_def fun_eq_iff s'(4) [unfolded fill_zero_def])
  moreover have "zero_filled s' q" unfolding zero_filled_def s'(4) by (simp add: fill_zero_def)
  moreover have "same_pages P s s'" if "P \<inter> set ps = {}" "\<forall>y\<in>P. ram_page y" for P
    unfolding same_pages_def s'(4) using that ps by (auto intro!: fill_zero_same [OF s'(3)])
  ultimately show thesis using that ps s' by auto
qed

lemma usp_start:
  assumes "ka_inv hs ps s" "ps \<noteq> []" "\<forall>y\<in>P. ram_page y \<and> y \<notin> set ps"
  shows "\<exists>z ps' s'. ps = z # ps' \<and> unew s = Inr (z, s') \<and> usp hs z ps' s' (\<lambda>_. None) P \<and> same_pages P s s'"
proof -
  obtain z ps' where ps: "ps = z # ps'" using assms(2) by (cases ps) auto
  obtain s1 where s1: "unew s = Inr (z, s1)" "vs_inv hs ps' z s1" "vmap (pmem s1) z = (\<lambda>_. None)" "pt_pages (pmem s1) z = {z}"
    "\<And>y. ram_page y \<Longrightarrow> y \<noteq> z \<Longrightarrow> load_bytes (pmem s1) (unat y) 4096 = load_bytes (pmem s) (unat y) 4096"
    using unew_empty [OF assms(1) [unfolded ps]] by metis
  then show ?thesis using ps assms(3) by (auto simp: usp_def same_pages_def)
qed

lemma usp_map:
  assumes "usp hs root ps s V P" "2 \<le> length ps" "unat va = 4096 * v" "v < 2 ^ 26" "V v = None" "ram_page pa"
  shows "\<exists>us ps' s'. ps = us @ ps' \<and> length us \<le> 2 \<and> map_pages root va pa PGSIZE perm s = Inr (True, s') \<and>
    usp hs root ps' s' (V(v \<mapsto> write_perm pa perm)) P \<and> same_pages P s s'"
proof -
  have vs: "vs_inv hs ps root s" and V: "vmap (pmem s) root = V" using assms(1) by (simp_all add: usp_def)
  have free: "vmap (pmem s) root v = None" using V assms(5) by simp
  obtain us ps' s' where m: "ps = us @ ps'" "length us \<le> 2" "map_pages root va pa PGSIZE perm s = Inr (True, s')"
    "pt_ext hs root us ps' s s'" "vmap (pmem s') root = (vmap (pmem s) root)(v \<mapsto> write_perm pa perm)"
    by (rule map_one_page [OF vs assms(2-4,6) free])
  then show ?thesis using assms(1) V unfolding usp_def same_pages_def pt_ext_def
    by (intro exI [of _ us] exI [of _ ps'] exI [of _ s']) auto
qed

lemma usp_alloc:
  assumes "usp hs root ps s V P" "ps \<noteq> []"
  shows "\<exists>q ps' s'. ps = q # ps' \<and> new_zeroed s = Inr (q, s') \<and> zero_page q s' = s' \<and> ram_page q \<and> q \<notin> P \<and>
    zero_filled s' q \<and> usp hs root ps' s' V (insert q P) \<and> same_pages P s s'"
proof -
  have vs: "ka_inv hs ps s" "wf_pt (pmem s) root" "pt_pages (pmem s) root \<inter> set ps = {}" using assms(1) by (simp_all add: usp_def vs_inv_def)
  obtain q ps' s' where q: "ps = q # ps'" "new_zeroed s = Inr (q, s')" "zero_page q s' = s'" "ka_inv hs ps' s'" "ram_page q" "zero_filled s' q"
    and same: "\<And>P. P \<inter> set ps = {} \<Longrightarrow> \<forall>y\<in>P. ram_page y \<Longrightarrow> same_pages P s s'"
    using fresh_page [OF vs(1) assms(2)] by metis
  have "same_pages (pt_pages (pmem s) root) s s'" by (rule same) (use vs wf_pt_ram in auto)
  then have pt: "pt_same (pmem s) (pmem s') root" by (intro pt_sameI) (simp add: same_pages_def)
  have "distinct ps" using ka.free_distinct [OF vs(1)] .
  then have "usp hs root ps' s' V (insert q P)" "q \<notin> P"
    using q assms(1) vs pt_same_wf [OF pt vs(2)] pt_same_pages [OF pt] pt_same_vmap [OF pt] by (auto simp: usp_def vs_inv_def)
  moreover have "same_pages P s s'" by (rule same) (use assms(1) in \<open>auto simp: usp_def\<close>)
  ultimately show ?thesis using q by auto
qed

text \<open>A fresh page that is mapped.\<close>

lemma usp_alloc_map:
  assumes "usp hs root ps s V P" "3 \<le> length ps" "unat va = 4096 * v" "v < 2 ^ 26" "V v = None"
  shows "\<exists>q ps' s1 s'. new_zeroed s = Inr (q, s1) \<and> zero_page q s1 = s1 \<and> map_pages root va q PGSIZE perm s1 = Inr (True, s') \<and>
    length ps \<le> length ps' + 3 \<and> ram_page q \<and> q \<notin> P \<and> zero_filled s' q \<and>
    usp hs root ps' s' (V(v \<mapsto> write_perm q perm)) (insert q P) \<and> same_pages P s s'"
proof -
  obtain q ps1 s1 where q: "ps = q # ps1" "new_zeroed s = Inr (q, s1)" "zero_page q s1 = s1" "ram_page q" "q \<notin> P"
    "zero_filled s1 q" "usp hs root ps1 s1 V (insert q P)" "same_pages P s s1"
    using usp_alloc [OF assms(1)] assms(2) by (metis list.size(3) not_numeral_le_zero)
  have "2 \<le> length ps1" using assms(2) q(1) by simp
  then obtain us ps' s' where m: "ps1 = us @ ps'" "length us \<le> 2" "map_pages root va q PGSIZE perm s1 = Inr (True, s')"
    "usp hs root ps' s' (V(v \<mapsto> write_perm q perm)) (insert q P)" "same_pages (insert q P) s1 s'"
    using usp_map [OF q(7) _ assms(3,4,5) q(4)] by blast
  have "zero_filled s' q" using m(5) q(6) zero_filled_bytes [of s' q s1] by (simp add: same_pages_def)
  moreover have "same_pages P s s'" using same_pages_trans [OF q(8)] m(5) same_pages_mono by blast
  moreover have "length ps \<le> length ps' + 3" using q(1) m(1,2) by simp
  ultimately show ?thesis using q m by blast
qed

text \<open>Writing into a page that belongs to neither the table nor the allocator.\<close>

lemma usp_store:
  assumes "usp hs root ps s V P" "y \<in> P" "off + length bs \<le> 4096"
  shows "usp hs root ps (s\<lparr>pmem := store_bytes (pmem s) (unat y + off) bs\<rparr>) V P"
    "same_pages (P - {y}) s (s\<lparr>pmem := store_bytes (pmem s) (unat y + off) bs\<rparr>)"
proof -
  let ?m = "store_bytes (pmem s) (unat y + off) bs"
  have vs: "ka_inv hs ps s" "wf_pt (pmem s) root" "pt_pages (pmem s) root \<inter> set ps = {}" "vmap (pmem s) root = V"
    and y: "ram_page y" "y \<notin> set ps" "y \<notin> pt_pages (pmem s) root" using assms(1,2) by (auto simp: usp_def vs_inv_def)
  have other: "load_bytes ?m (unat q) 4096 = load_bytes (pmem s) (unat q) 4096" if "ram_page q" "q \<noteq> y" for q
    using ram_page_disjoint [OF that(1) y(1) that(2)] assms(3) by (intro load_store_bytes_disjoint) linarith
  have pt: "pt_same (pmem s) ?m root" by (rule store_page_same [OF vs(2) y(1,3) assms(3)])
  have "load64 ?m (unat q) = load64 (pmem s) (unat q)" if "q \<in> set ps" for q
    using load64_page_eq [OF other, of q 0] ka_inv_ram [OF vs(1) that] that y(2) by auto
  then have "ka_inv hs ps (s\<lparr>pmem := ?m\<rparr>)" by (rule ka_inv_mem [OF vs(1)])
  then show "usp hs root ps (s\<lparr>pmem := ?m\<rparr>) V P"
    using assms(1) vs pt_same_wf [OF pt vs(2)] pt_same_pages [OF pt] pt_same_vmap [OF pt] by (simp add: usp_def vs_inv_def)
  show "same_pages (P - {y}) s (s\<lparr>pmem := ?m\<rparr>)" using other assms(1) by (auto simp: same_pages_def usp_def)
qed

section \<open>The pages every process has\<close>

lemma top_pages:
  "unat TRAMPOLINE = 4096 * 0x3FFFFFF" "unat TRAPFRAME = 4096 * 0x3FFFFFE" "unat USTACK_BASE = 4096 * 0x3FFFFFD"
  "unat (USTACK_BASE - PGSIZE) = 4096 * 0x3FFFFFC"
  by (simp_all add: layout_values PGSIZE_def)

definition PTE_RX :: usize where "PTE_RX = PTE_R OR PTE_X"
definition PTE_RW :: usize where "PTE_RW = PTE_R OR PTE_W"
definition PTE_WRU :: usize where "PTE_WRU = PTE_W OR PTE_R OR PTE_U"

lemma proc_pagetable_ok:
  assumes inv: "ka_inv hs ps s" "5 \<le> length ps" "\<forall>y\<in>P. ram_page y \<and> y \<notin> set ps" and tf: "tf \<in> P" "ram_page tramp"
  shows "\<exists>root ps' s'. proc_pagetable tramp tf s = Inr (Some root, s') \<and> length ps \<le> length ps' + 5 \<and>
    usp hs root ps' s' [0x3FFFFFF \<mapsto> write_perm tramp PTE_RX, 0x3FFFFFE \<mapsto> write_perm tf PTE_RW] P \<and> same_pages P s s'"
proof -
  have ne: "ps \<noteq> []" using inv(2) by auto
  obtain root ps1 s1 where 1: "ps = root # ps1" "unew s = Inr (root, s1)" "usp hs root ps1 s1 (\<lambda>_. None) P" "same_pages P s s1"
    using usp_start [OF inv(1) ne inv(3)] by blast
  have l1: "2 \<le> length ps1" using inv(2) 1(1) by simp
  obtain us ps2 s2 where 2: "ps1 = us @ ps2" "length us \<le> 2" "map_pages root TRAMPOLINE tramp PGSIZE PTE_RX s1 = Inr (True, s2)"
    "usp hs root ps2 s2 [0x3FFFFFF \<mapsto> write_perm tramp PTE_RX] P" "same_pages P s1 s2"
    using usp_map [OF 1(3) l1 top_pages(1) _ _ tf(2), of PTE_RX] by auto
  have l2: "2 \<le> length ps2" using inv(2) 1(1) 2(1,2) by simp
  have tfr: "ram_page tf" using inv(3) tf(1) by blast
  obtain us' ps3 s3 where 3: "ps2 = us' @ ps3" "length us' \<le> 2" "map_pages root TRAPFRAME tf PGSIZE PTE_RW s2 = Inr (True, s3)"
    "usp hs root ps3 s3 [0x3FFFFFF \<mapsto> write_perm tramp PTE_RX, 0x3FFFFFE \<mapsto> write_perm tf PTE_RW] P" "same_pages P s2 s3"
    using usp_map [OF 2(4) l2 top_pages(2) _ _ tfr, of PTE_RW] by auto
  have "proc_pagetable tramp tf s = Inr (Some root, s3)"
    using 1(2) 2(3) 3(3) by (simp add: proc_pagetable_def PTE_RX_def PTE_RW_def)
  moreover have "length ps \<le> length ps3 + 5" using 1(1) 2(1,2) 3(1,2) by simp
  moreover have "same_pages P s s3" using 1(4) 2(5) 3(5) same_pages_trans by blast
  ultimately show ?thesis using 3(4) by blast
qed

text \<open>The address space the first process gets: its code in one page, a stack page over a guard page.\<close>

definition init_space :: "usize \<Rightarrow> usize \<Rightarrow> usize \<Rightarrow> (nat \<Rightarrow> usize option) \<Rightarrow> nat \<Rightarrow> usize option" where
  "init_space code stack guard V =
     V(0 \<mapsto> write_perm code RWXU, 0x3FFFFFD \<mapsto> write_perm stack PTE_WRU, 0x3FFFFFC \<mapsto> write_perm guard PTE_R)"

lemma uinit_ok:
  assumes usp: "usp hs root ps s V P" "9 \<le> length ps" and V: "V 0 = None" "V 0x3FFFFFD = None" "V 0x3FFFFFC = None"
    and src: "length src < 4096"
  shows "\<exists>code stack guard ps' s'. uinit root src s = Inr s' \<and> same_pages P s s' \<and>
    usp hs root ps' s' (init_space code stack guard V) (P \<union> {code, stack, guard}) \<and>
    load_bytes (pmem s') (unat code) 4096 = src @ replicate (4096 - length src) 0 \<and> zero_filled s' stack \<and>
    code \<notin> P \<and> stack \<notin> insert code P"
proof -
  have l1: "3 \<le> length ps" using usp(2) by simp
  obtain q ps1 s0 s1 where 1: "new_zeroed s = Inr (q, s0)" "zero_page q s0 = s0" "map_pages root 0 q PGSIZE RWXU s0 = Inr (True, s1)"
    "length ps \<le> length ps1 + 3" "ram_page q" "q \<notin> P" "zero_filled s1 q"
    "usp hs root ps1 s1 (V(0 \<mapsto> write_perm q RWXU)) (insert q P)" "same_pages P s s1"
    using usp_alloc_map [OF usp(1) l1, of 0 0 RWXU] V(1) by auto
  have l2: "3 \<le> length ps1" "3 \<le> length ps1 - 3" using usp(2) 1(4) by simp_all
  obtain st ps2 s2 s3 where 2: "new_zeroed s1 = Inr (st, s2)" "zero_page st s2 = s2" "map_pages root USTACK_BASE st PGSIZE PTE_WRU s2 = Inr (True, s3)"
    "length ps1 \<le> length ps2 + 3" "ram_page st" "st \<notin> insert q P" "zero_filled s3 st"
    "usp hs root ps2 s3 (V(0 \<mapsto> write_perm q RWXU, 0x3FFFFFD \<mapsto> write_perm st PTE_WRU)) (insert st (insert q P))" "same_pages (insert q P) s1 s3"
    using usp_alloc_map [OF 1(8) l2(1) top_pages(3), of PTE_WRU] V(2) by auto
  have l3: "3 \<le> length ps2" using l2 2(4) by simp
  obtain g ps3 s4 s5 where 3: "new_zeroed s3 = Inr (g, s4)" "map_pages root (USTACK_BASE - PGSIZE) g PGSIZE PTE_R s4 = Inr (True, s5)"
    "g \<notin> insert st (insert q P)" "usp hs root ps3 s5 (init_space q st g V) (insert g (insert st (insert q P)))"
    "same_pages (insert st (insert q P)) s3 s5"
    using usp_alloc_map [OF 2(8) l3 top_pages(4), of PTE_R] V(3) by (auto simp: init_space_def)
  let ?s = "s5\<lparr>pmem := store_bytes (pmem s5) (unat q + 0) src\<rparr>"
  have "ualloc_stack root s1 = Inr (True, s5)"
    using 2(1-3) 3(1,2) by (simp add: ualloc_stack_def USTACK_SIZE_def PTE_WRU_def)
  moreover have "PTE_R OR PTE_W OR PTE_X OR PTE_U = RWXU" by (simp add: RWXU_def pte_flag_defs)
  ultimately have "uinit root src s = Inr ?s" using src 1(1-3) by (simp add: uinit_def)
  moreover have keep: "usp hs root ps3 ?s (init_space q st g V) (insert g (insert st (insert q P)))"
    "same_pages (insert g (insert st (insert q P)) - {q}) s5 ?s"
    using usp_store [OF 3(4), of q 0 src] src by simp_all
  moreover have all: "same_pages P s5 ?s" "same_pages {st} s5 ?s"
    by (rule same_pages_mono [OF keep(2)]; use 1(6) 2(6) in blast)+
  have "same_pages P s ?s"
    using 1(9) 2(9) 3(5) all(1) same_pages_trans same_pages_mono by (metis (no_types, lifting) subset_insertI)
  moreover have zero: "zero_filled s5 q" "zero_filled ?s st"
    using 1(7) 2(7,9) 3(5) all(2) zero_filled_bytes by (auto simp: same_pages_def)
  have "load_bytes (pmem ?s) (unat q) 4096 = src @ replicate (4096 - length src) 0"
  proof (rule nth_equalityI)
    fix i assume "i < length (load_bytes (pmem ?s) (unat q) 4096)"
    then show "load_bytes (pmem ?s) (unat q) 4096 ! i = (src @ replicate (4096 - length src) 0) ! i"
      using zero(1) src by (cases "i < length src") (auto simp: store_bytes_def nth_append zero_filled_def)
  qed (use src in simp)
  ultimately show ?thesis using zero(2) 1(6) 2(6)
    by (intro exI [of _ q] exI [of _ st] exI [of _ g] exI [of _ ps3] exI [of _ ?s]) (simp add: insert_commute)
qed

section \<open>The process\<close>

text \<open>What allocation makes of the entry of the process.\<close>

definition allocated :: "usize \<Rightarrow> usize \<Rightarrow> usize \<Rightarrow> usize \<Rightarrow> usize \<Rightarrow> 'i process \<Rightarrow> 'i process" where
  "allocated pid tf root ra sp p =
     p\<lparr>pr_meta := set_state Allocated ((pr_meta p)\<lparr>pm_pid := pid\<rparr>),
      pr_data := (pr_data p)\<lparr>pd_trapframe := tf, pd_pagetable := Some root,
        pd_context := context_new\<lparr>cx_ra := ra, cx_sp := sp\<rparr>\<rparr>\<rparr>"

lemma alloc_proc_ok:
  assumes inv: "ka_inv hs ps s" "6 \<le> length ps" "\<forall>y\<in>P. ram_page y \<and> y \<notin> set ps" and tramp: "ram_page tramp"
    and i: "find_state (\<lambda>st. st = Unused) (pt_proc t) 0 = Some i" "i < length (pt_proc t)" "pt_proc t ! i = p"
    and p: "pd_pagetable (pr_data p) = None" "pd_id (pr_data p) = j" "j < length (pt_idx_pids t)"
      "add_ck (pd_kstack (pr_data p)) STACK_SIZE = Inr sp"
  shows "\<exists>tf root ps' s'. alloc_proc tramp ra t s =
      Inr (Some i, t\<lparr>pt_pids := pt_pids t + 1, pt_proc := (pt_proc t)[i := allocated (pt_pids t) tf root ra sp p],
        pt_idx_pids := (pt_idx_pids t)[j := pt_pids t]\<rparr>, s') \<and>
    length ps \<le> length ps' + 6 \<and> tf \<notin> P \<and> same_pages P s s' \<and>
    usp hs root ps' s' [0x3FFFFFF \<mapsto> write_perm tramp PTE_RX, 0x3FFFFFE \<mapsto> write_perm tf PTE_RW] (insert tf P)"
proof -
  have ne: "ps \<noteq> []" using inv(2) by auto
  obtain tf ps1 s1 where 1: "ps = tf # ps1" "new_zeroed s = Inr (tf, s1)" "ka_inv hs ps1 s1" "ram_page tf"
    and same: "\<And>P. P \<inter> set ps = {} \<Longrightarrow> \<forall>y\<in>P. ram_page y \<Longrightarrow> same_pages P s s1"
    using fresh_page [OF inv(1) ne] by metis
  have P: "same_pages P s s1" by (rule same) (use inv(3) in auto)
  have l: "5 \<le> length ps1" using inv(2) 1(1) by simp
  have "distinct ps" using ka.free_distinct [OF inv(1)] .
  then have P1: "\<forall>y\<in>insert tf P. ram_page y \<and> y \<notin> set ps1" "tf \<notin> P" using inv(3) 1(1,4) by auto
  obtain root ps' s' where 2: "proc_pagetable tramp tf s1 = Inr (Some root, s')" "length ps1 \<le> length ps' + 5"
    "usp hs root ps' s' [0x3FFFFFF \<mapsto> write_perm tramp PTE_RX, 0x3FFFFFE \<mapsto> write_perm tf PTE_RW] (insert tf P)"
    "same_pages (insert tf P) s1 s'"
    using proc_pagetable_ok [OF 1(3) l P1(1) _ tramp, of tf] by blast
  have "alloc_proc tramp ra t s = Inr (Some i, t\<lparr>pt_pids := pt_pids t + 1, pt_proc := (pt_proc t)[i := allocated (pt_pids t) tf root ra sp p],
        pt_idx_pids := (pt_idx_pids t)[j := pt_pids t]\<rparr>, s')"
    using i p 1(2) 2(1)
    by (simp add: alloc_proc_def alloc_pid_def upd_meta_def upd_data_def set_pagetable_def get_proc_def idx_get_def idx_set_def
        init_context_def allocated_def set_state_def)
  moreover have "same_pages P s s'" using same_pages_trans [OF P] 2(4) same_pages_mono by blast
  moreover have "length ps \<le> length ps' + 6" using 1(1) 2(2) by simp
  ultimately show ?thesis using 2(3) P1(2) by blast
qed

section \<open>The root directory\<close>

definition root_inode :: inode where
  "root_inode = \<lparr>ino_dev = ROOTDEV, ino_inum = ROOTINUM, ino_index = 0\<rparr>"

definition fs_rooted :: "(u32 \<Rightarrow> block) \<Rightarrow> fs" where
  "fs_rooted disk = (fs_new disk)\<lparr>fs_meta := (fs_meta (fs_new disk))
     [0 := (fs_meta (fs_new disk) ! 0)\<lparr>im_dev := ROOTDEV, im_inum := ROOTINUM, im_refs := 1\<rparr>]\<rparr>"

lemma find_index_replicate [simp]: "find_index Q (replicate n x) = (if Q x \<and> 0 < n then Some 0 else None)"
  by (induction n) auto

lemma icache_get_root: "icache_get ROOTDEV ROOTINUM (fs_new disk) = Inr (root_inode, fs_rooted disk)"
proof -
  have "fs_meta (fs_new disk) = replicate NINODE inode_meta_new" "fs_data (fs_new disk) = replicate NINODE inode_data_new"
    by (simp_all add: fs_new_def)
  then show ?thesis
    by (simp add: icache_get_def root_inode_def fs_rooted_def get_idata_def idx_get_def NINODE_def inode_meta_new_def inode_data_new_def
        guardR_def Let_def)
qed

lemma namei_root: "namei cwd ROOTIPATH (fs_new disk) = Inr (Some root_inode, fs_rooted disk)"
  by (simp add: namei_def namex_def ROOTIPATH_def icache_get_root idx_get_def skip_path_def skip_while.simps SLASH_def)

section \<open>The first process\<close>

lemma usp_tf_set:
  assumes "usp hs root ps s V P" "tf \<in> P" "off + 8 \<le> 4096"
  shows "usp hs root ps (tf_set tf off v s) V P" "same_pages (P - {tf}) s (tf_set tf off v s)"
  using usp_store [OF assms(1,2), of off "to_le 8 v"] assms(3) by (simp_all add: tf_set_def store64_def)

text \<open>Its entry in the process table, and the table.\<close>

definition first_proc :: "inode process \<Rightarrow> inode process" where
  "first_proc p =
     p\<lparr>pr_data := (set_name (map (of_nat \<circ> of_char) ''initprog'' @ [0]) (pr_data p))\<lparr>pd_size := PGSIZE, pd_cwd := Some root_inode\<rparr>,
       pr_meta := set_state Runnable (pr_meta p)\<rparr>"

lemma user_init_ok:
  fixes k :: "'v kern"
  defines "t \<equiv> k_tab k"
  assumes inv: "ka_inv hs ps (k_mem k)" "15 \<le> length ps" "\<forall>y\<in>P. ram_page y \<and> y \<notin> set ps" and tramp: "ram_page (m_trampoline mc)"
    and i: "find_state (\<lambda>st. st = Unused) (pt_proc t) 0 = Some i" "i < length (pt_proc t)" "pt_proc t ! i = p"
    and p: "pd_pagetable (pr_data p) = None" "pd_id (pr_data p) = j" "j < length (pt_idx_pids t)"
      "add_ck (pd_kstack (pr_data p)) STACK_SIZE = Inr sp" "pd_cwd (pr_data p) = None"
    and fs: "k_fs k = fs_new disk" and first: "pt_init_proc t = None"
  shows "\<exists>tf root code stack guard ps' m. user_init mc k = Inr (k\<lparr>k_mem := m, k_fs := fs_rooted disk,
      k_tab := t\<lparr>pt_pids := pt_pids t + 1, pt_idx_pids := (pt_idx_pids t)[j := pt_pids t],
        pt_proc := (pt_proc t)[i := first_proc (allocated (pt_pids t) tf root (m_fork_ret mc) sp p)], pt_init_proc := Some i\<rparr>\<rparr>) \<and>
    same_pages P (k_mem k) m \<and>
    usp hs root ps' m (init_space code stack guard
      [0x3FFFFFF \<mapsto> write_perm (m_trampoline mc) PTE_RX, 0x3FFFFFE \<mapsto> write_perm tf PTE_RW]) (P \<union> {tf, code, stack, guard}) \<and>
    load_bytes (pmem m) (unat code) 4096 = INITCODE @ replicate (4096 - length INITCODE) 0 \<and>
    tf_get tf TF_EPC m = 0 \<and> tf_get tf TF_SP m = TRAPFRAME"
proof -
  have l: "6 \<le> length ps" using inv(2) by simp
  let ?t = "\<lambda>tf root. t\<lparr>pt_pids := pt_pids t + 1, pt_proc := (pt_proc t)[i := allocated (pt_pids t) tf root (m_fork_ret mc) sp p],
        pt_idx_pids := (pt_idx_pids t)[j := pt_pids t]\<rparr>"
  obtain tf root ps1 s1 where 1: "alloc_proc (m_trampoline mc) (m_fork_ret mc) t (k_mem k) = Inr (Some i, ?t tf root, s1)"
    "length ps \<le> length ps1 + 6" "tf \<notin> P" "same_pages P (k_mem k) s1"
    "usp hs root ps1 s1 [0x3FFFFFF \<mapsto> write_perm (m_trampoline mc) PTE_RX, 0x3FFFFFE \<mapsto> write_perm tf PTE_RW] (insert tf P)"
    using alloc_proc_ok [OF inv(1) l inv(3) tramp i p(1-4), of "m_fork_ret mc"] by blast
  have l2: "9 \<le> length ps1" using inv(2) 1(2) by simp
  have len: "length INITCODE < 4096" by (simp add: INITCODE_def)
  obtain code stack guard ps2 s2 where 2: "uinit root INITCODE s1 = Inr s2" "same_pages (insert tf P) s1 s2"
    "usp hs root ps2 s2 (init_space code stack guard [0x3FFFFFF \<mapsto> write_perm (m_trampoline mc) PTE_RX, 0x3FFFFFE \<mapsto> write_perm tf PTE_RW])
      (insert tf P \<union> {code, stack, guard})"
    "load_bytes (pmem s2) (unat code) 4096 = INITCODE @ replicate (4096 - length INITCODE) 0" "code \<notin> insert tf P"
    using uinit_ok [OF 1(5) l2 _ _ _ len] by auto
  have "tf \<in> insert tf P \<union> {code, stack, guard}" by simp
  note epc = usp_tf_set [OF 2(3) this, of TF_EPC 0]
  let ?m = "tf_set tf TF_SP TRAPFRAME (tf_set tf TF_EPC 0 s2)"
  have "usp hs root ps2 (tf_set tf TF_EPC 0 s2) (init_space code stack guard [0x3FFFFFF \<mapsto> write_perm (m_trampoline mc) PTE_RX, 0x3FFFFFE \<mapsto> write_perm tf PTE_RW])
      (insert tf P \<union> {code, stack, guard})" by (rule epc(1)) (simp add: TF_EPC_def)
  note sp = usp_tf_set [OF this, of tf TF_SP TRAPFRAME]
  have usp: "usp hs root ps2 ?m (init_space code stack guard [0x3FFFFFF \<mapsto> write_perm (m_trampoline mc) PTE_RX, 0x3FFFFFE \<mapsto> write_perm tf PTE_RW])
      (P \<union> {tf, code, stack, guard})" using sp(1) by (simp add: TF_SP_def insert_commute)
  have tail: "same_pages (insert code P) s2 ?m"
    by (rule same_pages_trans [OF same_pages_mono [OF epc(2)] same_pages_mono [OF sp(2)]]; use 1(3) 2(5) in \<open>auto simp: TF_EPC_def TF_SP_def\<close>)
  then have "load_bytes (pmem ?m) (unat code) 4096 = INITCODE @ replicate (4096 - length INITCODE) 0"
    using 2(4) by (simp add: same_pages_def)
  moreover have "same_pages P (k_mem k) ?m"
    using 1(4) 2(2) tail same_pages_trans same_pages_mono by (metis subset_insertI)
  moreover have "tf_get tf TF_EPC ?m = 0" "tf_get tf TF_SP ?m = TRAPFRAME"
    by (simp_all add: tf_get_set_other tf_offsets)
  moreover have "add_ck USTACK_BASE USTACK_SIZE = Inr TRAPFRAME"
    by (simp add: add_ck_def layout_values USTACK_SIZE_def PGSIZE_def)
  then have "user_init mc k = Inr (k\<lparr>k_mem := ?m, k_fs := fs_rooted disk,
      k_tab := t\<lparr>pt_pids := pt_pids t + 1, pt_idx_pids := (pt_idx_pids t)[j := pt_pids t],
        pt_proc := (pt_proc t)[i := first_proc (allocated (pt_pids t) tf root (m_fork_ret mc) sp p)], pt_init_proc := Some i\<rparr>\<rparr>)"
    using 1(1) 2(1) i(2) p fs first namei_root [of None disk]
    by (simp add: user_init_def t_def my_data_def get_proc_def idx_get_def k_upd_data_def upd_data_def upd_meta_def k_put_opt_def
        first_proc_def allocated_def Let_def)
  ultimately show ?thesis using usp by blast
qed

end
