(* ===== verification/Rx_Kmap.thy ===== *)
theory Rx_Kmap
  imports Rx_Memory Rx_Proc
begin

text \<open>
  The address space of the kernel.  \<^verbatim>\<open>PageTable::kernel_map\<close> uses pages of two megabytes where a range
  allows it, so the abstract space of \<open>Rx_Vspace\<close>, which has small pages only, is extended by the large
  pages of level 1.  The theory shows what \<^verbatim>\<open>map_with_huge\<close> does on a free range and, from it, that the
  kernel map of \<^verbatim>\<open>memory/mapping/kernel_map.rs\<close> is built without running out of pages and is exactly the
  intended one.
\<close>

section \<open>Large pages\<close>

text \<open>The indices of a page number in the tables of level 2 and 1.\<close>

definition vtop :: "nat \<Rightarrow> nat" where "vtop v = v div 2 ^ 18 mod 512"
definition vmid :: "nat \<Rightarrow> nat" where "vmid v = v div 2 ^ 9 mod 512"

text \<open>The valid leaf entry of level 1 above a page, and what the hardware makes of both kinds of entry:
  the physical page and the flags.  A large page whose address is not a multiple of its size faults.\<close>

definition hmap :: "pmem \<Rightarrow> usize \<Rightarrow> nat \<Rightarrow> usize option" where
  "hmap m root v =
     (if v < 2 ^ 27 then
        (case node m root [vtop v] of
           None \<Rightarrow> None
         | Some x \<Rightarrow> let e = load64 m (unat x + 8 * (vmid v)) in
             if is_valid e \<and> is_leaf e then Some e else None)
      else None)"

definition kpage :: "pmem \<Rightarrow> usize \<Rightarrow> nat \<Rightarrow> (usize \<times> usize) option" where
  "kpage m root v =
     (case vmap m root v of
        Some e \<Rightarrow> Some (as_pagetable e, as_flags e)
      | None \<Rightarrow> (case hmap m root v of
            Some e \<Rightarrow> if is_hpage_aligned (as_pagetable e)
                      then Some (as_pagetable e + of_nat (v mod 512) * PGSIZE, as_flags e) else None
          | None \<Rightarrow> None))"

text \<open>The table pages by their paths, and a root without leaf entries.\<close>

definition nodes :: "pmem \<Rightarrow> usize \<Rightarrow> nat list set" where
  "nodes m root = {p. path_ok p \<and> node m root p \<noteq> None}"

definition no_giga :: "pmem \<Rightarrow> usize \<Rightarrow> bool" where
  "no_giga m root \<longleftrightarrow> (\<forall>i<512. \<not> (is_valid (load64 m (unat root + 8 * i)) \<and> is_leaf (load64 m (unat root + 8 * i))))"

definition haligned :: "pmem \<Rightarrow> usize \<Rightarrow> bool" where
  "haligned m root \<longleftrightarrow> (\<forall>v e. hmap m root v = Some e \<longrightarrow> is_hpage_aligned (as_pagetable e))"

text \<open>
  The invariant while the kernel map is built: the tables stay among those with the paths \<open>T\<close>, and the
  free pages suffice for the tables that are missing and for \<open>k\<close> further pages.
\<close>

definition kinv :: "usize \<Rightarrow> nat list set \<Rightarrow> nat \<Rightarrow> usize \<Rightarrow> usize list \<Rightarrow> kmem \<Rightarrow> bool" where
  "kinv hs T k root ps s \<longleftrightarrow>
     ka_inv hs ps s \<and> wf_tree (pmem s) root \<and> no_giga (pmem s) root \<and> haligned (pmem s) root \<and>
     pt_pages (pmem s) root \<inter> set ps = {} \<and>
     nodes (pmem s) root \<subseteq> insert [] T \<and> finite T \<and> card (T - nodes (pmem s) root) + k \<le> length ps"

text \<open>What a step may do to the pages besides: take free ones, some of them for tables.\<close>

definition ktakes :: "usize \<Rightarrow> usize list \<times> kmem \<Rightarrow> usize list \<times> kmem \<Rightarrow> bool" where
  "ktakes root a b \<longleftrightarrow> set (fst b) \<subseteq> set (fst a) \<and>
     pt_pages (pmem (snd b)) root \<subseteq> pt_pages (pmem (snd a)) root \<union> set (fst a)"

definition kgrow :: "usize \<Rightarrow> nat list set \<Rightarrow> nat \<Rightarrow> usize \<Rightarrow> usize list \<times> kmem \<Rightarrow> usize list \<times> kmem \<Rightarrow> bool" where
  "kgrow hs T k root a b \<longleftrightarrow> kinv hs T k root (fst b) (snd b) \<and> ktakes root a b \<and>
     vmap (pmem (snd b)) root = vmap (pmem (snd a)) root \<and> hmap (pmem (snd b)) root = hmap (pmem (snd a)) root"

lemma ktakes_refl: "ktakes root a a"
  by (auto simp: ktakes_def)

lemma ktakes_trans: "ktakes root a b \<Longrightarrow> ktakes root b c \<Longrightarrow> ktakes root a c"
  by (auto simp: ktakes_def)

lemma kgrow_trans: "kgrow hs T k root a b \<Longrightarrow> kgrow hs T k root b c \<Longrightarrow> kgrow hs T k root a c"
  by (auto simp: kgrow_def intro: ktakes_trans)

lemma path1 [simp]: "i < 512 \<Longrightarrow> path_ok [i]"
  by (simp add: path_ok_def)

lemma vidx_less [simp]: "vtop v < 512" "vmid v < 512"
  by (simp_all add: vtop_def vmid_def)

lemma vpath_eq: "vpath v = [vtop v, vmid v]"
  by (simp add: vpath_def vtop_def vmid_def)

declare node.simps(2) [simp del]

lemma node_vpath:
  "node m root (vpath v) = (case node m root [vtop v] of
     None \<Rightarrow> None
   | Some x \<Rightarrow> let e = load64 m (unat x + 8 * (vmid v)) in
       if is_table e then Some (as_pagetable e) else None)"
  using node_append [of m root "[vtop v]" "[vmid v]", unfolded append.simps]
  by (auto simp: vpath_eq node.simps(2) [of m _ "vmid v"] Let_def split: option.splits)

section \<open>Adding a table\<close>

lemma kinv_add:
  assumes inv: "kinv hs T k root ps s" and p: "path_ok p" "length p < 2" "node (pmem s) root p = Some x"
    and i: "i < 512" and pT: "p @ [i] \<in> T" and entry: "\<not> is_valid (load64 (pmem s) (unat x + 8 * i))"
  obtains z ps' s1 where "ps = z # ps'" "new_zeroed s = Inr (z, s1)"
    "kgrow hs T k root (ps, s) (ps', set_pte (unat x + 8 * i) (write_perm z 0) s1)"
    "node (pmem (set_pte (unat x + 8 * i) (write_perm z 0) s1)) root (p @ [i]) = Some z"
    "\<And>q. path_ok q \<Longrightarrow> q \<noteq> p @ [i] \<Longrightarrow>
       node (pmem (set_pte (unat x + 8 * i) (write_perm z 0) s1)) root q = node (pmem s) root q"
proof -
  have ka: "ka_inv hs ps s" and wf: "wf_tree (pmem s) root" and giga: "no_giga (pmem s) root"
    and disj: "pt_pages (pmem s) root \<inter> set ps = {}" and sub: "nodes (pmem s) root \<subseteq> insert [] T"
    and fin: "finite T" and len: "card (T - nodes (pmem s) root) + k \<le> length ps"
    using inv by (simp_all add: kinv_def)
  have new: "p @ [i] \<notin> nodes (pmem s) root" using entry p(3) by (simp add: nodes_def node_append node.simps(2) is_table_def)
  then have "card (T - nodes (pmem s) root) \<noteq> 0" using pT fin by (auto simp: card_eq_0_iff)
  then obtain z ps' where ps: "ps = z # ps'" using len by (cases ps) auto
  obtain s1 where s1: "new_zeroed s = Inr (z, s1)" "ka_inv hs ps' s1" "heap_page hs z"
    "pmem s1 = fill_zero (pmem s) (unat z) 4096"
    using new_zeroed_cons [OF ka [unfolded ps]] by metis
  have z: "ram_page z" "z \<notin> pt_pages (pmem s) root" using s1(3) disj ps by auto
  have x: "x \<in> pt_pages (pmem s) root" by (rule pt_pagesI [OF p(1,3)])
  then have xr: "ram_page x" "x \<notin> set ps'" "x \<noteq> z" using wf_tree_ram [OF wf] disj z(2) ps by auto
  let ?s = "set_pte (unat x + 8 * i) (write_perm z 0) s1"
  have m: "pmem ?s = store64 (fill_zero (pmem s) (unat z) 4096) (unat x + 8 * i) (write_perm z 0)"
    by (simp add: set_pte_def s1(4))
  note tree = tree_add_table [OF wf p i entry z m] and add = pt_add_table [OF wf p i entry z m]
  have pi: "path_ok (p @ [i])" using p(1,2) i by (rule path_ok_snoc)
  have zps: "z \<notin> set ps'" using ka.free_distinct [OF ka] ps by simp
  have nodes: "nodes (pmem ?s) root = insert (p @ [i]) (nodes (pmem s) root)"
    using add(1) pi by (auto simp: nodes_def split: if_splits)
  have "T - nodes (pmem ?s) root = (T - nodes (pmem s) root) - {p @ [i]}" unfolding nodes by blast
  then have "card (T - nodes (pmem ?s) root) = card (T - nodes (pmem s) root) - 1"
    using new pT fin by (simp add: card_Diff_singleton)
  then have len': "card (T - nodes (pmem ?s) root) + k \<le> length ps'" using len ps \<open>card (T - nodes (pmem s) root) \<noteq> 0\<close> by simp
  have xm: "load64 (pmem ?s) (unat x + 8 * i) = write_perm z 0" by (simp add: m)
  have giga': "no_giga (pmem ?s) root"
    unfolding no_giga_def
  proof (intro allI impI)
    fix j :: nat assume "j < 512"
    then show "\<not> (is_valid (load64 (pmem ?s) (unat root + 8 * j)) \<and> is_leaf (load64 (pmem ?s) (unat root + 8 * j)))"
      using add(2) [of root j] giga xm by (cases "root = x \<and> j = i") (auto simp: no_giga_def)
  qed
  have hm: "hmap (pmem ?s) root w = hmap (pmem s) root w" for w
  proof -
    let ?h = "[vtop w]"
    show ?thesis
    proof (cases "?h = p @ [i]")
      case True
      have "node (pmem s) root ?h = None" using new pi True by (auto simp: nodes_def)
      moreover have "node (pmem ?s) root ?h = Some z" using add(1) [OF pi] True by simp
      ultimately show ?thesis using add(3) by (simp add: hmap_def)
    next
      case False
      then have n: "node (pmem ?s) root ?h = node (pmem s) root ?h" using add(1) [of ?h] by (simp add: False)
      show ?thesis
      proof (cases "node (pmem s) root ?h")
        case (Some y)
        then have "y \<in> pt_pages (pmem s) root" by (intro pt_pagesI [of ?h]) simp_all
        then have "y = x \<and> vmid w = i \<or>
            load64 (pmem ?s) (unat y + 8 * (vmid w)) = load64 (pmem s) (unat y + 8 * (vmid w))"
          using add(2) [of y "vmid w"] by auto
        then show ?thesis using Some n xm entry by (auto simp: hmap_def)
      qed (simp add: hmap_def n)
    qed
  qed
  have "haligned (pmem ?s) root" using inv hm by (simp add: kinv_def haligned_def)
  then have "kinv hs T k root ps' ?s"
    unfolding kinv_def
    using ka_inv_set_pte [OF s1(2) xr(1,2) i] tree(1,2) giga' disj sub fin len' pT nodes zps ps by auto
  moreover have "ktakes root (ps, s) (ps', ?s)" using tree(2) ps by (auto simp: ktakes_def)
  ultimately have "kgrow hs T k root (ps, s) (ps', ?s)" using tree(3) hm by (auto simp: kgrow_def)
  moreover have "node (pmem ?s) root (p @ [i]) = Some z" using add(1) [OF pi] by simp
  moreover have "node (pmem ?s) root q = node (pmem s) root q" if "path_ok q" "q \<noteq> p @ [i]" for q
    using add(1) [OF that(1)] that(2) by simp
  ultimately show thesis using that ps s1(1) by blast
qed

section \<open>Translation\<close>

lemma kwalk:
  assumes inv: "kinv hs T k root ps s" and p: "path_ok p" "length p < 2" "node (pmem s) root p = Some x"
    and pT: "p @ [unat (page_num va level)] \<in> T"
    and leaf: "\<not> (is_valid (load64 (pmem s) (unat x + 8 * unat (page_num va level))) \<and>
      is_leaf (load64 (pmem s) (unat x + 8 * unat (page_num va level))))"
  obtains ps' s' y where "translate_walk (level # ls) x va True s = translate_walk ls y va True s'"
    "kgrow hs T k root (ps, s) (ps', s')" "node (pmem s') root (p @ [unat (page_num va level)]) = Some y"
proof -
  let ?i = "unat (page_num va level)"
  let ?e = "load64 (pmem s) (unat x + 8 * ?i)"
  have refl: "kgrow hs T k root (ps, s) (ps, s)" using inv by (simp add: kgrow_def ktakes_refl)
  show thesis
  proof (cases "is_valid ?e")
    case True
    with leaf have "\<not> (is_read ?e \<or> is_write ?e \<or> is_execute ?e)" "\<not> is_leaf ?e" using is_leaf_rwx [of ?e] by auto
    with True p(3) refl show thesis
      by (intro that [of "as_pagetable ?e" s ps])
        (simp_all add: pte_at_def get_pte_def Let_def node_append node.simps(2) is_table_def)
  next
    case False
    from kinv_add [OF inv p page_num_lt pT False] obtain z ps' s1 where s1: "new_zeroed s = Inr (z, s1)"
      "kgrow hs T k root (ps, s) (ps', set_pte (unat x + 8 * ?i) (write_perm z 0) s1)"
      "node (pmem (set_pte (unat x + 8 * ?i) (write_perm z 0) s1)) root (p @ [?i]) = Some z" by metis
    show thesis
      by (rule that [OF _ s1(2,3)]) (use False s1(1) in \<open>simp_all add: pte_at_def get_pte_def Let_def\<close>)
  qed
qed

lemma page_num_idx:
  "unat (page_num va 2) = vtop (unat va div 4096)"
  "unat (page_num va 1) = vmid (unat va div 4096)"
  using page_num_vpath(1) [of va] by (simp_all add: vpath_eq)

lemma ktranslate:
  assumes inv: "kinv hs T k root ps s" and va: "va \<le> MAXVA" "v = unat va div 4096" "v < 2 ^ 27"
    and T: "[vtop v] \<in> T" "vpath v \<in> T" and h: "hmap (pmem s) root v = None"
  obtains ps' s' a where "translate root va True s = Inr (Some a, s')"
    "kgrow hs T k root (ps, s) (ps', s')" "pte_slot (pmem s') root v = Some a"
proof -
  let ?i2 = "unat (page_num va 2)" and ?i1 = "unat (page_num va 1)"
  have i: "?i2 = vtop v" "?i1 = vmid v" using page_num_idx va(2) by simp_all
  have w1: "path_ok []" "length [] < 2" "node (pmem s) root [] = Some root" by simp_all
  have g: "\<not> (is_valid (load64 (pmem s) (unat root + 8 * ?i2)) \<and> is_leaf (load64 (pmem s) (unat root + 8 * ?i2)))"
    using inv page_num_lt [of va 2] by (simp add: kinv_def no_giga_def)
  have T1: "[] @ [?i2] \<in> T" using T(1) i by simp
  obtain ps1 s1 y1 where 1: "translate_walk [2, 1] root va True s = translate_walk [1] y1 va True s1"
    "kgrow hs T k root (ps, s) (ps1, s1)" "node (pmem s1) root [?i2] = Some y1"
    by (rule kwalk [OF inv w1 T1 g, of "[1]", unfolded append_Nil])
  have inv1: "kinv hs T k root ps1 s1" using 1(2) by (simp add: kgrow_def)
  have "hmap (pmem s1) root v = None" using 1(2) h by (simp add: kgrow_def)
  then have l: "\<not> (is_valid (load64 (pmem s1) (unat y1 + 8 * ?i1)) \<and> is_leaf (load64 (pmem s1) (unat y1 + 8 * ?i1)))"
    using 1(3) va(3) unfolding i by (auto simp: hmap_def Let_def split: if_splits)
  have w2: "path_ok [?i2]" "length [?i2] < 2" using page_num_lt [of va 2] by simp_all
  have T2: "[?i2] @ [?i1] \<in> T" using T(2) unfolding i by (simp add: vpath_eq)
  obtain ps2 s2 y2 where 2: "translate_walk [1] y1 va True s1 = translate_walk [] y2 va True s2"
    "kgrow hs T k root (ps1, s1) (ps2, s2)" "node (pmem s2) root ([?i2] @ [?i1]) = Some y2"
    by (rule kwalk [OF inv1 w2 1(3) T2 l, of "[]"])
  have "pte_slot (pmem s2) root v = Some (pte_at y2 (page_num va 0))"
    using 2(3) unfolding va(2) pte_slot_def pte_at_def page_num_vpath(1) [symmetric] page_num_vpath(2) by simp
  moreover have "translate root va True s = Inr (Some (pte_at y2 (page_num va 0)), s2)"
    using va(1) 1(1) 2(1) by (simp add: translate_def)
  ultimately show thesis using that kgrow_trans [OF 1(2) 2(2)] by blast
qed

lemma ktranslate_huge:
  assumes inv: "kinv hs T k root ps s" and va: "va \<le> MAXVA" "v = unat va div 4096" "v < 2 ^ 27"
    and T: "[vtop v] \<in> T" "vpath v \<notin> T" and h: "hmap (pmem s) root v = None"
  obtains ps' s' x where "translate_huge root va True s = Inr (Some (unat x + 8 * (vmid v)), s')"
    "kgrow hs T k root (ps, s) (ps', s')" "node (pmem s') root [vtop v] = Some x"
    "\<not> is_valid (load64 (pmem s') (unat x + 8 * (vmid v)))"
proof -
  let ?i2 = "unat (page_num va 2)" and ?i1 = "unat (page_num va 1)"
  have i: "?i2 = vtop v" "?i1 = vmid v" using page_num_idx va(2) by simp_all
  have invalid: "\<not> is_valid (load64 (pmem s') (unat x + 8 * (vmid v)))"
    if "kgrow hs T k root (ps, s) (ps', s')" "node (pmem s') root [vtop v] = Some x" for ps' s' x
  proof -
    have "vpath v \<notin> nodes (pmem s') root" using that(1) T(2) by (auto simp: kgrow_def kinv_def vpath_eq)
    then have "node (pmem s') root (vpath v) = None" by (simp add: nodes_def)
    moreover have "hmap (pmem s') root v = None" using that(1) h by (simp add: kgrow_def)
    ultimately show ?thesis
      using that(2) va(3) by (auto simp: node_vpath hmap_def is_table_def Let_def split: if_splits)
  qed
  let ?e = "load64 (pmem s) (unat root + 8 * ?i2)"
  show thesis
  proof (cases "is_valid ?e")
    case True
    have "\<not> is_leaf ?e" using True inv page_num_lt [of va 2] by (simp add: kinv_def no_giga_def)
    then have n: "node (pmem s) root [vtop v] = Some (as_pagetable ?e)"
      using True unfolding i by (simp add: node.simps(2) is_table_def)
    have refl: "kgrow hs T k root (ps, s) (ps, s)" using inv by (simp add: kgrow_def ktakes_refl)
    show thesis
      by (rule that [OF _ refl n invalid [OF refl n]])
        (use va(1) True i(2) in \<open>simp add: translate_huge_def pte_at_def get_pte_def Let_def\<close>)
  next
    case False
    have T1: "[] @ [?i2] \<in> T" using T(1) i by simp
    have w1: "path_ok []" "length [] < 2" "node (pmem s) root [] = Some root" by simp_all
    from kinv_add [OF inv w1 page_num_lt T1 False] obtain z ps' s1 where s1: "new_zeroed s = Inr (z, s1)"
      "kgrow hs T k root (ps, s) (ps', set_pte (unat root + 8 * ?i2) (write_perm z 0) s1)"
      "node (pmem (set_pte (unat root + 8 * ?i2) (write_perm z 0) s1)) root ([] @ [?i2]) = Some z" by metis
    have n: "node (pmem (set_pte (unat root + 8 * ?i2) (write_perm z 0) s1)) root [vtop v] = Some z"
      using s1(3) i by simp
    show thesis
      by (rule that [OF _ s1(2) n invalid [OF s1(2) n]])
        (use va(1) False i(2) s1(1) in \<open>simp add: translate_huge_def pte_at_def get_pte_def Let_def\<close>)
  qed
qed

section \<open>Writing an entry\<close>

lemma kset_small:
  assumes inv: "kinv hs T k root ps s" and slot: "pte_slot (pmem s) root v = Some a" and v: "v < 2 ^ 27"
  shows "kinv hs T k root ps (set_pte a e s)" "ktakes root (ps, s) (ps, set_pte a e s)"
    "vmap (pmem (set_pte a e s)) root = (vmap (pmem s) root)(v := if is_valid e then Some e else None)"
    "hmap (pmem (set_pte a e s)) root = hmap (pmem s) root"
proof -
  have wf: "wf_tree (pmem s) root" and disj: "pt_pages (pmem s) root \<inter> set ps = {}" and ka: "ka_inv hs ps s"
    using inv by (simp_all add: kinv_def)
  obtain x where x: "node (pmem s) root (vpath v) = Some x" and a: "a = unat x + 8 * (v mod 512)"
    using slot by (auto simp: pte_slot_def)
  have xp: "x \<in> pt_pages (pmem s) root" by (rule pt_pagesI [OF _ x]) simp
  have m: "pmem (set_pte a e s) = store64 (pmem s) a e" by (simp add: set_pte_def)
  note leaf = tree_set_leaf [OF wf slot v m]
  have other: "load64 (pmem (set_pte a e s)) (unat y + 8 * j) = load64 (pmem s) (unat y + 8 * j)"
    if "path_ok q" "length q < 2" "node (pmem s) root q = Some y" "j < 512" for q y j
    using leaf(6) [OF that(1,3,4)] that(2) by (metis path_ok_simps(3) less_irrefl)
  show hm: "hmap (pmem (set_pte a e s)) root = hmap (pmem s) root"
  proof
    fix w
    show "hmap (pmem (set_pte a e s)) root w = hmap (pmem s) root w"
      using other [of "[vtop w]" _ "vmid w"] leaf(5) [of "[vtop w]"]
      by (cases "node (pmem s) root [vtop w]") (simp_all add: hmap_def)
  qed
  show "vmap (pmem (set_pte a e s)) root = (vmap (pmem s) root)(v := if is_valid e then Some e else None)"
    by (rule leaf)
  show "ktakes root (ps, s) (ps, set_pte a e s)" using leaf(2) by (auto simp: ktakes_def)
  have nodes: "nodes (pmem (set_pte a e s)) root = nodes (pmem s) root" using leaf(5) by (auto simp: nodes_def)
  have "ka_inv hs ps (set_pte a e s)"
    unfolding a using ka xp disj wf_tree_ram [OF wf xp] by (intro ka_inv_set_pte) auto
  moreover have "no_giga (pmem (set_pte a e s)) root"
    using inv other [of "[]" root] by (simp add: kinv_def no_giga_def)
  ultimately show "kinv hs T k root ps (set_pte a e s)"
    using inv leaf(1,2) nodes hm by (simp add: kinv_def haligned_def)
qed

lemma kset_huge:
  assumes inv: "kinv hs T k root ps s" and x: "node (pmem s) root [vtop v] = Some x" and v: "v < 2 ^ 27"
    and a: "a = unat x + 8 * (vmid v)" and entry: "\<not> is_valid (load64 (pmem s) a)" and e: "is_valid e" "is_leaf e" "is_hpage_aligned (as_pagetable e)"
  shows "kinv hs T k root ps (set_pte a e s)" "ktakes root (ps, s) (ps, set_pte a e s)"
    "vmap (pmem (set_pte a e s)) root = vmap (pmem s) root"
    "hmap (pmem (set_pte a e s)) root = (\<lambda>w. if w < 2 ^ 27 \<and> vpath w = vpath v then Some e else hmap (pmem s) root w)"
proof -
  let ?h = "[vtop v]" and ?i = "vmid v" and ?m = "pmem (set_pte a e s)"
  have wf: "wf_tree (pmem s) root" and disj: "pt_pages (pmem s) root \<inter> set ps = {}" and ka: "ka_inv hs ps s"
    using inv by (simp_all add: kinv_def)
  have xp: "x \<in> pt_pages (pmem s) root" by (rule pt_pagesI [OF _ x]) simp
  have xr: "ram_page x" "x \<notin> set ps" using wf_tree_ram [OF wf xp] disj xp by auto
  have m: "?m = store64 (pmem s) (unat x + 8 * ?i) e" by (simp add: set_pte_def a)
  have em: "load64 ?m (unat x + 8 * ?i) = e" by (simp add: m)
  have other: "load64 ?m (unat y + 8 * j) = load64 (pmem s) (unat y + 8 * j)"
    if "path_ok q" "node (pmem s) root q = Some y" "j < 512" "q \<noteq> ?h \<or> j \<noteq> ?i" for q y j
    unfolding m
  proof (rule ram_slot_disjoint [OF xr(1)])
    show "ram_page y" by (rule wf_tree_ram [OF wf pt_pagesI [OF that(1,2)]])
    show "x \<noteq> y \<or> ?i \<noteq> j" using that(2,4) wf_tree_inj [OF wf that(1) _ _ x] by auto
  qed (use that(3) in simp_all)
  have node: "node ?m root q = node (pmem s) root q" if q: "path_ok q" for q
  proof (cases "\<exists>r. q = ?h @ ?i # r")
    case False
    then show ?thesis unfolding m using node_store [OF wf _ x _ q] by simp
  next
    case True
    then obtain r where r: "q = ?h @ ?i # r" by blast
    have "node ?m root ?h = Some x" unfolding m using node_store [OF wf _ x, of ?i ?h e] x by simp
    then have "node ?m root q = None" using em e(2) unfolding r node_append by (simp add: node.simps(2) is_table_def)
    moreover have "node (pmem s) root q = None" using x entry a unfolding r node_append by (simp add: node.simps(2) is_table_def)
    ultimately show ?thesis by simp
  qed
  have pages: "pt_pages ?m root = pt_pages (pmem s) root" by (auto simp: pt_pages_def node)
  have nodes: "nodes ?m root = nodes (pmem s) root" using node by (auto simp: nodes_def)
  show "ktakes root (ps, s) (ps, set_pte a e s)" using pages by (auto simp: ktakes_def)
  show "vmap ?m root = vmap (pmem s) root"
  proof
    fix w
    show "vmap ?m root w = vmap (pmem s) root w"
      using other [OF path_ok_simps(2), of w _ "w mod 512"] node [OF path_ok_simps(2), of w]
      by (cases "node (pmem s) root (vpath w)") (simp_all add: vmap_def pte_slot_def vpath_eq)
  qed
  show hm: "hmap ?m root = (\<lambda>w. if w < 2 ^ 27 \<and> vpath w = vpath v then Some e else hmap (pmem s) root w)"
  proof
    fix w
    let ?g = "[vtop w]"
    show "hmap ?m root w = (if w < 2 ^ 27 \<and> vpath w = vpath v then Some e else hmap (pmem s) root w)"
    proof (cases "vpath w = vpath v")
      case True
      then have "vtop w = vtop v" "vmid w = ?i" by (simp_all add: vpath_eq)
      then show ?thesis using True node [of ?h] x em e by (simp add: hmap_def)
    next
      case False
      then have "?g \<noteq> ?h \<or> vmid w \<noteq> ?i" by (auto simp: vpath_eq)
      then show ?thesis
        using False other [of ?g _ "vmid w"] node [of ?g]
        by (cases "node (pmem s) root ?g") (auto simp: hmap_def)
    qed
  qed
  have "wf_tree ?m root" using wf by (simp add: wf_tree_def pages node cong: conj_cong imp_cong)
  moreover have "no_giga ?m root" using inv other [of "[]" root] by (simp add: kinv_def no_giga_def)
  moreover have "ka_inv hs ps (set_pte a e s)" unfolding a using ka xr by (intro ka_inv_set_pte) simp_all
  moreover have "haligned ?m root" using inv e(3) hm by (simp add: kinv_def haligned_def)
  ultimately show "kinv hs T k root ps (set_pte a e s)" using inv pages nodes by (simp add: kinv_def)
qed

section \<open>Mapping a range\<close>

definition map_krange ::
  "(nat \<Rightarrow> (usize \<times> usize) option) \<Rightarrow> nat \<Rightarrow> nat \<Rightarrow> usize \<Rightarrow> usize \<Rightarrow> nat \<Rightarrow> (usize \<times> usize) option" where
  "map_krange f v n pa fl w =
     (if v \<le> w \<and> w < v + n then Some (pa + of_nat (w - v) * PGSIZE, fl) else f w)"

lemma map_krange_0 [simp]: "map_krange f v 0 pa fl = f"
  by (auto simp: fun_eq_iff map_krange_def)

lemma map_krange_in: "v \<le> w \<Longrightarrow> w < v + n \<Longrightarrow> map_krange f v n pa fl w = Some (pa + of_nat (w - v) * PGSIZE, fl)"
  by (simp add: map_krange_def)

lemma map_krange_out: "w < v \<or> v + n \<le> w \<Longrightarrow> map_krange f v n pa fl w = f w"
  by (auto simp: map_krange_def)

lemma map_krange_split:
  "map_krange (map_krange f v a pa fl) (v + a) b (pa + of_nat a * PGSIZE) fl = map_krange f v (a + b) pa fl"
proof
  fix w
  have "pa + of_nat a * PGSIZE + of_nat (w - (v + a)) * PGSIZE = pa + of_nat (w - v) * PGSIZE" if "v + a \<le> w"
  proof -
    have "w - v = a + (w - (v + a))" using that by simp
    then have "(of_nat (w - v) :: usize) = of_nat a + of_nat (w - (v + a))" by (metis of_nat_add)
    then show ?thesis by (simp add: algebra_simps)
  qed
  then show "map_krange (map_krange f v a pa fl) (v + a) b (pa + of_nat a * PGSIZE) fl w = map_krange f v (a + b) pa fl w"
    by (cases "v + a \<le> w") (auto simp: map_krange_def)
qed

lemma kpage_None_iff:
  "haligned m root \<Longrightarrow> kpage m root v = None \<longleftrightarrow> vmap m root v = None \<and> hmap m root v = None"
  by (auto simp: kpage_def haligned_def split: option.splits)

lemma kpage_cong:
  "vmap m' root w = vmap m root w \<Longrightarrow> hmap m' root w = hmap m root w \<Longrightarrow> kpage m' root w = kpage m root w"
  by (simp only: kpage_def)

lemma hpage_aligned_unat: "is_hpage_aligned a \<longleftrightarrow> unat a mod 2 ^ 21 = 0"
proof -
  have "is_hpage_aligned a \<longleftrightarrow> unat (a mod HUGE_PGSIZE) = 0"
    by (simp add: is_hpage_aligned_def unat_eq_zero)
  then show ?thesis by (simp add: unat_mod)
qed

text \<open>The test for a large page at the start of the rest of the range.\<close>

lemma huge_test:
  assumes "unat va = 4096 * v" "unat lst = 4096 * (v + n)"
  shows "(if is_hpage_aligned va then bindR (sub_ck lst va) (\<lambda>d. Inr (d \<ge> HUGE_PGSIZE)) else Inr False) =
    Inr (v mod 512 = 0 \<and> 512 \<le> n)"
proof -
  have "va \<le> lst" using assms by (simp add: word_le_nat_alt)
  moreover from this have "unat (lst - va) = 4096 * n" using assms by (simp add: unat_sub)
  moreover have "4096 * v mod 2 ^ 21 = 4096 * (v mod 512)" by (simp add: mult_mod_right)
  ultimately show ?thesis
    using assms(1) by (auto simp: hpage_aligned_unat sub_ck_def word_le_nat_alt)
qed

lemma kpage_set_small:
  assumes "vmap m' root = (vmap m root)(v \<mapsto> write_perm pa perm)" "hmap m' root = hmap m root"
    and "is_page_aligned pa" "as_flags perm = perm"
  shows "kpage m' root = map_krange (kpage m root) v 1 pa (perm OR PTE_V)"
proof
  fix w
  show "kpage m' root w = map_krange (kpage m root) v 1 pa (perm OR PTE_V) w"
  proof (cases "w = v")
    case True
    then show ?thesis
      using as_pagetable_write_perm [OF assms(3,4)] as_flags_write_perm [OF assms(4), of pa] assms(1)
      by (simp add: kpage_def map_krange_in)
  next
    case False
    then have "w < v \<or> v + 1 \<le> w" by linarith
    moreover have "kpage m' root w = kpage m root w" using False assms(1,2) by (intro kpage_cong) simp_all
    ultimately show ?thesis by (simp add: map_krange_out)
  qed
qed

text \<open>A page of the block that starts at \<open>v\<close>.\<close>

lemma vpath_div: "u < 2 ^ 27 \<Longrightarrow> vpath u = [u div 512 div 512, u div 512 mod 512]"
proof -
  assume "u < 2 ^ 27"
  then have "u div 2 ^ 18 < 512" by (simp add: less_mult_imp_div_less)
  then show ?thesis by (simp add: vpath_def div_mult2_eq [symmetric])
qed

lemma vpath_block:
  assumes "v < 2 ^ 27" "v mod 512 = 0"
  shows "w < 2 ^ 27 \<and> vpath w = vpath v \<longleftrightarrow> v \<le> w \<and> w < v + 512"
proof -
  obtain b where b: "v = 512 * b" using assms(2) by (metis mod_0_imp_dvd dvdE)
  then have b': "b < 2 ^ 18" using assms(1) by simp
  have "w < 2 ^ 27 \<and> vpath w = vpath v \<longleftrightarrow> w < 2 ^ 27 \<and> w div 512 = b"
  proof -
    have "w div 512 div 512 = b div 512 \<and> w div 512 mod 512 = b mod 512 \<longleftrightarrow> w div 512 = b"
      by (metis div_mult_mod_eq)
    then show ?thesis using assms(1) b by (auto simp: vpath_div)
  qed
  also have "\<dots> \<longleftrightarrow> v \<le> w \<and> w < v + 512" using b b' by auto
  finally show ?thesis .
qed
lemma kpage_set_huge:
  assumes "vmap m' root = vmap m root"
    and "hmap m' root = (\<lambda>w. if w < 2 ^ 27 \<and> vpath w = vpath v then Some (write_perm pa perm) else hmap m root w)"
    and "is_hpage_aligned pa" "as_flags perm = perm" "v < 2 ^ 27" "v mod 512 = 0" "node m root (vpath v) = None"
  shows "kpage m' root = map_krange (kpage m root) v 512 pa (perm OR PTE_V)"
proof
  fix w
  have "4096 dvd unat pa"
    using assms(3) dvd_trans [of 4096 "2 ^ 21" "unat pa"] by (simp add: hpage_aligned_unat mod_eq_0_iff_dvd)
  then have "is_page_aligned pa" by (simp add: is_page_aligned_unat)
  note e = as_pagetable_write_perm [OF this assms(4)] as_flags_write_perm [OF assms(4), of pa]
  show "kpage m' root w = map_krange (kpage m root) v 512 pa (perm OR PTE_V) w"
  proof (cases "v \<le> w \<and> w < v + 512")
    case True
    then have w: "w < 2 ^ 27 \<and> vpath w = vpath v" using vpath_block [OF assms(5,6)] by simp
    obtain b where b: "v = 512 * b" using assms(6) by (metis mod_0_imp_dvd dvdE)
    have "w = w - v + 512 * b" using True b by simp
    then have "w mod 512 = (w - v) mod 512" by (metis mod_mult_self2)
    moreover have "w - v < 512" using True by linarith
    ultimately have "w mod 512 = w - v" by simp
    then show ?thesis
      using True w e assms(3,7) by (simp add: map_krange_in kpage_def assms(1,2) vmap_def pte_slot_def)
  next
    case False
    then have "\<not> (w < 2 ^ 27 \<and> vpath w = vpath v)" using vpath_block [OF assms(5,6)] by simp
    then have "hmap m' root w = hmap m root w" unfolding assms(2) by (rule if_not_P)
    moreover have "w < v \<or> v + 512 \<le> w" using False by linarith
    ultimately show ?thesis using kpage_cong [of m' root w m] by (simp add: map_krange_out assms(1))
  qed
qed

lemma kmap_huge:
  assumes inv: "kinv hs T k root ps s" and va: "unat va = 4096 * v" "unat lst = 4096 * (v + n)" "v + n \<le> 2 ^ 26"
    and n: "v mod 512 = 0" "512 \<le> n" and free: "kpage (pmem s) root v = None"
    and T: "[vtop v] \<in> T" "vpath v \<notin> T"
    and pa: "unat pa + 0x200000 < 2 ^ 64" "is_hpage_aligned pa" and perm: "as_flags perm = perm" "is_leaf perm"
  obtains ps' s' where
    "map_with_huge_loop root va lst pa perm s = map_with_huge_loop root (va + HUGE_PGSIZE) lst (pa + HUGE_PGSIZE) perm s'"
    "kinv hs T k root ps' s'" "ktakes root (ps, s) (ps', s')"
    "kpage (pmem s') root = map_krange (kpage (pmem s) root) v 512 pa (perm OR PTE_V)"
proof -
  have h: "hmap (pmem s) root v = None" using free inv by (simp add: kpage_None_iff kinv_def)
  have v: "va \<le> MAXVA" "v = unat va div 4096" "v < 2 ^ 27" using va n by (simp_all add: word_le_nat_alt)
  obtain ps1 s1 x where t: "translate_huge root va True s = Inr (Some (unat x + 8 * vmid v), s1)"
    "kgrow hs T k root (ps, s) (ps1, s1)" "node (pmem s1) root [vtop v] = Some x"
    "\<not> is_valid (load64 (pmem s1) (unat x + 8 * vmid v))"
    by (rule ktranslate_huge [OF inv v T h])
  have g: "kinv hs T k root ps1 s1" "ktakes root (ps, s) (ps1, s1)" "vmap (pmem s1) root = vmap (pmem s) root"
    "hmap (pmem s1) root = hmap (pmem s) root" using t(2) by (simp_all add: kgrow_def)
  have al: "is_hpage_aligned (as_pagetable (write_perm pa perm))"
  proof -
    have "is_page_aligned pa"
      using pa(2) dvd_trans [of 4096 "2 ^ 21" "unat pa"]
      by (simp add: is_page_aligned_unat hpage_aligned_unat mod_eq_0_iff_dvd)
    then show ?thesis using pa(2) perm(1) by (simp add: as_pagetable_write_perm)
  qed
  have leaf: "is_leaf (write_perm pa perm)" using perm(2) by simp
  let ?s = "set_pte (unat x + 8 * vmid v) (write_perm pa perm) s1"
  note set = kset_huge [OF g(1) t(3) v(3) refl t(4), of "write_perm pa perm", OF is_valid_write_perm leaf al]
  have none: "node (pmem s) root (vpath v) = None"
  proof (rule ccontr)
    assume "node (pmem s) root (vpath v) \<noteq> None"
    then have "vpath v \<in> nodes (pmem s) root" by (simp add: nodes_def)
    then show False using inv T(2) by (auto simp: kinv_def vpath_eq)
  qed
  have k: "kpage (pmem ?s) root = map_krange (kpage (pmem s) root) v 512 pa (perm OR PTE_V)"
    by (rule kpage_set_huge [OF _ _ pa(2) perm(1) v(3) n(1) none]) (simp_all only: set(3,4) g(3,4))
  have "va \<noteq> lst" using va(1,2) n(2) by auto
  moreover have "add_huge_page va = Inr (va + HUGE_PGSIZE)" "add_huge_page pa = Inr (pa + HUGE_PGSIZE)"
    using va pa(1) by (simp_all add: add_huge_page_def add_ck_def)
  ultimately have "map_with_huge_loop root va lst pa perm s =
      map_with_huge_loop root (va + HUGE_PGSIZE) lst (pa + HUGE_PGSIZE) perm ?s"
    using huge_test [OF va(1,2)] n t(1,4)
    by (subst map_with_huge_loop.simps) (simp add: get_pte_def)
  then show thesis using that set(1) ktakes_trans [OF g(2) set(2)] k by blast
qed

lemma kmap_small:
  assumes inv: "kinv hs T k root ps s" and va: "unat va = 4096 * v" "unat lst = 4096 * (v + n)" "v + n \<le> 2 ^ 26"
    and n: "0 < n" "\<not> (v mod 512 = 0 \<and> 512 \<le> n)" and free: "kpage (pmem s) root v = None"
    and T: "[vtop v] \<in> T" "vpath v \<in> T"
    and pa: "unat pa + 4096 < 2 ^ 64" "is_page_aligned pa" and perm: "as_flags perm = perm"
  obtains ps' s' where
    "map_with_huge_loop root va lst pa perm s = map_with_huge_loop root (va + PGSIZE) lst (pa + PGSIZE) perm s'"
    "kinv hs T k root ps' s'" "ktakes root (ps, s) (ps', s')"
    "kpage (pmem s') root = map_krange (kpage (pmem s) root) v 1 pa (perm OR PTE_V)"
proof -
  have vm: "vmap (pmem s) root v = None" "hmap (pmem s) root v = None"
    using free inv by (simp_all add: kpage_None_iff kinv_def)
  have v: "va \<le> MAXVA" "v = unat va div 4096" "v < 2 ^ 27" using va n(1) by (simp_all add: word_le_nat_alt)
  obtain ps1 s1 a where t: "translate root va True s = Inr (Some a, s1)"
    "kgrow hs T k root (ps, s) (ps1, s1)" "pte_slot (pmem s1) root v = Some a"
    by (rule ktranslate [OF inv v T vm(2)])
  have g: "kinv hs T k root ps1 s1" "ktakes root (ps, s) (ps1, s1)" "vmap (pmem s1) root = vmap (pmem s) root"
    "hmap (pmem s1) root = hmap (pmem s) root" using t(2) by (simp_all add: kgrow_def)
  have invalid: "\<not> is_valid (get_pte a s1)"
    using vm(1) t(3) v(3) by (auto simp: g(3) [symmetric] vmap_def get_pte_def split: if_splits)
  let ?s = "set_pte a (write_perm pa perm) s1"
  note set = kset_small [OF g(1) t(3) v(3), of "write_perm pa perm"]
  have k: "kpage (pmem ?s) root = map_krange (kpage (pmem s) root) v 1 pa (perm OR PTE_V)"
    by (rule kpage_set_small) (use set(3,4) g(3,4) pa(2) perm in simp_all)
  have "va \<noteq> lst" using va(1,2) n(1) by auto
  then have "map_with_huge_loop root va lst pa perm s = map_with_huge_loop root (va + PGSIZE) lst (pa + PGSIZE) perm ?s"
    using huge_test [OF va(1,2)] n(2) t(1) invalid add_page_unat [OF pa(1)] add_page_unat [of va] va(1,3)
    by (subst map_with_huge_loop.simps) simp
  then show thesis using that set(1) ktakes_trans [OF g(2) set(2)] k by blast
qed

text \<open>
  The whole range: blocks inside it become large pages, the pages before and after them small ones.
  The tables of the small pages are among \<open>T\<close>, and no table is where a large page goes.
\<close>

definition in_block :: "nat \<Rightarrow> nat \<Rightarrow> nat \<Rightarrow> bool" where
  "in_block v n w \<longleftrightarrow> v \<le> 512 * (w div 512) \<and> 512 * (w div 512) + 512 \<le> v + n"

definition range_ok :: "nat list set \<Rightarrow> nat \<Rightarrow> nat \<Rightarrow> usize \<Rightarrow> bool" where
  "range_ok T v n pa \<longleftrightarrow>
     (\<forall>w. v \<le> w \<and> w < v + n \<longrightarrow> [vtop w] \<in> T \<and>
        (if in_block v n w then vpath w \<notin> T \<and> unat pa mod 2 ^ 21 = 4096 * v mod 2 ^ 21 else vpath w \<in> T))"

lemma in_block_step:
  assumes "\<not> (v mod 512 = 0 \<and> 512 \<le> n)"
  shows "in_block (Suc v) (n - 1) w = in_block v n w"
proof -
  define b where "b = 512 * (w div 512)"
  have "v = b \<Longrightarrow> v mod 512 = 0" by (simp add: b_def)
  then have "Suc v \<le> b \<and> b + 512 \<le> Suc v + (n - 1) \<longleftrightarrow> v \<le> b \<and> b + 512 \<le> v + n"
    using assms by (cases "v = b") auto
  then show ?thesis by (simp add: in_block_def b_def)
qed

lemma in_block_huge:
  assumes "512 \<le> n" "v + 512 \<le> w" "v mod 512 = 0"
  shows "in_block (v + 512) (n - 512) w = in_block v n w"
proof -
  obtain b where b: "v = 512 * b" using assms(3) by (metis mod_0_imp_dvd dvdE)
  then have "b + 1 \<le> w div 512" using assms(2) by (simp add: less_eq_div_iff_mult_less_eq)
  then show ?thesis using assms(1) b by (auto simp: in_block_def)
qed

lemma in_block_first: "v mod 512 = 0 \<Longrightarrow> 512 \<le> n \<Longrightarrow> in_block v n v"
  using mult_div_mod_eq [of 512 v] by (simp add: in_block_def)

lemma in_block_first_small:
  assumes "\<not> (v mod 512 = 0 \<and> 512 \<le> n)"
  shows "\<not> in_block v n v"
proof
  assume "in_block v n v"
  then have "v = 512 * (v div 512)" "512 \<le> n" using mult_div_mod_eq [of 512 v] by (auto simp: in_block_def)
  then have "v mod 512 = 0" by (metis mod_mult_self1_is_0)
  with \<open>512 \<le> n\<close> assms show False by simp
qed

lemma range_okD:
  assumes "range_ok T v n pa" "v \<le> w" "w < v + n"
  shows "[vtop w] \<in> T" "in_block v n w \<Longrightarrow> vpath w \<notin> T"
    "in_block v n w \<Longrightarrow> unat pa mod 2 ^ 21 = 4096 * v mod 2 ^ 21" "\<not> in_block v n w \<Longrightarrow> vpath w \<in> T"
proof -
  have "[vtop w] \<in> T \<and> (if in_block v n w then vpath w \<notin> T \<and> unat pa mod 2 ^ 21 = 4096 * v mod 2 ^ 21 else vpath w \<in> T)"
    using assms unfolding range_ok_def by blast
  then show "[vtop w] \<in> T" "in_block v n w \<Longrightarrow> vpath w \<notin> T"
    "in_block v n w \<Longrightarrow> unat pa mod 2 ^ 21 = 4096 * v mod 2 ^ 21" "\<not> in_block v n w \<Longrightarrow> vpath w \<in> T"
    by (simp_all only: if_True if_False simp_thms)
qed

lemma range_ok_shift:
  assumes ok: "range_ok T v n pa" and n: "k \<le> n" and pa: "unat pa' = unat pa + 4096 * k"
    and same: "\<And>w. v + k \<le> w \<Longrightarrow> in_block (v + k) (n - k) w = in_block v n w"
  shows "range_ok T (v + k) (n - k) pa'"
  unfolding range_ok_def
proof (intro allI impI)
  fix w assume w: "v + k \<le> w \<and> w < v + k + (n - k)"
  then have w': "v \<le> w" "w < v + n" "v + k \<le> w" using n by simp_all
  have "unat pa mod 2 ^ 21 = 4096 * v mod 2 ^ 21 \<Longrightarrow> unat pa' mod 2 ^ 21 = 4096 * (v + k) mod 2 ^ 21"
    unfolding pa distrib_left by (rule mod_add_cong) simp_all
  with range_okD [OF ok w'(1,2)] show "[vtop w] \<in> T \<and> (if in_block (v + k) (n - k) w
      then vpath w \<notin> T \<and> unat pa' mod 2 ^ 21 = 4096 * (v + k) mod 2 ^ 21 else vpath w \<in> T)"
    unfolding same [OF w'(3)] by (cases "in_block v n w") simp_all
qed

lemma kmap_step:
  assumes inv: "kinv hs T k root ps s" and va: "unat va = 4096 * v" "unat lst = 4096 * (v + n)" "v + n \<le> 2 ^ 26"
    and pa: "unat pa + 4096 * n < 2 ^ 63" "is_page_aligned pa" and perm: "as_flags perm = perm" "is_leaf perm"
    and ok: "range_ok T v n pa" "kpage (pmem s) root v = None" "0 < n"
    and d: "k0 = (if v mod 512 = 0 \<and> 512 \<le> n then 512 else 1)"
    "by0 = (if v mod 512 = 0 \<and> 512 \<le> n then HUGE_PGSIZE else PGSIZE)"
  shows "\<exists>ps1 s1. map_with_huge_loop root va lst pa perm s = map_with_huge_loop root (va + by0) lst (pa + by0) perm s1 \<and>
    kinv hs T k root ps1 s1 \<and> ktakes root (ps, s) (ps1, s1) \<and>
    kpage (pmem s1) root = map_krange (kpage (pmem s) root) v k0 pa (perm OR PTE_V)"
proof (cases "v mod 512 = 0 \<and> 512 \<le> n")
  case True
  then have h: "v mod 512 = 0" "512 \<le> n" "in_block v n v" using in_block_first by simp_all
  have v: "v \<le> v" "v < v + n" using ok(3) by simp_all
  note r = range_okD [OF ok(1) v]
  have "4096 * v mod 2 ^ 21 = 4096 * (v mod 512)" by (simp add: mult_mod_right)
  then have al: "is_hpage_aligned pa" using r(3) [OF h(3)] h(1) by (simp add: hpage_aligned_unat)
  have pb: "unat pa + 0x200000 < 2 ^ 64" using pa(1) h(2) by simp
  show ?thesis
    using kmap_huge [OF inv va h(1,2) ok(2) r(1) r(2) [OF h(3)] pb al perm] d True by (metis (no_types, lifting))
next
  case False
  have v: "v \<le> v" "v < v + n" using ok(3) by simp_all
  note r = range_okD [OF ok(1) v]
  have pb: "unat pa + 4096 < 2 ^ 64" using pa(1) ok(3) by (cases n) simp_all
  show ?thesis
    using kmap_small [OF inv va ok(3) False ok(2) r(1) r(4) [OF in_block_first_small [OF False]] pb pa(2) perm(1)] d False
    by (metis (no_types, lifting))
qed

lemma kmap_range:
  assumes "kinv hs T k root ps s" "unat va = 4096 * v" "unat lst = 4096 * (v + n)" "v + n \<le> 2 ^ 26"
    and "unat pa + 4096 * n < 2 ^ 63" "is_page_aligned pa" "as_flags perm = perm" "is_leaf perm"
    and "range_ok T v n pa" "\<And>w. v \<le> w \<Longrightarrow> w < v + n \<Longrightarrow> kpage (pmem s) root w = None"
  shows "\<exists>ps' s'. map_with_huge_loop root va lst pa perm s = Inr (True, s') \<and> kinv hs T k root ps' s' \<and>
    ktakes root (ps, s) (ps', s') \<and> kpage (pmem s') root = map_krange (kpage (pmem s) root) v n pa (perm OR PTE_V)"
  using assms
proof (induction n arbitrary: ps s va v pa rule: less_induct)
  case (less n)
  show ?case
  proof (cases "n = 0")
    case True
    then have "va = lst" using less.prems(2,3) by (simp add: word_unat_eq_iff)
    then have "map_with_huge_loop root va lst pa perm s = Inr (True, s)" by (subst map_with_huge_loop.simps) simp
    then show ?thesis using True less.prems(1) ktakes_refl by (intro exI [of _ ps] exI [of _ s]) simp
  next
    case False
    define k0 where "k0 = (if v mod 512 = 0 \<and> 512 \<le> n then 512 else 1 :: nat)"
    define by0 where "by0 = (if v mod 512 = 0 \<and> 512 \<le> n then HUGE_PGSIZE else PGSIZE)"
    have k0: "0 < k0" "k0 \<le> n" "unat by0 = 4096 * k0" "of_nat k0 * PGSIZE = by0"
      using False by (auto simp: k0_def by0_def PGSIZE_def HUGE_PGSIZE_def)
    have "\<exists>ps1 s1. map_with_huge_loop root va lst pa perm s = map_with_huge_loop root (va + by0) lst (pa + by0) perm s1 \<and>
        kinv hs T k root ps1 s1 \<and> ktakes root (ps, s) (ps1, s1) \<and>
        kpage (pmem s1) root = map_krange (kpage (pmem s) root) v k0 pa (perm OR PTE_V)"
      by (rule kmap_step [OF less.prems(1-9) _ _ k0_def by0_def]) (use False less.prems(10) in simp_all)
    then obtain ps1 s1 where 1: "map_with_huge_loop root va lst pa perm s = map_with_huge_loop root (va + by0) lst (pa + by0) perm s1"
      "kinv hs T k root ps1 s1" "ktakes root (ps, s) (ps1, s1)"
      "kpage (pmem s1) root = map_krange (kpage (pmem s) root) v k0 pa (perm OR PTE_V)" by blast
    have va': "unat (va + by0) = 4096 * (v + k0)" and pa': "unat (pa + by0) = unat pa + 4096 * k0"
      using less.prems(2,4,5) k0 by (simp_all add: unat_word_ariths)
    have "\<exists>ps' s'. map_with_huge_loop root (va + by0) lst (pa + by0) perm s1 = Inr (True, s') \<and> kinv hs T k root ps' s' \<and>
        ktakes root (ps1, s1) (ps', s') \<and>
        kpage (pmem s') root = map_krange (kpage (pmem s1) root) (v + k0) (n - k0) (pa + by0) (perm OR PTE_V)"
    proof (rule less.IH [OF _ 1(2) va'])
      show "n - k0 < n" "unat lst = 4096 * (v + k0 + (n - k0))" "v + k0 + (n - k0) \<le> 2 ^ 26"
        "unat (pa + by0) + 4096 * (n - k0) < 2 ^ 63" using k0 less.prems(3,4,5) pa' by simp_all
      show "is_page_aligned (pa + by0)" using less.prems(6) pa' by (simp add: is_page_aligned_unat)
      show "as_flags perm = perm" "is_leaf perm" by (rule less.prems)+
      show "range_ok T (v + k0) (n - k0) (pa + by0)"
        by (rule range_ok_shift [OF less.prems(9) k0(2) pa'])
          (auto simp: k0_def in_block_huge in_block_step [of v n, simplified])
      show "kpage (pmem s1) root w = None" if "v + k0 \<le> w" "w < v + k0 + (n - k0)" for w
        using that less.prems(10) [of w] k0 1(4) by (simp add: map_krange_out)
    qed
    then obtain ps' s' where 2: "map_with_huge_loop root (va + by0) lst (pa + by0) perm s1 = Inr (True, s')"
      "kinv hs T k root ps' s'" "ktakes root (ps1, s1) (ps', s')"
      "kpage (pmem s') root = map_krange (kpage (pmem s1) root) (v + k0) (n - k0) (pa + by0) (perm OR PTE_V)" by blast
    have "kpage (pmem s') root = map_krange (kpage (pmem s) root) v n pa (perm OR PTE_V)"
      using 2(4) 1(4) map_krange_split [of "kpage (pmem s) root" v k0 pa "perm OR PTE_V" "n - k0"] k0 by simp
    then show ?thesis using 1(1,3) 2(1-3) ktakes_trans by (metis (no_types))
  qed
qed

end
