(* ===== verification/Rx_Kspace.thy ===== *)
theory Rx_Kspace
  imports Rx_Kmap
begin

text \<open>
  The kernel map of \<^verbatim>\<open>memory/mapping/kernel_map.rs\<close> as it is built at boot: the regions of devices and
  memory, the trampoline and the kernel stacks of \<^verbatim>\<open>ProcManager::proc_mapstacks\<close>.
\<close>

section \<open>Kernel stacks\<close>

lemma stack_bounds: "unat TRAPFRAME = 2 ^ 38 - 8192" "unat STACK_SIZE = 65536" "unat PGSIZE = 4096"
  by (simp_all add: layout_defs)

lemma kernel_stack_value:
  assumes "i < NPROC"
  shows "\<exists>a. kernel_stack (of_nat i) = Inr a \<and> unat a = 2 ^ 38 - 8192 - (i + 1) * 69632"
proof -
  let ?n = "(i + 1) * 69632"
  have n: "?n \<le> 64 * 69632" using assms by (simp add: NPROC_def)
  have i: "unat (of_nat i :: usize) = i" using assms by (simp add: NPROC_def unat_of_nat)
  have u: "unat (of_nat ?n :: usize) = ?n" using n by (simp add: unat_of_nat del: of_nat_mult of_nat_add)
  have le: "(of_nat ?n :: usize) \<le> TRAPFRAME" using n by (simp only: word_le_nat_alt u stack_bounds) simp
  have "kernel_stack (of_nat i) = Inr (TRAPFRAME - of_nat ?n)"
    using n le by (simp only: kernel_stack_def i stack_bounds sub_ck_def Let_def) simp
  moreover have "unat (TRAPFRAME - of_nat ?n) = 2 ^ 38 - 8192 - ?n"
    using le by (simp only: unat_sub u stack_bounds)
  ultimately show ?thesis by blast
qed

section \<open>One region\<close>

text \<open>The pages of a region, and what makes it fit for \<^verbatim>\<open>kernel_map\<close>.\<close>

type_synonym region = "usize \<times> usize \<times> usize outcome \<times> usize"

fun reg_v :: "region \<Rightarrow> nat" where
  "reg_v (va, pa, sz, perm) = unat va div 4096"

fun reg_n :: "region \<Rightarrow> nat" where
  "reg_n (va, pa, sz, perm) = (case sz of Inl _ \<Rightarrow> 0 | Inr n \<Rightarrow> unat n div 4096)"

fun reg_map :: "region \<Rightarrow> (nat \<Rightarrow> (usize \<times> usize) option) \<Rightarrow> nat \<Rightarrow> (usize \<times> usize) option" where
  "reg_map (va, pa, sz, perm) f = map_krange f (reg_v (va, pa, sz, perm)) (reg_n (va, pa, sz, perm)) pa (perm OR PTE_V)"

fun reg_ok :: "nat list set \<Rightarrow> region \<Rightarrow> bool" where
  "reg_ok T (va, pa, sz, perm) \<longleftrightarrow>
     (\<exists>n. sz = Inr n \<and> unat n mod 4096 = 0) \<and> unat va mod 4096 = 0 \<and>
     reg_v (va, pa, sz, perm) + reg_n (va, pa, sz, perm) \<le> 2 ^ 26 \<and>
     unat pa + 4096 * reg_n (va, pa, sz, perm) < 2 ^ 63 \<and> is_page_aligned pa \<and>
     as_flags perm = perm \<and> is_leaf perm \<and>
     range_ok T (reg_v (va, pa, sz, perm)) (reg_n (va, pa, sz, perm)) pa"

definition reg_has :: "region \<Rightarrow> nat \<Rightarrow> bool" where
  "reg_has r w \<longleftrightarrow> reg_v r \<le> w \<and> w < reg_v r + reg_n r"

lemma reg_map_out: "\<not> reg_has r w \<Longrightarrow> reg_map r f w = f w"
  by (cases r) (auto simp: reg_has_def intro: map_krange_out)

lemma kernel_map_region_ok:
  assumes inv: "kinv hs T k root ps s" and ok: "reg_ok T r"
    and free: "\<And>w. reg_has r w \<Longrightarrow> kpage (pmem s) root w = None"
  shows "\<exists>ps' s'. kernel_map_region root r s = Inr s' \<and> kinv hs T k root ps' s' \<and>
    ktakes root (ps, s) (ps', s') \<and> kpage (pmem s') root = reg_map r (kpage (pmem s) root)"
proof -
  obtain va pa n perm where r: "r = (va, pa, Inr n, perm)" and n: "unat n mod 4096 = 0" "unat va mod 4096 = 0"
    using ok by (cases r) auto
  define v c where "v = unat va div 4096" and "c = unat n div 4096"
  have u: "unat va = 4096 * v" "unat n = 4096 * c" using n by (auto simp: v_def c_def)
  have h: "v + c \<le> 2 ^ 26" "unat pa + 4096 * c < 2 ^ 63" "is_page_aligned pa" "as_flags perm = perm" "is_leaf perm"
    "range_ok T v c pa" using ok by (simp_all add: r v_def c_def)
  have e: "add_ck va n = Inr (va + n)" "unat (va + n) = 4096 * (v + c)"
    using u h(1) by (simp_all add: add_ck_def unat_word_ariths)
  obtain lst where lst: "pg_round_up (va + n) = Inr lst" using e(2) h(1) by (simp add: pg_round_up_eq)
  have l: "unat lst = 4096 * (v + c)" using unat_pg_round_up [OF lst] unfolding e(2) by (simp del: distrib_left_numeral) simp
  have d: "unat (pg_round_down va) = 4096 * v" using u by simp
  have "\<exists>ps' s'. map_with_huge_loop root (pg_round_down va) lst pa perm s = Inr (True, s') \<and> kinv hs T k root ps' s' \<and>
    ktakes root (ps, s) (ps', s') \<and> kpage (pmem s') root = map_krange (kpage (pmem s) root) v c pa (perm OR PTE_V)"
    by (rule kmap_range [OF inv d l h]) (use free in \<open>simp add: reg_has_def r v_def c_def\<close>)
  then show ?thesis
    by (auto simp: r kernel_map_region_def pt_kernel_map_def map_with_huge_def e lst v_def c_def)
qed

lemma kernel_map_regions_ok:
  assumes "kinv hs T k root ps s" "list_all (reg_ok T) rs"
    and "sorted_wrt (\<lambda>r r'. \<forall>w. \<not> (reg_has r w \<and> reg_has r' w)) rs"
    and "\<And>r w. r \<in> set rs \<Longrightarrow> reg_has r w \<Longrightarrow> kpage (pmem s) root w = None"
  shows "\<exists>ps' s'. foldR (kernel_map_region root) rs s = Inr s' \<and> kinv hs T k root ps' s' \<and>
    ktakes root (ps, s) (ps', s') \<and> kpage (pmem s') root = fold reg_map rs (kpage (pmem s) root)"
  using assms
proof (induction rs arbitrary: ps s)
  case Nil
  then show ?case using ktakes_refl by auto
next
  case (Cons r rs)
  obtain ps1 s1 where 1: "kernel_map_region root r s = Inr s1" "kinv hs T k root ps1 s1" "ktakes root (ps, s) (ps1, s1)"
    "kpage (pmem s1) root = reg_map r (kpage (pmem s) root)"
    using kernel_map_region_ok [OF Cons.prems(1), of r] Cons.prems(2) Cons.prems(4) [of r] by auto
  have "kpage (pmem s1) root w = None" if "r' \<in> set rs" "reg_has r' w" for r' w
  proof -
    have "\<not> reg_has r w" using Cons.prems(3) that by auto
    then show ?thesis using Cons.prems(4) [of r' w] that by (simp add: 1(4) reg_map_out)
  qed
  then obtain ps2 s2 where 2: "foldR (kernel_map_region root) rs s1 = Inr s2" "kinv hs T k root ps2 s2"
    "ktakes root (ps1, s1) (ps2, s2)" "kpage (pmem s2) root = fold reg_map rs (kpage (pmem s1) root)"
    using Cons.IH [OF 1(2)] Cons.prems(2,3) by auto
  then show ?case using 1 ktakes_trans [OF 1(3) 2(3)] by auto
qed

section \<open>The kernel stacks\<close>

text \<open>Page \<open>j\<close> of the stack of process \<open>i\<close>.\<close>

fun spage :: "nat \<times> nat \<Rightarrow> nat" where
  "spage (i, j) = 67108862 - 17 * (i + 1) + j"

declare spage.simps [simp del]

lemma spage_inj:
  assumes "i < 64" "j < 16" "i' < 64" "j' < 16" "spage (i, j) = spage (i', j')"
  shows "i = i' \<and> j = j'"
  using assms by (cases "i < i'"; cases "i' < i") (auto simp: spage.simps)

definition stack_tables :: "nat list set \<Rightarrow> bool" where
  "stack_tables T \<longleftrightarrow> [255] \<in> T \<and> [255, 509] \<in> T \<and> [255, 510] \<in> T \<and> [255, 511] \<in> T"

lemma spage_path:
  assumes "stack_tables T" "i < 64" "j < 16"
  shows "[vtop (spage (i, j))] \<in> T" "vpath (spage (i, j)) \<in> T"
proof -
  let ?v = "spage (i, j)"
  have v: "67107774 \<le> ?v" "?v < 67108864" using assms(2,3) by (auto simp: spage.simps)
  then have "131069 \<le> ?v div 512" "?v div 512 < 131072" by (simp_all add: less_eq_div_iff_mult_less_eq less_mult_imp_div_less)
  then consider "?v div 512 = 131069" | "?v div 512 = 131070" | "?v div 512 = 131071" by linarith
  then have "vpath ?v \<in> {[255, 509], [255, 510], [255, 511]}"
    using v(2) by cases (simp_all add: vpath_div)
  then show "[vtop ?v] \<in> T" "vpath ?v \<in> T" using assms(1) by (auto simp: stack_tables_def vpath_eq)
qed

text \<open>Taking a free page for a stack leaves the tables alone.\<close>

lemma kinv_pop:
  assumes inv: "kinv hs T (Suc k) root ps s"
  obtains z ps' s1 where "ps = z # ps'" "new_zeroed s = Inr (z, s1)" "kinv hs T k root ps' s1" "heap_page hs z"
    "z \<notin> set ps'" "z \<notin> pt_pages (pmem s1) root" "pt_pages (pmem s1) root = pt_pages (pmem s) root"
    "kpage (pmem s1) root = kpage (pmem s) root"
proof -
  have ka: "ka_inv hs ps s" and wf: "wf_tree (pmem s) root" and disj: "pt_pages (pmem s) root \<inter> set ps = {}"
    using inv by (simp_all add: kinv_def)
  obtain z ps' where ps: "ps = z # ps'" using inv by (cases ps) (auto simp: kinv_def)
  obtain s1 where s1: "new_zeroed s = Inr (z, s1)" "ka_inv hs ps' s1" "heap_page hs z"
    "pmem s1 = fill_zero (pmem s) (unat z) 4096"
    using new_zeroed_cons [OF ka [unfolded ps]] by metis
  have same: "pt_same (pmem s) (pmem s1) root"
  proof (rule pt_sameI)
    fix y assume y: "y \<in> pt_pages (pmem s) root"
    then have "y \<noteq> z" using disj ps by auto
    then show "load_bytes (pmem s1) (unat y) 4096 = load_bytes (pmem s) (unat y) 4096"
      unfolding s1(4) using ram_page_disjoint [OF wf_tree_ram [OF wf y] heap_ram [OF s1(3)]]
      by (intro load_bytes_fill_zero_disjoint) simp
  qed
  have node: "path_ok p \<Longrightarrow> node (pmem s1) root p = node (pmem s) root p" for p by (rule pt_same_node [OF same])
  have pages: "pt_pages (pmem s1) root = pt_pages (pmem s) root" by (rule pt_same_pages [OF same])
  have nodes: "nodes (pmem s1) root = nodes (pmem s) root" using node by (auto simp: nodes_def)
  have vm: "vmap (pmem s1) root = vmap (pmem s) root" by (rule pt_same_vmap [OF same])
  have hm: "hmap (pmem s1) root w = hmap (pmem s) root w" for w
    using node [of "[vtop w]"] pt_sameD [OF same, of "[vtop w]" _ "vmid w"]
    by (cases "node (pmem s) root [vtop w]") (simp_all add: hmap_def)
  have "no_giga (pmem s1) root" using inv pt_sameD [OF same, of "[]" root] by (simp add: kinv_def no_giga_def)
  moreover have "haligned (pmem s1) root" using inv hm by (simp add: kinv_def haligned_def)
  ultimately have k: "kinv hs T k root ps' s1"
    using inv s1(2) pt_same_tree [OF same wf] pages nodes ps by (auto simp: kinv_def)
  have kp: "kpage (pmem s1) root = kpage (pmem s) root"
    using kpage_cong [of "pmem s1" root _ "pmem s"] vm hm by (simp add: fun_eq_iff)
  show thesis
    by (rule that [OF ps s1(1) k s1(3) _ _ pages kp]) (use ka.free_distinct [OF ka] disj ps pages in auto)
qed

lemma range_ok_page: "[vtop v] \<in> T \<Longrightarrow> vpath v \<in> T \<Longrightarrow> range_ok T v 1 pa"
  by (auto simp: range_ok_def in_block_def less_Suc_eq_le)

lemma map_stack_page_ok:
  assumes inv: "kinv hs T (Suc k) root ps s" and T: "stack_tables T" and ij: "i < 64" "j < 16"
    and free: "kpage (pmem s) root (spage (i, j)) = None"
  shows "\<exists>z ps' s'. map_stack_page root (i, j) s = Inr s' \<and> kinv hs T k root ps' s' \<and>
    z \<in> set ps \<and> z \<notin> set ps' \<and> z \<notin> pt_pages (pmem s') root \<and> ktakes root (ps, s) (ps', s') \<and>
    kpage (pmem s') root = (kpage (pmem s) root)(spage (i, j) \<mapsto> (z, PTE_R OR PTE_W OR PTE_V))"
proof -
  obtain z ps1 s1 where z: "ps = z # ps1" "new_zeroed s = Inr (z, s1)" "kinv hs T k root ps1 s1" "heap_page hs z"
    "z \<notin> set ps1" "z \<notin> pt_pages (pmem s1) root" "pt_pages (pmem s1) root = pt_pages (pmem s) root"
    "kpage (pmem s1) root = kpage (pmem s) root"
    by (rule kinv_pop [OF inv])
  obtain a where a: "kernel_stack (of_nat i) = Inr a" "unat a = 2 ^ 38 - 8192 - (i + 1) * 69632"
    using kernel_stack_value [of i] ij(1) by (auto simp: NPROC_def)
  have b: "(i + 1) * 69632 \<le> 64 * 69632" using ij(1) by simp
  have o: "unat (of_nat j * PGSIZE) = 4096 * j" using ij(2) by (simp add: unat_word_ariths unat_of_nat)
  have v: "add_ck a (of_nat j * PGSIZE) = Inr (a + of_nat j * PGSIZE)"
    "unat (a + of_nat j * PGSIZE) = 4096 * spage (i, j)"
    using a(2) b o ij by (simp_all add: add_ck_def unat_word_ariths spage.simps)
  let ?r = "(a + of_nat j * PGSIZE, z, Inr PGSIZE, PTE_R OR PTE_W) :: region"
  have rv: "reg_v ?r = spage (i, j)" "reg_n ?r = 1" using v(2) by simp_all
  have zr: "ram_page z" using z(4) by simp
  have perm: "as_flags (PTE_R OR PTE_W) = PTE_R OR PTE_W" "is_leaf (PTE_R OR PTE_W)"
    by (simp_all add: as_flags_def is_leaf_def pte_flag_defs)
  have "spage (i, j) < 67108864" using ij by (simp add: spage.simps)
  then have ok: "reg_ok T ?r"
    using range_ok_page [OF spage_path [OF T ij], of z] v(2) zr perm rv
    by (simp add: is_page_aligned_unat ram_page_def del: reg_v.simps reg_n.simps)
  have "\<exists>ps' s'. kernel_map_region root ?r s1 = Inr s' \<and> kinv hs T k root ps' s' \<and>
    ktakes root (ps1, s1) (ps', s') \<and> kpage (pmem s') root = reg_map ?r (kpage (pmem s1) root)"
  proof (rule kernel_map_region_ok [OF z(3) ok])
    fix w assume "reg_has ?r w"
    then have "w = spage (i, j)" unfolding reg_has_def rv by simp
    then show "kpage (pmem s1) root w = None" using free z(8) by simp
  qed
  then obtain ps' s' where s': "kernel_map_region root ?r s1 = Inr s'" "kinv hs T k root ps' s'"
    "ktakes root (ps1, s1) (ps', s')" "kpage (pmem s') root = reg_map ?r (kpage (pmem s1) root)" by blast
  have "reg_map ?r f = f(spage (i, j) \<mapsto> (z, PTE_R OR PTE_W OR PTE_V))" for f
    unfolding reg_map.simps rv by (auto simp: map_krange_def fun_eq_iff or.assoc)
  moreover have "map_stack_page root (i, j) s = Inr s'"
    using z(2) a(1) v(1) s'(1) by (simp add: map_stack_page_def kernel_map_region_def)
  moreover have "z \<notin> set ps'" "z \<notin> pt_pages (pmem s') root" "ktakes root (ps, s) (ps', s')"
    using s'(3) z(1,5,6,7) by (auto simp: ktakes_def)
  ultimately show ?thesis using s'(2,4) z(1,8) by auto
qed

lemma map_stacks_ok:
  assumes "kinv hs T (length ijs + k) root ps s" "stack_tables T"
    and "\<And>i j. (i, j) \<in> set ijs \<Longrightarrow> i < 64 \<and> j < 16 \<and> kpage (pmem s) root (spage (i, j)) = None" "distinct ijs"
  shows "\<exists>f ps' s'. foldR (map_stack_page root) ijs s = Inr s' \<and> kinv hs T k root ps' s' \<and> ktakes root (ps, s) (ps', s') \<and>
    kpage (pmem s') root = (\<lambda>v. if v \<in> spage ` set ijs then Some (f v, PTE_R OR PTE_W OR PTE_V) else kpage (pmem s) root v) \<and>
    inj_on f (spage ` set ijs) \<and>
    (\<forall>v\<in>spage ` set ijs. f v \<in> set ps \<and> f v \<notin> set ps' \<and> f v \<notin> pt_pages (pmem s') root)"
  using assms
proof (induction ijs arbitrary: ps s)
  case Nil
  then show ?case using ktakes_refl by auto
next
  case (Cons x ijs)
  obtain i j where x: "x = (i, j)" by (cases x)
  have ij: "i < 64" "j < 16" and free: "kpage (pmem s) root (spage (i, j)) = None" using Cons.prems(3) [of i j] x by auto
  have inv: "kinv hs T (Suc (length ijs + k)) root ps s" using Cons.prems(1) by simp
  obtain z ps1 s1 where 1: "map_stack_page root (i, j) s = Inr s1" "kinv hs T (length ijs + k) root ps1 s1"
    "z \<in> set ps" "z \<notin> set ps1" "z \<notin> pt_pages (pmem s1) root" "ktakes root (ps, s) (ps1, s1)"
    "kpage (pmem s1) root = (kpage (pmem s) root)(spage (i, j) \<mapsto> (z, PTE_R OR PTE_W OR PTE_V))"
    using map_stack_page_ok [OF inv Cons.prems(2) ij free] by blast
  have ne: "spage (i', j') \<noteq> spage (i, j)" if "(i', j') \<in> set ijs" for i' j'
    using spage_inj [of i' j' i j] that Cons.prems(3) [of i' j'] Cons.prems(4) ij x by auto
  then have out: "spage (i, j) \<notin> spage ` set ijs" by (metis imageE surj_pair)
  have "\<exists>f ps' s'. foldR (map_stack_page root) ijs s1 = Inr s' \<and> kinv hs T k root ps' s' \<and> ktakes root (ps1, s1) (ps', s') \<and>
    kpage (pmem s') root = (\<lambda>v. if v \<in> spage ` set ijs then Some (f v, PTE_R OR PTE_W OR PTE_V) else kpage (pmem s1) root v) \<and>
    inj_on f (spage ` set ijs) \<and>
    (\<forall>v\<in>spage ` set ijs. f v \<in> set ps1 \<and> f v \<notin> set ps' \<and> f v \<notin> pt_pages (pmem s') root)"
  proof (rule Cons.IH [OF 1(2) Cons.prems(2)])
    show "i' < 64 \<and> j' < 16 \<and> kpage (pmem s1) root (spage (i', j')) = None" if "(i', j') \<in> set ijs" for i' j'
      using Cons.prems(3) [of i' j'] ne [OF that] that 1(7) by simp
  qed (use Cons.prems(4) in simp)
  then obtain f ps' s' where 2: "foldR (map_stack_page root) ijs s1 = Inr s'" "kinv hs T k root ps' s'"
    "ktakes root (ps1, s1) (ps', s')"
    "kpage (pmem s') root = (\<lambda>v. if v \<in> spage ` set ijs then Some (f v, PTE_R OR PTE_W OR PTE_V) else kpage (pmem s1) root v)"
    "inj_on f (spage ` set ijs)"
    "\<forall>v\<in>spage ` set ijs. f v \<in> set ps1 \<and> f v \<notin> set ps' \<and> f v \<notin> pt_pages (pmem s') root" by blast
  let ?f = "f(spage (i, j) := z)"
  have old: "?f v = f v" if "v \<in> spage ` set ijs" for v using that out by (metis fun_upd_apply)
  have z: "z \<notin> set ps'" "z \<notin> pt_pages (pmem s') root" using 1(4,5) 2(3) by (auto simp: ktakes_def)
  have all: "spage ` set (x # ijs) = insert (spage (i, j)) (spage ` set ijs)" by (simp add: x)
  have "z \<notin> f ` spage ` set ijs" using 2(6) 1(4) by blast
  then have "inj_on ?f (spage ` set (x # ijs))"
    unfolding all inj_on_insert using 2(5) out old by (simp add: inj_on_fun_updI)
  moreover have "kpage (pmem s') root =
      (\<lambda>v. if v \<in> spage ` set (x # ijs) then Some (?f v, PTE_R OR PTE_W OR PTE_V) else kpage (pmem s) root v)"
    unfolding 2(4) 1(7) all
  proof
    fix v
    show "(if v \<in> spage ` set ijs then Some (f v, PTE_R OR PTE_W OR PTE_V)
         else ((kpage (pmem s) root)(spage (i, j) \<mapsto> (z, PTE_R OR PTE_W OR PTE_V))) v) =
       (if v \<in> insert (spage (i, j)) (spage ` set ijs) then Some (?f v, PTE_R OR PTE_W OR PTE_V)
         else kpage (pmem s) root v)"
      using out by (cases "v = spage (i, j)"; cases "v \<in> spage ` set ijs") simp_all
  qed
  moreover have "\<forall>v\<in>spage ` set (x # ijs). ?f v \<in> set ps \<and> ?f v \<notin> set ps' \<and> ?f v \<notin> pt_pages (pmem s') root"
    unfolding all using 2(6) 1(3,6) z old by (simp add: ktakes_def subset_iff)
  moreover have "foldR (map_stack_page root) (x # ijs) s = Inr s'" using 1(1) 2(1) x by simp
  ultimately show ?case using 2(2) ktakes_trans [OF 1(6) 2(3)] by blast
qed

section \<open>The tables of the kernel map\<close>

definition ktables :: "usize \<Rightarrow> nat list set" where
  "ktables etext =
     {[0], [1], [2], [3], [4], [5], [255], [0, 0], [0, 16], [0, 128], [1, 0], [255, 509], [255, 510], [255, 511]} \<union>
     (if unat etext div 4096 mod 512 = 0 then {} else {vpath (unat etext div 4096)})"

lemma ktables_finite: "finite (ktables etext)" "card (ktables etext) \<le> 15"
proof -
  let ?A = "{[0], [1], [2], [3], [4], [5], [255], [0, 0], [0, 16], [0, 128], [1, 0], [255, 509], [255, 510], [255, 511 :: nat]}"
  have "card (ktables etext) \<le> card ?A + 1" unfolding ktables_def by (rule order.trans [OF card_Un_le]) simp
  moreover have "card ?A = 14" by simp
  ultimately show "card (ktables etext) \<le> 15" by simp
  show "finite (ktables etext)" by (simp add: ktables_def)
qed

text \<open>A range by its blocks.\<close>

lemma range_okI:
  assumes "v + n \<le> 2 ^ 26" "unat pa mod 2 ^ 21 = 4096 * v mod 2 ^ 21"
    and "\<And>b w. v \<le> w \<Longrightarrow> w < v + n \<Longrightarrow> b = w div 512 \<Longrightarrow> [b div 512] \<in> T \<and>
       (if v \<le> 512 * b \<and> 512 * b + 512 \<le> v + n then [b div 512, b mod 512] \<notin> T else [b div 512, b mod 512] \<in> T)"
  shows "range_ok T v n pa"
  unfolding range_ok_def
proof (intro allI impI)
  fix w assume w: "v \<le> w \<and> w < v + n"
  then have "w < 2 ^ 27" using assms(1) by simp
  then have p: "vpath w = [w div 512 div 512, w div 512 mod 512]" by (rule vpath_div)
  then have t: "vtop w = w div 512 div 512" by (simp add: vpath_eq)
  show "[vtop w] \<in> T \<and> (if in_block v n w then vpath w \<notin> T \<and> unat pa mod 2 ^ 21 = 4096 * v mod 2 ^ 21 else vpath w \<in> T)"
    using assms(3) [of w "w div 512"] assms(2) w unfolding p t in_block_def by argo
qed

lemma perms_ok:
  "as_flags (PTE_R OR PTE_W) = PTE_R OR PTE_W" "is_leaf (PTE_R OR PTE_W)"
  "as_flags (PTE_R OR PTE_X) = PTE_R OR PTE_X" "is_leaf (PTE_R OR PTE_X)"
  by (simp_all add: as_flags_def is_leaf_def pte_flag_defs)

text \<open>A range inside one block, one of whole blocks, and the two that meet at the end of the text.\<close>

lemma range_ok_inside:
  assumes "512 * b \<le> v" "v + n \<le> 512 * b + 512" "n < 512" "b < 2 ^ 17" "[b div 512] \<in> T" "[b div 512, b mod 512] \<in> T"
  shows "range_ok T v n pa"
  unfolding range_ok_def
proof (intro allI impI)
  fix w assume w: "v \<le> w \<and> w < v + n"
  then have b: "w div 512 = b" "w < 2 ^ 27" using assms(1,2,4) by auto
  then have p: "vpath w = [b div 512, b mod 512]" by (simp add: vpath_div)
  then have "vtop w = b div 512" by (simp add: vpath_eq)
  moreover have "\<not> in_block v n w" using assms(3) by (auto simp: in_block_def)
  ultimately show "[vtop w] \<in> T \<and> (if in_block v n w then vpath w \<notin> T \<and> unat pa mod 2 ^ 21 = 4096 * v mod 2 ^ 21 else vpath w \<in> T)"
    using assms(5,6) p by simp
qed

lemma range_ok_blocks:
  assumes "v = 512 * b" "n = 512 * c" "b + c \<le> 2 ^ 17" "unat pa = 4096 * v"
    and "\<And>x. b \<le> x \<Longrightarrow> x < b + c \<Longrightarrow> [x div 512] \<in> T \<and> [x div 512, x mod 512] \<notin> T"
  shows "range_ok T v n pa"
proof (rule range_okI)
  show "v + n \<le> 2 ^ 26" "unat pa mod 2 ^ 21 = 4096 * v mod 2 ^ 21" using assms(1-4) by simp_all
  fix x w assume w: "v \<le> w" "w < v + n" "x = w div 512"
  then have x: "b \<le> x" "x < b + c" using assms(1,2)
    by (auto simp: less_eq_div_iff_mult_less_eq div_less_iff_less_mult)
  then have "v \<le> 512 * x \<and> 512 * x + 512 \<le> v + n" using assms(1,2) by auto
  then show "[x div 512] \<in> T \<and>
      (if v \<le> 512 * x \<and> 512 * x + 512 \<le> v + n then [x div 512, x mod 512] \<notin> T else [x div 512, x mod 512] \<in> T)"
    using assms(5) [OF x] by simp
qed

text \<open>In gigabytes 2 to 5 the only table of level 0 is that of the end of the text.\<close>

lemma ktables_high:
  assumes "2 \<le> a" "a < 6"
  shows "[a, b] \<in> ktables etext \<longleftrightarrow> unat etext div 4096 mod 512 \<noteq> 0 \<and> vpath (unat etext div 4096) = [a, b]"
  using assms by (cases "unat etext div 4096 mod 512 = 0") (simp_all add: ktables_def eq_commute [of "[a, b]"])

lemma ktables_ram:
  assumes "1024 \<le> x" "x < 3072"
  shows "[x div 512] \<in> ktables etext"
    and "[x div 512, x mod 512] \<in> ktables etext \<longleftrightarrow>
      unat etext div 4096 mod 512 \<noteq> 0 \<and> vpath (unat etext div 4096) = [x div 512, x mod 512]"
proof -
  have "2 \<le> x div 512" "x div 512 < 6" using assms by (simp_all add: less_eq_div_iff_mult_less_eq div_less_iff_less_mult)
  then have x: "x div 512 = 2 \<or> x div 512 = 3 \<or> x div 512 = 4 \<or> x div 512 = 5" by linarith
  then show "[x div 512] \<in> ktables etext" by (auto simp: ktables_def)
  show "[x div 512, x mod 512] \<in> ktables etext \<longleftrightarrow>
      unat etext div 4096 mod 512 \<noteq> 0 \<and> vpath (unat etext div 4096) = [x div 512, x mod 512]"
    by (rule ktables_high) (use x in auto)
qed

lemma block_eq: "(x :: nat) div 512 = y div 512 \<and> x mod 512 = y mod 512 \<longleftrightarrow> x = y"
  by (metis div_mult_mod_eq)

lemma ktables_etext:
  assumes "1024 \<le> x" "x < 3072" "unat etext = 4096 * e" "e < 2 ^ 26"
  shows "[x div 512, x mod 512] \<in> ktables etext \<longleftrightarrow> e mod 512 \<noteq> 0 \<and> e div 512 = x"
proof -
  have "vpath e = [e div 512 div 512, e div 512 mod 512]" using assms(4) by (simp add: vpath_div)
  then show ?thesis using assms(3) block_eq [of "e div 512" x] by (auto simp: ktables_ram(2) [OF assms(1,2)])
qed

lemma block_end:
  fixes q r x :: nat
  assumes "r < 512"
  shows "512 * x < 512 * q + r \<Longrightarrow> 512 * x + 512 \<le> 512 * q + r \<longleftrightarrow> \<not> (r \<noteq> 0 \<and> q = x)"
    and "512 * q + r < 512 * x + 512 \<Longrightarrow> 512 * q + r \<le> 512 * x \<longleftrightarrow> \<not> (r \<noteq> 0 \<and> q = x)"
proof -
  assume h: "512 * x < 512 * q + r"
  have "x \<le> q" using h assms by linarith
  moreover have "x < q \<Longrightarrow> 512 * x + 512 \<le> 512 * q + r" by linarith
  ultimately show "512 * x + 512 \<le> 512 * q + r \<longleftrightarrow> \<not> (r \<noteq> 0 \<and> q = x)"
    using h assms by (cases "q = x") auto
next
  assume h: "512 * q + r < 512 * x + 512"
  have "q \<le> x" using h by linarith
  moreover have "q < x \<Longrightarrow> 512 * q + r \<le> 512 * x" using assms by linarith
  ultimately show "512 * q + r \<le> 512 * x \<longleftrightarrow> \<not> (r \<noteq> 0 \<and> q = x)"
    by (cases "q = x") auto
qed

lemma below_end: "512 * x < e \<Longrightarrow> 512 * x + 512 \<le> e \<longleftrightarrow> \<not> (e mod 512 \<noteq> 0 \<and> e div 512 = (x::nat))"
  using block_end(1) [of "e mod 512" x "e div 512"] unfolding mult_div_mod_eq by simp

lemma above_end: "e < 512 * x + 512 \<Longrightarrow> e \<le> 512 * x \<longleftrightarrow> \<not> (e mod 512 \<noteq> 0 \<and> e div 512 = (x::nat))"
  using block_end(2) [of "e mod 512" "e div 512" x] unfolding mult_div_mod_eq by simp

lemma range_ok_text:
  assumes "unat etext = 4096 * e" "0x80000 \<le> e" "e \<le> 0x180000" "unat pa = 4096 * 0x80000"
  shows "range_ok (ktables etext) 0x80000 (e - 0x80000) pa"
proof (rule range_okI)
  show "0x80000 + (e - 0x80000) \<le> 2 ^ 26" "unat pa mod 2 ^ 21 = 4096 * 0x80000 mod 2 ^ 21" using assms by simp_all
  fix x w :: nat assume w: "0x80000 \<le> w" "w < 0x80000 + (e - 0x80000)" "x = w div 512"
  then have x: "1024 \<le> x" "x < 3072" "512 * x \<le> w" "w < 512 * x + 512" using assms(2,3)
    by (auto simp: less_eq_div_iff_mult_less_eq div_less_iff_less_mult)
  have "e < 2 ^ 26" using assms(3) by simp
  note t = ktables_ram(1) [OF x(1,2), of etext] ktables_etext [OF x(1,2) assms(1) this]
  have "512 * x < e" using x(3) w(2) assms(2) by simp
  then have "512 * x + 512 \<le> e \<longleftrightarrow> \<not> (e mod 512 \<noteq> 0 \<and> e div 512 = x)"
    using below_end by simp
  then show "[x div 512] \<in> ktables etext \<and> (if 0x80000 \<le> 512 * x \<and> 512 * x + 512 \<le> 0x80000 + (e - 0x80000)
      then [x div 512, x mod 512] \<notin> ktables etext else [x div 512, x mod 512] \<in> ktables etext)"
    using t x(1) assms(2) by auto
qed

lemma range_ok_data:
  assumes "unat etext = 4096 * e" "0x80000 \<le> e" "e \<le> 0x180000" "unat pa = 4096 * e"
  shows "range_ok (ktables etext) e (0x180000 - e) pa"
proof (rule range_okI)
  show "e + (0x180000 - e) \<le> 2 ^ 26" "unat pa mod 2 ^ 21 = 4096 * e mod 2 ^ 21" using assms by simp_all
  fix x w :: nat assume w: "e \<le> w" "w < e + (0x180000 - e)" "x = w div 512"
  then have x: "1024 \<le> x" "x < 3072" "512 * x \<le> w" "w < 512 * x + 512" using assms(2,3)
    by (auto simp: less_eq_div_iff_mult_less_eq div_less_iff_less_mult)
  have "e < 2 ^ 26" using assms(3) by simp
  note t = ktables_ram(1) [OF x(1,2), of etext] ktables_etext [OF x(1,2) assms(1) this]
  have "e < 512 * x + 512" using x(4) w(1) by simp
  then have "e \<le> 512 * x \<longleftrightarrow> \<not> (e mod 512 \<noteq> 0 \<and> e div 512 = x)"
    using above_end by simp
  then show "[x div 512] \<in> ktables etext \<and> (if e \<le> 512 * x \<and> 512 * x + 512 \<le> e + (0x180000 - e)
      then [x div 512, x mod 512] \<notin> ktables etext else [x div 512, x mod 512] \<in> ktables etext)"
    using t x(2) assms(3) by auto
qed

end
