(* ===== verification/Rx_Kboot.thy ===== *)
theory Rx_Kboot
  imports Rx_Kspace
begin

text \<open>
  The kernel map at boot: from the memory the allocator has after its initialisation, \<^verbatim>\<open>kernel_map\<close>
  succeeds and yields the address space its list of regions describes.
\<close>

section \<open>The regions\<close>

lemma reg_okI:
  assumes "unat va = 4096 * v" "unat n = 4096 * c" "v + c \<le> 2 ^ 26" "unat pa + 4096 * c < 2 ^ 63" "unat pa mod 4096 = 0"
    and "as_flags perm = perm" "is_leaf perm" "range_ok T v c pa"
  shows "reg_ok T (va, pa, Inr n, perm)"
  using assms by (simp add: is_page_aligned_unat)

lemma etext_sizes:
  assumes "unat etext = 4096 * e" "0x80000 \<le> e" "e \<le> 0x180000"
  shows "sub_ck etext KERNEL_BASE = Inr (etext - KERNEL_BASE)" "unat (etext - KERNEL_BASE) = 4096 * (e - 0x80000)"
    "sub_ck PHYSTOP etext = Inr (PHYSTOP - etext)" "unat (PHYSTOP - etext) = 4096 * (0x180000 - e)"
proof -
  have "KERNEL_BASE \<le> etext" "etext \<le> PHYSTOP" using assms by (simp_all add: word_le_nat_alt)
  then show "sub_ck etext KERNEL_BASE = Inr (etext - KERNEL_BASE)" "unat (etext - KERNEL_BASE) = 4096 * (e - 0x80000)"
    "sub_ck PHYSTOP etext = Inr (PHYSTOP - etext)" "unat (PHYSTOP - etext) = 4096 * (0x180000 - e)"
    using assms by (simp_all add: sub_ck_def unat_sub)
qed

lemma unat_devices [simp]:
  "unat VIRT_TEST = 4096 * 0x100" "unat UART0 = 4096 * 0x10000" "unat VIRTIO0 = 4096 * 0x10001"
  "unat ECAM = 4096 * 0x30000" "unat E1000_REGS = 4096 * 0x40000" "unat CLINT = 4096 * 0x2000"
  "unat PLIC_BASE = 4096 * 0xc000" "unat TRAMPOLINE = 4096 * 0x3FFFFFF"
  by (simp_all add: layout_defs VIRT_TEST_def UART0_def VIRTIO0_def ECAM_def E1000_REGS_def CLINT_def PLIC_BASE_def)

lemma device_regions_ok:
  fixes etext :: usize
  defines "T \<equiv> ktables etext"
  shows "reg_ok T (VIRT_TEST, VIRT_TEST, Inr PGSIZE, PTE_R OR PTE_W)"
    "reg_ok T (UART0, UART0, Inr PGSIZE, PTE_R OR PTE_W)"
    "reg_ok T (VIRTIO0, VIRTIO0, Inr PGSIZE, PTE_R OR PTE_W)"
    "reg_ok T (E1000_REGS, E1000_REGS, Inr 0x20000, PTE_R OR PTE_W)"
    "reg_ok T (CLINT, CLINT, Inr 0x10000, PTE_R OR PTE_W)"
proof -
  have t: "[0] \<in> T" "[1] \<in> T" "[0, 0] \<in> T" "[0, 128] \<in> T" "[0, 16] \<in> T" "[1, 0] \<in> T" by (simp_all add: T_def ktables_def)
  show "reg_ok T (VIRT_TEST, VIRT_TEST, Inr PGSIZE, PTE_R OR PTE_W)"
    by (rule reg_okI [where v = "0x100" and c = 1, OF _ _ _ _ _ perms_ok(1,2) range_ok_inside [where b = 0]]) (simp_all add: t)
  show "reg_ok T (UART0, UART0, Inr PGSIZE, PTE_R OR PTE_W)"
    by (rule reg_okI [where v = "0x10000" and c = 1, OF _ _ _ _ _ perms_ok(1,2) range_ok_inside [where b = 128]]) (simp_all add: t)
  show "reg_ok T (VIRTIO0, VIRTIO0, Inr PGSIZE, PTE_R OR PTE_W)"
    by (rule reg_okI [where v = "0x10001" and c = 1, OF _ _ _ _ _ perms_ok(1,2) range_ok_inside [where b = 128]]) (simp_all add: t)
  show "reg_ok T (E1000_REGS, E1000_REGS, Inr 0x20000, PTE_R OR PTE_W)"
    by (rule reg_okI [where v = "0x40000" and c = 32, OF _ _ _ _ _ perms_ok(1,2) range_ok_inside [where b = 512]]) (use t in simp_all)
  show "reg_ok T (CLINT, CLINT, Inr 0x10000, PTE_R OR PTE_W)"
    by (rule reg_okI [where v = "0x2000" and c = 16, OF _ _ _ _ _ perms_ok(1,2) range_ok_inside [where b = 16]]) (simp_all add: t)
qed

lemma ktables_low:
  assumes "unat etext = 4096 * e" "0x80000 \<le> e" "e \<le> 0x180000"
  shows "[0, y] \<in> ktables etext \<longleftrightarrow> y = 0 \<or> y = 16 \<or> y = 128"
proof -
  have "e div 512 div 512 \<noteq> 0" using assms(2) by (simp add: div_eq_0_iff div_mult2_eq [symmetric])
  moreover have "vpath e = [e div 512 div 512, e div 512 mod 512]" using assms(3) by (simp add: vpath_div)
  ultimately show ?thesis using assms(1) by (auto simp: ktables_def)
qed

lemma huge_regions_ok:
  assumes e: "unat etext = 4096 * e" "0x80000 \<le> e" "e \<le> 0x180000"
  shows "reg_ok (ktables etext) (ECAM, ECAM, Inr 0x10000000, PTE_R OR PTE_W)"
    "reg_ok (ktables etext) (PLIC_BASE, PLIC_BASE, Inr 0x4000000, PTE_R OR PTE_W)"
    "reg_ok (ktables etext) (KERNEL_BASE, KERNEL_BASE, sub_ck etext KERNEL_BASE, PTE_R OR PTE_X)"
    "reg_ok (ktables etext) (etext, etext, sub_ck PHYSTOP etext, PTE_R OR PTE_W)"
proof -
  have t: "[0] \<in> ktables etext" by (simp add: ktables_def)
  have "range_ok (ktables etext) 0x30000 0x10000 ECAM"
    by (rule range_ok_blocks [where b = 384 and c = 128]) (simp_all add: t ktables_low [OF e])
  then show "reg_ok (ktables etext) (ECAM, ECAM, Inr 0x10000000, PTE_R OR PTE_W)"
    by (intro reg_okI [OF _ _ _ _ _ perms_ok(1,2)]) simp_all
  have "range_ok (ktables etext) 0xc000 0x4000 PLIC_BASE"
    by (rule range_ok_blocks [where b = 96 and c = 32]) (simp_all add: t ktables_low [OF e])
  then show "reg_ok (ktables etext) (PLIC_BASE, PLIC_BASE, Inr 0x4000000, PTE_R OR PTE_W)"
    by (intro reg_okI [OF _ _ _ _ _ perms_ok(1,2)]) simp_all
  note sz = etext_sizes [OF e]
  show "reg_ok (ktables etext) (KERNEL_BASE, KERNEL_BASE, sub_ck etext KERNEL_BASE, PTE_R OR PTE_X)"
    unfolding sz(1) using e range_ok_text [OF e, of KERNEL_BASE] sz(2)
    by (intro reg_okI [where v = "0x80000", OF _ _ _ _ _ perms_ok(3,4)]) simp_all
  show "reg_ok (ktables etext) (etext, etext, sub_ck PHYSTOP etext, PTE_R OR PTE_W)"
    unfolding sz(3) using e range_ok_data [OF e, of etext] sz(4)
    by (intro reg_okI [where v = e, OF _ _ _ _ _ perms_ok(1,2)]) simp_all
qed

lemma kernel_regions_ok:
  assumes e: "unat etext = 4096 * e" "0x80000 \<le> e" "e \<le> 0x180000"
    and t: "unat trampoline mod 4096 = 0" "unat trampoline < 2 ^ 62"
  shows "list_all (reg_ok (ktables etext)) (kernel_regions etext trampoline)"
proof -
  have "[255] \<in> ktables etext" "[255, 511] \<in> ktables etext" by (simp_all add: ktables_def)
  then have "reg_ok (ktables etext) (TRAMPOLINE, trampoline, Inr PGSIZE, PTE_R OR PTE_X)"
    using t by (intro reg_okI [where v = "0x3FFFFFF" and c = 1, OF _ _ _ _ _ perms_ok(3,4) range_ok_inside [where b = 131071]]) simp_all
  then show ?thesis
    using device_regions_ok [of etext] huge_regions_ok [OF e]
    by (simp add: kernel_regions_def del: reg_ok.simps)
qed

lemma kernel_regions_has:
  assumes e: "unat etext = 4096 * e" "0x80000 \<le> e" "e \<le> 0x180000"
  shows "map reg_has (kernel_regions etext trampoline) =
    map (\<lambda>(a, b) w. a \<le> w \<and> w < b)
      [(0x100, 0x101), (0x10000, 0x10001), (0x10001, 0x10002), (0x30000, 0x40000), (0x40000, 0x40020), (0x2000, 0x2010),
       (0xc000, 0x10000), (0x80000, e), (e, 0x180000), (0x3FFFFFF, 0x4000000)]"
  using assms(2,3) etext_sizes [OF e] by (simp add: kernel_regions_def reg_has_def fun_eq_iff e(1))

lemma kernel_regions_disjoint:
  assumes e: "unat etext = 4096 * e" "0x80000 \<le> e" "e \<le> 0x180000"
  shows "sorted_wrt (\<lambda>r r'. \<forall>w. \<not> (reg_has r w \<and> reg_has r' w)) (kernel_regions etext trampoline)"
proof -
  have "sorted_wrt (\<lambda>h h'. \<forall>w. \<not> (h w \<and> h' w)) (map reg_has (kernel_regions etext trampoline))"
    unfolding kernel_regions_has [OF e] using e(2,3) by simp
  then show ?thesis by (simp add: sorted_wrt_map)
qed

section \<open>The memory at boot\<close>

lemma ka_init_loop_below:
  "a + 8 \<le> unat start \<Longrightarrow> load64 (pmem (ka_init_loop start s)) a = load64 (pmem s) a"
proof (induction start s rule: ka_init_loop.induct)
  case (1 start s)
  show ?case
  proof (cases "start < PHYSTOP")
    case True
    then have "unat (start + PGSIZE) = unat start + 4096" by (simp add: unat_word_ariths word_less_nat_alt)
    then have "load64 (pmem (ka_init_loop start s)) a = load64 (set_run_next (pmem s) start (ka_head s)) a"
      using 1 True by (simp add: ka_init_loop.simps [of start s])
    also have "\<dots> = load64 (pmem s) a"
      unfolding set_run_next_def by (rule load64_store64_disjoint) (use "1.prems" in simp)
    finally show ?thesis .
  qed (simp add: ka_init_loop.simps [of start s])
qed

lemma heap_pages_card:
  assumes "unat hs + 4096 * n \<le> 0x180000000" "0x80000000 \<le> unat hs"
    and "finite {p. heap_page hs p}"
  shows "n \<le> card {p. heap_page hs p}"
proof -
  let ?g = "\<lambda>k. of_nat (0x180000000 - 4096 * (k + 1)) :: usize"
  have u: "unat (?g k) = 0x180000000 - 4096 * (k + 1)" for k by (simp add: unat_of_nat)
  have inj: "inj_on ?g {..<n}"
  proof (rule inj_onI)
    fix k l assume h: "k \<in> {..<n}" "l \<in> {..<n}" "?g k = ?g l"
    have "4096 * (k + 1) \<le> 0x180000000" "4096 * (l + 1) \<le> 0x180000000" using h(1,2) assms(1) by auto
    moreover have "unat (?g k) = unat (?g l)" using h(3) by simp
    ultimately show "k = l" unfolding u by simp
  qed
  have img: "?g ` {..<n} \<subseteq> {p. heap_page hs p}"
  proof
    fix p assume "p \<in> ?g ` {..<n}"
    then obtain k where k: "k < n" "p = ?g k" by blast
    have "unat hs + 4096 * (k + 1) \<le> 0x180000000" using k(1) assms(1) by simp
    moreover have "(0x180000000 - 4096 * (k + 1)) mod 4096 = (0 :: nat)"
    proof -
      have "(0x180000000 :: nat) - 4096 * (k + 1) = 4096 * (0x180000 - (k + 1))" by simp
      then show ?thesis by (simp only: mod_mult_self1_is_0)
    qed
    moreover have p: "unat p = 0x180000000 - 4096 * (k + 1)" unfolding k(2) by (rule u)
    ultimately have "unat p + 4096 * (k + 1) = 0x180000000" "unat p mod 4096 = 0" "unat hs \<le> unat p"
      by (simp_all only: p)
    then show "p \<in> {p. heap_page hs p}"
      using assms(2) by (simp add: heap_page_def ram_page_def word_le_nat_alt)
  qed
  show ?thesis using card_inj_on_le [OF inj img assms(3)] by simp
qed

text \<open>An empty root page in the kernel image satisfies the invariant.\<close>

lemma kinv_start:
  assumes ka: "ka_inv hs ps s" and root: "ram_page root" "root \<notin> set ps"
    and zero: "\<And>j. j < 512 \<Longrightarrow> load64 (pmem s) (unat root + 8 * j) = 0"
    and T: "finite T" "card T + k \<le> length ps"
  shows "kinv hs T k root ps s" "kpage (pmem s) root = (\<lambda>_. None)"
proof -
  have node: "node (pmem s) root p = (if p = [] then Some root else None)" if "path_ok p" for p
  proof (cases p)
    case (Cons i r)
    then have "i < 512" using that by (simp add: path_ok_def)
    with Cons zero [of i] show ?thesis by (simp add: node.simps is_table_def)
  qed simp
  have "x = root" if "x \<in> pt_pages (pmem s) root" for x using that node by (auto simp: pt_pages_def split: if_splits)
  then have pages: "pt_pages (pmem s) root = {root}" by auto
  have nodes: "nodes (pmem s) root = {[]}" using node by (auto simp: nodes_def split: if_splits)
  have hm: "hmap (pmem s) root v = None" for v by (simp add: hmap_def node)
  have vm: "vmap (pmem s) root v = None" for v using node [OF path_ok_simps(2), of v] by (simp add: vmap_def pte_slot_def vpath_eq)
  show "kpage (pmem s) root = (\<lambda>_. None)" using hm vm by (simp add: fun_eq_iff kpage_def)
  have "card (T - {[]}) \<le> card T" using T(1) by (simp add: card_mono)
  moreover have "wf_tree (pmem s) root" using root(1) node by (auto simp: wf_tree_def pages split: if_splits)
  moreover have "no_giga (pmem s) root" using zero by (simp add: no_giga_def)
  ultimately show "kinv hs T k root ps s" using ka root(2) T hm by (auto simp: kinv_def pages nodes haligned_def)
qed

section \<open>The address space of the kernel\<close>

definition stack_page :: "nat \<Rightarrow> bool" where
  "stack_page v \<longleftrightarrow> v \<in> spage ` set (List.product [0..<NPROC] [0..<unat STACK_SIZE div unat PGSIZE])"

text \<open>The stacks in the frames \<open>frame\<close>, and the regions of the list.\<close>

definition kernel_space :: "usize \<Rightarrow> usize \<Rightarrow> (nat \<Rightarrow> usize) \<Rightarrow> nat \<Rightarrow> (usize \<times> usize) option" where
  "kernel_space etext trampoline frame v =
     (if stack_page v then Some (frame v, PTE_R OR PTE_W OR PTE_V)
      else fold reg_map (kernel_regions etext trampoline) (\<lambda>_. None) v)"

lemma stack_page_iff: "stack_page v \<longleftrightarrow> (\<exists>i<64. \<exists>j<16. v = spage (i, j))"
proof -
  have "set (List.product [0..<NPROC] [0..<unat STACK_SIZE div unat PGSIZE]) = {..<64} \<times> {..<16}"
    by (auto simp: NPROC_def stack_bounds)
  then show ?thesis by (auto simp: stack_page_def)
qed

lemma stack_page_bounds: "stack_page v \<Longrightarrow> 67107774 \<le> v \<and> v < 67108862"
  by (auto simp: stack_page_iff spage.simps)

lemma guard_not_stack: "i < 64 \<Longrightarrow> \<not> stack_page (spage (i, 0) - 1)"
proof
  assume i: "i < 64" "stack_page (spage (i, 0) - 1)"
  then obtain k j where kj: "k < 64" "j < 16" "spage (i, 0) - 1 = spage (k, j)" by (auto simp: stack_page_iff)
  then have "67108862 - 17 * (i + 1) = 67108862 - 17 * (k + 1) + j + 1" using i(1) by (simp add: spage.simps)
  moreover have "17 * (i + 1) \<le> 67108862" "17 * (k + 1) \<le> 67108862" using kj(1) i(1) by simp_all
  moreover have "B = A + j + 1" if "A \<le> N" "B \<le> N" "N - A = N - B + j + 1" for N A B :: nat
    using that by linarith
  ultimately have "17 * (k + 1) = 17 * (i + 1) + j + 1" by blast
  then have "17 * k = 17 * i + (j + 1)" by simp
  then have "(j + 1) mod 17 = 0" by (metis mod_mult_self1_is_0 mod_mult_self4)
  then show False using kj(2) by simp
qed

lemma fold_reg_map_out: "(\<And>r. r \<in> set rs \<Longrightarrow> \<not> reg_has r w) \<Longrightarrow> fold reg_map rs f w = f w"
  by (induction rs arbitrary: f) (simp_all add: reg_map_out)

lemma fold_reg_map_perm:
  "fold reg_map rs f w = Some (pa, fl) \<Longrightarrow> f w = Some (pa, fl) \<or> (\<exists>(va, pa', sz, perm) \<in> set rs. fl = perm OR PTE_V)"
proof (induction rs arbitrary: f)
  case (Cons r rs)
  obtain va pa' sz perm where r: "r = (va, pa', sz, perm)" by (cases r)
  have "reg_map r f w = Some (pa, fl) \<Longrightarrow> f w = Some (pa, fl) \<or> fl = perm OR PTE_V"
    by (auto simp: r map_krange_def split: if_splits)
  with Cons show ?case by (fastforce simp: r)
qed simp

lemma regions_w_xor_x:
  assumes "(va, pa, sz, perm) \<in> set (kernel_regions etext trampoline)"
  shows "\<not> (is_write (perm OR PTE_V) \<and> is_execute (perm OR PTE_V))"
proof -
  have "perm = PTE_R OR PTE_W \<or> perm = PTE_R OR PTE_X" using assms by (auto simp: kernel_regions_def)
  then show ?thesis by (auto simp: is_write_def is_execute_def pte_flag_defs)
qed

lemma kernel_space_w_xor_x:
  assumes "kernel_space etext trampoline frame v = Some (pa, fl)"
  shows "\<not> (is_write fl \<and> is_execute fl)"
proof (cases "stack_page v")
  case True
  then have "fl = PTE_R OR PTE_W OR PTE_V" using assms by (simp add: kernel_space_def)
  then show ?thesis by (simp add: is_execute_def pte_flag_defs)
next
  case False
  then show ?thesis
    using assms fold_reg_map_perm [of "kernel_regions etext trampoline" "\<lambda>_. None" v pa fl] regions_w_xor_x
    by (fastforce simp: kernel_space_def)
qed

lemma stack_region_free:
  assumes e: "unat etext = 4096 * e" "0x80000 \<le> e" "e \<le> 0x180000" and w: "0x180000 \<le> w" "w < 0x3FFFFFF"
  shows "fold reg_map (kernel_regions etext trampoline) (\<lambda>_. None) w = None"
proof (rule fold_reg_map_out)
  fix r assume "r \<in> set (kernel_regions etext trampoline)"
  then have "reg_has r \<in> set (map reg_has (kernel_regions etext trampoline))" by simp
  then show "\<not> reg_has r w" unfolding kernel_regions_has [OF e] using w e by auto
qed

lemma kernel_map_ok:
  assumes inv: "kinv hs (ktables etext) (1024 + k) kpt ps s" and empty: "kpage (pmem s) kpt = (\<lambda>_. None)"
    and e: "unat etext = 4096 * e" "0x80000 \<le> e" "e \<le> 0x180000"
    and t: "unat trampoline mod 4096 = 0" "unat trampoline < 2 ^ 62"
  shows "\<exists>frame ps' s'. kernel_map kpt etext trampoline s = Inr s' \<and> kinv hs (ktables etext) k kpt ps' s' \<and>
    kpage (pmem s') kpt = kernel_space etext trampoline frame \<and> inj_on frame {v. stack_page v} \<and>
    (\<forall>v. stack_page v \<longrightarrow> frame v \<in> set ps \<and> frame v \<notin> set ps')"
proof -
  obtain ps1 s1 where 1: "foldR (kernel_map_region kpt) (kernel_regions etext trampoline) s = Inr s1"
    "kinv hs (ktables etext) (1024 + k) kpt ps1 s1" "ktakes kpt (ps, s) (ps1, s1)"
    "kpage (pmem s1) kpt = fold reg_map (kernel_regions etext trampoline) (\<lambda>_. None)"
    using kernel_map_regions_ok [OF inv kernel_regions_ok [OF e t] kernel_regions_disjoint [OF e]] empty by auto
  let ?ijs = "List.product [0..<NPROC] [0..<unat STACK_SIZE div unat PGSIZE]"
  have len: "length ?ijs = 1024" by (simp add: length_product NPROC_def stack_bounds)
  have T: "stack_tables (ktables etext)" by (simp add: stack_tables_def ktables_def)
  have "\<exists>f ps' s'. foldR (map_stack_page kpt) ?ijs s1 = Inr s' \<and> kinv hs (ktables etext) k kpt ps' s' \<and> ktakes kpt (ps1, s1) (ps', s') \<and>
    kpage (pmem s') kpt = (\<lambda>v. if v \<in> spage ` set ?ijs then Some (f v, PTE_R OR PTE_W OR PTE_V) else kpage (pmem s1) kpt v) \<and>
    inj_on f (spage ` set ?ijs) \<and>
    (\<forall>v\<in>spage ` set ?ijs. f v \<in> set ps1 \<and> f v \<notin> set ps' \<and> f v \<notin> pt_pages (pmem s') kpt)"
  proof (rule map_stacks_ok [OF _ T])
    show "kinv hs (ktables etext) (length ?ijs + k) kpt ps1 s1" unfolding len by (rule 1(2))
    show "i < 64 \<and> j < 16 \<and> kpage (pmem s1) kpt (spage (i, j)) = None" if "(i, j) \<in> set ?ijs" for i j
    proof -
      have ij: "i < 64" "j < 16" using that by (simp_all add: NPROC_def stack_bounds)
      then have "67107774 \<le> spage (i, j) \<and> spage (i, j) < 67108862" using stack_page_bounds stack_page_iff by blast
      then show ?thesis using ij stack_region_free [OF e] by (simp add: 1(4))
    qed
    show "distinct ?ijs" by (intro distinct_product) simp_all
  qed
  then obtain f ps' s' where 2: "foldR (map_stack_page kpt) ?ijs s1 = Inr s'" "kinv hs (ktables etext) k kpt ps' s'"
    "kpage (pmem s') kpt = (\<lambda>v. if v \<in> spage ` set ?ijs then Some (f v, PTE_R OR PTE_W OR PTE_V) else kpage (pmem s1) kpt v)"
    "inj_on f (spage ` set ?ijs)" "\<forall>v\<in>spage ` set ?ijs. f v \<in> set ps1 \<and> f v \<notin> set ps'" by blast
  have "kernel_map kpt etext trampoline s = Inr s'" using 1(1) 2(1) by (simp add: kernel_map_def proc_mapstacks_def)
  moreover have "kpage (pmem s') kpt = kernel_space etext trampoline f"
    unfolding 2(3) 1(4) kernel_space_def stack_page_def by (rule refl)
  moreover have "inj_on f {v. stack_page v}" using 2(4) by (simp add: stack_page_def)
  moreover have "f v \<in> set ps \<and> f v \<notin> set ps'" if "stack_page v" for v
    using 2(5) 1(3) that by (auto simp: stack_page_def ktakes_def)
  ultimately show ?thesis using 2(2) by blast
qed

section \<open>From the allocator to the map\<close>

lemma kernel_map_boot:
  assumes "unat etext = 4096 * e" "0x80000 < e" "unat etext \<le> unat kpt" "unat kpt mod 4096 = 0"
    and "unat kpt + 4096 \<le> unat kend" "unat kend \<le> 0x17F000000"
    and "unat trampoline mod 4096 = 0" "unat trampoline < unat etext"
    and "\<forall>j<512. load64 m (unat kpt + 8 * j) = 0"
  shows "\<exists>hs s frame ps' s'. ka_init kend (ka_new m) = Inr s \<and> kernel_map kpt etext trampoline s = Inr s' \<and>
    kinv hs (ktables etext) 64 kpt ps' s' \<and>
    kpage (pmem s') kpt = kernel_space etext trampoline frame \<and> inj_on frame {v. stack_page v} \<and>
    (\<forall>v. stack_page v \<longrightarrow> unat kend \<le> unat (frame v) \<and> frame v \<notin> set ps')"
proof -
  have e: "unat etext = 4096 * e" "0x80000 \<le> e" "e \<le> 0x180000" using assms by simp_all
  have t: "unat trampoline mod 4096 = 0" "unat trampoline < 2 ^ 62" using assms(7,8) e by simp_all
  have kend: "0x80000000 \<le> unat kend" "unat kend < 0x180000000" using assms(3,5,6) e by simp_all
  obtain hs s ps where s: "page_round_up kend = Inr hs" "ka_init kend (ka_new m) = Inr s" "ka_inv hs ps s" "\<forall>p. rc s p = 0"
    using ka_init_inv [OF kend, of m] by blast
  have hs: "unat hs = (unat kend + 4095) div 4096 * 4096" using s(1) unat_pg_round_up by simp
  have ge: "unat kend \<le> unat hs" unfolding hs by linarith
  have "(unat kend + 4095) div 4096 \<le> (0x17F000000 + 4095) div 4096" using assms(6) by (intro div_le_mono) simp
  then have le: "unat hs \<le> 0x17F000000" unfolding hs by simp
  have free: "set ps = {p. heap_page hs p}" using s(3,4) by (auto simp: ka_inv_def rc_def)
  then have fin: "finite {p. heap_page hs p}" by (metis finite_set)
  have "4096 \<le> length ps"
    using heap_pages_card [OF _ _ fin, of 4096] le ge kend distinct_card [OF ka.free_distinct [OF s(3)]] free by simp
  then have len: "card (ktables etext) + (1024 + 64) \<le> length ps" using ktables_finite(2) [of etext] by simp
  have root: "ram_page kpt" "kpt \<notin> set ps" using assms(3,4,5,6) e ge free by (auto simp: ram_page_def heap_page_def word_le_nat_alt)
  have "s = ka_init_loop hs (ka_new m)" using s(1,2) by (simp add: ka_init_def ka_new_def)
  then have zero: "load64 (pmem s) (unat kpt + 8 * j) = 0" if "j < 512" for j
    using ka_init_loop_below [of "unat kpt + 8 * j" hs "ka_new m"] that assms(5,9) ge by (simp add: ka_new_def)
  note start = kinv_start [OF s(3) root zero ktables_finite(1) len]
  obtain frame ps' s' where k: "kernel_map kpt etext trampoline s = Inr s'" "kpage (pmem s') kpt = kernel_space etext trampoline frame"
    "inj_on frame {v. stack_page v}" "\<forall>v. stack_page v \<longrightarrow> frame v \<in> set ps \<and> frame v \<notin> set ps'"
    "kinv hs (ktables etext) 64 kpt ps' s'"
    using kernel_map_ok [OF start e t] by blast
  have "unat kend \<le> unat (frame v)" if "stack_page v" for v
  proof -
    have "heap_page hs (frame v)" using k(4) free that by blast
    then show ?thesis using ge by (simp add: heap_page_def word_le_nat_alt)
  qed
  then show ?thesis using s(2) k by blast
qed

section \<open>Property\<close>

text \<open>C10. The kernel comes up with the address space it describes: for every layout of the kernel image
  that leaves sixteen megabytes of memory, with page-aligned sections and a zero-filled root table, the
  allocator is initialised and \<^verbatim>\<open>kernel_map\<close> succeeds without running out of pages.  The resulting
  table maps each device region, the text, the rest of memory and the trampoline as listed, each kernel
  stack page to a frame of its own outside the kernel image, and nothing else.  In particular no page is
  both writable and executable, and the page below each stack is not mapped.\<close>

theorem kernel_map_space:
  assumes "unat etext = 4096 * e" "0x80000 < e" "unat etext \<le> unat kpt" "unat kpt mod 4096 = 0"
    and "unat kpt + 4096 \<le> unat kend" "unat kend \<le> 0x17F000000"
    and "unat trampoline mod 4096 = 0" "unat trampoline < unat etext"
    and "\<forall>j<512. load64 m (unat kpt + 8 * j) = 0"
  shows "\<exists>s frame s'. ka_init kend (ka_new m) = Inr s \<and> kernel_map kpt etext trampoline s = Inr s' \<and>
    kpage (pmem s') kpt = kernel_space etext trampoline frame \<and>
    inj_on frame {v. stack_page v} \<and> (\<forall>v. stack_page v \<longrightarrow> unat kend \<le> unat (frame v)) \<and>
    (\<forall>v pa fl. kpage (pmem s') kpt v = Some (pa, fl) \<longrightarrow> \<not> (is_write fl \<and> is_execute fl)) \<and>
    (\<forall>i<NPROC. kpage (pmem s') kpt (spage (i, 0) - 1) = None)"
proof -
  have e: "unat etext = 4096 * e" "0x80000 \<le> e" "e \<le> 0x180000" using assms by simp_all
  obtain s frame s' where k: "ka_init kend (ka_new m) = Inr s" "kernel_map kpt etext trampoline s = Inr s'"
    "kpage (pmem s') kpt = kernel_space etext trampoline frame"
    "inj_on frame {v. stack_page v}" "\<forall>v. stack_page v \<longrightarrow> unat kend \<le> unat (frame v)"
    using kernel_map_boot [OF assms] by blast
  have "kpage (pmem s') kpt (spage (i, 0) - 1) = None" if "i < NPROC" for i
  proof -
    have i: "i < 64" using that by (simp add: NPROC_def)
    then have "0x180000 \<le> spage (i, 0) - 1" "spage (i, 0) - 1 < 0x3FFFFFF" by (simp_all add: spage.simps)
    then show ?thesis using guard_not_stack [OF i] stack_region_free [OF e] by (simp add: k(3) kernel_space_def)
  qed
  moreover have "\<not> (is_write fl \<and> is_execute fl)" if "kpage (pmem s') kpt v = Some (pa, fl)" for v pa fl
    using kernel_space_w_xor_x that unfolding k(3) by blast
  ultimately show ?thesis using k by blast
qed

theorem kernel_map_space_witness:
  "\<exists>s s'. ka_init 0x80400000 (ka_new (\<lambda>_. 0)) = Inr s \<and> kernel_map 0x80300000 0x80200000 0x80001000 s = Inr s' \<and>
     kpage (pmem s') 0x80300000 0x80000 = Some (0x80000000, PTE_R OR PTE_X OR PTE_V)"
proof -
  have "\<exists>s frame s'. ka_init 0x80400000 (ka_new (\<lambda>_. 0)) = Inr s \<and> kernel_map 0x80300000 0x80200000 0x80001000 s = Inr s' \<and>
    kpage (pmem s') 0x80300000 = kernel_space 0x80200000 0x80001000 frame \<and>
    inj_on frame {v. stack_page v} \<and> (\<forall>v. stack_page v \<longrightarrow> unat (0x80400000 :: usize) \<le> unat (frame v)) \<and>
    (\<forall>v pa fl. kpage (pmem s') 0x80300000 v = Some (pa, fl) \<longrightarrow> \<not> (is_write fl \<and> is_execute fl)) \<and>
    (\<forall>i<NPROC. kpage (pmem s') 0x80300000 (spage (i, 0) - 1) = None)"
    by (rule kernel_map_space [where e = "0x80200"]) (simp_all add: load64_def load_bytes_def upt_rec)
  moreover have "kernel_space 0x80200000 0x80001000 frame 0x80000 = Some (0x80000000, PTE_R OR PTE_X OR PTE_V)" for frame
    using stack_page_bounds [of "0x80000"] etext_sizes [of "0x80200000" "0x80200"]
    by (auto simp: kernel_space_def kernel_regions_def map_krange_def layout_values or.assoc)
  ultimately show ?thesis by metis
qed

end
