(* ===== verification/Rx_Fs_Types.thy ===== *)
theory Rx_Fs_Types
  imports Rx_Inode
begin

text \<open>
  The fixed-size arrays of the file system.  Rust's array types are lists in the model; this theory shows
  that every operation of the cache, the log, the bitmap and the inodes keeps their lengths, and that a
  block of the disk always has the size of a block.
\<close>

named_theorems types \<open>what an operation keeps of the types of its state\<close>

section \<open>Types\<close>

definition bc_typed :: "bcache \<Rightarrow> bool" where
  "bc_typed c \<longleftrightarrow> length (lru_inner (bc_ctrl c)) = NBUF \<and> length (bc_valid c) = NBUF \<and> length (bc_data c) = NBUF \<and>
     (\<forall>b\<in>set (bc_data c). length b = BSIZE) \<and> (\<forall>n. length (bc_disk c n) = BSIZE)"

definition log_typed :: "log \<Rightarrow> bool" where
  "log_typed g \<longleftrightarrow> length (lh_blocknos g) = LOGSIZE - 1"

definition dinode_typed :: "dinode \<Rightarrow> bool" where
  "dinode_typed di \<longleftrightarrow> length (di_addrs di) = NDIRECT + 1"

definition fs_typed :: "fs \<Rightarrow> bool" where
  "fs_typed s \<longleftrightarrow> bc_typed (fs_bc s) \<and> log_typed (fs_log s) \<and> length (fs_meta s) = NINODE \<and>
     length (fs_data s) = NINODE \<and> (\<forall>x\<in>set (fs_data s). dinode_typed (id_dinode x))"

text \<open>The state is typed again after a step that started typed.\<close>

definition bc_keeps :: "bcache \<Rightarrow> bcache \<Rightarrow> bool" where
  "bc_keeps c c' \<longleftrightarrow> (bc_typed c \<longrightarrow> bc_typed c')"

definition fs_keeps :: "fs \<Rightarrow> fs \<Rightarrow> bool" where
  "fs_keeps s s' \<longleftrightarrow> (fs_typed s \<longrightarrow> fs_typed s')"

lemma bc_keeps_refl [simp]: "bc_keeps c c"
  by (simp add: bc_keeps_def)

lemma fs_keeps_refl [simp]: "fs_keeps s s"
  by (simp add: fs_keeps_def)

lemma fs_keeps_trans: "fs_keeps s s1 \<Longrightarrow> fs_keeps s1 s2 \<Longrightarrow> fs_keeps s s2"
  by (simp add: fs_keeps_def)

lemma typed_new: "\<forall>n. length (disk n) = BSIZE \<Longrightarrow> fs_typed (fs_new disk)"
  by (simp add: fs_typed_def fs_new_def bc_typed_def bcache_new_def buf_lru_new_def Let_def log_typed_def log_unint_def
      dinode_typed_def inode_data_new_def dinode_new_def)

lemma set_update: "(\<And>x. x \<in> set xs \<Longrightarrow> P x) \<Longrightarrow> P y \<Longrightarrow> x \<in> set (xs[i := y]) \<Longrightarrow> P x"
  by (metis insert_iff set_update_subset_insert subsetD)

section \<open>The buffer cache\<close>

lemma find_cached_types [THEN okRD, types]:
  "okR (\<lambda>(r, l'). length (lru_inner l') = length (lru_inner l)) (find_cached dev b l)"
proof -
  have "okR (\<lambda>(r, l'). length (lru_inner l') = length (lru_inner l)) (find_cached_loop n dev b i l)" for n i
    by (induction n arbitrary: i) (auto intro!: okR_intros)
  then show ?thesis by (simp add: find_cached_def)
qed

lemma recycle_types [THEN okRD, types]:
  "okR (\<lambda>(r, l'). length (lru_inner l') = length (lru_inner l)) (recycle dev b l)"
proof -
  have "okR (\<lambda>(r, l'). length (lru_inner l') = length (lru_inner l)) (recycle_loop n dev b i l)" for n i
    by (induction n arbitrary: i) (auto intro!: okR_intros)
  then show ?thesis by (simp add: recycle_def)
qed

lemma inner_set_types [THEN okRD, types]: "okR (\<lambda>xs'. length xs' = length xs) (inner_set i f xs)"
  unfolding inner_set_def by (auto simp: okR_def outcome_simps)

lemma move_if_no_ref_types [THEN okRD, types]:
  "okR (\<lambda>l'. length (lru_inner l') = length (lru_inner l)) (move_if_no_ref i l)"
  unfolding move_if_no_ref_def by (intro okR_intros) (auto dest!: types)

lemma disk_rw_types [THEN okRD, types]: "okR (bc_keeps c) (disk_rw b w c)"
  unfolding disk_rw_def
  by (intro okR_intros) (auto simp: bc_keeps_def bc_typed_def outcome_simps intro: set_update [where P = "\<lambda>b. length b = BSIZE"])

lemma bcache_get_types [THEN okRD, types]: "okR (\<lambda>(b, c'). bc_keeps c c') (bcache_get dev bn c)"
  unfolding bcache_get_def
  by (intro okR_intros) (auto simp: bc_keeps_def bc_typed_def outcome_simps dest!: types)

lemma bcache_read_types [THEN okRD, types]: "okR (\<lambda>(b, c'). bc_keeps c c') (bcache_read dev bn c)"
  unfolding bcache_read_def
  by (intro okR_intros) (auto simp: bc_keeps_def outcome_simps dest!: types, auto simp: bc_typed_def)

lemma bcache_release_types [THEN okRD, types]: "okR (bc_keeps c) (bcache_release i c)"
  unfolding bcache_release_def by (intro okR_intros) (auto simp: bc_keeps_def bc_typed_def dest!: types)

lemma buf_drop_types [THEN okRD, types]: "okR (bc_keeps c) (buf_drop b c)"
  unfolding buf_drop_def by (auto simp: okR_def dest!: types)

lemma buf_write_types [THEN okRD, types]: "okR (bc_keeps c) (buf_write b c)"
  unfolding buf_write_def by (auto simp: okR_def dest!: types)

lemma raw_data_types [THEN okRD, types]: "okR (\<lambda>x. bc_typed c \<longrightarrow> length x = BSIZE) (raw_data b c)"
  unfolding raw_data_def by (auto simp: okR_def outcome_simps bc_typed_def)

lemma set_raw_data_types [THEN okRD, types]: "okR (\<lambda>c'. length x = BSIZE \<longrightarrow> bc_keeps c c') (set_raw_data b x c)"
  unfolding set_raw_data_def
  by (intro okR_intros) (auto simp: bc_keeps_def bc_typed_def outcome_simps intro: set_update [where P = "\<lambda>b. length b = BSIZE"])

lemma buf_pin_types [THEN okRD, types]: "okR (bc_keeps c) (buf_pin b c)" "okR (bc_keeps c) (buf_unpin b c)"
  unfolding buf_pin_def buf_unpin_def upd_refcnt_def by (auto simp: okR_def bc_keeps_def bc_typed_def outcome_simps)

section \<open>The log\<close>

lemma length_concat_le: "length (concat (map (to_le n) xs)) = n * length xs"
  by (induction xs) simp_all

lemma header_length: "length bs = LOGSIZE - 1 \<Longrightarrow> length (header_bytes n bs) = 4 * LOGSIZE"
  by (simp add: header_bytes_def length_concat_le LOGSIZE_def MAXOPBLOCKS_def)

lemma read_head_types [THEN okRD, types]: "okR (\<lambda>(g', c'). log_typed g' \<and> bc_keeps c c') (read_head g c)"
  unfolding read_head_def
  by (intro okR_intros) (auto simp: log_typed_def header_blocknos_def bc_keeps_def dest!: types)

lemma write_head_types [THEN okRD, types]: "okR (\<lambda>c'. log_typed g \<longrightarrow> bc_keeps c c') (write_head g c)"
  unfolding write_head_def
  by (intro okR_intros) (auto simp: okR_def log_typed_def header_length bc_keeps_def LOGSIZE_def MAXOPBLOCKS_def BSIZE_def dest!: types)

lemma empty_head_types [THEN okRD, types]: "okR (\<lambda>(g', c'). log_typed g' = log_typed g \<and> bc_keeps c c') (empty_head g c)"
  unfolding empty_head_def
  by (intro okR_intros) (auto simp: okR_def outcome_simps log_typed_def bc_keeps_def BSIZE_def dest!: types)

lemma install_one_types [THEN okRD, types]: "okR (bc_keeps c) (install_one r g i c)"
  unfolding install_one_def
  by (intro okR_intros) (auto simp: okR_def bc_keeps_def split: if_splits dest!: types)

lemma install_trans_types [THEN okRD, types]: "okR (bc_keeps c) (install_trans r g c)"
  unfolding install_trans_def by (rule foldR_ok) (auto simp: bc_keeps_def dest!: types)

lemma write_log_one_types [THEN okRD, types]: "okR (bc_keeps c) (write_log_one g i c)"
  unfolding write_log_one_def by (intro okR_intros) (auto simp: okR_def bc_keeps_def dest!: types)

lemma write_log_types [THEN okRD, types]: "okR (bc_keeps c) (write_log g c)"
  unfolding write_log_def by (rule foldR_ok) (auto simp: bc_keeps_def dest!: types)

lemma commit_types [THEN okRD, types]:
  "okR (\<lambda>(g', c'). log_typed g \<longrightarrow> log_typed g' \<and> bc_keeps c c') (commit_no_lock g c)"
  unfolding commit_no_lock_def by (intro okR_intros) (auto simp: okR_def bc_keeps_def dest!: types)

lemma log_init_types [THEN okRD, types]: "okR (\<lambda>(g', c'). log_typed g' \<and> bc_keeps c c') (log_init dev p g c)"
  unfolding log_init_def log_recover_def by (intro okR_intros) (auto simp: okR_def bc_keeps_def dest!: types)

lemma begin_op_types [THEN okRD, types]: "okR (\<lambda>r. \<forall>g'. r = Some g' \<longrightarrow> log_typed g' = log_typed g) (begin_op g)"
  unfolding begin_op_def by (intro okR_intros) (auto simp: log_typed_def)

lemma log_write_types [THEN okRD, types]:
  "okR (\<lambda>(g', c'). (log_typed g \<longrightarrow> log_typed g') \<and> bc_keeps c c') (log_write b g c)"
  unfolding log_write_def
  by (intro okR_intros) (auto simp: log_typed_def bc_keeps_def outcome_simps dest!: types)

lemma end_op_types [THEN okRD, types]:
  "okR (\<lambda>(g', c'). log_typed g \<longrightarrow> log_typed g' \<and> bc_keeps c c') (end_op g c)"
  unfolding end_op_def by (intro okR_intros) (auto simp: log_typed_def bc_keeps_def dest!: types)

section \<open>Blocks\<close>

lemma put_bytes_length: "off + length bs \<le> length x \<Longrightarrow> length (put_bytes off bs x) = length x"
  by (simp add: put_bytes_def)

lemma dinode_bytes_length: "dinode_typed di \<Longrightarrow> length (dinode_bytes di) = 64"
  by (simp add: dinode_typed_def dinode_bytes_def length_concat_le NDIRECT_def)

lemma dinode_of_typed [simp]: "dinode_typed (dinode_of x)" "dinode_typed (get_dinode inum x)"
  by (simp_all add: dinode_typed_def dinode_of_def get_dinode_def)

lemma put_dinode_length: "dinode_typed di \<Longrightarrow> length x = BSIZE \<Longrightarrow> length (put_dinode inum di x) = BSIZE"
proof -
  assume h: "dinode_typed di" "length x = BSIZE"
  have "inode_offset inum < 16" by (simp add: inode_offset_def IPB_def BSIZE_def)
  then show ?thesis using h by (simp add: put_dinode_def put_bytes_length dinode_bytes_length BSIZE_def)
qed

lemma fs_bread_types [THEN okRD, types]: "okR (\<lambda>(h, s'). fs_keeps s s') (fs_bread dev b s)"
  unfolding fs_bread_def by (intro okR_intros) (auto simp: fs_keeps_def fs_typed_def bc_keeps_def dest!: types)

lemma fs_raw_types [THEN okRD, types]: "okR (\<lambda>x. fs_typed s \<longrightarrow> length x = BSIZE) (fs_raw h s)"
  unfolding fs_raw_def by (auto simp: okR_def fs_typed_def dest!: types)

lemma fs_set_types [THEN okRD, types]: "okR (\<lambda>s'. length x = BSIZE \<longrightarrow> fs_keeps s s') (fs_set h x s)"
  unfolding fs_set_def by (intro okR_intros) (auto simp: fs_keeps_def fs_typed_def bc_keeps_def dest!: types)

lemma fs_bdrop_types [THEN okRD, types]: "okR (fs_keeps s) (fs_bdrop h s)"
  unfolding fs_bdrop_def by (intro okR_intros) (auto simp: fs_keeps_def fs_typed_def bc_keeps_def dest!: types)

lemma fs_log_write_types [THEN okRD, types]: "okR (fs_keeps s) (fs_log_write h s)"
  unfolding fs_log_write_def by (intro okR_intros) (auto simp: fs_keeps_def fs_typed_def bc_keeps_def dest!: types)

lemma fs_typed_sb [simp]:
  "fs_typed (s\<lparr>fs_sb := b\<rparr>) = fs_typed s" "fs_typed (s\<lparr>fs_sb_init := i\<rparr>) = fs_typed s"
  "fs_typed (s\<lparr>fs_meta := ms\<rparr>) \<longleftrightarrow> bc_typed (fs_bc s) \<and> log_typed (fs_log s) \<and> length ms = NINODE \<and>
     length (fs_data s) = NINODE \<and> (\<forall>x\<in>set (fs_data s). dinode_typed (id_dinode x))"
  by (simp_all add: fs_typed_def)

lemma fs_init_types [THEN okRD, types]: "okR (fs_keeps s) (fs_init dev s)"
proof -
  have sb: "okR (fs_keeps s) (superblock_init dev s)" for s
    unfolding superblock_init_def by (intro okR_intros) (auto simp: okR_def fs_keeps_def dest!: types)
  show ?thesis
    unfolding fs_init_def
    by (intro okR_intros) (auto simp: fs_keeps_def fs_typed_def bc_keeps_def dest!: sb [THEN okRD] types)
qed

section \<open>Bitmap and on-disk inodes\<close>

lemma bitmap_free_types [THEN okRD, types]: "okR (fs_keeps s) (bitmap_free dev b s)"
  unfolding bitmap_free_def by (intro okR_intros) (auto simp: okR_def fs_keeps_def dest!: types)

lemma bitmap_alloc_types [THEN okRD, types]: "okR (\<lambda>(b, s'). fs_keeps s s') (bitmap_alloc dev s)"
proof -
  have "okR (\<lambda>(b, s'). fs_keeps s s') (bitmap_alloc_from dev bs s)" for bs
  proof (induction bs arbitrary: s)
    case (Cons b bs)
    show ?case
      unfolding bitmap_alloc_from.simps
      by (intro okR_intros) (auto simp: okR_def fs_keeps_def dest!: types Cons [THEN okRD])
  qed (simp add: okR_def)
  then show ?thesis by (simp add: bitmap_alloc_def)
qed

lemma find_inode_types [THEN okRD, types]: "okR (\<lambda>(h, s'). fs_keeps s s') (find_inode dev inum s)"
  unfolding find_inode_def by (intro okR_intros) (auto simp: okR_def dest!: types)

lemma try_alloc_typed: "try_alloc ty di = Some d \<Longrightarrow> dinode_typed d"
  by (auto simp: try_alloc_def dinode_typed_def dinode_new_def split: if_splits)

lemma dinode_try_types [THEN okRD, types]: "okR (\<lambda>(b, s'). fs_keeps s s') (dinode_try dev ty inum s)"
  unfolding dinode_try_def
  by (intro okR_intros) (auto simp: fs_keeps_def put_dinode_length dest!: types try_alloc_typed)

lemma dinode_search_types [THEN okRD, types]: "okR (\<lambda>(b, s'). fs_keeps s s') (dinode_search dev ty is s)"
proof (induction "is" arbitrary: s)
  case (Cons i "is")
  show ?case
    unfolding dinode_search.simps
    by (intro okR_intros) (auto simp: okR_def fs_keeps_def dest!: types Cons [THEN okRD])
qed (simp add: okR_def)

lemma dinode_alloc_types [THEN okRD, types]: "okR (\<lambda>(b, s'). fs_keeps s s') (dinode_alloc dev ty s)"
  unfolding dinode_alloc_def by (intro okR_intros) (auto dest!: types)

section \<open>Inodes\<close>

lemma get_idata_types [THEN okRD, types]: "okR (\<lambda>x. fs_typed s \<longrightarrow> dinode_typed (id_dinode x)) (get_idata i s)"
  unfolding get_idata_def by (auto simp: okR_def outcome_simps fs_typed_def)

lemma set_idata_types [THEN okRD, types]: "okR (\<lambda>s'. dinode_typed (id_dinode x) \<longrightarrow> fs_keeps s s') (set_idata i x s)"
  unfolding set_idata_def
  by (intro okR_intros)
    (auto simp: fs_keeps_def fs_typed_def outcome_simps intro: set_update [where P = "\<lambda>x. dinode_typed (id_dinode x)"])

lemma upd_dinode_types:
  assumes "\<And>d. dinode_typed (f d) = dinode_typed d"
  shows "okR (fs_keeps s) (upd_dinode i f s)"
  unfolding upd_dinode_def by (intro okR_intros) (auto simp: okR_def fs_keeps_def assms dest!: types)

lemma upd_dinode_fields [THEN okRD, types]:
  "okR (fs_keeps s) (upd_dinode i (\<lambda>d. d\<lparr>di_addrs := (di_addrs d)[k := a]\<rparr>) s)"
  "okR (fs_keeps s) (upd_dinode i (\<lambda>d. d\<lparr>di_size := n\<rparr>) s)"
  "okR (fs_keeps s) (upd_dinode i (\<lambda>d. d\<lparr>di_type := ty\<rparr>) s)"
  "okR (fs_keeps s) (upd_dinode i (\<lambda>d. d\<lparr>di_nlink := g (di_nlink d)\<rparr>) s)"
  "okR (fs_keeps s) (upd_dinode i (\<lambda>d. d\<lparr>di_type := ty, di_major := ma, di_minor := mi, di_nlink := l\<rparr>) s)"
  by (rule upd_dinode_types, simp add: dinode_typed_def)+

lemma set_refs_types [THEN okRD, types]: "okR (fs_keeps s) (set_refs i f s)"
  unfolding set_refs_def by (intro okR_intros) (auto simp: fs_keeps_def fs_typed_def)

lemma inode_clone_types [THEN okRD, types]: "okR (\<lambda>(ip', s'). fs_keeps s s') (inode_clone ip s)"
  unfolding inode_clone_def by (intro okR_intros) (auto dest!: types)

lemma icache_get_types [THEN okRD, types]: "okR (\<lambda>(ip, s'). fs_keeps s s') (icache_get dev inum s)"
  unfolding icache_get_def by (intro okR_intros) (auto simp: fs_keeps_def fs_typed_def dest!: types)

lemma inode_lock_types [THEN okRD, types]: "okR (fs_keeps s) (inode_lock ip s)"
  unfolding inode_lock_def by (intro okR_intros) (auto simp: fs_keeps_def dest!: types)

lemma inode_update_types [THEN okRD, types]: "okR (fs_keeps s) (inode_update i s)"
  unfolding inode_update_def by (intro okR_intros) (auto simp: okR_def fs_keeps_def put_dinode_length dest!: types)

lemma free_direct_types [THEN okRD, types]: "okR (fs_keeps s) (free_direct dev i k s)"
  unfolding free_direct_def by (intro okR_intros) (auto simp: okR_def fs_keeps_def dest!: types)

lemma foldR_free_types [THEN okRD, types]:
  "okR (fs_keeps s) (foldR (free_direct dev i) ks s)"
  "okR (fs_keeps s) (foldR (\<lambda>a s. if 0 < a then bitmap_free dev a s else Inr s) as s)"
  by (rule foldR_ok; auto simp: fs_keeps_def split: if_splits dest!: types)+

lemma inode_truncate_types [THEN okRD, types]: "okR (fs_keeps s) (inode_truncate ip i s)"
proof -
  have ind: "okR (fs_keeps s) (if 0 < ind
       then bindR (fs_bread (ino_dev ip) ind s) (\<lambda>(h, s).
         bindR (fs_raw h s) (\<lambda>b.
           bindR (foldR (\<lambda>a s. if 0 < a then bitmap_free (ino_dev ip) a s else Inr s) (indirect_addrs b) s) (\<lambda>s.
             bindR (fs_bdrop h s) (\<lambda>s.
               bindR (bitmap_free (ino_dev ip) ind s) (\<lambda>s.
                 upd_dinode i (\<lambda>d. d\<lparr>di_addrs := (di_addrs d)[NDIRECT := 0]\<rparr>) s)))))
       else Inr s)" for ind s
    by (intro okR_intros) (auto simp: okR_def fs_keeps_def dest!: types)
  show ?thesis
    unfolding inode_truncate_def
    by (intro okR_intros) (auto simp: okR_def fs_keeps_def dest!: types ind [THEN okRD])
qed

lemma icache_put_types [THEN okRD, types]: "okR (fs_keeps s) (icache_put ip s)"
  unfolding icache_put_def Let_def by (intro okR_intros) (auto simp: okR_def fs_keeps_def dest!: types)

lemma icache_alloc_types [THEN okRD, types]: "okR (\<lambda>(r, s'). fs_keeps s s') (icache_alloc dev ty s)"
  unfolding icache_alloc_def by (intro okR_intros) (auto simp: fs_keeps_def dest!: types)

section \<open>Contents of files\<close>

lemma inode_map_types [THEN okRD, types]: "okR (\<lambda>(b, s'). fs_keeps s s') (inode_map i bn s)"
proof -
  have ind: "okR (fs_keeps s) (if a \<noteq> 0
      then bindR (bitmap_alloc dev s) (\<lambda>(addr, s). upd_dinode i (\<lambda>d. d\<lparr>di_addrs := (di_addrs d)[NDIRECT := addr]\<rparr>) s)
      else Inr s)" for a dev s
    by (intro okR_intros) (auto simp: okR_def fs_keeps_def dest!: types)
  have word: "length (put_bytes (4 * (unat bn - NDIRECT)) (to_le 4 (a :: u32)) x) = BSIZE"
    if "unat bn < NINDIRECT + NDIRECT" "length x = BSIZE" for a x
    using that by (subst put_bytes_length) (simp_all add: NINDIRECT_def NDIRECT_def BSIZE_def)
  show ?thesis
    unfolding inode_map_def Let_def
    by (intro okR_intros) (auto simp: fs_keeps_def word dest!: types ind [THEN okRD])
qed

declare inode_read_loop.simps [simp del] inode_write_loop.simps [simp del]

lemma inode_read_loop_types [THEN okRD, types]:
  "okR (\<lambda>(n, m', s'). fs_keeps s s') (inode_read_loop wr i count tot offset dst m s)"
proof (induction wr i count tot offset dst m s rule: inode_read_loop.induct)
  case (1 wr i count tot offset dst m s)
  show ?case unfolding inode_read_loop.simps [of wr i count tot offset dst m s]
  proof (intro okR_intros, goal_cases)
    case (1 xa b s1 x xb h s2 bs m' dst' s3)
    then have "fs_keeps s s3" by (auto simp: fs_keeps_def dest!: types)
    with 1 show ?case by (intro okR_weaken [OF "1.IH"]) (auto intro: fs_keeps_trans)
  qed simp
qed

lemma inode_read_types [THEN okRD, types]: "okR (\<lambda>(r, m', s'). fs_keeps s s') (inode_read wr i dst off n m s)"
  unfolding inode_read_def by (intro okR_intros) (auto dest!: types)

text \<open>The bytes written come from a function that returns at most as many as it is asked for.\<close>

definition reads_at_most :: "(usize \<Rightarrow> nat \<Rightarrow> u8 list outcome) \<Rightarrow> bool" where
  "reads_at_most rd \<longleftrightarrow> (\<forall>a n bs. rd a n = Inr bs \<longrightarrow> length bs \<le> n)"

lemma inode_write_loop_types [THEN okRD, types]:
  "okR (\<lambda>(n, o', s'). reads_at_most rd \<longrightarrow> fs_keeps s s') (inode_write_loop rd i count tot offset src s)"
proof (induction rd i count tot offset src s rule: inode_write_loop.induct)
  case (1 rd i count tot offset src s)
  have len: "length (put_bytes (offset mod BSIZE) bs x) = BSIZE"
    if "reads_at_most rd" "rd src (min (count - tot) (BSIZE - offset mod BSIZE)) = Inr bs" "length x = BSIZE" for bs x
  proof -
    have "length bs \<le> BSIZE - offset mod BSIZE" using that(1,2) by (fastforce simp: reads_at_most_def)
    moreover have "offset mod BSIZE < BSIZE" by (simp add: BSIZE_def)
    ultimately show ?thesis using that(3) by (subst put_bytes_length) simp_all
  qed
  show ?case unfolding inode_write_loop.simps [of rd i count tot offset src s]
  proof (intro okR_intros, goal_cases)
    case (1 xa b s1 x xb h s2 bl bs s3 src' s4)
    then have "reads_at_most rd \<longrightarrow> fs_keeps s s4" by (auto simp: fs_keeps_def len dest!: types)
    with 1 show ?case by (intro okR_weaken [OF "1.IH"]) (auto intro: fs_keeps_trans)
  qed simp
qed

lemma inode_write_types [THEN okRD, types]:
  "okR (\<lambda>(r, s'). reads_at_most rd \<longrightarrow> fs_keeps s s') (inode_write rd i src off n s)"
  unfolding inode_write_def
  by (intro okR_intros) (auto simp: fs_keeps_def split: if_splits dest!: types)

section \<open>Directories and paths\<close>

lemma local_rd_at_most [simp]: "reads_at_most (local_rd m)"
  by (auto simp: reads_at_most_def local_rd_def)

lemma read_entry_types [THEN okRD, types]: "okR (\<lambda>(de', s'). fs_keeps s s') (read_entry i off de s)"
  unfolding read_entry_def by (intro okR_intros) (auto dest!: types)

lemma dir_lookup_types [THEN okRD, types]: "okR (\<lambda>(r, s'). fs_keeps s s') (dir_lookup i name s)"
proof -
  have "okR (\<lambda>(r, s'). fs_keeps s s') (dir_lookup_loop i name offs de s)" for offs de
  proof (induction offs arbitrary: de s)
    case (Cons off offs)
    show ?case
      unfolding dir_lookup_loop.simps
      by (intro okR_intros) (auto simp: okR_def fs_keeps_def dest!: types Cons [THEN okRD])
  qed (simp add: okR_def)
  then show ?thesis unfolding dir_lookup_def by (intro okR_intros)
qed

lemma dir_link_types [THEN okRD, types]: "okR (\<lambda>(r, s'). fs_keeps s s') (dir_link i name inum s)"
proof -
  have loop: "okR (\<lambda>(r, s'). fs_keeps s s') (dir_link_loop i offs eo de s)" for offs eo de s
  proof (induction offs arbitrary: eo de s)
    case (Cons off offs)
    show ?case
      unfolding dir_link_loop.simps
      by (intro okR_intros) (auto simp: okR_def fs_keeps_def dest!: types Cons [THEN okRD])
  qed (simp add: okR_def)
  show ?thesis
    unfolding dir_link_def by (intro okR_intros) (auto simp: fs_keeps_def dest!: types loop [THEN okRD])
qed

lemma is_dir_empty_types [THEN okRD, types]: "okR (\<lambda>(r, s'). fs_keeps s s') (is_dir_empty i s)"
proof -
  have "okR (\<lambda>(r, s'). fs_keeps s s') (is_dir_empty_loop i offs de s)" for offs de
  proof (induction offs arbitrary: de s)
    case (Cons off offs)
    show ?case
      unfolding is_dir_empty_loop.simps
      by (intro okR_intros) (auto simp: okR_def fs_keeps_def dest!: types Cons [THEN okRD])
  qed (simp add: okR_def)
  then show ?thesis unfolding is_dir_empty_def by (intro okR_intros)
qed

lemma namex_types [THEN okRD, types]: "okR (\<lambda>(r, name', s'). fs_keeps s s') (namex cwd path name par s)"
proof -
  have loop: "okR (\<lambda>(r, name', s'). fs_keeps s s') (namex_loop n path par cur name ip s)" for n cur name ip s
  proof (induction n arbitrary: cur name ip s)
    case (Suc n)
    show ?case
      unfolding namex_loop.simps
      by (intro okR_intros) (auto simp: okR_def fs_keeps_def dest!: types Suc [THEN okRD])
  qed (simp add: okR_def)
  have start: "okR (\<lambda>(ip, s'). fs_keeps s s') (if c = SLASH then icache_get ROOTDEV ROOTINUM s
      else bindR (unwrap cwd) (\<lambda>ip. inode_clone ip s))" for c
    by (intro okR_intros) (auto simp: okR_def dest!: types)
  show ?thesis
    unfolding namex_def
    by (intro okR_intros) (auto simp: okR_def fs_keeps_def simp del: namex_loop.simps dest!: start [THEN okRD] loop [THEN okRD])
qed

lemma namei_types [THEN okRD, types]: "okR (\<lambda>(r, s'). fs_keeps s s') (namei cwd path s)"
  unfolding namei_def by (intro okR_intros) (auto dest!: types)

lemma namei_parent_types [THEN okRD, types]: "okR (\<lambda>(r, name', s'). fs_keeps s s') (namei_parent cwd path name s)"
  unfolding namei_parent_def by (auto simp: okR_def dest!: types)

lemma link_dots_types [THEN okRD, types]: "okR (\<lambda>(r, s'). fs_keeps s s') (link_dots ip s)"
  unfolding link_dots_def by (intro okR_intros) (auto simp: okR_def fs_keeps_def dest!: types)

lemma inode_create_types [THEN okRD, types]: "okR (\<lambda>(r, s'). fs_keeps s s') (inode_create cwd path ty ma mi s)"
  unfolding inode_create_def
  by (intro okR_intros) (auto simp: fs_keeps_def split: if_splits dest!: types)

end
