(* ===== verification/Rx_Refs.thy ===== *)
theory Rx_Refs
  imports Rx_Syscall "HOL-Library.Multiset"
begin

text \<open>
  Sharing of open files. A file object is shared by descriptors of one or several processes; its
  reference count decides when it is closed. Every system call keeps the count of each object equal
  to the number of descriptors that name it. Between its steps a handler also holds references in
  local variables; they are the multiset \<open>e\<close> of the invariant.
\<close>

section \<open>Counting\<close>

definition fd_tables :: "'v kern \<Rightarrow> nat option list list" where
  "fd_tables k = map (\<lambda>p. pd_open_files (pr_data p)) (pt_proc (k_tab k))"

definition fd_count :: "nat \<Rightarrow> nat option list list \<Rightarrow> nat" where
  "fd_count a ls = sum_list (map (\<lambda>fs. count_list fs (Some a)) ls)"

definition ref_counts :: "'v kern \<Rightarrow> nat \<Rightarrow> nat option" where
  "ref_counts k a = map_option fo_refs (k_files k a)"

definition refs_ok :: "nat multiset \<Rightarrow> 'v kern \<Rightarrow> bool" where
  "refs_ok e k \<longleftrightarrow> (\<forall>a. ref_counts k a \<noteq> Some 0 \<and>
     fd_count a (fd_tables k) + count e a = (case ref_counts k a of None \<Rightarrow> 0 | Some n \<Rightarrow> n))"

text \<open>File objects are not on the free list of the page allocator.\<close>

definition files_backed :: "'v kern \<Rightarrow> bool" where
  "files_backed k \<longleftrightarrow> (\<exists>hs ps. ka_inv hs ps (k_mem k) \<and> (\<forall>p\<in>set ps. k_files k (unat p) = None))"

text \<open>What an operation that leaves descriptors and counts alone keeps.\<close>

definition same_refs :: "'v kern \<Rightarrow> 'v kern \<Rightarrow> bool" where
  "same_refs k k' \<longleftrightarrow> ref_counts k' = ref_counts k \<and> fd_tables k' = fd_tables k"

definition same_tables :: "'i ptable \<Rightarrow> 'i ptable \<Rightarrow> bool" where
  "same_tables t t' \<longleftrightarrow> map (\<lambda>p. pd_open_files (pr_data p)) (pt_proc t') = map (\<lambda>p. pd_open_files (pr_data p)) (pt_proc t)"

lemma same_refs_ok: "same_refs k k' \<Longrightarrow> refs_ok e k \<Longrightarrow> refs_ok e k'"
  by (simp add: same_refs_def refs_ok_def)

lemma same_refs_refl [simp]: "same_refs k k"
  by (simp add: same_refs_def)

lemma same_refs_trans: "same_refs k k1 \<Longrightarrow> same_refs k1 k2 \<Longrightarrow> same_refs k k2"
  by (simp add: same_refs_def)

lemma same_tables_refl [simp]: "same_tables t t"
  by (simp add: same_tables_def)

lemma same_tables_trans: "same_tables t t1 \<Longrightarrow> same_tables t1 t2 \<Longrightarrow> same_tables t t2"
  by (simp add: same_tables_def)

lemma same_refs_upd [simp]:
  "same_refs k (k'\<lparr>k_mem := m\<rparr>) \<longleftrightarrow> same_refs k k'"
  "same_refs k (k'\<lparr>k_fs := s\<rparr>) \<longleftrightarrow> same_refs k k'"
  "same_refs k (k'\<lparr>k_con := c\<rparr>) \<longleftrightarrow> same_refs k k'"
  "same_refs k (k'\<lparr>k_uart := u\<rparr>) \<longleftrightarrow> same_refs k k'"
  "same_refs k (k'\<lparr>k_port := v\<rparr>) \<longleftrightarrow> same_refs k k'"
  "same_refs k (k'\<lparr>k_pipes := q\<rparr>) \<longleftrightarrow> same_refs k k'"
  "same_refs (k\<lparr>k_mem := m\<rparr>) k' \<longleftrightarrow> same_refs k k'"
  "same_refs (k\<lparr>k_fs := s\<rparr>) k' \<longleftrightarrow> same_refs k k'"
  by (simp_all add: same_refs_def ref_counts_def fd_tables_def fun_eq_iff)

lemma same_refs_tab [simp]: "same_tables (k_tab k') t \<Longrightarrow> same_refs k (k'\<lparr>k_tab := t\<rparr>) \<longleftrightarrow> same_refs k k'"
  by (simp add: same_refs_def ref_counts_def fd_tables_def same_tables_def fun_eq_iff)

text \<open>The operations of the file system also leave the memory and the file objects.\<close>

definition fs_only :: "'v kern \<Rightarrow> 'v kern \<Rightarrow> bool" where
  "fs_only k k' \<longleftrightarrow> k_files k' = k_files k \<and> k_mem k' = k_mem k \<and> same_tables (k_tab k) (k_tab k')"

lemma fs_only_same: "fs_only k k' \<Longrightarrow> same_refs k k'"
  by (simp add: fs_only_def same_refs_def ref_counts_def fd_tables_def same_tables_def fun_eq_iff)

lemma fs_only_backed: "fs_only k k' \<Longrightarrow> files_backed k \<Longrightarrow> files_backed k'"
  by (simp add: fs_only_def files_backed_def)

lemma fs_only_trans: "fs_only k k1 \<Longrightarrow> fs_only k1 k2 \<Longrightarrow> fs_only k k2"
  by (auto simp: fs_only_def intro: same_tables_trans)

lemma fs_only_refl [simp]: "fs_only k k"
  by (simp add: fs_only_def)

lemma fs_only_fs [simp]: "fs_only k (k'\<lparr>k_fs := s\<rparr>) \<longleftrightarrow> fs_only k k'"
  by (simp add: fs_only_def)

lemma fs_only_tab: "same_tables (k_tab k') t \<Longrightarrow> fs_only k k' \<Longrightarrow> fs_only k (k'\<lparr>k_tab := t\<rparr>)"
  by (auto simp: fs_only_def intro: same_tables_trans)

section \<open>The process table\<close>

lemma upd_meta_tables [THEN okRD, frames]: "okR (same_tables t) (upd_meta i f t)"
  unfolding upd_meta_def
  by (intro okR_intros) (auto simp: get_proc_def outcome_simps same_tables_def map_update_same)

lemma upd_data_tables:
  assumes "\<And>d. pd_open_files (f d) = pd_open_files d"
  shows "okR (same_tables t) (upd_data i f t)"
  unfolding upd_data_def
  by (intro okR_intros) (auto simp: assms get_proc_def outcome_simps same_tables_def map_update_same)

lemma upd_data_fields [THEN okRD, frames]:
  "okR (same_tables t) (upd_data i (\<lambda>d. d\<lparr>pd_trapframe := tf\<rparr>) t)"
  "okR (same_tables t) (upd_data i (\<lambda>d. d\<lparr>pd_pagetable := pgt\<rparr>) t)"
  "okR (same_tables t) (upd_data i (\<lambda>d. d\<lparr>pd_size := n\<rparr>) t)"
  "okR (same_tables t) (upd_data i (\<lambda>d. d\<lparr>pd_pagetable := pgt, pd_size := n\<rparr>) t)"
  "okR (same_tables t) (upd_data i (\<lambda>d. (set_name nm d)\<lparr>pd_pagetable := pgt\<rparr>) t)"
  "okR (same_tables t) (upd_data i (\<lambda>d. d\<lparr>pd_cwd := c\<rparr>) t)"
  "okR (same_tables t) (upd_data i (\<lambda>d. d\<lparr>pd_name := nm, pd_size := n\<rparr>) t)"
  by (rule upd_data_tables, simp add: set_name_def Let_def)+

lemma wake_up_tables [simp]: "same_tables t (wake_up me ch t') \<longleftrightarrow> same_tables t t'"
  by (simp add: wake_up_def same_tables_def comp_def case_prod_unfold
      map_zip_index [where f = "\<lambda>p. pd_open_files (pr_data p)"]
      if_distrib [where f = "\<lambda>p. pd_open_files (pr_data p)"] cong: if_cong)

lemma wait_list_tables [simp]:
  "same_tables t (t'\<lparr>pt_wait_list := w\<rparr>) \<longleftrightarrow> same_tables t t'"
  "same_tables t (t'\<lparr>pt_idx_pids := ix\<rparr>) \<longleftrightarrow> same_tables t t'"
  "same_tables t (t'\<lparr>pt_pids := n\<rparr>) \<longleftrightarrow> same_tables t t'"
  "same_tables t (t'\<lparr>pt_init_proc := j\<rparr>) \<longleftrightarrow> same_tables t t'"
  "same_tables (t\<lparr>pt_pids := n\<rparr>) t' \<longleftrightarrow> same_tables t t'"
  by (simp_all add: same_tables_def)

lemma same_tables_wake [simp]: "same_tables (wake_up me ch t) t' \<longleftrightarrow> same_tables t t'"
  using wake_up_tables [of t me ch t] by (simp add: same_tables_def)

lemma reparent_tables [THEN okRD, frames]: "okR (same_tables t) (reparent cur me t)"
  unfolding reparent_def
  by (rule foldR_ok)
    (auto simp: reparent_one_def outcome_simps split: if_splits intro: same_tables_trans)

lemma exit_proc_tables [THEN okRD, frames]: "okR (same_tables t) (exit_proc me status h t)"
  unfolding exit_proc_def by (intro okR_intros) (auto dest!: frames intro: same_tables_trans)

lemma set_pagetable_tables [THEN okRD, frames]:
  "okR (\<lambda>(t', s'). same_tables t t') (set_pagetable i pgt t s)"
  unfolding set_pagetable_def by (intro okR_intros) (auto dest!: frames)

lemma upd_data_const [frames]:
  "upd_data i (\<lambda>_. d) t = Inr t' \<Longrightarrow> get_proc i t = Inr p \<Longrightarrow> pd_open_files d = pd_open_files (pr_data p) \<Longrightarrow>
   same_tables t t'"
  by (auto simp: upd_data_def get_proc_def outcome_simps same_tables_def map_update_same)

lemma init_context_files: "init_context fr d = Inr d' \<Longrightarrow> pd_open_files d' = pd_open_files d"
  by (auto simp: init_context_def outcome_simps)

lemma alloc_proc_tables [THEN okRD, frames]:
  "okR (\<lambda>(r, t', s'). same_tables t t') (alloc_proc tr fr t s)"
  unfolding alloc_proc_def alloc_pid_def
  by (intro okR_intros) (auto simp: same_tables_def dest!: frames dest: init_context_files)

lemma free_proc_tables [THEN okRD, frames]: "okR (\<lambda>(t', s'). same_tables t t') (free_proc i t s)"
  unfolding free_proc_def by (intro okR_intros) (auto dest!: frames intro: same_tables_trans)

lemma wait_scan_tables [THEN okRD, frames]:
  "okR (\<lambda>(r, kids', t', s'). same_tables t t') (wait_scan me addr ks kids t s)"
proof (induction ks arbitrary: kids t s)
  case (Cons j ks)
  show ?case unfolding wait_scan.simps
    by (intro okR_intros Cons.IH) (auto dest!: frames)
qed (simp add: okR_intros)

lemma wait_pass_tables [THEN okRD, frames]:
  "okR (\<lambda>(r, t', s'). same_tables t t') (wait_pass me addr t s)"
  unfolding wait_pass_def by (intro okR_intros) (auto dest!: frames)

lemma grow_proc_tables [THEN okRD, frames]:
  "okR (\<lambda>(r, t', s'). same_tables t t') (grow_proc i n t s)"
  unfolding grow_proc_def by (intro okR_intros) (auto dest!: frames)

lemma transmit_tables [frames]: "transmit rd wr me u t v = (u', t', v') \<Longrightarrow> same_tables t t'"
  by (induction rd wr me u t v rule: transmit.induct)
    (subst (asm) transmit.simps, auto split: prod.splits if_splits)

lemma console_write_tables [THEN okRD, frames]:
  "okR (\<lambda>x. case x of None \<Rightarrow> True | Some (r, u', t', v') \<Rightarrow> same_tables t t')
     (console_write rd wr pn me cur usr src sz i u t v s)"
proof (induction rd wr pn me cur usr src sz i u t v s rule: console_write.induct)
  case (1 rd wr pn me cur usr src sz i u t v s)
  show ?case unfolding console_write.simps [of rd wr pn me cur usr src sz i u t v s]
  proof (intro okR_intros, goal_cases)
    case (3 bs c y x u1 b t1 v1 src1)
    then have "same_tables t t1" by (auto simp: uart_putc_def split: if_splits dest!: frames)
    with 3 show ?case by (intro okR_weaken [OF "1.IH"]) (auto split: option.splits intro: same_tables_trans)
  qed auto
qed

lemma pipe_read_tables [THEN okRD, frames]:
  "okR (\<lambda>(r, q', t', s'). same_tables t t') (pipe_read me pa addr n q t s)"
  unfolding pipe_read_def by (intro okR_intros) auto

lemma pipe_write_tables [THEN okRD, frames]:
  "okR (\<lambda>(r, q', t'). same_tables t t') (pipe_write me pa addr n i q t s)"
  unfolding pipe_write_def by (intro okR_intros) (auto split: pipe_stop.split)

lemma pipe_close_tables [THEN okRD, frames]:
  "okR (\<lambda>(q', t', s'). same_tables t t') (pipe_close me pa w q t s)"
  unfolding pipe_close_def by (intro okR_intros) (auto split: if_splits)

section \<open>Operations that share nothing\<close>

lemma k_begin_op_fs [THEN okRD, frames]:
  "okR (\<lambda>x. case x of None \<Rightarrow> True | Some k' \<Rightarrow> fs_only k k') (k_begin_op k)"
  unfolding k_begin_op_def by (intro okR_intros) (auto split: option.splits)

lemma k_end_op_fs [THEN okRD, frames]: "okR (fs_only k) (k_end_op me k)"
  unfolding k_end_op_def by (intro okR_intros) (simp add: fs_only_def)

lemma k_put_fs [THEN okRD, frames]: "okR (fs_only k) (k_put ip k)"
  unfolding k_put_def by (intro okR_intros) simp

lemma k_put_opt_fs [THEN okRD, frames]: "okR (fs_only k) (k_put_opt x k)"
  unfolding k_put_opt_def by (intro okR_intros) (auto dest!: frames simp: okR_def)

lemma on_fs_fs [THEN okRD, frames]: "okR (\<lambda>(x, k'). fs_only k k') (on_fs f k)"
  unfolding on_fs_def by (intro okR_intros) simp

lemma do_fs_fs [THEN okRD, frames]: "okR (fs_only k) (do_fs f k)"
  unfolding do_fs_def by (intro okR_intros) simp

lemma foldR_put_fs [THEN okRD, frames]: "okR (fs_only k) (foldR k_put ips k)"
  by (rule foldR_ok) (auto dest!: frames intro: fs_only_trans)

lemma finish_fs [THEN okRD, frames]: "okR (\<lambda>(r, k'). fs_only k k') (finish me ips r k)"
  unfolding finish_def by (intro okR_intros) (auto dest!: frames intro: fs_only_trans)

lemma k_upd_cwd_fs [THEN okRD, frames]: "okR (fs_only k) (k_upd_data i (\<lambda>d. d\<lparr>pd_cwd := c\<rparr>) k)"
  unfolding k_upd_data_def by (intro okR_intros) (auto dest!: frames simp: fs_only_def)

lemma in_transaction_fs:
  assumes "\<And>k'. fs_only k k' \<Longrightarrow> okR Q (body k')" "Q (SysSleep ChanLog AtStart, k)"
  shows "okR Q (in_transaction body k)"
  unfolding in_transaction_def by (intro okR_intros assms) (auto dest!: frames)

lemma open_inode_fs [THEN okRD, frames]: "okR (\<lambda>(r, k'). fs_only k k') (open_inode me path mode k)"
  unfolding open_inode_def by (intro okR_intros) (auto dest!: frames intro: fs_only_trans)

lemma unlink_entry_fs [THEN okRD, frames]: "okR (\<lambda>(r, k'). fs_only k k') (unlink_entry me parent ip k)"
  unfolding unlink_entry_def
  by (intro okR_intros) (auto simp: okR_def outcome_simps fs_only_def same_tables_def split: if_splits dest!: frames)

lemma link_entry_fs [THEN okRD, frames]: "okR (\<lambda>(r, k'). fs_only k k') (link_entry me ip parent name k)"
  unfolding link_entry_def
  by (intro okR_intros) (auto simp: okR_def outcome_simps fs_only_def same_tables_def split: if_splits dest!: frames)

lemma my_tables: "my_data i k = Inr d \<Longrightarrow> i < length (fd_tables k) \<and> fd_tables k ! i = pd_open_files d"
  by (auto simp: my_data_def get_proc_def fd_tables_def outcome_simps)

lemma upd_file_same [THEN okRD, frames]:
  "okR (\<lambda>k'. same_refs k k' \<and> k_tab k' = k_tab k) (upd_file a (\<lambda>f. f\<lparr>vf_offset := off\<rparr>) k)"
  unfolding upd_file_def get_file_def
  by (intro okR_intros) (auto simp: outcome_simps same_refs_def ref_counts_def fd_tables_def fun_eq_iff)

lemma write_chunk_same [THEN okRD, frames]:
  "okR (\<lambda>(r, k'). same_refs k k') (write_chunk me ip addr wr n off k)"
  unfolding write_chunk_def by (intro okR_intros) simp

lemma write_loop_same [THEN okRD, frames]:
  "okR (\<lambda>(r, k'). same_refs k k') (write_loop me a addr len wr k)"
proof (induction me a addr len wr k rule: write_loop.induct)
  case (1 me a addr len wr k)
  show ?case unfolding write_loop.simps [of me a addr len wr k]
  proof (intro okR_intros, goal_cases)
    case (3 b k1 x ip y r k2 w k3 off k4)
    then have "same_refs k k4" by (auto simp: same_refs_def dest!: frames fs_only_same)
    with 3 show ?case by (intro okR_weaken [OF "1.IH"]) (auto intro: same_refs_trans)
  qed (auto simp: same_refs_def dest!: frames fs_only_same)
qed

lemma dev_read_same [THEN okRD, frames]: "okR (\<lambda>(r, k'). same_refs k k') (dev_read me addr len moved k)"
  unfolding dev_read_def by (intro okR_intros) simp

lemma dev_write_same [THEN okRD, frames]: "okR (\<lambda>(r, k'). same_refs k k') (dev_write mc me addr len moved k)"
  unfolding dev_write_def by (intro okR_intros) (auto dest!: frames)

lemma okR_file_type:
  "(z = FtNone \<Longrightarrow> okR P r1) \<Longrightarrow> (z = FtPipe \<Longrightarrow> okR P r2) \<Longrightarrow> (z = FtInode \<Longrightarrow> okR P r3) \<Longrightarrow> (z = FtDevice \<Longrightarrow> okR P r4) \<Longrightarrow>
   okR P (case z of FtNone \<Rightarrow> r1 | FtPipe \<Rightarrow> r2 | FtInode \<Rightarrow> r3 | FtDevice \<Rightarrow> r4)"
  by (cases z) simp_all

lemma vfile_read_same [THEN okRD, frames]:
  "okR (\<lambda>(r, k'). same_refs k k') (vfile_read me a addr len moved k)"
  unfolding vfile_read_def
  by (intro okR_intros okR_file_type)
    (auto simp: okR_def split: read_fn.splits dest!: frames intro: same_refs_trans)

lemma vfile_write_same [THEN okRD, frames]:
  "okR (\<lambda>(r, k'). same_refs k k') (vfile_write mc me a addr len moved k)"
  unfolding vfile_write_def
  by (intro okR_intros okR_file_type)
    (auto simp: okR_def split: write_fn.splits dest!: frames intro: same_refs_trans)

lemma vfile_stat_same [THEN okRD, frames]:
  "okR (\<lambda>(r, k'). same_refs k k') (vfile_stat mc me a addr k)"
  unfolding vfile_stat_def by (intro okR_intros) simp_all


lemma exec_fail_same [THEN okRD, frames]:
  "okR (\<lambda>(r, k'). same_refs k k') (exec_fail me free opened pgt sz ip msg k)"
  unfolding exec_fail_def
  by (intro okR_intros) (auto split: if_splits dest!: frames fs_only_same)

lemma exec_install_same [THEN okRD, frames]:
  "okR (same_refs k) (exec_install me pgt sz old_size sp path entry k)"
  unfolding exec_install_def
  by (intro okR_intros) (auto dest!: frames dest: same_tables_trans)

lemma exec_args_same [THEN okRD, frames]:
  "okR (\<lambda>(r, k'). same_refs k k') (exec_args me pgt sz old_size entry ip path argv k)"
  unfolding exec_args_def by (intro okR_intros) (auto simp: okR_def dest!: frames)

lemma exec_load_same [THEN okRD, frames]:
  "okR (\<lambda>(r, k'). same_refs k k') (exec_load mc me ip path argv eh k)"
  unfolding exec_load_def
  by (intro okR_intros) (auto simp: okR_def dest!: frames fs_only_same intro: same_refs_trans)

lemma exec_same [THEN okRD, frames]:
  "okR (\<lambda>(r, k'). same_refs k k') (exec mc me path argv k)"
  unfolding exec_def
  by (intro okR_intros) (auto simp: okR_def dest!: frames fs_only_same intro: same_refs_trans)

lemma collect_args_same [THEN okRD, frames]:
  "okR (\<lambda>(r, k'). same_refs k k') (collect_args me addr n argv k)"
proof (induction me addr n argv k rule: collect_args.induct)
  case (1 me addr n argv k)
  show ?case unfolding collect_args.simps [of me addr n argv k]
    by (intro okR_intros okR_weaken [OF "1.IH"]) (auto simp: Let_def)
qed

lemma okR_call:
  "(\<And>y. z = Returns y \<Longrightarrow> okR P (r1 y)) \<Longrightarrow> (\<And>c n. z = Sleeps c n \<Longrightarrow> okR P (r2 c n)) \<Longrightarrow> (z = Hangs \<Longrightarrow> okR P r3) \<Longrightarrow>
   (z = Exits \<Longrightarrow> okR P r4) \<Longrightarrow>
   okR P (case z of Returns y \<Rightarrow> r1 y | Sleeps c n \<Rightarrow> r2 c n | Hangs \<Rightarrow> r3 | Exits \<Rightarrow> r4)"
  by (cases z) simp_all

lemma okR_resume:
  "(z = AtStart \<Longrightarrow> okR P r1) \<Longrightarrow> (\<And>n. z = After n \<Longrightarrow> okR P (r2 n)) \<Longrightarrow> (\<And>p v. z = AtExec p v \<Longrightarrow> okR P (r3 p v)) \<Longrightarrow>
   okR P (case z of AtStart \<Rightarrow> r1 | After n \<Rightarrow> r2 n | AtExec p v \<Rightarrow> r3 p v)"
  by (cases z) simp_all

lemma exec_with_same [THEN okRD, frames]:
  "okR (\<lambda>(r, k'). same_refs k k') (exec_with mc me path argv k)"
  unfolding exec_with_def by (intro okR_intros okR_call) (auto dest!: frames)

lemma sys_exec_same [THEN okRD, frames]: "okR (\<lambda>(r, k'). same_refs k k') (sys_exec mc me rs k)"
  unfolding sys_exec_def
  by (intro okR_intros okR_resume) (auto simp: okR_def dest!: frames intro: same_refs_trans)

section \<open>Operations that share\<close>

lemma refs_ok_upd [simp]:
  "refs_ok e (k\<lparr>k_mem := m\<rparr>) \<longleftrightarrow> refs_ok e k"
  "refs_ok e (k\<lparr>k_pipes := q\<rparr>) \<longleftrightarrow> refs_ok e k"
  "same_tables (k_tab k) t \<Longrightarrow> refs_ok e (k\<lparr>k_tab := t\<rparr>) \<longleftrightarrow> refs_ok e k"
  by (simp_all add: refs_ok_def ref_counts_def fd_tables_def same_tables_def)


text \<open>The reference in a variable that may hold one.\<close>

definition held :: "nat option \<Rightarrow> nat multiset" where
  "held x = (case x of None \<Rightarrow> {#} | Some a \<Rightarrow> {#a#})"

lemma held_simps [simp]: "held None = {#}" "held (Some a) = {#a#}"
  by (simp_all add: held_def)

lemma count_list_update:
  assumes "i < length xs"
  shows "count_list (xs[i := x]) (Some a) + count (held (xs ! i)) a = count_list xs (Some a) + count (held x) a"
proof -
  have "xs ! i \<in># mset xs" using assms by simp
  then show ?thesis using assms
    by (cases x; cases "xs ! i") (auto simp flip: count_mset simp: mset_update)
qed

lemma fd_count_update:
  assumes "i < length ls" "fd < length (ls ! i)"
  shows "fd_count a (ls[i := (ls ! i)[fd := x]]) + count (held (ls ! i ! fd)) a = fd_count a ls + count (held x) a"
proof -
  have "count_list (ls ! i) (Some a) \<le> fd_count a ls"
    unfolding fd_count_def using elem_le_sum_list [of i "map (\<lambda>fs. count_list fs (Some a)) ls"] assms(1) by simp
  moreover have "fd_count a (ls[i := l]) = fd_count a ls + count_list l (Some a) - count_list (ls ! i) (Some a)" for l
    unfolding fd_count_def map_update using assms(1) by (subst sum_list_update) simp_all
  ultimately show ?thesis using count_list_update [OF assms(2), of x a] by simp
qed

lemma refs_okI:
  assumes "\<And>a. ref_counts k a \<noteq> Some 0" "\<And>a. fd_count a (fd_tables k) + count e a = (case ref_counts k a of None \<Rightarrow> 0 | Some n \<Rightarrow> n)"
  shows "refs_ok e k"
  using assms by (simp add: refs_ok_def)

lemma refs_okD:
  assumes "refs_ok e k"
  shows "ref_counts k a \<noteq> Some 0" "fd_count a (fd_tables k) + count e a = (case ref_counts k a of None \<Rightarrow> 0 | Some n \<Rightarrow> n)"
  using assms by (simp_all add: refs_ok_def)

lemma fd_set_refs:
  assumes "fd_set i fd x k = Inr k'" "fd_get i fd k = Inr old" "refs_ok (e + held x) k"
  shows "refs_ok (e + held old) k'" "k_mem k' = k_mem k" "k_files k' = k_files k"
proof -
  from assms(2) obtain d where d: "my_data i k = Inr d" "fd < length (pd_open_files d)" "old = pd_open_files d ! fd"
    by (auto simp: fd_get_def outcome_simps)
  note my = my_tables [OF d(1)]
  have k': "fd_tables k' = (fd_tables k)[i := (fd_tables k ! i)[fd := x]]" "k_files k' = k_files k" "k_mem k' = k_mem k"
    using assms(1) my by (auto simp: fd_set_def k_upd_data_def upd_data_def get_proc_def fd_tables_def outcome_simps map_update)
  show "k_mem k' = k_mem k" "k_files k' = k_files k" by (rule k')+
  have rc: "ref_counts k' = ref_counts k" by (simp add: ref_counts_def k'(2) fun_eq_iff)
  show "refs_ok (e + held old) k'"
  proof (rule refs_okI)
    fix a
    have "fd_count a (fd_tables k') + count (held old) a = fd_count a (fd_tables k) + count (held x) a"
      using fd_count_update [of i "fd_tables k" fd a x] my d(2,3) k'(1) by simp
    then show "fd_count a (fd_tables k') + count (e + held old) a = (case ref_counts k' a of None \<Rightarrow> 0 | Some n \<Rightarrow> n)"
      using refs_okD(2) [OF assms(3), of a] rc by simp
  qed (use refs_okD(1) [OF assms(3)] rc in simp)
qed

lemma ref_counts_upd:
  "ref_counts (k\<lparr>k_files := (k_files k)(a := z)\<rparr>) = (ref_counts k)(a := map_option fo_refs z)"
  "fd_tables (k\<lparr>k_files := f\<rparr>) = fd_tables k"
  by (auto simp: ref_counts_def fd_tables_def fun_eq_iff)

lemma arc_clone_refs:
  assumes "arc_clone a k = Inr k'" "refs_ok e k"
  shows "refs_ok (add_mset a e) k'"
  using assms
  by (auto simp: arc_clone_def get_file_def usize_inc_def outcome_simps refs_ok_def ref_counts_upd ref_counts_def fd_tables_def split: if_splits)

lemma vfile_drop_same [THEN okRD, frames]: "okR (same_refs k) (vfile_drop me f k)"
  unfolding vfile_drop_def
  by (intro okR_intros) (auto simp: outcome_simps split: if_splits dest!: frames)

lemma arc_drop_refs:
  assumes "arc_drop me a k = Inr k'" "refs_ok (add_mset a e) k"
  shows "refs_ok e k'"
proof -
  from assms(1) obtain x where x: "k_files k a = Some x" by (auto simp: arc_drop_def get_file_def outcome_simps)
  let ?z = "if fo_refs x = 1 then None else Some (x\<lparr>fo_refs := fo_refs x - 1\<rparr>)"
  let ?k = "k\<lparr>k_files := (k_files k)(a := ?z)\<rparr>"
  have "same_refs ?k k'"
    using assms(1) x by (auto simp: arc_drop_def get_file_def outcome_simps split: if_splits dest!: frames)
  moreover have "refs_ok e ?k"
  proof (rule refs_okI)
    fix b
    have "ref_counts k b \<noteq> Some 0" using assms(2) by (rule refs_okD)
    then show "ref_counts ?k b \<noteq> Some 0" using x by (auto simp: ref_counts_upd ref_counts_def)
    show "fd_count b (fd_tables ?k) + count e b = (case ref_counts ?k b of None \<Rightarrow> 0 | Some n \<Rightarrow> n)"
      using refs_okD [OF assms(2), of b] x by (auto simp: ref_counts_upd ref_counts_def split: if_splits)
  qed
  ultimately show ?thesis by (rule same_refs_ok)
qed

lemma arc_new_refs:
  assumes "arc_new f k = Inr (a, k')" "refs_ok e k" "files_backed k"
  shows "refs_ok (add_mset a e) k' \<and> files_backed k'"
proof -
  from assms(3) obtain hs ps where ps: "ka_inv hs ps (k_mem k)" "\<And>p. p \<in> set ps \<Longrightarrow> k_files k (unat p) = None"
    by (auto simp: files_backed_def)
  have sz: "ARC_SIZE \<le> 4096" by (simp add: ARC_SIZE_def)
  from assms(1) ka_alloc_empty [of hs "k_mem k" ARC_SIZE] ps(1) obtain p qs where q: "ps = p # qs"
    by (cases ps) (auto simp: arc_new_def outcome_simps ARC_SIZE_def)
  with ka_alloc_cons [OF ps(1) [unfolded q] sz] obtain m where m: "ka_alloc ARC_SIZE (k_mem k) = Inr (Some p, m)" "ka_inv hs qs m"
    by blast
  then have k': "a = unat p" "k' = k\<lparr>k_mem := m, k_files := (k_files k)(a \<mapsto> \<lparr>fo_file = f, fo_refs = 1\<rparr>)\<rparr>"
    using assms(1) by (auto simp: arc_new_def outcome_simps)
  have no: "k_files k a = None" using ps(2) q k'(1) by simp
  have "p \<notin> set qs" using ps(1) q by (auto simp: ka_inv_def)
  then have "files_backed k'" unfolding files_backed_def using m(2) ps(2) q k' by (auto intro!: exI simp flip: word_unat_eq_iff)
  moreover have "refs_ok (add_mset a e) k'"
    using assms(2) no unfolding refs_ok_def k'(2) by (auto simp: ref_counts_def fd_tables_def)
  ultimately show ?thesis by simp
qed


lemma find_none_Some: "find_none xs i = Some j \<Longrightarrow> i \<le> j \<and> j - i < length xs \<and> xs ! (j - i) = None"
  by (induction xs i rule: find_none.induct) (auto simp: nth_Cons' split: if_splits)

lemma fd_alloc_set [THEN okRD]:
  "okR (\<lambda>(z, t). case z of Inl _ \<Rightarrow> t = k_tab k
     | Inr fd \<Rightarrow> fd_get me fd k = Inr None \<and> fd_set me fd (Some a) k = Inr (k\<lparr>k_tab := t\<rparr>)) (fd_alloc me a (k_tab k))"
  unfolding fd_alloc_def
  by (intro okR_intros)
    (auto simp: find_unallocated_fd_def fd_get_def fd_set_def my_data_def k_upd_data_def outcome_simps
      split: option.split_asm dest!: find_none_Some)

lemma k_fd_alloc_refs [THEN okRD]:
  assumes "refs_ok (add_mset a e) k"
  shows "okR (\<lambda>(r, k'). refs_ok e k') (k_fd_alloc me a k)"
  unfolding k_fd_alloc_def
proof (intro okR_intros, goal_cases)
  case (1 x z t y k1)
  then show ?case using fd_alloc_set [of me a k] assms by (auto dest: arc_drop_refs)
next
  case (2 x z t fd)
  then have "fd_get me fd k = Inr None" "fd_set me fd (Some a) k = Inr (k\<lparr>k_tab := t\<rparr>)" using fd_alloc_set [of me a k] by auto
  then show ?case using fd_set_refs(1) [of me fd "Some a" k _ None e] assms by simp
qed

lemma fd_take_refs:
  assumes "fd_take me i fd k = Inr k'" "refs_ok e k"
  shows "refs_ok e k'"
proof -
  from assms(1) obtain x where x: "fd_get i fd k = Inr x" by (auto simp: fd_take_def outcome_simps)
  show ?thesis
  proof (cases x)
    case None
    then show ?thesis using assms x by (simp add: fd_take_def)
  next
    case (Some a)
    then obtain k1 where k1: "fd_set i fd None k = Inr k1" "arc_drop me a k1 = Inr k'"
      using assms(1) x by (auto simp: fd_take_def outcome_simps)
    have "refs_ok (e + held (Some a)) k1" using fd_set_refs(1) [OF k1(1) x [unfolded Some]] assms(2) by simp
    then show ?thesis using arc_drop_refs [OF k1(2)] by simp
  qed
qed

lemma fork_fd_refs:
  assumes "fork_fd me child fd k = Inr k'" "refs_ok e k"
  shows "refs_ok e k'"
proof -
  from assms(1) obtain x old k1 k2 where
    x: "fd_get child fd k = Inr old" "(case x of None \<Rightarrow> Inr k | Some a \<Rightarrow> arc_clone a k) = Inr k1" "fd_set child fd x k1 = Inr k2"
      "(case old of None \<Rightarrow> Inr k2 | Some b \<Rightarrow> arc_drop me b k2) = Inr k'"
    by (auto simp: fork_fd_def outcome_simps)
  have 1: "refs_ok (e + held x) k1"
    using x(2) assms(2) by (cases x) (auto dest: arc_clone_refs)
  have "k_tab k1 = k_tab k" using x(2) by (cases x) (auto simp: arc_clone_def outcome_simps)
  then have "fd_get child fd k1 = Inr old" using x(1) by (simp add: fd_get_def my_data_def)
  from fd_set_refs(1) [OF x(3) this 1] have "refs_ok (e + held old) k2" .
  then show ?thesis using x(4) by (cases old) (auto dest: arc_drop_refs)
qed

lemma foldR_refs:
  assumes "foldR f xs k = Inr k'" "refs_ok e k" "\<And>x k k'. f x k = Inr k' \<Longrightarrow> refs_ok e k \<Longrightarrow> refs_ok e k'"
  shows "refs_ok e k'"
  using assms(1,2)
proof (induction xs arbitrary: k)
  case (Cons x xs)
  then show ?case using assms(3) by (auto simp: outcome_simps)
qed simp


lemma release_all_refs:
  assumes "release_all me k = Inr (r, k')" "refs_ok e k"
  shows "refs_ok e k'" "\<And>k2. r = Some k2 \<Longrightarrow> refs_ok e k2"
proof -
  from assms(1) obtain k1 where k1: "foldR (fd_take me me) [0..<NFILE] k = Inr k1" "same_refs k1 k'" "\<And>k2. r = Some k2 \<Longrightarrow> k2 = k'"
    by (auto simp: release_all_def outcome_simps same_refs_def split: option.splits dest!: frames fs_only_same)
  from foldR_refs [OF k1(1) assms(2)] have "refs_ok e k1" using fd_take_refs by blast
  with k1(2) show *: "refs_ok e k'" by (rule same_refs_ok)
  show "\<And>k2. r = Some k2 \<Longrightarrow> refs_ok e k2" using k1(3) * by blast
qed

lemma exit_hide_tables [THEN okRD, frames]: "okR (same_tables t) (exit_hide me t)"
  unfolding exit_hide_def by (intro okR_intros) simp

lemma manager_exit_refs:
  assumes "manager_exit me status h k = Inr (r, k')" "refs_ok e k"
  shows "refs_ok e k'"
proof -
  from assms(1) obtain t r1 k1 where t: "exit_hide me (k_tab k) = Inr t" "release_all me (k\<lparr>k_tab := t\<rparr>) = Inr (r1, k1)"
    and k': "case r1 of None \<Rightarrow> k' = k1 | Some k2 \<Rightarrow> same_refs k2 k'"
    by (auto simp: manager_exit_def outcome_simps split: option.splits dest!: frames)
  have "same_refs k (k\<lparr>k_tab := t\<rparr>)" using t(1) by (auto dest!: frames)
  then have "refs_ok e (k\<lparr>k_tab := t\<rparr>)" using assms(2) by (rule same_refs_ok)
  from release_all_refs [OF t(2) this] k' show ?thesis by (auto split: option.splits intro: same_refs_ok)
qed

lemma fork_cwd_same [THEN okRD, frames]: "okR (same_refs k) (fork_cwd me child k)"
  unfolding fork_cwd_def
  by (intro okR_intros) (auto simp: okR_def dest!: frames fs_only_same intro: same_refs_trans)

lemma k_upd_name_same [THEN okRD, frames]:
  "okR (same_refs k) (k_upd_data i (\<lambda>d. d\<lparr>pd_name := nm, pd_size := n\<rparr>) k)"
  unfolding k_upd_data_def by (intro okR_intros) (auto dest!: frames)

lemma foldR_fork_fd_refs:
  "foldR (fork_fd me c) xs k = Inr k' \<Longrightarrow> refs_ok e k \<Longrightarrow> refs_ok e k'"
  by (erule foldR_refs, assumption, erule fork_fd_refs, assumption)

lemma fork_refs:
  assumes "refs_ok e k"
  shows "okR (\<lambda>(r, k'). refs_ok e k') (fork mc me k)"
  unfolding fork_def
  by (intro okR_intros) (use assms in \<open>auto dest!: frames foldR_fork_fd_refs [where e = e] same_refs_ok [where e = e]\<close>)

section \<open>System calls\<close>

lemma sys_dup_refs:
  assumes "refs_ok e k"
  shows "okR (\<lambda>(r, k'). refs_ok e k') (sys_dup me k)"
  unfolding sys_dup_def
  by (intro okR_intros) (use assms in \<open>auto dest: arc_clone_refs dest!: k_fd_alloc_refs [rotated]\<close>)

lemma new_zeroed_backed:
  assumes "new_zeroed (k_mem k) = Inr (pa, m)" "files_backed k"
  shows "files_backed (k\<lparr>k_mem := m\<rparr>)"
proof -
  from assms(2) obtain hs ps where ps: "ka_inv hs ps (k_mem k)" "\<And>p. p \<in> set ps \<Longrightarrow> k_files k (unat p) = None"
    by (auto simp: files_backed_def)
  show ?thesis
  proof (cases ps)
    case Nil
    then show ?thesis using assms(1) ps(1) by (simp add: new_zeroed_none)
  next
    case (Cons p qs)
    obtain m' where "new_zeroed (k_mem k) = Inr (p, m')" "ka_inv hs qs m'"
      by (rule new_zeroed_cons [OF ps(1) [unfolded Cons]]) blast
    then show ?thesis using assms(1) ps(2) Cons by (auto simp: files_backed_def)
  qed
qed

lemma pipe_files_refs [THEN okRD]:
  assumes "refs_ok e k" "files_backed k"
  shows "okR (\<lambda>(rp, wp, k'). refs_ok (add_mset rp (add_mset wp e)) k') (pipe_files k)"
  unfolding pipe_files_def pipe_alloc_def
proof (intro okR_intros, goal_cases)
  case (1 x pa y q m z rp k1 w wp k2)
  let ?k = "k\<lparr>k_mem := m, k_pipes := (k_pipes k)(pa \<mapsto> q)\<rparr>"
  have "files_backed ?k" using new_zeroed_backed [OF _ assms(2)] 1 by (auto simp: outcome_simps files_backed_def)
  with 1 assms(1) have "refs_ok (add_mset rp e) k1 \<and> files_backed k1" by (intro arc_new_refs [of _ ?k]) auto
  with 1 have "refs_ok (add_mset wp (add_mset rp e)) k2" using arc_new_refs [of _ k1] by blast
  then show ?case by (simp add: add_mset_commute)
qed

lemma sys_pipe_refs:
  assumes "refs_ok e k" "files_backed k"
  shows "okR (\<lambda>(r, k'). refs_ok e k') (sys_pipe me k)"
  unfolding sys_pipe_def
  by (intro okR_intros)
    (auto dest!: pipe_files_refs [OF assms] k_fd_alloc_refs [rotated] dest: arc_drop_refs)


lemma in_transaction_same:
  assumes "refs_ok e k" "\<And>k'. okR (\<lambda>(r, k2). fs_only k' k2) (body k')"
  shows "okR (\<lambda>(r, k'). refs_ok e k') (in_transaction body k)"
proof (rule in_transaction_fs)
  fix k' assume "fs_only k k'"
  then show "okR (\<lambda>(r, k'). refs_ok e k') (body k')"
    by (intro okR_weaken [OF assms(2)]) (auto dest!: fs_only_same intro: same_refs_ok same_refs_trans assms(1))
qed (simp add: assms(1))

lemma sys_open_refs:
  assumes "refs_ok e k" "files_backed k"
  shows "okR (\<lambda>(r, k'). refs_ok e k') (sys_open me k)"
  unfolding sys_open_def
proof (intro okR_intros in_transaction_fs, goal_cases)
  case (1 addr path mode k1 x r k2 y)
  then show ?case using assms(1) by (auto dest!: frames dest: fs_only_trans fs_only_same same_refs_ok)
next
  case (2 addr path mode k1 x r k2 ip k3 d k4 k5 y a k6 z w k7)
  then have "fs_only k k5" by (auto simp: okR_def split: if_splits dest!: frames dest: fs_only_trans)
  then have "refs_ok e k5" "files_backed k5" using assms by (auto dest: fs_only_same fs_only_backed same_refs_ok)
  with 2 show ?case by (auto dest: arc_new_refs dest!: k_fd_alloc_refs [rotated])
qed (simp_all add: assms(1))

lemma sys_close_refs: "refs_ok e k \<Longrightarrow> okR (\<lambda>(r, k'). refs_ok e k') (sys_close me k)"
  unfolding sys_close_def by (intro okR_intros) (auto dest: fd_take_refs)

lemma sys_read_refs: "refs_ok e k \<Longrightarrow> okR (\<lambda>(r, k'). refs_ok e k') (sys_read me rs k)"
  unfolding sys_read_def by (intro okR_intros) (auto dest!: frames intro: same_refs_ok)

lemma sys_write_refs: "refs_ok e k \<Longrightarrow> okR (\<lambda>(r, k'). refs_ok e k') (sys_write mc me rs k)"
  unfolding sys_write_def by (intro okR_intros) (auto dest!: frames intro: same_refs_ok)

lemma sys_fstat_refs: "refs_ok e k \<Longrightarrow> okR (\<lambda>(r, k'). refs_ok e k') (sys_fstat mc me k)"
  unfolding sys_fstat_def by (intro okR_intros) (auto dest!: frames intro: same_refs_ok)

lemma sys_mknod_refs: "refs_ok e k \<Longrightarrow> okR (\<lambda>(r, k'). refs_ok e k') (sys_mknod me k)"
  unfolding sys_mknod_def
  by (intro okR_intros in_transaction_same)
    (auto simp: okR_def dest!: frames intro: fs_only_trans)

lemma sys_chdir_refs: "refs_ok e k \<Longrightarrow> okR (\<lambda>(r, k'). refs_ok e k') (sys_chdir me k)"
  unfolding sys_chdir_def
  by (intro okR_intros in_transaction_same)
    (auto simp: okR_def fs_only_def same_tables_def dest!: frames)

lemma sys_mkdir_refs: "refs_ok e k \<Longrightarrow> okR (\<lambda>(r, k'). refs_ok e k') (sys_mkdir me k)"
  unfolding sys_mkdir_def
  by (intro okR_intros in_transaction_same)
    (auto simp: okR_def fs_only_def same_tables_def dest!: frames)

lemma sys_unlink_refs: "refs_ok e k \<Longrightarrow> okR (\<lambda>(r, k'). refs_ok e k') (sys_unlink me k)"
  unfolding sys_unlink_def
  by (intro okR_intros in_transaction_same)
    (auto simp: okR_def fs_only_def same_tables_def dest!: frames)

lemma sys_link_refs: "refs_ok e k \<Longrightarrow> okR (\<lambda>(r, k'). refs_ok e k') (sys_link me k)"
  unfolding sys_link_def
  by (intro okR_intros in_transaction_same)
    (auto simp: okR_def fs_only_def same_tables_def dest!: frames)

lemma sys_fork_refs: "refs_ok e k \<Longrightarrow> okR (\<lambda>(r, k'). refs_ok e k') (sys_fork mc me k)"
  unfolding sys_fork_def by (intro okR_intros) (auto dest!: fork_refs [THEN okRD, rotated])

lemma sys_exit_refs: "refs_ok e k \<Longrightarrow> okR (\<lambda>(r, k'). refs_ok e k') (sys_exit me h k)"
  unfolding sys_exit_def by (intro okR_intros) (auto dest: manager_exit_refs)

lemma sys_wait_refs: "refs_ok e k \<Longrightarrow> okR (\<lambda>(r, k'). refs_ok e k') (sys_wait me k)"
  unfolding sys_wait_def by (intro okR_intros) (auto dest!: frames)

lemma sys_sbrk_refs: "refs_ok e k \<Longrightarrow> okR (\<lambda>(r, k'). refs_ok e k') (sys_sbrk me k)"
  unfolding sys_sbrk_def by (intro okR_intros) (auto dest!: frames)

lemma sys_other_refs:
  assumes "refs_ok e k"
  shows "okR (\<lambda>(r, k'). refs_ok e k') (sys_getpid me k)" "okR (\<lambda>(r, k'). refs_ok e k') (sys_sleep me rs k)"
    "okR (\<lambda>(r, k'). refs_ok e k') (sys_uptime k)" "okR (\<lambda>(r, k'). refs_ok e k') (sys_exec mc me rs k)"
proof -
  show "okR (\<lambda>(r, k'). refs_ok e k') (sys_sleep me rs k)"
    unfolding sys_sleep_def by (intro okR_intros) (simp_all add: assms)
  show "okR (\<lambda>(r, k'). refs_ok e k') (sys_exec mc me rs k)"
    using sys_exec_same [of mc me rs k] assms by (auto simp: okR_def intro: same_refs_ok)
qed (simp_all add: sys_getpid_def sys_uptime_def okR_intros assms)

lemma syscall_refs:
  assumes "refs_ok e k" "files_backed k"
  shows "okR (\<lambda>(r, k'). refs_ok e k') (syscall mc me h rs k)"
  unfolding syscall_def
proof (intro okR_intros, goal_cases)
  case (1 d)
  show ?case
    by (cases "from_primitive (tf_get (pd_trapframe d) (TF_AX 7) (k_mem k))")
      (simp_all add: assms okR_intros sys_fork_refs sys_exit_refs sys_wait_refs sys_pipe_refs sys_read_refs
        sys_fstat_refs sys_chdir_refs sys_dup_refs sys_sbrk_refs sys_open_refs sys_write_refs
        sys_mknod_refs sys_unlink_refs sys_link_refs sys_mkdir_refs sys_close_refs sys_other_refs)
qed


lemma syscall_handler_refs:
  assumes "refs_ok e k" "files_backed k"
  shows "okR (\<lambda>(r, k'). refs_ok e k') (syscall_handler mc me h rs k)"
  unfolding syscall_handler_def
  by (intro okR_intros) (auto split: sys_end.splits simp: okR_def outcome_simps dest!: syscall_refs [OF assms, THEN okRD])

lemma refs_ok_open:
  assumes "refs_ok {#} k" "fs \<in> set (fd_tables k)" "Some a \<in> set fs"
  shows "k_files k a \<noteq> None"
proof
  assume "k_files k a = None"
  then have "fd_count a (fd_tables k) = 0" using refs_okD(2) [OF assms(1), of a] by (simp add: ref_counts_def)
  then show False using assms(2,3) by (auto simp: fd_count_def count_list_0_iff)
qed

section \<open>Property\<close>

text \<open>C38. Every system call keeps the reference count of each file object equal to the number of
  descriptors, over all processes, that name it; in particular no descriptor is left naming an
  object that was closed. In the state before the call the free list of the page allocator is intact and
  no object lies in a free page; that the call keeps this too is not part of the claim.\<close>

theorem syscall_keeps_file_refs:
  assumes "refs_ok {#} k" "files_backed k" "syscall_handler mc me h rs k = Inr (r, k')"
  shows "refs_ok {#} k' \<and> (\<forall>fs a. fs \<in> set (fd_tables k') \<and> Some a \<in> set fs \<longrightarrow> k_files k' a \<noteq> None)"
proof -
  have "refs_ok {#} k'" using okRD [OF syscall_handler_refs [OF assms(1,2)] assms(3)] by simp
  then show ?thesis using refs_ok_open by blast
qed

text \<open>A process with one open file duplicates its descriptor.\<close>

definition one_file_kern :: "unit kern" where
  "one_file_kern =
     \<lparr>k_mem = \<lparr>pmem = store64 (store64 (\<lambda>_. 0) (0x80100000 + TF_AX 7) 10) (0x80100000 + TF_AX 0) 0,
        ka_head = None, ka_count = (\<lambda>_. 1)\<rparr>,
      k_fs = fs_new (\<lambda>_. replicate BSIZE 0),
      k_tab = \<lparr>pt_proc = [\<lparr>pr_meta = proc_meta_new,
          pr_data = (proc_data_new 0)\<lparr>pd_trapframe := 0x80100000, pd_open_files := [Some 0x80200000, None]\<rparr>\<rparr>],
        pt_pids = 1, pt_init_proc = Some 0, pt_wait_list = [None], pt_idx_pids = [0]\<rparr>,
      k_files = [0x80200000 \<mapsto> \<lparr>fo_file = pipe_end True 0x80300000, fo_refs = 1\<rparr>],
      k_pipes = Map.empty, k_devs = device_list_uninit, k_con = console_new, k_uart = uart_new, k_port = (), k_ticks = 0\<rparr>"

definition demo_machine :: "unit machine" where
  "demo_machine = \<lparr>m_rd = (\<lambda>_ v. (0, v)), m_wr = (\<lambda>_ _ v. v), m_trampoline = 0x80000000, m_fork_ret = 0x80001000, m_pad = []\<rparr>"

lemma one_file_args:
  "load64 (pmem (k_mem one_file_kern)) (0x80100000 + TF_AX 7) = 10"
  "load64 (pmem (k_mem one_file_kern)) (0x80100000 + TF_AX 0) = 0"
  by (simp_all add: one_file_kern_def TF_AX_def mem_simps)


lemma one_file_ok: "refs_ok {#} one_file_kern" "files_backed one_file_kern"
proof -
  show "refs_ok {#} one_file_kern"
    by (rule refs_okI) (auto simp: one_file_kern_def ref_counts_def fd_tables_def fd_count_def)
  have "ka_inv 0x180000000 [] (k_mem one_file_kern)"
    by (auto simp: ka_inv_def one_file_kern_def heap_page_def ram_page_def word_le_nat_alt)
  then show "files_backed one_file_kern"
    unfolding files_backed_def by (intro exI [of _ "0x180000000"] exI [of _ "[]"]) simp
qed

lemma one_file_dup:
  "\<exists>k'. syscall_handler demo_machine 0 cpu_new AtStart one_file_kern = Inr (SysRet (Inr 1), k') \<and>
     fd_tables k' = [[Some 0x80200000, Some 0x80200000]]"
proof -
  have arg: "tf_get 0x80100000 (TF_AX 7) (k_mem one_file_kern) = 10" "tf_get 0x80100000 (TF_AX 0) (k_mem one_file_kern) = 0"
    using one_file_args by (simp_all add: tf_get_def)
  have d: "my_data 0 one_file_kern = Inr ((proc_data_new 0)\<lparr>pd_trapframe := 0x80100000, pd_open_files := [Some 0x80200000, None]\<rparr>)"
    by (simp add: my_data_def get_proc_def one_file_kern_def outcome_simps)
  have "fd_file 0 one_file_kern = Inr 0x80200000"
    using arg d by (simp add: fd_file_def arg_def fd_get_def outcome_simps)
  then have "\<exists>k1. sys_dup 0 one_file_kern = Inr (SysRet (Inr 1), k1) \<and> fd_tables k1 = [[Some 0x80200000, Some 0x80200000]] \<and>
      (\<exists>d. my_data 0 k1 = Inr d)"
    by (simp add: sys_dup_def arc_clone_def get_file_def usize_inc_def k_fd_alloc_def fd_alloc_def get_proc_def
        find_unallocated_fd_def upd_data_def one_file_kern_def proc_data_new_def fd_tables_def my_data_def idx_get_def)
  then show ?thesis
    using arg(1) d by (auto simp: syscall_handler_def syscall_def from_primitive_def syscall_nums_def fd_tables_def)
qed

theorem syscall_keeps_file_refs_witness:
  "\<exists>k'. syscall_handler demo_machine 0 cpu_new AtStart one_file_kern = Inr (SysRet (Inr 1), k') \<and>
     ref_counts k' 0x80200000 = Some 2"
proof -
  obtain k' where k': "syscall_handler demo_machine 0 cpu_new AtStart one_file_kern = Inr (SysRet (Inr 1), k')"
    "fd_tables k' = [[Some 0x80200000, Some 0x80200000]]" using one_file_dup by blast
  from syscall_keeps_file_refs [OF one_file_ok k'(1)] have "refs_ok {#} k'" by simp
  then have "ref_counts k' 0x80200000 = Some 2"
    using refs_okD(2) [of "{#}" k', where a = "0x80200000"] k'(2) by (simp add: fd_count_def split: option.split_asm)
  then show ?thesis using k'(1) by blast
qed

end
