(* ===== verification/Rx_Types.thy ===== *)
theory Rx_Types
  imports Rx_Fs_Types Rx_Refs
begin

text \<open>
  The types of the kernel state.  What Rust's types give the source is a fact to show in the model: arrays
  of fixed size keep their length, the number a process carries is its place in the table, and the kind
  of an open file decides which of its optional fields is there, which the code relies on when it unwraps
  them.  Every system call keeps all of it.
\<close>

section \<open>Types\<close>

definition data_typed :: "nat \<Rightarrow> 'i proc_data \<Rightarrow> bool" where
  "data_typed i d \<longleftrightarrow> length (pd_name d) = 16 \<and> length (pd_open_files d) = NFILE \<and> pd_id d = i"

definition tab_typed :: "'i ptable \<Rightarrow> bool" where
  "tab_typed t \<longleftrightarrow> length (pt_proc t) = NPROC \<and> length (pt_wait_list t) = NPROC \<and> length (pt_idx_pids t) = NPROC \<and>
     (\<forall>i<NPROC. data_typed i (pr_data (pt_proc t ! i)))"

text \<open>A file is an end of a pipe or stands for an inode.\<close>

definition file_typed :: "vfile \<Rightarrow> bool" where
  "file_typed f \<longleftrightarrow> (case vf_ftype f of
     FtNone \<Rightarrow> False
   | FtPipe \<Rightarrow> vf_pipe f \<noteq> None \<and> vf_inode f = None \<and> vf_readable f = (\<not> vf_writeable f)
   | _ \<Rightarrow> vf_inode f \<noteq> None \<and> vf_pipe f = None)"

definition kern_typed :: "'v kern \<Rightarrow> bool" where
  "kern_typed k \<longleftrightarrow> fs_typed (k_fs k) \<and> tab_typed (k_tab k) \<and> length (k_devs k) = NDEV \<and>
     length (co_buf (k_con k)) = INPUT_BUF \<and> length (u_buf (k_uart k)) = UART_BUF_SIZE \<and>
     (\<forall>pa q. k_pipes k pa = Some q \<longrightarrow> length (pi_data q) = PIPESIZE) \<and>
     (\<forall>a x. k_files k a = Some x \<longrightarrow> file_typed (fo_file x))"

definition tab_keeps :: "'i ptable \<Rightarrow> 'i ptable \<Rightarrow> bool" where
  "tab_keeps t t' \<longleftrightarrow> (tab_typed t \<longrightarrow> tab_typed t')"

definition kern_keeps :: "'v kern \<Rightarrow> 'v kern \<Rightarrow> bool" where
  "kern_keeps k k' \<longleftrightarrow> (kern_typed k \<longrightarrow> kern_typed k')"

lemma tab_keeps_refl [simp]: "tab_keeps t t"
  by (simp add: tab_keeps_def)

lemma tab_keeps_trans: "tab_keeps t t1 \<Longrightarrow> tab_keeps t1 t2 \<Longrightarrow> tab_keeps t t2"
  by (simp add: tab_keeps_def)

lemma kern_keeps_refl [simp]: "kern_keeps k k"
  by (simp add: kern_keeps_def)

lemma kern_keeps_trans: "kern_keeps k k1 \<Longrightarrow> kern_keeps k1 k2 \<Longrightarrow> kern_keeps k k2"
  by (simp add: kern_keeps_def)

lemma kern_keeps_mem [simp]:
  "kern_keeps k (k'\<lparr>k_mem := m\<rparr>) \<longleftrightarrow> kern_keeps k k'" "kern_keeps (k\<lparr>k_mem := m\<rparr>) k' \<longleftrightarrow> kern_keeps k k'"
  by (simp_all add: kern_keeps_def kern_typed_def)

lemma kern_typed_mem [simp]:
  "kern_typed (k\<lparr>k_mem := m\<rparr>) \<longleftrightarrow> kern_typed k" "kern_typed (k\<lparr>k_ticks := n\<rparr>) \<longleftrightarrow> kern_typed k"
  by (simp_all add: kern_typed_def)

lemma kern_typed_upd [simp]:
  assumes "kern_typed k"
  shows "kern_typed (k\<lparr>k_fs := s\<rparr>) \<longleftrightarrow> fs_typed s"
    "kern_typed (k\<lparr>k_tab := t\<rparr>) \<longleftrightarrow> tab_typed t"
    "kern_typed (k\<lparr>k_con := con\<rparr>) \<longleftrightarrow> length (co_buf con) = INPUT_BUF"
    "kern_typed (k\<lparr>k_uart := u\<rparr>) \<longleftrightarrow> length (u_buf u) = UART_BUF_SIZE"
    "kern_typed (k\<lparr>k_port := v\<rparr>)"
    "kern_typed (k\<lparr>k_pipes := P\<rparr>) \<longleftrightarrow> (\<forall>pa q. P pa = Some q \<longrightarrow> length (pi_data q) = PIPESIZE)"
    "kern_typed (k\<lparr>k_files := F\<rparr>) \<longleftrightarrow> (\<forall>a x. F a = Some x \<longrightarrow> file_typed (fo_file x))"
  using assms by (simp_all add: kern_typed_def)

lemma kern_typed_parts [simp]:
  assumes "kern_typed k"
  shows "fs_typed (k_fs k)" "tab_typed (k_tab k)" "length (co_buf (k_con k)) = INPUT_BUF"
    "length (u_buf (k_uart k)) = UART_BUF_SIZE" "k_pipes k pa = Some q \<Longrightarrow> length (pi_data q) = PIPESIZE"
    "k_files k a = Some x \<Longrightarrow> file_typed (fo_file x)"
  using assms by (simp_all add: kern_typed_def)

lemmas keeps = kern_keeps_def fs_keeps_def tab_keeps_def

section \<open>The process table\<close>

lemma tab_typed_new: "tab_typed ptable_new"
  by (simp add: tab_typed_def ptable_new_def process_new_def proc_data_new_def data_typed_def)

lemma tab_typed_rest [simp]:
  "tab_typed (t\<lparr>pt_pids := n\<rparr>) \<longleftrightarrow> tab_typed t"
  "length w = length (pt_wait_list t) \<Longrightarrow> tab_typed (t\<lparr>pt_wait_list := w\<rparr>) \<longleftrightarrow> tab_typed t"
  by (simp_all add: tab_typed_def)

lemma tab_typed_upd [simp]:
  "tab_keeps t (t'\<lparr>pt_pids := n\<rparr>) \<longleftrightarrow> tab_keeps t t'"
  "tab_keeps t (t'\<lparr>pt_init_proc := j\<rparr>) \<longleftrightarrow> tab_keeps t t'"
  "length w = length (pt_wait_list t') \<Longrightarrow> tab_keeps t (t'\<lparr>pt_wait_list := w\<rparr>) \<longleftrightarrow> tab_keeps t t'"
  "length ix = length (pt_idx_pids t') \<Longrightarrow> tab_keeps t (t'\<lparr>pt_idx_pids := ix\<rparr>) \<longleftrightarrow> tab_keeps t t'"
  "tab_keeps (t\<lparr>pt_pids := n\<rparr>) t' \<longleftrightarrow> tab_keeps t t'"
  by (simp_all add: tab_keeps_def tab_typed_def)

lemma upd_meta_types [THEN okRD, types]: "okR (tab_keeps t) (upd_meta i f t)"
  unfolding upd_meta_def
  by (intro okR_intros) (auto simp: get_proc_def outcome_simps tab_keeps_def tab_typed_def nth_list_update)

lemma upd_data_typed:
  assumes "\<And>d. tab_typed t \<Longrightarrow> data_typed i d \<Longrightarrow> data_typed i (f d)"
  shows "okR (tab_keeps t) (upd_data i f t)"
  unfolding upd_data_def
  by (intro okR_intros) (auto simp: assms get_proc_def outcome_simps tab_keeps_def tab_typed_def nth_list_update)

lemma upd_data_types [THEN okRD, types]:
  "okR (tab_keeps t) (upd_data i (\<lambda>d. d\<lparr>pd_trapframe := tf\<rparr>) t)"
  "okR (tab_keeps t) (upd_data i (\<lambda>d. d\<lparr>pd_pagetable := pgt\<rparr>) t)"
  "okR (tab_keeps t) (upd_data i (\<lambda>d. d\<lparr>pd_size := n\<rparr>) t)"
  "okR (tab_keeps t) (upd_data i (\<lambda>d. d\<lparr>pd_pagetable := pgt, pd_size := n\<rparr>) t)"
  "okR (tab_keeps t) (upd_data i (\<lambda>d. (set_name nm d)\<lparr>pd_pagetable := pgt\<rparr>) t)"
  "okR (tab_keeps t) (upd_data i (\<lambda>d. d\<lparr>pd_cwd := c\<rparr>) t)"
  "okR (tab_keeps t) (upd_data i (\<lambda>d. d\<lparr>pd_open_files := (pd_open_files d)[fd := x]\<rparr>) t)"
  by (rule upd_data_typed, simp add: data_typed_def set_name_def Let_def)+

lemma get_proc_types [types]: "get_proc i t = Inr p \<Longrightarrow> tab_typed t \<longrightarrow> data_typed i (pr_data p)"
  by (auto simp: get_proc_def outcome_simps tab_typed_def)

lemma wake_up_types [simp]: "tab_typed (wake_up me ch t) \<longleftrightarrow> tab_typed t"
  by (auto simp: wake_up_def tab_typed_def if_distrib [where f = pr_data] cong: if_cong)

lemma wake_up_keeps [simp]:
  "tab_keeps t (wake_up me ch t') \<longleftrightarrow> tab_keeps t t'" "tab_keeps (wake_up me ch t) t' \<longleftrightarrow> tab_keeps t t'"
  by (simp_all add: tab_keeps_def)

lemma reparent_types [THEN okRD, types]: "okR (tab_keeps t) (reparent cur me t)"
  unfolding reparent_def
  by (rule foldR_ok) (auto simp: reparent_one_def outcome_simps split: if_splits intro: tab_keeps_trans)

lemma quit_proc_types [THEN okRD, types]: "okR (tab_keeps t) (quit_proc me status t)"
  unfolding quit_proc_def by (intro okR_intros) (auto simp: okR_def dest!: types intro: tab_keeps_trans)

lemma exit_proc_types [THEN okRD, types]: "okR (tab_keeps t) (exit_proc me status h t)"
  unfolding exit_proc_def by (intro okR_intros) (auto dest!: types intro: tab_keeps_trans)

lemma exit_hide_types [THEN okRD, types]: "okR (tab_keeps t) (exit_hide me t)"
  unfolding exit_hide_def by (intro okR_intros) (auto simp: outcome_simps)

lemma set_pagetable_types [THEN okRD, types]: "okR (\<lambda>(t', s'). tab_keeps t t') (set_pagetable i pgt t s)"
  unfolding set_pagetable_def by (intro okR_intros) (auto dest!: types)

lemma upd_data_const_types [types]:
  "upd_data i (\<lambda>_. d) t = Inr t' \<Longrightarrow> (tab_typed t \<longrightarrow> data_typed i d) \<longrightarrow> tab_keeps t t'"
  by (auto simp: upd_data_def get_proc_def outcome_simps tab_keeps_def tab_typed_def nth_list_update)

lemma init_context_types [types]: "init_context fr d = Inr d' \<Longrightarrow> data_typed i d' \<longleftrightarrow> data_typed i d"
  by (auto simp: init_context_def outcome_simps data_typed_def)

lemma alloc_proc_types [THEN okRD, types]: "okR (\<lambda>(r, t', s'). tab_keeps t t') (alloc_proc tr fr t s)"
  unfolding alloc_proc_def alloc_pid_def
proof (intro okR_intros, goal_cases)
  case (2 y t1 i t2 z tf s1 t3 w pgt s2 v t4 s3 p d t5 ix)
  have *: "data_typed i d \<longleftrightarrow> data_typed i (pr_data p)" using 2 by (auto dest: init_context_types)
  from 2 have "tab_keeps t t4" by (auto simp: tab_keeps_def dest!: types)
  with 2 * have "tab_keeps t t5" by (auto simp: tab_keeps_def dest!: get_proc_types upd_data_const_types)
  with 2 show ?case by (auto simp: outcome_simps)
qed auto

lemma free_proc_types [THEN okRD, types]: "okR (\<lambda>(t', s'). tab_keeps t t') (free_proc i t s)"
  unfolding free_proc_def by (intro okR_intros) (auto simp: tab_keeps_def dest!: types)

lemma wait_scan_types [THEN okRD, types]: "okR (\<lambda>(r, kids', t', s'). tab_keeps t t') (wait_scan me addr ks kids t s)"
proof (induction ks arbitrary: kids t s)
  case (Cons j ks)
  show ?case unfolding wait_scan.simps by (intro okR_intros Cons.IH) (auto dest!: types)
qed (simp add: okR_intros)

lemma wait_pass_types [THEN okRD, types]: "okR (\<lambda>(r, t', s'). tab_keeps t t') (wait_pass me addr t s)"
  unfolding wait_pass_def by (intro okR_intros) (auto dest!: types)

lemma grow_proc_types [THEN okRD, types]: "okR (\<lambda>(r, t', s'). tab_keeps t t') (grow_proc i n t s)"
  unfolding grow_proc_def by (intro okR_intros) (auto dest!: types)

lemma fd_alloc_types [THEN okRD, types]: "okR (\<lambda>(r, t'). tab_keeps t t') (fd_alloc i a t)"
  unfolding fd_alloc_def by (intro okR_intros) (auto dest!: types)

section \<open>Devices\<close>

lemma transmit_types [types]:
  "transmit rd wr me u t v = (u', t', v') \<Longrightarrow> length (u_buf u') = length (u_buf u) \<and> tab_keeps t t'"
  by (induction rd wr me u t v rule: transmit.induct)
    (subst (asm) transmit.simps, auto simp: uart_pop_def split: prod.splits if_splits)

lemma console_write_types [THEN okRD, types]:
  "okR (\<lambda>x. case x of None \<Rightarrow> True | Some (r, u', t', v') \<Rightarrow> length (u_buf u') = length (u_buf u) \<and> tab_keeps t t')
     (console_write rd wr pn me cur usr src sz i u t v s)"
proof (induction rd wr pn me cur usr src sz i u t v s rule: console_write.induct)
  case (1 rd wr pn me cur usr src sz i u t v s)
  show ?case unfolding console_write.simps [of rd wr pn me cur usr src sz i u t v s]
  proof (intro okR_intros, goal_cases)
    case (3 bs c y x u1 b t1 v1 src1)
    then have "length (u_buf u1) = length (u_buf u) \<and> tab_keeps t t1"
      by (auto simp: uart_putc_def uart_push_def split: if_splits dest!: transmit_types)
    with 3 show ?case by (intro okR_weaken [OF "1.IH"]) (auto split: option.splits intro: tab_keeps_trans)
  qed auto
qed

lemma console_read_types [THEN okRD, types]:
  "okR (\<lambda>(r, con', s'). length (co_buf con') = length (co_buf con)) (console_read cur kl usr dst sz lft con s)"
proof (induction cur kl usr dst sz lft con s rule: console_read.induct)
  case (1 cur kl usr dst sz lft con s)
  show ?case unfolding console_read.simps [of cur kl usr dst sz lft con s]
    by (intro okR_intros okR_weaken [OF "1.IH"]) auto
qed

lemma pipe_write_turn_types [THEN okRD, types]:
  "okR (\<lambda>r. \<forall>c q'. r = Inr (c, q') \<longrightarrow> length (pi_data q') = length (pi_data q)) (pipe_write_turn rd kl addr i q)"
  unfolding pipe_write_turn_def by (intro okR_intros) (auto simp: pipe_push_def)

lemma pipe_write_loop_types [THEN okRD, types]:
  "okR (\<lambda>(st, j, q'). length (pi_data q') = length (pi_data q)) (pipe_write_loop rd kl addr n i q)"
proof (induction rd kl addr n i q rule: pipe_write_loop.induct)
  case (1 rd kl addr n i q)
  have "okR (\<lambda>(st, j, q'). length (pi_data q') = length (pi_data q)) (pipe_write_loop rd kl addr n (i + 1) q')"
    if "i < n" "pipe_write_turn rd kl addr i q = Inr (Inr (c, q'))" for c q'
    using okR_weaken [OF "1.IH" [OF that refl refl]] pipe_write_turn_types [OF that(2)] by fastforce
  then show ?case unfolding pipe_write_loop.simps [of rd kl addr n i q]
    by (intro okR_intros) (auto split: sum.split)
qed

lemma pipe_read_turn_types [THEN okRD, types]:
  "okR (\<lambda>r. \<forall>c q' m'. r = Some (c, q', m') \<longrightarrow> length (pi_data q') = length (pi_data q)) (pipe_read_turn wr addr i q m)"
  unfolding pipe_read_turn_def Let_def by (intro okR_intros) (auto simp: pipe_pop_def)

lemma pipe_read_loop_types [THEN okRD, types]:
  "okR (\<lambda>(j, q', m'). length (pi_data q') = length (pi_data q)) (pipe_read_loop wr addr n i q m)"
proof (induction wr addr n i q m rule: pipe_read_loop.induct)
  case (1 wr addr n i q m)
  have "okR (\<lambda>(j, q', m'). length (pi_data q') = length (pi_data q)) (pipe_read_loop wr addr n (i + 1) q' m')"
    if "i < n" "pipe_read_turn wr addr i q m = Inr (Some (c, q', m'))" for c q' m'
    using okR_weaken [OF "1.IH" [OF that refl refl refl]] pipe_read_turn_types [OF that(2)] by fastforce
  then show ?case unfolding pipe_read_loop.simps [of wr addr n i q m]
    by (intro okR_intros) (auto split: option.split)
qed

lemma pipe_read_types [THEN okRD, types]:
  "okR (\<lambda>(r, q', t', s'). length (pi_data q') = length (pi_data q) \<and> tab_keeps t t') (pipe_read me pa addr n q t s)"
  unfolding pipe_read_def by (intro okR_intros) (auto dest!: types)

lemma pipe_write_types [THEN okRD, types]:
  "okR (\<lambda>(r, q', t'). length (pi_data q') = length (pi_data q) \<and> tab_keeps t t') (pipe_write me pa addr n i q t s)"
  unfolding pipe_write_def by (intro okR_intros) (auto split: pipe_stop.split dest!: types)

lemma pipe_close_types [THEN okRD, types]:
  "okR (\<lambda>(q', t', s'). (\<forall>x. q' = Some x \<longrightarrow> length (pi_data x) = length (pi_data q)) \<and> tab_keeps t t') (pipe_close me pa w q t s)"
  unfolding pipe_close_def by (intro okR_intros) (auto split: if_splits)

lemma copy_in_length [THEN okRD]: "okR (\<lambda>bs. length bs = n) (copy_in pgt n src s)"
proof -
  have "okR (\<lambda>bs. length bs = n) (copy_in_loop pgt va src count n s)" for va src count n s
  proof (induction pgt va src count n s rule: copy_in_loop.induct)
    case (1 pgt va src count n s)
    show ?case unfolding copy_in_loop.simps [of pgt va src count n s] Let_def
      by (intro okR_intros) (auto split: if_splits dest!: "1.IH" [THEN okRD, rotated -1])
  qed
  then show ?thesis unfolding copy_in_def by (intro okR_intros)
qed

lemma user_reads_at_most [simp]: "reads_at_most (\<lambda>a n. copy_to_kernel cur n a True m)"
  by (auto simp: reads_at_most_def copy_to_kernel_def outcome_simps dest!: copy_in_length)

section \<open>Files\<close>

lemma fs_typed_log [simp]:
  assumes "fs_typed s"
  shows "fs_typed (s\<lparr>fs_log := g\<rparr>) \<longleftrightarrow> log_typed g" "fs_typed (s\<lparr>fs_bc := c\<rparr>) \<longleftrightarrow> bc_typed c"
    "bc_typed (fs_bc s)" "log_typed (fs_log s)"
  using assms by (simp_all add: fs_typed_def)

lemma k_begin_op_types [THEN okRD, types]:
  "okR (\<lambda>x. case x of None \<Rightarrow> True | Some k' \<Rightarrow> kern_keeps k k') (k_begin_op k)"
  unfolding k_begin_op_def
  by (intro okR_intros) (auto simp: keeps split: option.splits dest!: types)

lemma k_end_op_types [THEN okRD, types]: "okR (kern_keeps k) (k_end_op me k)"
  unfolding k_end_op_def by (intro okR_intros) (auto simp: keeps bc_keeps_def dest!: types)

lemma file_typed_offset [simp]: "file_typed (f\<lparr>vf_offset := off\<rparr>) \<longleftrightarrow> file_typed f"
  by (cases "vf_ftype f") (simp_all add: file_typed_def)

lemma upd_file_types [THEN okRD, types]: "okR (kern_keeps k) (upd_file a (\<lambda>f. f\<lparr>vf_offset := off\<rparr>) k)"
  unfolding upd_file_def get_file_def
  by (intro okR_intros) (auto simp: outcome_simps keeps)

lemma arc_new_types [THEN okRD, types]: "okR (\<lambda>(a, k'). file_typed f \<longrightarrow> kern_keeps k k') (arc_new f k)"
  unfolding arc_new_def by (intro okR_intros) (auto simp: keeps)

lemma arc_clone_types [THEN okRD, types]: "okR (kern_keeps k) (arc_clone a k)"
  unfolding arc_clone_def get_file_def by (intro okR_intros) (auto simp: keeps outcome_simps)

lemma vfile_drop_types [THEN okRD, types]: "okR (kern_keeps k) (vfile_drop me f k)"
  unfolding vfile_drop_def
  by (intro okR_intros) (auto simp: keeps outcome_simps split: if_splits dest!: types)

lemma arc_drop_types [THEN okRD, types]: "okR (kern_keeps k) (arc_drop me a k)"
  unfolding arc_drop_def get_file_def
  by (intro okR_intros) (auto simp: keeps outcome_simps split: if_splits dest!: types)

lemma pipe_files_types [THEN okRD, types]: "okR (\<lambda>(r, w, k'). kern_keeps k k') (pipe_files k)"
  unfolding pipe_files_def pipe_alloc_def
  by (intro okR_intros) (auto simp: keeps pipe_end_def file_typed_def outcome_simps dest!: types)

lemma dev_read_types [THEN okRD, types]: "okR (\<lambda>(r, k'). kern_keeps k k') (dev_read me addr len moved k)"
  unfolding dev_read_def by (intro okR_intros) (auto simp: keeps dest!: types)

lemma dev_write_types [THEN okRD, types]: "okR (\<lambda>(r, k'). kern_keeps k k') (dev_write mc me addr len moved k)"
  unfolding dev_write_def by (intro okR_intros) (auto simp: keeps dest!: types)

lemma write_chunk_types [THEN okRD, types]: "okR (\<lambda>(r, k'). kern_keeps k k') (write_chunk me ip addr wr n off k)"
  unfolding write_chunk_def by (intro okR_intros) (auto simp: keeps dest!: types)

lemma write_loop_types [THEN okRD, types]: "okR (\<lambda>(r, k'). kern_keeps k k') (write_loop me a addr len wr k)"
proof (induction me a addr len wr k rule: write_loop.induct)
  case (1 me a addr len wr k)
  show ?case unfolding write_loop.simps [of me a addr len wr k]
  proof (intro okR_intros, goal_cases)
    case (3 b k1 x ip y r k2 w k3 off k4)
    then have "kern_keeps k k4" by (auto simp: kern_keeps_def dest!: types)
    with 3 show ?case by (intro okR_weaken [OF "1.IH"]) (auto intro: kern_keeps_trans)
  qed (auto simp: kern_keeps_def dest!: types)
qed

lemma vfile_read_types [THEN okRD, types]: "okR (\<lambda>(r, k'). kern_keeps k k') (vfile_read me a addr len moved k)"
  unfolding vfile_read_def
  by (intro okR_intros okR_file_type)
    (auto simp: okR_def keeps outcome_simps split: read_fn.splits dest!: types)

lemma vfile_write_types [THEN okRD, types]: "okR (\<lambda>(r, k'). kern_keeps k k') (vfile_write mc me a addr len moved k)"
  unfolding vfile_write_def
  by (intro okR_intros okR_file_type)
    (auto simp: okR_def keeps outcome_simps split: write_fn.splits dest!: types)

lemma vfile_stat_types [THEN okRD, types]: "okR (\<lambda>(r, k'). kern_keeps k k') (vfile_stat mc me a addr k)"
  unfolding vfile_stat_def by (intro okR_intros) (auto simp: keeps dest!: types)

section \<open>Programs\<close>

lemma load_seg_types [THEN okRD, types]: "okR (\<lambda>(r, m', s'). fs_keeps s s') (load_seg pgt va i offset sz m s)"
proof -
  have "okR (\<lambda>(r, m', s'). fs_keeps s s') (load_seg_loop pgt i va offset sz n m s)" for n
  proof (induction pgt i va offset sz n m s rule: load_seg_loop.induct)
    case (1 pgt i va offset sz n m s)
    show ?case unfolding load_seg_loop.simps [of pgt i va offset sz n m s] Let_def
      by (intro okR_intros okR_weaken [OF "1.IH"]) (auto dest!: types intro: fs_keeps_trans)
  qed
  then show ?thesis unfolding load_seg_def by (intro okR_intros)
qed

lemma load_segs_types [THEN okRD, types]: "okR (\<lambda>(r, sz', m', s'). fs_keeps s s') (load_segs pgt i n off sz m s)"
proof (induction n arbitrary: off sz m s)
  case (Suc n)
  show ?case unfolding load_segs.simps
    by (intro okR_intros okR_weaken [OF Suc]) (auto dest!: types intro: fs_keeps_trans)
qed (simp add: okR_intros)

lemma exec_fail_types [THEN okRD, types]:
  "okR (\<lambda>(r, k'). kern_keeps k k') (exec_fail me free opened pgt sz ip msg k)"
  unfolding exec_fail_def by (intro okR_intros) (auto simp: keeps split: if_splits dest!: types)

lemma exec_install_types [THEN okRD, types]:
  "okR (kern_keeps k) (exec_install me pgt sz old_size sp path entry k)"
  unfolding exec_install_def by (intro okR_intros) (auto simp: keeps dest!: types)

lemma exec_args_types [THEN okRD, types]:
  "okR (\<lambda>(r, k'). kern_keeps k k') (exec_args me pgt sz old_size entry ip path argv k)"
  unfolding exec_args_def by (intro okR_intros) (auto simp: okR_def keeps dest!: types)

lemma exec_load_types [THEN okRD, types]:
  "okR (\<lambda>(r, k'). kern_keeps k k') (exec_load mc me ip path argv eh k)"
  unfolding exec_load_def by (intro okR_intros) (auto simp: okR_def keeps dest!: types)

lemma exec_types [THEN okRD, types]: "okR (\<lambda>(r, k'). kern_keeps k k') (exec mc me path argv k)"
  unfolding exec_def by (intro okR_intros) (auto simp: okR_def keeps dest!: types)

lemma collect_args_types [THEN okRD, types]: "okR (\<lambda>(r, k'). kern_keeps k k') (collect_args me addr n argv k)"
proof (induction me addr n argv k rule: collect_args.induct)
  case (1 me addr n argv k)
  show ?case unfolding collect_args.simps [of me addr n argv k]
    by (intro okR_intros okR_weaken [OF "1.IH"]) (auto simp: Let_def)
qed

lemma exec_with_types [THEN okRD, types]: "okR (\<lambda>(r, k'). kern_keeps k k') (exec_with mc me path argv k)"
  unfolding exec_with_def by (intro okR_intros okR_call) (auto dest!: types)

lemma sys_exec_types: "okR (\<lambda>(r, k'). kern_keeps k k') (sys_exec mc me rs k)"
  unfolding sys_exec_def
  by (intro okR_intros okR_resume) (auto simp: okR_def dest!: types intro: kern_keeps_trans)

section \<open>Processes\<close>

lemma k_upd_data_types [types]:
  "k_upd_data i f k = Inr k' \<Longrightarrow> \<exists>t. upd_data i f (k_tab k) = Inr t \<and> k' = k\<lparr>k_tab := t\<rparr>"
  by (auto simp: k_upd_data_def outcome_simps)

lemma k_put_types [THEN okRD, types]: "okR (kern_keeps k) (k_put ip k)"
  unfolding k_put_def by (intro okR_intros) (auto simp: keeps dest!: types)

lemma k_put_opt_types [THEN okRD, types]: "okR (kern_keeps k) (k_put_opt x k)"
  unfolding k_put_opt_def by (auto simp: okR_def split: option.splits dest!: types)

lemma fd_set_types [THEN okRD, types]: "okR (kern_keeps k) (fd_set me fd x k)"
  unfolding fd_set_def by (auto simp: okR_def keeps dest!: types)

lemma fd_take_types [THEN okRD, types]: "okR (kern_keeps k) (fd_take me i fd k)"
  unfolding fd_take_def by (intro okR_intros) (auto simp: okR_def keeps dest!: types)

lemma k_fd_alloc_types [THEN okRD, types]: "okR (\<lambda>(r, k'). kern_keeps k k') (k_fd_alloc me a k)"
  unfolding k_fd_alloc_def by (intro okR_intros) (auto simp: keeps dest!: types)

lemma fork_fd_types [THEN okRD, types]: "okR (kern_keeps k) (fork_fd me child fd k)"
  unfolding fork_fd_def by (intro okR_intros) (auto simp: okR_def keeps split: option.splits dest!: types)

lemma fork_cwd_types [THEN okRD, types]: "okR (kern_keeps k) (fork_cwd me child k)"
  unfolding fork_cwd_def
  by (intro okR_intros) (auto simp: okR_def keeps outcome_simps split: option.splits dest!: types)

lemma foldR_kern_types:
  "(\<And>x k k'. f x k = Inr k' \<Longrightarrow> kern_keeps k k') \<Longrightarrow> okR (kern_keeps k) (foldR f xs k)"
  by (rule foldR_ok) (auto intro: kern_keeps_trans)

lemma foldR_types [THEN okRD, types]:
  "okR (kern_keeps k) (foldR (fork_fd me child) fds k)" "okR (kern_keeps k) (foldR (fd_take me i) fds k)"
  "okR (kern_keeps k) (foldR k_put ips k)"
  by (rule foldR_kern_types, drule types, assumption)+

lemma my_data_types [types]: "my_data i k = Inr d \<Longrightarrow> kern_typed k \<longrightarrow> data_typed i d"
  by (auto simp: my_data_def outcome_simps dest!: types)

lemma upd_name_types [types]:
  "upd_data i (\<lambda>d. d\<lparr>pd_name := nm, pd_size := n\<rparr>) t = Inr t' \<Longrightarrow> length nm = 16 \<longrightarrow> tab_keeps t t'"
  using upd_data_typed [of t i "\<lambda>d. d\<lparr>pd_name := nm, pd_size := n\<rparr>"] by (auto simp: okR_def data_typed_def)

lemma fork_types [THEN okRD, types]: "okR (\<lambda>(r, k'). kern_keeps k k') (fork mc me k)"
  unfolding fork_def
proof (intro okR_intros, goal_cases)
  case (2 x r y t m child p c m1 k1 k2 k3 t1 w)
  then have "kern_keeps k k2" by (auto simp: keeps dest!: types)
  moreover have "kern_typed k \<longrightarrow> length (pd_name p) = 16" using 2 by (auto simp: keeps data_typed_def dest!: types)
  ultimately have "kern_keeps k k3" using 2 by (auto simp: keeps dest!: k_upd_data_types upd_name_types)
  with 2 show ?case by (auto simp: keeps outcome_simps dest!: types)
qed (auto simp: keeps dest!: types)

lemma release_all_types [THEN okRD, types]:
  "okR (\<lambda>(r, k'). kern_keeps k k' \<and> (\<forall>k2. r = Some k2 \<longrightarrow> kern_keeps k k2)) (release_all me k)"
  unfolding release_all_def by (intro okR_intros) (auto simp: keeps dest!: types)

lemma manager_exit_types [THEN okRD, types]: "okR (\<lambda>(r, k'). kern_keeps k k') (manager_exit me status h k)"
  unfolding manager_exit_def by (intro okR_intros) (auto simp: keeps dest!: types)

section \<open>System calls\<close>

lemma on_fs_types [types]: "on_fs f k = Inr (x, k') \<Longrightarrow> \<exists>s. f (k_fs k) = Inr (x, s) \<and> k' = k\<lparr>k_fs := s\<rparr>"
  by (auto simp: on_fs_def outcome_simps)

lemma do_fs_types [types]: "do_fs f k = Inr k' \<Longrightarrow> \<exists>s. f (k_fs k) = Inr s \<and> k' = k\<lparr>k_fs := s\<rparr>"
  by (auto simp: do_fs_def outcome_simps)

lemma add_nlink_types [THEN okRD, types]: "okR (fs_keeps s) (add_nlink i n s)"
  unfolding add_nlink_def by (intro okR_intros) (auto simp: okR_def dest!: types)

lemma finish_types [THEN okRD, types]: "okR (\<lambda>(r, k'). kern_keeps k k') (finish me ips r k)"
  unfolding finish_def by (intro okR_intros) (auto dest!: types intro: kern_keeps_trans)

lemma in_transaction_types:
  assumes "\<And>k'. okR (\<lambda>(r, k2). kern_keeps k' k2) (body k')"
  shows "okR (\<lambda>(r, k'). kern_keeps k k') (in_transaction body k)"
  unfolding in_transaction_def
  by (intro okR_intros okR_weaken [OF assms]) (auto dest!: types intro: kern_keeps_trans)

lemma open_inode_types [THEN okRD, types]: "okR (\<lambda>(r, k'). kern_keeps k k') (open_inode me path mode k)"
  unfolding open_inode_def by (intro okR_intros) (auto simp: keeps dest!: types)

lemma unlink_entry_types [THEN okRD, types]: "okR (\<lambda>(r, k'). kern_keeps k k') (unlink_entry me parent ip k)"
  unfolding unlink_entry_def
  by (intro okR_intros) (auto simp: okR_def outcome_simps keeps split: if_splits dest!: types)

lemma link_entry_types [THEN okRD, types]: "okR (\<lambda>(r, k'). kern_keeps k k') (link_entry me ip parent name k)"
  unfolding link_entry_def
  by (intro okR_intros) (auto simp: okR_def outcome_simps keeps split: if_splits dest!: types)

lemma sys_dup_types: "okR (\<lambda>(r, k'). kern_keeps k k') (sys_dup me k)"
  unfolding sys_dup_def by (intro okR_intros) (auto dest!: types intro: kern_keeps_trans)

lemma sys_pipe_types: "okR (\<lambda>(r, k'). kern_keeps k k') (sys_pipe me k)"
  unfolding sys_pipe_def by (intro okR_intros) (auto simp: keeps dest!: types)

lemma sys_open_types: "okR (\<lambda>(r, k'). kern_keeps k k') (sys_open me k)"
  unfolding sys_open_def
proof (intro okR_intros in_transaction_types, goal_cases)
  case (2 addr path mode k1 x r k2 ip k3 d k4 k5 y a k6 z w k7)
  have "kern_keeps k1 k3" using 2 by (auto simp: keeps dest!: types)
  then have "kern_keeps k1 k4" using 2 by (auto simp: keeps split: if_splits dest!: types)
  then have "kern_keeps k1 k6" using 2 by (auto simp: keeps file_typed_def vfile_init_def split: if_splits dest!: types)
  with 2 show ?case by (auto simp: keeps dest!: types)
qed (auto dest!: types)

lemma sys_file_types:
  "okR (\<lambda>(r, k'). kern_keeps k k') (sys_close me k)" "okR (\<lambda>(r, k'). kern_keeps k k') (sys_read me rs k)"
  "okR (\<lambda>(r, k'). kern_keeps k k') (sys_write mc me rs k)" "okR (\<lambda>(r, k'). kern_keeps k k') (sys_fstat mc me k)"
  unfolding sys_close_def sys_read_def sys_write_def sys_fstat_def by (intro okR_intros; auto dest!: types)+

lemma sys_name_types:
  "okR (\<lambda>(r, k'). kern_keeps k k') (sys_mknod me k)" "okR (\<lambda>(r, k'). kern_keeps k k') (sys_chdir me k)"
  "okR (\<lambda>(r, k'). kern_keeps k k') (sys_mkdir me k)" "okR (\<lambda>(r, k'). kern_keeps k k') (sys_unlink me k)"
  "okR (\<lambda>(r, k'). kern_keeps k k') (sys_link me k)"
  unfolding sys_mknod_def sys_chdir_def sys_mkdir_def sys_unlink_def sys_link_def
  by (intro okR_intros in_transaction_types; auto simp: okR_def keeps outcome_simps dest!: types)+

lemma sys_proc_types:
  "okR (\<lambda>(r, k'). kern_keeps k k') (sys_fork mc me k)" "okR (\<lambda>(r, k'). kern_keeps k k') (sys_exit me h k)"
  "okR (\<lambda>(r, k'). kern_keeps k k') (sys_wait me k)" "okR (\<lambda>(r, k'). kern_keeps k k') (sys_sbrk me k)"
  "okR (\<lambda>(r, k'). kern_keeps k k') (sys_getpid me k)" "okR (\<lambda>(r, k'). kern_keeps k k') (sys_sleep me rs k)"
  "okR (\<lambda>(r, k'). kern_keeps k k') (sys_uptime k)"
  unfolding sys_fork_def sys_exit_def sys_wait_def sys_sbrk_def sys_getpid_def sys_sleep_def sys_uptime_def
  by (intro okR_intros; auto simp: keeps dest!: types)+

lemma syscall_types [THEN okRD]: "okR (\<lambda>(r, k'). kern_keeps k k') (syscall mc me h rs k)"
  unfolding syscall_def
proof (intro okR_intros, goal_cases)
  case (1 d)
  show ?case
    by (cases "from_primitive (tf_get (pd_trapframe d) (TF_AX 7) (k_mem k))")
      (simp_all add: okR_intros sys_dup_types sys_pipe_types sys_open_types sys_exec_types sys_file_types sys_name_types
        sys_proc_types)
qed

lemma syscall_handler_types: "okR (\<lambda>(r, k'). kern_keeps k k') (syscall_handler mc me h rs k)"
  unfolding syscall_handler_def
  by (intro okR_intros) (auto split: sys_end.splits simp: okR_def outcome_simps dest!: syscall_types)

end
