(* ===== verification/Rx_Virtio.thy ===== *)
theory Rx_Virtio
  imports Rx_Proc
begin

text \<open>
  The disk driver, \<^verbatim>\<open>driver/virtio_disk.rs\<close>, with the constants of \<^verbatim>\<open>arch/riscv/qemu/virtio.rs\<close>: the
  descriptors and rings shared with the device, their allocation, the submission and the end of a
  request, and the interrupt handler. The device's registers are read and written through two
  arguments. The addresses of the request headers and status bytes, which the driver puts into
  descriptors, are arguments as well. A request that has to wait is split at its sleeps.
\<close>

section \<open>Constants and data\<close>

definition NUM :: nat where "NUM = 8"
definition VRING_DESC_F_NEXT :: u16 where "VRING_DESC_F_NEXT = 1"
definition VRING_DESC_F_WRITE :: u16 where "VRING_DESC_F_WRITE = 2"
definition VIRTIO_BLK_T_IN :: u32 where "VIRTIO_BLK_T_IN = 0"
definition VIRTIO_BLK_T_OUT :: u32 where "VIRTIO_BLK_T_OUT = 1"
definition VIRTIO_MMIO_MAGIC_VALUE :: nat where "VIRTIO_MMIO_MAGIC_VALUE = 0"
definition VIRTIO_MMIO_VERSION :: nat where "VIRTIO_MMIO_VERSION = 0x004"
definition VIRTIO_MMIO_DEVICE_ID :: nat where "VIRTIO_MMIO_DEVICE_ID = 0x008"
definition VIRTIO_MMIO_VENDOR_ID :: nat where "VIRTIO_MMIO_VENDOR_ID = 0x00c"
definition VIRTIO_MMIO_DEVICE_FEATURES :: nat where "VIRTIO_MMIO_DEVICE_FEATURES = 0x010"
definition VIRTIO_MMIO_DRIVER_FEATURES :: nat where "VIRTIO_MMIO_DRIVER_FEATURES = 0x020"
definition VIRTIO_MMIO_GUEST_PAGE_SIZE :: nat where "VIRTIO_MMIO_GUEST_PAGE_SIZE = 0x028"
definition VIRTIO_MMIO_QUEUE_SEL :: nat where "VIRTIO_MMIO_QUEUE_SEL = 0x030"
definition VIRTIO_MMIO_QUEUE_NUM_MAX :: nat where "VIRTIO_MMIO_QUEUE_NUM_MAX = 0x034"
definition VIRTIO_MMIO_QUEUE_NUM :: nat where "VIRTIO_MMIO_QUEUE_NUM = 0x038"
definition VIRTIO_MMIO_QUEUE_PFN :: nat where "VIRTIO_MMIO_QUEUE_PFN = 0x040"
definition VIRTIO_MMIO_QUEUE_NOTIFY :: nat where "VIRTIO_MMIO_QUEUE_NOTIFY = 0x050"
definition VIRTIO_MMIO_INTERRUPT_STATUS :: nat where "VIRTIO_MMIO_INTERRUPT_STATUS = 0x060"
definition VIRTIO_MMIO_INTERRUPT_ACK :: nat where "VIRTIO_MMIO_INTERRUPT_ACK = 0x064"
definition VIRTIO_MMIO_STATUS :: nat where "VIRTIO_MMIO_STATUS = 0x070"

record vqdesc =
  vd_addr :: usize
  vd_len :: u32
  vd_flags :: u16
  vd_next :: u16

record info =
  in_channel :: "usize option"
  in_status :: u8
  in_disk :: bool

record blkreq =
  br_type :: u32
  br_reserved :: u32
  br_sector :: usize

record disk =
  dk_desc :: "vqdesc list"
  dk_avail_idx :: u16
  dk_avail_ring :: "u16 list"
  dk_used_idx_dev :: u16
  dk_used_ring :: "(u32 \<times> u32) list"
  dk_free :: "bool list"
  dk_used_idx :: u16
  dk_info :: "info list"
  dk_ops :: "blkreq list"

definition vqdesc_new :: vqdesc where
  "vqdesc_new = \<lparr>vd_addr = 0, vd_len = 0, vd_flags = 0, vd_next = 0\<rparr>"

definition info_new :: info where
  "info_new = \<lparr>in_channel = None, in_status = 0, in_disk = False\<rparr>"

definition blkreq_new :: blkreq where
  "blkreq_new = \<lparr>br_type = 0, br_reserved = 0, br_sector = 0\<rparr>"

definition disk_new :: disk where
  "disk_new = \<lparr>dk_desc = replicate NUM vqdesc_new, dk_avail_idx = 0, dk_avail_ring = replicate NUM 0,
     dk_used_idx_dev = 0, dk_used_ring = replicate NUM (0, 0), dk_free = replicate NUM False,
     dk_used_idx = 0, dk_info = replicate NUM info_new, dk_ops = replicate NUM blkreq_new\<rparr>"

section \<open>Initialization\<close>

text \<open>\<open>rd\<close> reads a register, \<open>wr\<close> writes one, \<open>self\<close> is the address of the structure.\<close>

definition features_mask :: "u32 \<Rightarrow> u32" where
  "features_mask f = fold (\<lambda>b f. f AND NOT (push_bit b 1)) [5, 7, 11, 12, 27, 29, 28] f"

definition disk_probe :: "(nat \<Rightarrow> 'v \<Rightarrow> u32) \<Rightarrow> 'v \<Rightarrow> bool" where
  "disk_probe rd v \<longleftrightarrow> rd VIRTIO_MMIO_MAGIC_VALUE v = 0x74726976 \<and> rd VIRTIO_MMIO_VERSION v = 1 \<and>
     rd VIRTIO_MMIO_DEVICE_ID v = 2 \<and> rd VIRTIO_MMIO_VENDOR_ID v = 0x554d4551"

definition disk_negotiate :: "(nat \<Rightarrow> 'v \<Rightarrow> u32) \<Rightarrow> (nat \<Rightarrow> u32 \<Rightarrow> 'v \<Rightarrow> 'v) \<Rightarrow> 'v \<Rightarrow> 'v" where
  "disk_negotiate rd wr v =
     (let v = wr VIRTIO_MMIO_STATUS 1 v;
          v = wr VIRTIO_MMIO_STATUS (1 OR 2) v;
          v = wr VIRTIO_MMIO_DRIVER_FEATURES (features_mask (rd VIRTIO_MMIO_DEVICE_FEATURES v)) v;
          v = wr VIRTIO_MMIO_STATUS (1 OR 2 OR 8) v;
          v = wr VIRTIO_MMIO_STATUS (1 OR 2 OR 8 OR 4) v;
          v = wr VIRTIO_MMIO_GUEST_PAGE_SIZE 4096 v in
      wr VIRTIO_MMIO_QUEUE_SEL 0 v)"

definition disk_init :: "(nat \<Rightarrow> 'v \<Rightarrow> u32) \<Rightarrow> (nat \<Rightarrow> u32 \<Rightarrow> 'v \<Rightarrow> 'v) \<Rightarrow> usize \<Rightarrow> disk \<Rightarrow> 'v \<Rightarrow>
    (disk \<times> 'v) outcome" where
  "disk_init rd wr self d v =
     bindR (guardR (disk_probe rd v) NoDisk) (\<lambda>_.
       let v = disk_negotiate rd wr v; mx = rd VIRTIO_MMIO_QUEUE_NUM_MAX v in
       bindR (guardR (mx \<noteq> 0) NoDiskQueue) (\<lambda>_.
         bindR (guardR (of_nat NUM \<le> mx) NoDiskQueue) (\<lambda>_.
           let v = wr VIRTIO_MMIO_QUEUE_NUM (of_nat NUM) v; pfn = drop_bit PGSHIFT self in
           bindR (guardR (unat pfn < 2 ^ 32) UnwrapNone) (\<lambda>_.
             Inr (d\<lparr>dk_free := replicate (length (dk_free d)) True\<rparr>,
                  wr VIRTIO_MMIO_QUEUE_PFN (ucast pfn) v)))))"

section \<open>Descriptors\<close>

fun find_free :: "bool list \<Rightarrow> nat \<Rightarrow> nat option" where
  "find_free [] i = None"
| "find_free (f # fs) i = (if f then Some i else find_free fs (i + 1))"

definition alloc_desc :: "disk \<Rightarrow> (nat option \<times> disk) outcome" where
  "alloc_desc d =
     bindR (guardR (length (dk_free d) = NUM) AssertFailed) (\<lambda>_.
       case find_free (dk_free d) 0 of
         None \<Rightarrow> Inr (None, d)
       | Some i \<Rightarrow> Inr (Some i, d\<lparr>dk_free := (dk_free d)[i := False]\<rparr>))"

definition free_desc :: "nat option \<Rightarrow> nat \<Rightarrow> disk \<times> 'i ptable \<Rightarrow> (disk \<times> 'i ptable) outcome" where
  "free_desc me i = (\<lambda>(d, t).
     if NUM \<le> i then Inl DescIndex
     else bindR (idx_get (dk_free d) i) (\<lambda>f.
       if f then Inl DescIndex
       else bindR (idx_set (dk_desc d) i vqdesc_new) (\<lambda>ds.
         Inr (d\<lparr>dk_desc := ds, dk_free := (dk_free d)[i := True]\<rparr>, wake_up me ChanDisk t))))"

text \<open>Three descriptors. When the next one cannot be had, the loop gives back descriptors \<open>0\<close> up to
  the number obtained, not the ones obtained.\<close>

fun alloc3_loop :: "nat option \<Rightarrow> nat \<Rightarrow> nat list \<Rightarrow> disk \<times> 'i ptable \<Rightarrow>
    (nat list option \<times> disk \<times> 'i ptable) outcome" where
  "alloc3_loop me 0 idx (d, t) = Inr (Some idx, d, t)"
| "alloc3_loop me (Suc k) idx (d, t) =
     bindR (alloc_desc d) (\<lambda>(r, d).
       case r of
         Some ix \<Rightarrow> alloc3_loop me k (idx @ [ix]) (d, t)
       | None \<Rightarrow> bindR (foldR (free_desc me) [0..<length idx] (d, t)) (\<lambda>dt. Inr (None, dt)))"

definition alloc3_desc :: "nat option \<Rightarrow> disk \<times> 'i ptable \<Rightarrow>
    (nat list option \<times> disk \<times> 'i ptable) outcome" where
  "alloc3_desc me dt = alloc3_loop me 3 [] dt"

text \<open>A chain that comes back to a descriptor it has freed panics there, so the loop ends.\<close>

definition in_use :: "disk \<Rightarrow> nat" where
  "in_use d = length (filter (\<lambda>f. \<not> f) (dk_free d))"

lemma length_filter_update:
  "i < length xs \<Longrightarrow> \<not> xs ! i \<Longrightarrow> length (filter (\<lambda>f. \<not> f) (xs[i := True])) < length (filter (\<lambda>f. \<not> f) xs)"
  by (induction xs arbitrary: i) (auto split: nat.splits)

lemma free_desc_in_use:
  assumes "free_desc me i (d, t) = Inr (d', t')"
  shows "in_use d' < in_use d"
  using assms by (auto simp: free_desc_def in_use_def idx_get_def idx_set_def
      intro!: length_filter_update split: if_splits)

function free_chain :: "nat option \<Rightarrow> nat \<Rightarrow> disk \<times> 'i ptable \<Rightarrow> (disk \<times> 'i ptable) outcome" where
  "free_chain me i (d, t) =
     bindR (idx_get (dk_desc d) i) (\<lambda>ds.
       bindR (free_desc me i (d, t)) (\<lambda>dt.
         if vd_flags ds AND VRING_DESC_F_NEXT \<noteq> 0 then free_chain me (unat (vd_next ds)) dt else Inr dt))"
  by pat_completeness auto
termination
  by (relation "measure (\<lambda>(me, i, d, t). in_use d)") (auto dest: free_desc_in_use)

declare free_chain.simps [simp del]

section \<open>Requests\<close>

definition upd_desc :: "nat \<Rightarrow> vqdesc \<Rightarrow> disk \<Rightarrow> disk outcome" where
  "upd_desc i v d = bindR (idx_set (dk_desc d) i v) (\<lambda>ds. Inr (d\<lparr>dk_desc := ds\<rparr>))"

definition upd_info :: "nat \<Rightarrow> (info \<Rightarrow> info) \<Rightarrow> disk \<Rightarrow> disk outcome" where
  "upd_info i f d =
     bindR (idx_get (dk_info d) i) (\<lambda>x. Inr (d\<lparr>dk_info := (dk_info d)[i := f x]\<rparr>))"

text \<open>Filling the three descriptors and handing the first to the device. \<open>op_addr\<close> and \<open>st_addr\<close>
  give the addresses of the header and of the status byte of a request; \<open>bufp\<close> is the address of
  the data.\<close>

definition rw_submit :: "(nat \<Rightarrow> usize) \<Rightarrow> (nat \<Rightarrow> usize) \<Rightarrow> usize \<Rightarrow> u32 \<Rightarrow> bool \<Rightarrow>
    nat \<Rightarrow> nat \<Rightarrow> nat \<Rightarrow> disk \<Rightarrow> disk outcome" where
  "rw_submit op_addr st_addr bufp blockno writing i0 i1 i2 d =
     bindR (idx_set (dk_ops d) i0 \<lparr>br_type = (if writing then VIRTIO_BLK_T_OUT else VIRTIO_BLK_T_IN),
         br_reserved = 0, br_sector = ucast blockno * 2\<rparr>) (\<lambda>ops.
       let d = d\<lparr>dk_ops := ops\<rparr> in
       bindR (upd_desc i0 \<lparr>vd_addr = op_addr i0, vd_len = 16, vd_flags = VRING_DESC_F_NEXT,
           vd_next = of_nat i1\<rparr> d) (\<lambda>d.
         bindR (upd_desc i1 \<lparr>vd_addr = bufp, vd_len = 1024,
             vd_flags = (if writing then 0 else VRING_DESC_F_WRITE) OR VRING_DESC_F_NEXT,
             vd_next = of_nat i2\<rparr> d) (\<lambda>d.
           bindR (upd_info i0 (\<lambda>x. x\<lparr>in_status := 0xff\<rparr>) d) (\<lambda>d.
             bindR (upd_desc i2 \<lparr>vd_addr = st_addr i0, vd_len = 1, vd_flags = VRING_DESC_F_WRITE,
                 vd_next = 0\<rparr> d) (\<lambda>d.
               bindR (upd_info i0 (\<lambda>x. x\<lparr>in_disk := True, in_channel := Some bufp\<rparr>) d) (\<lambda>d.
                 bindR (idx_set (dk_avail_ring d) (unat (dk_avail_idx d) mod NUM) (of_nat i0)) (\<lambda>ring.
                   bindR (add_ck (dk_avail_idx d) 1) (\<lambda>ix.
                     Inr (d\<lparr>dk_avail_ring := ring, dk_avail_idx := ix\<rparr>)))))))))"

datatype rw_wait = RwNoDesc | RwSubmitted nat

definition rw_start :: "(nat \<Rightarrow> usize) \<Rightarrow> (nat \<Rightarrow> usize) \<Rightarrow> (nat \<Rightarrow> u32 \<Rightarrow> 'v \<Rightarrow> 'v) \<Rightarrow> nat option \<Rightarrow>
    usize \<Rightarrow> u32 \<Rightarrow> bool \<Rightarrow> disk \<times> 'i ptable \<Rightarrow> 'v \<Rightarrow> (rw_wait \<times> (disk \<times> 'i ptable) \<times> 'v) outcome" where
  "rw_start op_addr st_addr wr me bufp blockno writing dt v =
     bindR (alloc3_desc me dt) (\<lambda>(r, d, t).
       case r of
         Some [i0, i1, i2] \<Rightarrow>
           bindR (rw_submit op_addr st_addr bufp blockno writing i0 i1 i2 d) (\<lambda>d.
             Inr (RwSubmitted i0, (d, t), wr VIRTIO_MMIO_QUEUE_NOTIFY 0 v))
       | _ \<Rightarrow> Inr (RwNoDesc, (d, t), v))"

text \<open>After the submission: the caller sleeps while the device owns the buffer (\<open>None\<close>), then the
  chain is given back.\<close>

definition rw_finish :: "nat option \<Rightarrow> usize \<Rightarrow> nat \<Rightarrow> disk \<times> 'i ptable \<Rightarrow>
    (disk \<times> 'i ptable) option outcome" where
  "rw_finish me bufp i0 = (\<lambda>(d, t).
     bindR (idx_get (dk_info d) i0) (\<lambda>x.
       if in_disk x then Inr None
       else bindR (upd_info i0 (\<lambda>x. x\<lparr>in_channel := None\<rparr>) d) (\<lambda>d.
         bindR (unwrap (in_channel x)) (\<lambda>c.
           bindR (guardR (c = bufp) AssertFailed) (\<lambda>_.
             bindR (free_chain me i0 (d, t)) (\<lambda>dt. Inr (Some dt)))))))"

section \<open>The interrupt handler\<close>

definition intr_one :: "nat option \<Rightarrow> disk \<times> 'i ptable \<Rightarrow> (disk \<times> 'i ptable) outcome" where
  "intr_one me = (\<lambda>(d, t).
     bindR (idx_get (dk_used_ring d) (unat (dk_used_idx d) mod NUM)) (\<lambda>e.
       let i = unat (fst e) in
       bindR (idx_get (dk_info d) i) (\<lambda>x.
         bindR (guardR (in_status x = 0) DiskStatus) (\<lambda>_.
           bindR (unwrap (in_channel x)) (\<lambda>c.
             bindR (upd_info i (\<lambda>x. x\<lparr>in_disk := False\<rparr>) d) (\<lambda>d.
               bindR (add_ck (dk_used_idx d) 1) (\<lambda>ix.
                 Inr (d\<lparr>dk_used_idx := ix\<rparr>, wake_up me (ChanBuf c) t))))))))"

lemma intr_one_idx:
  "intr_one me (d, t) = Inr (d', t') \<Longrightarrow>
     dk_used_idx d' = dk_used_idx d + 1 \<and> dk_used_idx_dev d' = dk_used_idx_dev d"
  by (auto simp: intr_one_def upd_info_def add_ck_def guardR_def unwrap_def Let_def idx_get_def
      bindR_eq_Inr_iff split: if_splits option.splits)

lemma unat_diff_step:
  fixes u v :: u16
  assumes "u \<noteq> v"
  shows "unat (v - (u + 1)) < unat (v - u)"
proof -
  have "v - u \<noteq> 0" using assms by simp
  then have "unat (v - u - 1) < unat (v - u)" by (simp add: unat_minus_one unat_gt_0)
  then show ?thesis by (simp add: algebra_simps)
qed

text \<open>The device's index is as it is when the handler runs.\<close>

function intr_loop :: "nat option \<Rightarrow> disk \<times> 'i ptable \<Rightarrow> (disk \<times> 'i ptable) outcome" where
  "intr_loop me (d, t) =
     (if dk_used_idx d \<noteq> dk_used_idx_dev d
      then bindR (intr_one me (d, t)) (intr_loop me) else Inr (d, t))"
  by pat_completeness auto
termination
  by (relation "measure (\<lambda>(me, d, t). unat (dk_used_idx_dev d - dk_used_idx d))")
    (auto dest!: intr_one_idx intro: unat_diff_step)

declare intr_loop.simps [simp del]

definition disk_intr :: "(nat \<Rightarrow> 'v \<Rightarrow> u32) \<Rightarrow> (nat \<Rightarrow> u32 \<Rightarrow> 'v \<Rightarrow> 'v) \<Rightarrow> nat option \<Rightarrow>
    disk \<times> 'i ptable \<Rightarrow> 'v \<Rightarrow> ((disk \<times> 'i ptable) \<times> 'v) outcome" where
  "disk_intr rd wr me dt v =
     (let v = wr VIRTIO_MMIO_INTERRUPT_ACK (rd VIRTIO_MMIO_INTERRUPT_STATUS v AND 3) v in
      bindR (intr_loop me dt) (\<lambda>dt. Inr (dt, v)))"

section \<open>Allocation of descriptors\<close>

definition disk_ok :: "disk \<Rightarrow> bool" where
  "disk_ok d \<longleftrightarrow> length (dk_desc d) = NUM \<and> length (dk_avail_ring d) = NUM \<and> length (dk_used_ring d) = NUM \<and>
     length (dk_free d) = NUM \<and> length (dk_info d) = NUM \<and> length (dk_ops d) = NUM"

definition nfree :: "disk \<Rightarrow> nat" where
  "nfree d = length (filter (\<lambda>f. f) (dk_free d))"

lemma find_free_Some:
  "0 < length (filter (\<lambda>f. f) fs) \<Longrightarrow> \<exists>j<length fs. find_free fs k = Some (k + j) \<and> fs ! j"
proof (induction fs k rule: find_free.induct)
  case (2 f fs i)
  show ?case
  proof (cases f)
    case False
    then obtain j where "j < length fs" "find_free fs (i + 1) = Some (i + 1 + j)" "fs ! j" using 2 by auto
    then show ?thesis using False by (intro exI [of _ "Suc j"]) simp
  qed (auto intro!: exI [of _ 0])
qed simp

lemma length_filter_clear:
  "i < length xs \<Longrightarrow> xs ! i \<Longrightarrow> length (filter (\<lambda>f. f) (xs[i := False])) = length (filter (\<lambda>f. f) xs) - 1"
proof (induction xs arbitrary: i)
  case (Cons x xs)
  show ?case
  proof (cases i)
    case (Suc j)
    then have "xs ! j" "j < length xs" using Cons.prems by auto
    then have "xs ! j \<in> set (filter (\<lambda>f. f) xs)" using nth_mem [of j xs] by simp
    then have "0 < length (filter (\<lambda>f. f) xs)" by (rule length_pos_if_in_set)
    moreover have "length (filter (\<lambda>f. f) (xs[j := False])) = length (filter (\<lambda>f. f) xs) - 1"
      by (rule Cons.IH) fact+
    ultimately show ?thesis using Suc by simp
  qed (use Cons.prems in simp)
qed simp

lemma alloc_desc_ok:
  assumes "length (dk_free d) = NUM" "0 < nfree d"
  obtains i where "i < NUM" "dk_free d ! i"
    "alloc_desc d = Inr (Some i, d\<lparr>dk_free := (dk_free d)[i := False]\<rparr>)"
    "nfree (d\<lparr>dk_free := (dk_free d)[i := False]\<rparr>) = nfree d - 1"
proof -
  obtain i where i: "i < length (dk_free d)" "find_free (dk_free d) 0 = Some i" "dk_free d ! i"
    using find_free_Some [of "dk_free d" 0] assms(2) by (auto simp: nfree_def)
  show thesis
    by (rule that [of i]) (use i assms in \<open>simp_all add: alloc_desc_def guardR_def nfree_def length_filter_clear\<close>)
qed

lemma alloc3_ok:
  assumes len: "length (dk_free d) = NUM" and room: "3 \<le> nfree d"
  shows "\<exists>i0 i1 i2. i0 < NUM \<and> i1 < NUM \<and> i2 < NUM \<and> distinct [i0, i1, i2] \<and>
     dk_free d ! i0 \<and> dk_free d ! i1 \<and> dk_free d ! i2 \<and>
     alloc3_desc me (d, t) =
       Inr (Some [i0, i1, i2], d\<lparr>dk_free := (dk_free d)[i0 := False, i1 := False, i2 := False]\<rparr>, t)"
proof -
  obtain i0 where i0: "i0 < NUM" "dk_free d ! i0"
    "alloc_desc d = Inr (Some i0, d\<lparr>dk_free := (dk_free d)[i0 := False]\<rparr>)"
    "nfree (d\<lparr>dk_free := (dk_free d)[i0 := False]\<rparr>) = nfree d - 1"
    by (rule alloc_desc_ok [OF len]) (use room in auto)
  let ?d1 = "d\<lparr>dk_free := (dk_free d)[i0 := False]\<rparr>"
  obtain i1 where i1: "i1 < NUM" "dk_free ?d1 ! i1"
    "alloc_desc ?d1 = Inr (Some i1, ?d1\<lparr>dk_free := (dk_free ?d1)[i1 := False]\<rparr>)"
    "nfree (?d1\<lparr>dk_free := (dk_free ?d1)[i1 := False]\<rparr>) = nfree ?d1 - 1"
    by (rule alloc_desc_ok [of ?d1]) (use room len i0(4) in auto)
  let ?d2 = "?d1\<lparr>dk_free := (dk_free ?d1)[i1 := False]\<rparr>"
  obtain i2 where i2: "i2 < NUM" "dk_free ?d2 ! i2"
    "alloc_desc ?d2 = Inr (Some i2, ?d2\<lparr>dk_free := (dk_free ?d2)[i2 := False]\<rparr>)"
    by (rule alloc_desc_ok [of ?d2]) (use room len i0(4) i1(4) in auto)
  have ne: "i1 \<noteq> i0" "i2 \<noteq> i0" "i2 \<noteq> i1" using i1(2) i2(2) len i0(1) i1(1) by (auto simp: nth_list_update split: if_splits)
  then have old: "dk_free d ! i1" "dk_free d ! i2" using i1(2) i2(2) by (simp_all add: nth_list_update)
  have "alloc3_desc me (d, t) =
       Inr (Some [i0, i1, i2], d\<lparr>dk_free := (dk_free d)[i0 := False, i1 := False, i2 := False]\<rparr>, t)"
    using i0(3) i1(3) i2(3) by (simp add: alloc3_desc_def numeral_3_eq_3)
  then show ?thesis using i0(1,2) i1(1) i2(1) ne old by (intro exI [of _ i0] exI [of _ i1] exI [of _ i2]) auto
qed

section \<open>The life of a request\<close>

text \<open>A request as the device finds it in a chain of descriptors: the header, a buffer, and a status byte
  the device may write. The header is the one whose address is in the first descriptor.\<close>

record request =
  rq_type :: u32
  rq_sector :: usize
  rq_addr :: usize
  rq_len :: u32
  rq_write :: bool
  rq_status :: usize

definition request_of :: "(nat \<Rightarrow> usize) \<Rightarrow> disk \<Rightarrow> nat \<Rightarrow> request option" where
  "request_of op_addr d head =
     (let h = dk_desc d ! head; b = dk_desc d ! unat (vd_next h); s = dk_desc d ! unat (vd_next b) in
      if vd_flags h AND VRING_DESC_F_NEXT \<noteq> 0 \<and> vd_flags b AND VRING_DESC_F_NEXT \<noteq> 0 \<and>
         vd_flags s AND VRING_DESC_F_NEXT = 0 \<and> vd_flags h AND VRING_DESC_F_WRITE = 0 \<and>
         vd_flags s AND VRING_DESC_F_WRITE \<noteq> 0 \<and> vd_len h = 16 \<and> vd_len s = 1
      then case find (\<lambda>k. op_addr k = vd_addr h) [0..<NUM] of
          None \<Rightarrow> None
        | Some k \<Rightarrow> Some \<lparr>rq_type = br_type (dk_ops d ! k), rq_sector = br_sector (dk_ops d ! k), rq_addr = vd_addr b,
            rq_len = vd_len b, rq_write = (vd_flags b AND VRING_DESC_F_WRITE \<noteq> 0), rq_status = vd_addr s\<rparr>
      else None)"

text \<open>What a virtio block device does to the shared structure when it serves a request, \<open>dev seen\<close> for a
  device that has taken \<open>seen\<close> requests so far. It takes the chain that the available ring names next,
  writes a status to the address in the chain, adds the head of the chain to the used ring and counts it
  there; it leaves everything else. Nothing is said of a ring without a request or of a chain that is not
  one.\<close>

definition virtio_device :: "(nat \<Rightarrow> usize) \<Rightarrow> (nat \<Rightarrow> usize) \<Rightarrow> (u16 \<Rightarrow> disk \<Rightarrow> disk) \<Rightarrow> bool" where
  "virtio_device op_addr st_addr dev \<longleftrightarrow>
     (\<forall>seen d r head. seen \<noteq> dk_avail_idx d \<and> head = dk_avail_ring d ! (unat seen mod NUM) \<and>
        request_of op_addr d (unat head) = Some r \<longrightarrow>
        (\<exists>st len. dev seen d = d\<lparr>
           dk_info := map (\<lambda>i. if st_addr i = rq_status r then (dk_info d ! i)\<lparr>in_status := st\<rparr> else dk_info d ! i)
             [0..<length (dk_info d)],
           dk_used_ring := (dk_used_ring d)[unat (dk_used_idx_dev d) mod NUM := (ucast head, len)],
           dk_used_idx_dev := dk_used_idx_dev d + 1\<rparr>))"

lemma NUM_pos: "0 < NUM" "x mod NUM < NUM" by (simp_all add: NUM_def)

lemma add_ck_room: "unat (a :: u16) + 1 < 2 ^ 16 \<Longrightarrow> add_ck a 1 = Inr (a + 1)"
  by (simp add: add_ck_def)

text \<open>What a submission puts into the structure, and the request the device then finds.\<close>

definition rw_published :: "(nat \<Rightarrow> usize) \<Rightarrow> (nat \<Rightarrow> usize) \<Rightarrow> usize \<Rightarrow> u32 \<Rightarrow> bool \<Rightarrow>
    nat \<Rightarrow> nat \<Rightarrow> nat \<Rightarrow> disk \<Rightarrow> disk \<Rightarrow> bool" where
  "rw_published op_addr st_addr bufp blockno writing i0 i1 i2 d d1 \<longleftrightarrow>
     dk_desc d1 = (dk_desc d)
       [i0 := \<lparr>vd_addr = op_addr i0, vd_len = 16, vd_flags = VRING_DESC_F_NEXT, vd_next = of_nat i1\<rparr>,
        i1 := \<lparr>vd_addr = bufp, vd_len = 1024,
          vd_flags = (if writing then 0 else VRING_DESC_F_WRITE) OR VRING_DESC_F_NEXT, vd_next = of_nat i2\<rparr>,
        i2 := \<lparr>vd_addr = st_addr i0, vd_len = 1, vd_flags = VRING_DESC_F_WRITE, vd_next = 0\<rparr>] \<and>
     dk_ops d1 = (dk_ops d)[i0 := \<lparr>br_type = (if writing then VIRTIO_BLK_T_OUT else VIRTIO_BLK_T_IN),
        br_reserved = 0, br_sector = ucast blockno * 2\<rparr>] \<and>
     dk_avail_ring d1 = (dk_avail_ring d)[unat (dk_avail_idx d) mod NUM := of_nat i0] \<and>
     dk_avail_idx d1 = dk_avail_idx d + 1"

lemma rw_submit_ok:
  assumes "disk_ok d" "i0 < NUM" "i1 < NUM" "i2 < NUM" "unat (dk_avail_idx d) + 1 < 2 ^ 16"
  shows "\<exists>d1. rw_submit op_addr st_addr bufp blockno writing i0 i1 i2 d = Inr d1 \<and> disk_ok d1 \<and>
     rw_published op_addr st_addr bufp blockno writing i0 i1 i2 d d1 \<and>
     dk_info d1 = (dk_info d)[i0 := \<lparr>in_channel = Some bufp, in_status = 0xff, in_disk = True\<rparr>] \<and>
     dk_free d1 = dk_free d \<and> dk_used_ring d1 = dk_used_ring d \<and>
     dk_used_idx d1 = dk_used_idx d \<and> dk_used_idx_dev d1 = dk_used_idx_dev d"
proof -
  have info: "x\<lparr>in_status := 0xff, in_disk := True, in_channel := Some bufp\<rparr> =
      \<lparr>in_channel = Some bufp, in_status = 0xff, in_disk = True\<rparr>" for x :: info by simp
  show ?thesis
    using assms add_ck_room [OF assms(5)] NUM_pos(2) [of "unat (dk_avail_idx d)"]
    by (simp add: rw_submit_def rw_published_def upd_desc_def upd_info_def idx_set_def idx_get_def Let_def disk_ok_def info)
qed

lemma unat_index: "i < NUM \<Longrightarrow> unat (of_nat i :: u16) = i" "i < NUM \<Longrightarrow> unat (of_nat i :: u32) = i"
  by (simp_all add: NUM_def unat_of_nat)

lemmas vring_flags = VRING_DESC_F_NEXT_def VRING_DESC_F_WRITE_def

lemma published_request:
  assumes pub: "rw_published op_addr st_addr bufp blockno writing i0 i1 i2 d d1" and ok: "disk_ok d"
    and i: "i0 < NUM" "i1 < NUM" "i2 < NUM" "distinct [i0, i1, i2]" and inj: "inj_on op_addr {..<NUM}"
  shows "request_of op_addr d1 i0 = Some \<lparr>rq_type = (if writing then VIRTIO_BLK_T_OUT else VIRTIO_BLK_T_IN),
    rq_sector = ucast blockno * 2, rq_addr = bufp, rq_len = 1024, rq_write = (\<not> writing), rq_status = st_addr i0\<rparr>"
proof -
  have h: "find (\<lambda>k. op_addr k = op_addr i0) [0..<NUM] = Some i0"
    unfolding find_Some_iff using i(1) inj_onD [OF inj, of _ i0] by (intro exI [of _ i0]) fastforce
  have len: "length (dk_desc d) = NUM" "length (dk_ops d) = NUM" using ok by (simp_all add: disk_ok_def)
  have ds: "dk_desc d1 ! i0 = \<lparr>vd_addr = op_addr i0, vd_len = 16, vd_flags = VRING_DESC_F_NEXT, vd_next = of_nat i1\<rparr>"
    "dk_desc d1 ! i1 = \<lparr>vd_addr = bufp, vd_len = 1024,
       vd_flags = (if writing then 0 else VRING_DESC_F_WRITE) OR VRING_DESC_F_NEXT, vd_next = of_nat i2\<rparr>"
    "dk_desc d1 ! i2 = \<lparr>vd_addr = st_addr i0, vd_len = 1, vd_flags = VRING_DESC_F_WRITE, vd_next = 0\<rparr>"
    "dk_ops d1 ! i0 = \<lparr>br_type = (if writing then VIRTIO_BLK_T_OUT else VIRTIO_BLK_T_IN), br_reserved = 0, br_sector = ucast blockno * 2\<rparr>"
    using pub i len by (simp_all add: rw_published_def)
  show ?thesis by (cases writing) (simp_all add: request_of_def ds h unat_index(1) i vring_flags Let_def)
qed

lemma free_desc_step:
  assumes "disk_ok d" "i < NUM" "\<not> dk_free d ! i"
  shows "free_desc me i (d, t) =
     Inr (d\<lparr>dk_desc := (dk_desc d)[i := vqdesc_new], dk_free := (dk_free d)[i := True]\<rparr>, wake_up me ChanDisk t)"
  using assms by (simp add: free_desc_def idx_get_def idx_set_def disk_ok_def)

lemma free_chain_step:
  assumes "disk_ok d" "i < NUM" "\<not> dk_free d ! i"
    "d' = d\<lparr>dk_desc := (dk_desc d)[i := vqdesc_new], dk_free := (dk_free d)[i := True]\<rparr>"
  shows "free_chain me i (d, t) =
     (if vd_flags (dk_desc d ! i) AND VRING_DESC_F_NEXT \<noteq> 0
      then free_chain me (unat (vd_next (dk_desc d ! i))) (d', wake_up me ChanDisk t)
      else Inr (d', wake_up me ChanDisk t))"
    and "disk_ok d'"
  using assms free_desc_step [OF assms(1-3), of me t]
  by (simp_all add: free_chain.simps [of me i d t] idx_get_def disk_ok_def)

lemma free_chain_three:
  assumes ok: "disk_ok d" and i: "i0 < NUM" "i1 < NUM" "i2 < NUM" "distinct [i0, i1, i2]"
    and used: "\<not> dk_free d ! i0" "\<not> dk_free d ! i1" "\<not> dk_free d ! i2"
    and c0: "vd_flags (dk_desc d ! i0) AND VRING_DESC_F_NEXT \<noteq> 0" "vd_next (dk_desc d ! i0) = of_nat i1"
    and c1: "vd_flags (dk_desc d ! i1) AND VRING_DESC_F_NEXT \<noteq> 0" "vd_next (dk_desc d ! i1) = of_nat i2"
    and c2: "vd_flags (dk_desc d ! i2) AND VRING_DESC_F_NEXT = 0"
  shows "\<exists>d' t'. free_chain me i0 (d, t) = Inr (d', t') \<and> disk_ok d' \<and>
     dk_free d' = (dk_free d)[i0 := True, i1 := True, i2 := True]"
proof -
  let ?d1 = "d\<lparr>dk_desc := (dk_desc d)[i0 := vqdesc_new], dk_free := (dk_free d)[i0 := True]\<rparr>"
  let ?d2 = "?d1\<lparr>dk_desc := (dk_desc ?d1)[i1 := vqdesc_new], dk_free := (dk_free ?d1)[i1 := True]\<rparr>"
  let ?d3 = "?d2\<lparr>dk_desc := (dk_desc ?d2)[i2 := vqdesc_new], dk_free := (dk_free ?d2)[i2 := True]\<rparr>"
  note s0 = free_chain_step [OF ok i(1) used(1) refl]
  have u1: "\<not> dk_free ?d1 ! i1" and u2: "\<not> dk_free ?d2 ! i2" using i(4) used by auto
  note s1 = free_chain_step [OF s0(2) i(2) u1 refl]
  note s2 = free_chain_step [OF s1(2) i(3) u2 refl]
  have "free_chain me i2 (?d2, u) = Inr (?d3, wake_up me ChanDisk u)" for u :: "'a ptable"
    by (subst s2(1)) (use i(4) c2 in simp)
  moreover have "free_chain me i1 (?d1, u) = free_chain me i2 (?d2, wake_up me ChanDisk u)" for u :: "'a ptable"
    by (subst s1(1)) (use i c1 in \<open>simp add: unat_index\<close>)
  moreover have "free_chain me i0 (d, t) = free_chain me i1 (?d1, wake_up me ChanDisk t)"
    by (subst s0(1)) (use i c0 in \<open>simp add: unat_index\<close>)
  ultimately have "free_chain me i0 (d, t) =
      Inr (?d3, wake_up me ChanDisk (wake_up me ChanDisk (wake_up me ChanDisk t)))" by (simp only:)
  then show ?thesis using s2(2) by (intro exI conjI) (assumption, assumption, simp)
qed

lemma intr_loop_done: "dk_used_idx d = dk_used_idx_dev d \<Longrightarrow> intr_loop me (d, t) = Inr (d, t)"
  by (simp add: intr_loop.simps)

lemma intr_loop_step:
  "dk_used_idx d \<noteq> dk_used_idx_dev d \<Longrightarrow> intr_one me (d, t) = Inr dt \<Longrightarrow> intr_loop me (d, t) = intr_loop me dt"
  by (simp add: intr_loop.simps)

text \<open>The handler after the device has served the request at \<open>i\<close>.\<close>

lemma intr_served:
  assumes ok: "disk_ok d" and i: "i < NUM" and idx: "dk_used_idx d = dk_used_idx_dev d"
    "unat (dk_used_idx d) + 1 < 2 ^ 16" and ch: "in_channel (dk_info d ! i) = Some c"
    and sv: "ds = d\<lparr>dk_info := (dk_info d)[i := (dk_info d ! i)\<lparr>in_status := st\<rparr>],
      dk_used_ring := (dk_used_ring d)[unat (dk_used_idx_dev d) mod NUM := (of_nat i, len)], dk_used_idx_dev := dk_used_idx_dev d + 1\<rparr>"
  shows "if st = 0 then \<exists>d'. intr_loop me (ds, t) = Inr (d', wake_up me (ChanBuf c) t) \<and> disk_ok d' \<and>
       dk_info d' = (dk_info d)[i := (dk_info d ! i)\<lparr>in_status := 0, in_disk := False\<rparr>] \<and>
       dk_free d' = dk_free d \<and> dk_desc d' = dk_desc d
     else intr_loop me (ds, t) = Inl DiskStatus"
proof -
  let ?d' = "ds\<lparr>dk_info := (dk_info d)[i := (dk_info d ! i)\<lparr>in_status := 0, in_disk := False\<rparr>],
     dk_used_idx := dk_used_idx d + 1\<rparr>"
  have one: "intr_one me (ds, t) = (if st = 0 then Inr (?d', wake_up me (ChanBuf c) t) else Inl DiskStatus)"
    using ok i ch add_ck_room [OF idx(2)] NUM_pos(2) [of "unat (dk_used_idx_dev d)"]
    by (simp add: intr_one_def sv idx idx_get_def upd_info_def Let_def disk_ok_def unat_index guardR_def unwrap_def)
  have ne: "dk_used_idx ds \<noteq> dk_used_idx_dev ds" and eq: "dk_used_idx ?d' = dk_used_idx_dev ?d'"
    using idx(1) by (simp_all add: sv)
  show ?thesis
  proof (cases "st = 0")
    case True
    then have "intr_loop me (ds, t) = Inr (?d', wake_up me (ChanBuf c) t)"
      using intr_loop_step [OF ne, of me t] one intr_loop_done [OF eq] by simp
    moreover have "disk_ok ?d'" using ok by (simp add: disk_ok_def sv)
    ultimately show ?thesis using True by (simp add: sv)
  next
    case False
    then show ?thesis using ne one by (simp add: intr_loop.simps)
  qed
qed

text \<open>A request in flight: the chain of its three descriptors, none of them free.\<close>

definition rw_pending :: "usize \<Rightarrow> nat \<Rightarrow> nat \<Rightarrow> nat \<Rightarrow> disk \<Rightarrow> bool" where
  "rw_pending bufp i0 i1 i2 d \<longleftrightarrow> disk_ok d \<and> i0 < NUM \<and> i1 < NUM \<and> i2 < NUM \<and> distinct [i0, i1, i2] \<and>
     \<not> dk_free d ! i0 \<and> \<not> dk_free d ! i1 \<and> \<not> dk_free d ! i2 \<and>
     vd_flags (dk_desc d ! i0) AND VRING_DESC_F_NEXT \<noteq> 0 \<and> vd_next (dk_desc d ! i0) = of_nat i1 \<and>
     vd_flags (dk_desc d ! i1) AND VRING_DESC_F_NEXT \<noteq> 0 \<and> vd_next (dk_desc d ! i1) = of_nat i2 \<and>
     vd_flags (dk_desc d ! i2) AND VRING_DESC_F_NEXT = 0 \<and> in_channel (dk_info d ! i0) = Some bufp"

lemma published_pending:
  assumes "rw_published op_addr st_addr bufp blockno writing i0 i1 i2 d d1" "disk_ok d" "disk_ok d1"
    "i0 < NUM" "i1 < NUM" "i2 < NUM" "distinct [i0, i1, i2]"
    "dk_free d1 = (dk_free d)[i0 := False, i1 := False, i2 := False]" "in_channel (dk_info d1 ! i0) = Some bufp"
  shows "rw_pending bufp i0 i1 i2 d1"
  using assms by (simp add: rw_pending_def rw_published_def disk_ok_def nth_list_update vring_flags)

lemma rw_start_at:
  assumes ok: "disk_ok d" and av: "unat (dk_avail_idx d) + 1 < 2 ^ 16"
    and i: "i0 < NUM" "i1 < NUM" "i2 < NUM" "distinct [i0, i1, i2]"
    and al: "alloc3_desc me (d, t) =
      Inr (Some [i0, i1, i2], d\<lparr>dk_free := (dk_free d)[i0 := False, i1 := False, i2 := False]\<rparr>, t)"
  shows "\<exists>d1. rw_start op_addr st_addr wr me bufp blockno writing (d, t) v =
       Inr (RwSubmitted i0, (d1, t), wr VIRTIO_MMIO_QUEUE_NOTIFY 0 v) \<and>
     dk_free d1 = (dk_free d)[i0 := False, i1 := False, i2 := False] \<and> rw_pending bufp i0 i1 i2 d1 \<and>
     rw_published op_addr st_addr bufp blockno writing i0 i1 i2 d d1 \<and>
     in_disk (dk_info d1 ! i0) \<and> dk_used_idx d1 = dk_used_idx d \<and> dk_used_idx_dev d1 = dk_used_idx_dev d \<and>
     dk_info d1 = (dk_info d)[i0 := \<lparr>in_channel = Some bufp, in_status = 0xff, in_disk = True\<rparr>]"
proof -
  have len: "length (dk_free d) = NUM" "length (dk_info d) = NUM" using ok by (simp_all add: disk_ok_def)
  let ?da = "d\<lparr>dk_free := (dk_free d)[i0 := False, i1 := False, i2 := False]\<rparr>"
  have oka: "disk_ok ?da" and ava: "unat (dk_avail_idx ?da) + 1 < 2 ^ 16"
    using ok av by (simp_all add: disk_ok_def)
  obtain d1 where sub: "rw_submit op_addr st_addr bufp blockno writing i0 i1 i2 ?da = Inr d1" and ok1: "disk_ok d1"
    and pub: "rw_published op_addr st_addr bufp blockno writing i0 i1 i2 ?da d1"
    and info: "dk_info d1 = (dk_info ?da)[i0 := \<lparr>in_channel = Some bufp, in_status = 0xff, in_disk = True\<rparr>]"
    and rest: "dk_free d1 = dk_free ?da" "dk_used_idx d1 = dk_used_idx ?da" "dk_used_idx_dev d1 = dk_used_idx_dev ?da"
    using rw_submit_ok [OF oka i(1-3) ava, of op_addr st_addr bufp blockno writing] by blast
  have pub': "rw_published op_addr st_addr bufp blockno writing i0 i1 i2 d d1" using pub by (simp add: rw_published_def)
  have "rw_pending bufp i0 i1 i2 d1"
    by (rule published_pending [OF pub' ok ok1 i]) (use rest info len i in simp_all)
  moreover have "rw_start op_addr st_addr wr me bufp blockno writing (d, t) v =
      Inr (RwSubmitted i0, (d1, t), wr VIRTIO_MMIO_QUEUE_NOTIFY 0 v)"
    by (simp add: rw_start_def al sub)
  ultimately show ?thesis using pub' info rest len i by (intro exI [of _ d1]) simp
qed

lemma rw_finish_served:
  assumes p: "rw_pending bufp i0 i1 i2 d" and served: "\<not> in_disk (dk_info d ! i0)"
  shows "\<exists>d' t'. rw_finish me bufp i0 (d, t) = Inr (Some (d', t')) \<and> disk_ok d' \<and>
     dk_free d' = (dk_free d)[i0 := True, i1 := True, i2 := True]"
proof -
  let ?d = "d\<lparr>dk_info := (dk_info d)[i0 := (dk_info d ! i0)\<lparr>in_channel := None\<rparr>]\<rparr>"
  have "disk_ok ?d" using p by (simp add: disk_ok_def rw_pending_def)
  then obtain d' t' where f: "free_chain me i0 (?d, t) = Inr (d', t')" "disk_ok d'"
      "dk_free d' = (dk_free ?d)[i0 := True, i1 := True, i2 := True]"
    using free_chain_three [of ?d i0 i1 i2 me t] p by (auto simp: rw_pending_def)
  have "rw_finish me bufp i0 (d, t) = Inr (Some (d', t'))"
    using p served f(1)
    by (simp add: rw_pending_def rw_finish_def idx_get_def upd_info_def disk_ok_def unwrap_def guardR_def)
  then show ?thesis using f(2,3) by auto
qed

lemma clear_set_restore:
  assumes "xs ! i0" "xs ! i1" "xs ! i2"
  shows "xs[i0 := False, i1 := False, i2 := False, i0 := True, i1 := True, i2 := True] = xs"
proof (rule nth_equalityI)
  fix k assume "k < length (xs[i0 := False, i1 := False, i2 := False, i0 := True, i1 := True, i2 := True])"
  then show "xs[i0 := False, i1 := False, i2 := False, i0 := True, i1 := True, i2 := True] ! k = xs ! k"
    using assms by (cases "k = i0"; cases "k = i1"; cases "k = i2") simp_all
qed simp

lemma device_effect:
  assumes dev: "virtio_device op_addr st_addr dev" and new: "seen \<noteq> dk_avail_idx d"
    and head: "unat (dk_avail_ring d ! (unat seen mod NUM)) = i" "i < NUM" "length (dk_info d) = NUM"
    and req: "request_of op_addr d i = Some r" "rq_status r = st_addr i" and inj: "inj_on st_addr {..<NUM}"
  shows "\<exists>st len. dev seen d = d\<lparr>dk_info := (dk_info d)[i := (dk_info d ! i)\<lparr>in_status := st\<rparr>],
    dk_used_ring := (dk_used_ring d)[unat (dk_used_idx_dev d) mod NUM := (of_nat i, len)], dk_used_idx_dev := dk_used_idx_dev d + 1\<rparr>"
proof -
  let ?h = "dk_avail_ring d ! (unat seen mod NUM)"
  obtain st len where e: "dev seen d = d\<lparr>
      dk_info := map (\<lambda>j. if st_addr j = rq_status r then (dk_info d ! j)\<lparr>in_status := st\<rparr> else dk_info d ! j) [0..<length (dk_info d)],
      dk_used_ring := (dk_used_ring d)[unat (dk_used_idx_dev d) mod NUM := (ucast ?h, len)], dk_used_idx_dev := dk_used_idx_dev d + 1\<rparr>"
    using dev new head(1) req(1) unfolding virtio_device_def by blast
  have "map (\<lambda>j. if st_addr j = rq_status r then (dk_info d ! j)\<lparr>in_status := st\<rparr> else dk_info d ! j) [0..<length (dk_info d)] =
      (dk_info d)[i := (dk_info d ! i)\<lparr>in_status := st\<rparr>]"
    using inj_onD [OF inj] head(2,3) req(2) by (intro nth_equalityI) (auto simp: nth_list_update)
  moreover have "(ucast ?h :: u32) = of_nat i" by (simp flip: head(1))
  ultimately show ?thesis using e by auto
qed

text \<open>A request in flight, once the device has served it, is finished by the handler and the caller.\<close>

lemma rw_served:
  assumes p: "rw_pending bufp i0 i1 i2 d1" and idx: "dk_used_idx d1 = dk_used_idx_dev d1" "unat (dk_used_idx d1) + 1 < 2 ^ 16"
    and sv: "ds = d1\<lparr>dk_info := (dk_info d1)[i0 := (dk_info d1 ! i0)\<lparr>in_status := st\<rparr>],
      dk_used_ring := (dk_used_ring d1)[unat (dk_used_idx_dev d1) mod NUM := (of_nat i0, len)], dk_used_idx_dev := dk_used_idx_dev d1 + 1\<rparr>"
    and free: "dk_free d1 = xs[i0 := False, i1 := False, i2 := False]" "xs ! i0" "xs ! i1" "xs ! i2"
  shows "if st = 0
     then \<exists>d3 d4 t4. intr_loop me' (ds, t) = Inr (d3, wake_up me' (ChanBuf bufp) t) \<and>
       rw_finish me bufp i0 (d3, u) = Inr (Some (d4, t4)) \<and> dk_free d4 = xs \<and> disk_ok d4
     else intr_loop me' (ds, t) = Inl DiskStatus"
proof -
  have ok1: "disk_ok d1" and i0: "i0 < NUM" and ch: "in_channel (dk_info d1 ! i0) = Some bufp" and len: "length (dk_info d1) = NUM"
    using p by (simp_all add: rw_pending_def disk_ok_def)
  note h = intr_served [OF ok1 i0 idx ch sv, of me' t]
  show ?thesis
  proof (cases "st = 0")
    case True
    then obtain d3 where d3: "intr_loop me' (ds, t) = Inr (d3, wake_up me' (ChanBuf bufp) t)" "disk_ok d3"
      "dk_info d3 = (dk_info d1)[i0 := (dk_info d1 ! i0)\<lparr>in_status := 0, in_disk := False\<rparr>]"
      "dk_free d3 = dk_free d1" "dk_desc d3 = dk_desc d1" using h by auto
    have "rw_pending bufp i0 i1 i2 d3" "\<not> in_disk (dk_info d3 ! i0)"
      using p d3(2-5) len i0 by (simp_all add: rw_pending_def)
    then obtain d4 t4 where "rw_finish me bufp i0 (d3, u) = Inr (Some (d4, t4))" "disk_ok d4"
      "dk_free d4 = (dk_free d3)[i0 := True, i1 := True, i2 := True]" using rw_finish_served by blast
    then show ?thesis using d3(1,4) True by (auto simp: free(1) clear_set_restore [OF free(2-4)])
  qed (use h in simp)
qed

section \<open>Properties\<close>

text \<open>C34. A request runs to completion. With three free descriptors it is submitted on three distinct
  descriptors that were free, as the next entry of the available ring: what the device finds there is a
  request to write or to read the 1024 bytes at the caller's buffer, starting at the first of the block's two
  sectors, into or out of the disk as asked. On any device that serves what it finds the way virtio says,
  the interrupt handler then wakes exactly the sleepers on that buffer, and the caller gives back the chain:
  the free descriptors are those from before the request. If the device reports an error, the handler
  panics. The headers and status bytes of the requests have addresses of their own, the device and the
  handler have caught up with the requests before this one, and no counter wraps with it.\<close>

theorem rw_request_completes:
  assumes "disk_ok d" "3 \<le> nfree d" "unat (dk_avail_idx d) + 1 < 2 ^ 16"
    "dk_used_idx d = dk_used_idx_dev d" "unat (dk_used_idx d) + 1 < 2 ^ 16"
    and "inj_on op_addr {..<NUM}" "inj_on st_addr {..<NUM}" "virtio_device op_addr st_addr dev"
  shows "\<exists>i0 i1 i2 d1 d2.
     {i0, i1, i2} \<subseteq> {..<NUM} \<and> distinct [i0, i1, i2] \<and> dk_free d ! i0 \<and> dk_free d ! i1 \<and> dk_free d ! i2 \<and>
     rw_start op_addr st_addr wr me bufp blockno writing (d, t) v =
       Inr (RwSubmitted i0, (d1, t), wr VIRTIO_MMIO_QUEUE_NOTIFY 0 v) \<and> disk_ok d1 \<and>
     dk_free d1 = (dk_free d)[i0 := False, i1 := False, i2 := False] \<and>
     dk_avail_idx d1 = dk_avail_idx d + 1 \<and> unat (dk_avail_ring d1 ! (unat (dk_avail_idx d) mod NUM)) = i0 \<and>
     request_of op_addr d1 i0 = Some \<lparr>rq_type = (if writing then VIRTIO_BLK_T_OUT else VIRTIO_BLK_T_IN),
       rq_sector = ucast blockno * 2, rq_addr = bufp, rq_len = 1024, rq_write = (\<not> writing), rq_status = st_addr i0\<rparr> \<and>
     rw_finish me bufp i0 (d1, t) = Inr None \<and> d2 = dev (dk_avail_idx d) d1 \<and>
     (if in_status (dk_info d2 ! i0) = 0
      then \<exists>d3 d4 t4. intr_loop me' (d2, t) = Inr (d3, wake_up me' (ChanBuf bufp) t) \<and>
        rw_finish me bufp i0 (d3, u) = Inr (Some (d4, t4)) \<and> dk_free d4 = dk_free d \<and> disk_ok d4
      else intr_loop me' (d2, t) = Inl DiskStatus)"
proof -
  have free_len: "length (dk_free d) = NUM" using assms(1) by (simp add: disk_ok_def)
  obtain i0 i1 i2 where i: "i0 < NUM" "i1 < NUM" "i2 < NUM" "distinct [i0, i1, i2]"
    and fr: "dk_free d ! i0" "dk_free d ! i1" "dk_free d ! i2"
    and al: "alloc3_desc me (d, t) =
      Inr (Some [i0, i1, i2], d\<lparr>dk_free := (dk_free d)[i0 := False, i1 := False, i2 := False]\<rparr>, t)"
    using alloc3_ok [OF free_len assms(2), of me t] by blast
  obtain d1 where start: "rw_start op_addr st_addr wr me bufp blockno writing (d, t) v =
      Inr (RwSubmitted i0, (d1, t), wr VIRTIO_MMIO_QUEUE_NOTIFY 0 v)"
    and free1: "dk_free d1 = (dk_free d)[i0 := False, i1 := False, i2 := False]"
    and p: "rw_pending bufp i0 i1 i2 d1" and pub: "rw_published op_addr st_addr bufp blockno writing i0 i1 i2 d d1"
    and disk: "in_disk (dk_info d1 ! i0)" and idx: "dk_used_idx d1 = dk_used_idx d" "dk_used_idx_dev d1 = dk_used_idx_dev d"
    using rw_start_at [OF assms(1,3) i al, of op_addr st_addr wr bufp blockno writing v] by blast
  have ok1: "disk_ok d1" and ch: "in_channel (dk_info d1 ! i0) = Some bufp" and len: "length (dk_info d1) = NUM"
    using p by (simp_all add: rw_pending_def disk_ok_def)
  have av: "dk_avail_idx d1 = dk_avail_idx d + 1" "dk_avail_ring d1 ! (unat (dk_avail_idx d) mod NUM) = of_nat i0"
    using pub assms(1) NUM_pos(2) by (simp_all add: rw_published_def disk_ok_def)
  have head: "unat (dk_avail_ring d1 ! (unat (dk_avail_idx d) mod NUM)) = i0" using av(2) i(1) by (simp add: unat_index)
  note req = published_request [OF pub assms(1) i assms(6)]
  have pending: "rw_finish me bufp i0 (d1, t) = Inr None" using disk i(1) len by (simp add: rw_finish_def idx_get_def)
  obtain st len' where d2: "dev (dk_avail_idx d) d1 = d1\<lparr>dk_info := (dk_info d1)[i0 := (dk_info d1 ! i0)\<lparr>in_status := st\<rparr>],
      dk_used_ring := (dk_used_ring d1)[unat (dk_used_idx_dev d1) mod NUM := (of_nat i0, len')], dk_used_idx_dev := dk_used_idx_dev d1 + 1\<rparr>"
    using device_effect [OF assms(8) _ head i(1) len req _ assms(7)] av(1) by auto
  have st: "in_status (dk_info (dev (dk_avail_idx d) d1) ! i0) = st" using i(1) len by (simp add: d2)
  have "if in_status (dk_info (dev (dk_avail_idx d) d1) ! i0) = 0
      then \<exists>d3 d4 t4. intr_loop me' (dev (dk_avail_idx d) d1, t) = Inr (d3, wake_up me' (ChanBuf bufp) t) \<and>
        rw_finish me bufp i0 (d3, u) = Inr (Some (d4, t4)) \<and> dk_free d4 = dk_free d \<and> disk_ok d4
      else intr_loop me' (dev (dk_avail_idx d) d1, t) = Inl DiskStatus"
    unfolding st by (rule rw_served [OF p _ _ d2 free1 fr]) (use assms(4,5) idx in simp_all)
  moreover have "{i0, i1, i2} \<subseteq> {..<NUM}" using i by simp
  ultimately show ?thesis using i(4) fr start ok1 free1 av(1) head req pending by blast
qed

definition disk_ready :: disk where
  "disk_ready = disk_new\<lparr>dk_free := replicate NUM True\<rparr>"

lemma disk_ready_ok: "disk_ok disk_ready" "nfree disk_ready = 8"
  "dk_avail_idx disk_ready = 0" "dk_used_idx disk_ready = 0" "dk_used_idx_dev disk_ready = 0"
  by (simp_all add: disk_ready_def disk_new_def disk_ok_def nfree_def NUM_def)

text \<open>A device that serves every request without an error, with headers and status bytes at two tables.\<close>

definition demo_ops :: "nat \<Rightarrow> usize" where
  "demo_ops i = 0x80010000 + of_nat (16 * i)"

definition demo_sts :: "nat \<Rightarrow> usize" where
  "demo_sts i = 0x80011000 + of_nat i"

definition demo_device :: "u16 \<Rightarrow> disk \<Rightarrow> disk" where
  "demo_device seen d =
     (let head = dk_avail_ring d ! (unat seen mod NUM) in
      case request_of demo_ops d (unat head) of
        None \<Rightarrow> d
      | Some r \<Rightarrow> d\<lparr>
          dk_info := map (\<lambda>i. if demo_sts i = rq_status r then (dk_info d ! i)\<lparr>in_status := 0\<rparr> else dk_info d ! i)
            [0..<length (dk_info d)],
          dk_used_ring := (dk_used_ring d)[unat (dk_used_idx_dev d) mod NUM := (ucast head, 1)],
          dk_used_idx_dev := dk_used_idx_dev d + 1\<rparr>)"

lemma demo_device_virtio: "virtio_device demo_ops demo_sts demo_device"
  unfolding virtio_device_def demo_device_def Let_def by (intro allI impI exI) auto

lemma demo_tables: "inj_on demo_ops {..<NUM}" "inj_on demo_sts {..<NUM}"
proof -
  have "unat (demo_ops i) = 0x80010000 + 16 * i" "unat (demo_sts i) = 0x80011000 + i" if "i < 8" for i
    using that by (simp_all add: demo_ops_def demo_sts_def unat_add_lem [THEN iffD1] unat_of_nat del: of_nat_mult)
  then show "inj_on demo_ops {..<NUM}" "inj_on demo_sts {..<NUM}"
    by (auto intro!: inj_onI simp: NUM_def dest!: arg_cong [where f = unat])
qed

lemma demo_device_status:
  "i < length (dk_info d) \<Longrightarrow> request_of demo_ops d (unat (dk_avail_ring d ! (unat seen mod NUM))) = Some r \<Longrightarrow>
   rq_status r = demo_sts i \<Longrightarrow> in_status (dk_info (demo_device seen d) ! i) = 0"
  by (simp add: demo_device_def Let_def)

theorem rw_request_completes_witness:
  "\<exists>i0 d1 d3 d4 t4.
     rw_start demo_ops demo_sts (\<lambda>r x v. x) (Some 1) 4096 3 True (disk_ready, ptable_new :: unit ptable) 7 =
       Inr (RwSubmitted i0, (d1, ptable_new), 0) \<and>
     request_of demo_ops d1 i0 = Some \<lparr>rq_type = VIRTIO_BLK_T_OUT, rq_sector = 6, rq_addr = 4096, rq_len = 1024,
       rq_write = False, rq_status = demo_sts i0\<rparr> \<and>
     intr_loop None (demo_device 0 d1, ptable_new :: unit ptable) = Inr (d3, wake_up None (ChanBuf 4096) ptable_new) \<and>
     rw_finish (Some 1) 4096 i0 (d3, ptable_new :: unit ptable) = Inr (Some (d4, t4)) \<and>
     dk_free d4 = replicate NUM True"
proof -
  have f: "dk_free disk_ready = replicate NUM True" by (simp add: disk_ready_def)
  have hyps: "3 \<le> nfree disk_ready" "unat (dk_avail_idx disk_ready) + 1 < 2 ^ 16" "dk_used_idx disk_ready = dk_used_idx_dev disk_ready"
    "unat (dk_used_idx disk_ready) + 1 < 2 ^ 16" by (simp_all add: disk_ready_ok)
  obtain i0 i1 i2 d1 d2 where r: "{i0, i1, i2} \<subseteq> {..<NUM}"
    "rw_start demo_ops demo_sts (\<lambda>r x v. x) (Some 1) 4096 3 True (disk_ready, ptable_new :: unit ptable) 7 =
      Inr (RwSubmitted i0, (d1, ptable_new), 0)" "disk_ok d1"
    "unat (dk_avail_ring d1 ! (unat (dk_avail_idx disk_ready) mod NUM)) = i0"
    "request_of demo_ops d1 i0 = Some \<lparr>rq_type = (if True then VIRTIO_BLK_T_OUT else VIRTIO_BLK_T_IN),
      rq_sector = ucast (3 :: u32) * 2, rq_addr = 4096, rq_len = 1024, rq_write = (\<not> True), rq_status = demo_sts i0\<rparr>"
    "d2 = demo_device (dk_avail_idx disk_ready) d1"
    "if in_status (dk_info d2 ! i0) = 0
     then \<exists>d3 d4 t4. intr_loop None (d2, ptable_new :: unit ptable) = Inr (d3, wake_up None (ChanBuf 4096) ptable_new) \<and>
       rw_finish (Some 1) 4096 i0 (d3, ptable_new :: unit ptable) = Inr (Some (d4, t4)) \<and> dk_free d4 = dk_free disk_ready \<and> disk_ok d4
     else intr_loop None (d2, ptable_new :: unit ptable) = Inl DiskStatus"
    using rw_request_completes [OF disk_ready_ok(1) hyps demo_tables demo_device_virtio, of "\<lambda>r x v. x" "Some 1" 4096 3 True
      "ptable_new :: unit ptable" 7 None "ptable_new :: unit ptable"] by blast
  have "i0 < length (dk_info d1)" using r(1,3) by (simp add: disk_ok_def)
  then have "in_status (dk_info d2 ! i0) = 0"
    unfolding r(6) by (rule demo_device_status) (subst r(4), rule r(5), simp)
  with r(7) obtain d3 d4 t4 where e: "intr_loop None (demo_device 0 d1, ptable_new :: unit ptable) = Inr (d3, wake_up None (ChanBuf 4096) ptable_new)"
    "rw_finish (Some 1) 4096 i0 (d3, ptable_new :: unit ptable) = Inr (Some (d4, t4))" "dk_free d4 = replicate NUM True"
    unfolding f r(6) disk_ready_ok(3) by auto
  have "request_of demo_ops d1 i0 = Some \<lparr>rq_type = VIRTIO_BLK_T_OUT, rq_sector = 6, rq_addr = 4096, rq_len = 1024,
      rq_write = False, rq_status = demo_sts i0\<rparr>" using r(5) by simp
  with r(2) e show ?thesis by blast
qed

lemma alloc3_fresh:
  assumes "dk_free d = [True, True, True, True, True, True, True, True]"
  shows "alloc3_desc me (d, t) = Inr (Some [0, 1, 2], d\<lparr>dk_free := (dk_free d)[0 := False, 1 := False, 2 := False]\<rparr>, t)"
  using assms by (simp add: alloc3_desc_def numeral_3_eq_3 alloc_desc_def NUM_def guardR_def numeral_2_eq_2)

lemma alloc3_second:
  assumes "dk_free d = [False, False, False, True, True, True, True, True]"
  shows "alloc3_desc me (d, t) = Inr (Some [3, 4, 5], d\<lparr>dk_free := (dk_free d)[3 := False, 4 := False, 5 := False]\<rparr>, t)"
  using assms by (simp add: alloc3_desc_def numeral_3_eq_3 alloc_desc_def NUM_def guardR_def eval_nat_numeral)

lemma alloc3_third:
  assumes "dk_free d = [False, False, False, False, False, False, True, True]" "length (dk_desc d) = NUM"
  shows "alloc3_desc me (d, t) =
     Inr (None, d\<lparr>dk_free := [True, True, False, False, False, False, False, False],
       dk_desc := (dk_desc d)[0 := vqdesc_new, 1 := vqdesc_new]\<rparr>, wake_up me ChanDisk (wake_up me ChanDisk t))"
  using assms
  by (simp add: alloc3_desc_def numeral_3_eq_3 alloc_desc_def NUM_def guardR_def free_desc_def
      idx_get_def idx_set_def upt_rec)

text \<open>Three requests at once break the driver. With two requests in flight two of the eight
  descriptors are free; a third request takes them, fails on its third descriptor and gives back
  descriptors 0 and 1, which belong to the first request, instead of its own. These two are then
  free while the device still uses them, the two it took stay lost, and when the handler has taken the
  buffer of the first request back from the device, its caller panics.\<close>

lemma alloc3_third_request_breaks_first:
  "\<exists>d1 d2 d3 t3.
     rw_start (\<lambda>i. 0) (\<lambda>i. 0) (\<lambda>r x v. v) me 4096 b0 False (disk_ready, t) () = Inr (RwSubmitted 0, (d1, t), ()) \<and>
     rw_start (\<lambda>i. 0) (\<lambda>i. 0) (\<lambda>r x v. v) me 8192 b1 False (d1, t) () = Inr (RwSubmitted 3, (d2, t), ()) \<and>
     rw_pending 4096 0 1 2 d2 \<and>
     rw_start (\<lambda>i. 0) (\<lambda>i. 0) (\<lambda>r x v. v) me 12288 b2 False (d2, t) () = Inr (RwNoDesc, (d3, t3), ()) \<and>
     dk_free d3 = [True, True, False, False, False, False, False, False] \<and>
     rw_finish me 4096 0 (d3\<lparr>dk_info := (dk_info d3)[0 := (dk_info d3 ! 0)\<lparr>in_disk := False\<rparr>]\<rparr>, t4) = Inl DescIndex"
proof -
  let ?start = "\<lambda>b n. rw_start (\<lambda>i. 0) (\<lambda>i. 0) (\<lambda>r x v. v) me b n False"
  have f0: "dk_free disk_ready = [True, True, True, True, True, True, True, True]"
    by (simp add: disk_ready_def NUM_def numeral_eq_Suc)
  have n: "0 < NUM" "1 < NUM" "2 < NUM" "3 < NUM" "4 < NUM" "5 < NUM" by (simp_all add: NUM_def)
  have av0: "unat (dk_avail_idx disk_ready) + 1 < 2 ^ 16" by (simp add: disk_ready_ok)
  have u0: "(dk_free disk_ready)[0 := False, 1 := False, 2 := False] =
      [False, False, False, True, True, True, True, True]" by (simp add: f0 numeral_2_eq_2)
  obtain d1 where d1: "?start 4096 b0 (disk_ready, t) () = Inr (RwSubmitted 0, (d1, t), ())"
    "dk_free d1 = [False, False, False, True, True, True, True, True]" "rw_pending 4096 0 1 2 d1"
    "dk_avail_idx d1 = 1"
    using rw_start_at [where op_addr = "\<lambda>i. 0" and st_addr = "\<lambda>i. 0" and wr = "\<lambda>r x v. v" and bufp = 4096 and
        blockno = b0 and writing = False and v = "()", OF disk_ready_ok(1) av0 n(1-3) _ alloc3_fresh [OF f0, of me t]]
    unfolding u0 disk_ready_ok by (auto simp: rw_published_def disk_ready_ok)
  have ok1: "disk_ok d1" using d1(3) by (simp add: rw_pending_def)
  have av1: "unat (dk_avail_idx d1) + 1 < 2 ^ 16" by (simp add: d1(4))
  have u1: "(dk_free d1)[3 := False, 4 := False, 5 := False] =
      [False, False, False, False, False, False, True, True]" by (simp add: d1(2) eval_nat_numeral)
  obtain d2 where d2: "?start 8192 b1 (d1, t) () = Inr (RwSubmitted 3, (d2, t), ())"
    "dk_free d2 = [False, False, False, False, False, False, True, True]" "rw_pending 8192 3 4 5 d2"
    "rw_published (\<lambda>i. 0) (\<lambda>i. 0) 8192 b1 False 3 4 5 d1 d2"
    "dk_info d2 = (dk_info d1)[3 := \<lparr>in_channel = Some 8192, in_status = 0xff, in_disk = True\<rparr>]"
    using rw_start_at [where op_addr = "\<lambda>i. 0" and st_addr = "\<lambda>i. 0" and wr = "\<lambda>r x v. v" and bufp = 8192 and
        blockno = b1 and writing = False and v = "()", OF ok1 av1 n(4-6) _ alloc3_second [OF d1(2), of me t]]
    unfolding u1 by auto
  have ok2: "disk_ok d2" using d2(3) by (simp add: rw_pending_def)
  have p2: "rw_pending 4096 0 1 2 d2"
    using d1(3) ok2 d2(4) by (simp add: rw_pending_def rw_published_def d2(2,5) d1(2))
  let ?d3 = "d2\<lparr>dk_free := [True, True, False, False, False, False, False, False],
     dk_desc := (dk_desc d2)[0 := vqdesc_new, 1 := vqdesc_new]\<rparr>"
  let ?t3 = "wake_up me ChanDisk (wake_up me ChanDisk t)"
  have dl: "length (dk_desc d2) = NUM" "dk_info d2 \<noteq> []" "dk_desc d2 \<noteq> []" using ok2 by (auto simp: disk_ok_def NUM_def)
  have third: "?start 12288 b2 (d2, t) () = Inr (RwNoDesc, (?d3, ?t3), ())"
    by (simp add: rw_start_def alloc3_third [OF d2(2) dl(1)])
  have "rw_finish me 4096 0 (?d3\<lparr>dk_info := (dk_info ?d3)[0 := (dk_info ?d3 ! 0)\<lparr>in_disk := False\<rparr>]\<rparr>, t4) = Inl DescIndex"
    using p2 dl by (simp add: rw_finish_def idx_get_def upd_info_def unwrap_def guardR_def
        rw_pending_def disk_ok_def free_chain.simps free_desc_def NUM_def)
  then show ?thesis using d1(1) d2(1) p2 third by (intro exI conjI; assumption?) auto
qed

end
