(* ===== verification/Rx_Trap.thy ===== *)
theory Rx_Trap
  imports Rx_Syscall Rx_Virtio
begin

text \<open>
  Traps: the interrupt controller of \<^verbatim>\<open>driver/plic.rs\<close>, the timer of \<^verbatim>\<open>register/clint.rs\<close>, the reset of
  \<^verbatim>\<open>shutdown.rs\<close> and the handlers of \<^verbatim>\<open>trap.rs\<close>. The decoded cause of a trap comes from the \<^verbatim>\<open>riscv\<close>
  library and is an argument; \<^const>\<open>None\<close> is a code it does not know. The registers of the devices are
  read and written through the fields of the board.
\<close>

section \<open>The interrupt controller\<close>

definition UART0_IRQ :: u32 where "UART0_IRQ = 10"
definition VIRTIO0_IRQ :: u32 where "VIRTIO0_IRQ = 1"

text \<open>The register of a hart in an array of registers.\<close>

definition hart_reg :: "nat \<Rightarrow> nat \<Rightarrow> usize \<Rightarrow> usize outcome" where
  "hart_reg first stride hart =
     (if unat PLIC_BASE + first + unat hart * stride < 2 ^ 64
      then Inr (of_nat (unat PLIC_BASE + first + unat hart * stride)) else Inl Overflow)"

definition PLIC_SENABLE :: "usize \<Rightarrow> usize outcome" where "PLIC_SENABLE = hart_reg 0x2080 0x100"
definition PLIC_SPRIORITY :: "usize \<Rightarrow> usize outcome" where "PLIC_SPRIORITY = hart_reg 0x201000 0x2000"
definition PLIC_SCLAIM :: "usize \<Rightarrow> usize outcome" where "PLIC_SCLAIM = hart_reg 0x201004 0x2000"

definition plic_init :: "(usize \<Rightarrow> u32 \<Rightarrow> 'p \<Rightarrow> 'p) \<Rightarrow> 'p \<Rightarrow> 'p" where
  "plic_init wr v = wr (PLIC_BASE + ucast (VIRTIO0_IRQ * 4)) 1 (wr (PLIC_BASE + ucast (UART0_IRQ * 4)) 1 v)"

definition plic_init_hart :: "(usize \<Rightarrow> u32 \<Rightarrow> 'p \<Rightarrow> 'p) \<Rightarrow> usize \<Rightarrow> 'p \<Rightarrow> 'p outcome" where
  "plic_init_hart wr hart v =
     bindR (PLIC_SENABLE hart) (\<lambda>a.
       let v = wr a (push_bit (unat UART0_IRQ) 1 OR push_bit (unat VIRTIO0_IRQ) 1) v in
       bindR (PLIC_SPRIORITY hart) (\<lambda>a. Inr (wr a 0 v)))"

definition plic_claim :: "(usize \<Rightarrow> 'p \<Rightarrow> u32 \<times> 'p) \<Rightarrow> usize \<Rightarrow> 'p \<Rightarrow> (u32 option \<times> 'p) outcome" where
  "plic_claim rd hart v =
     bindR (PLIC_SCLAIM hart) (\<lambda>a. let (i, v) = rd a v in Inr (if i = 0 then None else Some i, v))"

definition plic_complete :: "(usize \<Rightarrow> u32 \<Rightarrow> 'p \<Rightarrow> 'p) \<Rightarrow> usize \<Rightarrow> u32 \<Rightarrow> 'p \<Rightarrow> 'p outcome" where
  "plic_complete wr hart i v = bindR (PLIC_SCLAIM hart) (\<lambda>a. Inr (wr a i v))"

section \<open>Timer and reset\<close>

definition CLINT_MTIME :: usize where "CLINT_MTIME = CLINT + 0xBFF8"
definition CLINT_MTIMECMP :: usize where "CLINT_MTIMECMP = CLINT + 0x4000"

text \<open>Asking for the next timer interrupt \<open>interval\<close> cycles from now.\<close>

definition add_mtimecmp :: "(usize \<Rightarrow> 'c \<Rightarrow> usize \<times> 'c) \<Rightarrow> (usize \<Rightarrow> usize \<Rightarrow> 'c \<Rightarrow> 'c) \<Rightarrow> usize \<Rightarrow> usize \<Rightarrow> 'c \<Rightarrow> 'c outcome" where
  "add_mtimecmp rd wr hart interval v =
     (let (now, v) = rd CLINT_MTIME v in
      bindR (add_ck now interval) (\<lambda>t.
        if unat CLINT_MTIMECMP + 8 * unat hart < 2 ^ 64
        then Inr (wr (CLINT_MTIMECMP + 8 * hart) t v) else Inl Overflow))"

definition SHUTDOWN :: usize where "SHUTDOWN = 8"
definition REBOOT :: usize where "REBOOT = 9"
definition RESET_TYPE_SHUTDOWN :: usize where "RESET_TYPE_SHUTDOWN = 0"
definition RESET_TYPE_COLD_REBOOT :: usize where "RESET_TYPE_COLD_REBOOT = 1"
definition RESET_TYPE_WARM_REBOOT :: usize where "RESET_TYPE_WARM_REBOOT = 2"
definition RESET_REASON_NO_REASON :: usize where "RESET_REASON_NO_REASON = 0"
definition RESET_REASON_SYSTEM_FAILURE :: usize where "RESET_REASON_SYSTEM_FAILURE = 1"
definition TEST_FAIL :: u32 where "TEST_FAIL = 0x3333"
definition TEST_PASS :: u32 where "TEST_PASS = 0x5555"
definition TEST_RESET :: u32 where "TEST_RESET = 0x7777"

text \<open>The value \<^verbatim>\<open>system_reset\<close> writes to the test device, which stops the machine.\<close>

definition system_reset :: "usize \<Rightarrow> usize \<Rightarrow> u32" where
  "system_reset reset_type reason =
     (if reason = RESET_REASON_SYSTEM_FAILURE then TEST_FAIL
      else if reset_type = RESET_TYPE_SHUTDOWN then TEST_PASS
      else if reset_type = RESET_TYPE_COLD_REBOOT \<or> reset_type = RESET_TYPE_WARM_REBOOT then TEST_RESET
      else TEST_FAIL)"

section \<open>The state of a trap\<close>

datatype cause = IntSoft | IntTimer | IntExternal
  | ExInstructionMisaligned | ExInstructionFault | ExIllegalInstruction | ExBreakpoint
  | ExLoadMisaligned | ExLoadFault | ExStoreMisaligned | ExStoreFault
  | ExUserEnvCall | ExSupervisorEnvCall | ExInstructionPageFault | ExLoadPageFault | ExStorePageFault

text \<open>The machine around the kernel: the devices' registers and the addresses of the entry points.\<close>

record ('v, 'd, 'p) board =
  b_mc :: "'v machine"
  b_drd :: "nat \<Rightarrow> 'd \<Rightarrow> u32"
  b_dwr :: "nat \<Rightarrow> u32 \<Rightarrow> 'd \<Rightarrow> 'd"
  b_prd :: "usize \<Rightarrow> 'p \<Rightarrow> u32 \<times> 'p"
  b_pwr :: "usize \<Rightarrow> u32 \<Rightarrow> 'p \<Rightarrow> 'p"
  b_kernelvec :: usize
  b_uservec :: usize
  b_userret :: usize
  b_user_trap :: usize
  b_satp :: usize
  b_hartid :: usize

text \<open>One hart with the kernel it runs; \<open>x_ssoft\<close> is the pending software interrupt.\<close>

record ('v, 'd, 'p) trapped =
  x_kern :: "'v kern"
  x_hart :: hart
  x_disk :: disk
  x_dport :: 'd
  x_plic :: 'p
  x_sepc :: usize
  x_stvec :: usize
  x_ssoft :: bool

text \<open>What \<^verbatim>\<open>userret\<close> is entered with, besides the registers of the hart.\<close>

record user_entry =
  ue_frame :: usize
  ue_satp :: usize
  ue_code :: usize

text \<open>How the handler of a trap ends: in user mode; with the process asleep, in the ready queue or
  ended, each on the way to the scheduler; waiting for a device for ever; without a process; back in
  the interrupted kernel code; or with the machine being reset.\<close>

datatype trap_end = ToUser user_entry | Asleep chan resume | ExitAsleep chan | Yielded | Ended | Hung
  | NoProcess | ToKernel | Reset u32

section \<open>Interrupts\<close>

definition clock_intr :: "usize \<Rightarrow> 'v kern \<Rightarrow> 'v kern outcome" where
  "clock_intr hart k =
     (if hart = 0 then bindR (add_ck (k_ticks k) 1) (\<lambda>n. Inr (k\<lparr>k_ticks := n\<rparr>)) else Inr k)"

text \<open>The timer interrupt: the first hart counts, and the pending interrupt is cleared.\<close>

definition timer_intr :: "('v, 'd, 'p) board \<Rightarrow> ('v, 'd, 'p) trapped \<Rightarrow> ('v, 'd, 'p) trapped outcome" where
  "timer_intr b x =
     bindR (if b_hartid b = 0 then clock_intr (b_hartid b) (x_kern x) else Inr (x_kern x)) (\<lambda>k.
       Inr (x\<lparr>x_kern := k, x_ssoft := False\<rparr>))"

definition disk_handler :: "('v, 'd, 'p) board \<Rightarrow> ('v, 'd, 'p) trapped \<Rightarrow> ('v, 'd, 'p) trapped outcome" where
  "disk_handler b x =
     bindR (disk_intr (b_drd b) (b_dwr b) (c_process (x_hart x)) (x_disk x, k_tab (x_kern x)) (x_dport x)) (\<lambda>((d, t), v).
       Inr (x\<lparr>x_disk := d, x_kern := (x_kern x)\<lparr>k_tab := t\<rparr>, x_dport := v\<rparr>))"

definition port_handler :: "('v, 'd, 'p) board \<Rightarrow> ('v, 'd, 'p) trapped \<Rightarrow> ('v, 'd, 'p) trapped option" where
  "port_handler b x =
     (let k = x_kern x in
      map_option (\<lambda>(con, u, t, v). x\<lparr>x_kern := k\<lparr>k_con := con, k_uart := u, k_tab := t, k_port := v\<rparr>\<rparr>)
        (uart_intr (m_rd (b_mc b)) (m_wr (b_mc b)) False (c_process (x_hart x)) (k_con k) (k_uart k) (k_tab k) (k_port k)))"

text \<open>A device interrupt; \<^const>\<open>None\<close> is a handler that does not return.\<close>

definition device_intr :: "('v, 'd, 'p) board \<Rightarrow> ('v, 'd, 'p) trapped \<Rightarrow> ('v, 'd, 'p) trapped option outcome" where
  "device_intr b x =
     bindR (plic_claim (b_prd b) (b_hartid b) (x_plic x)) (\<lambda>(r, v).
       let x = x\<lparr>x_plic := v\<rparr> in
       case r of
         None \<Rightarrow> Inr (Some x)
       | Some i \<Rightarrow>
           bindR (if i = VIRTIO0_IRQ then bindR (disk_handler b x) (\<lambda>x. Inr (Some x))
                  else if i = UART0_IRQ then Inr (port_handler b x)
                  else Inl UnresolvedInterrupt) (\<lambda>y.
             case y of
               None \<Rightarrow> Inr None
             | Some x \<Rightarrow>
                 bindR (plic_complete (b_pwr b) (b_hartid b) i (x_plic x)) (\<lambda>v. Inr (Some (x\<lparr>x_plic := v\<rparr>)))))"

section \<open>Traps from user mode\<close>

definition entry_addr :: "('v, 'd, 'p) board \<Rightarrow> usize \<Rightarrow> usize outcome" where
  "entry_addr b code =
     bindR (sub_ck code (m_trampoline (b_mc b))) (\<lambda>off. add_ck TRAMPOLINE off)"

definition user_trap_ret :: "('v, 'd, 'p) board \<Rightarrow> ('v, 'd, 'p) trapped \<Rightarrow> (trap_end \<times> ('v, 'd, 'p) trapped) outcome" where
  "user_trap_ret b x =
     (case c_process (x_hart x) of
        None \<Rightarrow> Inr (NoProcess, x)
      | Some i \<Rightarrow>
          let h = intr_off (x_hart x); k = x_kern x in
          bindR (entry_addr b (b_uservec b)) (\<lambda>vec.
            bindR (my_data i k) (\<lambda>d.
              bindR (pdata_user_init (b_satp b) (b_user_trap b) (b_hartid b) d (k_mem k)) (\<lambda>m.
                let h = h\<lparr>c_sstatus := user_intr_on (clear_spp (c_sstatus h))\<rparr>;
                    epc = tf_get (pd_trapframe d) TF_EPC m in
                bindR (unwrap (pd_pagetable d)) (\<lambda>pgt.
                  bindR (entry_addr b (b_userret b)) (\<lambda>code.
                    Inr (ToUser \<lparr>ue_frame = TRAPFRAME, ue_satp = as_satp pgt, ue_code = code\<rparr>,
                         x\<lparr>x_hart := h, x_stvec := vec, x_sepc := epc, x_kern := k\<lparr>k_mem := m\<rparr>\<rparr>)))))))"

definition trap_exit :: "nat \<Rightarrow> ('v, 'd, 'p) trapped \<Rightarrow> (trap_end \<times> ('v, 'd, 'p) trapped) outcome" where
  "trap_exit i x =
     bindR (proc_exit i (- 1) (x_kern x)) (\<lambda>(r, k).
       Inr (case r of Sleeps ch _ \<Rightarrow> ExitAsleep ch | _ \<Rightarrow> Ended, x\<lparr>x_kern := k\<rparr>))"

text \<open>The end of the handler, also after the process has been away: a killed process ends.\<close>

definition user_trap_end :: "('v, 'd, 'p) board \<Rightarrow> nat \<Rightarrow> ('v, 'd, 'p) trapped \<Rightarrow> (trap_end \<times> ('v, 'd, 'p) trapped) outcome" where
  "user_trap_end b i x =
     bindR (proc_killed i (k_tab (x_kern x))) (\<lambda>killed.
       if killed then trap_exit i x else user_trap_ret b x)"

text \<open>The system call, from the place it is resumed at. Going to sleep takes the lock of the process
  and gives up the hart.\<close>

definition user_syscall :: "('v, 'd, 'p) board \<Rightarrow> nat \<Rightarrow> resume \<Rightarrow> ('v, 'd, 'p) trapped \<Rightarrow>
    (trap_end \<times> ('v, 'd, 'p) trapped) outcome" where
  "user_syscall b i rs x =
     bindR (syscall_handler (b_mc b) i (x_hart x) rs (x_kern x)) (\<lambda>(r, k).
       let x = x\<lparr>x_kern := k\<rparr> in
       case r of
         SysRet _ \<Rightarrow> user_trap_end b i x
       | SysHang \<Rightarrow> Inr (Hung, x)
       | SysExit \<Rightarrow> Inr (Ended, x)
       | SysSleep ch rs \<Rightarrow>
           bindR (push_off (x_hart x)) (\<lambda>h.
             bindR (proc_sleep i ch h (k_tab k)) (\<lambda>t.
               Inr (Asleep ch rs, x\<lparr>x_hart := h, x_kern := k\<lparr>k_tab := t\<rparr>\<rparr>))))"

definition user_trap :: "('v, 'd, 'p) board \<Rightarrow> cause option \<Rightarrow> usize \<Rightarrow> ('v, 'd, 'p) trapped \<Rightarrow>
    (trap_end \<times> ('v, 'd, 'p) trapped) outcome" where
  "user_trap b cause stval x =
     (if \<not> is_from_user (x_hart x) then Inl NotFromUser
      else let x = x\<lparr>x_stvec := b_kernelvec b\<rparr> in
        case c_process (x_hart x) of
          None \<Rightarrow> Inr (NoProcess, x)
        | Some i \<Rightarrow>
            bindR (my_data i (x_kern x)) (\<lambda>d.
              let x = x\<lparr>x_kern := (x_kern x)\<lparr>k_mem := tf_set (pd_trapframe d) TF_EPC (x_sepc x) (k_mem (x_kern x))\<rparr>\<rparr> in
              bindR (unwrap cause) (\<lambda>c.
                if c = IntExternal then
                  bindR (device_intr b x) (\<lambda>r. case r of None \<Rightarrow> Inr (Hung, x) | Some x \<Rightarrow> user_trap_end b i x)
                else if c = IntSoft then
                  bindR (timer_intr b x) (\<lambda>x.
                    bindR (proc_killed i (k_tab (x_kern x))) (\<lambda>killed.
                      if killed then trap_exit i x
                      else bindR (push_off (x_hart x)) (\<lambda>h.
                        bindR (yielding i h (k_tab (x_kern x))) (\<lambda>t.
                          Inr (Yielded, x\<lparr>x_hart := h, x_kern := (x_kern x)\<lparr>k_tab := t\<rparr>\<rparr>)))))
                else if c = ExUserEnvCall then
                  bindR (proc_killed i (k_tab (x_kern x))) (\<lambda>killed.
                    if killed then trap_exit i x
                    else bindR (update_epc (pd_trapframe d) (k_mem (x_kern x))) (\<lambda>m.
                      user_syscall b i AtStart (x\<lparr>x_kern := (x_kern x)\<lparr>k_mem := m\<rparr>, x_hart := intr_on (x_hart x)\<rparr>)))
                else if c = ExStorePageFault then
                  bindR (unwrap (pd_pagetable d)) (\<lambda>pgt.
                    bindR (uload_page pgt stval (k_mem (x_kern x))) (\<lambda>(r, m).
                      bindR (case r of
                          Inl _ \<Rightarrow> set_killed i True (k_tab (x_kern x))
                        | Inr _ \<Rightarrow> Inr (k_tab (x_kern x))) (\<lambda>t.
                        user_trap_end b i (x\<lparr>x_kern := (x_kern x)\<lparr>k_mem := m, k_tab := t\<rparr>\<rparr>))))
                else
                  bindR (set_killed i True (k_tab (x_kern x))) (\<lambda>t.
                    user_trap_end b i (x\<lparr>x_kern := (x_kern x)\<lparr>k_tab := t\<rparr>\<rparr>)))))"

text \<open>The first return of a new process: the lock of the process, which the scheduler left taken, is
  released; the first process to get here initializes the file system. The release also asserts that
  this hart holds the lock; the locks of the processes are not part of this state, so that the
  assertion does not appear, only the count of the hart's locks going down.\<close>

definition fork_ret :: "('v, 'd, 'p) board \<Rightarrow> bool \<Rightarrow> ('v, 'd, 'p) trapped \<Rightarrow> (trap_end \<times> ('v, 'd, 'p) trapped) outcome" where
  "fork_ret b first x =
     bindR (unwrap (c_process (x_hart x))) (\<lambda>_.
       bindR (pop_off (x_hart x)) (\<lambda>h.
         bindR (if first then fs_init ROOTDEV (k_fs (x_kern x)) else Inr (k_fs (x_kern x))) (\<lambda>s.
           user_trap_ret b (x\<lparr>x_hart := h, x_kern := (x_kern x)\<lparr>k_fs := s\<rparr>\<rparr>))))"

section \<open>Traps from the kernel\<close>

text \<open>The saved status and program counter are written back at the end; a process that is made to
  yield does so when it runs again.\<close>

definition kernel_trap :: "('v, 'd, 'p) board \<Rightarrow> cause option \<Rightarrow> usize \<Rightarrow> ('v, 'd, 'p) trapped \<Rightarrow>
    (trap_end \<times> ('v, 'd, 'p) trapped) outcome" where
  "kernel_trap b cause which x =
     (let st = c_sstatus (x_hart x);
          back_to = (\<lambda>pc x. (ToKernel, x\<lparr>x_sepc := pc, x_hart := (x_hart x)\<lparr>c_sstatus := st\<rparr>\<rparr>)) in
      if \<not> is_from_supervisor (x_hart x) then Inl NotFromSupervisor
      else if intr_get (x_hart x) then Inl TrapInterruptsOn
      else bindR (unwrap cause) (\<lambda>c.
        if c = ExBreakpoint then bindR (add_ck (x_sepc x) 2) (\<lambda>pc. Inr (back_to pc x))
        else if c \<in> {ExLoadFault, ExLoadPageFault, ExStorePageFault, ExInstructionFault, ExInstructionPageFault}
        then Inl KernelFault
        else if c = ExSupervisorEnvCall then
          if which = SHUTDOWN then Inr (Reset (system_reset RESET_TYPE_SHUTDOWN RESET_REASON_NO_REASON), x)
          else if which = REBOOT then Inr (Reset (system_reset RESET_TYPE_COLD_REBOOT RESET_REASON_NO_REASON), x)
          else Inl UnresolvedTrap
        else if c = IntExternal then
          bindR (device_intr b x) (\<lambda>r.
            case r of None \<Rightarrow> Inr (Hung, x) | Some y \<Rightarrow> Inr (back_to (x_sepc x) y))
        else if c = IntSoft then
          bindR (timer_intr b x) (\<lambda>y.
            bindR (try_yield_proc (x_hart y) (k_tab (x_kern y))) (\<lambda>t.
              Inr (back_to (x_sepc x) (y\<lparr>x_kern := (x_kern y)\<lparr>k_tab := t\<rparr>\<rparr>))))
        else Inl UnresolvedTrap))"

end
