(* ===== verification/Rx_Trap_Props.thy ===== *)
theory Rx_Trap_Props
  imports Rx_Trap
begin

text \<open>
  Properties of the trap handlers: the state in which the kernel enters user mode, and the result of a
  system call that comes back to its caller.
\<close>

section \<open>The trapframe\<close>

text \<open>The registers a user program sees: all fields behind those of the kernel.\<close>

definition user_reg :: "nat \<Rightarrow> bool" where
  "user_reg off \<longleftrightarrow> 40 \<le> off \<and> off mod 8 = 0"

section \<open>Entering user mode\<close>

text \<open>What holds when the kernel gives the hart to process \<open>i\<close>.\<close>

definition user_ready :: "('v, 'd, 'p) board \<Rightarrow> nat \<Rightarrow> user_entry \<Rightarrow> ('v, 'd, 'p) trapped \<Rightarrow> bool" where
  "user_ready b i e x \<longleftrightarrow>
     c_process (x_hart x) = Some i \<and> \<not> bit (c_sstatus (x_hart x)) 8 \<and> bit (c_sstatus (x_hart x)) 5 \<and> \<not> intr_get (x_hart x) \<and>
     x_stvec x = TRAMPOLINE + (b_uservec b - m_trampoline (b_mc b)) \<and>
     ue_frame e = TRAPFRAME \<and> ue_code e = TRAMPOLINE + (b_userret b - m_trampoline (b_mc b)) \<and>
     (\<exists>d pgt. my_data i (x_kern x) = Inr d \<and> pd_pagetable d = Some pgt \<and> ue_satp e = as_satp pgt \<and>
        x_sepc x = tf_get (pd_trapframe d) TF_EPC (k_mem (x_kern x)) \<and>
        tf_get (pd_trapframe d) TF_KERNEL_SATP (k_mem (x_kern x)) = b_satp b \<and>
        tf_get (pd_trapframe d) TF_KERNEL_SP (k_mem (x_kern x)) = pd_kstack d + STACK_SIZE \<and>
        tf_get (pd_trapframe d) TF_KERNEL_TRAP (k_mem (x_kern x)) = b_user_trap b \<and>
        tf_get (pd_trapframe d) TF_KERNEL_HARTID (k_mem (x_kern x)) = b_hartid b)"

lemma entry_addr_eq: "entry_addr b code = Inr a \<Longrightarrow> a = TRAMPOLINE + (code - m_trampoline (b_mc b))"
  by (auto simp: entry_addr_def outcome_simps add_ck_eq_Inr_iff sub_ck_eq_Inr_iff)

lemma status_bits:
  "\<not> bit (user_intr_on (clear_spp st)) 8" "bit (user_intr_on (clear_spp st)) 5"
  "user_intr_on (clear_spp (st AND NOT SIE)) AND SIE = 0"
proof -
  have "\<not> bit (user_intr_on (clear_spp (st AND NOT SIE))) 1"
    by (simp add: user_intr_on_def clear_spp_def SPP_def SPIE_def bit_SIE bit_or_iff bit_and_iff bit_not_iff bit_push_bit_iff bit_1_iff)
  then show "user_intr_on (clear_spp (st AND NOT SIE)) AND SIE = 0" using SIE_bit by blast
qed (simp_all add: user_intr_on_def clear_spp_def SPP_def SPIE_def bit_or_iff bit_and_iff bit_not_iff bit_push_bit_iff bit_1_iff)

lemma user_init_frame:
  assumes "pdata_user_init satp ut hid d m = Inr m'"
  shows "tf_get (pd_trapframe d) TF_KERNEL_SATP m' = satp \<and> tf_get (pd_trapframe d) TF_KERNEL_SP m' = pd_kstack d + STACK_SIZE \<and>
    tf_get (pd_trapframe d) TF_KERNEL_TRAP m' = ut \<and> tf_get (pd_trapframe d) TF_KERNEL_HARTID m' = hid \<and>
    tf_get (pd_trapframe d) TF_EPC m' = tf_get (pd_trapframe d) TF_EPC m \<and>
    (\<forall>off. 40 \<le> off \<longrightarrow> tf_get (pd_trapframe d) off m' = tf_get (pd_trapframe d) off m)"
  using assms
  by (auto simp: pdata_user_init_def Let_def outcome_simps add_ck_eq_Inr_iff tf_get_set_other tf_offsets)

text \<open>The return to user mode from state \<open>x\<close>: the process keeps its registers.\<close>

definition resumes_user :: "('v, 'd, 'p) board \<Rightarrow> nat \<Rightarrow> ('v, 'd, 'p) trapped \<Rightarrow> trap_end \<Rightarrow> ('v, 'd, 'p) trapped \<Rightarrow> bool" where
  "resumes_user b i x r x' \<longleftrightarrow> (\<forall>e. r = ToUser e \<longrightarrow> user_ready b i e x' \<and> k_tab (x_kern x') = k_tab (x_kern x) \<and>
     (\<forall>d. my_data i (x_kern x) = Inr d \<longrightarrow> x_sepc x' = tf_get (pd_trapframe d) TF_EPC (k_mem (x_kern x)) \<and>
       (\<forall>off. 40 \<le> off \<longrightarrow> tf_get (pd_trapframe d) off (k_mem (x_kern x')) = tf_get (pd_trapframe d) off (k_mem (x_kern x)))))"

lemma user_trap_ret_resumes [THEN okRD]:
  "okR (\<lambda>(r, x'). \<forall>i. c_process (x_hart x) = Some i \<longrightarrow> resumes_user b i x r x') (user_trap_ret b x)"
  unfolding user_trap_ret_def
  by (intro okR_intros)
    (auto simp: resumes_user_def user_ready_def my_data_def intr_off_def intr_get_def status_bits outcome_simps
      dest!: entry_addr_eq user_init_frame)

lemma trap_exit_ends [THEN okRD, frames]: "okR (\<lambda>(r, x'). \<forall>e. r \<noteq> ToUser e) (trap_exit i x)"
  unfolding trap_exit_def by (intro okR_intros) (auto split: call.split)

text \<open>A trap that ends in user mode ends by the return of a process that is not killed.\<close>

lemma user_trap_end_resumes [frames]:
  "user_trap_end b i x = Inr (ToUser e, x') \<Longrightarrow> c_process (x_hart x) = Some i \<longrightarrow>
   resumes_user b i x (ToUser e) x' \<and> proc_killed i (k_tab (x_kern x')) = Inr False"
  by (auto simp: user_trap_end_def outcome_simps resumes_user_def split: if_splits dest!: trap_exit_ends user_trap_ret_resumes)

lemma okR_sys_end:
  "(\<And>v. z = SysRet v \<Longrightarrow> okR P (r1 v)) \<Longrightarrow> (\<And>c n. z = SysSleep c n \<Longrightarrow> okR P (r2 c n)) \<Longrightarrow> (z = SysHang \<Longrightarrow> okR P r3) \<Longrightarrow>
   (z = SysExit \<Longrightarrow> okR P r4) \<Longrightarrow>
   okR P (case z of SysRet v \<Rightarrow> r1 v | SysSleep c n \<Rightarrow> r2 c n | SysHang \<Rightarrow> r3 | SysExit \<Rightarrow> r4)"
  by (cases z) simp_all

lemma user_syscall_via_end:
  "okR (\<lambda>(r, x'). \<forall>e. r = ToUser e \<longrightarrow> (\<exists>v k. syscall_handler (b_mc b) i (x_hart x) rs (x_kern x) = Inr (SysRet v, k) \<and>
     user_trap_end b i (x\<lparr>x_kern := k\<rparr>) = Inr (ToUser e, x'))) (user_syscall b i rs x)"
  unfolding user_syscall_def by (intro okR_intros okR_sys_end) (auto simp: okR_def)

lemma device_intr_hart [THEN okRD, frames]:
  "okR (\<lambda>r. \<forall>y. r = Some y \<longrightarrow> x_hart y = x_hart x) (device_intr b x)"
  unfolding device_intr_def port_handler_def disk_handler_def Let_def
  by (intro okR_intros) (auto simp: outcome_simps split: if_splits)

lemma timer_intr_hart [THEN okRD, frames]: "okR (\<lambda>y. x_hart y = x_hart x) (timer_intr b x)"
  unfolding timer_intr_def by (intro okR_intros) simp

lemma intr_on_process [simp]: "c_process (intr_on h) = c_process h"
  by (simp add: intr_on_def)

lemma resumes_user_ready: "resumes_user b i x (ToUser e) x' \<Longrightarrow> user_ready b i e x'"
  by (simp add: resumes_user_def)

lemma user_trap_ready:
  "okR (\<lambda>(r, x'). \<forall>e. r = ToUser e \<longrightarrow> (\<exists>i. c_process (x_hart x) = Some i \<and> user_ready b i e x' \<and>
     proc_killed i (k_tab (x_kern x')) = Inr False)) (user_trap b cause stval x)"
  unfolding user_trap_def
  by (intro okR_intros)
    (auto simp: okR_def intro: resumes_user_ready dest!: frames user_syscall_via_end [THEN okRD])

lemma pop_off_process: "pop_off h = Inr h' \<Longrightarrow> c_process h' = c_process h"
  by (auto simp: pop_off_def intr_on_def outcome_simps Let_def split: if_splits)

lemma fork_ret_ready:
  "okR (\<lambda>(r, x'). \<forall>e. r = ToUser e \<longrightarrow> (\<exists>i. c_process (x_hart x) = Some i \<and> user_ready b i e x')) (fork_ret b first x)"
  unfolding fork_ret_def
  by (intro okR_intros) (auto simp: okR_def outcome_simps intro: resumes_user_ready dest!: user_trap_ret_resumes pop_off_process)

section \<open>Traps that give up the hart\<close>

text \<open>Process \<open>i\<close> on its way through the handler of a trap from user mode, after the handler has run as
  far as \<open>r\<close> says. Once the process has yielded or gone to sleep, the handler goes on in whatever
  state the machine is in when the scheduler has made \<open>i\<close> the process of a hart again: the lock of the
  process is released, and the system call, or the end of the handler, runs.\<close>

inductive in_trap :: "('v, 'd, 'p) board \<Rightarrow> nat \<Rightarrow> trap_end \<Rightarrow> ('v, 'd, 'p) trapped \<Rightarrow> bool" where
  trap_starts: "c_process (x_hart x) = Some i \<Longrightarrow> user_trap b cause stval x = Inr (r, x') \<Longrightarrow> in_trap b i r x'"
| trap_slept: "in_trap b i (Asleep ch rs) x \<Longrightarrow> c_process (x_hart y) = Some i \<Longrightarrow>
    pop_off (x_hart y) = Inr h \<Longrightarrow> proc_resume i (k_tab (x_kern y)) = Inr t \<Longrightarrow>
    user_syscall b i rs (y\<lparr>x_hart := h, x_kern := (x_kern y)\<lparr>k_tab := t\<rparr>\<rparr>) = Inr (r, x') \<Longrightarrow> in_trap b i r x'"
| trap_yielded: "in_trap b i Yielded x \<Longrightarrow> c_process (x_hart y) = Some i \<Longrightarrow> pop_off (x_hart y) = Inr h \<Longrightarrow>
    user_trap_end b i (y\<lparr>x_hart := h\<rparr>) = Inr (r, x') \<Longrightarrow> in_trap b i r x'"

lemma user_trap_end_ready:
  "user_trap_end b i x = Inr (ToUser e, x') \<Longrightarrow> c_process (x_hart x) = Some i \<Longrightarrow>
   user_ready b i e x' \<and> proc_killed i (k_tab (x_kern x')) = Inr False"
  by (auto intro: resumes_user_ready dest!: user_trap_end_resumes)

lemma in_trap_ready:
  assumes "in_trap b i (ToUser e) x"
  shows "user_ready b i e x \<and> proc_killed i (k_tab (x_kern x)) = Inr False"
  using assms
proof (cases rule: in_trap.cases)
  case (trap_starts x0 cause stval)
  then show ?thesis using okRD [OF user_trap_ready trap_starts(2)] by auto
next
  case (trap_slept ch rs x0 y h t)
  then show ?thesis
    using okRD [OF user_syscall_via_end trap_slept(5)] by (auto simp: pop_off_process dest: user_trap_end_ready)
next
  case (trap_yielded x0 y h)
  then show ?thesis by (auto simp: pop_off_process dest: user_trap_end_ready)
qed

section \<open>System calls\<close>

text \<open>The result register after a call.\<close>

definition call_result :: "unit + usize \<Rightarrow> usize" where
  "call_result v = (case v of Inl _ \<Rightarrow> - 1 | Inr n \<Rightarrow> n)"

lemma syscall_handler_result [THEN okRD, frames]:
  "okR (\<lambda>(r, k'). \<forall>v. r = SysRet v \<longrightarrow> (\<exists>k2 d. syscall mc me h rs k = Inr (SysRet v, k2) \<and> my_data me k2 = Inr d \<and>
     k' = k2\<lparr>k_mem := tf_set (pd_trapframe d) (TF_AX 0) (call_result v) (k_mem k2)\<rparr>)) (syscall_handler mc me h rs k)"
  unfolding syscall_handler_def call_result_def by (intro okR_intros okR_sys_end) auto

lemma tf_set_set: "tf_set tf off v (tf_set tf off w m) = tf_set tf off v m"
proof -
  have "store64 (store64 p a w) a v = store64 p a v" for p :: pmem and a
    by (rule ext) (simp add: store64_def store_bytes_def)
  then show ?thesis by (simp add: tf_set_def)
qed

lemma update_epc_saved:
  "update_epc tf (tf_set tf TF_EPC pc m) = Inr m' \<Longrightarrow> m' = tf_set tf TF_EPC (pc + 4) m"
  by (auto simp: update_epc_def outcome_simps add_ck_eq_Inr_iff tf_set_set)

text \<open>The kernel in which the handler of a call runs: the program counter behind the call is saved.\<close>

definition call_kern :: "usize \<Rightarrow> inode proc_data \<Rightarrow> 'v kern \<Rightarrow> 'v kern" where
  "call_kern pc d k = k\<lparr>k_mem := tf_set (pd_trapframe d) TF_EPC (pc + 4) (k_mem k)\<rparr>"

lemma ecall_via_syscall:
  assumes "user_trap b (Some ExUserEnvCall) stval x = Inr (ToUser e, x')"
    "c_process (x_hart x) = Some i" "my_data i (x_kern x) = Inr d"
  shows "\<exists>v k. syscall_handler (b_mc b) i (intr_on (x_hart x)) AtStart (call_kern (x_sepc x) d (x_kern x)) = Inr (SysRet v, k) \<and>
    resumes_user b i (x\<lparr>x_stvec := b_kernelvec b, x_hart := intr_on (x_hart x), x_kern := k\<rparr>) (ToUser e) x'"
  using assms
  by (auto simp: user_trap_def call_kern_def outcome_simps Let_def split: if_splits
      dest!: trap_exit_ends update_epc_saved user_syscall_via_end [THEN okRD] user_trap_end_resumes)

section \<open>Properties\<close>

text \<open>C5. The kernel enters user mode only in a safe state. Whatever the cause of a trap from user
  mode, whether its handler returns at once or first gives up the hart any number of times, at the end
  of its time slice or asleep in a system call, with anything happening in between, and also at the
  first return of a new process, the hart then runs the process whose page table, saved program
  counter and trapframe are installed, it will drop to user mode with interrupts enabled there and
  disabled until then, the next trap goes to the user vector in the trampoline, and the trapframe
  holds the kernel's page table, stack, handler and hart number. A process that returns from a trap
  is not killed; the first return makes no such check.\<close>

theorem user_mode_entry_safe:
  "(user_trap b cause stval x = Inr (ToUser e, x') \<longrightarrow>
      (\<exists>i. c_process (x_hart x) = Some i \<and> user_ready b i e x' \<and> proc_killed i (k_tab (x_kern x')) = Inr False)) \<and>
   (in_trap b i (ToUser e) x' \<longrightarrow> user_ready b i e x' \<and> proc_killed i (k_tab (x_kern x')) = Inr False) \<and>
   (fork_ret b first x = Inr (ToUser e, x') \<longrightarrow> (\<exists>i. c_process (x_hart x) = Some i \<and> user_ready b i e x'))"
  using okRD [OF user_trap_ready] okRD [OF fork_ret_ready] in_trap_ready by fastforce

text \<open>A system call that comes back to its caller ran its handler with the program counter behind
  the call saved, and resumes at the saved program counter with the handler's result, or minus one,
  in the result register and every other register as the handler left it.\<close>

lemma ecall_returns_result:
  assumes "user_trap b (Some ExUserEnvCall) stval x = Inr (ToUser e, x')"
    "c_process (x_hart x) = Some i" "my_data i (x_kern x) = Inr d"
  shows "\<exists>v k d'. syscall (b_mc b) i (intr_on (x_hart x)) AtStart (call_kern (x_sepc x) d (x_kern x)) = Inr (SysRet v, k) \<and>
    my_data i k = Inr d' \<and> my_data i (x_kern x') = Inr d' \<and> x_sepc x' = tf_get (pd_trapframe d') TF_EPC (k_mem k) \<and>
    tf_get (pd_trapframe d') (TF_AX 0) (k_mem (x_kern x')) = call_result v \<and>
    (\<forall>off. user_reg off \<and> off \<noteq> TF_AX 0 \<longrightarrow>
       tf_get (pd_trapframe d') off (k_mem (x_kern x')) = tf_get (pd_trapframe d') off (k_mem k))"
proof -
  obtain v k where k: "syscall_handler (b_mc b) i (intr_on (x_hart x)) AtStart (call_kern (x_sepc x) d (x_kern x)) = Inr (SysRet v, k)"
    "resumes_user b i (x\<lparr>x_stvec := b_kernelvec b, x_hart := intr_on (x_hart x), x_kern := k\<rparr>) (ToUser e) x'"
    using ecall_via_syscall [OF assms] by blast
  obtain k2 d' where k2: "syscall (b_mc b) i (intr_on (x_hart x)) AtStart (call_kern (x_sepc x) d (x_kern x)) = Inr (SysRet v, k2)"
    "my_data i k2 = Inr d'" "k = k2\<lparr>k_mem := tf_set (pd_trapframe d') (TF_AX 0) (call_result v) (k_mem k2)\<rparr>"
    using syscall_handler_result [OF k(1)] by auto
  have d': "my_data i k = Inr d'" using k2(2,3) by (simp add: my_data_def)
  have regs: "my_data i (x_kern x') = Inr d'" "x_sepc x' = tf_get (pd_trapframe d') TF_EPC (k_mem k)"
    "\<And>off. 40 \<le> off \<Longrightarrow> tf_get (pd_trapframe d') off (k_mem (x_kern x')) = tf_get (pd_trapframe d') off (k_mem k)"
    using k(2) d' by (auto simp: resumes_user_def my_data_def)
  have "off + 8 \<le> TF_AX 0 \<or> TF_AX 0 + 8 \<le> off" if "user_reg off" "off \<noteq> TF_AX 0" for off
    using that unfolding user_reg_def TF_AX_def by presburger
  then show ?thesis using k2 regs
    by (intro exI conjI) (auto simp: tf_get_set_other tf_offsets user_reg_def)
qed

text \<open>A process asks for its identifier.\<close>

definition getpid_data :: "inode proc_data" where
  "getpid_data = (proc_data_new 0)\<lparr>pd_trapframe := 0x80100000, pd_pagetable := Some 0x80400000, pd_kstack := 0x3FFFFC0000\<rparr>"

definition getpid_kern :: "unit kern" where
  "getpid_kern =
     \<lparr>k_mem = tf_set 0x80100000 (TF_AX 7) 11 (ka_new (\<lambda>_. 0)), k_fs = fs_new (\<lambda>_. replicate BSIZE 0),
      k_tab = ptable_new\<lparr>pt_proc := \<lparr>pr_meta = proc_meta_new\<lparr>pm_pid := 7, pm_state := Running\<rparr>, pr_data = getpid_data\<rparr> #
          map process_new [1..<NPROC], pt_pids := 8, pt_init_proc := Some 0\<rparr>,
      k_files = Map.empty, k_pipes = Map.empty, k_devs = device_list_uninit,
      k_con = console_new, k_uart = uart_new, k_port = (), k_ticks = 0\<rparr>"

definition getpid_trap :: "(unit, unit, unit) trapped" where
  "getpid_trap = \<lparr>x_kern = getpid_kern, x_hart = cpu_new\<lparr>c_process := Some 0\<rparr>, x_disk = disk_new, x_dport = (), x_plic = (),
     x_sepc = 0x1000, x_stvec = 0x3FFFFFF000, x_ssoft = False\<rparr>"

definition demo_board :: "(unit, unit, unit) board" where
  "demo_board = \<lparr>b_mc = \<lparr>m_rd = (\<lambda>_ v. (0, v)), m_wr = (\<lambda>_ _ v. v), m_trampoline = 0x80007000, m_fork_ret = 0x80001000, m_pad = []\<rparr>,
     b_drd = (\<lambda>_ _. 0), b_dwr = (\<lambda>_ _ v. v), b_prd = (\<lambda>_ v. (0, v)), b_pwr = (\<lambda>_ _ v. v), b_kernelvec = 0x80006000,
     b_uservec = 0x80007000, b_userret = 0x80007090, b_user_trap = 0x80002000, b_satp = 0x8000000000087FFF, b_hartid = 0\<rparr>"

lemma getpid_data_eq: "my_data 0 (getpid_kern\<lparr>k_mem := m\<rparr>) = Inr getpid_data" "my_data 0 getpid_kern = Inr getpid_data"
  by (simp_all add: my_data_def get_proc_def getpid_kern_def idx_get_def)

lemma getpid_killed: "proc_killed 0 (k_tab getpid_kern) = Inr False"
  by (simp add: proc_killed_def get_proc_def getpid_kern_def idx_get_def proc_meta_new_def)

lemma getpid_syscall:
  "syscall mc 0 h rs (call_kern pc getpid_data getpid_kern) = Inr (SysRet (Inr 7), call_kern pc getpid_data getpid_kern)"
proof -
  have "tf_get (pd_trapframe getpid_data) (TF_AX 7) (k_mem (call_kern pc getpid_data getpid_kern)) = 11"
    by (simp add: call_kern_def tf_get_set_other tf_offsets) (simp add: getpid_kern_def getpid_data_def TF_AX_def)
  then show ?thesis
    by (simp add: syscall_def call_kern_def getpid_data_eq from_primitive_def syscall_nums_def sys_getpid_def)
      (simp add: getpid_kern_def get_proc_def idx_get_def)
qed

lemma getpid_trap_returns:
  "\<exists>e x'. user_trap demo_board (Some ExUserEnvCall) 0 getpid_trap = Inr (ToUser e, x')"
proof -
  have epc: "update_epc (pd_trapframe getpid_data) (tf_set (pd_trapframe getpid_data) TF_EPC 0x1000 m) =
      Inr (tf_set (pd_trapframe getpid_data) TF_EPC 0x1004 m)" for m
    by (simp add: update_epc_def add_ck_def tf_set_set)
  have call: "syscall_handler mc 0 h rs (getpid_kern\<lparr>k_mem := tf_set (pd_trapframe getpid_data) TF_EPC 0x1004 (k_mem getpid_kern)\<rparr>) =
      Inr (SysRet (Inr 7), getpid_kern\<lparr>k_mem := tf_set (pd_trapframe getpid_data) (TF_AX 0) 7
        (tf_set (pd_trapframe getpid_data) TF_EPC 0x1004 (k_mem getpid_kern))\<rparr>)" for mc h rs
    using getpid_syscall [of mc h rs "0x1000"]
    by (simp add: syscall_handler_def call_kern_def getpid_data_eq)
  have "is_from_user (x_hart getpid_trap)" by (simp add: is_from_user_def getpid_trap_def cpu_new_def)
  moreover have "entry_addr demo_board (b_uservec demo_board) = Inr 0x3FFFFFF000" "entry_addr demo_board (b_userret demo_board) = Inr 0x3FFFFFF090"
    by (simp_all add: entry_addr_def demo_board_def sub_ck_def add_ck_def TRAMPOLINE_def MAXVA_def PGSIZE_def)
  moreover have "\<exists>sp. add_ck (pd_kstack getpid_data) STACK_SIZE = Inr sp" "pd_pagetable getpid_data = Some 0x80400000"
    by (simp_all add: getpid_data_def add_ck_def STACK_SIZE_def PGSIZE_def)
  ultimately show ?thesis
    by (auto simp: user_trap_def getpid_trap_def epc call getpid_data_eq getpid_killed user_syscall_def user_trap_end_def user_trap_ret_def
        Let_def pdata_user_init_def intr_on_def intr_off_def)
qed

theorem user_mode_entry_safe_witness:
  "\<exists>e x'. user_trap demo_board (Some ExUserEnvCall) 0 getpid_trap = Inr (ToUser e, x') \<and> user_ready demo_board 0 e x' \<and>
     in_trap demo_board 0 (ToUser e) x' \<and> proc_killed 0 (k_tab (x_kern x')) = Inr False"
proof -
  obtain e x' where run: "user_trap demo_board (Some ExUserEnvCall) 0 getpid_trap = Inr (ToUser e, x')"
    using getpid_trap_returns by blast
  moreover have "in_trap demo_board 0 (ToUser e) x'"
    by (rule trap_starts [OF _ run]) (simp add: getpid_trap_def)
  ultimately show ?thesis
    using user_mode_entry_safe [of demo_board "Some ExUserEnvCall" 0 getpid_trap e x' 0] by blast
qed

lemma getpid_returns_seven:
  "\<exists>e x'. user_trap demo_board (Some ExUserEnvCall) 0 getpid_trap = Inr (ToUser e, x') \<and>
     x_sepc x' = 0x1004 \<and> tf_get 0x80100000 (TF_AX 0) (k_mem (x_kern x')) = 7"
proof -
  obtain e x' where run: "user_trap demo_board (Some ExUserEnvCall) 0 getpid_trap = Inr (ToUser e, x')"
    using getpid_trap_returns by blast
  have k: "x_kern getpid_trap = getpid_kern" "x_sepc getpid_trap = 0x1000" "c_process (x_hart getpid_trap) = Some 0"
    by (simp_all add: getpid_trap_def)
  have "my_data 0 (call_kern 0x1000 getpid_data getpid_kern) = Inr getpid_data" by (simp add: call_kern_def getpid_data_eq)
  with ecall_returns_result [OF run k(3), unfolded k(1), OF getpid_data_eq(2)]
  have "x_sepc x' = tf_get (pd_trapframe getpid_data) TF_EPC (k_mem (call_kern 0x1000 getpid_data getpid_kern)) \<and>
      tf_get (pd_trapframe getpid_data) (TF_AX 0) (k_mem (x_kern x')) = call_result (Inr 7)"
    by (auto simp: k getpid_syscall)
  then have "x_sepc x' = 0x1004" "tf_get 0x80100000 (TF_AX 0) (k_mem (x_kern x')) = 7"
    by (simp_all add: call_kern_def call_result_def) (simp add: getpid_data_def)
  then show ?thesis using run by blast
qed

end
