(* ===== verification/Rx_Trap_Types.thy ===== *)
theory Rx_Trap_Types
  imports Rx_Types Rx_Trap_Props
begin

text \<open>
  The kernel state stays typed through every way into the kernel: traps from user mode and from the
  kernel, the resumption of a system call, the first return of a process and a turn of the scheduler.
\<close>

section \<open>Traps and the scheduler\<close>

definition trap_typed :: "('v, 'd, 'p) trapped \<Rightarrow> bool" where
  "trap_typed x \<longleftrightarrow> kern_typed (x_kern x) \<and> disk_ok (x_disk x)"

definition trap_keeps :: "('v, 'd, 'p) trapped \<Rightarrow> ('v, 'd, 'p) trapped \<Rightarrow> bool" where
  "trap_keeps x y \<longleftrightarrow> (trap_typed x \<longrightarrow> trap_typed y)"

lemmas traps = trap_keeps_def trap_typed_def keeps

lemma erase_line_types: "erase_line rd wr pn con v = Some (con', v') \<Longrightarrow> co_buf con' = co_buf con"
  by (induction rd wr pn con v rule: erase_line.induct)
    (subst (asm) erase_line.simps, auto split: if_splits bind_splits)

lemma console_intr_keeps_types:
  "console_intr rd wr pn me c con t v = Some (con', t', v') \<Longrightarrow>
   length (co_buf con') = length (co_buf con) \<and> tab_keeps t t'"
  by (auto simp: console_intr_def Let_def split: if_splits bind_splits dest!: erase_line_types)

lemma uart_input_types:
  "uart_input rd wr pn me con t v = Some r \<Longrightarrow> length (co_buf (fst r)) = length (co_buf con) \<and> tab_keeps t (fst (snd r))"
proof (induction rule: uart_input.raw_induct [rotated 1, consumes 1, case_names step])
  case (step f rd wr pn me con t v r)
  show ?case
  proof (cases "0 < fst (rd LSR v) AND 1")
    case True
    then obtain c v1 con1 t1 v2 where c: "console_intr rd wr pn me c con t v1 = Some (con1, t1, v2)" "f rd wr pn me con1 t1 v2 = Some r"
      using step(2) by (auto simp: Let_def split: prod.splits bind_splits)
    from step(1) [OF c(2)] console_intr_keeps_types [OF c(1)] show ?thesis by (auto intro: tab_keeps_trans)
  qed (use step(2) in \<open>auto split: prod.splits\<close>)
qed

lemma proc_exit_types [THEN okRD, types]: "okR (\<lambda>(r, k'). kern_keeps k k') (proc_exit me status k)"
  unfolding proc_exit_def by (intro okR_intros) (auto simp: keeps dest!: types)

lemma intr_one_types [types]: "intr_one me dt = Inr dt' \<Longrightarrow> (disk_ok (fst dt) \<longrightarrow> disk_ok (fst dt')) \<and> tab_keeps (snd dt) (snd dt')"
  by (auto simp: intr_one_def upd_info_def outcome_simps Let_def disk_ok_def split: prod.splits)

lemma intr_loop_types: "okR (\<lambda>dt'. (disk_ok (fst dt) \<longrightarrow> disk_ok (fst dt')) \<and> tab_keeps (snd dt) (snd dt')) (intr_loop me dt)"
proof (induction me dt rule: intr_loop.induct)
  case (1 me d t)
  show ?case unfolding intr_loop.simps [of me d t]
    by (intro okR_intros okR_weaken [OF "1.IH"]) (auto dest!: types intro: tab_keeps_trans)
qed

lemma disk_handler_types [THEN okRD, types]: "okR (trap_keeps x) (disk_handler b x)"
  unfolding disk_handler_def disk_intr_def Let_def
  by (intro okR_intros) (auto simp: traps outcome_simps dest!: intr_loop_types [THEN okRD])

lemma port_handler_types [types]: "port_handler b x = Some y \<Longrightarrow> trap_keeps x y"
  by (auto simp: port_handler_def uart_intr_def traps Let_def dest!: uart_input_types transmit_types)

lemma device_intr_types [THEN okRD, types]:
  "okR (\<lambda>r. case r of None \<Rightarrow> True | Some y \<Rightarrow> trap_keeps x y) (device_intr b x)"
  unfolding device_intr_def
  by (intro okR_intros) (auto simp: trap_keeps_def trap_typed_def outcome_simps split: if_splits dest!: types)

lemma timer_intr_types [THEN okRD, types]: "okR (trap_keeps x) (timer_intr b x)"
  unfolding timer_intr_def clock_intr_def
  by (intro okR_intros) (auto simp: traps outcome_simps split: if_splits)

lemma user_trap_ret_types [THEN okRD, types]: "okR (\<lambda>(e, y). trap_keeps x y) (user_trap_ret b x)"
  unfolding user_trap_ret_def by (intro okR_intros) (auto simp: traps)

lemma trap_exit_types [THEN okRD, types]: "okR (\<lambda>(e, y). trap_keeps x y) (trap_exit i x)"
  unfolding trap_exit_def by (intro okR_intros) (auto simp: traps dest!: types)

lemma user_trap_end_types [THEN okRD, types]: "okR (\<lambda>(e, y). trap_keeps x y) (user_trap_end b i x)"
  unfolding user_trap_end_def by (intro okR_intros) (auto simp: okR_def dest!: types)

lemma proc_sleep_types [THEN okRD, types]: "okR (tab_keeps t) (proc_sleep i ch h t)"
  unfolding proc_sleep_def by (intro okR_intros) (auto dest!: types)

lemma yielding_types [THEN okRD, types]: "okR (tab_keeps t) (yielding i h t)"
  unfolding yielding_def by (intro okR_intros) (auto dest!: types)

lemma set_killed_types [THEN okRD, types]: "okR (tab_keeps t) (set_killed i kl t)"
  unfolding set_killed_def by (auto simp: okR_def dest!: types)

lemma user_syscall_types [THEN okRD, types]: "okR (\<lambda>(e, y). trap_keeps x y) (user_syscall b i rs x)"
  unfolding user_syscall_def
proof (intro okR_intros, goal_cases)
  case (1 z r k)
  then have "kern_keeps (x_kern x) k" using okRD [OF syscall_handler_types] by fastforce
  then show ?case by (cases r) (auto simp: okR_def traps outcome_simps dest!: types)
qed

lemma user_trap_types: "okR (\<lambda>(e, y). trap_keeps x y) (user_trap b c stval x)"
  unfolding user_trap_def
  by (intro okR_intros) (auto simp: okR_def traps split: sum.splits dest!: types)

lemma fork_ret_types: "okR (\<lambda>(e, y). trap_keeps x y) (fork_ret b first x)"
  unfolding fork_ret_def
  by (intro okR_intros) (auto simp: okR_def traps split: if_splits dest!: types)

lemma try_yield_types [THEN okRD, types]: "okR (tab_keeps t) (try_yield_proc h t)"
  unfolding try_yield_proc_def by (intro okR_intros) (auto simp: okR_def dest!: types)

lemma kernel_trap_types: "okR (\<lambda>(e, y). trap_keeps x y) (kernel_trap b c which x)"
  unfolding kernel_trap_def Let_def
  by (intro okR_intros) (auto simp: traps dest!: types)

lemma seek_runnable_types [THEN okRD, types]: "okR (\<lambda>(r, t'). tab_keeps t t') (seek_runnable t)"
  unfolding seek_runnable_def by (intro okR_intros) (auto dest!: types)

lemma scheduler_pick_types [THEN okRD, types]: "okR (\<lambda>(h', t'). tab_keeps t t') (scheduler_pick h t)"
  unfolding scheduler_pick_def scheduler_run_def Let_def
  by (intro okR_intros) (auto dest!: types intro: tab_keeps_trans)

section \<open>Everything that can happen\<close>

text \<open>A step of the machine, whichever hart makes it: a way into the kernel, user code that changes memory,
  a device that changes its registers or the contents of the disk's queue.  The arguments of the
  handlers, the machine they run on and the registers a hart comes with are any.\<close>

inductive kstep :: "('v, 'd, 'p) trapped \<Rightarrow> ('v, 'd, 'p) trapped \<Rightarrow> bool" where
  kstep_user: "user_trap b c stval x = Inr (e, y) \<Longrightarrow> kstep x y"
| kstep_kernel: "kernel_trap b c which x = Inr (e, y) \<Longrightarrow> kstep x y"
| kstep_resume: "proc_resume i (k_tab (x_kern x)) = Inr t \<Longrightarrow>
    user_syscall b i rs (x\<lparr>x_kern := (x_kern x)\<lparr>k_tab := t\<rparr>\<rparr>) = Inr (e, y) \<Longrightarrow> kstep x y"
| kstep_yielded: "user_trap_end b i x = Inr (e, y) \<Longrightarrow> kstep x y"
| kstep_first: "fork_ret b first x = Inr (e, y) \<Longrightarrow> kstep x y"
| kstep_pick: "scheduler_pick (x_hart x) (k_tab (x_kern x)) = Inr (h, t) \<Longrightarrow>
    kstep x (x\<lparr>x_hart := h, x_kern := (x_kern x)\<lparr>k_tab := t\<rparr>\<rparr>)"
| kstep_memory: "kstep x (x\<lparr>x_kern := (x_kern x)\<lparr>k_mem := m\<rparr>\<rparr>)"
| kstep_device: "disk_ok d \<Longrightarrow>
    kstep x (x\<lparr>x_kern := (x_kern x)\<lparr>k_port := v\<rparr>, x_disk := d, x_dport := dv, x_plic := pv, x_ssoft := sw\<rparr>)"
| kstep_hart: "kstep x (x\<lparr>x_hart := h, x_sepc := pc, x_stvec := vec\<rparr>)"

lemma kstep_types:
  assumes "kstep x y" "trap_typed x"
  shows "trap_typed y"
  using assms
proof (induction rule: kstep.induct)
  case (kstep_resume i x t b rs e y)
  then have "trap_typed (x\<lparr>x_kern := (x_kern x)\<lparr>k_tab := t\<rparr>\<rparr>)" by (auto simp: traps proc_resume_def dest!: types)
  with kstep_resume(2) show ?case by (auto simp: trap_keeps_def dest!: types)
next
  case (kstep_pick x h t)
  then show ?case by (auto simp: traps dest!: types)
qed (use okRD [OF user_trap_types] okRD [OF kernel_trap_types] okRD [OF fork_ret_types] user_trap_end_types in
    \<open>fastforce simp: trap_keeps_def trap_typed_def\<close>)+

section \<open>Property\<close>

text \<open>C4. The kernel state has the types of the source in every state that can be reached from a typed one,
  by any sequence of traps, system calls, interrupts, switches of processes and harts, steps of user
  code and of devices: every fixed-size array keeps its length, every process its number, every block,
  buffer and pipe its size, and every open file is a pipe with its pipe or stands for its inode.\<close>

theorem reachable_states_typed:
  assumes "trap_typed x" "kstep\<^sup>*\<^sup>* x y"
  shows "trap_typed y"
  using assms(2,1) by (induction rule: rtranclp_induct) (auto dest: kstep_types)

lemma getpid_trap_typed: "trap_typed getpid_trap"
proof -
  have "data_typed i (pr_data (pt_proc (k_tab getpid_kern) ! i))" if "i < NPROC" for i
    using that by (cases i) (simp_all add: getpid_kern_def getpid_data_def process_new_def proc_data_new_def data_typed_def)
  then have "tab_typed (k_tab getpid_kern)"
    by (simp add: tab_typed_def) (simp add: getpid_kern_def ptable_new_def NPROC_def)
  moreover have "fs_typed (k_fs getpid_kern)" by (simp add: getpid_kern_def typed_new)
  ultimately have "kern_typed getpid_kern"
    unfolding kern_typed_def by (simp add: getpid_kern_def device_list_uninit_def console_new_def uart_new_def)
  then show ?thesis unfolding trap_typed_def by (simp add: getpid_trap_def disk_ok_def disk_new_def)
qed

theorem reachable_states_typed_witness:
  "\<exists>e y. user_trap demo_board (Some ExUserEnvCall) 0 getpid_trap = Inr (ToUser e, y) \<and> trap_typed y"
proof -
  obtain e y where run: "user_trap demo_board (Some ExUserEnvCall) 0 getpid_trap = Inr (ToUser e, y)"
    using getpid_trap_returns by blast
  then have "kstep\<^sup>*\<^sup>* getpid_trap y" by (intro r_into_rtranclp) (rule kstep_user)
  with run reachable_states_typed [OF getpid_trap_typed] show ?thesis by blast
qed

end
