(* ===== verification/Rx_Boot.thy ===== *)
theory Rx_Boot
  imports Rx_First Rx_Kboot Rx_Trap_Types
begin

text \<open>
  Booting, from \<^verbatim>\<open>main.rs\<close>: \<^verbatim>\<open>start\<close> in machine mode, \<^verbatim>\<open>timer_init\<close> with the machine-mode interrupt
  handler \<^verbatim>\<open>timervec\<close>, and \<^verbatim>\<open>rust_main\<close> on the first hart and on the others, over the initialization
  functions of the components.  The messages printed on the way are left out.
\<close>

section \<open>The state at boot\<close>

datatype privilege = User | Supervisor | Machine

datatype pmp_range = PmpOff | PmpTor | PmpNa4 | PmpNapot

text \<open>The control registers \<^verbatim>\<open>start\<close> writes. Of \<^verbatim>\<open>mstatus\<close> it is the previous mode and the interrupt enable bit,
  of \<^verbatim>\<open>mie\<close> the timer bit; \<open>h_pmp0\<close> is the first protection entry with its permissions and its lock.\<close>

record hart_regs =
  h_mpp :: privilege
  h_mepc :: usize
  h_satp :: usize
  h_medeleg :: usize
  h_mideleg :: usize
  h_sext :: bool
  h_ssoft :: bool
  h_stimer :: bool
  h_pmpaddr0 :: usize
  h_pmp0 :: "pmp_range \<times> (bool \<times> bool \<times> bool) \<times> bool"
  h_mscratch :: usize
  h_mtvec :: usize
  h_mie :: bool
  h_mtimer :: bool
  h_tp :: usize

text \<open>Addresses from the linker: the ends of image and text, the kernel page table, the entry points, the
  scratch areas of the timer and the disk structure.\<close>

record image =
  im_end :: usize
  im_etext :: usize
  im_kpt :: usize
  im_rust_main :: usize
  im_timervec :: usize
  im_scratch :: usize
  im_disk :: usize

record ('v, 'd, 'p, 'c) boot =
  bt_regs :: hart_regs
  bt_scratch :: "usize list list"
  bt_clint :: 'c
  bt_started :: bool
  bt_x :: "('v, 'd, 'p) trapped"

definition timer_scratch_new :: "usize list list" where
  "timer_scratch_new = replicate NCPU (replicate 5 0)"

section \<open>Machine mode\<close>

definition count_mtimecmp :: "usize \<Rightarrow> usize outcome" where
  "count_mtimecmp hart =
     (if unat CLINT + 8 * unat hart + 0x4000 < 2 ^ 64 then Inr (CLINT + 8 * hart + 0x4000) else Inl Overflow)"

definition TIMER_INTERVAL :: usize where "TIMER_INTERVAL = 1000000"

definition timer_init :: "(usize \<Rightarrow> 'c \<Rightarrow> usize \<times> 'c) \<Rightarrow> (usize \<Rightarrow> usize \<Rightarrow> 'c \<Rightarrow> 'c) \<Rightarrow> image \<Rightarrow> usize \<Rightarrow>
    ('v, 'd, 'p, 'c) boot \<Rightarrow> ('v, 'd, 'p, 'c) boot outcome" where
  "timer_init rd wr im hart st =
     bindR (add_mtimecmp rd wr hart TIMER_INTERVAL (bt_clint st)) (\<lambda>c.
       bindR (count_mtimecmp hart) (\<lambda>a.
         bindR (idx_get (bt_scratch st) (unat hart)) (\<lambda>sc.
           Inr (st\<lparr>bt_clint := c,
             bt_scratch := (bt_scratch st)[unat hart := sc[3 := a, 4 := TIMER_INTERVAL]],
             bt_regs := (bt_regs st)\<lparr>h_mscratch := im_scratch im + 40 * hart, h_mtvec := im_timervec im,
               h_mie := True, h_mtimer := True\<rparr>\<rparr>))))"

definition start :: "(usize \<Rightarrow> 'c \<Rightarrow> usize \<times> 'c) \<Rightarrow> (usize \<Rightarrow> usize \<Rightarrow> 'c \<Rightarrow> 'c) \<Rightarrow> image \<Rightarrow> usize \<Rightarrow>
    ('v, 'd, 'p, 'c) boot \<Rightarrow> ('v, 'd, 'p, 'c) boot outcome" where
  "start rd wr im hart st =
     (let r = (bt_regs st)\<lparr>h_mpp := Supervisor, h_mepc := im_rust_main im, h_satp := 0, h_medeleg := 0xffff, h_mideleg := 0xffff,
            h_sext := True, h_ssoft := True, h_stimer := True, h_pmpaddr0 := 0x3fffffffffffff,
            h_pmp0 := (PmpTor, (True, True, True), False)\<rparr> in
      bindR (timer_init rd wr im hart (st\<lparr>bt_regs := r\<rparr>)) (\<lambda>st.
        Inr (st\<lparr>bt_regs := (bt_regs st)\<lparr>h_tp := hart\<rparr>\<rparr>)))"

text \<open>The handler of the timer interrupt: it moves the next interrupt by the interval, both taken from the
  scratch area, and raises a supervisor software interrupt.\<close>

definition timervec :: "(usize \<Rightarrow> 'c \<Rightarrow> usize \<times> 'c) \<Rightarrow> (usize \<Rightarrow> usize \<Rightarrow> 'c \<Rightarrow> 'c) \<Rightarrow> usize list \<Rightarrow> 'c \<Rightarrow> bool \<times> 'c" where
  "timervec rd wr sc c = (let (t, c) = rd (sc ! 3) c in (True, wr (sc ! 3) (t + sc ! 4) c))"

section \<open>Supervisor mode\<close>

definition console_init :: "('v, 'd, 'p) board \<Rightarrow> 'v kern \<Rightarrow> 'v kern outcome" where
  "console_init b k =
     (let k = k\<lparr>k_port := uart_init (m_wr (b_mc b)) (k_port k)\<rparr> in
      bindR (console_register (k_devs k)) (\<lambda>ds. Inr (k\<lparr>k_devs := ds\<rparr>)))"

definition kernel_map_init_hart :: "usize \<Rightarrow> hart_regs \<Rightarrow> hart_regs" where
  "kernel_map_init_hart kpt r = r\<lparr>h_satp := as_satp kpt\<rparr>"

definition trap_init_hart :: "('v, 'd, 'p) board \<Rightarrow> ('v, 'd, 'p) trapped \<Rightarrow> ('v, 'd, 'p) trapped" where
  "trap_init_hart b x = x\<lparr>x_stvec := b_kernelvec b\<rparr>"

definition plic_start :: "('v, 'd, 'p) board \<Rightarrow> usize \<Rightarrow> ('v, 'd, 'p) trapped \<Rightarrow> ('v, 'd, 'p) trapped outcome" where
  "plic_start b hart x =
     bindR (plic_init_hart (b_pwr b) hart (plic_init (b_pwr b) (x_plic x))) (\<lambda>v. Inr (x\<lparr>x_plic := v\<rparr>))"

text \<open>The part of \<^verbatim>\<open>rust_main\<close> that the first hart runs.\<close>

definition main_first :: "('v, 'd, 'p) board \<Rightarrow> image \<Rightarrow> ('v, 'd, 'p, 'c) boot \<Rightarrow> ('v, 'd, 'p, 'c) boot outcome" where
  "main_first b im st =
     (let x = bt_x st in
      bindR (console_init b (x_kern x)) (\<lambda>k.
        bindR (ka_init (im_end im) (k_mem k)) (\<lambda>m.
          bindR (kernel_map (im_kpt im) (im_etext im) (m_trampoline (b_mc b)) m) (\<lambda>m.
            let r = kernel_map_init_hart (im_kpt im) (bt_regs st) in
            bindR (proc_init (k_tab k)) (\<lambda>t.
              let x = trap_init_hart b (x\<lparr>x_kern := k\<lparr>k_mem := m, k_tab := t\<rparr>\<rparr>) in
              bindR (plic_start b (h_tp r) x) (\<lambda>x.
                bindR (disk_init (b_drd b) (b_dwr b) (im_disk im) (x_disk x) (x_dport x)) (\<lambda>(d, v).
                  bindR (user_init (b_mc b) (x_kern x)) (\<lambda>k.
                    Inr (st\<lparr>bt_regs := r, bt_started := True,
                      bt_x := x\<lparr>x_kern := k, x_hart := intr_on (x_hart x), x_disk := d, x_dport := v\<rparr>\<rparr>)))))))))"

text \<open>\<^verbatim>\<open>rust_main\<close> up to the scheduler; \<^const>\<open>None\<close> is another hart that waits for the first one.\<close>

definition rust_main :: "('v, 'd, 'p) board \<Rightarrow> image \<Rightarrow> ('v, 'd, 'p, 'c) boot \<Rightarrow> ('v, 'd, 'p, 'c) boot option outcome" where
  "rust_main b im st =
     (if h_tp (bt_regs st) = 0 then bindR (main_first b im st) (\<lambda>st. Inr (Some st))
      else if \<not> bt_started st then Inr None
      else let r = kernel_map_init_hart (im_kpt im) (bt_regs st) in
        bindR (plic_start b (h_tp r) (trap_init_hart b (bt_x st))) (\<lambda>x. Inr (Some (st\<lparr>bt_regs := r, bt_x := x\<rparr>))))"

text \<open>The first hart from reset to the scheduler.\<close>

definition boot_first :: "(usize \<Rightarrow> 'c \<Rightarrow> usize \<times> 'c) \<Rightarrow> (usize \<Rightarrow> usize \<Rightarrow> 'c \<Rightarrow> 'c) \<Rightarrow> ('v, 'd, 'p) board \<Rightarrow> image \<Rightarrow>
    ('v, 'd, 'p, 'c) boot \<Rightarrow> ('v, 'd, 'p, 'c) boot option outcome" where
  "boot_first rd wr b im st = bindR (start rd wr im 0 st) (rust_main b im)"

text \<open>The values of the kernel's statics when the image is loaded, over memory, disk and devices.\<close>

definition kern_statics :: "pmem \<Rightarrow> (u32 \<Rightarrow> block) \<Rightarrow> 'v \<Rightarrow> 'v kern" where
  "kern_statics m disk v =
     \<lparr>k_mem = ka_new m, k_fs = fs_new disk, k_tab = ptable_new, k_files = Map.empty, k_pipes = Map.empty,
      k_devs = device_list_uninit, k_con = console_new, k_uart = uart_new, k_port = v, k_ticks = 0\<rparr>"

definition power_on :: "hart_regs \<Rightarrow> usize \<Rightarrow> usize \<Rightarrow> pmem \<Rightarrow> (u32 \<Rightarrow> block) \<Rightarrow> 'v \<Rightarrow> 'd \<Rightarrow> 'p \<Rightarrow> 'c \<Rightarrow> ('v, 'd, 'p, 'c) boot" where
  "power_on r pc vec m disk v dv pv c =
     \<lparr>bt_regs = r, bt_scratch = timer_scratch_new, bt_clint = c, bt_started = False,
      bt_x = \<lparr>x_kern = kern_statics m disk v, x_hart = cpu_new, x_disk = disk_new, x_dport = dv, x_plic = pv,
        x_sepc = pc, x_stvec = vec, x_ssoft = False\<rparr>\<rparr>"

section \<open>The process table\<close>

definition kstack_of :: "nat \<Rightarrow> usize" where
  "kstack_of i = of_nat (2 ^ 38 - 8192 - (i + 1) * 69632)"

lemma kernel_stack_of:
  assumes "i < NPROC"
  shows "kernel_stack (of_nat i) = Inr (kstack_of i)" "unat (kstack_of i) = 2 ^ 38 - 8192 - (i + 1) * 69632"
proof -
  obtain a where a: "kernel_stack (of_nat i) = Inr a" "unat a = 2 ^ 38 - 8192 - (i + 1) * 69632"
    using kernel_stack_value [OF assms] by blast
  have "kstack_of i = of_nat (unat a)" unfolding kstack_of_def a(2) ..
  then have "kstack_of i = a" by simp
  with a show "kernel_stack (of_nat i) = Inr (kstack_of i)" "unat (kstack_of i) = 2 ^ 38 - 8192 - (i + 1) * 69632" by simp_all
qed

definition booted_proc :: "nat \<Rightarrow> inode process" where
  "booted_proc i = (process_new i)\<lparr>pr_data := (proc_data_new i)\<lparr>pd_kstack := kstack_of i\<rparr>\<rparr>"

lemma proc_init_new: "proc_init ptable_new = Inr (ptable_new\<lparr>pt_proc := map booted_proc [0..<NPROC]\<rparr>)"
proof -
  let ?t = "\<lambda>n. ptable_new\<lparr>pt_proc := map (\<lambda>i. if i < n then booted_proc i else process_new i) [0..<NPROC]\<rparr> :: inode ptable"
  have step: "foldR proc_init_one [0..<n] ptable_new = Inr (?t n)" if "n \<le> NPROC" for n
    using that
  proof (induction n)
    case 0
    then show ?case by (simp add: ptable_new_def)
  next
    case (Suc n)
    have "(map (\<lambda>i. if i < n then booted_proc i else process_new i) [0..<NPROC])[n := booted_proc n] =
        map (\<lambda>i. if i < Suc n then booted_proc i else process_new i) [0..<NPROC]"
      using Suc.prems by (intro nth_equalityI) (auto simp: nth_list_update less_Suc_eq)
    moreover have "proc_init_one n (?t n) = Inr (?t n\<lparr>pt_proc := (pt_proc (?t n))[n := booted_proc n]\<rparr>)"
      using Suc.prems kernel_stack_of(1) [of n]
      by (simp add: proc_init_one_def upd_data_def get_proc_def idx_get_def booted_proc_def process_new_def proc_data_new_def)
    ultimately show ?case using Suc by (simp add: foldR_append)
  qed
  have "map (\<lambda>i. if i < NPROC then booted_proc i else process_new i) [0..<NPROC] = map booted_proc [0..<NPROC]" by simp
  then show ?thesis using step [of NPROC] by (simp add: proc_init_def) (simp add: ptable_new_def)
qed

section \<open>Device initialization\<close>

lemma disk_init_ok:
  assumes "disk_probe rd v" "of_nat NUM \<le> rd VIRTIO_MMIO_QUEUE_NUM_MAX (disk_negotiate rd wr v)" "unat self < 0x180000000" "disk_ok d"
  shows "\<exists>d' v'. disk_init rd wr self d v = Inr (d', v') \<and> disk_ok d'"
proof -
  have "rd VIRTIO_MMIO_QUEUE_NUM_MAX (disk_negotiate rd wr v) \<noteq> 0" using assms(2) by (auto simp: NUM_def)
  moreover have "unat (drop_bit PGSHIFT self) < 2 ^ 32"
    using assms(3) by (simp add: PGSHIFT_def unat_drop_bit_eq drop_bit_eq_div unat_div less_mult_imp_div_less)
  ultimately show ?thesis using assms(1,2,4) by (simp add: disk_init_def guardR_def Let_def disk_ok_def)
qed

lemma console_init_ok:
  "\<exists>k'. console_init b (kern_statics m disk v) = Inr k' \<and> k_mem k' = ka_new m \<and> k_fs k' = fs_new disk \<and> k_tab k' = ptable_new \<and>
     (kern_typed (kern_statics m disk v) \<longrightarrow> kern_typed k')"
proof -
  let ?k = "kern_statics m disk v"
  let ?ds = "device_list_uninit[CONSOLE := (device_list_uninit ! CONSOLE)\<lparr>dv_write := Some ConsoleWrite, dv_read := Some ConsoleRead\<rparr>]"
  have l: "length device_list_uninit = NDEV" "CONSOLE < NDEV" by (simp_all add: device_list_uninit_def CONSOLE_def NDEV_def)
  then have "console_init b ?k = Inr (?k\<lparr>k_port := uart_init (m_wr (b_mc b)) v, k_devs := ?ds\<rparr>)"
    by (simp add: console_init_def console_register_def idx_get_def kern_statics_def)
  moreover have "kern_typed (?k\<lparr>k_port := uart_init (m_wr (b_mc b)) v, k_devs := ?ds\<rparr>)" if "kern_typed ?k"
    using that l unfolding kern_typed_def by simp
  ultimately show ?thesis by (auto simp: kern_statics_def)
qed

lemma statics_typed: "\<forall>n. length (disk n) = BSIZE \<Longrightarrow> kern_typed (kern_statics m disk v)"
  using tab_typed_new typed_new [of disk] unfolding kern_typed_def
  by (simp add: kern_statics_def device_list_uninit_def console_new_def uart_new_def)

lemma plic_start_ok: "\<exists>v. plic_start b 0 x = Inr (x\<lparr>x_plic := v\<rparr>)"
  by (simp add: plic_start_def plic_init_hart_def PLIC_SENABLE_def PLIC_SPRIORITY_def hart_reg_def PLIC_BASE_def Let_def) blast

lemma timer_init_ok:
  assumes "unat (fst (rd CLINT_MTIME (bt_clint st))) + 1000000 < 2 ^ 64" "length (bt_scratch st) = NCPU"
  shows "\<exists>c' sc. timer_init rd wr im 0 st = Inr (st\<lparr>bt_clint := c', bt_scratch := sc,
      bt_regs := (bt_regs st)\<lparr>h_mscratch := im_scratch im, h_mtvec := im_timervec im, h_mie := True, h_mtimer := True\<rparr>\<rparr>)"
proof -
  let ?c = "wr CLINT_MTIMECMP (fst (rd CLINT_MTIME (bt_clint st)) + TIMER_INTERVAL) (snd (rd CLINT_MTIME (bt_clint st)))"
  have "add_mtimecmp rd wr 0 TIMER_INTERVAL (bt_clint st) = Inr ?c"
    using assms(1) by (simp add: add_mtimecmp_def add_ck_def TIMER_INTERVAL_def case_prod_unfold CLINT_MTIMECMP_def CLINT_def Let_def)
  moreover have "count_mtimecmp 0 = Inr (CLINT + 0x4000)" by (simp add: count_mtimecmp_def CLINT_def)
  ultimately have "timer_init rd wr im 0 st = Inr (st\<lparr>bt_clint := ?c,
      bt_scratch := (bt_scratch st)[0 := (bt_scratch st ! 0)[3 := CLINT + 0x4000, 4 := TIMER_INTERVAL]],
      bt_regs := (bt_regs st)\<lparr>h_mscratch := im_scratch im, h_mtvec := im_timervec im, h_mie := True, h_mtimer := True\<rparr>\<rparr>)"
    using assms(2) by (simp add: timer_init_def idx_get_def NCPU_def)
  then show ?thesis by blast
qed

text \<open>The timer interrupt moves the register that was armed, by the interval it was armed with.\<close>

lemma timer_rearms:
  assumes "timer_init rd wr im hart st = Inr st'" "\<forall>sc\<in>set (bt_scratch st). length sc = 5"
  shows "timervec rd wr (bt_scratch st' ! unat hart) c =
    (let (t, c) = rd (CLINT_MTIMECMP + 8 * hart) c in (True, wr (CLINT_MTIMECMP + 8 * hart) (t + TIMER_INTERVAL) c))"
proof -
  obtain sc a where s: "idx_get (bt_scratch st) (unat hart) = Inr sc" "count_mtimecmp hart = Inr a"
    "bt_scratch st' = (bt_scratch st)[unat hart := sc[3 := a, 4 := TIMER_INTERVAL]]"
    using assms(1) by (auto simp: timer_init_def outcome_simps)
  have "unat hart < length (bt_scratch st)" "length sc = 5" using s(1) assms(2) by (auto simp: idx_get_def split: if_splits)
  moreover have "a = CLINT_MTIMECMP + 8 * hart" using s(2) by (auto simp: count_mtimecmp_def CLINT_MTIMECMP_def algebra_simps split: if_splits)
  ultimately show ?thesis using s(3) by (simp add: timervec_def)
qed

lemma start_ok:
  assumes "unat (fst (rd CLINT_MTIME (bt_clint st))) + 1000000 < 2 ^ 64" "length (bt_scratch st) = NCPU"
  shows "\<exists>r sc c'. start rd wr im 0 st = Inr (st\<lparr>bt_clint := c', bt_scratch := sc, bt_regs := r\<rparr>) \<and> h_tp r = 0 \<and>
    h_mpp r = Supervisor \<and> h_mepc r = im_rust_main im"
proof -
  let ?r = "(bt_regs st)\<lparr>h_mpp := Supervisor, h_mepc := im_rust_main im, h_satp := 0, h_medeleg := 0xffff, h_mideleg := 0xffff,
            h_sext := True, h_ssoft := True, h_stimer := True, h_pmpaddr0 := 0x3fffffffffffff,
            h_pmp0 := (PmpTor, (True, True, True), False)\<rparr>"
  let ?r' = "?r\<lparr>h_mscratch := im_scratch im, h_mtvec := im_timervec im, h_mie := True, h_mtimer := True, h_tp := 0\<rparr>"
  obtain c' sc where "timer_init rd wr im 0 (st\<lparr>bt_regs := ?r\<rparr>) = Inr (st\<lparr>bt_clint := c', bt_scratch := sc,
      bt_regs := ?r\<lparr>h_mscratch := im_scratch im, h_mtvec := im_timervec im, h_mie := True, h_mtimer := True\<rparr>\<rparr>)"
    using timer_init_ok [of rd "st\<lparr>bt_regs := ?r\<rparr>" wr im] assms by auto
  then have "start rd wr im 0 st = Inr (st\<lparr>bt_clint := c', bt_scratch := sc, bt_regs := ?r'\<rparr>)"
    by (simp add: start_def)
  then show ?thesis by (intro exI [of _ ?r'] exI [of _ sc] exI [of _ c']) simp
qed

lemma kpage_same: "pt_same m m' root \<Longrightarrow> kpage m' root = kpage m root"
proof
  fix v assume same: "pt_same m m' root"
  have "hmap m' root v = hmap m root v"
  proof (cases "v < 2 ^ 27 \<and> node m root [vtop v] \<noteq> None")
    case True
    then obtain x where x: "node m root [vtop v] = Some x" by auto
    have v: "vtop v < 512" "vmid v < 512" using True by (simp_all add: vtop_def vmid_def)
    have "load64 m' (unat x + 8 * vmid v) = load64 m (unat x + 8 * vmid v)"
      using pt_sameD [OF same, of "[vtop v]" x "vmid v"] v x by (simp add: path_ok_def)
    then show ?thesis using x pt_same_node [OF same, of "[vtop v]"] v by (simp add: hmap_def path_ok_def)
  next
    case False
    then show ?thesis using pt_same_node [OF same, of "[vtop v]"] by (auto simp: hmap_def path_ok_def vtop_def split: option.splits)
  qed
  then show "kpage m' root v = kpage m root v" by (intro kpage_cong) (simp_all add: pt_same_vmap [OF same])
qed

section \<open>The first hart\<close>

lemma proc_init_types [THEN okRD, types]: "okR (tab_keeps (t :: inode ptable)) (proc_init t)"
proof -
  have "tab_keeps t t'" if "proc_init_one i t = Inr t'" for i and t t' :: "inode ptable"
    using that upd_data_typed [of t i "\<lambda>d. d\<lparr>pd_open_files := replicate NFILE None, pd_kstack := ks\<rparr>" for ks]
    by (auto simp: proc_init_one_def outcome_simps okR_def data_typed_def)
  then show ?thesis unfolding proc_init_def by (rule foldR_ok) (auto intro: tab_keeps_trans)
qed

lemma user_init_types [THEN okRD, types]: "okR (kern_keeps k) (user_init mc k)"
proof -
  have upd: "tab_keeps t t'" if "upd_data i (\<lambda>d. (set_name nm d)\<lparr>pd_size := n, pd_cwd := c\<rparr>) t = Inr t'" for i nm n c and t t' :: "inode ptable"
    using that upd_data_typed [of t i "\<lambda>d. (set_name nm d)\<lparr>pd_size := n, pd_cwd := c\<rparr>"]
    by (auto simp: okR_def data_typed_def set_name_def Let_def)
  have ini: "tab_typed (t\<lparr>pt_init_proc := j\<rparr>) \<longleftrightarrow> tab_typed t" for j and t :: "inode ptable" by (simp add: tab_typed_def)
  show ?thesis unfolding user_init_def
    by (intro okR_intros) (auto simp: keeps ini dest!: upd types)
qed

text \<open>The first process as the scheduler finds it: runnable, in the root directory, with the initial program
  in its first page, a stack over a guard page, the trapframe and the trampoline, to be entered at zero
  with the stack pointer at the end of the stack; every other entry of the table is unused.\<close>

definition init_ready :: "usize \<Rightarrow> 'v kern \<Rightarrow> bool" where
  "init_ready trampoline k \<longleftrightarrow> (\<exists>tf root code stack guard.
     (let p = pt_proc (k_tab k) ! 0; m = k_mem k in
        pm_state (pr_meta p) = Runnable \<and> pd_trapframe (pr_data p) = tf \<and> pd_pagetable (pr_data p) = Some root \<and>
        pd_cwd (pr_data p) = Some root_inode \<and>
        vmap (pmem m) root = init_space code stack guard
          [0x3FFFFFF \<mapsto> write_perm trampoline PTE_RX, 0x3FFFFFE \<mapsto> write_perm tf PTE_RW] \<and>
        load_bytes (pmem m) (unat code) 4096 = INITCODE @ replicate (4096 - length INITCODE) 0 \<and>
        tf_get tf TF_EPC m = 0 \<and> tf_get tf TF_SP m = TRAPFRAME)) \<and>
     pt_init_proc (k_tab k) = Some 0 \<and> length (pt_proc (k_tab k)) = NPROC \<and>
     (\<forall>i. 0 < i \<and> i < NPROC \<longrightarrow> pm_state (pr_meta (pt_proc (k_tab k) ! i)) = Unused)"

lemma user_init_first:
  fixes k :: "'v kern"
  assumes "ka_inv hs ps (k_mem k)" "15 \<le> length ps" "ram_page (m_trampoline mc)" "k_fs k = fs_new disk"
    and "k_tab k = ptable_new\<lparr>pt_proc := map booted_proc [0..<NPROC]\<rparr>"
  shows "\<exists>k'. user_init mc k = Inr k' \<and> init_ready (m_trampoline mc) k' \<and>
    same_pages {y. ram_page y \<and> y \<notin> set ps} (k_mem k) (k_mem k')"
proof -
  have l: "[0..<NPROC] = 0 # [1..<NPROC]" by (simp add: NPROC_def upt_conv_Cons)
  have first: "find_state (\<lambda>st. st = Unused) (pt_proc (k_tab k)) 0 = Some 0"
    unfolding assms(5) l by (simp add: booted_proc_def process_new_def proc_meta_new_def)
  have p: "0 < length (pt_proc (k_tab k))" "pt_proc (k_tab k) ! 0 = booted_proc 0" by (simp_all add: assms(5) NPROC_def)
  have ks: "unat (kstack_of 0) = 2 ^ 38 - 8192 - 69632" using kernel_stack_of(2) [of 0] by (simp add: NPROC_def)
  have "pd_kstack (pr_data (booted_proc 0)) = kstack_of 0" by (simp add: booted_proc_def)
  then obtain sp where sp: "add_ck (pd_kstack (pr_data (booted_proc 0))) STACK_SIZE = Inr sp"
    using ks by (simp add: add_ck_def layout_defs)
  have data: "pd_pagetable (pr_data (booted_proc 0)) = None" "pd_id (pr_data (booted_proc 0)) = 0" "pd_cwd (pr_data (booted_proc 0)) = None"
    "0 < length (pt_idx_pids (k_tab k))" "pt_init_proc (k_tab k) = None"
    by (simp_all add: booted_proc_def proc_data_new_def assms(5) ptable_new_def NPROC_def)
  let ?t = "k_tab k"
  obtain tf root code stack guard ps' m where u: "user_init mc k = Inr (k\<lparr>k_mem := m, k_fs := fs_rooted disk,
      k_tab := ?t\<lparr>pt_pids := pt_pids ?t + 1, pt_idx_pids := (pt_idx_pids ?t)[0 := pt_pids ?t],
        pt_proc := (pt_proc ?t)[0 := first_proc (allocated (pt_pids ?t) tf root (m_fork_ret mc) sp (booted_proc 0))], pt_init_proc := Some 0\<rparr>\<rparr>)"
    "same_pages {y. ram_page y \<and> y \<notin> set ps} (k_mem k) m"
    "vmap (pmem m) root = init_space code stack guard
      [0x3FFFFFF \<mapsto> write_perm (m_trampoline mc) PTE_RX, 0x3FFFFFE \<mapsto> write_perm tf PTE_RW]"
    "load_bytes (pmem m) (unat code) 4096 = INITCODE @ replicate (4096 - length INITCODE) 0"
    "tf_get tf TF_EPC m = 0" "tf_get tf TF_SP m = TRAPFRAME"
    using user_init_ok [OF assms(1,2) _ assms(3) first p data(1,2,4) sp data(3) assms(4) data(5), of "{y. ram_page y \<and> y \<notin> set ps}"]
    unfolding usp_def by auto
  have len: "length (pt_proc ?t) = NPROC" "0 < NPROC" by (simp_all add: assms(5) NPROC_def)
  have other: "pm_state (pr_meta (pt_proc ?t ! i)) = Unused" if "i < NPROC" for i
    using that by (simp add: assms(5) booted_proc_def process_new_def proc_meta_new_def)
  have "init_ready (m_trampoline mc) (k\<lparr>k_mem := m, k_fs := fs_rooted disk,
      k_tab := ?t\<lparr>pt_pids := pt_pids ?t + 1, pt_idx_pids := (pt_idx_pids ?t)[0 := pt_pids ?t],
        pt_proc := (pt_proc ?t)[0 := first_proc (allocated (pt_pids ?t) tf root (m_fork_ret mc) sp (booted_proc 0))], pt_init_proc := Some 0\<rparr>\<rparr>)"
    unfolding init_ready_def Let_def
    using u(3-6) len other by (auto simp: first_proc_def allocated_def set_name_def set_state_def Let_def)
  with u(1,2) show ?thesis by fastforce
qed

lemma scheduler_picks_first:
  assumes "init_ready trampoline k" "c_noff h = 0"
  shows "\<exists>h' t. scheduler_pick h (k_tab k) = Inr (h', t) \<and> c_process h' = Some 0 \<and> pm_state (pr_meta (pt_proc t ! 0)) = Running"
proof -
  have len: "0 < length (pt_proc (k_tab k))" using assms(1) by (simp add: init_ready_def NPROC_def)
  then obtain p ps where p: "pt_proc (k_tab k) = p # ps" by (cases "pt_proc (k_tab k)") auto
  have "pm_state (pr_meta p) = Runnable" using assms(1) p by (auto simp: init_ready_def Let_def)
  then have "find_state (\<lambda>st. st = Runnable) (pt_proc (k_tab k)) 0 = Some 0" using p by simp
  then show ?thesis using p assms(2)
    by (auto simp: scheduler_pick_def seek_runnable_def scheduler_run_def upd_meta_def get_proc_def idx_get_def push_off_def usize_inc_def
        intr_on_def intr_off_def set_state_def Let_def)
qed

lemma main_first_ok:
  fixes b :: "('v, 'd, 'p) board" and im :: image and st :: "('v, 'd, 'p, 'c) boot"
  defines "trampoline \<equiv> m_trampoline (b_mc b)" and "x \<equiv> bt_x st"
  assumes im: "unat (im_etext im) = 4096 * e" "0x80000 < e" "unat (im_etext im) \<le> unat (im_kpt im)" "unat (im_kpt im) mod 4096 = 0"
      "unat (im_kpt im) + 4096 \<le> unat (im_end im)" "unat (im_end im) \<le> 0x17F000000"
      "unat trampoline mod 4096 = 0" "unat trampoline < unat (im_etext im)" "\<forall>j<512. load64 m (unat (im_kpt im) + 8 * j) = 0"
    and tr: "0x80000000 \<le> unat trampoline" and disk_at: "unat (im_disk im) < 0x180000000"
    and dev: "disk_probe (b_drd b) (x_dport x)"
      "of_nat NUM \<le> b_drd b VIRTIO_MMIO_QUEUE_NUM_MAX (disk_negotiate (b_drd b) (b_dwr b) (x_dport x))"
    and x: "x_kern x = kern_statics m disk v" "x_disk x = disk_new" "x_hart x = cpu_new" "h_tp (bt_regs st) = 0"
    and blocks: "\<forall>n. length (disk n) = BSIZE"
  shows "\<exists>st' frame. main_first b im st = Inr st' \<and> bt_regs st' = (bt_regs st)\<lparr>h_satp := as_satp (im_kpt im)\<rparr> \<and> bt_started st' \<and>
    x_stvec (bt_x st') = b_kernelvec b \<and> x_hart (bt_x st') = intr_on cpu_new \<and>
    kpage (pmem (k_mem (x_kern (bt_x st')))) (im_kpt im) = kernel_space (im_etext im) trampoline frame \<and>
    init_ready trampoline (x_kern (bt_x st')) \<and> trap_typed (bt_x st')"
proof -
  obtain k1 where k1: "console_init b (x_kern x) = Inr k1" "k_mem k1 = ka_new m" "k_fs k1 = fs_new disk" "k_tab k1 = ptable_new" "kern_typed k1"
    using console_init_ok [of b m disk v] statics_typed [OF blocks, of m v] x(1) by auto
  obtain hs s1 frame ps s2 where s: "ka_init (im_end im) (ka_new m) = Inr s1" "kernel_map (im_kpt im) (im_etext im) trampoline s1 = Inr s2"
    "kinv hs (ktables (im_etext im)) 64 (im_kpt im) ps s2" "kpage (pmem s2) (im_kpt im) = kernel_space (im_etext im) trampoline frame"
    using kernel_map_boot [OF im] by blast
  let ?t = "ptable_new\<lparr>pt_proc := map booted_proc [0..<NPROC]\<rparr>"
  let ?k = "k1\<lparr>k_mem := s2, k_tab := ?t\<rparr>"
  let ?x = "trap_init_hart b (x\<lparr>x_kern := ?k\<rparr>)"
  obtain pv where pv: "plic_start b 0 ?x = Inr (?x\<lparr>x_plic := pv\<rparr>)" using plic_start_ok [of b ?x] by blast
  have "disk_ok disk_new" by (simp add: disk_ok_def disk_new_def)
  then obtain d dv where d: "disk_init (b_drd b) (b_dwr b) (im_disk im) disk_new (x_dport x) = Inr (d, dv)" "disk_ok d"
    using disk_init_ok [OF dev disk_at] by blast
  have free: "ka_inv hs ps s2" "15 \<le> length ps" "wf_tree (pmem s2) (im_kpt im)" "pt_pages (pmem s2) (im_kpt im) \<inter> set ps = {}"
    using s(3) by (simp_all add: kinv_def)
  have "ram_page trampoline" using im(6-8) im(3,5) tr by (simp add: ram_page_def)
  then obtain k2 where k2: "user_init (b_mc b) ?k = Inr k2" "init_ready trampoline k2" "same_pages {y. ram_page y \<and> y \<notin> set ps} s2 (k_mem k2)"
    using user_init_first [of hs ps ?k "b_mc b" disk] free k1(3) by (auto simp: trampoline_def)
  have "pt_same (pmem s2) (pmem (k_mem k2)) (im_kpt im)"
  proof (rule pt_sameI)
    fix y assume "y \<in> pt_pages (pmem s2) (im_kpt im)"
    then have "y \<in> {y. ram_page y \<and> y \<notin> set ps}" using free(4) wf_tree_ram [OF free(3)] by auto
    then show "load_bytes (pmem (k_mem k2)) (unat y) 4096 = load_bytes (pmem s2) (unat y) 4096" using k2(3) unfolding same_pages_def by blast
  qed
  then have map: "kpage (pmem (k_mem k2)) (im_kpt im) = kernel_space (im_etext im) trampoline frame" using kpage_same s(4) by metis
  have "tab_keeps ptable_new ?t" using proc_init_types proc_init_new by blast
  then have "kern_typed ?k" using k1(5) tab_typed_new [where 'a = inode] by (simp add: tab_keeps_def)
  then have typed: "kern_typed k2" using user_init_types [OF k2(1)] by (simp add: kern_keeps_def)
  let ?st = "st\<lparr>bt_regs := kernel_map_init_hart (im_kpt im) (bt_regs st), bt_started := True,
      bt_x := (?x\<lparr>x_plic := pv\<rparr>)\<lparr>x_kern := k2, x_hart := intr_on (x_hart ?x), x_disk := d, x_dport := dv\<rparr>\<rparr>"
  have "main_first b im st = Inr ?st"
    using k1 s(1,2) pv d(1) k2(1) x(2,4) proc_init_new
    by (simp add: main_first_def x_def [symmetric] trampoline_def kernel_map_init_hart_def trap_init_hart_def)
  then show ?thesis using map k2(2) typed d(2) x(3)
    by (intro exI [of _ ?st] exI [of _ frame]) (simp add: kernel_map_init_hart_def trap_init_hart_def trap_typed_def)
qed

section \<open>Property\<close>

text \<open>C3. The machine boots: for every image that leaves sixteen megabytes of memory, with page-aligned
  sections and a zero-filled kernel page table, and a disk that answers as the driver expects, the first
  hart gets from reset to the scheduler without a panic.  It is then in supervisor mode under the
  kernel's address space with the trap handler installed, the kernel state is typed, the first process
  is ready to run the initial program in the address space built for it, and the scheduler picks it.\<close>

theorem boot_runs_first_process:
  fixes b :: "('v, 'd, 'p) board"
  defines "trampoline \<equiv> m_trampoline (b_mc b)"
  assumes "unat (im_etext im) = 4096 * e" "0x80000 < e" "unat (im_etext im) \<le> unat (im_kpt im)" "unat (im_kpt im) mod 4096 = 0"
    and "unat (im_kpt im) + 4096 \<le> unat (im_end im)" "unat (im_end im) \<le> 0x17F000000"
    and "unat trampoline mod 4096 = 0" "unat trampoline < unat (im_etext im)" "\<forall>j<512. load64 m (unat (im_kpt im) + 8 * j) = 0"
    and "0x80000000 \<le> unat trampoline" "unat (im_disk im) < 0x180000000"
    and "disk_probe (b_drd b) dv" "of_nat NUM \<le> b_drd b VIRTIO_MMIO_QUEUE_NUM_MAX (disk_negotiate (b_drd b) (b_dwr b) dv)"
    and "unat (fst (rd CLINT_MTIME c)) + 1000000 < 2 ^ 64" "\<forall>n. length (disk n) = BSIZE"
  shows "\<exists>st frame h t. boot_first rd wr b im (power_on r pc vec m disk v dv pv c) = Inr (Some st) \<and>
    h_mpp (bt_regs st) = Supervisor \<and> h_satp (bt_regs st) = as_satp (im_kpt im) \<and> x_stvec (bt_x st) = b_kernelvec b \<and>
    kpage (pmem (k_mem (x_kern (bt_x st)))) (im_kpt im) = kernel_space (im_etext im) trampoline frame \<and>
    trap_typed (bt_x st) \<and> init_ready trampoline (x_kern (bt_x st)) \<and>
    scheduler_pick (x_hart (bt_x st)) (k_tab (x_kern (bt_x st))) = Inr (h, t) \<and> c_process h = Some 0"
proof -
  let ?p = "power_on r pc vec m disk v dv pv c"
  have "unat (fst (rd CLINT_MTIME (bt_clint ?p))) + 1000000 < 2 ^ 64" "length (bt_scratch ?p) = NCPU"
    using assms(15) by (simp_all add: power_on_def timer_scratch_new_def)
  then obtain r1 sc c1 where s: "start rd wr im 0 ?p = Inr (?p\<lparr>bt_clint := c1, bt_scratch := sc, bt_regs := r1\<rparr>)" "h_tp r1 = 0" "h_mpp r1 = Supervisor"
    using start_ok [of rd ?p wr im] by blast
  let ?s = "?p\<lparr>bt_clint := c1, bt_scratch := sc, bt_regs := r1\<rparr>"
  have x: "x_kern (bt_x ?s) = kern_statics m disk v" "x_disk (bt_x ?s) = disk_new" "x_hart (bt_x ?s) = cpu_new" "h_tp (bt_regs ?s) = 0"
    "x_dport (bt_x ?s) = dv" using s(2) by (simp_all add: power_on_def)
  obtain st frame where st: "main_first b im ?s = Inr st" "bt_regs st = (bt_regs ?s)\<lparr>h_satp := as_satp (im_kpt im)\<rparr>"
    "x_stvec (bt_x st) = b_kernelvec b" "x_hart (bt_x st) = intr_on cpu_new"
    "kpage (pmem (k_mem (x_kern (bt_x st)))) (im_kpt im) = kernel_space (im_etext im) trampoline frame"
    "init_ready trampoline (x_kern (bt_x st))" "trap_typed (bt_x st)"
    using main_first_ok [OF assms(2-7) assms(8-10) [unfolded trampoline_def] assms(11) [unfolded trampoline_def] assms(12) _ _ x(1-4) assms(16)]
      x(5) assms(13,14) unfolding trampoline_def by auto
  have "c_noff (x_hart (bt_x st)) = 0" using st(4) by (simp add: intr_on_def cpu_new_def)
  then obtain h t where h: "scheduler_pick (x_hart (bt_x st)) (k_tab (x_kern (bt_x st))) = Inr (h, t)" "c_process h = Some 0"
    using scheduler_picks_first [OF st(6)] by blast
  have "boot_first rd wr b im ?p = Inr (Some st)" using s(1) st(1) x(4) by (simp add: boot_first_def rust_main_def)
  then show ?thesis using st h s(3) by auto
qed

text \<open>A machine with a disk.\<close>

definition disk_board :: "(unit, unit, unit) board" where
  "disk_board = demo_board\<lparr>b_mc := (b_mc demo_board)\<lparr>m_trampoline := 0x80001000\<rparr>, b_drd := (\<lambda>a _.
     if a = VIRTIO_MMIO_MAGIC_VALUE then 0x74726976 else if a = VIRTIO_MMIO_VERSION then 1 else if a = VIRTIO_MMIO_DEVICE_ID then 2
     else if a = VIRTIO_MMIO_VENDOR_ID then 0x554d4551 else if a = VIRTIO_MMIO_QUEUE_NUM_MAX then 1024 else 0)\<rparr>"

definition demo_image :: image where
  "demo_image = \<lparr>im_end = 0x80400000, im_etext = 0x80200000, im_kpt = 0x80300000, im_rust_main = 0x80002000, im_timervec = 0x80003000,
     im_scratch = 0x80302000, im_disk = 0x80310000\<rparr>"

definition demo_regs :: hart_regs where
  "demo_regs = \<lparr>h_mpp = Machine, h_mepc = 0, h_satp = 0, h_medeleg = 0, h_mideleg = 0, h_sext = False, h_ssoft = False, h_stimer = False,
     h_pmpaddr0 = 0, h_pmp0 = (PmpOff, (False, False, False), False), h_mscratch = 0, h_mtvec = 0, h_mie = False, h_mtimer = False, h_tp = 0\<rparr>"

theorem boot_runs_first_process_witness:
  "\<exists>st h t. boot_first (\<lambda>_ c. (0, c)) (\<lambda>_ _ c. c) disk_board demo_image
       (power_on demo_regs 0 0 (\<lambda>_. 0) (\<lambda>_. replicate BSIZE 0) () () () ()) = Inr (Some st) \<and>
     scheduler_pick (x_hart (bt_x st)) (k_tab (x_kern (bt_x st))) = Inr (h, t) \<and> c_process h = Some 0"
proof -
  have "disk_probe (b_drd disk_board) ()" "of_nat NUM \<le> b_drd disk_board VIRTIO_MMIO_QUEUE_NUM_MAX v" for v
    by (simp_all add: disk_probe_def disk_board_def NUM_def VIRTIO_MMIO_MAGIC_VALUE_def VIRTIO_MMIO_VERSION_def VIRTIO_MMIO_DEVICE_ID_def
        VIRTIO_MMIO_VENDOR_ID_def VIRTIO_MMIO_QUEUE_NUM_MAX_def)
  moreover have "m_trampoline (b_mc disk_board) = 0x80001000" by (simp add: disk_board_def)
  moreover have "load64 (\<lambda>_. 0) a = 0" for a by (simp add: load64_def load_bytes_def upt_rec)
  ultimately show ?thesis
    using boot_runs_first_process [of demo_image "0x80200" disk_board "\<lambda>_. 0" "()" "\<lambda>_ c. (0, c)" "()" "\<lambda>_. replicate BSIZE 0" "\<lambda>_ _ c. c" demo_regs 0 0 "()" "()"]
    by (auto simp: demo_image_def)
qed

end
