(* ===== verification/Rx_Asm.thy ===== *)
theory Rx_Asm
  imports Rx_Boot
begin

text \<open>
  The assembly code of \<^verbatim>\<open>asm/\<close>: the instructions it uses, executed on the registers of a hart, and its
  routines as lists of instructions: the way between user and kernel mode (\<^verbatim>\<open>trampoline.S\<close>), the context
  switch (\<^verbatim>\<open>switch.S\<close>), the entry of traps from the kernel and of timer interrupts (\<^verbatim>\<open>kernelvec.S\<close>) and the
  first instructions after reset (\<^verbatim>\<open>entry.S\<close>).  Memory is what the hart sees through the page table in
  use: \<^verbatim>\<open>uservec\<close> uses it only before it changes the page table and \<^verbatim>\<open>userret\<close> only afterwards, so both work
  on the memory of the process.
\<close>

section \<open>Instructions\<close>

datatype reg = Ra | Sp | Gp | Tp | T0 | T1 | T2 | T3 | T4 | T5 | T6
  | S0 | S1 | S2 | S3 | S4 | S5 | S6 | S7 | S8 | S9 | S10 | S11
  | A0 | A1 | A2 | A3 | A4 | A5 | A6 | A7

datatype csr = Sscratch | Sepc | Satp | Mscratch | Mepc | Mhartid | Sip

datatype instr = Sd reg usize reg | Ld reg usize reg | Csrrw reg csr reg | Csrr reg csr | Csrw csr reg
  | Addi reg reg usize | Add reg reg reg | Mul reg reg reg | Li reg usize | La reg usize | SfenceVma
  | Jr reg | Sret | Mret

text \<open>\<open>g_pc\<close> is where the last transfer of control goes. The return instructions also restore the status
  register, which the handlers have prepared.\<close>

record asm_state =
  g_reg :: "reg \<Rightarrow> usize"
  g_csr :: "csr \<Rightarrow> usize"
  g_mem :: pmem
  g_pc :: usize

fun exec_instr :: "instr \<Rightarrow> asm_state \<Rightarrow> asm_state" where
  "exec_instr (Sd r off b) s = s\<lparr>g_mem := store64 (g_mem s) (unat (g_reg s b + off)) (g_reg s r)\<rparr>"
| "exec_instr (Ld r off b) s = s\<lparr>g_reg := (g_reg s)(r := load64 (g_mem s) (unat (g_reg s b + off)))\<rparr>"
| "exec_instr (Csrrw d c r) s = s\<lparr>g_csr := (g_csr s)(c := g_reg s r), g_reg := (g_reg s)(d := g_csr s c)\<rparr>"
| "exec_instr (Csrr d c) s = s\<lparr>g_reg := (g_reg s)(d := g_csr s c)\<rparr>"
| "exec_instr (Csrw c r) s = s\<lparr>g_csr := (g_csr s)(c := g_reg s r)\<rparr>"
| "exec_instr (Addi d r n) s = s\<lparr>g_reg := (g_reg s)(d := g_reg s r + n)\<rparr>"
| "exec_instr (Add d r r') s = s\<lparr>g_reg := (g_reg s)(d := g_reg s r + g_reg s r')\<rparr>"
| "exec_instr (Mul d r r') s = s\<lparr>g_reg := (g_reg s)(d := g_reg s r * g_reg s r')\<rparr>"
| "exec_instr (Li d n) s = s\<lparr>g_reg := (g_reg s)(d := n)\<rparr>"
| "exec_instr (La d a) s = s\<lparr>g_reg := (g_reg s)(d := a)\<rparr>"
| "exec_instr SfenceVma s = s"
| "exec_instr (Jr r) s = s\<lparr>g_pc := g_reg s r\<rparr>"
| "exec_instr Sret s = s\<lparr>g_pc := g_csr s Sepc\<rparr>"
| "exec_instr Mret s = s\<lparr>g_pc := g_csr s Mepc\<rparr>"

definition run_code :: "instr list \<Rightarrow> asm_state \<Rightarrow> asm_state" where
  "run_code = fold exec_instr"

section \<open>The routines\<close>

definition uservec :: "instr list" where
  "uservec = [
     Csrrw A0 Sscratch A0, Sd Ra 40 A0, Sd Sp 48 A0, Sd Gp 56 A0, Sd Tp 64 A0, Sd T0 72 A0, Sd T1 80 A0, Sd T2 88 A0,
     Sd S0 96 A0, Sd S1 104 A0, Sd A1 120 A0, Sd A2 128 A0, Sd A3 136 A0, Sd A4 144 A0, Sd A5 152 A0, Sd A6 160 A0,
     Sd A7 168 A0, Sd S2 176 A0, Sd S3 184 A0, Sd S4 192 A0, Sd S5 200 A0, Sd S6 208 A0, Sd S7 216 A0, Sd S8 224 A0,
     Sd S9 232 A0, Sd S10 240 A0, Sd S11 248 A0, Sd T3 256 A0, Sd T4 264 A0, Sd T5 272 A0, Sd T6 280 A0, Csrr T0 Sscratch,
     Sd T0 112 A0, Csrr T0 Sepc, Sd T0 24 A0, Ld Sp 8 A0, Ld Tp 32 A0, Ld T0 16 A0, Ld T1 0 A0, Csrw Satp T1, SfenceVma,
     Jr T0]"

definition userret :: "instr list" where
  "userret = [
     Csrw Satp A1, SfenceVma, Ld T0 112 A0, Csrw Sscratch T0, Ld Ra 40 A0, Ld Sp 48 A0, Ld Gp 56 A0, Ld Tp 64 A0,
     Ld T0 72 A0, Ld T1 80 A0, Ld T2 88 A0, Ld S0 96 A0, Ld S1 104 A0, Ld A1 120 A0, Ld A2 128 A0, Ld A3 136 A0,
     Ld A4 144 A0, Ld A5 152 A0, Ld A6 160 A0, Ld A7 168 A0, Ld S2 176 A0, Ld S3 184 A0, Ld S4 192 A0, Ld S5 200 A0,
     Ld S6 208 A0, Ld S7 216 A0, Ld S8 224 A0, Ld S9 232 A0, Ld S10 240 A0, Ld S11 248 A0, Ld T3 256 A0, Ld T4 264 A0,
     Ld T5 272 A0, Ld T6 280 A0, Csrrw A0 Sscratch A0, Sret]"

definition switch :: "instr list" where
  "switch = [
     Sd Ra 0 A0, Sd Sp 8 A0, Sd S0 16 A0, Sd S1 24 A0, Sd S2 32 A0, Sd S3 40 A0, Sd S4 48 A0, Sd S5 56 A0, Sd S6 64 A0,
     Sd S7 72 A0, Sd S8 80 A0, Sd S9 88 A0, Sd S10 96 A0, Sd S11 104 A0, Ld Ra 0 A1, Ld Sp 8 A1, Ld S0 16 A1, Ld S1 24 A1,
     Ld S2 32 A1, Ld S3 40 A1, Ld S4 48 A1, Ld S5 56 A1, Ld S6 64 A1, Ld S7 72 A1, Ld S8 80 A1, Ld S9 88 A1, Ld S10 96 A1,
     Ld S11 104 A1, Jr Ra]"

text \<open>The entry of traps from the kernel, before and after the call of \<^verbatim>\<open>kernel_trap\<close>.\<close>

definition kernelvec_enter :: "instr list" where
  "kernelvec_enter = [
     Addi Sp Sp (-256), Sd Ra 0 Sp, Sd Sp 8 Sp, Sd Gp 16 Sp, Sd Tp 24 Sp, Sd T0 32 Sp, Sd T1 40 Sp, Sd T2 48 Sp,
     Sd S0 56 Sp, Sd S1 64 Sp, Sd A0 72 Sp, Sd A1 80 Sp, Sd A2 88 Sp, Sd A3 96 Sp, Sd A4 104 Sp, Sd A5 112 Sp,
     Sd A6 120 Sp, Sd A7 128 Sp, Sd S2 136 Sp, Sd S3 144 Sp, Sd S4 152 Sp, Sd S5 160 Sp, Sd S6 168 Sp, Sd S7 176 Sp,
     Sd S8 184 Sp, Sd S9 192 Sp, Sd S10 200 Sp, Sd S11 208 Sp, Sd T3 216 Sp, Sd T4 224 Sp, Sd T5 232 Sp, Sd T6 240 Sp]"

definition kernelvec_leave :: "instr list" where
  "kernelvec_leave = [
     Ld Ra 0 Sp, Ld Sp 8 Sp, Ld Gp 16 Sp, Ld T0 32 Sp, Ld T1 40 Sp, Ld T2 48 Sp, Ld S0 56 Sp, Ld S1 64 Sp, Ld A0 72 Sp,
     Ld A1 80 Sp, Ld A2 88 Sp, Ld A3 96 Sp, Ld A4 104 Sp, Ld A5 112 Sp, Ld A6 120 Sp, Ld A7 128 Sp, Ld S2 136 Sp,
     Ld S3 144 Sp, Ld S4 152 Sp, Ld S5 160 Sp, Ld S6 168 Sp, Ld S7 176 Sp, Ld S8 184 Sp, Ld S9 192 Sp, Ld S10 200 Sp,
     Ld S11 208 Sp, Ld T3 216 Sp, Ld T4 224 Sp, Ld T5 232 Sp, Ld T6 240 Sp, Addi Sp Sp 256, Sret]"

definition timervec_code :: "instr list" where
  "timervec_code = [
     Csrrw A0 Mscratch A0, Sd A1 0 A0, Sd A2 8 A0, Sd A3 16 A0, Ld A1 24 A0, Ld A2 32 A0, Ld A3 0 A1, Add A3 A3 A2,
     Sd A3 0 A1, Li A1 2, Csrw Sip A1, Ld A3 16 A0, Ld A2 8 A0, Ld A1 0 A0, Csrrw A0 Mscratch A0, Mret]"

text \<open>From reset to the call of \<^verbatim>\<open>start\<close>.\<close>

definition entry_code :: "usize \<Rightarrow> instr list" where
  "entry_code stack0 = [La Sp stack0, Li A0 0x4000, Csrr A1 Mhartid, Addi A1 A1 1, Mul A0 A0 A1, Add Sp Sp A0]"

section \<open>Blocks of stores and loads\<close>

definition saves :: "reg \<Rightarrow> (reg \<times> nat) list \<Rightarrow> instr list" where
  "saves b xs = map (\<lambda>(r, off). Sd r (of_nat off) b) xs"

definition loads :: "reg \<Rightarrow> (reg \<times> nat) list \<Rightarrow> instr list" where
  "loads b xs = map (\<lambda>(r, off). Ld r (of_nat off) b) xs"

text \<open>Slots of eight bytes in an area of \<open>n\<close> bytes.\<close>

definition slots :: "nat \<Rightarrow> (reg \<times> nat) list \<Rightarrow> bool" where
  "slots n xs \<longleftrightarrow> distinct (map snd xs) \<and> (\<forall>x\<in>set xs. snd x mod 8 = 0 \<and> snd x + 8 \<le> n)"

lemma run_append: "run_code (xs @ ys) s = run_code ys (run_code xs s)"
  by (simp add: run_code_def)

lemma run_simps [simp]: "run_code [] s = s" "run_code (x # xs) s = run_code xs (exec_instr x s)"
  by (simp_all add: run_code_def)

lemma slot_addr:
  assumes "unat f + n \<le> 2 ^ 64" "off + 8 \<le> n"
  shows "unat (f + of_nat off :: usize) = unat f + off"
  using assms by (simp add: unat_word_ariths unat_of_nat)

lemma slot_apart: "(a :: nat) mod 8 = 0 \<Longrightarrow> c mod 8 = 0 \<Longrightarrow> a \<noteq> c \<Longrightarrow> a + 8 \<le> c \<or> c + 8 \<le> a"
  by presburger

text \<open>A block of stores keeps the registers, fills its slots and leaves the rest of the memory.\<close>

lemma run_saves:
  assumes "slots n xs" "unat (g_reg s b) + n \<le> 2 ^ 64"
  shows "\<exists>m. run_code (saves b xs) s = s\<lparr>g_mem := m\<rparr> \<and>
    (\<forall>(r, off)\<in>set xs. load64 m (unat (g_reg s b) + off) = g_reg s r) \<and>
    (\<forall>off. off mod 8 = 0 \<and> off \<notin> snd ` set xs \<longrightarrow> load64 m (unat (g_reg s b) + off) = load64 (g_mem s) (unat (g_reg s b) + off)) \<and>
    (\<forall>x. x < unat (g_reg s b) \<or> unat (g_reg s b) + n \<le> x \<longrightarrow> m x = g_mem s x)"
  using assms
proof (induction xs arbitrary: s)
  case Nil
  then show ?case by (intro exI [of _ "g_mem s"]) (simp add: saves_def)
next
  case (Cons x xs)
  obtain r off where x: "x = (r, off)" by (cases x)
  let ?f = "unat (g_reg s b)"
  let ?s = "s\<lparr>g_mem := store64 (g_mem s) (?f + off) (g_reg s r)\<rparr>"
  have sl: "slots n xs" "off mod 8 = 0" "off + 8 \<le> n" "off \<notin> snd ` set xs" using Cons.prems(1) x by (auto simp: slots_def)
  have one: "exec_instr (Sd r (of_nat off) b) s = ?s" using slot_addr [OF Cons.prems(2) sl(3)] by simp
  have frame: "g_reg ?s = g_reg s" by simp
  have len: "unat (g_reg ?s b) + n \<le> 2 ^ 64" using Cons.prems(2) by simp
  obtain m where m: "run_code (saves b xs) ?s = ?s\<lparr>g_mem := m\<rparr>"
    "\<forall>(r, off)\<in>set xs. load64 m (?f + off) = g_reg s r"
    "\<forall>off. off mod 8 = 0 \<and> off \<notin> snd ` set xs \<longrightarrow> load64 m (?f + off) = load64 (g_mem ?s) (?f + off)"
    "\<forall>x. x < ?f \<or> ?f + n \<le> x \<longrightarrow> m x = g_mem ?s x"
    using Cons.IH [OF sl(1) len] unfolding frame by (elim exE conjE)
  have "load64 m (?f + off) = g_reg s r" using m(3) sl(2,4) by simp
  moreover have "load64 m (?f + o') = load64 (g_mem s) (?f + o')" if "o' mod 8 = 0" "o' \<notin> snd ` set (x # xs)" for o'
  proof -
    have "o' + 8 \<le> off \<or> off + 8 \<le> o'" using slot_apart [OF that(1) sl(2)] that(2) x by auto
    then show ?thesis using m(3) that x by (auto simp: mem_simps)
  qed
  moreover have "m y = g_mem s y" if "y < ?f \<or> ?f + n \<le> y" for y
    using m(4) that sl(3) by (auto simp: mem_simps)
  moreover have "run_code (saves b (x # xs)) s = s\<lparr>g_mem := m\<rparr>" using m(1) one x by (simp add: saves_def)
  ultimately show ?case using m(2) x by (intro exI [of _ m]) auto
qed

text \<open>A block of loads fills its registers; the base may be among them if it is loaded with itself.\<close>

lemma run_loads:
  assumes "distinct (map fst xs)" "\<forall>x\<in>set xs. snd x + 8 \<le> n" "unat (g_reg s b) + n \<le> 2 ^ 64"
    and "\<forall>off. (b, off) \<in> set xs \<longrightarrow> load64 (g_mem s) (unat (g_reg s b) + off) = g_reg s b"
  shows "run_code (loads b xs) s =
    s\<lparr>g_reg := \<lambda>r. case map_of xs r of None \<Rightarrow> g_reg s r | Some off \<Rightarrow> load64 (g_mem s) (unat (g_reg s b) + off)\<rparr>"
  using assms
proof (induction xs arbitrary: s)
  case Nil
  then show ?case by (simp add: loads_def)
next
  case (Cons x xs)
  obtain r off where x: "x = (r, off)" by (cases x)
  let ?v = "load64 (g_mem s) (unat (g_reg s b) + off)"
  let ?s = "s\<lparr>g_reg := (g_reg s)(r := ?v)\<rparr>"
  have "off + 8 \<le> n" using Cons.prems(2) x by auto
  then have one: "exec_instr (Ld r (of_nat off) b) s = ?s" using slot_addr [OF Cons.prems(3)] by simp
  have b: "g_reg ?s b = g_reg s b" using Cons.prems(4) x by auto
  have mem: "g_mem ?s = g_mem s" by simp
  have "run_code (loads b xs) ?s =
    ?s\<lparr>g_reg := \<lambda>r. case map_of xs r of None \<Rightarrow> g_reg ?s r | Some off \<Rightarrow> load64 (g_mem s) (unat (g_reg s b) + off)\<rparr>"
    using Cons.IH [of ?s] Cons.prems unfolding b mem by simp
  moreover have "map_of xs r = None" using Cons.prems(1) x by (auto simp: map_of_eq_None_iff)
  ultimately show ?case using one x by (auto simp: loads_def fun_eq_iff split: option.splits)
qed

lemma run_loads_other:
  assumes "distinct (map fst xs)" "slots n xs" "b \<notin> fst ` set xs" "unat (g_reg s b) + n \<le> 2 ^ 64"
  shows "run_code (loads b xs) s =
    s\<lparr>g_reg := \<lambda>r. case map_of xs r of None \<Rightarrow> g_reg s r | Some off \<Rightarrow> load64 (g_mem s) (unat (g_reg s b) + off)\<rparr>"
proof (rule run_loads [OF assms(1) _ assms(4)])
  show "\<forall>x\<in>set xs. snd x + 8 \<le> n" using assms(2) by (simp add: slots_def)
qed (use assms(3) in force)

lemma slot_addr_numeral:
  "unat f + n \<le> 2 ^ 64 \<Longrightarrow> numeral k + 8 \<le> n \<Longrightarrow> unat (f + numeral k :: usize) = unat f + numeral k"
  using slot_addr [of f n "numeral k"] by simp

section \<open>User and kernel mode\<close>

text \<open>Where the trapframe keeps a register.\<close>

fun frame_off :: "reg \<Rightarrow> nat" where
  "frame_off Ra = 40" | "frame_off Sp = 48" | "frame_off Gp = 56" | "frame_off Tp = 64"
| "frame_off T0 = 72" | "frame_off T1 = 80" | "frame_off T2 = 88" | "frame_off S0 = 96" | "frame_off S1 = 104"
| "frame_off A0 = TF_AX 0" | "frame_off A1 = TF_AX 1" | "frame_off A2 = TF_AX 2" | "frame_off A3 = TF_AX 3"
| "frame_off A4 = TF_AX 4" | "frame_off A5 = TF_AX 5" | "frame_off A6 = TF_AX 6" | "frame_off A7 = TF_AX 7"
| "frame_off S2 = 176" | "frame_off S3 = 184" | "frame_off S4 = 192" | "frame_off S5 = 200" | "frame_off S6 = 208"
| "frame_off S7 = 216" | "frame_off S8 = 224" | "frame_off S9 = 232" | "frame_off S10 = 240" | "frame_off S11 = 248"
| "frame_off T3 = 256" | "frame_off T4 = 264" | "frame_off T5 = 272" | "frame_off T6 = 280"

definition frame_regs :: "(reg \<times> nat) list" where
  "frame_regs = map (\<lambda>r. (r, frame_off r)) [Ra, Sp, Gp, Tp, T0, T1, T2, S0, S1, A1, A2, A3, A4, A5, A6, A7,
     S2, S3, S4, S5, S6, S7, S8, S9, S10, S11, T3, T4, T5, T6]"

lemma frame_regs_slots: "slots 288 frame_regs"
  by (simp add: slots_def frame_regs_def tf_offsets)

lemma uservec_split: "uservec = Csrrw A0 Sscratch A0 # saves A0 frame_regs @
    [Csrr T0 Sscratch, Sd T0 112 A0, Csrr T0 Sepc, Sd T0 24 A0, Ld Sp 8 A0, Ld Tp 32 A0, Ld T0 16 A0, Ld T1 0 A0,
     Csrw Satp T1, SfenceVma, Jr T0]"
  by (simp add: uservec_def saves_def frame_regs_def tf_offsets)

lemma userret_split: "userret = [Csrw Satp A1, SfenceVma, Ld T0 112 A0, Csrw Sscratch T0] @ loads A0 frame_regs @
    [Csrrw A0 Sscratch A0, Sret]"
  by (simp add: userret_def loads_def frame_regs_def tf_offsets)

lemma frame_regs_of: "r \<noteq> A0 \<Longrightarrow> (r, frame_off r) \<in> set frame_regs"
  by (cases r) (simp_all add: frame_regs_def)

lemma frame_off_slot: "frame_off r mod 8 = 0 \<and> 40 \<le> frame_off r \<and> frame_off r + 8 \<le> 288"
  by (cases r) (simp_all add: tf_offsets)

lemma frame_off_A0: "r \<noteq> A0 \<Longrightarrow> frame_off r + 8 \<le> 112 \<or> 120 \<le> frame_off r"
  by (cases r) (simp_all add: tf_offsets)

lemma frame_regs_high: "off \<in> snd ` set frame_regs \<Longrightarrow> 40 \<le> off"
  by (auto simp: frame_regs_def tf_offsets)

lemma uservec_saves:
  assumes f: "g_csr s Sscratch = f" "unat f + 288 \<le> 2 ^ 64" and k: "k = run_code uservec s"
  shows "load64 (g_mem k) (unat f + frame_off r) = g_reg s r"
    "load64 (g_mem k) (unat f + TF_EPC) = g_csr s Sepc"
    "g_reg k A0 = f"
    "g_reg k Sp = load64 (g_mem s) (unat f + TF_KERNEL_SP)"
    "g_reg k Tp = load64 (g_mem s) (unat f + TF_KERNEL_HARTID)"
    "g_csr k Satp = load64 (g_mem s) (unat f + TF_KERNEL_SATP)"
    "g_pc k = load64 (g_mem s) (unat f + TF_KERNEL_TRAP)"
    "x < unat f \<or> unat f + 288 \<le> x \<Longrightarrow> g_mem k x = g_mem s x"
proof -
  let ?s = "exec_instr (Csrrw A0 Sscratch A0) s"
  have A0: "g_reg ?s A0 = f" using f(1) by simp
  obtain m where m: "run_code (saves A0 frame_regs) ?s = ?s\<lparr>g_mem := m\<rparr>"
    "\<forall>(r, off)\<in>set frame_regs. load64 m (unat f + off) = g_reg ?s r"
    "\<forall>off. off mod 8 = 0 \<and> off \<notin> snd ` set frame_regs \<longrightarrow> load64 m (unat f + off) = load64 (g_mem ?s) (unat f + off)"
    "\<forall>x. x < unat f \<or> unat f + 288 \<le> x \<longrightarrow> m x = g_mem ?s x"
    using run_saves [OF frame_regs_slots, of ?s A0] f(2) unfolding A0 by blast
  have low: "load64 m (unat f + off) = load64 (g_mem s) (unat f + off)" if "off mod 8 = 0" "off < 40" for off
    using m(3) [THEN spec, of off] that frame_regs_high [of off] by auto
  note addr = slot_addr_numeral [OF f(2)]
  have k: "k = s\<lparr>g_mem := store64 (store64 m (unat f + 112) (g_reg s A0)) (unat f + 24) (g_csr s Sepc),
      g_csr := (g_csr s)(Sscratch := g_reg s A0, Satp := load64 (g_mem s) (unat f)),
      g_reg := (g_reg s)(A0 := f, Sp := load64 (g_mem s) (unat f + 8), Tp := load64 (g_mem s) (unat f + 32),
        T0 := load64 (g_mem s) (unat f + 16), T1 := load64 (g_mem s) (unat f)), g_pc := load64 (g_mem s) (unat f + 16)\<rparr>"
    unfolding k uservec_split run_simps run_append m(1)
    using f(1) low [of 0] low [of 8] low [of 16] low [of 32] by (simp add: addr mem_simps fun_eq_iff fun_upd_def)
  show "load64 (g_mem k) (unat f + frame_off r) = g_reg s r"
  proof (cases "r = A0")
    case True
    then show ?thesis by (simp add: k mem_simps tf_offsets)
  next
    case False
    then show ?thesis using m(2) frame_regs_of [of r] frame_off_A0 [of r] frame_off_slot [of r]
      by (auto simp: k mem_simps)
  qed
  show "g_mem k x = g_mem s x" if "x < unat f \<or> unat f + 288 \<le> x"
    using that m(4) by (auto simp: k mem_simps)
  show "load64 (g_mem k) (unat f + TF_EPC) = g_csr s Sepc" "g_reg k A0 = f"
    "g_reg k Sp = load64 (g_mem s) (unat f + TF_KERNEL_SP)" "g_reg k Tp = load64 (g_mem s) (unat f + TF_KERNEL_HARTID)"
    "g_csr k Satp = load64 (g_mem s) (unat f + TF_KERNEL_SATP)" "g_pc k = load64 (g_mem s) (unat f + TF_KERNEL_TRAP)"
    by (simp_all add: k tf_offsets)
qed

lemma userret_restores:
  assumes f: "g_reg u A0 = f" "unat f + 288 \<le> 2 ^ 64"
  shows "run_code userret u = u\<lparr>g_reg := \<lambda>r. load64 (g_mem u) (unat f + frame_off r),
    g_csr := (g_csr u)(Satp := g_reg u A1, Sscratch := f), g_pc := g_csr u Sepc\<rparr>"
proof -
  let ?a = "load64 (g_mem u) (unat f + 112)"
  let ?u = "u\<lparr>g_csr := (g_csr u)(Satp := g_reg u A1, Sscratch := ?a), g_reg := (g_reg u)(T0 := ?a)\<rparr>"
  have 1: "run_code [Csrw Satp A1, SfenceVma, Ld T0 112 A0, Csrw Sscratch T0] u = ?u"
    using slot_addr_numeral [OF f(2)] f(1) by simp
  have d: "distinct (map fst frame_regs)" "A0 \<notin> fst ` set frame_regs" by (simp_all add: frame_regs_def)
  have m: "map_of frame_regs r = (if r = A0 then None else Some (frame_off r))" for r
    using frame_regs_of [of r] d by (auto simp: map_of_eq_None_iff intro: map_of_is_SomeI)
  have b: "g_reg ?u A0 = f" "g_mem ?u = g_mem u" using f(1) by simp_all
  have "run_code (loads A0 frame_regs) ?u = ?u\<lparr>g_reg := \<lambda>r. case map_of frame_regs r of None \<Rightarrow> g_reg ?u r
      | Some off \<Rightarrow> load64 (g_mem u) (unat f + off)\<rparr>"
    using run_loads_other [OF d(1) frame_regs_slots d(2), of ?u] f(2) unfolding b by blast
  also have "(\<lambda>r. case map_of frame_regs r of None \<Rightarrow> g_reg ?u r | Some off \<Rightarrow> load64 (g_mem u) (unat f + off)) =
      (\<lambda>r. if r = A0 then f else load64 (g_mem u) (unat f + frame_off r))"
    using b(1) by (auto simp: m fun_eq_iff)
  finally have 2: "run_code (loads A0 frame_regs) ?u =
    ?u\<lparr>g_reg := \<lambda>r. if r = A0 then f else load64 (g_mem u) (unat f + frame_off r)\<rparr>" .
  show ?thesis unfolding userret_split run_append 1 2 by (auto simp: fun_eq_iff tf_offsets)
qed

section \<open>Contexts\<close>

definition context_at :: "pmem \<Rightarrow> nat \<Rightarrow> kcontext" where
  "context_at m a = \<lparr>cx_ra = load64 m a, cx_sp = load64 m (a + 8), cx_s = map (\<lambda>i. load64 m (a + 16 + 8 * i)) [0..<12]\<rparr>"

definition saved_regs :: "(reg \<Rightarrow> usize) \<Rightarrow> kcontext" where
  "saved_regs g = \<lparr>cx_ra = g Ra, cx_sp = g Sp, cx_s = map g [S0, S1, S2, S3, S4, S5, S6, S7, S8, S9, S10, S11]\<rparr>"

definition context_regs :: "(reg \<times> nat) list" where
  "context_regs = [(Ra, 0), (Sp, 8), (S0, 16), (S1, 24), (S2, 32), (S3, 40), (S4, 48), (S5, 56), (S6, 64), (S7, 72),
     (S8, 80), (S9, 88), (S10, 96), (S11, 104)]"

lemma switch_split: "switch = saves A0 context_regs @ loads A1 context_regs @ [Jr Ra]"
  by (simp add: switch_def saves_def loads_def context_regs_def)

lemma context_regs_slots: "slots 112 context_regs" "distinct (map fst context_regs)" "A1 \<notin> fst ` set context_regs"
  by (simp_all add: slots_def context_regs_def)

lemma upt12: "[0..<12] = [0, 1, 2, 3, 4, 5, 6, 7, 8, 9, 10, 11 :: nat]"
  by (simp add: upt_rec)

lemma context_at_iff: "context_at m a = saved_regs g \<longleftrightarrow> (\<forall>(r, off)\<in>set context_regs. load64 m (a + off) = g r)"
  by (simp add: context_at_def saved_regs_def context_regs_def upt12 ac_simps)

lemma load64_cong: "(\<And>x. a \<le> x \<Longrightarrow> x < a + 8 \<Longrightarrow> m x = m' x) \<Longrightarrow> load64 m a = load64 m' a"
  by (auto simp: load64_def load_bytes_def intro!: arg_cong [of _ _ of_le])

lemma switch_effect:
  assumes "old = unat (g_reg s A0)" "new = unat (g_reg s A1)" "old + 112 \<le> 2 ^ 64" "new + 112 \<le> 2 ^ 64"
    and "old + 112 \<le> new \<or> new + 112 \<le> old" and t: "t = run_code switch s"
  shows "context_at (g_mem t) old = saved_regs (g_reg s)" "saved_regs (g_reg t) = context_at (g_mem s) new"
    "g_pc t = g_reg t Ra" "r \<notin> fst ` set context_regs \<Longrightarrow> g_reg t r = g_reg s r"
proof -
  obtain m where m: "run_code (saves A0 context_regs) s = s\<lparr>g_mem := m\<rparr>"
    "\<forall>(r, off)\<in>set context_regs. load64 m (old + off) = g_reg s r"
    "\<forall>x. x < old \<or> old + 112 \<le> x \<longrightarrow> m x = g_mem s x"
    using run_saves [OF context_regs_slots(1), of s A0] assms(1,3) by blast
  let ?g = "\<lambda>r. case map_of context_regs r of None \<Rightarrow> g_reg s r | Some off \<Rightarrow> load64 m (new + off)"
  have base: "g_reg (s\<lparr>g_mem := m\<rparr>) = g_reg s" "g_mem (s\<lparr>g_mem := m\<rparr>) = m" by simp_all
  have "run_code (loads A1 context_regs) (s\<lparr>g_mem := m\<rparr>) = s\<lparr>g_mem := m, g_reg := ?g\<rparr>"
    using run_loads_other [OF context_regs_slots(2,1,3), of "s\<lparr>g_mem := m\<rparr>"] assms(2,4) unfolding base by blast
  then have t: "t = s\<lparr>g_mem := m, g_reg := ?g, g_pc := ?g Ra\<rparr>"
    unfolding t switch_split run_append m(1) by simp
  have same: "load64 m (new + off) = load64 (g_mem s) (new + off)" if "off + 8 \<le> 112" for off
    using m(3) assms(5) that by (intro load64_cong) auto
  have "\<forall>(r, off)\<in>set context_regs. load64 (g_mem s) (new + off) = ?g r"
    using same [of 0] by (simp add: context_regs_def same)
  then show "saved_regs (g_reg t) = context_at (g_mem s) new"
    unfolding context_at_iff [of "g_mem s" new "g_reg t", symmetric] by (simp add: t context_at_iff [symmetric])
  show "context_at (g_mem t) old = saved_regs (g_reg s)" using m(2) by (simp add: t context_at_iff)
  show "g_pc t = g_reg t Ra" by (simp add: t)
  show "g_reg t r = g_reg s r" if "r \<notin> fst ` set context_regs"
    using that by (simp add: t map_of_eq_None_iff [THEN iffD2])
qed

section \<open>Traps from the kernel\<close>

definition stack_regs :: "(reg \<times> nat) list" where
  "stack_regs = [(Ra, 0), (Sp, 8), (Gp, 16), (Tp, 24), (T0, 32), (T1, 40), (T2, 48), (S0, 56), (S1, 64), (A0, 72), (A1, 80),
     (A2, 88), (A3, 96), (A4, 104), (A5, 112), (A6, 120), (A7, 128), (S2, 136), (S3, 144), (S4, 152), (S5, 160), (S6, 168),
     (S7, 176), (S8, 184), (S9, 192), (S10, 200), (S11, 208), (T3, 216), (T4, 224), (T5, 232), (T6, 240)]"

definition back_regs :: "(reg \<times> nat) list" where
  "back_regs = filter (\<lambda>x. fst x \<noteq> Tp) stack_regs"

lemma kernelvec_split: "kernelvec_enter = Addi Sp Sp (- 256) # saves Sp stack_regs"
  "kernelvec_leave = loads Sp back_regs @ [Addi Sp Sp 256, Sret]"
  by (simp_all add: kernelvec_enter_def kernelvec_leave_def saves_def loads_def back_regs_def stack_regs_def)

lemma stack_regs_slots: "slots 256 stack_regs" "distinct (map fst back_regs)" "\<forall>x\<in>set back_regs. snd x + 8 \<le> 256"
  by (simp_all add: slots_def stack_regs_def back_regs_def)

lemma back_regs_of: "r \<noteq> Tp \<Longrightarrow> \<exists>off. map_of back_regs r = Some off \<and> (r, off) \<in> set stack_regs"
  by (cases r) (simp_all add: back_regs_def stack_regs_def)

lemma back_regs_Tp: "map_of back_regs Tp = None"
  by (simp add: back_regs_def stack_regs_def)

lemma kernelvec_enter_saves:
  assumes "256 \<le> unat (g_reg s Sp)" and k: "k = run_code kernelvec_enter s" and f: "f = g_reg s Sp - 256"
  shows "g_reg k = (g_reg s)(Sp := f)" "unat f = unat (g_reg s Sp) - 256" "unat f + 256 \<le> 2 ^ 64"
    "\<forall>(r, off)\<in>set stack_regs. load64 (g_mem k) (unat f + off) = ((g_reg s)(Sp := f)) r"
    "\<forall>x. x < unat f \<or> unat f + 256 \<le> x \<longrightarrow> g_mem k x = g_mem s x"
proof -
  let ?s = "s\<lparr>g_reg := (g_reg s)(Sp := f)\<rparr>"
  show uf: "unat f = unat (g_reg s Sp) - 256"
    using assms(1) by (simp add: f unat_sub word_le_nat_alt)
  have base: "g_reg ?s Sp = f" "g_reg ?s = (g_reg s)(Sp := f)" "g_mem ?s = g_mem s" by simp_all
  show le: "unat f + 256 \<le> 2 ^ 64" using uf assms(1) unsigned_less [of "g_reg s Sp", where ?'a = nat] by simp
  obtain m where m: "run_code (saves Sp stack_regs) ?s = ?s\<lparr>g_mem := m\<rparr>"
    "\<forall>(r, off)\<in>set stack_regs. load64 m (unat f + off) = g_reg ?s r"
    "\<forall>x. x < unat f \<or> unat f + 256 \<le> x \<longrightarrow> m x = g_mem ?s x"
    using run_saves [OF stack_regs_slots(1), of ?s Sp] le unfolding base(1) by blast
  have k: "k = ?s\<lparr>g_mem := m\<rparr>" unfolding k kernelvec_split run_simps m(1) [symmetric] by (simp add: f)
  show "g_reg k = (g_reg s)(Sp := f)" by (simp add: k)
  show "\<forall>(r, off)\<in>set stack_regs. load64 (g_mem k) (unat f + off) = ((g_reg s)(Sp := f)) r"
    using m(2) unfolding base(2) by (simp add: k)
  show "\<forall>x. x < unat f \<or> unat f + 256 \<le> x \<longrightarrow> g_mem k x = g_mem s x" using m(3) by (simp add: k)
qed

lemma kernelvec_leave_restores:
  assumes "g_reg u Sp = f" "unat f + 256 \<le> 2 ^ 64"
    and saved: "\<forall>(r, off)\<in>set stack_regs. load64 (g_mem u) (unat f + off) = g r" and g: "g Sp = f"
  shows "run_code kernelvec_leave u = u\<lparr>g_reg := g(Tp := g_reg u Tp, Sp := f + 256), g_pc := g_csr u Sepc\<rparr>"
proof -
  have sp: "\<forall>off. (Sp, off) \<in> set back_regs \<longrightarrow> load64 (g_mem u) (unat (g_reg u Sp) + off) = g_reg u Sp"
    using saved g assms(1) by (auto simp: back_regs_def)
  have "run_code (loads Sp back_regs) u =
      u\<lparr>g_reg := \<lambda>r. case map_of back_regs r of None \<Rightarrow> g_reg u r | Some off \<Rightarrow> load64 (g_mem u) (unat f + off)\<rparr>"
    using run_loads [OF stack_regs_slots(2,3) _ sp] assms(2) unfolding assms(1) by blast
  also have "(\<lambda>r. case map_of back_regs r of None \<Rightarrow> g_reg u r | Some off \<Rightarrow> load64 (g_mem u) (unat f + off)) = g(Tp := g_reg u Tp)"
    using saved back_regs_of by (fastforce simp: fun_eq_iff back_regs_Tp split: option.splits)
  finally show ?thesis unfolding kernelvec_split run_append using g by (simp add: fun_eq_iff)
qed

section \<open>Timer interrupts\<close>

definition scratch_at :: "pmem \<Rightarrow> nat \<Rightarrow> usize list" where
  "scratch_at m a = map (\<lambda>i. load64 m (a + 8 * i)) [0..<5]"

text \<open>The handler does what \<^const>\<open>timervec\<close> describes and leaves every register as it was.\<close>

lemma timervec_code_refines:
  assumes "g_csr s Mscratch = f" "unat f + 40 \<le> 2 ^ 64" "a = load64 (g_mem s) (unat f + 24)"
    and "unat a + 8 \<le> unat f \<or> unat f + 40 \<le> unat a"
  shows "\<exists>m. (\<forall>x. x < unat f \<or> unat f + 24 \<le> x \<longrightarrow> m x = g_mem s x) \<and>
    (let (raised, m') = timervec (\<lambda>a m. (load64 m (unat a), m)) (\<lambda>a v m. store64 m (unat a) v) (scratch_at (g_mem s) (unat f)) m in
     run_code timervec_code s = s\<lparr>g_mem := m', g_csr := (g_csr s)(Sip := if raised then 2 else g_csr s Sip), g_pc := g_csr s Mepc\<rparr>)"
proof -
  note addr = slot_addr_numeral [OF assms(2)]
  let ?m = "store64 (store64 (store64 (g_mem s) (unat f) (g_reg s A1)) (unat f + 8) (g_reg s A2)) (unat f + 16) (g_reg s A3)"
  have "\<forall>x. x < unat f \<or> unat f + 24 \<le> x \<longrightarrow> ?m x = g_mem s x" by (simp add: store64_outside)
  moreover have "run_code timervec_code s = s\<lparr>g_mem := store64 ?m (unat a) (load64 ?m (unat a) + load64 (g_mem s) (unat f + 32)),
      g_csr := (g_csr s)(Sip := 2), g_pc := g_csr s Mepc\<rparr>"
    using assms(1,3,4) by (auto simp: timervec_code_def addr mem_simps fun_eq_iff)
  ultimately show ?thesis
    using assms(3) by (intro exI [of _ ?m]) (simp add: timervec_def scratch_at_def upt_rec)
qed

text \<open>Each hart gets a stack of its own.\<close>

lemma entry_stack: "g_reg (run_code (entry_code stack0) s) Sp = stack0 + 0x4000 * (g_csr s Mhartid + 1)"
  by (simp add: entry_code_def)

section \<open>Properties\<close>

text \<open>C7. A trap from user mode and the return to it are transparent but for what the kernel changes.
  \<^verbatim>\<open>uservec\<close> saves every register and the program counter in the trapframe that \<^verbatim>\<open>sscratch\<close> points to, touches
  no other memory, and enters the handler named there with the stack, hart number and page table found
  there. When the kernel leaves the saved registers alone except for those in \<open>C\<close>, \<^verbatim>\<open>userret\<close> gives every
  other register the value it had at the trap and those in \<open>C\<close> the value in the trapframe, installs the page
  table it is given, continues at the program counter in \<^verbatim>\<open>sepc\<close>, and leaves \<^verbatim>\<open>sscratch\<close> pointing to the
  trapframe for the next trap.\<close>

theorem trampoline_roundtrip:
  assumes "g_csr s Sscratch = f" "unat f + 288 \<le> 2 ^ 64" "k = run_code uservec s"
    and "g_reg u A0 = f" "\<forall>r. r \<notin> C \<longrightarrow> load64 (g_mem u) (unat f + frame_off r) = load64 (g_mem k) (unat f + frame_off r)"
    and "u' = run_code userret u"
  shows "load64 (g_mem k) (unat f + TF_EPC) = g_csr s Sepc \<and>
    g_reg k Sp = load64 (g_mem s) (unat f + TF_KERNEL_SP) \<and> g_reg k Tp = load64 (g_mem s) (unat f + TF_KERNEL_HARTID) \<and>
    g_csr k Satp = load64 (g_mem s) (unat f + TF_KERNEL_SATP) \<and> g_pc k = load64 (g_mem s) (unat f + TF_KERNEL_TRAP) \<and>
    (\<forall>x. x < unat f \<or> unat f + 288 \<le> x \<longrightarrow> g_mem k x = g_mem s x) \<and>
    (\<forall>r. g_reg u' r = (if r \<in> C then load64 (g_mem u) (unat f + frame_off r) else g_reg s r)) \<and>
    g_csr u' Satp = g_reg u A1 \<and> g_csr u' Sscratch = f \<and> g_pc u' = g_csr u Sepc \<and> g_mem u' = g_mem u"
  using uservec_saves [OF assms(1-3)] userret_restores [OF assms(4,2)] assms(5,6) by simp

definition idle_regs :: asm_state where
  "idle_regs = \<lparr>g_reg = (\<lambda>_. 0x1000), g_csr = (\<lambda>_. 0x2000), g_mem = (\<lambda>_. 0), g_pc = 0\<rparr>"

theorem trampoline_roundtrip_witness:
  "\<exists>k. k = run_code uservec idle_regs \<and> g_reg (run_code userret k) S1 = 0x1000 \<and> g_csr (run_code userret k) Sscratch = 0x2000"
  using trampoline_roundtrip [of idle_regs "0x2000" "run_code uservec idle_regs" "run_code uservec idle_regs" "{}"]
    uservec_saves(3) [of idle_regs "0x2000"]
  by (simp add: idle_regs_def)

text \<open>C8. The context switch resumes where it left. It stores the callee-saved registers in the old
  context and loads them from the new one, changing no other register, and continues at the new
  context's return address. A later switch to the old context, as long as that is unchanged, gives back
  the registers as they were and returns to the caller of the first switch.\<close>

theorem switch_resumes:
  assumes "old = unat (g_reg s A0)" "new = unat (g_reg s A1)" "old + 112 \<le> 2 ^ 64" "new + 112 \<le> 2 ^ 64"
    "old + 112 \<le> new \<or> new + 112 \<le> old" "t = run_code switch s"
    and "other = unat (g_reg u A0)" "old = unat (g_reg u A1)" "other + 112 \<le> 2 ^ 64" "other + 112 \<le> old \<or> old + 112 \<le> other"
    "context_at (g_mem u) old = context_at (g_mem t) old" "u' = run_code switch u"
  shows "context_at (g_mem t) old = saved_regs (g_reg s) \<and> saved_regs (g_reg t) = context_at (g_mem s) new \<and>
    g_pc t = cx_ra (context_at (g_mem s) new) \<and> g_reg t Tp = g_reg s Tp \<and>
    saved_regs (g_reg u') = saved_regs (g_reg s) \<and> g_pc u' = g_reg s Ra"
proof -
  note t = switch_effect [OF assms(1-6)] and u = switch_effect [OF assms(7,8,9,3,10,12)]
  have ra: "g_reg t Ra = cx_ra (saved_regs (g_reg t))" "g_reg u' Ra = cx_ra (saved_regs (g_reg u'))" "g_reg s Ra = cx_ra (saved_regs (g_reg s))"
    by (simp_all add: saved_regs_def)
  have "Tp \<notin> fst ` set context_regs" by (simp add: context_regs_def)
  then show ?thesis using t(1,2,3) t(4) [of Tp] u(2,3) assms(11) ra by simp
qed

definition two_contexts :: asm_state where
  "two_contexts = \<lparr>g_reg = (\<lambda>_. 0)(A0 := 0x1000, A1 := 0x2000, Ra := 0x80000000), g_csr = (\<lambda>_. 0), g_mem = (\<lambda>_. 0), g_pc = 0\<rparr>"

theorem switch_resumes_witness:
  "\<exists>t u. t = run_code switch two_contexts \<and> u = t\<lparr>g_reg := (g_reg t)(A0 := 0x2000, A1 := 0x1000)\<rparr> \<and>
     g_pc (run_code switch u) = 0x80000000"
proof -
  let ?t = "run_code switch two_contexts"
  let ?u = "?t\<lparr>g_reg := (g_reg ?t)(A0 := 0x2000, A1 := 0x1000)\<rparr>"
  have "g_pc (run_code switch ?u) = g_reg two_contexts Ra"
    using switch_resumes [OF refl refl _ _ _ refl refl _ _ _ _ refl, of two_contexts ?u] by (simp add: two_contexts_def)
  then show ?thesis by (simp add: two_contexts_def)
qed

text \<open>C9. A trap taken in the kernel is transparent to the code it interrupts: \<^verbatim>\<open>kernelvec\<close> writes only to the
  256 bytes below the stack pointer, and when the handler gives the stack pointer and these bytes back,
  every register is as before, except for the hart number, which is the one of the hart the code
  continues on; it continues at the program counter in \<^verbatim>\<open>sepc\<close>.\<close>

theorem kernelvec_transparent:
  assumes "256 \<le> unat (g_reg s Sp)" "k = run_code kernelvec_enter s"
    and "g_reg u Sp = g_reg k Sp" "\<forall>x. unat (g_reg k Sp) \<le> x \<and> x < unat (g_reg k Sp) + 256 \<longrightarrow> g_mem u x = g_mem k x"
  shows "(\<forall>x. x < unat (g_reg s Sp) - 256 \<or> unat (g_reg s Sp) \<le> x \<longrightarrow> g_mem k x = g_mem s x) \<and>
    run_code kernelvec_leave u = u\<lparr>g_reg := (g_reg s)(Tp := g_reg u Tp), g_pc := g_csr u Sepc\<rparr>"
proof -
  let ?f = "g_reg s Sp - 256"
  note k = kernelvec_enter_saves [OF assms(1,2) refl]
  have sp: "g_reg u Sp = ?f" "g_reg k Sp = ?f" using assms(3) k(1) by simp_all
  have "load64 (g_mem u) (unat ?f + off) = load64 (g_mem k) (unat ?f + off)" if "(r, off) \<in> set stack_regs" for r off
    using assms(4) that stack_regs_slots(1) by (intro load64_cong) (fastforce simp: sp slots_def)
  then have "\<forall>(r, off)\<in>set stack_regs. load64 (g_mem u) (unat ?f + off) = ((g_reg s)(Sp := ?f)) r"
    using k(4) by fastforce
  then have "run_code kernelvec_leave u = u\<lparr>g_reg := (g_reg s)(Sp := ?f, Tp := g_reg u Tp, Sp := ?f + 256), g_pc := g_csr u Sepc\<rparr>"
    using kernelvec_leave_restores [OF sp(1) k(3), of "(g_reg s)(Sp := ?f)"] by simp
  moreover have "(g_reg s)(Sp := ?f, Tp := g_reg u Tp, Sp := ?f + 256) = (g_reg s)(Tp := g_reg u Tp)"
    by (simp add: fun_eq_iff)
  ultimately show ?thesis using k(2,5) assms(1) by simp
qed

theorem kernelvec_transparent_witness:
  "g_reg (run_code kernelvec_leave (run_code kernelvec_enter idle_regs)) A3 = 0x1000"
  using kernelvec_transparent [of idle_regs "run_code kernelvec_enter idle_regs" "run_code kernelvec_enter idle_regs"]
  by (simp add: idle_regs_def)

end
