(* ===== verification/Spec2Isabelle.thy ===== *)
theory Spec2Isabelle
  imports Rx_Memory_Props Rx_Log_Props Rx_Fs_Props Rx_Path Rx_Proc_Props Rx_Pipe_User Rx_Sleeplock Rx_Unlink Rx_Ulib Rx_Asm
begin

text \<open>
  Verification of rx-os, a small Unix-like kernel in Rust for RISC-V (\<^verbatim>\<open>src/rx-kernel\<close>; paths below are relative
  to \<^verbatim>\<open>src/rx-kernel/src/bin/kernel\<close> unless they start with \<^verbatim>\<open>src/\<close>).

  \<^bold>\<open>The program.\<close>  The first hart runs \<^verbatim>\<open>entry.S\<close>, \<^verbatim>\<open>start\<close> and \<^verbatim>\<open>rust_main\<close>, which initialise the page
  allocator, the kernel's page table, the process table, the devices and the first process; then every hart
  runs the scheduler.  User programs enter the kernel through the trampoline, \<^verbatim>\<open>user_trap\<close> and the system-call
  dispatcher.  System calls work on processes, on user memory, and on open files, which are pipes, devices or
  inodes.  Inodes lie on a log over a buffer cache over the disk driver.

  \<^bold>\<open>How it is modelled.\<close>  Rust structures are records, enumerations are datatypes, machine integers are words
  of their width, arrays are lists, and memory is a function from addresses to bytes, so that the free list,
  page tables and trapframes lie in it as they do in the machine.  Each function of the source is a definition
  that takes the state and returns it, in the outcome type of \<^verbatim>\<open>Rx_Prelude\<close>: \<open>Inl\<close> is a panic, including
  arithmetic overflow, an index out of range and an unwrapped \<^verbatim>\<open>None\<close>, as in the development build that the
  Makefile runs; an error the source returns is a value.  Where code goes to sleep the definition ends with the
  channel, and resuming it is a further call; a spin lock is taken and left within a step, and the lock itself
  is modelled with its interleavings.  Device registers, linker addresses and the padding of structures are
  parameters (\<open>machine\<close>, \<open>board\<close>, \<open>image\<close> and function arguments), over abstract device states.

  \<^bold>\<open>Theories, in the order of the layers.\<close>
  \<^item> \<^verbatim>\<open>Rx_Prelude\<close>: the outcome type and its rules, checked arithmetic, bytes and memory, \<open>okR\<close> for what holds
    of every run that returns, and the collections \<open>outcome_simps\<close>, \<open>mem_simps\<close> and \<open>frames\<close>.
  \<^item> \<^verbatim>\<open>Rx_Address\<close>, \<^verbatim>\<open>Rx_Pte\<close>, \<^verbatim>\<open>Rx_Kalloc\<close>, \<^verbatim>\<open>Rx_Pagetable\<close>: \<^verbatim>\<open>memory/\<close>.  \<open>kmem\<close> is physical memory with the
    allocator's head and counts.  The locale \<open>page_allocator\<close> is the contract of the allocator, interpreted on
    \<open>ka_alloc\<close> and \<open>ka_dealloc\<close>.  \<^verbatim>\<open>Rx_Vspace\<close> gives page tables a meaning: \<open>vmap\<close> is the address space of a
    three-level table and \<open>vs_inv\<close> its invariant; \<^verbatim>\<open>Rx_Uvm\<close>, \<^verbatim>\<open>Rx_Cow\<close>, \<^verbatim>\<open>Rx_Memory\<close> and \<^verbatim>\<open>Rx_Memory_Props\<close>
    show that mapping, unmapping, growing, copying and copy-on-write refine updates of it.
  \<^item> \<^verbatim>\<open>Rx_Kmap\<close>, \<^verbatim>\<open>Rx_Kspace\<close>, \<^verbatim>\<open>Rx_Kboot\<close>: the kernel's own page table with its large pages; \<open>kpage\<close> is its
    meaning, \<open>kernel_space\<close> what \<^verbatim>\<open>kernel_map.rs\<close> describes.
  \<^item> \<^verbatim>\<open>Rx_Bio\<close>, \<^verbatim>\<open>Rx_Lru\<close>, \<^verbatim>\<open>Rx_Bcache\<close>: \<^verbatim>\<open>fs/bio.rs\<close>; the linked list refines a list in order of release, and
    the locale \<open>block_cache\<close> is what the log relies on.  \<^verbatim>\<open>Rx_Log\<close>, \<^verbatim>\<open>Rx_Log_Commit\<close>, \<^verbatim>\<open>Rx_Log_Crash\<close>,
    \<^verbatim>\<open>Rx_Log_Props\<close>: \<^verbatim>\<open>fs/log.rs\<close>; a commit as a sequence of disk writes, every prefix of which recovery turns
    into the old or the new contents.
  \<^item> \<^verbatim>\<open>Rx_Fs\<close>, \<^verbatim>\<open>Rx_Inode\<close>, \<^verbatim>\<open>Rx_Fs_Props\<close>, \<^verbatim>\<open>Rx_Path\<close>, \<^verbatim>\<open>Rx_Unlink\<close>: superblock, bitmap, disk inodes, the inode
    cache, directories and paths of \<^verbatim>\<open>fs/\<close>; what allocation does, that an updated inode is what is loaded
    later and no other changes, the equivalence of the cursor walk of \<^verbatim>\<open>namex\<close> with a walk over the list of names, and what removing and adding links cannot do.
  \<^item> \<^verbatim>\<open>Rx_Lock\<close>, \<^verbatim>\<open>Rx_Sleeplock\<close>: \<^verbatim>\<open>lock/\<close> and interrupt masking; step relations of contending harts and processes.
  \<^item> \<^verbatim>\<open>Rx_Proc\<close>, \<^verbatim>\<open>Rx_Proc_Props\<close>: \<^verbatim>\<open>process/\<close>; the process table, the scheduler, sleeping, waking, waiting,
    killing and signals, and the interleaving of the schedulers with timer interrupts.
  \<^item> \<^verbatim>\<open>Rx_Ring\<close>, \<^verbatim>\<open>Rx_Pipe\<close>, \<^verbatim>\<open>Rx_Pipe_User\<close>, \<^verbatim>\<open>Rx_Console\<close>, \<^verbatim>\<open>Rx_Virtio\<close>: pipes and \<^verbatim>\<open>driver/\<close>.  The locale
    \<open>byte_queue\<close> is the contract of a ring of bytes, interpreted on the pipe and on the transmit queue of the
    serial port; pipes are taken turn by turn, and a read of a pipe down to the user's memory.  The disk is a
    parameter of the driver's property, of which \<open>virtio_device\<close> states what virtio says of serving a request.
  \<^item> \<^verbatim>\<open>Rx_File\<close>, \<^verbatim>\<open>Rx_Exec\<close>, \<^verbatim>\<open>Rx_Syscall\<close>, \<^verbatim>\<open>Rx_Refs\<close>: open files, the program loader and all system calls over
    the kernel state \<open>kern\<close>; the reference counts of open files.  \<^verbatim>\<open>Rx_Ulib\<close>: the stubs of user programs,
    \<^verbatim>\<open>src/rx-kernel/src/syscall.rs\<close>.
  \<^item> \<^verbatim>\<open>Rx_Trap\<close>, \<^verbatim>\<open>Rx_Trap_Props\<close>: \<^verbatim>\<open>trap.rs\<close>, the interrupt controller, the timer and reset; the state in which
    user mode is entered.  \<^verbatim>\<open>Rx_Fs_Types\<close>, \<^verbatim>\<open>Rx_Types\<close>, \<^verbatim>\<open>Rx_Trap_Types\<close>: what Rust's types promise, as an invariant
    of every step of the kernel.
  \<^item> \<^verbatim>\<open>Rx_First\<close>, \<^verbatim>\<open>Rx_Boot\<close>: \<^verbatim>\<open>main.rs\<close> and the first process, from reset to the scheduler.  \<^verbatim>\<open>Rx_Asm\<close>: the
    routines of \<^verbatim>\<open>asm/\<close> as lists of instructions with an interpreter.
  \<^item> This theory joins the trampoline, the trap handler and the dispatcher: a system call as the user program
    sees it.

  \<^bold>\<open>What is shown.\<close>  Memory: the free list is exact, no page is handed out twice, every operation on user memory
  refines its abstract counterpart, and forks share pages until one side writes.  Disk: reads are coherent,
  commits are atomic under crashes and durable, and the log is one block short of what it reserves.  Files: descriptors and reference counts agree, path walks are
  right, allocation takes free blocks.  Concurrency: mutual exclusion of both kinds of locks, no lost wake-up of
  a sleep lock, one hart for a process as long as the places of killed processes are not reused, pipes in
  order under every interleaving.  Devices: disk requests ask for what they should and complete, serial input is taken and edited as the line discipline says.  Traps: user mode is entered only in a
  safe state, also after a trap that gave up the hart, the assembly saves and restores what it must, and a system call changes only its result.  The
  whole: the kernel boots to its first process, and its state stays typed.

  \<^bold>\<open>Bounds and fuel.\<close>  Loops over addresses and counts are functions with a measure.  The two searches of the
  buffer list take the number of buffers as fuel, which the list invariant makes enough; \<^verbatim>\<open>namex\<close> takes
  the length of the path, of which every turn consumes a byte; freeing a page table takes three levels.  Loops
  that wait for a device are partial functions into \<open>option\<close>, where \<^const>\<open>None\<close> is waiting for ever; that they
  end is proved where the device lets them.

  \<^bold>\<open>Not modelled.\<close>  Printed messages and their formatting (\<^verbatim>\<open>print.rs\<close>, \<^verbatim>\<open>logo/\<close>), which no state depends on; code
  that nothing calls: \<^verbatim>\<open>driver/vga.rs\<close>, \<^verbatim>\<open>memory/kalloc.rs\<close>, \<^verbatim>\<open>memory/mapping/temp_mapping.rs\<close>, the debug printers
  and the free functions of \<^verbatim>\<open>driver/uart.rs\<close>; the tests; single-instruction access to registers, whose effect
  is part of the operations that use it; the programs of \<^verbatim>\<open>src/rx-user\<close> and the image builder of
  \<^verbatim>\<open>src/cargo-rxmkfs\<close>, which are not part of the kernel.  Guard types and lifetimes have no run-time effect beyond
  their drop functions, which are modelled.  Memory-ordering effects weaker than the interleaving of steps are
  not considered.
\<close>

section \<open>A system call as the user program sees it\<close>

text \<open>The page of the trapframe is visible at \<^const>\<open>TRAPFRAME\<close> while the code of the trampoline runs.\<close>

definition sees_frame :: "pmem \<Rightarrow> usize \<Rightarrow> kmem \<Rightarrow> bool" where
  "sees_frame m tf km \<longleftrightarrow> (\<forall>r. load64 m (unat TRAPFRAME + frame_off r) = tf_get tf (frame_off r) km)"

lemma TRAPFRAME_room: "unat TRAPFRAME + 288 \<le> 2 ^ 64"
  by (simp add: TRAPFRAME_def TRAMPOLINE_def MAXVA_def PGSIZE_def)

lemma frame_off_user: "user_reg (frame_off r)" "frame_off r = TF_AX 0 \<longleftrightarrow> r = A0"
  by (cases r; simp add: user_reg_def tf_offsets)+

text \<open>C6. To a user program a system call changes only the result register.  From the trap to the return,
  through \<^verbatim>\<open>uservec\<close>, \<^verbatim>\<open>user_trap\<close>, the dispatcher and \<^verbatim>\<open>userret\<close>, with the trapframe mapped at its place: the handler
  finds every register of the program in the trapframe; the program continues with the handler's result, or
  minus one, in \<open>a0\<close> and otherwise with the registers and the program counter the handler left in the
  trapframe, under the page table of the process and ready for the next trap.  In particular, when the handler
  leaves the trapframe alone, every other register is as it was and the program counter is behind the call.\<close>

theorem system_call_seen_by_user:
  assumes enter: "g_csr s Sscratch = TRAPFRAME" "k = run_code uservec s" "x_sepc x = g_csr s Sepc"
      "c_process (x_hart x) = Some i" "my_data i (x_kern x) = Inr d" "sees_frame (g_mem k) (pd_trapframe d) (k_mem (x_kern x))"
    and run: "user_trap b (Some ExUserEnvCall) stval x = Inr (ToUser e, x')"
    and leave: "g_reg u A0 = ue_frame e" "g_reg u A1 = ue_satp e" "g_csr u Sepc = x_sepc x'" "my_data i (x_kern x') = Inr d'"
      "sees_frame (g_mem u) (pd_trapframe d') (k_mem (x_kern x'))" "u' = run_code userret u"
  shows "\<exists>v k'. (\<forall>r. tf_get (pd_trapframe d) (frame_off r) (k_mem (x_kern x)) = g_reg s r) \<and>
    syscall (b_mc b) i (intr_on (x_hart x)) AtStart (call_kern (g_csr s Sepc) d (x_kern x)) = Inr (SysRet v, k') \<and>
    g_reg u' = (\<lambda>r. tf_get (pd_trapframe d') (frame_off r) (k_mem k'))(A0 := call_result v) \<and>
    g_pc u' = tf_get (pd_trapframe d') TF_EPC (k_mem k') \<and>
    g_csr u' Sscratch = TRAPFRAME \<and> g_csr u' Satp = ue_satp e \<and>
    (pd_trapframe d' = pd_trapframe d \<and> (\<forall>off<288. tf_get (pd_trapframe d) off (k_mem k') =
         tf_get (pd_trapframe d) off (k_mem (call_kern (g_csr s Sepc) d (x_kern x)))) \<longrightarrow>
       g_reg u' = (g_reg s)(A0 := call_result v) \<and> g_pc u' = g_csr s Sepc + 4)"
proof -
  have saved: "tf_get (pd_trapframe d) (frame_off r) (k_mem (x_kern x)) = g_reg s r" for r
    using uservec_saves(1) [OF enter(1) TRAPFRAME_room enter(2)] enter(6) by (simp add: sees_frame_def)
  obtain v k' where k': "syscall (b_mc b) i (intr_on (x_hart x)) AtStart (call_kern (g_csr s Sepc) d (x_kern x)) = Inr (SysRet v, k')"
    "x_sepc x' = tf_get (pd_trapframe d') TF_EPC (k_mem k')"
    "tf_get (pd_trapframe d') (TF_AX 0) (k_mem (x_kern x')) = call_result v"
    "\<And>off. user_reg off \<Longrightarrow> off \<noteq> TF_AX 0 \<Longrightarrow> tf_get (pd_trapframe d') off (k_mem (x_kern x')) = tf_get (pd_trapframe d') off (k_mem k')"
    using ecall_returns_result [OF run enter(4,5)] leave(4) unfolding enter(3) by auto
  have e: "ue_frame e = TRAPFRAME" using okRD [OF user_trap_ready run] by (auto simp: user_ready_def)
  have regs: "g_reg u' = (\<lambda>r. tf_get (pd_trapframe d') (frame_off r) (k_mem k'))(A0 := call_result v)"
    "g_pc u' = tf_get (pd_trapframe d') TF_EPC (k_mem k')" "g_csr u' Sscratch = TRAPFRAME" "g_csr u' Satp = ue_satp e"
    using userret_restores [OF leave(1) [unfolded e] TRAPFRAME_room] leave(2,3,5,6) k'(2,3) k'(4) [OF frame_off_user(1)] frame_off_user(2)
    by (auto simp: sees_frame_def fun_eq_iff)
  have "g_reg u' = (g_reg s)(A0 := call_result v) \<and> g_pc u' = g_csr s Sepc + 4"
    if same: "pd_trapframe d' = pd_trapframe d" "\<forall>off<288. tf_get (pd_trapframe d) off (k_mem k') =
      tf_get (pd_trapframe d) off (k_mem (call_kern (g_csr s Sepc) d (x_kern x)))"
  proof -
    have "tf_get (pd_trapframe d) (frame_off r) (k_mem (call_kern (g_csr s Sepc) d (x_kern x))) = g_reg s r" for r
      using saved [of r] frame_off_slot [of r] by (simp add: call_kern_def tf_get_set_other tf_offsets)
    then have "tf_get (pd_trapframe d) (frame_off r) (k_mem k') = g_reg s r" for r
      using same(2) frame_off_slot [of r] by simp
    moreover have "tf_get (pd_trapframe d) TF_EPC (k_mem k') = g_csr s Sepc + 4"
      using same(2) by (simp add: call_kern_def tf_get_set TF_EPC_def)
    ultimately show ?thesis using same(1) regs by simp
  qed
  then show ?thesis using saved k'(1) regs by blast
qed

text \<open>The program of process 0 asks for its identifier, which is 7.\<close>

definition getpid_user :: asm_state where
  "getpid_user = \<lparr>g_reg = (\<lambda>_. 0)(A7 := 11), g_csr = (\<lambda>_. 0)(Sscratch := TRAPFRAME, Sepc := 0x1000), g_mem = (\<lambda>_. 0), g_pc = 0\<rparr>"

definition frame_view :: "usize \<Rightarrow> kmem \<Rightarrow> pmem" where
  "frame_view tf km = (\<lambda>a. pmem km (a - unat TRAPFRAME + unat tf))"

lemma frame_view_sees: "sees_frame (frame_view tf km) tf km"
  by (simp add: sees_frame_def frame_view_def tf_get_def load64_def load_bytes_def ac_simps)

lemma getpid_user_frame: "sees_frame (g_mem (run_code uservec getpid_user)) (pd_trapframe getpid_data) (k_mem getpid_kern)"
proof -
  have "tf_get 0x80100000 off (ka_new (\<lambda>_. 0)) = 0" for off
    by (simp add: tf_get_def ka_new_def load64_def load_bytes_def upt_rec)
  then have "tf_get 0x80100000 (frame_off r) (k_mem getpid_kern) = g_reg getpid_user r" for r
    by (cases r) (simp_all add: getpid_kern_def getpid_user_def tf_get_set tf_get_set_other TF_AX_def)
  moreover have "g_csr getpid_user Sscratch = TRAPFRAME" by (simp add: getpid_user_def)
  ultimately show ?thesis
    using uservec_saves(1) [of getpid_user TRAPFRAME "run_code uservec getpid_user", OF _ TRAPFRAME_room]
    by (simp add: sees_frame_def getpid_data_def)
qed

theorem system_call_seen_by_user_witness:
  "\<exists>u. g_reg (run_code userret u) = (g_reg getpid_user)(A0 := 7) \<and> g_pc (run_code userret u) = 0x1004"
proof -
  obtain e x' where run: "user_trap demo_board (Some ExUserEnvCall) 0 getpid_trap = Inr (ToUser e, x')"
    using getpid_trap_returns by blast
  have k: "x_kern getpid_trap = getpid_kern" "x_sepc getpid_trap = g_csr getpid_user Sepc" "c_process (x_hart getpid_trap) = Some 0"
    "g_csr getpid_user Sscratch = TRAPFRAME" "g_csr getpid_user Sepc = 0x1000"
    by (simp_all add: getpid_trap_def getpid_user_def)
  have call: "my_data 0 (call_kern 0x1000 getpid_data getpid_kern) = Inr getpid_data" by (simp add: call_kern_def getpid_data_eq)
  have d': "my_data 0 (x_kern x') = Inr getpid_data"
    using ecall_returns_result [OF run k(3), unfolded k(1), OF getpid_data_eq(2)] call by (auto simp: k getpid_syscall)
  let ?u = "\<lparr>g_reg = (\<lambda>_. 0)(A0 := ue_frame e, A1 := ue_satp e), g_csr = (\<lambda>_. x_sepc x'),
    g_mem = frame_view (pd_trapframe getpid_data) (k_mem (x_kern x')), g_pc = 0\<rparr>"
  have "g_reg (run_code userret ?u) = (g_reg getpid_user)(A0 := call_result (Inr 7)) \<and> g_pc (run_code userret ?u) = g_csr getpid_user Sepc + 4"
    using system_call_seen_by_user [OF k(4) refl k(2,3), unfolded k(1), OF getpid_data_eq(2) getpid_user_frame run, of ?u, OF _ _ _ d' _ refl]
    by (auto simp: frame_view_sees k(5) getpid_syscall)
  then show ?thesis by (auto simp: k(5) call_result_def)
qed

end
